(* ===== verification/Prelude.thy ===== *)
theory Prelude
  imports Complex_Main "HOL-Library.List_Lexorder" "HOL-Library.Char_ord"
    "HOL-Library.Multiset" "HOL-Library.Word"
begin

section \<open>Shared vocabulary of the development\<close>

text \<open>
  What every component uses: results with an error side (\<open>'e + 'a\<close>, \<open>Inl\<close> for the error
  value that the Go function returns), their sequencing, Go strings as byte lists, the
  loop that drops adjacent duplicates, and the generic facts on lists, orders and
  integers. The theorem collections of the development are declared here:
  \<open>result_simps\<close> decomposes a chain of guarded steps that succeeded, \<open>inv_intros\<close> and
  \<open>frame_simps\<close> carry the invariants and frame facts of the stateful components.
\<close>

named_theorems result_simps \<open>decomposition of successful guarded computations\<close>
named_theorems frame_simps \<open>fields an operation leaves alone\<close>
named_theorems inv_intros \<open>preservation of component invariants\<close>

subsection \<open>Results\<close>

text \<open>
  Go's \<^verbatim>\<open>if err != nil { return ..., err }\<close> is \<open>sbind\<close>; a guard that returns an error
  when a condition holds is \<open>fail_if\<close>.
\<close>

definition sbind :: "'e + 'a \<Rightarrow> ('a \<Rightarrow> 'e + 'b) \<Rightarrow> 'e + 'b" where
  "sbind m f = (case m of Inl e \<Rightarrow> Inl e | Inr x \<Rightarrow> f x)"

definition fail_if :: "bool \<Rightarrow> 'e \<Rightarrow> 'e + unit" where
  "fail_if b e = (if b then Inl e else Inr ())"

lemma sbind_simps [simp]:
  "sbind (Inl e) f = Inl e"
  "sbind (Inr x) f = f x"
  by (simp_all add: sbind_def)

lemma fail_if_simps [simp]:
  "fail_if True e = Inl e"
  "fail_if False e = Inr ()"
  by (simp_all add: fail_if_def)

lemma sbind_eq_Inr [result_simps]:
  "sbind m f = Inr y \<longleftrightarrow> (\<exists>x. m = Inr x \<and> f x = Inr y)"
  by (cases m) simp_all

lemma sbind_eq_Inl:
  "sbind m f = Inl e \<longleftrightarrow> m = Inl e \<or> (\<exists>x. m = Inr x \<and> f x = Inl e)"
  by (cases m) simp_all

lemma fail_if_eq_Inr [result_simps]: "fail_if b e = Inr u \<longleftrightarrow> \<not> b"
  by (simp add: fail_if_def)

lemma fail_if_eq_Inl [result_simps]: "fail_if b e = Inl e' \<longleftrightarrow> b \<and> e' = e"
  by (auto simp: fail_if_def)

lemma sbind_assoc: "sbind (sbind m f) g = sbind m (\<lambda>x. sbind (f x) g)"
  by (cases m) simp_all

lemma sbind_cong [fundef_cong]:
  "m = m' \<Longrightarrow> (\<And>x. m' = Inr x \<Longrightarrow> f x = f' x) \<Longrightarrow> sbind m f = sbind m' f'"
  by (cases m') simp_all

text \<open>A loop that builds a slice and returns at the first error.\<close>

fun map_result :: "('a \<Rightarrow> 'e + 'b) \<Rightarrow> 'a list \<Rightarrow> 'e + 'b list" where
  "map_result f [] = Inr []"
| "map_result f (x # xs) =
     sbind (f x) (\<lambda>y. sbind (map_result f xs) (\<lambda>ys. Inr (y # ys)))"

text \<open>A loop that threads a state and returns at the first error.\<close>

fun fold_result :: "('a \<Rightarrow> 's \<Rightarrow> 'e + 's) \<Rightarrow> 'a list \<Rightarrow> 's \<Rightarrow> 'e + 's" where
  "fold_result f [] s = Inr s"
| "fold_result f (x # xs) s = sbind (f x s) (fold_result f xs)"

lemma fold_result_invariant:
  assumes "fold_result f xs s = Inr t" "P s" "\<And>x u v. x \<in> set xs \<Longrightarrow> f x u = Inr v \<Longrightarrow> P u \<Longrightarrow> P v"
  shows "P t"
  using assms by (induction xs arbitrary: s) (auto simp: result_simps)

lemma map_result_length: "map_result f xs = Inr ys \<Longrightarrow> length ys = length xs"
  by (induction xs arbitrary: ys) (auto simp: result_simps)

lemma map_result_nth:
  "map_result f xs = Inr ys \<Longrightarrow> i < length xs \<Longrightarrow> f (xs ! i) = Inr (ys ! i)"
  by (induction xs arbitrary: ys i) (auto simp: result_simps nth_Cons split: nat.splits)

lemma map_result_set:
  "map_result f xs = Inr ys \<Longrightarrow> x \<in> set xs \<Longrightarrow> \<exists>y\<in>set ys. f x = Inr y"
  by (induction xs arbitrary: ys) (auto simp: result_simps)

lemma map_result_preimage:
  "map_result f xs = Inr ys \<Longrightarrow> y \<in> set ys \<Longrightarrow> \<exists>x\<in>set xs. f x = Inr y"
  by (induction xs arbitrary: ys) (auto simp: result_simps)

text \<open>\<^verbatim>\<open>LIMIT n\<close> on the rows of a query.\<close>

fun take_limit :: "int \<Rightarrow> 'a list \<Rightarrow> 'a list" where
  "take_limit n [] = []"
| "take_limit n (x # xs) = (if n \<le> 0 then [] else x # take_limit (n - 1) xs)"

lemma take_limit_take: "take_limit n xs = take (nat n) xs"
proof (induction xs arbitrary: n)
  case (Cons x xs)
  then show ?case by (cases "nat n") (auto simp: nat_diff_distrib')
qed simp

subsection \<open>Go strings\<close>

text \<open>
  A Go string is a byte sequence, so it is modelled as \<^typ>\<open>string\<close> with one
  character per byte; \<^verbatim>\<open>len\<close> is \<^const>\<open>length\<close> and \<^verbatim>\<open><\<close> is the lexicographic byte order
  of \<^theory_text>\<open>List_Lexorder\<close>. \<^verbatim>\<open>strings.TrimSpace\<close> strips the UTF-8 encodings of the runes that
  \<^verbatim>\<open>unicode.IsSpace\<close> accepts.
\<close>

definition go_spaces :: "string list" where
  "go_spaces =
     [[CHR 0x20], [CHR 0x09], [CHR 0x0A], [CHR 0x0B], [CHR 0x0C], [CHR 0x0D],
      [CHR 0xC2, CHR 0x85], [CHR 0xC2, CHR 0xA0], [CHR 0xE1, CHR 0x9A, CHR 0x80],
      [CHR 0xE2, CHR 0x80, CHR 0x80], [CHR 0xE2, CHR 0x80, CHR 0x81],
      [CHR 0xE2, CHR 0x80, CHR 0x82], [CHR 0xE2, CHR 0x80, CHR 0x83],
      [CHR 0xE2, CHR 0x80, CHR 0x84], [CHR 0xE2, CHR 0x80, CHR 0x85],
      [CHR 0xE2, CHR 0x80, CHR 0x86], [CHR 0xE2, CHR 0x80, CHR 0x87],
      [CHR 0xE2, CHR 0x80, CHR 0x88], [CHR 0xE2, CHR 0x80, CHR 0x89],
      [CHR 0xE2, CHR 0x80, CHR 0x8A], [CHR 0xE2, CHR 0x80, CHR 0xA8],
      [CHR 0xE2, CHR 0x80, CHR 0xA9], [CHR 0xE2, CHR 0x80, CHR 0xAF],
      [CHR 0xE2, CHR 0x81, CHR 0x9F], [CHR 0xE3, CHR 0x80, CHR 0x80]]"

fun starts_with :: "string \<Rightarrow> string \<Rightarrow> bool" where
  "starts_with [] s = True"
| "starts_with (p # ps) [] = False"
| "starts_with (p # ps) (c # cs) = (p = c \<and> starts_with ps cs)"

function strip_leading :: "string list \<Rightarrow> string \<Rightarrow> string" where
  "strip_leading es s =
     (case find (\<lambda>e. starts_with e s) es of
        None \<Rightarrow> s
      | Some e \<Rightarrow> if e = [] \<or> s = [] then s else strip_leading es (drop (length e) s))"
  by pat_completeness auto
termination
  by (relation "measure (\<lambda>(es, s). length s)") auto

declare strip_leading.simps [simp del]

definition trim_left :: "string \<Rightarrow> string" where
  "trim_left s = strip_leading go_spaces s"

definition trim_right :: "string \<Rightarrow> string" where
  "trim_right s = rev (strip_leading (map rev go_spaces) (rev s))"

definition trim_space :: "string \<Rightarrow> string" where
  "trim_space s = trim_right (trim_left s)"

lemma strip_leading_length: "length (strip_leading es s) \<le> length s"
proof (induction es s rule: strip_leading.induct)
  case (1 es s)
  show ?case
  proof (cases "find (\<lambda>e. starts_with e s) es")
    case None
    then show ?thesis by (simp add: strip_leading.simps [of es s])
  next
    case (Some e)
    then show ?thesis
      using "1.IH" [OF Some] by (auto simp: strip_leading.simps [of es s])
  qed
qed

lemma trim_space_length: "length (trim_space s) \<le> length s"
  using strip_leading_length [of "map rev go_spaces" "rev (trim_left s)"]
    strip_leading_length [of go_spaces s]
  by (simp add: trim_space_def trim_left_def trim_right_def)

lemma strip_leading_nil [simp]: "strip_leading es [] = []"
  by (simp add: strip_leading.simps [of es] split: option.splits)

lemma trim_space_nil [simp]: "trim_space [] = []"
  by (simp add: trim_space_def trim_left_def trim_right_def)

lemma trim_space_nonempty: "trim_space s \<noteq> [] \<Longrightarrow> s \<noteq> []"
  by auto

subsection \<open>Dropping adjacent duplicates\<close>

text \<open>
  The three loops \<^verbatim>\<open>deduplicated := values[:0]; for ... if deduplicated[len-1] == value
  { continue }; append\<close> of the program (missing references, twice, and relation
  references) are this fold over the sorted slice.
\<close>

definition dedup_step :: "'a list \<Rightarrow> 'a \<Rightarrow> 'a list" where
  "dedup_step acc x = (if acc \<noteq> [] \<and> last acc = x then acc else acc @ [x])"

definition dedup_adjacent :: "'a list \<Rightarrow> 'a list" where
  "dedup_adjacent xs = foldl dedup_step [] xs"

lemma foldl_dedup_step:
  "foldl dedup_step (acc @ [y]) xs = acc @ remdups_adj (y # xs)"
proof (induction xs arbitrary: acc y)
  case Nil
  then show ?case by simp
next
  case (Cons x xs)
  show ?case
    using Cons.IH [of acc y] Cons.IH [of "acc @ [y]" x]
    by (cases "y = x") (simp_all add: dedup_step_def)
qed

lemma dedup_adjacent_remdups_adj: "dedup_adjacent xs = remdups_adj xs"
proof (cases xs)
  case Nil
  then show ?thesis by (simp add: dedup_adjacent_def)
next
  case (Cons x xs')
  then show ?thesis
    using foldl_dedup_step [of "[]" x xs'] by (simp add: dedup_adjacent_def dedup_step_def)
qed

lemma set_dedup_adjacent [simp]: "set (dedup_adjacent xs) = set xs"
  by (simp add: dedup_adjacent_remdups_adj)

lemma dedup_adjacent_Nil_iff [simp]: "dedup_adjacent xs = [] \<longleftrightarrow> xs = []"
  by (simp add: dedup_adjacent_remdups_adj)

lemma sorted_remdups_adj_strict:
  fixes xs :: "'a::linorder list"
  shows "sorted xs \<Longrightarrow> sorted_wrt (<) (remdups_adj xs)"
proof (induction xs rule: remdups_adj.induct)
  case (3 x y xs)
  then show ?case
    by (cases "x = y") (auto simp: order.strict_iff_order)
qed simp_all

lemma strict_sort_dedup:
  fixes xs :: "'a::linorder list"
  shows "sorted_wrt (<) (dedup_adjacent (sort xs))"
  by (simp add: dedup_adjacent_remdups_adj sorted_remdups_adj_strict)

lemma strict_sorted_unique:
  fixes xs ys :: "'a::linorder list"
  assumes "sorted_wrt (<) xs" "sorted_wrt (<) ys" "set xs = set ys"
  shows "xs = ys"
  using assms strict_sorted_equal by blast

lemma sort_dedup_cong:
  fixes xs ys :: "'a::linorder list"
  shows "set xs = set ys \<Longrightarrow> dedup_adjacent (sort xs) = dedup_adjacent (sort ys)"
  by (rule strict_sorted_unique) (simp_all add: strict_sort_dedup)

lemma list_all2_left: "list_all2 R xs ys \<Longrightarrow> x \<in> set xs \<Longrightarrow> \<exists>y\<in>set ys. R x y"
  by (force simp: list_all2_conv_all_nth in_set_conv_nth)

lemma list_all2_right: "list_all2 R xs ys \<Longrightarrow> y \<in> set ys \<Longrightarrow> \<exists>x\<in>set xs. R x y"
  by (force simp: list_all2_conv_all_nth in_set_conv_nth)

end
