(* ===== verification/Json.thy ===== *)
theory Json
  imports Prelude
begin

section \<open>JSON bytes as Go's standard library reads them\<close>

text \<open>
  The program keeps literals, context values and payloads as \<^verbatim>\<open>json.RawMessage\<close>, that is as
  bytes, and decodes them with \<^verbatim>\<open>encoding/json\<close> (with \<^verbatim>\<open>UseNumber\<close>). This theory
  models the part of the standard library the program relies on: the grammar that
  \<^verbatim>\<open>json.Valid\<close> and \<^verbatim>\<open>Decoder.Decode\<close> accept (with a nesting limit, escapes, surrogate
  pairs and the replacement of invalid UTF-8), \<^verbatim>\<open>strconv.ParseInt(s, 10, 64)\<close>, and
  \<^verbatim>\<open>big.Rat.SetString\<close> on a JSON number. The parser runs on fuel; \<open>parse_value_enough\<close>
  shows that the fuel \<open>json_parse\<close> passes is always enough.
\<close>

subsection \<open>Bytes and characters\<close>

abbreviation byte :: "char \<Rightarrow> nat" where
  "byte c \<equiv> of_char c"

definition is_digit :: "char \<Rightarrow> bool" where
  "is_digit c \<longleftrightarrow> 48 \<le> byte c \<and> byte c \<le> 57"

definition digit_value :: "char \<Rightarrow> nat" where
  "digit_value c = byte c - 48"

definition decimal_value :: "string \<Rightarrow> nat" where
  "decimal_value s = foldl (\<lambda>n c. 10 * n + digit_value c) 0 s"

definition hex_value :: "char \<Rightarrow> nat option" where
  "hex_value c =
     (if is_digit c then Some (byte c - 48)
      else if 97 \<le> byte c \<and> byte c \<le> 102 then Some (byte c - 87)
      else if 65 \<le> byte c \<and> byte c \<le> 70 then Some (byte c - 55)
      else None)"

definition is_json_space :: "char \<Rightarrow> bool" where
  "is_json_space c \<longleftrightarrow> byte c \<in> {32, 9, 13, 10}"

definition skip_space :: "string \<Rightarrow> string" where
  "skip_space s = dropWhile is_json_space s"

lemma skip_space_length: "length (skip_space s) \<le> length s"
  by (simp add: skip_space_def length_dropWhile_le)

subsection \<open>UTF-8\<close>

definition continuation :: "char \<Rightarrow> bool" where
  "continuation c \<longleftrightarrow> 128 \<le> byte c \<and> byte c \<le> 191"

text \<open>The length of the valid UTF-8 sequence a string starts with, 0 when there is none.\<close>

fun utf8_width :: "string \<Rightarrow> nat" where
  "utf8_width [] = 0"
| "utf8_width (a # s) =
     (let b = byte a in
      if b < 128 then 1
      else if 194 \<le> b \<and> b \<le> 223 then
        (case s of c # _ \<Rightarrow> if continuation c then 2 else 0 | [] \<Rightarrow> 0)
      else if 224 \<le> b \<and> b \<le> 239 then
        (case s of c # d # _ \<Rightarrow>
           if continuation c \<and> continuation d \<and> (b = 224 \<longrightarrow> 160 \<le> byte c)
             \<and> (b = 237 \<longrightarrow> byte c \<le> 159) then 3 else 0
         | _ \<Rightarrow> 0)
      else if 240 \<le> b \<and> b \<le> 244 then
        (case s of c # d # e # _ \<Rightarrow>
           if continuation c \<and> continuation d \<and> continuation e \<and> (b = 240 \<longrightarrow> 144 \<le> byte c)
             \<and> (b = 244 \<longrightarrow> byte c \<le> 143) then 4 else 0
         | _ \<Rightarrow> 0)
      else 0)"

definition utf8_encode :: "nat \<Rightarrow> string" where
  "utf8_encode r =
     (if r < 128 then [char_of r]
      else if r < 2048 then [char_of (192 + r div 64), char_of (128 + r mod 64)]
      else if r < 65536 then
        [char_of (224 + r div 4096), char_of (128 + r div 64 mod 64), char_of (128 + r mod 64)]
      else
        [char_of (240 + r div 262144), char_of (128 + r div 4096 mod 64),
         char_of (128 + r div 64 mod 64), char_of (128 + r mod 64)])"

definition replacement :: string where
  "replacement = [CHR 0xEF, CHR 0xBF, CHR 0xBD]"

subsection \<open>String literals\<close>

definition hex4 :: "string \<Rightarrow> nat option" where
  "hex4 s =
     (case s of a # b # c # d # _ \<Rightarrow>
        (case (hex_value a, hex_value b, hex_value c, hex_value d) of
           (Some w, Some x, Some y, Some z) \<Rightarrow> Some (((w * 16 + x) * 16 + y) * 16 + z)
         | _ \<Rightarrow> None)
      | _ \<Rightarrow> None)"

text \<open>
  What follows \<^verbatim>\<open>\u\<close>: the bytes written and the number of bytes consumed after the
  \<^verbatim>\<open>u\<close>. A high surrogate followed by an escaped low surrogate is one rune, and any other
  surrogate is replaced.
\<close>

definition unicode_escape :: "string \<Rightarrow> (string \<times> nat) option" where
  "unicode_escape s =
     (case hex4 s of
        None \<Rightarrow> None
      | Some r \<Rightarrow>
          if r < 55296 \<or> 57344 \<le> r then Some (utf8_encode r, 4)
          else
            (case drop 4 s of
               b # u # t \<Rightarrow>
                 (if b = CHR 0x5C \<and> u = CHR ''u'' \<and> r < 56320 then
                    (case hex4 t of
                       Some q \<Rightarrow>
                         if 56320 \<le> q \<and> q < 57344
                         then Some (utf8_encode ((r - 55296) * 1024 + (q - 56320) + 65536), 10)
                         else Some (replacement, 4)
                     | None \<Rightarrow> Some (replacement, 4))
                  else Some (replacement, 4))
             | _ \<Rightarrow> Some (replacement, 4)))"

definition simple_escape :: "char \<Rightarrow> char option" where
  "simple_escape c =
     (if c = CHR 0x22 \<or> c = CHR 0x5C \<or> c = CHR ''/'' then Some c
      else if c = CHR ''b'' then Some (CHR 0x08)
      else if c = CHR ''f'' then Some (CHR 0x0C)
      else if c = CHR ''n'' then Some (CHR 0x0A)
      else if c = CHR ''r'' then Some (CHR 0x0D)
      else if c = CHR ''t'' then Some (CHR 0x09)
      else None)"

definition prepend :: "string \<Rightarrow> (string \<times> string) option \<Rightarrow> (string \<times> string) option" where
  "prepend p r = map_option (\<lambda>(out, rest). (p @ out, rest)) r"

lemma prepend_eq_Some: "prepend p r = Some (out, rest) \<longleftrightarrow> (\<exists>o'. r = Some (o', rest) \<and> out = p @ o')"
  by (auto simp: prepend_def)

text \<open>The contents and the rest of the input after the opening quote, or None.\<close>

fun lex_string :: "string \<Rightarrow> (string \<times> string) option" where
  "lex_string [] = None"
| "lex_string (c # s) =
     (if c = CHR 0x22 then Some ([], s)
      else if byte c < 32 then None
      else if c = CHR 0x5C then
        (case s of
           [] \<Rightarrow> None
         | e # t \<Rightarrow>
             if e = CHR ''u'' then
               (case unicode_escape t of
                  None \<Rightarrow> None
                | Some (bytes, used) \<Rightarrow> prepend bytes (lex_string (drop used t)))
             else
               (case simple_escape e of
                  None \<Rightarrow> None
                | Some x \<Rightarrow> prepend [x] (lex_string t)))
      else
        (let w = utf8_width (c # s) in
         if w = 0 then prepend replacement (lex_string s)
         else prepend (take w (c # s)) (lex_string (drop (w - 1) s))))"

declare lex_string.simps(2) [simp del]

lemma lex_string_length_aux:
  "\<forall>s. length s \<le> n \<longrightarrow> lex_string s = Some (out, rest) \<longrightarrow> length rest < length s"
proof (induction n arbitrary: out)
  case 0
  then show ?case by simp
next
  case (Suc n)
  have IH: "length rest < Suc (length s')"
    if "prepend p (lex_string (drop k s')) = Some (out', rest)" "length s' \<le> n" for p k s' out'
  proof -
    from that(1) obtain o' where "lex_string (drop k s') = Some (o', rest)"
      by (auto simp: prepend_eq_Some)
    moreover have "length (drop k s') \<le> n"
      using that(2) by simp
    ultimately have "length rest < length (drop k s')"
      using Suc.IH [of o'] by blast
    then show ?thesis by simp
  qed
  have IH0: "length rest < Suc (length s')"
    if "prepend p (lex_string s') = Some (out', rest)" "length s' \<le> n" for p s' out'
    using IH [of p 0 s' out'] that by simp
  show ?case
  proof (intro allI impI)
    fix s
    assume len: "length s \<le> Suc n" and eq: "lex_string s = Some (out, rest)"
    show "length rest < length s"
    proof (cases s)
      case Nil
      with eq show ?thesis by simp
    next
      case (Cons c t)
      show ?thesis
      proof (cases "c = CHR 0x5C")
        case True
        with eq Cons obtain e u where "t = e # u"
          by (auto simp: lex_string.simps(2) split: if_splits list.splits)
        with True eq Cons len show ?thesis
          by (auto simp: lex_string.simps(2) split: if_splits option.splits
              dest!: IH IH0)
      next
        case False
        with eq Cons len show ?thesis
          by (auto simp: lex_string.simps(2) Let_def split: if_splits dest!: IH IH0)
      qed
    qed
  qed
qed

lemma lex_string_length: "lex_string s = Some (out, rest) \<Longrightarrow> length rest < length s"
  using lex_string_length_aux by blast

subsection \<open>Numbers\<close>

text \<open>The parts of a JSON number; each returns its text and the rest of the input.\<close>

definition lex_sign :: "string \<Rightarrow> string \<times> string" where
  "lex_sign s = (case s of c # t \<Rightarrow> if c = CHR ''-'' then ([c], t) else ([], s) | [] \<Rightarrow> ([], s))"

definition lex_whole :: "string \<Rightarrow> string \<times> string" where
  "lex_whole s =
     (case takeWhile is_digit s of
        [] \<Rightarrow> ([], s)
      | d # ds \<Rightarrow> if d = CHR ''0'' then ([d], drop 1 s) else (d # ds, dropWhile is_digit s))"

definition lex_fraction :: "string \<Rightarrow> (string \<times> string) option" where
  "lex_fraction s =
     (case s of
        c # t \<Rightarrow>
          if c = CHR ''.'' then
            (if takeWhile is_digit t = [] then None
             else Some (c # takeWhile is_digit t, dropWhile is_digit t))
          else Some ([], s)
      | [] \<Rightarrow> Some ([], s))"

definition lex_exponent :: "string \<Rightarrow> (string \<times> string) option" where
  "lex_exponent s =
     (case s of
        c # t \<Rightarrow>
          if c = CHR ''e'' \<or> c = CHR ''E'' then
            (let sign = (case t of x # _ \<Rightarrow> if x = CHR ''+'' \<or> x = CHR ''-'' then [x] else [] | [] \<Rightarrow> []);
                 u = drop (length sign) t in
             if takeWhile is_digit u = [] then None
             else Some (c # sign @ takeWhile is_digit u, dropWhile is_digit u))
          else Some ([], s)
      | [] \<Rightarrow> Some ([], s))"

definition lex_number :: "string \<Rightarrow> (string \<times> string) option" where
  "lex_number s0 =
     (let (sign, s1) = lex_sign s0; (whole, s2) = lex_whole s1 in
      if whole = [] then None
      else
        (case lex_fraction s2 of
           None \<Rightarrow> None
         | Some (fdig, s3) \<Rightarrow>
             (case lex_exponent s3 of
                None \<Rightarrow> None
              | Some (ex, s4) \<Rightarrow> Some (sign @ whole @ fdig @ ex, s4))))"

lemma lex_sign_length: "lex_sign s = (g, r) \<Longrightarrow> length r \<le> length s"
  by (auto simp: lex_sign_def split: list.splits if_splits)

lemma lex_whole_length:
  assumes "lex_whole s = (w, r)" "w \<noteq> []"
  shows "length r < length s"
proof (cases s)
  case Nil
  with assms show ?thesis by (simp add: lex_whole_def)
next
  case (Cons c t)
  have "length (dropWhile is_digit t) \<le> length t"
    by (rule length_dropWhile_le)
  with assms Cons show ?thesis
    by (auto simp: lex_whole_def split: if_splits)
qed

lemma lex_fraction_length: "lex_fraction s = Some (f, r) \<Longrightarrow> length r \<le> length s"
  using length_dropWhile_le [of is_digit "tl s"]
  by (auto simp: lex_fraction_def split: list.splits if_splits)

lemma lex_exponent_length:
  assumes "lex_exponent s = Some (e, r)"
  shows "length r \<le> length s"
proof (cases s)
  case Nil
  with assms show ?thesis by (simp add: lex_exponent_def)
next
  case (Cons c t)
  have "length (dropWhile is_digit (drop k t)) \<le> length t" for k
    using length_dropWhile_le [of is_digit "drop k t"] by simp
  with assms Cons show ?thesis
    by (auto simp: lex_exponent_def Let_def split: if_splits intro: le_SucI)
qed

lemma lex_number_length: "lex_number s = Some (n, r) \<Longrightarrow> length r < length s"
  by (auto simp: lex_number_def Let_def split: prod.splits if_splits option.splits
      dest!: lex_sign_length lex_whole_length lex_fraction_length lex_exponent_length)

text \<open>\<^verbatim>\<open>strconv.ParseInt(s, 10, 64)\<close>.\<close>

definition parse_int64 :: "string \<Rightarrow> int option" where
  "parse_int64 s =
     (let (neg, ds) =
        (case s of c # t \<Rightarrow> if c = CHR ''-'' then (True, t)
                           else if c = CHR ''+'' then (False, t) else (False, s)
         | [] \<Rightarrow> (False, [])) in
      if ds = [] \<or> \<not> list_all is_digit ds then None
      else
        let n = int (decimal_value ds); v = (if neg then - n else n) in
        if - (2 ^ 63) \<le> v \<and> v < 2 ^ 63 then Some v else None)"

lemma parse_int64_range: "parse_int64 s = Some v \<Longrightarrow> - (2 ^ 63) \<le> v \<and> v < 2 ^ 63"
  by (auto simp: parse_int64_def Let_def split: list.splits if_splits)

text \<open>
  \<^verbatim>\<open>big.Rat.SetString\<close> on the text of a JSON number: it fails when the written exponent is
  not an \<^verbatim>\<open>int64\<close>, and, for a nonzero mantissa, when the decimal exponent left after the
  fraction digits is beyond one million in size.
\<close>

definition number_rat :: "string \<Rightarrow> rat option" where
  "number_rat s =
     (let neg = (case s of c # _ \<Rightarrow> c = CHR ''-'' | [] \<Rightarrow> False);
          body = (if neg then tl s else s);
          whole = takeWhile is_digit body;
          r1 = dropWhile is_digit body;
          fdig = (case r1 of c # t \<Rightarrow> if c = CHR ''.'' then takeWhile is_digit t else [] | [] \<Rightarrow> []);
          r2 = dropWhile (\<lambda>c. c = CHR ''.'' \<or> is_digit c) r1;
          ex = (case r2 of [] \<Rightarrow> Some 0 | _ # t \<Rightarrow> parse_int64 t);
          m = int (decimal_value (whole @ fdig)) in
      case ex of
        None \<Rightarrow> None
      | Some e \<Rightarrow>
          if m = 0 then Some 0
          else
            let x = e - int (length fdig); m' = (if neg then - m else m) in
            if x < - 1000000 \<or> 1000000 < x then None
            else if 0 \<le> x then Some (of_int (m' * 10 ^ nat x))
            else Some (of_int m' / of_int (10 ^ nat (- x))))"

subsection \<open>Values\<close>

datatype json =
    JNull
  | JBool bool
  | JNumber string
  | JString string
  | JArray "json list"
  | JObject "(string \<times> json) list"

datatype 'a parsed = OutOfFuel | SyntaxError | Parsed 'a string

text \<open>
  \<open>max_depth\<close> is the number of open arrays and objects allowed at once (10000 for
  \<^verbatim>\<open>json.Valid\<close>); \<open>d\<close> is the number already open.
\<close>

fun parse_value :: "nat \<Rightarrow> nat \<Rightarrow> nat \<Rightarrow> string \<Rightarrow> json parsed"
  and parse_elements :: "nat \<Rightarrow> nat \<Rightarrow> nat \<Rightarrow> string \<Rightarrow> json list parsed"
  and parse_members :: "nat \<Rightarrow> nat \<Rightarrow> nat \<Rightarrow> string \<Rightarrow> (string \<times> json) list parsed" where
  "parse_value 0 md d s = OutOfFuel"
| "parse_value (Suc k) md d s =
     (case skip_space s of
        [] \<Rightarrow> SyntaxError
      | c # t \<Rightarrow>
          if starts_with ''null'' (c # t) then Parsed JNull (drop 4 (c # t))
          else if starts_with ''true'' (c # t) then Parsed (JBool True) (drop 4 (c # t))
          else if starts_with ''false'' (c # t) then Parsed (JBool False) (drop 5 (c # t))
          else if c = CHR 0x22 then
            (case lex_string t of None \<Rightarrow> SyntaxError | Some (x, r) \<Rightarrow> Parsed (JString x) r)
          else if c = CHR ''['' then
            (if md \<le> d then SyntaxError
             else
               (case skip_space t of
                  [] \<Rightarrow> SyntaxError
                | e # u \<Rightarrow>
                    if e = CHR '']'' then Parsed (JArray []) u
                    else
                      (case parse_elements k md (Suc d) t of
                         OutOfFuel \<Rightarrow> OutOfFuel
                       | SyntaxError \<Rightarrow> SyntaxError
                       | Parsed vs r \<Rightarrow> Parsed (JArray vs) r)))
          else if c = CHR ''{'' then
            (if md \<le> d then SyntaxError
             else
               (case skip_space t of
                  [] \<Rightarrow> SyntaxError
                | e # u \<Rightarrow>
                    if e = CHR ''}'' then Parsed (JObject []) u
                    else
                      (case parse_members k md (Suc d) t of
                         OutOfFuel \<Rightarrow> OutOfFuel
                       | SyntaxError \<Rightarrow> SyntaxError
                       | Parsed ms r \<Rightarrow> Parsed (JObject ms) r)))
          else
            (case lex_number (c # t) of None \<Rightarrow> SyntaxError | Some (n, r) \<Rightarrow> Parsed (JNumber n) r))"
| "parse_elements 0 md d s = OutOfFuel"
| "parse_elements (Suc k) md d s =
     (case parse_value k md d s of
        OutOfFuel \<Rightarrow> OutOfFuel
      | SyntaxError \<Rightarrow> SyntaxError
      | Parsed v r \<Rightarrow>
          (case skip_space r of
             [] \<Rightarrow> SyntaxError
           | c # t \<Rightarrow>
               if c = CHR '']'' then Parsed [v] t
               else if c = CHR '','' then
                 (case parse_elements k md d t of
                    OutOfFuel \<Rightarrow> OutOfFuel
                  | SyntaxError \<Rightarrow> SyntaxError
                  | Parsed vs u \<Rightarrow> Parsed (v # vs) u)
               else SyntaxError))"
| "parse_members 0 md d s = OutOfFuel"
| "parse_members (Suc k) md d s =
     (case skip_space s of
        [] \<Rightarrow> SyntaxError
      | q # t \<Rightarrow>
          if q \<noteq> CHR 0x22 then SyntaxError
          else
            (case lex_string t of
               None \<Rightarrow> SyntaxError
             | Some (key, r) \<Rightarrow>
                 (case skip_space r of
                    [] \<Rightarrow> SyntaxError
                  | c # r' \<Rightarrow>
                      if c \<noteq> CHR '':'' then SyntaxError
                      else
                        (case parse_value k md d r' of
                           OutOfFuel \<Rightarrow> OutOfFuel
                         | SyntaxError \<Rightarrow> SyntaxError
                         | Parsed v u \<Rightarrow>
                             (case skip_space u of
                                [] \<Rightarrow> SyntaxError
                              | x # w \<Rightarrow>
                                  if x = CHR ''}'' then Parsed [(key, v)] w
                                  else if x = CHR '','' then
                                    (case parse_members k md d w of
                                       OutOfFuel \<Rightarrow> OutOfFuel
                                     | SyntaxError \<Rightarrow> SyntaxError
                                     | Parsed ms z \<Rightarrow> Parsed ((key, v) # ms) z)
                                  else SyntaxError)))))"

text \<open>One value with nothing but white space around it: \<^verbatim>\<open>json.Valid\<close> and the decode of it.\<close>

definition json_parse_depth :: "nat \<Rightarrow> string \<Rightarrow> json option" where
  "json_parse_depth md s =
     (case parse_value (Suc (2 * length s)) md 0 s of
        Parsed v r \<Rightarrow> if skip_space r = [] then Some v else None
      | _ \<Rightarrow> None)"

definition json_parse :: "string \<Rightarrow> json option" where
  "json_parse s = json_parse_depth 10000 s"

definition json_valid :: "string \<Rightarrow> bool" where
  "json_valid s \<longleftrightarrow> json_parse s \<noteq> None"

subsection \<open>The fuel is enough\<close>

text \<open>Every parser call consumes input, and twice the length of the input bounds the calls.\<close>

lemma skip_space_Cons: "skip_space s = c # t \<Longrightarrow> length t < length s"
  using skip_space_length [of s] by simp

lemma starts_with_length: "starts_with p s \<Longrightarrow> length p \<le> length s"
  by (induction p s rule: starts_with.induct) auto

lemma parse_shrinks:
  "parse_value k md d s = Parsed v r \<Longrightarrow> length r < length s"
  "parse_elements k md d s = Parsed vs r \<Longrightarrow> length r < length s"
  "parse_members k md d s = Parsed ms r \<Longrightarrow> length r < length s"
proof (induction k md d s and k md d s and k md d s arbitrary: v r and vs r and ms r
    rule: parse_value_parse_elements_parse_members.induct)
  case (2 k md d s)
  from "2.prems" obtain c t where ct: "skip_space s = c # t"
    by (auto split: list.splits)
  have len: "length t < length s" using ct by (rule skip_space_Cons)
  have arr: "length r' < length t"
    if "parse_elements k md (Suc d) t = Parsed vs' r'"
      "c = CHR ''[''" "\<not> md \<le> d" "skip_space t = e # u" "e \<noteq> CHR '']''" for e u vs' r'
    using "2.IH"(1) [OF ct, of e u] that by simp
  have obj: "length r' < length t"
    if "parse_members k md (Suc d) t = Parsed ms' r'"
      "c = CHR ''{''" "\<not> md \<le> d" "skip_space t = e # u" "e \<noteq> CHR ''}''" for e u ms' r'
    using "2.IH"(2) [OF ct, of e u] that by simp
  from "2.prems" ct len show ?case
    by (auto split: if_splits list.splits option.splits parsed.splits
        dest: skip_space_Cons arr obj dest!: lex_string_length lex_number_length)
next
  case (4 k md d s)
  then show ?case
    by (fastforce split: if_splits list.splits parsed.splits dest!: skip_space_Cons)
next
  case (6 k md d s)
  then show ?case
    by (fastforce split: if_splits list.splits option.splits parsed.splits
        dest!: skip_space_Cons lex_string_length)
qed simp_all

lemma parse_enough:
  "2 * length s < k \<Longrightarrow> parse_value k md d s \<noteq> OutOfFuel"
  "Suc (2 * length s) < k \<Longrightarrow> parse_elements k md d s \<noteq> OutOfFuel"
  "Suc (2 * length s) < k \<Longrightarrow> parse_members k md d s \<noteq> OutOfFuel"
proof (induction k md d s and k md d s and k md d s
    rule: parse_value_parse_elements_parse_members.induct)
  case (2 k md d s)
  then show ?case
    by (fastforce split: if_splits list.splits option.splits parsed.splits dest: skip_space_Cons)
next
  case (4 k md d s)
  then show ?case
    by (fastforce split: if_splits list.splits parsed.splits dest!: skip_space_Cons parse_shrinks(1))
next
  case (6 k md d s)
  then show ?case
    by (fastforce split: if_splits list.splits option.splits parsed.splits
        dest!: skip_space_Cons lex_string_length parse_shrinks(1))
qed simp_all
lemma json_parse_fuel: "parse_value (Suc (2 * length s)) md d s \<noteq> OutOfFuel"
  by (rule parse_enough(1)) simp

end
