(* ===== verification/ConditionAst.thy ===== *)
theory ConditionAst
  imports Json
begin

section \<open>Condition expressions and their validation\<close>

text \<open>
  The AST of \<^verbatim>\<open>internal/conditions/types.go\<close> and the validator of
  \<^verbatim>\<open>internal/conditions/validate.go\<close>. The Go structs are flat (every field is present
  for every kind, optional pointers included), and so are the datatypes here; which fields
  may be set for which kind is what the validator decides. \<^verbatim>\<open>Kind\<close>, \<^verbatim>\<open>Operator\<close> and the
  literal type are Go strings, so each enumeration has a case for any other text; the
  empty text is the absent operator.
\<close>

subsection \<open>The AST\<close>

datatype boolean_kind =
    BooleanAnd | BooleanOr | BooleanNot | BooleanCompare | BooleanIn | BooleanNotIn
  | BooleanIsNull | BooleanIsNotNull | BooleanOther string

datatype compare_operator =
    CompareEqual | CompareNotEqual | CompareGreaterThan | CompareGreaterThanOrEqual
  | CompareLessThan | CompareLessThanOrEqual | CompareOther string

datatype value_kind =
    ValueColumn | ValueLiteral | ValueParameter | ValueColumnCopy | ValueCase | ValueOther string

datatype literal_type =
    LiteralInteger | LiteralDecimal | LiteralString | LiteralBoolean | LiteralNull
  | LiteralOther string

abbreviation no_operator :: compare_operator where
  "no_operator \<equiv> CompareOther []"

abbreviation no_value_kind :: value_kind where
  "no_value_kind \<equiv> ValueOther []"

datatype literal = Literal (lit_type: literal_type) (lit_value: string)

datatype boolean =
    Boolean (b_kind: boolean_kind) (b_operator: compare_operator) (b_children: "boolean list")
      (b_operand: "boolean option") (b_left: "value option") (b_right: "value option")
      (b_values: "value list")
  and "value" =
    Value (v_kind: value_kind) (v_node_id: int) (v_parameter: string) (v_literal: "literal option")
      (v_cases: "branch list") (v_else: "value option")
  and branch = Case (c_when: boolean) (c_then: "value")

record limits =
  max_depth :: int
  max_nodes :: int
  max_string_length :: int
  max_list_items :: int

definition default_limits :: limits where
  "default_limits =
     \<lparr>max_depth = 16, max_nodes = 256, max_string_length = 2000, max_list_items = 100\<rparr>"

subsection \<open>Errors\<close>

text \<open>
  The two sentinel errors of the package. \<open>NilDereference\<close> is not a Go error value: it is
  the run-time panic of reading through a nil pointer, which the evaluator would raise on
  an expression that was not validated.
\<close>

datatype condition_error = ErrInvalidExpression | ErrEvaluation | NilDereference

subsection \<open>Literals\<close>

definition contains_any :: "string \<Rightarrow> string \<Rightarrow> bool" where
  "contains_any s chars \<longleftrightarrow> list_ex (\<lambda>c. c \<in> set chars) s"

text \<open>
  \<^verbatim>\<open>json.Unmarshal\<close> of a JSON null into a Go \<^verbatim>\<open>string\<close> or \<^verbatim>\<open>bool\<close> is a no-op that
  succeeds, so a null payload passes under both literal types.
\<close>

definition validate_literal :: "literal \<Rightarrow> limits \<Rightarrow> condition_error + unit" where
  "validate_literal l lm =
     (case json_parse (lit_value l) of
        None \<Rightarrow> Inl ErrInvalidExpression
      | Some payload \<Rightarrow>
          (case lit_type l of
             LiteralInteger \<Rightarrow>
               sbind (fail_if (contains_any (lit_value l) ''.eE'') ErrInvalidExpression) (\<lambda>_.
               fail_if (parse_int64 (lit_value l) = None) ErrInvalidExpression)
           | LiteralDecimal \<Rightarrow>
               (case payload of
                  JNumber n \<Rightarrow> fail_if (number_rat n = None) ErrInvalidExpression
                | _ \<Rightarrow> Inl ErrInvalidExpression)
           | LiteralString \<Rightarrow>
               (case payload of
                  JNull \<Rightarrow> Inr ()
                | JString s \<Rightarrow>
                    fail_if (int (length s) > max_string_length lm) ErrInvalidExpression
                | _ \<Rightarrow> Inl ErrInvalidExpression)
           | LiteralBoolean \<Rightarrow>
               (case payload of
                  JNull \<Rightarrow> Inr ()
                | JBool _ \<Rightarrow> Inr ()
                | _ \<Rightarrow> Inl ErrInvalidExpression)
           | LiteralNull \<Rightarrow> fail_if (lit_value l \<noteq> ''null'') ErrInvalidExpression
           | LiteralOther _ \<Rightarrow> Inl ErrInvalidExpression))"

subsection \<open>The validator\<close>

definition valid_compare_operator :: "compare_operator \<Rightarrow> bool" where
  "valid_compare_operator op =
     (case op of
        CompareEqual \<Rightarrow> True
      | CompareNotEqual \<Rightarrow> True
      | CompareGreaterThan \<Rightarrow> True
      | CompareGreaterThanOrEqual \<Rightarrow> True
      | CompareLessThan \<Rightarrow> True
      | CompareLessThanOrEqual \<Rightarrow> True
      | CompareOther _ \<Rightarrow> False)"

definition validate_limits :: "limits \<Rightarrow> condition_error + unit" where
  "validate_limits lm =
     fail_if (max_depth lm \<le> 0 \<or> max_nodes lm \<le> 0 \<or> max_string_length lm \<le> 0
       \<or> max_list_items lm \<le> 0) ErrInvalidExpression"

text \<open>The validator's only state is its node counter; it is passed in and returned.\<close>

definition enter :: "limits \<Rightarrow> int \<Rightarrow> nat \<Rightarrow> condition_error + nat" where
  "enter lm depth nodes =
     sbind (fail_if (depth > max_depth lm) ErrInvalidExpression) (\<lambda>_.
     sbind (fail_if (int (Suc nodes) > max_nodes lm) ErrInvalidExpression) (\<lambda>_.
     Inr (Suc nodes)))"

text \<open>
  The field checks of each kind, in the order of the switch. A kind that needs a pointer
  field checks it here and reads through it with \<open>deref\<close> afterwards.
\<close>

definition deref :: "'a option \<Rightarrow> condition_error + 'a" where
  "deref p = (case p of None \<Rightarrow> Inl NilDereference | Some x \<Rightarrow> Inr x)"

lemma deref_simps [simp]: "deref None = Inl NilDereference" "deref (Some x) = Inr x"
  by (simp_all add: deref_def)

lemma deref_eq_Inr [result_simps, termination_simp]: "deref p = Inr x \<longleftrightarrow> p = Some x"
  by (cases p) simp_all

definition junction_fields :: "limits \<Rightarrow> boolean \<Rightarrow> condition_error + unit" where
  "junction_fields lm e =
     sbind (fail_if (b_operator e \<noteq> no_operator \<or> b_operand e \<noteq> None \<or> b_left e \<noteq> None
       \<or> b_right e \<noteq> None \<or> b_values e \<noteq> []) ErrInvalidExpression) (\<lambda>_.
     fail_if (length (b_children e) < 2 \<or> int (length (b_children e)) > max_list_items lm)
       ErrInvalidExpression)"

definition not_fields :: "boolean \<Rightarrow> condition_error + unit" where
  "not_fields e =
     fail_if (b_operand e = None \<or> b_operator e \<noteq> no_operator \<or> b_children e \<noteq> []
       \<or> b_left e \<noteq> None \<or> b_right e \<noteq> None \<or> b_values e \<noteq> []) ErrInvalidExpression"

definition compare_fields :: "boolean \<Rightarrow> condition_error + unit" where
  "compare_fields e =
     fail_if (\<not> valid_compare_operator (b_operator e) \<or> b_left e = None \<or> b_right e = None
       \<or> b_children e \<noteq> [] \<or> b_operand e \<noteq> None \<or> b_values e \<noteq> []) ErrInvalidExpression"

definition membership_fields :: "limits \<Rightarrow> boolean \<Rightarrow> condition_error + unit" where
  "membership_fields lm e =
     fail_if (b_left e = None \<or> b_values e = [] \<or> int (length (b_values e)) > max_list_items lm
       \<or> b_operator e \<noteq> no_operator \<or> b_children e \<noteq> [] \<or> b_operand e \<noteq> None
       \<or> b_right e \<noteq> None) ErrInvalidExpression"

definition null_test_fields :: "boolean \<Rightarrow> condition_error + unit" where
  "null_test_fields e =
     fail_if (b_left e = None \<or> b_operator e \<noteq> no_operator \<or> b_children e \<noteq> []
       \<or> b_operand e \<noteq> None \<or> b_right e \<noteq> None \<or> b_values e \<noteq> []) ErrInvalidExpression"

definition column_fields :: "value \<Rightarrow> condition_error + unit" where
  "column_fields v =
     fail_if (v_node_id v \<le> 0 \<or> v_parameter v \<noteq> [] \<or> v_literal v \<noteq> None \<or> v_cases v \<noteq> []
       \<or> v_else v \<noteq> None) ErrInvalidExpression"

definition parameter_fields :: "limits \<Rightarrow> value \<Rightarrow> condition_error + unit" where
  "parameter_fields lm v =
     (let name = trim_space (v_parameter v) in
      fail_if (name = [] \<or> int (length name) > max_string_length lm \<or> v_node_id v \<noteq> 0
        \<or> v_literal v \<noteq> None \<or> v_cases v \<noteq> [] \<or> v_else v \<noteq> None) ErrInvalidExpression)"

definition literal_fields :: "value \<Rightarrow> condition_error + unit" where
  "literal_fields v =
     fail_if (v_literal v = None \<or> v_node_id v \<noteq> 0 \<or> v_parameter v \<noteq> [] \<or> v_cases v \<noteq> []
       \<or> v_else v \<noteq> None) ErrInvalidExpression"

definition case_fields :: "limits \<Rightarrow> value \<Rightarrow> condition_error + unit" where
  "case_fields lm v =
     fail_if (v_cases v = [] \<or> int (length (v_cases v)) > max_list_items lm \<or> v_else v = None
       \<or> v_node_id v \<noteq> 0 \<or> v_parameter v \<noteq> [] \<or> v_literal v \<noteq> None) ErrInvalidExpression"

lemmas field_defs =
  junction_fields_def not_fields_def compare_fields_def membership_fields_def
  null_test_fields_def column_fields_def parameter_fields_def literal_fields_def case_fields_def

text \<open>
  The two methods \<^verbatim>\<open>boolean\<close> and \<^verbatim>\<open>value\<close>; their loops over children, items and branches
  are the functions on lists.
\<close>

function (sequential) check_boolean :: "limits \<Rightarrow> int \<Rightarrow> boolean \<Rightarrow> nat \<Rightarrow> condition_error + nat"
  and check_booleans :: "limits \<Rightarrow> int \<Rightarrow> boolean list \<Rightarrow> nat \<Rightarrow> condition_error + nat"
  and check_value :: "limits \<Rightarrow> int \<Rightarrow> value \<Rightarrow> nat \<Rightarrow> condition_error + nat"
  and check_values :: "limits \<Rightarrow> int \<Rightarrow> value list \<Rightarrow> nat \<Rightarrow> condition_error + nat"
  and check_cases :: "limits \<Rightarrow> int \<Rightarrow> branch list \<Rightarrow> nat \<Rightarrow> condition_error + nat" where
  "check_boolean lm depth (Boolean k op children operand left right vals) nodes =
     (let e = Boolean k op children operand left right vals in
      sbind (enter lm depth nodes) (\<lambda>n.
      if k = BooleanAnd \<or> k = BooleanOr then
        sbind (junction_fields lm e) (\<lambda>_. check_booleans lm (depth + 1) children n)
      else if k = BooleanNot then
        sbind (not_fields e) (\<lambda>_.
        sbind (deref operand) (\<lambda>x. check_boolean lm (depth + 1) x n))
      else if k = BooleanCompare then
        sbind (compare_fields e) (\<lambda>_.
        sbind (deref left) (\<lambda>l.
        sbind (check_value lm (depth + 1) l n) (\<lambda>n'.
        sbind (deref right) (\<lambda>r. check_value lm (depth + 1) r n'))))
      else if k = BooleanIn \<or> k = BooleanNotIn then
        sbind (membership_fields lm e) (\<lambda>_.
        sbind (deref left) (\<lambda>l.
        sbind (check_value lm (depth + 1) l n) (\<lambda>n'.
        check_values lm (depth + 1) vals n')))
      else if k = BooleanIsNull \<or> k = BooleanIsNotNull then
        sbind (null_test_fields e) (\<lambda>_.
        sbind (deref left) (\<lambda>l. check_value lm (depth + 1) l n))
      else Inl ErrInvalidExpression))"
| "check_booleans lm depth [] nodes = Inr nodes"
| "check_booleans lm depth (b # bs) nodes =
     sbind (check_boolean lm depth b nodes) (\<lambda>n. check_booleans lm depth bs n)"
| "check_value lm depth (Value k nid param lit cases els) nodes =
     (let e = Value k nid param lit cases els in
      sbind (enter lm depth nodes) (\<lambda>n.
      if k = ValueColumn \<or> k = ValueColumnCopy then sbind (column_fields e) (\<lambda>_. Inr n)
      else if k = ValueParameter then sbind (parameter_fields lm e) (\<lambda>_. Inr n)
      else if k = ValueLiteral then
        sbind (literal_fields e) (\<lambda>_.
        sbind (deref lit) (\<lambda>l. sbind (validate_literal l lm) (\<lambda>_. Inr n)))
      else if k = ValueCase then
        sbind (case_fields lm e) (\<lambda>_.
        sbind (check_cases lm (depth + 1) cases n) (\<lambda>n'.
        sbind (deref els) (\<lambda>x. check_value lm (depth + 1) x n')))
      else Inl ErrInvalidExpression))"
| "check_values lm depth [] nodes = Inr nodes"
| "check_values lm depth (v # vs) nodes =
     sbind (check_value lm depth v nodes) (\<lambda>n. check_values lm depth vs n)"
| "check_cases lm depth [] nodes = Inr nodes"
| "check_cases lm depth (Case w t # cs) nodes =
     sbind (check_boolean lm depth w nodes) (\<lambda>n.
     sbind (check_value lm depth t n) (\<lambda>n'. check_cases lm depth cs n'))"
  by pat_completeness auto
termination
  by (relation "measure
    (case_sum (case_sum (\<lambda>(_, _, e, _). size e) (\<lambda>(_, _, es, _). size_list size es))
      (case_sum (\<lambda>(_, _, v, _). size v)
        (case_sum (\<lambda>(_, _, vs, _). size_list size vs) (\<lambda>(_, _, cs, _). size_list size cs))))")
    (auto simp: deref_eq_Inr)

declare check_boolean.simps [simp del] check_value.simps [simp del]

definition validate_boolean :: "boolean \<Rightarrow> limits \<Rightarrow> condition_error + unit" where
  "validate_boolean e lm =
     sbind (validate_limits lm) (\<lambda>_. sbind (check_boolean lm 1 e 0) (\<lambda>_. Inr ()))"

definition validate_value :: "value \<Rightarrow> limits \<Rightarrow> condition_error + unit" where
  "validate_value e lm =
     sbind (validate_limits lm) (\<lambda>_. sbind (check_value lm 1 e 0) (\<lambda>_. Inr ()))"

end
