(* ===== verification/ConditionEval.thy ===== *)
theory ConditionEval
  imports ConditionAst
begin

section \<open>Evaluation of conditions\<close>

text \<open>
  \<^verbatim>\<open>internal/conditions/evaluate.go\<close>: decoding of the untrusted context under byte
  limits, and three-valued evaluation of an expression with the list of the column and
  parameter references that were missing.
\<close>

subsection \<open>Results and context\<close>

datatype truth = TruthUnknown | TruthFalse | TruthTrue

datatype missing_reference = MissingReference (mr_node_id: int) (mr_parameter: string)

text \<open>The comparison function of \<^verbatim>\<open>normalizeMissing\<close> is the lexicographic order.\<close>

definition missing_before :: "missing_reference \<Rightarrow> missing_reference \<Rightarrow> bool" where
  "missing_before a b \<longleftrightarrow>
     (if mr_node_id a = mr_node_id b then mr_parameter a < mr_parameter b
      else mr_node_id a < mr_node_id b)"

instantiation missing_reference :: linorder
begin

definition less_eq_missing_reference :: "missing_reference \<Rightarrow> missing_reference \<Rightarrow> bool" where
  "less_eq_missing_reference a b \<longleftrightarrow>
     mr_node_id a < mr_node_id b \<or> mr_node_id a = mr_node_id b \<and> mr_parameter a \<le> mr_parameter b"

definition less_missing_reference :: "missing_reference \<Rightarrow> missing_reference \<Rightarrow> bool" where
  "less_missing_reference a b \<longleftrightarrow> missing_before a b"

instance
proof
  fix x y z :: missing_reference
  show "(x < y) = (x \<le> y \<and> \<not> y \<le> x)"
    by (auto simp: less_eq_missing_reference_def less_missing_reference_def missing_before_def)
  show "x \<le> x"
    by (simp add: less_eq_missing_reference_def)
  show "x \<le> y \<Longrightarrow> y \<le> z \<Longrightarrow> x \<le> z"
    by (auto simp: less_eq_missing_reference_def)
  show "x \<le> y \<Longrightarrow> y \<le> x \<Longrightarrow> x = y"
    by (auto simp: less_eq_missing_reference_def intro: missing_reference.expand)
  show "x \<le> y \<or> y \<le> x"
    by (auto simp: less_eq_missing_reference_def)
qed

end

record evaluation =
  truth_of :: truth
  missing :: "missing_reference list"

text \<open>
  The Go context holds two maps of raw JSON. A Go map has distinct keys and is iterated in
  an unspecified order; here it is the list of its entries in the order of one iteration.
\<close>

record eval_context =
  columns :: "(int \<times> string) list"
  parameters :: "(string \<times> string) list"

definition context_wf :: "eval_context \<Rightarrow> bool" where
  "context_wf c \<longleftrightarrow> distinct (map fst (columns c)) \<and> distinct (map fst (parameters c))"

record context_limits =
  max_columns :: int
  max_parameters :: int
  max_total_bytes :: int
  max_value_bytes :: int
  max_number_bytes :: int
  max_parameter_length :: int

definition default_context_limits :: context_limits where
  "default_context_limits =
     \<lparr>max_columns = 1000, max_parameters = 1000, max_total_bytes = 262144,
      max_value_bytes = 8192, max_number_bytes = 256, max_parameter_length = 2000\<rparr>"

text \<open>
  The dynamic types of a decoded value (Go's \<^verbatim>\<open>any\<close>). \<^verbatim>\<open>json.Number\<close> is a case of the
  comparison although the decoder replaces it by a rational.
\<close>

datatype scalar =
    ScalarNull
  | ScalarString string
  | ScalarBool bool
  | ScalarNumber rat
  | ScalarJSONNumber string

record runtime_value =
  known :: bool
  rv_value :: scalar
  rv_missing :: "missing_reference list"

definition known_value :: "scalar \<Rightarrow> runtime_value" where
  "known_value s = \<lparr>known = True, rv_value = s, rv_missing = []\<rparr>"

definition unknown_value :: "missing_reference list \<Rightarrow> runtime_value" where
  "unknown_value ms = \<lparr>known = False, rv_value = ScalarNull, rv_missing = ms\<rparr>"

lemma runtime_value_simps [simp]:
  "known (known_value s)" "rv_value (known_value s) = s" "rv_missing (known_value s) = []"
  "\<not> known (unknown_value ms)" "rv_missing (unknown_value ms) = ms"
  by (simp_all add: known_value_def unknown_value_def)

record prepared_context =
  p_columns :: "int \<rightharpoonup> runtime_value"
  p_parameters :: "string \<rightharpoonup> runtime_value"

subsection \<open>Decoding\<close>

definition decode_runtime_value_limit :: "string \<Rightarrow> int \<Rightarrow> condition_error + scalar" where
  "decode_runtime_value_limit raw maximum =
     (case json_parse raw of
        None \<Rightarrow> Inl ErrEvaluation
      | Some payload \<Rightarrow>
          (case payload of
             JNull \<Rightarrow> Inr ScalarNull
           | JString s \<Rightarrow> Inr (ScalarString s)
           | JBool b \<Rightarrow> Inr (ScalarBool b)
           | JNumber n \<Rightarrow>
               if maximum > 0 \<and> int (length n) > maximum then Inl ErrEvaluation
               else
                 (case number_rat n of
                    None \<Rightarrow> Inl ErrEvaluation
                  | Some q \<Rightarrow> Inr (ScalarNumber q))
           | JArray _ \<Rightarrow> Inl ErrEvaluation
           | JObject _ \<Rightarrow> Inl ErrEvaluation))"

definition decode_runtime_value :: "string \<Rightarrow> condition_error + scalar" where
  "decode_runtime_value raw = decode_runtime_value_limit raw 0"

text \<open>The running byte total is passed in and returned.\<close>

definition prepare_context_value ::
  "string \<Rightarrow> context_limits \<Rightarrow> int \<Rightarrow> int \<Rightarrow> condition_error + scalar \<times> int" where
  "prepare_context_value raw cl key_bytes used =
     (let n = int (length raw) in
      sbind (fail_if (n = 0 \<or> n > max_value_bytes cl \<or> key_bytes > max_total_bytes cl - n
          \<or> used > max_total_bytes cl - key_bytes - n) ErrEvaluation) (\<lambda>_.
      sbind (decode_runtime_value_limit raw (max_number_bytes cl)) (\<lambda>v.
      Inr (v, used + key_bytes + n))))"

fun prepare_columns ::
  "context_limits \<Rightarrow> (int \<times> string) list \<Rightarrow> (int \<rightharpoonup> runtime_value) \<Rightarrow> int
     \<Rightarrow> condition_error + (int \<rightharpoonup> runtime_value) \<times> int" where
  "prepare_columns cl [] m used = Inr (m, used)"
| "prepare_columns cl ((nid, raw) # rest) m used =
     sbind (fail_if (nid \<le> 0) ErrEvaluation) (\<lambda>_.
     sbind (prepare_context_value raw cl 8 used) (\<lambda>(v, used').
     prepare_columns cl rest (m(nid \<mapsto> known_value v)) used'))"

fun prepare_parameters ::
  "context_limits \<Rightarrow> (string \<times> string) list \<Rightarrow> (string \<rightharpoonup> runtime_value) \<Rightarrow> int
     \<Rightarrow> condition_error + (string \<rightharpoonup> runtime_value) \<times> int" where
  "prepare_parameters cl [] m used = Inr (m, used)"
| "prepare_parameters cl ((name, raw) # rest) m used =
     sbind (fail_if (trim_space name = [] \<or> int (length name) > max_parameter_length cl)
       ErrEvaluation) (\<lambda>_.
     sbind (prepare_context_value raw cl (int (length name)) used) (\<lambda>(v, used').
     prepare_parameters cl rest (m(name \<mapsto> known_value v)) used'))"

definition prepare_context :: "eval_context \<Rightarrow> context_limits \<Rightarrow> condition_error + prepared_context" where
  "prepare_context c cl =
     sbind (fail_if (max_columns cl < 1 \<or> max_parameters cl < 1 \<or> max_total_bytes cl < 1
         \<or> max_value_bytes cl < 1 \<or> max_number_bytes cl < 1 \<or> max_parameter_length cl < 1
         \<or> int (length (columns c)) > max_columns cl
         \<or> int (length (parameters c)) > max_parameters cl) ErrEvaluation) (\<lambda>_.
     sbind (prepare_columns cl (columns c) Map.empty 0) (\<lambda>(cols, used).
     sbind (prepare_parameters cl (parameters c) Map.empty used) (\<lambda>(params, _).
     Inr \<lparr>p_columns = cols, p_parameters = params\<rparr>)))"

subsection \<open>Comparison\<close>

definition three_way :: "'a::linorder \<Rightarrow> 'a \<Rightarrow> int" where
  "three_way a b = (if a < b then -1 else if a > b then 1 else 0)"

text \<open>None when the two dynamic types cannot be compared.\<close>

fun compare_values :: "scalar \<Rightarrow> scalar \<Rightarrow> int option" where
  "compare_values (ScalarNumber a) (ScalarNumber b) = Some (three_way a b)"
| "compare_values (ScalarJSONNumber a) (ScalarJSONNumber b) =
     (case (number_rat a, number_rat b) of
        (Some x, Some y) \<Rightarrow> Some (three_way x y)
      | _ \<Rightarrow> None)"
| "compare_values (ScalarString a) (ScalarString b) = Some (three_way a b)"
| "compare_values (ScalarBool a) (ScalarBool b) = Some (three_way a b)"
| "compare_values _ _ = None"

definition truth_of_bool :: "bool \<Rightarrow> truth" where
  "truth_of_bool b = (if b then TruthTrue else TruthFalse)"

definition compare_runtime_values ::
  "scalar \<Rightarrow> scalar \<Rightarrow> compare_operator \<Rightarrow> condition_error + truth" where
  "compare_runtime_values l r op =
     (if l = ScalarNull \<or> r = ScalarNull then Inr TruthUnknown
      else
        (case compare_values l r of
           None \<Rightarrow>
             if op = CompareEqual then Inr TruthFalse
             else if op = CompareNotEqual then Inr TruthTrue
             else Inr TruthUnknown
         | Some c \<Rightarrow>
             (case op of
                CompareEqual \<Rightarrow> Inr (truth_of_bool (c = 0))
              | CompareNotEqual \<Rightarrow> Inr (truth_of_bool (c \<noteq> 0))
              | CompareGreaterThan \<Rightarrow> Inr (truth_of_bool (c > 0))
              | CompareGreaterThanOrEqual \<Rightarrow> Inr (truth_of_bool (c \<ge> 0))
              | CompareLessThan \<Rightarrow> Inr (truth_of_bool (c < 0))
              | CompareLessThanOrEqual \<Rightarrow> Inr (truth_of_bool (c \<le> 0))
              | CompareOther _ \<Rightarrow> Inl ErrEvaluation)))"

subsection \<open>The evaluator\<close>

definition decided :: "truth \<Rightarrow> evaluation" where
  "decided t = \<lparr>truth_of = t, missing = []\<rparr>"

definition unknown_with :: "missing_reference list \<Rightarrow> evaluation" where
  "unknown_with ms = \<lparr>truth_of = TruthUnknown, missing = ms\<rparr>"

lemma evaluation_simps [simp]:
  "truth_of (decided t) = t" "missing (decided t) = []"
  "truth_of (unknown_with ms) = TruthUnknown" "missing (unknown_with ms) = ms"
  by (simp_all add: decided_def unknown_with_def)

definition unknown_from_values :: "runtime_value list \<Rightarrow> evaluation" where
  "unknown_from_values vs = unknown_with (concat (map rv_missing vs))"

definition negate :: "evaluation \<Rightarrow> evaluation" where
  "negate r =
     (if truth_of r = TruthUnknown then r
      else if truth_of r = TruthTrue then r\<lparr>truth_of := TruthFalse\<rparr>
      else r\<lparr>truth_of := TruthTrue\<rparr>)"

text \<open>
  \<open>eval_and\<close>, \<open>eval_or\<close>, \<open>eval_members\<close> and \<open>eval_cases\<close> are the loops of the switch
  cases; \<open>ms\<close> is the slice of missing references collected so far. The result of the
  membership loop is whether a candidate matched, with the collected references.
\<close>

function (sequential) eval_boolean :: "prepared_context \<Rightarrow> boolean \<Rightarrow> condition_error + evaluation"
  and eval_and :: "prepared_context \<Rightarrow> boolean list \<Rightarrow> missing_reference list
         \<Rightarrow> condition_error + evaluation"
  and eval_or :: "prepared_context \<Rightarrow> boolean list \<Rightarrow> missing_reference list
         \<Rightarrow> condition_error + evaluation"
  and eval_members :: "prepared_context \<Rightarrow> scalar \<Rightarrow> value list \<Rightarrow> missing_reference list
         \<Rightarrow> condition_error + bool \<times> missing_reference list"
  and eval_value :: "prepared_context \<Rightarrow> value \<Rightarrow> condition_error + runtime_value"
  and eval_cases :: "prepared_context \<Rightarrow> branch list \<Rightarrow> value option
         \<Rightarrow> condition_error + runtime_value" where
  "eval_boolean pc (Boolean k op children operand left right vals) =
     (if k = BooleanAnd then eval_and pc children []
      else if k = BooleanOr then eval_or pc children []
      else if k = BooleanNot then
        sbind (deref operand) (\<lambda>x. sbind (eval_boolean pc x) (\<lambda>r. Inr (negate r)))
      else if k = BooleanCompare then
        sbind (deref left) (\<lambda>l. sbind (eval_value pc l) (\<lambda>lv.
        sbind (deref right) (\<lambda>r. sbind (eval_value pc r) (\<lambda>rv.
        if \<not> known lv \<or> \<not> known rv then Inr (unknown_from_values [lv, rv])
        else sbind (compare_runtime_values (rv_value lv) (rv_value rv) op)
               (\<lambda>t. Inr (decided t))))))
      else if k = BooleanIn \<or> k = BooleanNotIn then
        sbind (deref left) (\<lambda>l. sbind (eval_value pc l) (\<lambda>lv.
        if \<not> known lv then Inr (unknown_with (rv_missing lv))
        else
          sbind (eval_members pc (rv_value lv) vals []) (\<lambda>(matched, ms).
          if \<not> matched \<and> ms \<noteq> [] then Inr (unknown_with ms)
          else Inr (decided (truth_of_bool (if k = BooleanNotIn then \<not> matched else matched))))))
      else if k = BooleanIsNull \<or> k = BooleanIsNotNull then
        sbind (deref left) (\<lambda>l. sbind (eval_value pc l) (\<lambda>lv.
        if \<not> known lv then Inr (unknown_with (rv_missing lv))
        else
          let is_null = (rv_value lv = ScalarNull) in
          Inr (decided (truth_of_bool (if k = BooleanIsNotNull then \<not> is_null else is_null)))))
      else Inl ErrEvaluation)"
| "eval_and pc [] ms = Inr (if ms \<noteq> [] then unknown_with ms else decided TruthTrue)"
| "eval_and pc (b # bs) ms =
     sbind (eval_boolean pc b) (\<lambda>r.
     if truth_of r = TruthFalse then Inr (decided TruthFalse)
     else eval_and pc bs (if truth_of r = TruthUnknown then ms @ missing r else ms))"
| "eval_or pc [] ms = Inr (if ms \<noteq> [] then unknown_with ms else decided TruthFalse)"
| "eval_or pc (b # bs) ms =
     sbind (eval_boolean pc b) (\<lambda>r.
     if truth_of r = TruthTrue then Inr (decided TruthTrue)
     else eval_or pc bs (if truth_of r = TruthUnknown then ms @ missing r else ms))"
| "eval_members pc l [] ms = Inr (False, ms)"
| "eval_members pc l (v # vs) ms =
     sbind (eval_value pc v) (\<lambda>cv.
     if \<not> known cv then eval_members pc l vs (ms @ rv_missing cv)
     else
       sbind (compare_runtime_values l (rv_value cv) CompareEqual) (\<lambda>t.
       if t = TruthTrue then Inr (True, ms) else eval_members pc l vs ms))"
| "eval_value pc (Value k nid param lit cases els) =
     (if k = ValueColumn \<or> k = ValueColumnCopy then
        Inr (case p_columns pc nid of
               None \<Rightarrow> unknown_value [MissingReference nid []]
             | Some v \<Rightarrow> v)
      else if k = ValueParameter then
        Inr (case p_parameters pc param of
               None \<Rightarrow> unknown_value [MissingReference 0 param]
             | Some v \<Rightarrow> v)
      else if k = ValueLiteral then
        sbind (deref lit) (\<lambda>l.
        sbind (decode_runtime_value (lit_value l)) (\<lambda>v. Inr (known_value v)))
      else if k = ValueCase then eval_cases pc cases els
      else Inl ErrEvaluation)"
| "eval_cases pc [] els = sbind (deref els) (\<lambda>x. eval_value pc x)"
| "eval_cases pc (Case w t # cs) els =
     sbind (eval_boolean pc w) (\<lambda>c.
     if truth_of c = TruthUnknown then Inr (unknown_value (missing c))
     else if truth_of c = TruthTrue then eval_value pc t
     else eval_cases pc cs els)"
  by pat_completeness auto
termination
  by (relation "measure
    (case_sum
      (case_sum (\<lambda>(_, e). size e) (case_sum (\<lambda>(_, es, _). size_list size es) (\<lambda>(_, es, _). size_list size es)))
      (case_sum (\<lambda>(_, _, vs, _). size_list size vs)
        (case_sum (\<lambda>(_, v). size v) (\<lambda>(_, cs, els). size_list size cs + size_option size els))))")
    (auto simp: deref_eq_Inr)

declare eval_boolean.simps [simp del] eval_value.simps [simp del]

definition normalize_missing :: "missing_reference list \<Rightarrow> missing_reference list" where
  "normalize_missing ms = dedup_adjacent (sort ms)"

definition evaluate_boolean_prepared ::
  "boolean \<Rightarrow> prepared_context \<Rightarrow> condition_error + evaluation" where
  "evaluate_boolean_prepared e pc =
     sbind (validate_boolean e default_limits) (\<lambda>_.
     sbind (eval_boolean pc e) (\<lambda>r.
     Inr (r\<lparr>missing := normalize_missing (missing r)\<rparr>)))"

definition evaluate_boolean :: "boolean \<Rightarrow> eval_context \<Rightarrow> condition_error + evaluation" where
  "evaluate_boolean e c =
     sbind (prepare_context c default_context_limits) (\<lambda>pc. evaluate_boolean_prepared e pc)"

definition evaluate_value_prepared ::
  "value \<Rightarrow> prepared_context \<Rightarrow> condition_error + evaluation" where
  "evaluate_value_prepared e pc =
     sbind (validate_value e default_limits) (\<lambda>_.
     sbind (eval_value pc e) (\<lambda>v.
     if known v then Inr (decided TruthTrue)
     else Inr (unknown_with (normalize_missing (rv_missing v)))))"

definition evaluate_value :: "value \<Rightarrow> eval_context \<Rightarrow> condition_error + evaluation" where
  "evaluate_value e c =
     sbind (prepare_context c default_context_limits) (\<lambda>pc. evaluate_value_prepared e pc)"

end
