(* ===== verification/ConditionGrammar.thy ===== *)
theory ConditionGrammar
  imports ConditionEval
begin

section \<open>The grammar of conditions\<close>

text \<open>
  The declarative description of the expressions the validator accepts: a grammar (which
  fields each kind has and which it must not have), the number of nodes and the nesting
  depth. The validator is proved to decide exactly these three conditions.
\<close>

primrec node_count_boolean :: "boolean \<Rightarrow> nat"
  and node_count_value :: "value \<Rightarrow> nat"
  and node_count_branch :: "branch \<Rightarrow> nat" where
  "node_count_boolean (Boolean k op bs x l r vs) =
     Suc (sum_list (map node_count_boolean bs)
       + (case map_option node_count_boolean x of None \<Rightarrow> 0 | Some n \<Rightarrow> n)
       + (case map_option node_count_value l of None \<Rightarrow> 0 | Some n \<Rightarrow> n)
       + (case map_option node_count_value r of None \<Rightarrow> 0 | Some n \<Rightarrow> n)
       + sum_list (map node_count_value vs))"
| "node_count_value (Value k nid p lit cs e) =
     Suc (sum_list (map node_count_branch cs)
       + (case map_option node_count_value e of None \<Rightarrow> 0 | Some n \<Rightarrow> n))"
| "node_count_branch (Case w t) = node_count_boolean w + node_count_value t"

definition max_of :: "nat list \<Rightarrow> nat" where
  "max_of ns = foldr max ns 0"

lemma max_of_simps [simp]:
  "max_of [] = 0" "max_of (n # ns) = max n (max_of ns)"
  by (simp_all add: max_of_def)

primrec depth_boolean :: "boolean \<Rightarrow> nat"
  and depth_value :: "value \<Rightarrow> nat"
  and depth_branch :: "branch \<Rightarrow> nat" where
  "depth_boolean (Boolean k op bs x l r vs) =
     Suc (max (max_of (map depth_boolean bs))
       (max (case map_option depth_boolean x of None \<Rightarrow> 0 | Some n \<Rightarrow> n)
       (max (case map_option depth_value l of None \<Rightarrow> 0 | Some n \<Rightarrow> n)
       (max (case map_option depth_value r of None \<Rightarrow> 0 | Some n \<Rightarrow> n)
         (max_of (map depth_value vs))))))"
| "depth_value (Value k nid p lit cs e) =
     Suc (max (max_of (map depth_branch cs))
       (case map_option depth_value e of None \<Rightarrow> 0 | Some n \<Rightarrow> n))"
| "depth_branch (Case w t) = max (depth_boolean w) (depth_value t)"

inductive wf_boolean :: "limits \<Rightarrow> boolean \<Rightarrow> bool"
  and wf_value :: "limits \<Rightarrow> value \<Rightarrow> bool"
  and wf_branch :: "limits \<Rightarrow> branch \<Rightarrow> bool"
  for lm :: limits where
  wf_junction: "k \<in> {BooleanAnd, BooleanOr} \<Longrightarrow> 2 \<le> length bs \<Longrightarrow> int (length bs) \<le> max_list_items lm
     \<Longrightarrow> (\<And>b. b \<in> set bs \<Longrightarrow> wf_boolean lm b)
     \<Longrightarrow> wf_boolean lm (Boolean k no_operator bs None None None [])"
| wf_not: "wf_boolean lm x \<Longrightarrow> wf_boolean lm (Boolean BooleanNot no_operator [] (Some x) None None [])"
| wf_compare: "valid_compare_operator op \<Longrightarrow> wf_value lm l \<Longrightarrow> wf_value lm r
     \<Longrightarrow> wf_boolean lm (Boolean BooleanCompare op [] None (Some l) (Some r) [])"
| wf_membership: "k \<in> {BooleanIn, BooleanNotIn} \<Longrightarrow> vs \<noteq> [] \<Longrightarrow> int (length vs) \<le> max_list_items lm
     \<Longrightarrow> wf_value lm l \<Longrightarrow> (\<And>v. v \<in> set vs \<Longrightarrow> wf_value lm v)
     \<Longrightarrow> wf_boolean lm (Boolean k no_operator [] None (Some l) None vs)"
| wf_null_test: "k \<in> {BooleanIsNull, BooleanIsNotNull} \<Longrightarrow> wf_value lm l
     \<Longrightarrow> wf_boolean lm (Boolean k no_operator [] None (Some l) None [])"
| wf_column: "k \<in> {ValueColumn, ValueColumnCopy} \<Longrightarrow> 0 < nid
     \<Longrightarrow> wf_value lm (Value k nid [] None [] None)"
| wf_parameter: "trim_space p \<noteq> [] \<Longrightarrow> int (length (trim_space p)) \<le> max_string_length lm
     \<Longrightarrow> wf_value lm (Value ValueParameter 0 p None [] None)"
| wf_literal: "validate_literal t lm = Inr ()
     \<Longrightarrow> wf_value lm (Value ValueLiteral 0 [] (Some t) [] None)"
| wf_case: "cs \<noteq> [] \<Longrightarrow> int (length cs) \<le> max_list_items lm
     \<Longrightarrow> (\<And>c. c \<in> set cs \<Longrightarrow> wf_branch lm c) \<Longrightarrow> wf_value lm e
     \<Longrightarrow> wf_value lm (Value ValueCase 0 [] None cs (Some e))"
| wf_Case: "wf_boolean lm w \<Longrightarrow> wf_value lm t \<Longrightarrow> wf_branch lm (Case w t)"

inductive_simps wf_branch_simps [simp]: "wf_branch lm (Case w t)"

lemma enter_eq_Inr [result_simps]:
  "enter lm d n = Inr m \<longleftrightarrow> d \<le> max_depth lm \<and> int (Suc n) \<le> max_nodes lm \<and> m = Suc n"
  by (auto simp: enter_def result_simps)

text \<open>What an accepting run of each method went through.\<close>

lemma check_boolean_cases [consumes 1, case_names junction not compare membership null_test]:
  assumes "check_boolean lm d e n = Inr n'"
  obtains k bs where "k \<in> {BooleanAnd, BooleanOr}" "e = Boolean k no_operator bs None None None []"
      "2 \<le> length bs" "int (length bs) \<le> max_list_items lm" "enter lm d n = Inr (Suc n)"
      "check_booleans lm (d + 1) bs (Suc n) = Inr n'"
  | x where "e = Boolean BooleanNot no_operator [] (Some x) None None []"
      "enter lm d n = Inr (Suc n)" "check_boolean lm (d + 1) x (Suc n) = Inr n'"
  | op l r m where "e = Boolean BooleanCompare op [] None (Some l) (Some r) []"
      "valid_compare_operator op" "enter lm d n = Inr (Suc n)"
      "check_value lm (d + 1) l (Suc n) = Inr m" "check_value lm (d + 1) r m = Inr n'"
  | k l vs m where "k \<in> {BooleanIn, BooleanNotIn}"
      "e = Boolean k no_operator [] None (Some l) None vs"
      "vs \<noteq> []" "int (length vs) \<le> max_list_items lm" "enter lm d n = Inr (Suc n)"
      "check_value lm (d + 1) l (Suc n) = Inr m" "check_values lm (d + 1) vs m = Inr n'"
  | k l where "k \<in> {BooleanIsNull, BooleanIsNotNull}"
      "e = Boolean k no_operator [] None (Some l) None []"
      "enter lm d n = Inr (Suc n)" "check_value lm (d + 1) l (Suc n) = Inr n'"
proof (cases e)
  case e: (Boolean k op bs x l r vs)
  show thesis
  proof (cases k)
    case BooleanAnd
    with assms e show ?thesis
      by (auto simp: check_boolean.simps result_simps field_defs intro: that(1))
  next
    case BooleanOr
    with assms e show ?thesis
      by (auto simp: check_boolean.simps result_simps field_defs intro: that(1))
  next
    case BooleanNot
    with assms e show ?thesis
      by (auto simp: check_boolean.simps result_simps field_defs intro: that(2))
  next
    case BooleanCompare
    with assms e show ?thesis
      by (auto simp: check_boolean.simps result_simps field_defs intro: that(3))
  next
    case BooleanIn
    with assms e show ?thesis
      by (auto simp: check_boolean.simps result_simps field_defs intro: that(4))
  next
    case BooleanNotIn
    with assms e show ?thesis
      by (auto simp: check_boolean.simps result_simps field_defs intro: that(4))
  next
    case BooleanIsNull
    with assms e show ?thesis
      by (auto simp: check_boolean.simps result_simps field_defs intro: that(5))
  next
    case BooleanIsNotNull
    with assms e show ?thesis
      by (auto simp: check_boolean.simps result_simps field_defs intro: that(5))
  next
    case (BooleanOther s)
    with assms e show ?thesis
      by (auto simp: check_boolean.simps result_simps)
  qed
qed

lemma check_value_cases [consumes 1, case_names column parameter literal case_of]:
  assumes "check_value lm d v n = Inr n'"
  obtains k nid where "k \<in> {ValueColumn, ValueColumnCopy}" "v = Value k nid [] None [] None"
      "0 < nid" "enter lm d n = Inr n'"
  | p where "v = Value ValueParameter 0 p None [] None" "trim_space p \<noteq> []"
      "int (length (trim_space p)) \<le> max_string_length lm" "enter lm d n = Inr n'"
  | t where "v = Value ValueLiteral 0 [] (Some t) [] None" "validate_literal t lm = Inr ()"
      "enter lm d n = Inr n'"
  | cs e m where "v = Value ValueCase 0 [] None cs (Some e)" "cs \<noteq> []"
      "int (length cs) \<le> max_list_items lm" "enter lm d n = Inr (Suc n)"
      "check_cases lm (d + 1) cs (Suc n) = Inr m" "check_value lm (d + 1) e m = Inr n'"
proof (cases v)
  case v: (Value k nid p lit cs e)
  show thesis
  proof (cases k)
    case ValueColumn
    with assms v show ?thesis
      by (auto simp: check_value.simps result_simps field_defs intro: that(1))
  next
    case ValueColumnCopy
    with assms v show ?thesis
      by (auto simp: check_value.simps result_simps field_defs intro: that(1))
  next
    case ValueParameter
    with assms v show ?thesis
      by (auto simp: check_value.simps result_simps field_defs Let_def intro: that(2))
  next
    case ValueLiteral
    with assms v show ?thesis
      by (auto simp: check_value.simps result_simps field_defs intro: that(3))
  next
    case ValueCase
    with assms v show ?thesis
      by (auto simp: check_value.simps result_simps field_defs intro: that(4))
  next
    case (ValueOther s)
    with assms v show ?thesis
      by (auto simp: check_value.simps result_simps)
  qed
qed

text \<open>
  What a run from depth \<open>d\<close> and counter \<open>n\<close> to counter \<open>n'\<close> says of a part with the given
  number of nodes and depth.
\<close>

definition accepted_at :: "limits \<Rightarrow> int \<Rightarrow> nat \<Rightarrow> nat \<Rightarrow> nat \<Rightarrow> nat \<Rightarrow> bool" where
  "accepted_at lm d n n' nodes depth \<longleftrightarrow>
     n' = n + nodes \<and> (depth = 0 \<or> d + int depth \<le> max_depth lm + 1)
     \<and> (nodes = 0 \<or> int n' \<le> max_nodes lm)"

lemma accepted_at_empty: "accepted_at lm d n n 0 0"
  by (simp add: accepted_at_def)

lemma accepted_at_join:
  "accepted_at lm d n m N1 D1 \<Longrightarrow> accepted_at lm d m n' N2 D2 \<Longrightarrow>
     accepted_at lm d n n' (N1 + N2) (max D1 D2)"
  by (auto simp: accepted_at_def max_def)

lemma accepted_at_enter:
  "enter lm d n = Inr (Suc n) \<Longrightarrow> accepted_at lm (d + 1) (Suc n) n' N D \<Longrightarrow>
     accepted_at lm d n n' (Suc N) (Suc D)"
  by (auto simp: accepted_at_def result_simps)

lemma accepted_at_leaf: "enter lm d n = Inr n' \<Longrightarrow> accepted_at lm d n n' (Suc 0) (Suc 0)"
  by (auto simp: accepted_at_def result_simps)

abbreviation sound_boolean :: "limits \<Rightarrow> boolean \<Rightarrow> bool" where
  "sound_boolean lm e \<equiv> (\<forall>d n n'. check_boolean lm d e n = Inr n' \<longrightarrow>
     wf_boolean lm e \<and> accepted_at lm d n n' (node_count_boolean e) (depth_boolean e))"

abbreviation sound_value :: "limits \<Rightarrow> value \<Rightarrow> bool" where
  "sound_value lm v \<equiv> (\<forall>d n n'. check_value lm d v n = Inr n' \<longrightarrow>
     wf_value lm v \<and> accepted_at lm d n n' (node_count_value v) (depth_value v))"

lemma check_booleans_sound:
  "\<forall>b\<in>set bs. sound_boolean lm b \<Longrightarrow> check_booleans lm d bs n = Inr n' \<Longrightarrow>
     (\<forall>b\<in>set bs. wf_boolean lm b)
     \<and> accepted_at lm d n n' (sum_list (map node_count_boolean bs)) (max_of (map depth_boolean bs))"
proof (induction bs arbitrary: n)
  case (Cons b bs)
  then obtain m where "check_boolean lm d b n = Inr m" "check_booleans lm d bs m = Inr n'"
    by (auto simp: result_simps)
  with Cons.IH [of m] Cons.prems(1) show ?case
    using accepted_at_join [of lm d n m _ _ n'] by simp
qed (simp add: accepted_at_empty)

lemma check_values_sound:
  "\<forall>v\<in>set vs. sound_value lm v \<Longrightarrow> check_values lm d vs n = Inr n' \<Longrightarrow>
     (\<forall>v\<in>set vs. wf_value lm v)
     \<and> accepted_at lm d n n' (sum_list (map node_count_value vs)) (max_of (map depth_value vs))"
proof (induction vs arbitrary: n)
  case (Cons v vs)
  then obtain m where "check_value lm d v n = Inr m" "check_values lm d vs m = Inr n'"
    by (auto simp: result_simps)
  with Cons.IH [of m] Cons.prems(1) show ?case
    using accepted_at_join [of lm d n m _ _ n'] by simp
qed (simp add: accepted_at_empty)

lemma check_cases_sound:
  "\<forall>c\<in>set cs. sound_boolean lm (c_when c) \<and> sound_value lm (c_then c) \<Longrightarrow>
     check_cases lm d cs n = Inr n' \<Longrightarrow>
     (\<forall>c\<in>set cs. wf_branch lm c)
     \<and> accepted_at lm d n n' (sum_list (map node_count_branch cs)) (max_of (map depth_branch cs))"
proof (induction cs arbitrary: n)
  case (Cons c cs)
  obtain w t where c: "c = Case w t" by (cases c)
  with Cons.prems(2) obtain m k where m: "check_boolean lm d w n = Inr m"
      "check_value lm d t m = Inr k" "check_cases lm d cs k = Inr n'"
    by (auto simp: result_simps)
  from m c Cons.prems(1) have "wf_branch lm c \<and> accepted_at lm d n k (node_count_branch c) (depth_branch c)"
    using accepted_at_join [of lm d n m _ _ k] by simp
  with m Cons.IH [of k] Cons.prems(1) show ?case
    using accepted_at_join [of lm d n k _ _ n'] by simp
qed (simp add: accepted_at_empty)

lemma size_children: "x \<in> set xs \<Longrightarrow> size x < Suc (size_list size xs)"
  by (simp add: less_Suc_eq_le size_list_estimation')

lemma check_sound_size:
  "(\<forall>e. size e \<le> s \<longrightarrow> sound_boolean lm e) \<and> (\<forall>v. size v \<le> s \<longrightarrow> sound_value lm v)"
proof (induction s rule: less_induct)
  case (less s)
  then have B: "sound_boolean lm e" if "size e < s" for e
    using that by blast
  from less have V: "sound_value lm v" if "size v < s" for v
    using that by blast
  have "wf_boolean lm e \<and> accepted_at lm d n n' (node_count_boolean e) (depth_boolean e)"
    if sz: "size e \<le> s" and run: "check_boolean lm d e n = Inr n'" for d e n n'
    using run
  proof (cases rule: check_boolean_cases)
    case (junction k bs)
    then have "\<forall>b\<in>set bs. sound_boolean lm b"
      using sz B by (fastforce dest: size_children)
    then have "(\<forall>b\<in>set bs. wf_boolean lm b) \<and> accepted_at lm (d + 1) (Suc n) n'
        (sum_list (map node_count_boolean bs)) (max_of (map depth_boolean bs))"
      using junction check_booleans_sound by blast
    then show ?thesis
      using junction accepted_at_enter by (auto intro: wf_junction)
  next
    case (not x)
    then show ?thesis
      using sz B [of x] accepted_at_enter by (auto intro: wf_not)
  next
    case (compare op l r m)
    then show ?thesis
      using sz V [of l] V [of r] accepted_at_join [of lm "d + 1" "Suc n" m _ _ n'] accepted_at_enter
      by (auto intro: wf_compare)
  next
    case (membership k l vs m)
    then have "\<forall>v\<in>set vs. sound_value lm v" "sound_value lm l"
      using sz V by (fastforce dest: size_children)+
    then have "(\<forall>v\<in>set vs. wf_value lm v) \<and> accepted_at lm (d + 1) m n'
        (sum_list (map node_count_value vs)) (max_of (map depth_value vs))"
      using membership check_values_sound by blast
    then show ?thesis
      using membership \<open>sound_value lm l\<close> accepted_at_join [of lm "d + 1" "Suc n" m _ _ n']
        accepted_at_enter
      by (auto intro: wf_membership)
  next
    case (null_test k l)
    then show ?thesis
      using sz V [of l] accepted_at_enter by (auto intro: wf_null_test)
  qed
  moreover have "wf_value lm v \<and> accepted_at lm d n n' (node_count_value v) (depth_value v)"
    if sz: "size v \<le> s" and run: "check_value lm d v n = Inr n'" for d v n n'
    using run
  proof (cases rule: check_value_cases)
    case (case_of cs e m)
    have "size (c_when c) < s \<and> size (c_then c) < s" if "c \<in> set cs" for c
      using sz case_of(1) size_children [OF that] by (cases c) simp
    then have "\<forall>c\<in>set cs. sound_boolean lm (c_when c) \<and> sound_value lm (c_then c)" "sound_value lm e"
      using sz B V case_of(1) by fastforce+
    then have "(\<forall>c\<in>set cs. wf_branch lm c) \<and> accepted_at lm (d + 1) (Suc n) m
        (sum_list (map node_count_branch cs)) (max_of (map depth_branch cs))"
      using case_of check_cases_sound by blast
    then show ?thesis
      using case_of \<open>sound_value lm e\<close> accepted_at_join [of lm "d + 1" "Suc n" m _ _ n']
        accepted_at_enter
      by (auto intro: wf_case)
  qed (auto intro: accepted_at_leaf wf_column wf_parameter wf_literal)
  ultimately show ?case by blast
qed

text \<open>Conversely, the validator accepts what is in the grammar and within the bounds.\<close>

abbreviation complete_boolean :: "limits \<Rightarrow> boolean \<Rightarrow> bool" where
  "complete_boolean lm e \<equiv> (\<forall>d n. d + int (depth_boolean e) \<le> max_depth lm + 1 \<longrightarrow>
     int (n + node_count_boolean e) \<le> max_nodes lm \<longrightarrow>
     check_boolean lm d e n = Inr (n + node_count_boolean e))"

abbreviation complete_value :: "limits \<Rightarrow> value \<Rightarrow> bool" where
  "complete_value lm v \<equiv> (\<forall>d n. d + int (depth_value v) \<le> max_depth lm + 1 \<longrightarrow>
     int (n + node_count_value v) \<le> max_nodes lm \<longrightarrow>
     check_value lm d v n = Inr (n + node_count_value v))"

abbreviation complete_branch :: "limits \<Rightarrow> branch \<Rightarrow> bool" where
  "complete_branch lm c \<equiv> complete_boolean lm (c_when c) \<and> complete_value lm (c_then c)"

lemma check_booleans_complete:
  "\<forall>b\<in>set bs. complete_boolean lm b \<Longrightarrow> d + int (max_of (map depth_boolean bs)) \<le> max_depth lm + 1 \<Longrightarrow>
     int (n + sum_list (map node_count_boolean bs)) \<le> max_nodes lm \<Longrightarrow>
     check_booleans lm d bs n = Inr (n + sum_list (map node_count_boolean bs))"
  by (induction bs arbitrary: n) (simp_all add: add.assoc)

lemma check_values_complete:
  "\<forall>v\<in>set vs. complete_value lm v \<Longrightarrow> d + int (max_of (map depth_value vs)) \<le> max_depth lm + 1 \<Longrightarrow>
     int (n + sum_list (map node_count_value vs)) \<le> max_nodes lm \<Longrightarrow>
     check_values lm d vs n = Inr (n + sum_list (map node_count_value vs))"
  by (induction vs arbitrary: n) (simp_all add: add.assoc)

lemma check_cases_complete:
  "\<forall>c\<in>set cs. complete_branch lm c \<Longrightarrow> d + int (max_of (map depth_branch cs)) \<le> max_depth lm + 1 \<Longrightarrow>
     int (n + sum_list (map node_count_branch cs)) \<le> max_nodes lm \<Longrightarrow>
     check_cases lm d cs n = Inr (n + sum_list (map node_count_branch cs))"
proof (induction cs arbitrary: n)
  case (Cons c cs)
  then show ?case by (cases c) (simp add: add.assoc)
qed simp

lemma enter_ok:
  "d \<le> max_depth lm \<Longrightarrow> int (Suc n) \<le> max_nodes lm \<Longrightarrow> enter lm d n = Inr (Suc n)"
  by (simp add: result_simps)

lemma check_complete:
  "wf_boolean lm e \<Longrightarrow> complete_boolean lm e"
  "wf_value lm v \<Longrightarrow> complete_value lm v"
  "wf_branch lm c \<Longrightarrow> complete_branch lm c"
proof (induction rule: wf_boolean_wf_value_wf_branch.inducts)
  case (wf_junction k bs)
  then show ?case
    using check_booleans_complete [of bs lm] 
    by (auto simp: check_boolean.simps enter_ok field_defs)
next
  case (wf_membership k vs l)
  then show ?case
    using check_values_complete [of vs lm] 
    by (auto simp: check_boolean.simps enter_ok field_defs add.assoc)
next
  case (wf_case cs e)
  then show ?case
    using check_cases_complete [of cs lm] 
    by (auto simp: check_value.simps enter_ok field_defs add.assoc)
qed (auto simp: check_boolean.simps check_value.simps enter_ok field_defs Let_def add.assoc)

lemma validate_limits_ok:
  "validate_limits lm = Inr () \<longleftrightarrow>
     0 < max_depth lm \<and> 0 < max_nodes lm \<and> 0 < max_string_length lm \<and> 0 < max_list_items lm"
  by (auto simp: validate_limits_def result_simps)

lemma validate_boolean_wf: "validate_boolean e lm = Inr () \<Longrightarrow> wf_boolean lm e"
  using check_sound_size [of "size e" lm] by (auto simp: validate_boolean_def result_simps)

lemma validate_value_wf: "validate_value v lm = Inr () \<Longrightarrow> wf_value lm v"
  using check_sound_size [of "size v" lm] by (auto simp: validate_value_def result_simps)

lemma node_count_pos [simp]: "0 < node_count_boolean e" "0 < node_count_value v"
  by (cases e, simp) (cases v, simp)

lemma depth_pos [simp]: "0 < depth_boolean e" "0 < depth_value v"
  by (cases e, simp) (cases v, simp)

lemma validate_boolean_iff:
  "validate_boolean e lm = Inr () \<longleftrightarrow>
     0 < max_depth lm \<and> 0 < max_nodes lm \<and> 0 < max_string_length lm \<and> 0 < max_list_items lm
     \<and> wf_boolean lm e \<and> int (depth_boolean e) \<le> max_depth lm
     \<and> int (node_count_boolean e) \<le> max_nodes lm"
  using check_sound_size [of "size e" lm] check_complete(1) [of lm e]
  by (fastforce simp: validate_boolean_def result_simps validate_limits_ok accepted_at_def)

lemma validate_value_iff:
  "validate_value v lm = Inr () \<longleftrightarrow>
     0 < max_depth lm \<and> 0 < max_nodes lm \<and> 0 < max_string_length lm \<and> 0 < max_list_items lm
     \<and> wf_value lm v \<and> int (depth_value v) \<le> max_depth lm
     \<and> int (node_count_value v) \<le> max_nodes lm"
  using check_sound_size [of "size v" lm] check_complete(2) [of lm v]
  by (fastforce simp: validate_value_def result_simps validate_limits_ok accepted_at_def)

subsection \<open>The validator returns one error only\<close>

text \<open>Its reads through pointer fields are all guarded: the nil branch is never reached.\<close>

lemma validate_literal_error: "validate_literal t lm = Inl err \<Longrightarrow> err = ErrInvalidExpression"
  by (auto simp: validate_literal_def sbind_eq_Inl fail_if_eq_Inl
      split: option.splits literal_type.splits json.splits)

lemma enter_error: "enter lm d n = Inl err \<Longrightarrow> err = ErrInvalidExpression"
  by (auto simp: enter_def sbind_eq_Inl fail_if_eq_Inl)

abbreviation safe_boolean :: "limits \<Rightarrow> boolean \<Rightarrow> bool" where
  "safe_boolean lm e \<equiv> (\<forall>d n err. check_boolean lm d e n = Inl err \<longrightarrow> err = ErrInvalidExpression)"

abbreviation safe_value :: "limits \<Rightarrow> value \<Rightarrow> bool" where
  "safe_value lm v \<equiv> (\<forall>d n err. check_value lm d v n = Inl err \<longrightarrow> err = ErrInvalidExpression)"

lemma check_booleans_safe:
  "\<forall>b\<in>set bs. safe_boolean lm b \<Longrightarrow> check_booleans lm d bs n = Inl err \<Longrightarrow> err = ErrInvalidExpression"
  by (induction bs arbitrary: n) (auto simp: sbind_eq_Inl)

lemma check_values_safe:
  "\<forall>v\<in>set vs. safe_value lm v \<Longrightarrow> check_values lm d vs n = Inl err \<Longrightarrow> err = ErrInvalidExpression"
  by (induction vs arbitrary: n) (auto simp: sbind_eq_Inl)

lemma check_cases_safe:
  "\<forall>c\<in>set cs. safe_boolean lm (c_when c) \<and> safe_value lm (c_then c) \<Longrightarrow>
     check_cases lm d cs n = Inl err \<Longrightarrow> err = ErrInvalidExpression"
proof (induction cs arbitrary: n)
  case (Cons c cs)
  then show ?case by (cases c) (auto simp: sbind_eq_Inl)
qed simp

lemma check_safe_size:
  "(\<forall>e. size e \<le> s \<longrightarrow> safe_boolean lm e) \<and> (\<forall>v. size v \<le> s \<longrightarrow> safe_value lm v)"
proof (induction s rule: less_induct)
  case (less s)
  then have B: "safe_boolean lm e" if "size e < s" for e
    using that by blast
  from less have V: "safe_value lm v" if "size v < s" for v
    using that by blast
  have "err = ErrInvalidExpression"
    if sz: "size e \<le> s" and run: "check_boolean lm d e n = Inl err" for d e n err
  proof (cases e)
    case e: (Boolean k op bs x l r vs)
    have "size b < s" if "b \<in> set bs" for b
      using sz e size_children [OF that] by simp
    moreover have "size v < s" if "v \<in> set vs" for v
      using sz e size_children [OF that] by simp
    ultimately have "\<forall>b\<in>set bs. safe_boolean lm b" "\<forall>v\<in>set vs. safe_value lm v"
      using B V by blast+
    then have lists: "check_booleans lm d' bs n' = Inl err' \<Longrightarrow> err' = ErrInvalidExpression"
      "check_values lm d' vs n' = Inl err' \<Longrightarrow> err' = ErrInvalidExpression" for d' n' err'
      using check_booleans_safe check_values_safe by blast+
    have parts: "x = Some y \<Longrightarrow> safe_boolean lm y" "l = Some w \<Longrightarrow> safe_value lm w"
      "r = Some w \<Longrightarrow> safe_value lm w" for y w
      using sz e B [of y] V [of w] by auto
    show ?thesis
      using run unfolding e
      by (auto simp: check_boolean.simps Let_def sbind_eq_Inl fail_if_eq_Inl field_defs fail_if_eq_Inr
          split: if_splits dest: enter_error lists parts)
  qed
  moreover have "err = ErrInvalidExpression"
    if sz: "size v \<le> s" and run: "check_value lm d v n = Inl err" for d v n err
  proof (cases v)
    case v: (Value k nid p lit cs e)
    have "size (c_when c) < s \<and> size (c_then c) < s" if "c \<in> set cs" for c
      using sz v size_children [OF that] by (cases c) simp
    then have "\<forall>c\<in>set cs. safe_boolean lm (c_when c) \<and> safe_value lm (c_then c)"
      using B V by blast
    then have lists: "check_cases lm d' cs n' = Inl err' \<Longrightarrow> err' = ErrInvalidExpression" for d' n' err'
      using check_cases_safe by blast
    have parts: "e = Some w \<Longrightarrow> safe_value lm w" for w
      using sz v V [of w] by auto
    show ?thesis
      using run unfolding v
      by (auto simp: check_value.simps Let_def sbind_eq_Inl fail_if_eq_Inl field_defs fail_if_eq_Inr
          split: if_splits dest: enter_error validate_literal_error lists parts)
  qed
  ultimately show ?case by blast
qed

lemma validate_boolean_error: "validate_boolean e lm = Inl err \<Longrightarrow> err = ErrInvalidExpression"
  using check_safe_size [of "size e" lm]
  by (auto simp: validate_boolean_def validate_limits_def sbind_eq_Inl fail_if_eq_Inl)

lemma validate_value_error: "validate_value v lm = Inl err \<Longrightarrow> err = ErrInvalidExpression"
  using check_safe_size [of "size v" lm]
  by (auto simp: validate_value_def validate_limits_def sbind_eq_Inl fail_if_eq_Inl)

subsection \<open>The property\<close>

text \<open>
  C27. The validator decides the grammar: an expression is accepted exactly when the limits
  are positive, every node has the fields of its kind and no others (with bounded lists,
  bounded parameter names and valid literals), the nesting is at most \<open>max_depth\<close> and the
  number of nodes at most \<open>max_nodes\<close>; and every rejection is \<^verbatim>\<open>ErrInvalidExpression\<close>,
  never a read through a nil pointer.
\<close>

theorem validation_decides_grammar:
  "validate_boolean e lm =
     (if 0 < max_depth lm \<and> 0 < max_nodes lm \<and> 0 < max_string_length lm \<and> 0 < max_list_items lm
        \<and> wf_boolean lm e \<and> int (depth_boolean e) \<le> max_depth lm
        \<and> int (node_count_boolean e) \<le> max_nodes lm
      then Inr () else Inl ErrInvalidExpression)
   \<and> validate_value v lm =
     (if 0 < max_depth lm \<and> 0 < max_nodes lm \<and> 0 < max_string_length lm \<and> 0 < max_list_items lm
        \<and> wf_value lm v \<and> int (depth_value v) \<le> max_depth lm
        \<and> int (node_count_value v) \<le> max_nodes lm
      then Inr () else Inl ErrInvalidExpression)"
proof
  show "validate_boolean e lm = (if 0 < max_depth lm \<and> 0 < max_nodes lm \<and> 0 < max_string_length lm
      \<and> 0 < max_list_items lm \<and> wf_boolean lm e \<and> int (depth_boolean e) \<le> max_depth lm
      \<and> int (node_count_boolean e) \<le> max_nodes lm then Inr () else Inl ErrInvalidExpression)"
    using validate_boolean_iff [of e lm] validate_boolean_error [of e lm]
    by (cases "validate_boolean e lm") auto
  show "validate_value v lm = (if 0 < max_depth lm \<and> 0 < max_nodes lm \<and> 0 < max_string_length lm
      \<and> 0 < max_list_items lm \<and> wf_value lm v \<and> int (depth_value v) \<le> max_depth lm
      \<and> int (node_count_value v) \<le> max_nodes lm then Inr () else Inl ErrInvalidExpression)"
    using validate_value_iff [of v lm] validate_value_error [of v lm]
    by (cases "validate_value v lm") auto
qed

end
