(* ===== verification/ConditionContext.thy ===== *)
theory ConditionContext
  imports ConditionEval
begin

section \<open>The evaluation context\<close>

text \<open>
  \<^verbatim>\<open>PrepareContext\<close> ranges over two Go maps, whose iteration order is unspecified, and
  charges every entry to a byte budget as it goes. The loops are brought to a closed form,
  from which the result does not depend on the order of the entries.
\<close>

lemma decode_limit_error: "decode_runtime_value_limit raw n = Inl err \<Longrightarrow> err = ErrEvaluation"
  by (auto simp: decode_runtime_value_limit_def split: option.splits json.splits if_splits)

definition decoded :: "context_limits \<Rightarrow> string \<Rightarrow> runtime_value" where
  "decoded cl raw =
     known_value (case decode_runtime_value_limit raw (max_number_bytes cl) of
       Inr v \<Rightarrow> v | Inl _ \<Rightarrow> ScalarNull)"

definition raw_ok :: "context_limits \<Rightarrow> string \<Rightarrow> bool" where
  "raw_ok cl raw \<longleftrightarrow> raw \<noteq> [] \<and> int (length raw) \<le> max_value_bytes cl
     \<and> (\<exists>v. decode_runtime_value_limit raw (max_number_bytes cl) = Inr v)"

definition column_ok :: "context_limits \<Rightarrow> int \<times> string \<Rightarrow> bool" where
  "column_ok cl e \<longleftrightarrow> 0 < fst e \<and> raw_ok cl (snd e)"

definition parameter_ok :: "context_limits \<Rightarrow> string \<times> string \<Rightarrow> bool" where
  "parameter_ok cl e \<longleftrightarrow> trim_space (fst e) \<noteq> []
     \<and> int (length (fst e)) \<le> max_parameter_length cl \<and> raw_ok cl (snd e)"

definition column_bytes :: "(int \<times> string) list \<Rightarrow> int" where
  "column_bytes cs = (\<Sum>e\<leftarrow>cs. 8 + int (length (snd e)))"

definition parameter_bytes :: "(string \<times> string) list \<Rightarrow> int" where
  "parameter_bytes ps = (\<Sum>e\<leftarrow>ps. int (length (fst e)) + int (length (snd e)))"

lemma bytes_simps [simp]:
  "column_bytes [] = 0" "column_bytes (e # cs) = 8 + int (length (snd e)) + column_bytes cs"
  "parameter_bytes [] = 0"
  "parameter_bytes (p # ps) = int (length (fst p)) + int (length (snd p)) + parameter_bytes ps"
  by (simp_all add: column_bytes_def parameter_bytes_def)

lemma bytes_nonneg: "0 \<le> column_bytes cs" "0 \<le> parameter_bytes ps"
  by (induction cs; simp) (induction ps; simp)

lemma prepare_context_value_eq:
  assumes "0 \<le> used" "0 \<le> kb"
  shows "prepare_context_value raw cl kb used =
    (if raw_ok cl raw \<and> used + kb + int (length raw) \<le> max_total_bytes cl
     then Inr (rv_value (decoded cl raw), used + kb + int (length raw)) else Inl ErrEvaluation)"
proof (cases "decode_runtime_value_limit raw (max_number_bytes cl)")
  case (Inl err)
  then have "err = ErrEvaluation" by (rule decode_limit_error)
  with Inl show ?thesis
    by (auto simp: prepare_context_value_def Let_def raw_ok_def fail_if_def)
next
  case (Inr v)
  with assms show ?thesis
    by (auto simp: prepare_context_value_def Let_def raw_ok_def fail_if_def decoded_def)
qed

definition column_map :: "context_limits \<Rightarrow> (int \<times> string) list \<Rightarrow> int \<rightharpoonup> runtime_value" where
  "column_map cl cs = map_of (map (\<lambda>(k, raw). (k, decoded cl raw)) cs)"

definition parameter_map :: "context_limits \<Rightarrow> (string \<times> string) list \<Rightarrow> string \<rightharpoonup> runtime_value" where
  "parameter_map cl ps = map_of (map (\<lambda>(k, raw). (k, decoded cl raw)) ps)"

lemma map_upd_add: "k \<notin> dom m' \<Longrightarrow> m(k \<mapsto> v) ++ m' = m ++ m'(k \<mapsto> v)"
  by (auto simp: map_add_def fun_eq_iff split: option.splits)

lemma entry_map_dom:
  "dom (column_map cl cs) = fst ` set cs" "dom (parameter_map cl ps) = fst ` set ps"
  by (simp_all add: column_map_def parameter_map_def dom_map_of_conv_image_fst image_image case_prod_beta)

lemma decoded_known: "known_value (rv_value (decoded cl raw)) = decoded cl raw"
  by (simp add: decoded_def)

lemma prepare_columns_eq:
  "0 \<le> used \<Longrightarrow> used \<le> max_total_bytes cl \<Longrightarrow> distinct (map fst cs) \<Longrightarrow>
     prepare_columns cl cs m used =
       (if (\<forall>e\<in>set cs. column_ok cl e) \<and> used + column_bytes cs \<le> max_total_bytes cl
        then Inr (m ++ column_map cl cs, used + column_bytes cs) else Inl ErrEvaluation)"
proof (induction cs arbitrary: m used)
  case (Cons e cs)
  obtain k raw where e: "e = (k, raw)" by fastforce
  have fresh: "k \<notin> dom (column_map cl cs)"
    using Cons.prems(3) e by (auto simp: entry_map_dom)
  have map: "m(k \<mapsto> decoded cl raw) ++ column_map cl cs = m ++ column_map cl (e # cs)"
    using map_upd_add [OF fresh] by (simp add: e column_map_def)
  show ?case
  proof (cases "column_ok cl e \<and> used + 8 + int (length raw) \<le> max_total_bytes cl")
    case True
    with e have "prepare_columns cl (e # cs) m used =
        prepare_columns cl cs (m(k \<mapsto> decoded cl raw)) (used + 8 + int (length raw))"
      using Cons.prems(1) by (simp add: prepare_context_value_eq column_ok_def decoded_known fail_if_def)
    also have "\<dots> = (if (\<forall>e\<in>set cs. column_ok cl e)
          \<and> used + 8 + int (length raw) + column_bytes cs \<le> max_total_bytes cl
        then Inr (m ++ column_map cl (e # cs), used + 8 + int (length raw) + column_bytes cs)
        else Inl ErrEvaluation)"
      unfolding map [symmetric] by (rule Cons.IH) (use Cons.prems True in auto)
    finally show ?thesis using True e by (simp add: add.assoc)
  next
    case False
    have "0 \<le> column_bytes cs" by (rule bytes_nonneg)
    with False e Cons.prems(1) show ?thesis
      by (auto simp: prepare_context_value_eq column_ok_def fail_if_def)
  qed
qed (simp add: column_map_def)

lemma prepare_parameters_eq:
  "0 \<le> used \<Longrightarrow> used \<le> max_total_bytes cl \<Longrightarrow> distinct (map fst ps) \<Longrightarrow>
     prepare_parameters cl ps m used =
       (if (\<forall>e\<in>set ps. parameter_ok cl e) \<and> used + parameter_bytes ps \<le> max_total_bytes cl
        then Inr (m ++ parameter_map cl ps, used + parameter_bytes ps) else Inl ErrEvaluation)"
proof (induction ps arbitrary: m used)
  case (Cons e ps)
  obtain k raw where e: "e = (k, raw)" by fastforce
  have fresh: "k \<notin> dom (parameter_map cl ps)"
    using Cons.prems(3) e by (auto simp: entry_map_dom)
  have map: "m(k \<mapsto> decoded cl raw) ++ parameter_map cl ps = m ++ parameter_map cl (e # ps)"
    using map_upd_add [OF fresh] by (simp add: e parameter_map_def)
  let ?u = "used + int (length k) + int (length raw)"
  show ?case
  proof (cases "parameter_ok cl e \<and> ?u \<le> max_total_bytes cl")
    case True
    with e have "prepare_parameters cl (e # ps) m used =
        prepare_parameters cl ps (m(k \<mapsto> decoded cl raw)) ?u"
      using Cons.prems(1) by (simp add: prepare_context_value_eq parameter_ok_def decoded_known fail_if_def)
    also have "\<dots> = (if (\<forall>e\<in>set ps. parameter_ok cl e) \<and> ?u + parameter_bytes ps \<le> max_total_bytes cl
        then Inr (m ++ parameter_map cl (e # ps), ?u + parameter_bytes ps)
        else Inl ErrEvaluation)"
      unfolding map [symmetric] by (rule Cons.IH) (use Cons.prems True in auto)
    finally show ?thesis using True e by (simp add: add.assoc)
  next
    case False
    have "0 \<le> parameter_bytes ps" by (rule bytes_nonneg)
    with False e Cons.prems(1) show ?thesis
      by (auto simp: prepare_context_value_eq parameter_ok_def fail_if_def)
  qed
qed (simp add: parameter_map_def)

text \<open>Preparation in closed form.\<close>

definition context_accepted :: "eval_context \<Rightarrow> context_limits \<Rightarrow> bool" where
  "context_accepted c cl \<longleftrightarrow>
     0 < max_columns cl \<and> 0 < max_parameters cl \<and> 0 < max_total_bytes cl \<and> 0 < max_value_bytes cl
     \<and> 0 < max_number_bytes cl \<and> 0 < max_parameter_length cl
     \<and> int (length (columns c)) \<le> max_columns cl \<and> int (length (parameters c)) \<le> max_parameters cl
     \<and> (\<forall>e\<in>set (columns c). column_ok cl e) \<and> (\<forall>e\<in>set (parameters c). parameter_ok cl e)
     \<and> column_bytes (columns c) + parameter_bytes (parameters c) \<le> max_total_bytes cl"

lemma prepare_context_eq:
  assumes "context_wf c"
  shows "prepare_context c cl =
    (if context_accepted c cl
     then Inr \<lparr>p_columns = column_map cl (columns c), p_parameters = parameter_map cl (parameters c)\<rparr>
     else Inl ErrEvaluation)"
proof -
  have nonneg: "0 \<le> column_bytes (columns c)" "0 \<le> parameter_bytes (parameters c)" by (rule bytes_nonneg)+
  have "distinct (map fst (columns c))" "distinct (map fst (parameters c))"
    using assms by (simp_all add: context_wf_def)
  note eqs = prepare_columns_eq [OF _ _ this(1)] prepare_parameters_eq [OF _ _ this(2)]
  show ?thesis
  proof (cases "0 < max_columns cl \<and> 0 < max_parameters cl \<and> 0 < max_total_bytes cl
      \<and> 0 < max_value_bytes cl \<and> 0 < max_number_bytes cl \<and> 0 < max_parameter_length cl
      \<and> int (length (columns c)) \<le> max_columns cl \<and> int (length (parameters c)) \<le> max_parameters cl")
    case False
    then show ?thesis
      by (auto simp: prepare_context_def context_accepted_def fail_if_def)
  next
    case True
    then have ok: "prepare_context c cl =
        sbind (prepare_columns cl (columns c) Map.empty 0) (\<lambda>(cols, used).
        sbind (prepare_parameters cl (parameters c) Map.empty used) (\<lambda>(params, _).
        Inr \<lparr>p_columns = cols, p_parameters = params\<rparr>))"
      by (simp add: prepare_context_def fail_if_def)
    show ?thesis
    proof (cases "(\<forall>e\<in>set (columns c). column_ok cl e) \<and> column_bytes (columns c) \<le> max_total_bytes cl")
      case cols: True
      with ok True nonneg eqs(1) [of 0 cl Map.empty]
        eqs(2) [of "column_bytes (columns c)" cl Map.empty] show ?thesis
        by (auto simp: context_accepted_def)
    next
      case False
      with ok True nonneg eqs(1) [of 0 cl Map.empty] show ?thesis
        by (auto simp: context_accepted_def)
    qed
  qed
qed

lemma bytes_perm:
  "mset cs = mset cs' \<Longrightarrow> column_bytes cs = column_bytes cs'"
  "mset ps = mset ps' \<Longrightarrow> parameter_bytes ps = parameter_bytes ps'"
  unfolding column_bytes_def parameter_bytes_def
  by (simp_all add: sum_mset_sum_list [symmetric])

lemma entry_map_set:
  "distinct (map fst cs) \<Longrightarrow> distinct (map fst cs') \<Longrightarrow> set cs = set cs' \<Longrightarrow>
     column_map cl cs = column_map cl cs'"
  "distinct (map fst ps) \<Longrightarrow> distinct (map fst ps') \<Longrightarrow> set ps = set ps' \<Longrightarrow>
     parameter_map cl ps = parameter_map cl ps'"
  unfolding column_map_def parameter_map_def
  by (subst map_of_inject_set; simp add: o_def case_prod_beta)+

lemma prepare_context_perm:
  assumes "context_wf c" "mset (columns c') = mset (columns c)"
    and "mset (parameters c') = mset (parameters c)"
  shows "prepare_context c' cl = prepare_context c cl"
proof -
  have "distinct (map fst (columns c'))" "distinct (map fst (parameters c'))"
    using assms by (metis context_wf_def mset_eq_imp_distinct_iff mset_map)+
  moreover have "set (columns c') = set (columns c)" "set (parameters c') = set (parameters c)"
    using assms by (metis set_mset_mset)+
  moreover have "length (columns c') = length (columns c)" "length (parameters c') = length (parameters c)"
    using assms by (metis size_mset)+
  moreover have "column_bytes (columns c') = column_bytes (columns c)"
    "parameter_bytes (parameters c') = parameter_bytes (parameters c)"
    using assms by (auto intro: bytes_perm)
  moreover have "context_wf c'"
    using calculation by (simp add: context_wf_def)
  moreover have "column_map cl (columns c') = column_map cl (columns c)"
    "parameter_map cl (parameters c') = parameter_map cl (parameters c)"
    using calculation assms(1) by (auto simp: context_wf_def intro: entry_map_set)
  ultimately show ?thesis
    using assms(1) by (simp add: prepare_context_eq context_accepted_def)
qed

text \<open>
  C28. Preparing a context does not depend on the iteration order of the two maps, accepts
  exactly the contexts whose keys, values and sizes are within the limits, and never admits
  more than the byte budget.
\<close>

theorem prepare_context_order:
  assumes "context_wf c" "mset (columns c') = mset (columns c)"
    and "mset (parameters c') = mset (parameters c)"
  shows "prepare_context c' cl = prepare_context c cl
    \<and> prepare_context c cl =
        (if context_accepted c cl
         then Inr \<lparr>p_columns = column_map cl (columns c), p_parameters = parameter_map cl (parameters c)\<rparr>
         else Inl ErrEvaluation)
    \<and> (context_accepted c cl \<longrightarrow>
        column_bytes (columns c) + parameter_bytes (parameters c) \<le> max_total_bytes cl)"
  using prepare_context_perm [OF assms] prepare_context_eq [OF assms(1)]
  by (simp add: context_accepted_def)

lemma prepare_context_order_witness:
  "prepare_context \<lparr>columns = [(2, ''true''), (1, ''null'')], parameters = []\<rparr> default_context_limits
     = prepare_context \<lparr>columns = [(1, ''null''), (2, ''true'')], parameters = []\<rparr> default_context_limits"
  using prepare_context_order [of "\<lparr>columns = [(1, ''null''), (2, ''true'')], parameters = []\<rparr>"
      "\<lparr>columns = [(2, ''true''), (1, ''null'')], parameters = []\<rparr>" default_context_limits]
  by (simp add: context_wf_def)

end
