(* ===== verification/ConditionSemantics.thy ===== *)
theory ConditionSemantics
  imports ConditionGrammar ConditionContext
begin

section \<open>What evaluation promises\<close>

text \<open>
  Evaluation of an accepted expression always returns; the loops of the evaluator have a
  closed form per production of the grammar (\<open>production_results\<close>), and by induction over
  the grammar its missing references are real, its decided results survive more context,
  and it refines strong Kleene logic. The section ends with the entry points of the package
  and their properties.
\<close>

subsection \<open>Accepted literals decode\<close>

lemma number_rat_digits:
  assumes "list_all is_digit ds"
  shows "number_rat ds \<noteq> None" "number_rat (CHR ''-'' # ds) \<noteq> None"
proof -
  have tw: "takeWhile is_digit ds = ds" "dropWhile is_digit ds = []"
    using assms by (auto simp: list_all_iff)
  have "\<not> is_digit (CHR ''-'')" by (simp add: is_digit_def)
  then have "ds = [] \<or> hd ds \<noteq> CHR ''-''" using assms by (cases ds) auto
  then have neg: "(case ds of [] \<Rightarrow> False | c # _ \<Rightarrow> c = CHR ''-'') = False"
    by (cases ds) auto
  show "number_rat ds \<noteq> None"
    by (simp add: number_rat_def neg tw Let_def)
  show "number_rat (CHR ''-'' # ds) \<noteq> None"
    by (simp add: number_rat_def tw Let_def)
qed

lemma lex_number_integral:
  assumes "lex_number (sign @ ds) = Some (n, r)" "sign = [] \<or> sign = ''-''" "list_all is_digit ds"
  shows "number_rat n \<noteq> None"
proof -
  have dash: "\<not> is_digit (CHR ''-'')" by (simp add: is_digit_def)
  have sign: "lex_sign (sign @ ds) = (sign, ds)"
    using assms(2,3) dash by (cases ds) (auto simp: lex_sign_def)
  obtain w s2 where w: "lex_whole ds = (w, s2)" by fastforce
  have digits: "list_all is_digit w \<and> list_all is_digit s2"
    using w assms(3) by (cases ds) (auto simp: lex_whole_def list_all_iff split: if_splits list.splits dest: set_takeWhileD set_dropWhileD)
  then have "lex_fraction s2 = Some ([], s2)" "lex_exponent s2 = Some ([], s2)"
    by (cases s2; auto simp: lex_fraction_def lex_exponent_def is_digit_def)+
  with assms(1) sign w have "n = sign @ w"
    by (auto simp: lex_number_def split: if_splits)
  then show ?thesis
    using number_rat_digits [of w] digits assms(2) by auto
qed

lemma parse_value_digit_or_dash:
  assumes "json_parse s = Some p" "s = c # t" "is_digit c \<or> c = CHR ''-''"
  obtains n r where "p = JNumber n" "lex_number s = Some (n, r)"
proof -
  have c: "\<not> is_json_space c" "c \<noteq> CHR ''n''" "c \<noteq> CHR ''t''" "c \<noteq> CHR ''f''" "c \<noteq> CHR 0x22"
    "c \<noteq> CHR ''[''" "c \<noteq> CHR ''{''"
    using assms(3) by (auto simp: is_digit_def is_json_space_def)
  then have "skip_space s = c # t" using assms(2) by (simp add: skip_space_def)
  then show thesis
    using assms(1,2) c that
    by (auto simp: json_parse_def json_parse_depth_def split: parsed.splits option.splits if_splits)
qed

lemma integer_literal_decodes:
  assumes "json_parse s = Some p" "parse_int64 s \<noteq> None"
  obtains n where "p = JNumber n" "number_rat n \<noteq> None"
proof -
  from assms(2) obtain c t where s: "s = c # t"
    by (cases s) (auto simp: parse_int64_def)
  have "c \<noteq> CHR ''+''"
  proof
    assume "c = CHR ''+''"
    with s have "skip_space s = s" "lex_number s = None"
      by (simp_all add: skip_space_def is_json_space_def lex_number_def lex_sign_def lex_whole_def is_digit_def)
    with \<open>c = CHR ''+''\<close> s assms(1) show False
      by (auto simp: json_parse_def json_parse_depth_def)
  qed
  show thesis
  proof (cases "c = CHR ''-''")
    case True
    with assms(2) s have "list_all is_digit t"
      by (auto simp: parse_int64_def split: if_splits)
    moreover obtain n r where "p = JNumber n" "lex_number s = Some (n, r)"
      using parse_value_digit_or_dash [OF assms(1) s] True by blast
    ultimately show thesis
      using that lex_number_integral [of "''-''" t n r] s True by simp
  next
    case False
    with \<open>c \<noteq> CHR ''+''\<close> assms(2) s have ds: "list_all is_digit s"
      by (auto simp: parse_int64_def split: if_splits)
    moreover obtain n r where "p = JNumber n" "lex_number s = Some (n, r)"
      using parse_value_digit_or_dash [OF assms(1) s] ds s by auto
    ultimately show thesis
      using that lex_number_integral [of "[]" s n r] by simp
  qed
qed

lemma json_parse_null: "json_parse ''null'' = Some JNull"
  using parse_value.simps(2) [of 8 10000 0 "''null''"]
  by (simp add: json_parse_def json_parse_depth_def skip_space_def is_json_space_def)

lemma decode_literal:
  assumes "validate_literal t lm = Inr ()"
  shows "\<exists>v. decode_runtime_value (lit_value t) = Inr v"
proof -
  from assms obtain p where p: "json_parse (lit_value t) = Some p"
    by (auto simp: validate_literal_def split: option.splits)
  note decode = decode_runtime_value_def decode_runtime_value_limit_def
  show ?thesis
  proof (cases "lit_type t")
    case LiteralInteger
    with assms p have "parse_int64 (lit_value t) \<noteq> None"
      by (simp add: validate_literal_def result_simps)
    with p obtain n where "p = JNumber n" "number_rat n \<noteq> None"
      using integer_literal_decodes by blast
    with p show ?thesis by (auto simp: decode)
  next
    case LiteralNull
    with assms p have "lit_value t = ''null''"
      by (simp add: validate_literal_def result_simps)
    then show ?thesis by (simp add: decode json_parse_null)
  qed (use assms p in \<open>auto simp: validate_literal_def decode result_simps split: json.splits\<close>)
qed

subsection \<open>Evaluation is total on accepted expressions\<close>

lemma compare_runtime_values_total:
  "valid_compare_operator op \<Longrightarrow> \<exists>t. compare_runtime_values l r op = Inr t"
  by (auto simp: compare_runtime_values_def valid_compare_operator_def
      split: option.splits compare_operator.splits)

lemma eval_and_total:
  "\<forall>b\<in>set bs. \<exists>r. eval_boolean pc b = Inr r \<Longrightarrow> \<exists>r. eval_and pc bs ms = Inr r"
  by (induction bs arbitrary: ms) auto

lemma eval_or_total:
  "\<forall>b\<in>set bs. \<exists>r. eval_boolean pc b = Inr r \<Longrightarrow> \<exists>r. eval_or pc bs ms = Inr r"
  by (induction bs arbitrary: ms) auto

lemma eval_members_total:
  "\<forall>v\<in>set vs. \<exists>r. eval_value pc v = Inr r \<Longrightarrow> \<exists>r. eval_members pc l vs ms = Inr r"
proof (induction vs arbitrary: ms)
  case (Cons v vs)
  then obtain r where "eval_value pc v = Inr r" by auto
  moreover obtain t where "compare_runtime_values l (rv_value r) CompareEqual = Inr t"
    using compare_runtime_values_total [of CompareEqual] by (auto simp: valid_compare_operator_def)
  ultimately show ?case using Cons by (cases "known r"; cases "t = TruthTrue") auto
qed auto

lemma eval_cases_total:
  "\<forall>c\<in>set cs. (\<exists>r. eval_boolean pc (c_when c) = Inr r) \<and> (\<exists>r. eval_value pc (c_then c) = Inr r) \<Longrightarrow>
     \<exists>r. eval_value pc e = Inr r \<Longrightarrow> \<exists>r. eval_cases pc cs (Some e) = Inr r"
proof (induction cs)
  case (Cons c cs)
  then show ?case by (cases c) auto
qed simp

lemma eval_total:
  "wf_boolean lm e \<Longrightarrow> \<exists>r. eval_boolean pc e = Inr r"
  "wf_value lm v \<Longrightarrow> \<exists>r. eval_value pc v = Inr r"
  "wf_branch lm c \<Longrightarrow> (\<exists>r. eval_boolean pc (c_when c) = Inr r) \<and> (\<exists>r. eval_value pc (c_then c) = Inr r)"
proof (induction rule: wf_boolean_wf_value_wf_branch.inducts)
  case (wf_junction k bs)
  then show ?case
    using eval_and_total [of bs pc "[]"] eval_or_total [of bs pc "[]"] by (auto simp: eval_boolean.simps)
next
  case (wf_compare op l r)
  then obtain lv rv where "eval_value pc l = Inr lv" "eval_value pc r = Inr rv" by blast
  moreover obtain t where "compare_runtime_values (rv_value lv) (rv_value rv) op = Inr t"
    using compare_runtime_values_total [OF wf_compare(1)] by blast
  ultimately show ?case by (simp add: eval_boolean.simps)
next
  case (wf_membership k vs l)
  then obtain lv where "eval_value pc l = Inr lv" by blast
  moreover obtain m where "eval_members pc (rv_value lv) vs [] = Inr m"
    using eval_members_total [of vs pc "rv_value lv" "[]"] wf_membership by blast
  ultimately show ?case
    using wf_membership(1) by (cases m) (auto simp: eval_boolean.simps)
next
  case (wf_literal t)
  then show ?case
    using decode_literal [of t lm] by (auto simp: eval_value.simps)
next
  case (wf_case cs e)
  then show ?case
    using eval_cases_total [of cs pc e] by (auto simp: eval_value.simps)
qed (auto simp: eval_boolean.simps eval_value.simps Let_def)

subsection \<open>What the loops compute\<close>

definition boolean_result :: "prepared_context \<Rightarrow> boolean \<Rightarrow> evaluation" where
  "boolean_result pc e = (case eval_boolean pc e of Inr r \<Rightarrow> r | Inl _ \<Rightarrow> decided TruthUnknown)"

definition value_result :: "prepared_context \<Rightarrow> value \<Rightarrow> runtime_value" where
  "value_result pc v = (case eval_value pc v of Inr r \<Rightarrow> r | Inl _ \<Rightarrow> unknown_value [])"

lemma boolean_result: "wf_boolean lm e \<Longrightarrow> eval_boolean pc e = Inr (boolean_result pc e)"
  using eval_total(1) [of lm e pc] by (auto simp: boolean_result_def)

lemma value_result: "wf_value lm v \<Longrightarrow> eval_value pc v = Inr (value_result pc v)"
  using eval_total(2) [of lm v pc] by (auto simp: value_result_def)

definition concluded :: "missing_reference list \<Rightarrow> truth \<Rightarrow> evaluation" where
  "concluded ms t = (if ms \<noteq> [] then unknown_with ms else decided t)"

definition unknown_refs :: "evaluation list \<Rightarrow> missing_reference list" where
  "unknown_refs rs = concat (map (\<lambda>r. if truth_of r = TruthUnknown then missing r else []) rs)"

definition hit :: "scalar \<Rightarrow> runtime_value \<Rightarrow> bool" where
  "hit l v \<longleftrightarrow> known v \<and> compare_runtime_values l (rv_value v) CompareEqual = Inr TruthTrue"

definition unresolved_refs :: "runtime_value list \<Rightarrow> missing_reference list" where
  "unresolved_refs vs = concat (map (\<lambda>v. if known v then [] else rv_missing v) vs)"

lemma unknown_refs_simps [simp]:
  "unknown_refs [] = []"
  "unknown_refs (r # rs) = (if truth_of r = TruthUnknown then missing r else []) @ unknown_refs rs"
  by (simp_all add: unknown_refs_def)

lemma unresolved_refs_simps [simp]:
  "unresolved_refs [] = []"
  "unresolved_refs (v # vs) = (if known v then [] else rv_missing v) @ unresolved_refs vs"
  by (simp_all add: unresolved_refs_def)

lemma eval_and_eq:
  "\<forall>b\<in>set bs. wf_boolean lm b \<Longrightarrow>
     eval_and pc bs ms =
       Inr (if \<exists>b\<in>set bs. truth_of (boolean_result pc b) = TruthFalse then decided TruthFalse
            else concluded (ms @ unknown_refs (map (boolean_result pc) bs)) TruthTrue)"
proof (induction bs arbitrary: ms)
  case (Cons b bs)
  then show ?case
    by (cases "truth_of (boolean_result pc b)") (simp_all add: boolean_result [of lm])
qed (simp add: concluded_def)

lemma eval_or_eq:
  "\<forall>b\<in>set bs. wf_boolean lm b \<Longrightarrow>
     eval_or pc bs ms =
       Inr (if \<exists>b\<in>set bs. truth_of (boolean_result pc b) = TruthTrue then decided TruthTrue
            else concluded (ms @ unknown_refs (map (boolean_result pc) bs)) TruthFalse)"
proof (induction bs arbitrary: ms)
  case (Cons b bs)
  then show ?case
    by (cases "truth_of (boolean_result pc b)") (simp_all add: boolean_result [of lm])
qed (simp add: concluded_def)

lemma eval_members_hit:
  "\<forall>v\<in>set vs. wf_value lm v \<Longrightarrow> \<exists>v\<in>set vs. hit l (value_result pc v) \<Longrightarrow>
     \<exists>ms'. eval_members pc l vs ms = Inr (True, ms')"
proof (induction vs arbitrary: ms)
  case (Cons v vs)
  obtain t where "compare_runtime_values l (rv_value (value_result pc v)) CompareEqual = Inr t"
    using compare_runtime_values_total [of CompareEqual] by (auto simp: valid_compare_operator_def)
  with Cons show ?case
    by (cases "known (value_result pc v)"; cases "t = TruthTrue") (simp_all add: value_result [of lm] hit_def)
qed simp

lemma eval_members_miss:
  "\<forall>v\<in>set vs. wf_value lm v \<Longrightarrow> \<forall>v\<in>set vs. \<not> hit l (value_result pc v) \<Longrightarrow>
     eval_members pc l vs ms = Inr (False, ms @ unresolved_refs (map (value_result pc) vs))"
proof (induction vs arbitrary: ms)
  case (Cons v vs)
  obtain t where "compare_runtime_values l (rv_value (value_result pc v)) CompareEqual = Inr t"
    using compare_runtime_values_total [of CompareEqual] by (auto simp: valid_compare_operator_def)
  with Cons show ?case
    by (cases "known (value_result pc v)"; cases "t = TruthTrue") (simp_all add: value_result [of lm] hit_def)
qed simp

text \<open>The first branch whose condition is not FALSE decides a case expression.\<close>

fun pick_case :: "prepared_context \<Rightarrow> branch list \<Rightarrow> value \<Rightarrow> runtime_value" where
  "pick_case pc [] e = value_result pc e"
| "pick_case pc (Case w t # cs) e =
     (case truth_of (boolean_result pc w) of
        TruthUnknown \<Rightarrow> unknown_value (missing (boolean_result pc w))
      | TruthTrue \<Rightarrow> value_result pc t
      | TruthFalse \<Rightarrow> pick_case pc cs e)"

lemma eval_cases_eq:
  "\<forall>c\<in>set cs. wf_branch lm c \<Longrightarrow> wf_value lm e \<Longrightarrow>
     eval_cases pc cs (Some e) = Inr (pick_case pc cs e)"
proof (induction cs)
  case (Cons c cs)
  obtain w t where "c = Case w t" by (cases c)
  with Cons show ?case
    by (cases "truth_of (boolean_result pc w)") (simp_all add: boolean_result [of lm] value_result [of lm])
qed (simp add: value_result [of lm])

text \<open>The result of each production of the grammar.\<close>

lemma result_and:
  "\<forall>b\<in>set bs. wf_boolean lm b \<Longrightarrow>
     boolean_result pc (Boolean BooleanAnd op bs x l r vs) =
       (if \<exists>b\<in>set bs. truth_of (boolean_result pc b) = TruthFalse then decided TruthFalse
        else concluded (unknown_refs (map (boolean_result pc) bs)) TruthTrue)"
  by (subst boolean_result_def) (simp add: eval_boolean.simps eval_and_eq [of _ lm])

lemma result_or:
  "\<forall>b\<in>set bs. wf_boolean lm b \<Longrightarrow>
     boolean_result pc (Boolean BooleanOr op bs x l r vs) =
       (if \<exists>b\<in>set bs. truth_of (boolean_result pc b) = TruthTrue then decided TruthTrue
        else concluded (unknown_refs (map (boolean_result pc) bs)) TruthFalse)"
  by (subst boolean_result_def) (simp add: eval_boolean.simps eval_or_eq [of _ lm])

lemma result_not:
  "wf_boolean lm x \<Longrightarrow>
     boolean_result pc (Boolean BooleanNot op bs (Some x) l r vs) = negate (boolean_result pc x)"
  by (subst boolean_result_def) (simp add: eval_boolean.simps boolean_result [of lm])

definition compared :: "runtime_value \<Rightarrow> runtime_value \<Rightarrow> compare_operator \<Rightarrow> evaluation" where
  "compared a b op =
     (if known a \<and> known b then
        (case compare_runtime_values (rv_value a) (rv_value b) op of
           Inr t \<Rightarrow> decided t | Inl _ \<Rightarrow> decided TruthUnknown)
      else unknown_with (rv_missing a @ rv_missing b))"

lemma result_compare:
  "wf_value lm l \<Longrightarrow> wf_value lm r \<Longrightarrow> valid_compare_operator op \<Longrightarrow>
     boolean_result pc (Boolean BooleanCompare op bs x (Some l) (Some r) vs) =
       compared (value_result pc l) (value_result pc r) op"
  using compare_runtime_values_total [of op "rv_value (value_result pc l)" "rv_value (value_result pc r)"]
  by (subst boolean_result_def)
    (auto simp: eval_boolean.simps value_result [of lm] compared_def unknown_from_values_def)

definition membership ::
  "runtime_value \<Rightarrow> runtime_value list \<Rightarrow> bool \<Rightarrow> evaluation" where
  "membership l vs inside =
     (if \<not> known l then unknown_with (rv_missing l)
      else if \<exists>v\<in>set vs. hit (rv_value l) v then decided (truth_of_bool inside)
      else concluded (unresolved_refs vs) (truth_of_bool (\<not> inside)))"

lemma result_membership:
  assumes "k \<in> {BooleanIn, BooleanNotIn}" "wf_value lm l" "\<forall>v\<in>set vs. wf_value lm v"
  shows "boolean_result pc (Boolean k op bs x (Some l) r vs) =
    membership (value_result pc l) (map (value_result pc) vs) (k = BooleanIn)"
proof (cases "\<exists>v\<in>set vs. hit (rv_value (value_result pc l)) (value_result pc v)")
  case True
  with assms eval_members_hit [OF assms(3) True, of "[]"] show ?thesis
    by (subst boolean_result_def)
      (auto simp: eval_boolean.simps value_result [of lm] membership_def)
next
  case False
  with assms eval_members_miss [OF assms(3), of "rv_value (value_result pc l)" pc "[]"] show ?thesis
    by (subst boolean_result_def)
      (auto simp: eval_boolean.simps value_result [of lm] membership_def concluded_def)
qed

lemma result_null_test:
  "k \<in> {BooleanIsNull, BooleanIsNotNull} \<Longrightarrow> wf_value lm l \<Longrightarrow>
     boolean_result pc (Boolean k op bs x (Some l) r vs) =
       (if known (value_result pc l)
        then decided (truth_of_bool ((rv_value (value_result pc l) = ScalarNull) = (k = BooleanIsNull)))
        else unknown_with (rv_missing (value_result pc l)))"
  by (subst boolean_result_def) (auto simp: eval_boolean.simps value_result [of lm] Let_def)

lemma result_column:
  "k \<in> {ValueColumn, ValueColumnCopy} \<Longrightarrow>
     value_result pc (Value k nid p lit cs e) =
       (case p_columns pc nid of None \<Rightarrow> unknown_value [MissingReference nid []] | Some v \<Rightarrow> v)"
  by (subst value_result_def) (auto simp: eval_value.simps)

lemma result_parameter:
  "value_result pc (Value ValueParameter nid p lit cs e) =
     (case p_parameters pc p of None \<Rightarrow> unknown_value [MissingReference 0 p] | Some v \<Rightarrow> v)"
  by (subst value_result_def) (simp add: eval_value.simps)

definition literal_scalar :: "literal \<Rightarrow> scalar" where
  "literal_scalar t =
     (case decode_runtime_value (lit_value t) of Inr v \<Rightarrow> v | Inl _ \<Rightarrow> ScalarNull)"

lemma result_literal:
  "validate_literal t lm = Inr () \<Longrightarrow>
     value_result pc (Value ValueLiteral nid p (Some t) cs e) = known_value (literal_scalar t)"
  using decode_literal [of t lm]
  by (subst value_result_def) (auto simp: eval_value.simps literal_scalar_def)

lemma result_case:
  "\<forall>c\<in>set cs. wf_branch lm c \<Longrightarrow> wf_value lm e \<Longrightarrow>
     value_result pc (Value ValueCase nid p lit cs (Some e)) = pick_case pc cs e"
  by (subst value_result_def) (simp add: eval_value.simps eval_cases_eq [of _ lm])

lemmas production_results =
  result_and result_or result_not result_compare result_membership result_null_test
  result_column result_parameter result_literal result_case

subsection \<open>Contexts and references\<close>

text \<open>A prepared context holds known values only, as \<open>prepare_context\<close> builds it.\<close>

definition prepared_wf :: "prepared_context \<Rightarrow> bool" where
  "prepared_wf pc \<longleftrightarrow>
     (\<forall>v\<in>ran (p_columns pc) \<union> ran (p_parameters pc). known v \<and> rv_missing v = [])"

definition extends :: "prepared_context \<Rightarrow> prepared_context \<Rightarrow> bool" where
  "extends pc' pc \<longleftrightarrow> p_columns pc \<subseteq>\<^sub>m p_columns pc' \<and> p_parameters pc \<subseteq>\<^sub>m p_parameters pc'"

lemma prepared_wf_column:
  "prepared_wf pc \<Longrightarrow> p_columns pc n = Some v \<Longrightarrow> known v \<and> rv_missing v = []"
  by (auto simp: prepared_wf_def intro: ranI)

lemma prepared_wf_parameter:
  "prepared_wf pc \<Longrightarrow> p_parameters pc p = Some v \<Longrightarrow> known v \<and> rv_missing v = []"
  by (auto simp: prepared_wf_def intro: ranI)

lemma extendsD:
  "extends pc' pc \<Longrightarrow> p_columns pc n = Some v \<Longrightarrow> p_columns pc' n = Some v"
  "extends pc' pc \<Longrightarrow> p_parameters pc p = Some v \<Longrightarrow> p_parameters pc' p = Some v"
  by (auto simp: extends_def map_le_def dom_def)

text \<open>The column and parameter references an expression mentions.\<close>

primrec refs_boolean :: "boolean \<Rightarrow> missing_reference set"
  and refs_value :: "value \<Rightarrow> missing_reference set"
  and refs_branch :: "branch \<Rightarrow> missing_reference set" where
  "refs_boolean (Boolean k op bs x l r vs) =
     \<Union>(set (map refs_boolean bs))
     \<union> (case map_option refs_boolean x of None \<Rightarrow> {} | Some s \<Rightarrow> s)
     \<union> (case map_option refs_value l of None \<Rightarrow> {} | Some s \<Rightarrow> s)
     \<union> (case map_option refs_value r of None \<Rightarrow> {} | Some s \<Rightarrow> s)
     \<union> \<Union>(set (map refs_value vs))"
| "refs_value (Value k nid p lit cs e) =
     (if k = ValueColumn \<or> k = ValueColumnCopy then {MissingReference nid []}
      else if k = ValueParameter then {MissingReference 0 p} else {})
     \<union> \<Union>(set (map refs_branch cs))
     \<union> (case map_option refs_value e of None \<Rightarrow> {} | Some s \<Rightarrow> s)"
| "refs_branch (Case w t) = refs_boolean w \<union> refs_value t"

definition absent :: "prepared_context \<Rightarrow> missing_reference \<Rightarrow> bool" where
  "absent pc m \<longleftrightarrow>
     (if mr_parameter m = [] then p_columns pc (mr_node_id m) = None
      else p_parameters pc (mr_parameter m) = None)"

lemma negate_simps [simp]:
  "missing (negate r) = missing r"
  "truth_of (negate r) = TruthUnknown \<longleftrightarrow> truth_of r = TruthUnknown"
  by (auto simp: negate_def)

lemma concluded_simps [simp]:
  "missing (concluded ms t) = ms"
  "truth_of (concluded ms t) = (if ms = [] then t else TruthUnknown)"
  by (auto simp: concluded_def)

subsection \<open>Missing references are real\<close>

lemma unknown_refs_set:
  "\<forall>r\<in>set rs. set (missing r) \<subseteq> A \<Longrightarrow> set (unknown_refs rs) \<subseteq> A"
  by (induction rs) auto

lemma unresolved_refs_set:
  "\<forall>v\<in>set vs. set (rv_missing v) \<subseteq> A \<Longrightarrow> set (unresolved_refs vs) \<subseteq> A"
  by (induction vs) auto

lemma pick_case_missing:
  "\<forall>c\<in>set cs. set (missing (boolean_result pc (c_when c))) \<subseteq> A
     \<and> set (rv_missing (value_result pc (c_then c))) \<subseteq> A \<Longrightarrow>
   set (rv_missing (value_result pc e)) \<subseteq> A \<Longrightarrow> set (rv_missing (pick_case pc cs e)) \<subseteq> A"
  by (induction pc cs e rule: pick_case.induct) (auto split: truth.splits)

lemma missing_refs_sound:
  "wf_boolean lm e \<Longrightarrow> prepared_wf pc \<Longrightarrow>
     set (missing (boolean_result pc e)) \<subseteq> refs_boolean e \<inter> Collect (absent pc)"
  "wf_value lm v \<Longrightarrow> prepared_wf pc \<Longrightarrow>
     set (rv_missing (value_result pc v)) \<subseteq> refs_value v \<inter> Collect (absent pc)"
  "wf_branch lm c \<Longrightarrow> prepared_wf pc \<Longrightarrow>
     set (missing (boolean_result pc (c_when c))) \<subseteq> refs_branch c \<inter> Collect (absent pc)
     \<and> set (rv_missing (value_result pc (c_then c))) \<subseteq> refs_branch c \<inter> Collect (absent pc)"
proof (induction rule: wf_boolean_wf_value_wf_branch.inducts)
  case (wf_junction k bs)
  let ?A = "refs_boolean (Boolean k no_operator bs None None None []) \<inter> Collect (absent pc)"
  have "\<forall>r\<in>set (map (boolean_result pc) bs). set (missing r) \<subseteq> ?A"
    using wf_junction by fastforce
  then have "set (unknown_refs (map (boolean_result pc) bs)) \<subseteq> ?A"
    by (rule unknown_refs_set)
  with wf_junction show ?case
    by (auto simp: result_and [of _ lm] result_or [of _ lm] split: if_splits)
next
  case (wf_compare op l r)
  then show ?case
    by (auto simp: result_compare [of lm] compared_def split: sum.splits)
next
  case (wf_membership k vs l)
  let ?A = "refs_boolean (Boolean k no_operator [] None (Some l) None vs) \<inter> Collect (absent pc)"
  have "\<forall>w\<in>set (map (value_result pc) vs). set (rv_missing w) \<subseteq> ?A"
    using wf_membership by fastforce
  then have "set (unresolved_refs (map (value_result pc) vs)) \<subseteq> ?A"
    by (rule unresolved_refs_set)
  with wf_membership show ?case
    by (auto simp: result_membership [of _ lm] membership_def split: if_splits)
next
  case (wf_null_test k l)
  then show ?case
    by (auto simp: result_null_test [of _ lm] split: if_splits)
next
  case (wf_case cs e)
  let ?A = "refs_value (Value ValueCase 0 [] None cs (Some e)) \<inter> Collect (absent pc)"
  have "\<forall>c\<in>set cs. set (missing (boolean_result pc (c_when c))) \<subseteq> ?A
     \<and> set (rv_missing (value_result pc (c_then c))) \<subseteq> ?A"
    using wf_case by fastforce
  moreover have "set (rv_missing (value_result pc e)) \<subseteq> ?A"
    using wf_case by auto
  ultimately have "set (rv_missing (pick_case pc cs e)) \<subseteq> ?A"
    by (rule pick_case_missing)
  with wf_case show ?case
    by (simp add: result_case [of _ lm])
qed (auto simp: result_not [of lm] result_column result_parameter result_literal [of _ lm] absent_def
    split: option.splits dest: prepared_wf_column prepared_wf_parameter)

subsection \<open>A decided result carries no missing reference\<close>

lemma pick_case_known:
  "\<forall>c\<in>set cs. known (value_result pc (c_then c)) \<longrightarrow> rv_missing (value_result pc (c_then c)) = [] \<Longrightarrow>
   known (value_result pc e) \<longrightarrow> rv_missing (value_result pc e) = [] \<Longrightarrow>
   known (pick_case pc cs e) \<Longrightarrow> rv_missing (pick_case pc cs e) = []"
  by (induction pc cs e rule: pick_case.induct) (auto split: truth.splits)

lemma decided_not_missing:
  "wf_boolean lm e \<Longrightarrow> prepared_wf pc \<Longrightarrow>
     truth_of (boolean_result pc e) \<noteq> TruthUnknown \<longrightarrow> missing (boolean_result pc e) = []"
  "wf_value lm v \<Longrightarrow> prepared_wf pc \<Longrightarrow>
     known (value_result pc v) \<longrightarrow> rv_missing (value_result pc v) = []"
  "wf_branch lm c \<Longrightarrow> prepared_wf pc \<Longrightarrow>
     (truth_of (boolean_result pc (c_when c)) \<noteq> TruthUnknown \<longrightarrow> missing (boolean_result pc (c_when c)) = [])
     \<and> (known (value_result pc (c_then c)) \<longrightarrow> rv_missing (value_result pc (c_then c)) = [])"
proof (induction rule: wf_boolean_wf_value_wf_branch.inducts)
  case (wf_case cs e)
  then show ?case
    using pick_case_known [of cs pc e] by (auto simp: result_case [of _ lm])
qed (auto simp: result_and [of _ lm] result_or [of _ lm] result_not [of lm] result_compare [of lm]
    result_membership [of _ lm] membership_def compared_def result_null_test [of _ lm]
    result_column result_parameter result_literal [of _ lm] split: option.splits sum.splits if_splits
    dest: prepared_wf_column prepared_wf_parameter)

subsection \<open>More context does not change a decided result\<close>

lemma unknown_refs_Nil:
  "unknown_refs rs = [] \<longleftrightarrow> (\<forall>r\<in>set rs. truth_of r = TruthUnknown \<longrightarrow> missing r = [])"
  by (induction rs) auto

lemma unresolved_refs_Nil:
  "unresolved_refs vs = [] \<longleftrightarrow> (\<forall>v\<in>set vs. \<not> known v \<longrightarrow> rv_missing v = [])"
  by (induction vs) auto

lemma pick_case_stable:
  "\<forall>c\<in>set cs. wf_branch lm c \<and> (missing (boolean_result pc (c_when c)) = [] \<longrightarrow>
       boolean_result pc' (c_when c) = boolean_result pc (c_when c))
     \<and> (rv_missing (value_result pc (c_then c)) = [] \<longrightarrow>
       value_result pc' (c_then c) = value_result pc (c_then c)) \<Longrightarrow>
   (rv_missing (value_result pc e) = [] \<longrightarrow> value_result pc' e = value_result pc e) \<Longrightarrow>
   prepared_wf pc \<Longrightarrow> rv_missing (pick_case pc cs e) = [] \<Longrightarrow> pick_case pc' cs e = pick_case pc cs e"
proof (induction pc cs e rule: pick_case.induct)
  case (2 pc w t cs e)
  then have "truth_of (boolean_result pc w) \<noteq> TruthUnknown \<longrightarrow> missing (boolean_result pc w) = []"
    using decided_not_missing(1) [of lm w pc] by simp
  with 2 show ?case
    by (cases "truth_of (boolean_result pc w)") simp_all
qed simp

lemma junction_stable:
  assumes "\<forall>b\<in>set bs. missing (boolean_result pc b) = [] \<longrightarrow> boolean_result pc' b = boolean_result pc b"
    and "\<forall>b\<in>set bs. truth_of (boolean_result pc b) \<noteq> TruthUnknown \<longrightarrow> missing (boolean_result pc b) = []"
    and "missing (if \<exists>b\<in>set bs. truth_of (boolean_result pc b) = t then decided t
        else concluded (unknown_refs (map (boolean_result pc) bs)) u) = []" "t \<noteq> TruthUnknown"
  shows "(if \<exists>b\<in>set bs. truth_of (boolean_result pc' b) = t then decided t
        else concluded (unknown_refs (map (boolean_result pc') bs)) u)
     = (if \<exists>b\<in>set bs. truth_of (boolean_result pc b) = t then decided t
        else concluded (unknown_refs (map (boolean_result pc) bs)) u)"
proof (cases "\<exists>b\<in>set bs. truth_of (boolean_result pc b) = t")
  case True
  with assms have "\<exists>b\<in>set bs. truth_of (boolean_result pc' b) = t" by metis
  with True show ?thesis by simp
next
  case False
  with assms(3) have "unknown_refs (map (boolean_result pc) bs) = []" by simp
  then have eq: "\<forall>b\<in>set bs. boolean_result pc' b = boolean_result pc b"
    using assms(1,2) by (auto simp: unknown_refs_Nil)
  then have same: "map (boolean_result pc') bs = map (boolean_result pc) bs"
    by (intro map_cong) auto
  from eq have "(\<exists>b\<in>set bs. truth_of (boolean_result pc' b) = t)
      \<longleftrightarrow> (\<exists>b\<in>set bs. truth_of (boolean_result pc b) = t)"
    by auto
  then show ?thesis by (simp only: same)
qed

lemma membership_stable:
  assumes "\<forall>v\<in>set vs. rv_missing (value_result pc v) = [] \<longrightarrow> value_result pc' v = value_result pc v"
    and "\<forall>v\<in>set vs. known (value_result pc v) \<longrightarrow> rv_missing (value_result pc v) = []"
    and "rv_missing lv = [] \<longrightarrow> lv' = lv" "known lv \<longrightarrow> rv_missing lv = []"
    and "missing (membership lv (map (value_result pc) vs) b) = []"
  shows "membership lv' (map (value_result pc') vs) b = membership lv (map (value_result pc) vs) b"
proof (cases "known lv")
  case False
  with assms show ?thesis by (simp add: membership_def)
next
  case lv: True
  with assms have eq: "lv' = lv" by simp
  show ?thesis
  proof (cases "\<exists>v\<in>set vs. hit (rv_value lv) (value_result pc v)")
    case True
    with assms have "\<exists>v\<in>set vs. hit (rv_value lv) (value_result pc' v)"
      by (metis hit_def)
    with True lv eq show ?thesis by (auto simp: membership_def)
  next
    case False
    with assms(5) lv have "unresolved_refs (map (value_result pc) vs) = []"
      by (auto simp: membership_def)
    then have "\<forall>v\<in>set vs. value_result pc' v = value_result pc v"
      using assms(1,2) by (auto simp: unresolved_refs_Nil)
    then have same: "map (value_result pc') vs = map (value_result pc) vs"
      by (intro map_cong) auto
    show ?thesis unfolding eq same ..
  qed
qed

lemma results_stable:
  "wf_boolean lm e \<Longrightarrow> prepared_wf pc \<Longrightarrow> extends pc' pc \<Longrightarrow>
     missing (boolean_result pc e) = [] \<longrightarrow> boolean_result pc' e = boolean_result pc e"
  "wf_value lm v \<Longrightarrow> prepared_wf pc \<Longrightarrow> extends pc' pc \<Longrightarrow>
     rv_missing (value_result pc v) = [] \<longrightarrow> value_result pc' v = value_result pc v"
  "wf_branch lm c \<Longrightarrow> prepared_wf pc \<Longrightarrow> extends pc' pc \<Longrightarrow>
     (missing (boolean_result pc (c_when c)) = [] \<longrightarrow>
       boolean_result pc' (c_when c) = boolean_result pc (c_when c))
     \<and> (rv_missing (value_result pc (c_then c)) = [] \<longrightarrow>
       value_result pc' (c_then c) = value_result pc (c_then c))"
proof (induction rule: wf_boolean_wf_value_wf_branch.inducts)
  case (wf_junction k bs)
  then have all: "\<forall>b\<in>set bs. wf_boolean lm b"
    and none: "\<forall>b\<in>set bs. truth_of (boolean_result pc b) \<noteq> TruthUnknown \<longrightarrow> missing (boolean_result pc b) = []"
    and same: "\<forall>b\<in>set bs. missing (boolean_result pc b) = [] \<longrightarrow> boolean_result pc' b = boolean_result pc b"
    using decided_not_missing(1) by blast+
  show ?case
  proof (cases "k = BooleanAnd")
    case True
    show ?thesis
      unfolding True result_and [OF all] by (intro impI junction_stable same none) simp_all
  next
    case False
    with wf_junction(1) have "k = BooleanOr" by simp
    then show ?thesis
      by (simp only: result_or [OF all]) (intro impI junction_stable same none, simp_all)
  qed
next
  case (wf_not x)
  then show ?case by (simp add: result_not [of lm])
next
  case (wf_compare op l r)
  then show ?case
    using decided_not_missing(2) [of lm l pc] decided_not_missing(2) [of lm r pc]
    by (auto simp: result_compare [of lm] compared_def split: if_splits)
next
  case (wf_membership k vs l)
  then have "\<forall>v\<in>set vs. known (value_result pc v) \<longrightarrow> rv_missing (value_result pc v) = []"
    "known (value_result pc l) \<longrightarrow> rv_missing (value_result pc l) = []"
    using decided_not_missing(2) by blast+
  with wf_membership show ?case
    using membership_stable [of vs pc pc' "value_result pc l" "value_result pc' l"]
    by (auto simp: result_membership [of _ lm])
next
  case (wf_null_test k l)
  then show ?case
    using decided_not_missing(2) [of lm l pc]
    by (auto simp: result_null_test [of _ lm] split: if_splits)
next
  case (wf_case cs e)
  then show ?case
    using pick_case_stable [of cs lm pc pc' e] by (auto simp: result_case [of _ lm])
qed (auto simp: result_column result_parameter result_literal [of _ lm] dest: extendsD split: option.splits)

subsection \<open>Strong Kleene logic\<close>

text \<open>
  The reference semantics: SQL's three-valued logic over optional values, with no record of
  what was missing. A value is None when it is not determined by the context.
\<close>

definition kleene_and :: "truth list \<Rightarrow> truth" where
  "kleene_and ts =
     (if TruthFalse \<in> set ts then TruthFalse
      else if TruthUnknown \<in> set ts then TruthUnknown else TruthTrue)"

fun kleene_not :: "truth \<Rightarrow> truth" where
  "kleene_not TruthUnknown = TruthUnknown"
| "kleene_not TruthTrue = TruthFalse"
| "kleene_not TruthFalse = TruthTrue"

definition kleene_or :: "truth list \<Rightarrow> truth" where
  "kleene_or ts = kleene_not (kleene_and (map kleene_not ts))"

definition kleene_compare :: "scalar option \<Rightarrow> scalar option \<Rightarrow> compare_operator \<Rightarrow> truth" where
  "kleene_compare l r op =
     (case (l, r) of
        (Some a, Some b) \<Rightarrow>
          (case compare_runtime_values a b op of Inr t \<Rightarrow> t | Inl _ \<Rightarrow> TruthUnknown)
      | _ \<Rightarrow> TruthUnknown)"

fun kleene_pick :: "(truth \<times> scalar option) list \<Rightarrow> scalar option \<Rightarrow> scalar option" where
  "kleene_pick [] e = e"
| "kleene_pick ((t, v) # rest) e =
     (case t of TruthUnknown \<Rightarrow> None | TruthTrue \<Rightarrow> v | TruthFalse \<Rightarrow> kleene_pick rest e)"

primrec kleene_boolean :: "prepared_context \<Rightarrow> boolean \<Rightarrow> truth"
  and kleene_value :: "prepared_context \<Rightarrow> value \<Rightarrow> scalar option"
  and kleene_branch :: "prepared_context \<Rightarrow> branch \<Rightarrow> truth \<times> scalar option" where
  "kleene_boolean pc (Boolean k op bs x l r vs) =
     (let lv = (case map_option (kleene_value pc) l of Some v \<Rightarrow> v | None \<Rightarrow> None);
          rv = (case map_option (kleene_value pc) r of Some v \<Rightarrow> v | None \<Rightarrow> None);
          inside = kleene_or (map (\<lambda>v. kleene_compare lv v CompareEqual) (map (kleene_value pc) vs));
          is_null = (case lv of None \<Rightarrow> TruthUnknown | Some v \<Rightarrow> truth_of_bool (v = ScalarNull)) in
      case k of
        BooleanAnd \<Rightarrow> kleene_and (map (kleene_boolean pc) bs)
      | BooleanOr \<Rightarrow> kleene_or (map (kleene_boolean pc) bs)
      | BooleanNot \<Rightarrow>
          (case map_option (kleene_boolean pc) x of None \<Rightarrow> TruthUnknown | Some t \<Rightarrow> kleene_not t)
      | BooleanCompare \<Rightarrow> kleene_compare lv rv op
      | BooleanIn \<Rightarrow> inside
      | BooleanNotIn \<Rightarrow> kleene_not inside
      | BooleanIsNull \<Rightarrow> is_null
      | BooleanIsNotNull \<Rightarrow> kleene_not is_null
      | BooleanOther _ \<Rightarrow> TruthUnknown)"
| "kleene_value pc (Value k nid p lit cs e) =
     (case k of
        ValueColumn \<Rightarrow> map_option rv_value (p_columns pc nid)
      | ValueColumnCopy \<Rightarrow> map_option rv_value (p_columns pc nid)
      | ValueParameter \<Rightarrow> map_option rv_value (p_parameters pc p)
      | ValueLiteral \<Rightarrow> map_option literal_scalar lit
      | ValueCase \<Rightarrow>
          kleene_pick (map (kleene_branch pc) cs)
            (case map_option (kleene_value pc) e of Some v \<Rightarrow> v | None \<Rightarrow> None)
      | ValueOther _ \<Rightarrow> None)"
| "kleene_branch pc (Case w t) = (kleene_boolean pc w, kleene_value pc t)"

lemma kleene_not_eq [simp]:
  "kleene_not t = TruthTrue \<longleftrightarrow> t = TruthFalse"
  "kleene_not t = TruthFalse \<longleftrightarrow> t = TruthTrue"
  "kleene_not t = TruthUnknown \<longleftrightarrow> t = TruthUnknown"
  "TruthTrue = kleene_not t \<longleftrightarrow> t = TruthFalse"
  "TruthFalse = kleene_not t \<longleftrightarrow> t = TruthTrue"
  "TruthUnknown = kleene_not t \<longleftrightarrow> t = TruthUnknown"
  by (cases t; simp)+

lemma kleene_or_eq:
  "kleene_or ts =
     (if TruthTrue \<in> set ts then TruthTrue
      else if TruthUnknown \<in> set ts then TruthUnknown else TruthFalse)"
proof -
  have "TruthFalse \<in> set (map kleene_not ts) \<longleftrightarrow> TruthTrue \<in> set ts"
    "TruthUnknown \<in> set (map kleene_not ts) \<longleftrightarrow> TruthUnknown \<in> set ts"
    by (induction ts) auto
  then show ?thesis by (simp add: kleene_or_def kleene_and_def)
qed

text \<open>\<open>agrees t r\<close>: what logic determines, the evaluator returns.\<close>

definition agrees :: "truth \<Rightarrow> evaluation \<Rightarrow> bool" where
  "agrees t r \<longleftrightarrow> t = TruthUnknown \<or> truth_of r = t"

definition agrees_value :: "scalar option \<Rightarrow> runtime_value \<Rightarrow> bool" where
  "agrees_value v r \<longleftrightarrow> (case v of None \<Rightarrow> True | Some s \<Rightarrow> known r \<and> rv_value r = s)"

lemma agrees_value_simps [simp]:
  "agrees_value None r" "agrees_value (Some s) r \<longleftrightarrow> known r \<and> rv_value r = s"
  by (simp_all add: agrees_value_def)

lemma agrees_junction:
  assumes "\<forall>b\<in>set bs. agrees (kleene_boolean pc b) (boolean_result pc b)"
    and "\<forall>b\<in>set bs. truth_of (boolean_result pc b) \<noteq> TruthUnknown \<longrightarrow> missing (boolean_result pc b) = []"
    and "distinct [t, u, TruthUnknown]"
  shows "agrees (if t \<in> set (map (kleene_boolean pc) bs) then t
      else if TruthUnknown \<in> set (map (kleene_boolean pc) bs) then TruthUnknown else u)
    (if \<exists>b\<in>set bs. truth_of (boolean_result pc b) = t then decided t
     else concluded (unknown_refs (map (boolean_result pc) bs)) u)"
proof (cases "t \<in> set (map (kleene_boolean pc) bs)")
  case True
  then obtain b where "b \<in> set bs" "kleene_boolean pc b = t" by auto
  with assms(1,3) have "\<exists>b\<in>set bs. truth_of (boolean_result pc b) = t"
    by (auto simp: agrees_def)
  with True show ?thesis by (simp add: agrees_def)
next
  case no_t: False
  show ?thesis
  proof (cases "TruthUnknown \<in> set (map (kleene_boolean pc) bs)")
    case True
    with no_t show ?thesis by (simp add: agrees_def)
  next
    case False
    have "truth_of (boolean_result pc b) = u" if b: "b \<in> set bs" for b
    proof -
      have "kleene_boolean pc b \<noteq> t" "kleene_boolean pc b \<noteq> TruthUnknown"
        using b no_t False by force+
      then show ?thesis
        using assms(1,3) b by (cases "kleene_boolean pc b"; cases t; cases u) (auto simp: agrees_def)
    qed
    moreover from this have "unknown_refs (map (boolean_result pc) bs) = []"
      using assms(2,3) by (auto simp: unknown_refs_Nil)
    ultimately show ?thesis
      using no_t False assms(3) by (auto simp: agrees_def)
  qed
qed

lemma agrees_compared:
  "agrees_value l lv \<Longrightarrow> agrees_value r rv \<Longrightarrow> agrees (kleene_compare l r op) (compared lv rv op)"
  by (auto simp: agrees_def agrees_value_def kleene_compare_def compared_def split: option.splits sum.splits)

lemma agrees_membership:
  assumes "agrees_value l lv" "list_all2 agrees_value vs ws" "vs \<noteq> []"
  shows "agrees (kleene_or (map (\<lambda>v. kleene_compare l v CompareEqual) vs)) (membership lv ws True)"
    and "agrees (kleene_not (kleene_or (map (\<lambda>v. kleene_compare l v CompareEqual) vs)))
      (membership lv ws False)"
proof -
  let ?ts = "map (\<lambda>v. kleene_compare l v CompareEqual) vs"
  have "kleene_or ?ts = TruthUnknown \<or> known lv \<and>
    (kleene_or ?ts = TruthTrue \<and> (\<exists>w\<in>set ws. hit (rv_value lv) w)
     \<or> kleene_or ?ts = TruthFalse \<and> (\<forall>w\<in>set ws. known w \<and> \<not> hit (rv_value lv) w))"
  proof (cases l)
    case None
    with assms(3) show ?thesis by (cases vs) (auto simp: kleene_or_eq kleene_compare_def)
  next
    case (Some a)
    with assms(1) have lv: "known lv" "rv_value lv = a" by simp_all
    have elem: "(kleene_compare (Some a) v CompareEqual = TruthTrue \<longrightarrow> hit a w)
        \<and> (kleene_compare (Some a) v CompareEqual = TruthFalse \<longrightarrow> known w \<and> \<not> hit a w)"
      if "agrees_value v w" for v w
      using that by (auto simp: kleene_compare_def hit_def agrees_value_def split: option.splits sum.splits)
    have hits: "\<exists>w\<in>set ws. hit a w" if "TruthTrue \<in> set ?ts"
      using assms(2) that elem Some by (induction rule: list_all2_induct) auto
    have "\<forall>w\<in>set ws. known w \<and> \<not> hit a w" if "set ?ts \<subseteq> {TruthFalse}"
      using assms(2) that elem Some by (induction rule: list_all2_induct) auto
    moreover have "set ?ts \<subseteq> {TruthFalse}" if "TruthTrue \<notin> set ?ts" "TruthUnknown \<notin> set ?ts"
    proof
      fix t
      assume "t \<in> set ?ts"
      with that show "t \<in> {TruthFalse}" by (cases t) auto
    qed
    ultimately show ?thesis using lv hits unfolding kleene_or_eq by metis
  qed
  then show "agrees (kleene_or ?ts) (membership lv ws True)"
    "agrees (kleene_not (kleene_or ?ts)) (membership lv ws False)"
    by (auto simp: agrees_def membership_def truth_of_bool_def unresolved_refs_Nil)
qed

lemma agrees_pick:
  "\<forall>c\<in>set cs. agrees (fst (kleene_branch pc c)) (boolean_result pc (c_when c))
     \<and> agrees_value (snd (kleene_branch pc c)) (value_result pc (c_then c)) \<Longrightarrow>
   agrees_value ev (value_result pc e) \<Longrightarrow>
   agrees_value (kleene_pick (map (kleene_branch pc) cs) ev) (pick_case pc cs e)"
proof (induction cs)
  case (Cons c cs)
  obtain w t where c: "c = Case w t" by (cases c)
  with Cons show ?case
    by (cases "kleene_boolean pc w") (auto simp: agrees_def)
qed simp

lemma kleene_agrees:
  "wf_boolean lm e \<Longrightarrow> prepared_wf pc \<Longrightarrow> agrees (kleene_boolean pc e) (boolean_result pc e)"
  "wf_value lm v \<Longrightarrow> prepared_wf pc \<Longrightarrow> agrees_value (kleene_value pc v) (value_result pc v)"
  "wf_branch lm c \<Longrightarrow> prepared_wf pc \<Longrightarrow>
     agrees (fst (kleene_branch pc c)) (boolean_result pc (c_when c))
     \<and> agrees_value (snd (kleene_branch pc c)) (value_result pc (c_then c))"
proof (induction rule: wf_boolean_wf_value_wf_branch.inducts)
  case (wf_junction k bs)
  then have all: "\<forall>b\<in>set bs. wf_boolean lm b"
    and none: "\<forall>b\<in>set bs. truth_of (boolean_result pc b) \<noteq> TruthUnknown \<longrightarrow> missing (boolean_result pc b) = []"
    and ih: "\<forall>b\<in>set bs. agrees (kleene_boolean pc b) (boolean_result pc b)"
    using decided_not_missing(1) by blast+
  show ?case
  proof (cases "k = BooleanAnd")
    case True
    then show ?thesis
      using agrees_junction [OF ih none, of TruthFalse TruthTrue]
      by (simp only: result_and [OF all]) (simp add: kleene_and_def)
  next
    case False
    with wf_junction(1) have "k = BooleanOr" by simp
    then show ?thesis
      using agrees_junction [OF ih none, of TruthTrue TruthFalse]
      by (simp only: result_or [OF all]) (simp add: kleene_or_eq)
  qed
next
  case (wf_not x)
  then show ?case
    by (cases "truth_of (boolean_result pc x)") (auto simp: result_not [of lm] agrees_def negate_def)
next
  case (wf_compare op l r)
  then show ?case by (simp add: result_compare [of lm] agrees_compared)
next
  case (wf_membership k vs l)
  then have "list_all2 agrees_value (map (kleene_value pc) vs) (map (value_result pc) vs)"
    by (auto simp: list_all2_conv_all_nth)
  with wf_membership show ?case
    using agrees_membership [of "kleene_value pc l" "value_result pc l" "map (kleene_value pc) vs"
        "map (value_result pc) vs"]
    by (auto simp: result_membership [of _ lm] Let_def)
next
  case (wf_null_test k l)
  then show ?case
    by (auto simp: result_null_test [of _ lm] agrees_def agrees_value_def truth_of_bool_def
        split: option.splits)
next
  case (wf_case cs e)
  then show ?case
    using agrees_pick [of cs pc "kleene_value pc e" e] by (simp add: result_case [of _ lm])
qed (auto simp: result_column result_parameter result_literal [of _ lm] split: option.splits
    dest: prepared_wf_column prepared_wf_parameter)

subsection \<open>The entry points\<close>

lemma entry_maps:
  "column_map cl cs = map_option (decoded cl) \<circ> map_of cs"
  "parameter_map cl ps = map_option (decoded cl) \<circ> map_of ps"
  by (simp_all add: column_map_def parameter_map_def map_of_map)

lemma decoded_wf [simp]: "known (decoded cl raw)" "rv_missing (decoded cl raw) = []"
  by (simp_all add: decoded_def)

lemma map_of_le:
  assumes "distinct (map fst ys)" "set xs \<subseteq> set ys"
  shows "map_of xs \<subseteq>\<^sub>m map_of ys"
  unfolding map_le_def
proof
  fix k
  assume "k \<in> dom (map_of xs)"
  then obtain v where v: "map_of xs k = Some v" by auto
  then have "(k, v) \<in> set ys" using assms(2) map_of_SomeD by fast
  with v assms(1) show "map_of xs k = map_of ys k" by simp
qed

lemma prepared_context_maps:
  assumes "context_wf c" "prepare_context c cl = Inr pc"
  shows "p_columns pc = map_option (decoded cl) \<circ> map_of (columns c)"
    and "p_parameters pc = map_option (decoded cl) \<circ> map_of (parameters c)"
proof -
  have "pc = \<lparr>p_columns = column_map cl (columns c), p_parameters = parameter_map cl (parameters c)\<rparr>"
    using assms prepare_context_eq [OF assms(1), of cl] by (simp split: if_splits)
  then show "p_columns pc = map_option (decoded cl) \<circ> map_of (columns c)"
    "p_parameters pc = map_option (decoded cl) \<circ> map_of (parameters c)"
    by (simp_all add: entry_maps)
qed

lemma prepared_context_wf:
  assumes "context_wf c" "prepare_context c cl = Inr pc"
  shows "prepared_wf pc"
  using prepared_context_maps [OF assms] by (auto simp: prepared_wf_def ran_def)

lemma prepared_extends:
  assumes "context_wf c" "context_wf c'" "set (columns c) \<subseteq> set (columns c')"
    and "set (parameters c) \<subseteq> set (parameters c')"
    and "prepare_context c cl = Inr pc" "prepare_context c' cl = Inr pc'"
  shows "extends pc' pc"
proof -
  have "map_of (columns c) \<subseteq>\<^sub>m map_of (columns c')" "map_of (parameters c) \<subseteq>\<^sub>m map_of (parameters c')"
    using assms(2-4) by (simp_all add: context_wf_def map_of_le)
  then show ?thesis
    using prepared_context_maps [OF assms(1,5)] prepared_context_maps [OF assms(2,6)]
    by (auto simp: extends_def map_le_def dom_def)
qed

text \<open>A reference is supplied when the context has an entry for it.\<close>

definition supplied :: "eval_context \<Rightarrow> missing_reference \<Rightarrow> bool" where
  "supplied c m \<longleftrightarrow>
     (if mr_parameter m = [] then mr_node_id m \<in> fst ` set (columns c)
      else mr_parameter m \<in> fst ` set (parameters c))"

lemma prepared_absent:
  "context_wf c \<Longrightarrow> prepare_context c cl = Inr pc \<Longrightarrow> absent pc m \<longleftrightarrow> \<not> supplied c m"
  using prepared_context_maps [of c cl pc]
  by (simp add: absent_def supplied_def map_of_eq_None_iff)

lemma evaluate_boolean_cases:
  assumes "evaluate_boolean e c = Inr r"
  obtains pc where "prepare_context c default_context_limits = Inr pc" "wf_boolean default_limits e"
    "r = (boolean_result pc e)\<lparr>missing := normalize_missing (missing (boolean_result pc e))\<rparr>"
proof -
  from assms obtain pc where pc: "prepare_context c default_context_limits = Inr pc"
      "evaluate_boolean_prepared e pc = Inr r"
    by (auto simp: evaluate_boolean_def result_simps)
  then have "validate_boolean e default_limits = Inr ()"
    by (auto simp: evaluate_boolean_prepared_def result_simps)
  then have wf: "wf_boolean default_limits e" by (rule validate_boolean_wf)
  with pc show thesis
    using that boolean_result [OF wf, of pc] by (auto simp: evaluate_boolean_prepared_def result_simps)
qed

lemma normalize_missing_simps [simp]:
  "set (normalize_missing ms) = set ms" "normalize_missing ms = [] \<longleftrightarrow> ms = []"
  "sorted_wrt (<) (normalize_missing ms)"
  using length_0_conv [of "sort ms"] by (auto simp: normalize_missing_def strict_sort_dedup)

text \<open>
  C26. Evaluation against a prepared context never fails on its own: it returns a result for
  every expression the validator accepts and the validator's error for every other, and the
  run-time panics of the evaluator (nil pointers, unknown kinds and operators, literals that
  do not decode) cannot happen.
\<close>

theorem evaluation_total:
  "(case evaluate_boolean_prepared e pc of
      Inr r \<Rightarrow> validate_boolean e default_limits = Inr ()
    | Inl err \<Rightarrow> validate_boolean e default_limits = Inl err \<and> err = ErrInvalidExpression)
   \<and> (case evaluate_value_prepared v pc of
      Inr r \<Rightarrow> validate_value v default_limits = Inr ()
    | Inl err \<Rightarrow> validate_value v default_limits = Inl err \<and> err = ErrInvalidExpression)"
proof
  show "case evaluate_boolean_prepared e pc of
      Inr r \<Rightarrow> validate_boolean e default_limits = Inr ()
    | Inl err \<Rightarrow> validate_boolean e default_limits = Inl err \<and> err = ErrInvalidExpression"
  proof (cases "validate_boolean e default_limits")
    case (Inl err)
    then show ?thesis
      using validate_boolean_error [OF Inl] by (simp add: evaluate_boolean_prepared_def)
  next
    case (Inr u)
    then show ?thesis
      using validate_boolean_wf [of e default_limits] boolean_result [of default_limits e pc]
      by (simp add: evaluate_boolean_prepared_def)
  qed
  show "case evaluate_value_prepared v pc of
      Inr r \<Rightarrow> validate_value v default_limits = Inr ()
    | Inl err \<Rightarrow> validate_value v default_limits = Inl err \<and> err = ErrInvalidExpression"
  proof (cases "validate_value v default_limits")
    case (Inl err)
    then show ?thesis
      using validate_value_error [OF Inl] by (simp add: evaluate_value_prepared_def)
  next
    case (Inr u)
    then show ?thesis
      using validate_value_wf [of v default_limits] value_result [of default_limits v pc]
      by (simp add: evaluate_value_prepared_def)
  qed
qed

text \<open>
  The missing references an evaluation reports are exact evidence: the list is strictly
  sorted, each reference occurs in the expression and has no entry in the context, and a
  TRUE or FALSE result reports none.
\<close>

theorem missing_references_sound:
  assumes "context_wf c" "evaluate_boolean e c = Inr r"
  shows "sorted_wrt (<) (missing r) \<and> set (missing r) \<subseteq> refs_boolean e - Collect (supplied c)
    \<and> (truth_of r = TruthUnknown \<or> missing r = [])"
  using assms(2)
proof (cases rule: evaluate_boolean_cases)
  case (1 pc)
  have "prepared_wf pc" using assms(1) 1(1) by (rule prepared_context_wf)
  then show ?thesis
    using 1 missing_refs_sound(1) [OF 1(2), of pc] decided_not_missing(1) [OF 1(2), of pc]
      prepared_absent [OF assms(1) 1(1)]
    by auto
qed

text \<open>
  C25. A result that reports no missing reference is final: adding entries to the context
  cannot change it.
\<close>

theorem evaluation_stable:
  assumes "context_wf c" "context_wf c'"
    and "set (columns c) \<subseteq> set (columns c')" "set (parameters c) \<subseteq> set (parameters c')"
    and "evaluate_boolean e c = Inr r" "missing r = []" "evaluate_boolean e c' = Inr r'"
  shows "r' = r"
  using assms(5)
proof (cases rule: evaluate_boolean_cases)
  case (1 pc)
  note c = 1
  from assms(7) show ?thesis
  proof (cases rule: evaluate_boolean_cases)
    case (1 pc')
    have "prepared_wf pc" using assms(1) c(1) by (rule prepared_context_wf)
    moreover have "extends pc' pc" using assms(1-4) c(1) 1(1) by (rule prepared_extends)
    ultimately show ?thesis
      using results_stable(1) [OF c(2)] c(3) 1(3) assms(6) by auto
  qed
qed

text \<open>
  C20. The evaluator refines strong Kleene logic: whenever the three-valued reference
  semantics determines TRUE or FALSE, that is the evaluator's result, so it reports UNKNOWN
  only where logic leaves the condition open.
\<close>

theorem evaluation_refines_kleene:
  assumes "context_wf c" "prepare_context c default_context_limits = Inr pc"
    and "evaluate_boolean e c = Inr r"
  shows "kleene_boolean pc e = TruthUnknown \<or> truth_of r = kleene_boolean pc e"
  using assms(3)
proof (cases rule: evaluate_boolean_cases)
  case (1 pc')
  then show ?thesis
    using kleene_agrees(1) [OF 1(2) prepared_context_wf [OF assms(1,2)]] assms(2)
    by (auto simp: agrees_def)
qed


subsection \<open>The properties at a concrete condition\<close>

lemma json_parse_bools: "json_parse ''true'' = Some (JBool True)" "json_parse ''false'' = Some (JBool False)"
  using parse_value.simps(2) [of 8 10000 0 "''true''"] parse_value.simps(2) [of 10 10000 0 "''false''"]
  by (simp_all add: json_parse_def json_parse_depth_def skip_space_def is_json_space_def)

lemmas json_parse_words = json_parse_null json_parse_bools

lemma decode_words [simp]:
  "decode_runtime_value_limit ''null'' n = Inr ScalarNull"
  "decode_runtime_value_limit ''true'' n = Inr (ScalarBool True)"
  "decode_runtime_value_limit ''false'' n = Inr (ScalarBool False)"
  by (simp_all add: decode_runtime_value_limit_def json_parse_words)

lemmas evaluator_simps =
  evaluate_boolean_def evaluate_boolean_prepared_def validate_boolean_def validate_limits_def
  check_boolean.simps check_value.simps enter_def field_defs default_limits_def
  eval_boolean.simps eval_value.simps prepare_context_def prepare_context_value_def
  default_context_limits_def validate_literal_def json_parse_words decode_runtime_value_def
  compare_runtime_values_def unknown_from_values_def normalize_missing_def dedup_adjacent_def
  dedup_step_def truth_of_bool_def negate_def

lemma trim_p: "trim_space ''p'' = ''p''"
  by (simp add: trim_space_def trim_left_def trim_right_def strip_leading.simps go_spaces_def)

text \<open>
  \<open>column 1 IS NULL AND parameter p IS NOT NULL\<close>, evaluated without and with the parameter.
\<close>

definition sample_condition :: boolean where
  "sample_condition =
     Boolean BooleanAnd no_operator
       [Boolean BooleanIsNull no_operator [] None (Some (Value ValueColumn 1 [] None [] None)) None [],
        Boolean BooleanIsNotNull no_operator [] None (Some (Value ValueParameter 0 ''p'' None [] None)) None []]
       None None None []"

definition sample_context :: "string \<Rightarrow> eval_context" where
  "sample_context raw = \<lparr>columns = [(1, raw)], parameters = []\<rparr>"

definition larger_context :: eval_context where
  "larger_context = \<lparr>columns = [(2, ''false''), (1, ''true'')], parameters = [(''p'', ''null'')]\<rparr>"

lemma sample_contexts_wf:
  "context_wf (sample_context raw)" "context_wf larger_context"
  by (simp_all add: context_wf_def sample_context_def larger_context_def)

lemma sample_unknown:
  "evaluate_boolean sample_condition (sample_context ''null'') = Inr (unknown_with [MissingReference 0 ''p''])"
  by (simp add: evaluator_simps sample_condition_def sample_context_def trim_p)

lemma sample_false:
  "evaluate_boolean sample_condition (sample_context ''true'') = Inr (decided TruthFalse)"
  "evaluate_boolean sample_condition larger_context = Inr (decided TruthFalse)"
  by (simp_all add: evaluator_simps sample_condition_def sample_context_def larger_context_def trim_p)

lemma missing_references_sound_witness:
  "sorted_wrt (<) [MissingReference 0 ''p'']
   \<and> {MissingReference 0 ''p''} \<subseteq> refs_boolean sample_condition - Collect (supplied (sample_context ''null''))"
  using missing_references_sound [OF sample_contexts_wf(1) sample_unknown] by simp

lemma evaluation_stable_witness:
  "\<exists>r'. evaluate_boolean sample_condition larger_context = Inr r' \<and> r' = decided TruthFalse"
proof -
  obtain r' where r': "evaluate_boolean sample_condition larger_context = Inr r'"
    using sample_false(2) by blast
  have "r' = decided TruthFalse"
    by (rule evaluation_stable [OF sample_contexts_wf(1,2) _ _ sample_false(1) _ r'])
      (simp_all add: sample_context_def larger_context_def)
  with r' show ?thesis by blast
qed

lemma evaluation_refines_kleene_witness:
  "\<exists>pc. prepare_context larger_context default_context_limits = Inr pc
     \<and> kleene_boolean pc sample_condition \<in> {TruthUnknown, TruthFalse}"
proof -
  obtain pc where pc: "prepare_context larger_context default_context_limits = Inr pc"
    using sample_false(2) by (auto simp: evaluate_boolean_def result_simps)
  then show ?thesis
    using evaluation_refines_kleene [OF sample_contexts_wf(2) pc sample_false(2)] by auto
qed

text \<open>
  Where the evaluator and the reference semantics part: a child that is UNKNOWN with no
  missing reference (a comparison with null, or an ordering of values of different types)
  leaves no trace in the conjunction and the disjunction around it, which then come out TRUE
  and FALSE.
\<close>

definition null_comparison :: boolean where
  "null_comparison =
     (let null = Value ValueLiteral 0 [] (Some (Literal LiteralNull ''null'')) [] None in
      Boolean BooleanCompare CompareEqual [] None (Some null) (Some null) [])"

lemma unknown_children_vanish:
  "evaluate_boolean null_comparison \<lparr>columns = [], parameters = []\<rparr> = Inr (unknown_with [])
   \<and> evaluate_boolean (Boolean BooleanAnd no_operator [null_comparison, null_comparison] None None None [])
       \<lparr>columns = [], parameters = []\<rparr> = Inr (decided TruthTrue)
   \<and> evaluate_boolean (Boolean BooleanOr no_operator [null_comparison, null_comparison] None None None [])
       \<lparr>columns = [], parameters = []\<rparr> = Inr (decided TruthFalse)"
  by (simp add: evaluator_simps null_comparison_def Let_def valid_compare_operator_def
      decided_def unknown_with_def)

definition literal_value :: "literal_type \<Rightarrow> string \<Rightarrow> value" where
  "literal_value t raw = Value ValueLiteral 0 [] (Some (Literal t raw)) [] None"

lemma not_in_null_is_true:
  "evaluate_boolean
     (Boolean BooleanNotIn no_operator [] None (Some (literal_value LiteralBoolean ''true'')) None
       [literal_value LiteralNull ''null''])
     \<lparr>columns = [], parameters = []\<rparr> = Inr (decided TruthTrue)"
  by (simp add: evaluator_simps literal_value_def)

lemma null_literals_accepted:
  "validate_literal (Literal LiteralString ''null'') default_limits = Inr ()
   \<and> validate_literal (Literal LiteralBoolean ''null'') default_limits = Inr ()"
  by (simp add: validate_literal_def json_parse_words)

end
