(* ===== verification/Ids.thy ===== *)
theory Ids
  imports Prelude
begin

section \<open>Snowflake identifiers\<close>

text \<open>
  \<^verbatim>\<open>internal/id/generator.go\<close> and the persistent high-water mark of
  \<^verbatim>\<open>internal/platform/sqlite/id_state_repository.go\<close>. An id is an \<^verbatim>\<open>int64\<close> that packs 41
  bits of milliseconds since 2026, 10 bits of node and 12 bits of sequence; it is kept as
  a 64-bit word, read as signed, with the shifts and masks of the code.
\<close>

unbundle bit_operations_syntax

type_synonym int64 = "64 word"
type_synonym uint16 = "16 word"

definition max_node :: int64 where "max_node = 1023"
definition max_sequence :: int64 where "max_sequence = 4095"
definition max_timestamp :: int64 where "max_timestamp = 2199023255551"
definition node_shift :: nat where "node_shift = 12"
definition timestamp_shift :: nat where "timestamp_shift = 22"
definition maximum_reservation_size :: int where "maximum_reservation_size = 1000000"

text \<open>\<^verbatim>\<open>epoch.UnixMilli()\<close> of 2026-01-01T00:00:00Z.\<close>

definition epoch_millis :: int64 where "epoch_millis = 1767225600000"

datatype id_error =
    ErrInvalidNode | ErrClockBeforeEpoch | ErrClockMovedBackward | ErrSequenceExhausted | ErrInvalidReservation
  | ErrTimestampExhausted | ContextRequired | ContextDone | StateStoreRequired | StateNotPersisted

datatype go_context = NilContext | DoneContext | LiveContext

definition check_context :: "go_context \<Rightarrow> id_error + unit" where
  "check_context ctx =
     (case ctx of NilContext \<Rightarrow> Inl ContextRequired | DoneContext \<Rightarrow> Inl ContextDone | LiveContext \<Rightarrow> Inr ())"

record reservation =
  first_id :: int64
  last_id :: int64
  res_count :: int

definition validate_node :: "uint16 \<Rightarrow> id_error + unit" where
  "validate_node node = fail_if (ucast node > max_node) ErrInvalidNode"

definition compose :: "int64 \<Rightarrow> int64 \<Rightarrow> int64 \<Rightarrow> int64" where
  "compose timestamp node sq =
     (push_bit timestamp_shift timestamp OR push_bit node_shift node) OR sq"

text \<open>The argument is what \<^verbatim>\<open>UnixMilli\<close> returns; the subtraction wraps.\<close>

definition timestamp_for :: "int64 \<Rightarrow> id_error + int64" where
  "timestamp_for unix_millis =
     (let timestamp = unix_millis - epoch_millis in
      sbind (fail_if (timestamp <s 0) ErrClockBeforeEpoch) (\<lambda>_.
      sbind (fail_if (max_timestamp <s timestamp) ErrTimestampExhausted) (\<lambda>_.
      Inr timestamp)))"

definition successor :: "int64 \<Rightarrow> uint16 \<Rightarrow> id_error + int64" where
  "successor current node =
     sbind (fail_if (current \<le>s 0) ErrInvalidReservation) (\<lambda>_.
     let timestamp = signed_drop_bit timestamp_shift current;
         encoded_node = signed_drop_bit node_shift current AND max_node in
     sbind (fail_if (encoded_node \<noteq> ucast node) ErrInvalidReservation) (\<lambda>_.
     let sq = current AND max_sequence in
     if sq <s max_sequence then Inr (compose timestamp encoded_node (sq + 1))
     else
       sbind (fail_if (max_timestamp \<le>s timestamp) ErrTimestampExhausted) (\<lambda>_.
       Inr (compose (timestamp + 1) encoded_node 0))))"

text \<open>The loop of \<^verbatim>\<open>ReserveRange\<close>: \<open>steps\<close> successors of an id.\<close>

fun advance :: "nat \<Rightarrow> int64 \<Rightarrow> uint16 \<Rightarrow> id_error + int64" where
  "advance 0 current node = Inr current"
| "advance (Suc steps) current node =
     sbind (successor current node) (\<lambda>nxt. advance steps nxt node)"

definition reserve_range ::
  "uint16 \<Rightarrow> int64 \<Rightarrow> int64 \<Rightarrow> int \<Rightarrow> id_error + reservation" where
  "reserve_range node observed high_water n =
     sbind (validate_node node) (\<lambda>_.
     sbind (fail_if (observed <s 0) ErrClockBeforeEpoch) (\<lambda>_.
     sbind (fail_if (max_timestamp <s observed) ErrTimestampExhausted) (\<lambda>_.
     sbind (fail_if (n < 1 \<or> n > maximum_reservation_size) ErrInvalidReservation) (\<lambda>_.
     let first = compose observed (ucast node) 0 in
     sbind (if 0 <s high_water \<and> first \<le>s high_water then successor high_water node else Inr first)
       (\<lambda>first'.
     sbind (advance (nat n - 1) first' node) (\<lambda>last.
     Inr \<lparr>first_id = first', last_id = last, res_count = n\<rparr>))))))"

subsection \<open>The in-memory generator\<close>

record generator =
  g_node :: int64
  g_last_timestamp :: int64
  g_sequence :: int64

definition new_generator :: "uint16 \<Rightarrow> id_error + generator" where
  "new_generator node =
     sbind (validate_node node) (\<lambda>_.
     Inr \<lparr>g_node = ucast node, g_last_timestamp = - 1, g_sequence = 0\<rparr>)"

text \<open>
  \<^verbatim>\<open>Generator.Next\<close>, run under its mutex; the clock reading is an argument. An error leaves
  the generator as it was.
\<close>

definition generator_next :: "go_context \<Rightarrow> int64 \<Rightarrow> generator \<Rightarrow> id_error + int64 \<times> generator" where
  "generator_next ctx now g =
     sbind (check_context ctx) (\<lambda>_.
     sbind (timestamp_for now) (\<lambda>timestamp.
     if g_last_timestamp g <s timestamp then
       Inr (compose timestamp (g_node g) 0, g\<lparr>g_last_timestamp := timestamp, g_sequence := 0\<rparr>)
     else if g_sequence g <s max_sequence then
       let sq = g_sequence g + 1 in
       Inr (compose (g_last_timestamp g) (g_node g) sq, g\<lparr>g_sequence := sq\<rparr>)
     else if g_last_timestamp g = max_timestamp then Inl ErrTimestampExhausted
     else
       let timestamp' = g_last_timestamp g + 1 in
       Inr (compose timestamp' (g_node g) 0, g\<lparr>g_last_timestamp := timestamp', g_sequence := 0\<rparr>)))"

subsection \<open>The persistent allocator\<close>

record allocator =
  a_node :: uint16
  a_lease_size :: int
  a_next_id :: int64
  a_remaining :: int

definition new_persistent_allocator :: "uint16 \<Rightarrow> bool \<Rightarrow> int \<Rightarrow> id_error + allocator" where
  "new_persistent_allocator node has_state lease =
     sbind (validate_node node) (\<lambda>_.
     sbind (fail_if (\<not> has_state) StateStoreRequired) (\<lambda>_.
     sbind (fail_if (lease < 1 \<or> lease > maximum_reservation_size) ErrInvalidReservation) (\<lambda>_.
     Inr \<lparr>a_node = node, a_lease_size = lease, a_next_id = 0, a_remaining = 0\<rparr>)))"

text \<open>
  \<^verbatim>\<open>StateStore.ReserveIDRange\<close> is the argument \<open>store\<close> (node, observed timestamp and count,
  and the state of the store). The methods return the result with the new allocator and
  store, since an error may leave either changed.
\<close>

type_synonym 's state_store =
  "uint16 \<Rightarrow> int64 \<Rightarrow> int \<Rightarrow> 's \<Rightarrow> (id_error + reservation) \<times> 's"

definition reserve_lease ::
  "'s state_store \<Rightarrow> int64 \<Rightarrow> int \<Rightarrow> allocator \<Rightarrow> 's \<Rightarrow> (id_error + unit) \<times> allocator \<times> 's" where
  "reserve_lease store now n a s =
     (case timestamp_for now of
        Inl e \<Rightarrow> (Inl e, a, s)
      | Inr timestamp \<Rightarrow>
          (case store (a_node a) timestamp n s of
             (Inl e, s') \<Rightarrow> (Inl e, a, s')
           | (Inr r, s') \<Rightarrow>
               if res_count r \<noteq> n \<or> first_id r \<le>s 0 \<or> last_id r <s first_id r
               then (Inl ErrInvalidReservation, a, s')
               else (Inr (), a\<lparr>a_next_id := first_id r, a_remaining := res_count r\<rparr>, s')))"

definition take_id :: "allocator \<Rightarrow> (id_error + int64) \<times> allocator" where
  "take_id a =
     (let allocated = a_next_id a; a' = a\<lparr>a_remaining := a_remaining a - 1\<rparr> in
      if a_remaining a' > 0 then
        (case successor (a_next_id a) (a_node a) of
           Inl e \<Rightarrow> (Inl e, a')
         | Inr nxt \<Rightarrow> (Inr allocated, a'\<lparr>a_next_id := nxt\<rparr>))
      else (Inr allocated, a'))"

definition allocator_next ::
  "'s state_store \<Rightarrow> go_context \<Rightarrow> int64 \<Rightarrow> allocator \<Rightarrow> 's \<Rightarrow> (id_error + int64) \<times> allocator \<times> 's" where
  "allocator_next store ctx now a s =
     (case check_context ctx of
        Inl e \<Rightarrow> (Inl e, a, s)
      | Inr _ \<Rightarrow>
          (case (if a_remaining a = 0 then reserve_lease store now (a_lease_size a) a s else (Inr (), a, s)) of
             (Inl e, a', s') \<Rightarrow> (Inl e, a', s')
           | (Inr _, a', s') \<Rightarrow> (let (r, a'') = take_id a' in (r, a'', s'))))"

definition allocator_ensure ::
  "'s state_store \<Rightarrow> go_context \<Rightarrow> int64 \<Rightarrow> int \<Rightarrow> allocator \<Rightarrow> 's \<Rightarrow> (id_error + unit) \<times> allocator \<times> 's" where
  "allocator_ensure store ctx now n a s =
     (if ctx = NilContext then (Inl ContextRequired, a, s)
      else if n < 1 \<or> n > maximum_reservation_size then (Inl ErrInvalidReservation, a, s)
      else if ctx = DoneContext then (Inl ContextDone, a, s)
      else if a_remaining a \<ge> n then (Inr (), a, s)
      else reserve_lease store now (max n (a_lease_size a)) a s)"

subsection \<open>The high-water table\<close>

text \<open>
  \<^verbatim>\<open>Store.ReserveIDRange\<close>: one write transaction on the table \<^verbatim>\<open>id_generator_states\<close>; an
  absent row reads as 0 (\<^verbatim>\<open>sql.NullInt64\<close>), the \<^verbatim>\<open>CHECK\<close> of the table refuses a mark that
  is not positive (\<open>StateNotPersisted\<close>), and an error rolls back.
\<close>

type_synonym id_table = "uint16 \<rightharpoonup> int64"

definition reserve_id_range :: "id_table state_store" where
  "reserve_id_range node observed n table =
     (let high_water = (case table node of None \<Rightarrow> 0 | Some h \<Rightarrow> h) in
      case reserve_range node observed high_water n of
        Inl e \<Rightarrow> (Inl e, table)
      | Inr r \<Rightarrow>
          if last_id r \<le>s 0 then (Inl StateNotPersisted, table)
          else (Inr r, table(node \<mapsto> last_id r)))"

subsection \<open>Fields of an id\<close>

lemma unat_push_bit:
  assumes "unat x * 2 ^ k < 2 ^ 64"
  shows "unat (push_bit k (x :: int64)) = unat x * 2 ^ k"
proof -
  have "unat (push_bit k x) = take_bit 64 (push_bit k (unat x))"
    by (simp only: unsigned_push_bit_eq) simp
  also have "\<dots> = unat x * 2 ^ k"
    using assms by (simp only: push_bit_eq_mult take_bit_nat_eq_self)
  finally show ?thesis .
qed

lemma not_bit_small: "unat (x :: int64) < 2 ^ k \<Longrightarrow> k \<le> n \<Longrightarrow> \<not> bit x n"
  by (metis bit_take_bit_iff leD take_bit_nat_eq_self_iff unsigned_take_bit_eq word_unat_eq_iff)

lemma unat_add_small: "unat a + unat b < 2 ^ 64 \<Longrightarrow> unat (a + b :: int64) = unat a + unat b"
  by (simp add: unat_word_ariths)

lemma shift_wrap:
  assumes "u < 2 ^ 64"
  shows "(int u + 2 ^ 63) mod 2 ^ 64 - 2 ^ 63 = (if u < 2 ^ 63 then int u else int u - 2 ^ 64)"
proof (cases "u < 2 ^ 63")
  case True
  then have "(int u + 2 ^ 63) mod 2 ^ 64 = int u + 2 ^ 63"
    by (intro mod_pos_pos_trivial) simp_all
  with True show ?thesis by simp
next
  case False
  have e: "int u + 2 ^ 63 = int u - 2 ^ 63 + 2 ^ 64" by simp
  have "(int u + 2 ^ 63) mod 2 ^ 64 = (int u - 2 ^ 63 + 2 ^ 64) mod 2 ^ 64" by (simp only: e)
  also have "\<dots> = (int u - 2 ^ 63) mod 2 ^ 64" by (rule mod_add_self2)
  also have "\<dots> = int u - 2 ^ 63"
    using False assms by (intro mod_pos_pos_trivial) simp_all
  finally show ?thesis using False by simp
qed

lemma unat_less_64: "unat (x :: int64) < 2 ^ 64"
  using unsigned_less [of x, where ?'a = nat] by simp

lemma sint_unat: "sint (x :: int64) = (if unat x < 2 ^ 63 then int (unat x) else int (unat x) - 2 ^ 64)"
proof -
  have "sint x = (uint x + 2 ^ 63) mod 2 ^ 64 - 2 ^ 63"
    by (simp add: sint_uint signed_take_bit_eq_take_bit_shift take_bit_eq_mod)
  also have "uint x = int (unat x)" by simp
  finally show ?thesis by (simp only: shift_wrap [OF unat_less_64])
qed

lemma signed_less: "(x :: int64) <s y \<longleftrightarrow> sint x < sint y"
  by (rule word_sless_alt)

lemma unat_compose:
  assumes "unat t < 2 ^ 41" "unat n < 2 ^ 10" "unat s < 2 ^ 12"
  shows "unat (compose t n s) = unat t * 2 ^ 22 + unat n * 2 ^ 12 + unat s"
proof -
  have "push_bit 22 t OR push_bit 12 n = push_bit 22 t + push_bit 12 n"
    by (rule disjunctive_add [symmetric])
      (use not_bit_small [OF assms(2)] in \<open>auto simp: bit_push_bit_iff\<close>)
  moreover have "(push_bit 22 t OR push_bit 12 n) OR s = (push_bit 22 t OR push_bit 12 n) + s"
    by (rule disjunctive_add [symmetric])
      (use not_bit_small [OF assms(3)] in \<open>auto simp: bit_push_bit_iff bit_or_iff\<close>)
  ultimately have "compose t n s = push_bit 22 t + push_bit 12 n + s"
    by (simp add: compose_def timestamp_shift_def node_shift_def)
  then show ?thesis
    using assms by (simp add: unat_add_small unat_push_bit)
qed

lemma unat_signed_drop_bit:
  assumes "unat (x :: int64) < 2 ^ 63"
  shows "unat (signed_drop_bit k x) = unat x div 2 ^ k"
proof -
  have "sint x = int (unat x)"
    using assms by (simp only: sint_unat if_True)
  then have "sint (signed_drop_bit k x) = int (unat x) div 2 ^ k"
    by (simp only: sint_signed_drop_bit_eq drop_bit_eq_div)
  also have "\<dots> = int (unat x div 2 ^ k)" by (simp only: zdiv_int of_nat_power of_nat_numeral)
  finally show ?thesis
    using unat_less_64 [of "signed_drop_bit k x"] unfolding sint_unat
    by (simp del: of_nat_unat split: if_splits)
qed

lemma unat_and_mask:
  "unat ((x :: int64) AND 1023) = unat x mod 2 ^ 10"
  "unat ((x :: int64) AND 4095) = unat x mod 2 ^ 12"
proof -
  have "unat (x AND mask k) = unat x mod 2 ^ k" for k
    by (simp only: take_bit_eq_mask [symmetric] unsigned_take_bit_eq) (simp add: take_bit_eq_mod)
  from this [of 10] this [of 12] show "unat (x AND 1023) = unat x mod 2 ^ 10"
    "unat (x AND 4095) = unat x mod 2 ^ 12"
    by (simp_all add: mask_eq_exp_minus_1)
qed

subsection \<open>Node and rank\<close>

text \<open>
  The node an id carries and its position in the sequence of the ids of that node:
  milliseconds and sequence number read as one number.
\<close>

definition id_timestamp :: "int64 \<Rightarrow> nat" where "id_timestamp x = unat x div 2 ^ 22"
definition id_node :: "int64 \<Rightarrow> nat" where "id_node x = unat x div 2 ^ 12 mod 2 ^ 10"
definition id_sequence :: "int64 \<Rightarrow> nat" where "id_sequence x = unat x mod 2 ^ 12"

definition id_rank :: "int64 \<Rightarrow> nat" where
  "id_rank x = id_timestamp x * 4096 + id_sequence x"

text \<open>Arithmetic of the packed fields, on plain numbers.\<close>

lemma packed_fields:
  fixes t n s :: nat
  assumes "n < 1024" "s < 4096"
  shows "(t * 4194304 + n * 4096 + s) div 4194304 = t"
    and "(t * 4194304 + n * 4096 + s) div 4096 mod 1024 = n"
    and "(t * 4194304 + n * 4096 + s) mod 4096 = s"
proof -
  show "(t * 4194304 + n * 4096 + s) div 4194304 = t"
    using assms by (intro div_nat_eqI) simp_all
  have "(t * 4194304 + n * 4096 + s) div 4096 = t * 1024 + n"
    using assms by (intro div_nat_eqI) simp_all
  then show "(t * 4194304 + n * 4096 + s) div 4096 mod 1024 = n"
    using assms by simp
  have "t * 4194304 + n * 4096 + s = s + 4096 * (t * 1024 + n)" by simp
  then show "(t * 4194304 + n * 4096 + s) mod 4096 = s"
    using assms by (simp only: mod_mult_self2 mod_less)
qed

lemma packed_split:
  fixes u :: nat
  shows "u = u div 4194304 * 4194304 + u div 4096 mod 1024 * 4096 + u mod 4096"
proof -
  have "u = u div 4096 * 4096 + u mod 4096" by simp
  also have "u div 4096 = u div 4096 div 1024 * 1024 + u div 4096 mod 1024" by simp
  also have "u div 4096 div 1024 = u div 4194304" by (simp add: div_mult2_eq [symmetric])
  finally show ?thesis by simp
qed

lemma rank_inject_nat:
  fixes t s t' s' :: nat
  shows "t * 4096 + s = t' * 4096 + s' \<Longrightarrow> s < 4096 \<Longrightarrow> s' < 4096 \<Longrightarrow> t = t' \<and> s = s'"
  by (cases t t' rule: linorder_cases) linarith+

lemma rank_mono_nat:
  fixes t s t' s' n :: nat
  assumes "s < 4096" "s' < 4096"
  shows "t * 4096 + s < t' * 4096 + s' \<longleftrightarrow> t * 4194304 + n * 4096 + s < t' * 4194304 + n * 4096 + s'"
  using assms by (cases t t' rule: linorder_cases) linarith+

lemma unat_split: "unat x = id_timestamp x * 4194304 + id_node x * 4096 + id_sequence x"
  using packed_split [of "unat x"] by (simp add: id_timestamp_def id_node_def id_sequence_def)

lemma field_bounds: "id_node x < 1024" "id_sequence x < 4096"
  by (simp_all add: id_node_def id_sequence_def)

lemma id_rank_inject:
  assumes "id_rank x = id_rank y" "id_node x = id_node y"
  shows "x = y"
proof -
  have "id_timestamp x = id_timestamp y \<and> id_sequence x = id_sequence y"
    using assms(1) field_bounds(2) [of x] field_bounds(2) [of y]
    by (intro rank_inject_nat) (simp_all add: id_rank_def)
  with assms(2) have "unat x = unat y" by (simp only: unat_split)
  then show ?thesis by (rule unsigned_word_eqI)
qed

lemma id_rank_mono: "id_node x = id_node y \<Longrightarrow> id_rank x < id_rank y \<longleftrightarrow> unat x < unat y"
  using rank_mono_nat [OF field_bounds(2) [of x] field_bounds(2) [of y], of "id_timestamp x"
      "id_timestamp y" "id_node y"]
  by (simp only: unat_split id_rank_def)

lemma compose_fields:
  assumes "unat t < 2 ^ 41" "unat n < 2 ^ 10" "unat s < 2 ^ 12"
  shows "id_timestamp (compose t n s) = unat t" "id_node (compose t n s) = unat n"
    "id_sequence (compose t n s) = unat s" "id_rank (compose t n s) = unat t * 2 ^ 12 + unat s"
    "unat (compose t n s) < 2 ^ 63"
proof -
  obtain t' n' s' where g: "unat t = t'" "unat n = n'" "unat s = s'" by blast
  have b: "t' < 2199023255552" "n' < 1024" "s' < 4096"
    using assms unfolding g by simp_all
  have u: "unat (compose t n s) = t' * 4194304 + n' * 4096 + s'"
    using unat_compose [OF assms] by (simp add: g)
  note p = packed_fields [OF b(2,3), of t']
  show t: "id_timestamp (compose t n s) = unat t"
    unfolding id_timestamp_def u g using p(1) by simp
  show n: "id_node (compose t n s) = unat n"
    unfolding id_node_def u g using p(2) by simp
  show s: "id_sequence (compose t n s) = unat s"
    unfolding id_sequence_def u g using p(3) by simp
  show "id_rank (compose t n s) = unat t * 2 ^ 12 + unat s"
    by (simp add: id_rank_def t s)
  show "unat (compose t n s) < 2 ^ 63"
    using b unfolding u by simp
qed

text \<open>A positive id of a node.\<close>

definition valid_id :: "uint16 \<Rightarrow> int64 \<Rightarrow> bool" where
  "valid_id node x \<longleftrightarrow> 0 < unat x \<and> unat x < 2 ^ 63 \<and> id_node x = unat node"

lemma positive_iff: "\<not> (x :: int64) \<le>s 0 \<longleftrightarrow> 0 < unat x \<and> unat x < 2 ^ 63"
proof -
  obtain u where "unat x = u" "u < 2 ^ 64" using unat_less_64 by blast
  then have "sint x \<le> 0 \<longleftrightarrow> \<not> (0 < u \<and> u < 2 ^ 63)"
    by (simp only: sint_unat) auto
  then show ?thesis using \<open>unat x = u\<close> by (simp add: word_sle_eq)
qed

lemma signed_less_small:
  "unat x < 2 ^ 63 \<Longrightarrow> unat y < 2 ^ 63 \<Longrightarrow> (x :: int64) <s y \<longleftrightarrow> unat x < unat y"
  "unat x < 2 ^ 63 \<Longrightarrow> unat y < 2 ^ 63 \<Longrightarrow> (x :: int64) \<le>s y \<longleftrightarrow> unat x \<le> unat y"
  by (simp_all only: signed_less word_sle_eq sint_unat if_True of_nat_less_iff of_nat_le_iff)

lemma nonneg_iff: "\<not> (x :: int64) <s 0 \<longleftrightarrow> unat x < 2 ^ 63"
proof -
  obtain u where "unat x = u" "u < 2 ^ 64" using unat_less_64 by blast
  then have "sint x < 0 \<longleftrightarrow> \<not> u < 2 ^ 63"
    by (simp only: sint_unat) auto
  then show ?thesis using \<open>unat x = u\<close> by (simp add: signed_less)
qed

lemma unat_constants [simp]:
  "unat max_node = 1023" "unat max_sequence = 4095" "unat max_timestamp = 2199023255551"
  by (simp_all add: max_node_def max_sequence_def max_timestamp_def)

lemma unat_succ: "unat (x :: int64) < 2 ^ 63 \<Longrightarrow> unat (x + 1) = Suc (unat x)"
  using unat_add_small [of x 1] by simp

lemma validate_node_iff [result_simps]: "validate_node node = Inr u \<longleftrightarrow> unat node < 1024"
proof -
  have "unat (ucast node :: int64) = unat node"
    by (simp add: unsigned_ucast_eq take_bit_nat_eq_self_iff less_le_trans [OF unsigned_less])
  then show ?thesis
    by (auto simp: validate_node_def fail_if_eq_Inr word_less_nat_alt)
qed

lemma unat_ucast_node [simp]: "unat (ucast (node :: uint16) :: int64) = unat node"
  by (simp add: unsigned_ucast_eq take_bit_nat_eq_self_iff less_le_trans [OF unsigned_less])

lemma timestamp_for_iff [result_simps]:
  "timestamp_for now = Inr t \<longleftrightarrow> t = now - epoch_millis \<and> unat t < 2199023255552"
proof -
  obtain u where u: "now - epoch_millis = u" by blast
  have "\<not> max_timestamp <s u \<longleftrightarrow> unat u < 2199023255552" if "unat u < 2 ^ 63"
    using signed_less_small(1) [of max_timestamp u] that by auto
  then show ?thesis
    unfolding timestamp_for_def u Let_def
    using nonneg_iff [of u] by (auto simp: sbind_eq_Inr fail_if_eq_Inr)
qed

lemma word_fields:
  assumes "unat x < 2 ^ 63"
  shows "unat (signed_drop_bit timestamp_shift x) = id_timestamp x"
    and "unat (signed_drop_bit node_shift x AND max_node) = id_node x"
    and "unat (x AND max_sequence) = id_sequence x"
    and "id_timestamp x < 2199023255552"
proof -
  show "unat (signed_drop_bit timestamp_shift x) = id_timestamp x"
    using unat_signed_drop_bit [OF assms] by (simp only: timestamp_shift_def id_timestamp_def)
  show "unat (signed_drop_bit node_shift x AND max_node) = id_node x"
    using unat_signed_drop_bit [OF assms] unat_and_mask(1)
    by (simp only: node_shift_def max_node_def id_node_def)
  show "unat (x AND max_sequence) = id_sequence x"
    using unat_and_mask(2) by (simp only: max_sequence_def id_sequence_def)
  have "u div 4194304 < 2199023255552" if "u < 9223372036854775808" for u :: nat
    using that by (simp add: less_mult_imp_div_less)
  then show "id_timestamp x < 2199023255552"
    using assms unfolding id_timestamp_def by simp
qed

text \<open>The last position of a node, and the successor in closed form.\<close>

definition last_rank :: nat where "last_rank = 2199023255552 * 4096 - 1"

lemma successor_valid:
  assumes "valid_id node x"
  shows "if id_rank x = last_rank then successor x node = Inl ErrTimestampExhausted
    else \<exists>y. successor x node = Inr y \<and> valid_id node y \<and> id_rank y = Suc (id_rank x)"
proof -
  have x: "0 < unat x" "unat x < 2 ^ 63" "id_node x = unat node"
    using assms by (simp_all add: valid_id_def)
  define t where "t = signed_drop_bit timestamp_shift x"
  define n where "n = signed_drop_bit node_shift x AND max_node"
  define q where "q = x AND max_sequence"
  have u: "unat t = id_timestamp x" "unat n = id_node x" "unat q = id_sequence x" "unat t < 2199023255552"
    using word_fields [OF x(2)] by (simp_all add: t_def n_def q_def)
  have bounds: "unat n < 2 ^ 10" "unat q < 4096"
    using field_bounds [of x] by (simp_all add: u)
  have "unat n = unat (ucast node :: int64)" using x(3) u(2) by simp
  then have node: "n = ucast node" by (rule unsigned_word_eqI)
  have small: "unat q < 2 ^ 63" "unat t < 2 ^ 63" "unat max_sequence < 2 ^ 63" "unat max_timestamp < 2 ^ 63"
    using bounds(2) u(4) by simp_all
  have eq: "successor x node =
      (if unat q < 4095 then Inr (compose t n (q + 1))
       else if unat t = 2199023255551 then Inl ErrTimestampExhausted
       else Inr (compose (t + 1) n 0))"
    using x positive_iff [of x] signed_less_small(1) [OF small(1,3)] signed_less_small(2) [OF small(4,2)] u(4)
    by (simp add: successor_def Let_def fail_if_def t_def [symmetric] n_def [symmetric] q_def [symmetric] node)
  have rank: "id_rank x = unat t * 4096 + unat q" by (simp add: id_rank_def u)
  show ?thesis
  proof (cases "unat q < 4095")
    case True
    have "unat (q + 1) = Suc (unat q)" using unat_succ small(1) by blast
    then have f: "id_node (compose t n (q + 1)) = unat n" "unat (compose t n (q + 1)) < 2 ^ 63"
      "id_rank (compose t n (q + 1)) = unat t * 2 ^ 12 + Suc (unat q)"
      using compose_fields [of t n "q + 1"] bounds u(4) True by simp_all
    moreover have "0 < unat (compose t n (q + 1))"
      using unat_split [of "compose t n (q + 1)"] compose_fields(3) [of t n "q + 1"]
        \<open>unat (q + 1) = Suc (unat q)\<close> bounds u(4) True by simp
    moreover have "id_rank x \<noteq> last_rank"
      using True u(4) unfolding rank last_rank_def by linarith
    ultimately show ?thesis
      using eq True x(3) u(2) rank by (simp add: valid_id_def)
  next
    case False
    then have q: "unat q = 4095" using bounds(2) by simp
    show ?thesis
    proof (cases "unat t = 2199023255551")
      case True
      then show ?thesis using eq False q rank by (simp add: last_rank_def)
    next
      case not_last: False
      have t1: "unat (t + 1) = Suc (unat t)" using unat_succ small(2) by blast
      then have f: "id_node (compose (t + 1) n 0) = unat n" "unat (compose (t + 1) n 0) < 2 ^ 63"
        "id_rank (compose (t + 1) n 0) = Suc (unat t) * 2 ^ 12" "id_timestamp (compose (t + 1) n 0) = Suc (unat t)"
        using compose_fields [of "t + 1" n 0] bounds u(4) not_last by simp_all
      moreover have "0 < unat (compose (t + 1) n 0)"
        using unat_split [of "compose (t + 1) n 0"] f(4) by simp
      moreover have "id_rank x \<noteq> last_rank"
        using q not_last u(4) unfolding rank last_rank_def by linarith
      ultimately show ?thesis
        using eq False not_last x(3) u(2) rank q by (simp add: valid_id_def)
    qed
  qed
qed

lemma successor_Inr:
  assumes "successor x node = Inr y"
  shows "valid_id node x"
proof -
  have "\<not> x \<le>s 0" using assms by (auto simp: successor_def sbind_eq_Inr fail_if_eq_Inr)
  then have x: "0 < unat x" "unat x < 2 ^ 63" using positive_iff by simp_all
  have "signed_drop_bit node_shift x AND max_node = ucast node"
    using assms by (auto simp: successor_def Let_def sbind_eq_Inr fail_if_eq_Inr)
  then have "id_node x = unat node" using word_fields(2) [OF x(2)] by simp
  with x show ?thesis by (simp add: valid_id_def)
qed

lemma successor_correct:
  "successor x node = Inr y \<Longrightarrow> valid_id node y \<and> id_rank y = Suc (id_rank x)"
  using successor_valid [OF successor_Inr] by (fastforce split: if_splits)

lemma advance_correct:
  "advance k x node = Inr y \<Longrightarrow> valid_id node x \<Longrightarrow> valid_id node y \<and> id_rank y = id_rank x + k"
proof (induction k arbitrary: x)
  case (Suc k)
  then obtain z where z: "successor x node = Inr z" "advance k z node = Inr y"
    by (auto simp: sbind_eq_Inr)
  with Suc.IH [of z] successor_correct [OF z(1)] show ?case by simp
qed simp

lemma advance_nonzero: "advance (Suc k) x node = Inr y \<Longrightarrow> valid_id node x"
  by (auto simp: sbind_eq_Inr dest: successor_Inr)

lemma advance_total:
  "valid_id node x \<Longrightarrow> id_rank x \<le> last_rank \<Longrightarrow>
     (if id_rank x + k \<le> last_rank then \<exists>y. advance k x node = Inr y
      else advance k x node = Inl ErrTimestampExhausted)"
proof (induction k arbitrary: x)
  case (Suc k)
  show ?case
  proof (cases "id_rank x = last_rank")
    case True
    with successor_valid [OF Suc.prems(1)] show ?thesis by simp
  next
    case False
    with successor_valid [OF Suc.prems(1)] obtain y where
      y: "successor x node = Inr y" "valid_id node y" "id_rank y = Suc (id_rank x)"
      by auto
    with Suc.IH [of y] Suc.prems(2) False show ?thesis by simp
  qed
qed simp

lemma id_rank_le_last: "unat x < 2 ^ 63 \<Longrightarrow> id_rank x \<le> last_rank"
  using word_fields(4) [of x] field_bounds(2) [of x] by (simp add: id_rank_def last_rank_def)

subsection \<open>Reservations\<close>

text \<open>A stored high-water mark is absent (0) or an id of the node.\<close>

definition mark_ok :: "uint16 \<Rightarrow> int64 \<Rightarrow> bool" where
  "mark_ok node h \<longleftrightarrow> h = 0 \<or> valid_id node h"

text \<open>The first free position above a high-water mark.\<close>

definition above_mark :: "int64 \<Rightarrow> nat" where
  "above_mark h = (if h = 0 then 0 else Suc (id_rank h))"

lemma reserve_range_closed:
  assumes "unat node < 1024" "unat t < 2199023255552" "1 \<le> n" "n \<le> maximum_reservation_size"
    and "mark_ok node h" "0 < unat t \<or> 0 < unat node \<or> h \<noteq> 0"
  defines "start \<equiv> max (unat t * 4096) (above_mark h)"
  shows "if start + nat n - 1 \<le> last_rank
    then \<exists>r. reserve_range node t h n = Inr r \<and> res_count r = n
      \<and> valid_id node (first_id r) \<and> id_rank (first_id r) = start
      \<and> valid_id node (last_id r) \<and> id_rank (last_id r) = start + nat n - 1
    else reserve_range node t h n = Inl ErrTimestampExhausted"
proof -
  let ?c = "compose t (ucast node) 0"
  have guards: "validate_node node = Inr ()" "\<not> t <s 0" "\<not> max_timestamp <s t"
    using assms(1,2) nonneg_iff [of t] signed_less_small(1) [of max_timestamp t]
    by (simp_all add: validate_node_iff)
  have c: "id_node ?c = unat node" "id_rank ?c = unat t * 4096" "unat ?c < 2 ^ 63" "id_timestamp ?c = unat t"
    using compose_fields [of t "ucast node" 0] assms(1,2) by simp_all
  define first where "first = (if 0 <s h \<and> ?c \<le>s h then successor h node else Inr ?c)"
  have eq: "reserve_range node t h n = sbind first (\<lambda>f. sbind (advance (nat n - 1) f node)
      (\<lambda>l. Inr \<lparr>first_id = f, last_id = l, res_count = n\<rparr>))"
    using guards assms(3,4) by (simp add: reserve_range_def first_def Let_def)
  have first: "if start \<le> last_rank then \<exists>f. first = Inr f \<and> valid_id node f \<and> id_rank f = start
      else first = Inl ErrTimestampExhausted"
  proof (cases "h = 0")
    case True
    have "\<not> (0 :: int64) <s 0" by (simp add: signed_less)
    with True have "first = Inr ?c" by (simp add: first_def)
    moreover have "0 < unat ?c"
      using unat_split [of ?c] c assms(6) True by auto
    then have "valid_id node ?c" using c by (simp add: valid_id_def)
    moreover have "id_rank ?c \<le> last_rank" using c(3) by (rule id_rank_le_last)
    ultimately show ?thesis using True c(2) by (simp add: start_def above_mark_def)
  next
    case False
    with assms(5) have h: "valid_id node h" by (simp add: mark_ok_def)
    then have hu: "0 < unat h" "unat h < 2 ^ 63" "id_node h = unat node" by (simp_all add: valid_id_def)
    then have pos: "0 <s h" using signed_less_small(1) [of 0 h] by simp
    have le: "?c \<le>s h \<longleftrightarrow> id_rank ?c \<le> id_rank h"
      using signed_less_small(2) [OF c(3) hu(2)] id_rank_mono [of h ?c] hu(3) c(1) by (simp add: not_less [symmetric])
    show ?thesis
    proof (cases "?c \<le>s h")
      case True
      then have "first = successor h node" using pos by (simp add: first_def)
      moreover have "start = Suc (id_rank h)"
        using True le c(2) False by (simp add: start_def above_mark_def)
      ultimately show ?thesis
        using successor_valid [OF h] id_rank_le_last [OF hu(2)] by (auto split: if_splits)
    next
      case gt: False
      then have "first = Inr ?c" by (simp add: first_def)
      moreover have "id_rank h < id_rank ?c" using gt le by simp
      then have "unat h < unat ?c" using id_rank_mono [of h ?c] hu(3) c(1) by simp
      then have "valid_id node ?c" using c by (simp add: valid_id_def)
      moreover have "start = id_rank ?c" using \<open>id_rank h < id_rank ?c\<close> c(2) False by (simp add: start_def above_mark_def)
      ultimately show ?thesis using id_rank_le_last [OF c(3)] by simp
    qed
  qed
  show ?thesis
  proof (cases "start \<le> last_rank")
    case False
    with first eq assms(3) show ?thesis by simp
  next
    case True
    with first obtain f where f: "first = Inr f" "valid_id node f" "id_rank f = start" by auto
    then have "id_rank f \<le> last_rank" using True by simp
    note adv = advance_total [OF f(2) this, of "nat n - 1"]
    show ?thesis
    proof (cases "start + nat n - 1 \<le> last_rank")
      case True
      with adv f(3) assms(3) obtain l where l: "advance (nat n - 1) f node = Inr l"
        by (auto split: if_splits)
      with advance_correct [OF l f(2)] eq f True assms(3) show ?thesis by simp
    next
      case False
      with adv f assms(3) eq show ?thesis by (auto split: if_splits)
    qed
  qed
qed

text \<open>What a successful reservation of a positive id guarantees.\<close>

lemma reserve_range_correct:
  assumes "reserve_range node t h n = Inr r" "mark_ok node h" "\<not> first_id r \<le>s 0"
  shows "valid_id node (first_id r) \<and> valid_id node (last_id r) \<and> res_count r = n \<and> 1 \<le> n
    \<and> above_mark h \<le> id_rank (first_id r) \<and> id_rank (last_id r) = id_rank (first_id r) + nat n - 1"
proof -
  from assms(1) have g: "unat node < 1024" "\<not> t <s 0" "\<not> max_timestamp <s t" "1 \<le> n"
      "n \<le> maximum_reservation_size"
    by (auto simp: reserve_range_def Let_def sbind_eq_Inr fail_if_eq_Inr validate_node_iff)
  then have t: "unat t < 2199023255552"
    using nonneg_iff [of t] signed_less_small(1) [of max_timestamp t] by auto
  show ?thesis
  proof (cases "0 < unat t \<or> 0 < unat node \<or> h \<noteq> 0")
    case True
    from reserve_range_closed [OF g(1) t g(4,5) assms(2) True] show ?thesis
      using assms(1) g(4) by (auto split: if_splits)
  next
    case False
    then have "t = 0" "ucast node = (0 :: int64)" "h = 0"
      by (auto simp: unat_eq_0 intro: unsigned_word_eqI)
    then have "first_id r = 0"
      using assms(1) by (auto simp: reserve_range_def Let_def sbind_eq_Inr fail_if_eq_Inr compose_def signed_less)
    with assms(3) show ?thesis by (simp add: word_sle_eq)
  qed
qed

lemma reserve_range_mark:
  assumes "reserve_range node t h n = Inr r" "mark_ok node h"
  shows "mark_ok node (last_id r) \<and> above_mark h \<le> above_mark (last_id r)"
proof (cases "first_id r \<le>s 0")
  case False
  from reserve_range_correct [OF assms False] show ?thesis
    by (auto simp: mark_ok_def above_mark_def valid_id_def)
next
  case low: True
  have node: "unat node < 1024"
    using assms(1) by (auto simp: reserve_range_def sbind_eq_Inr validate_node_iff)
  from assms(1) have g: "\<not> t <s 0" "\<not> max_timestamp <s t" "1 \<le> n" "n \<le> maximum_reservation_size"
    by (auto simp: reserve_range_def Let_def sbind_eq_Inr fail_if_eq_Inr)
  then have t: "unat t < 2199023255552"
    using nonneg_iff [of t] signed_less_small(1) [of max_timestamp t] by auto
  have "\<not> (0 < unat t \<or> 0 < unat node \<or> h \<noteq> 0)"
  proof
    assume nz: "0 < unat t \<or> 0 < unat node \<or> h \<noteq> 0"
    from reserve_range_closed [OF node t g(3,4) assms(2) nz] assms(1)
    have "valid_id node (first_id r)" by (auto split: if_splits)
    with low positive_iff [of "first_id r"] show False by (simp add: valid_id_def)
  qed
  then have z: "t = 0" "ucast node = (0 :: int64)" "h = 0"
    by (auto simp: unat_eq_0 intro: unsigned_word_eqI)
  then have adv: "advance (nat n - 1) 0 node = Inr (last_id r)"
    using assms(1)
    by (auto simp: reserve_range_def Let_def sbind_eq_Inr fail_if_eq_Inr compose_def signed_less)
  have "last_id r = 0"
  proof (cases "nat n - 1")
    case 0
    with adv show ?thesis by simp
  next
    case (Suc k)
    with adv advance_nonzero [of k 0 node] show ?thesis by (simp add: valid_id_def)
  qed
  with z show ?thesis by (simp add: mark_ok_def)
qed

subsection \<open>The in-memory generator issues increasing ids\<close>

definition generator_ok :: "generator \<Rightarrow> bool" where
  "generator_ok g \<longleftrightarrow> unat (g_node g) < 1024
     \<and> (g_last_timestamp g = - 1 \<and> g_sequence g = 0
        \<or> unat (g_last_timestamp g) < 2199023255552 \<and> unat (g_sequence g) < 4096)"

definition next_rank :: "generator \<Rightarrow> nat" where
  "next_rank g =
     (if g_last_timestamp g = - 1 then 0
      else unat (g_last_timestamp g) * 4096 + unat (g_sequence g) + 1)"

lemma new_generator_ok [inv_intros]: "new_generator node = Inr g \<Longrightarrow> generator_ok g"
  by (auto simp: new_generator_def result_simps generator_ok_def)

lemma minus_one_less:
  assumes "unat t < 2 ^ 63"
  shows "(- 1 :: int64) <s t"
proof -
  have "sint t = int (unat t)" using assms by (simp only: sint_unat if_True)
  then have "sint (- 1 :: int64) < sint t" by (simp only: sint_n1)
  then show ?thesis by (simp only: signed_less)
qed

lemma unat_minus_one: "unat (- 1 :: int64) = 18446744073709551615"
  by (simp add: unsigned_minus_1_eq_mask mask_eq_exp_minus_1)

lemma succ_not_minus_one: "unat (l :: int64) < 2199023255552 \<Longrightarrow> l + 1 \<noteq> - 1"
proof
  assume l: "unat l < 2199023255552" and eq: "l + 1 = - 1"
  have "unat (l + 1) = 18446744073709551615" unfolding eq by (rule unat_minus_one)
  with unat_succ [of l] l show False by simp
qed

lemma generator_next_correct:
  assumes "generator_ok g" "generator_next ctx now g = Inr (x, g')"
  shows "generator_ok g' \<and> g_node g' = g_node g \<and> unat x < 2 ^ 63 \<and> id_node x = unat (g_node g)
    \<and> next_rank g \<le> id_rank x \<and> next_rank g' = Suc (id_rank x)"
proof -
  obtain l q n where g: "g_last_timestamp g = l" "g_sequence g = q" "g_node g = n" by blast
  have n: "unat n < 2 ^ 10" using assms(1) g by (simp add: generator_ok_def)
  from assms(2) obtain t where t: "timestamp_for now = Inr t" "unat t < 2199023255552"
    and step: "(if l <s t then Inr (compose t n 0, g\<lparr>g_last_timestamp := t, g_sequence := 0\<rparr>)
      else if q <s max_sequence then Inr (compose l n (q + 1), g\<lparr>g_sequence := q + 1\<rparr>)
      else if l = max_timestamp then Inl ErrTimestampExhausted
      else Inr (compose (l + 1) n 0, g\<lparr>g_last_timestamp := l + 1, g_sequence := 0\<rparr>)) = Inr (x, g')"
    unfolding generator_next_def Let_def g by (auto simp: sbind_eq_Inr timestamp_for_iff)
  have nt: "t \<noteq> - 1" using t(2) unat_minus_one by auto
  show ?thesis
  proof (cases "l <s t")
    case True
    then have "x = compose t n 0" "g' = g\<lparr>g_last_timestamp := t, g_sequence := 0\<rparr>" using step by simp_all
    moreover have "next_rank g \<le> unat t * 4096"
    proof (cases "l = - 1")
      case False
      then have "unat l < 2199023255552" "unat q < 4096" using assms(1) g by (auto simp: generator_ok_def)
      moreover from this have "unat l < unat t"
        using True signed_less_small(1) [of l t] t(2) by simp
      ultimately show ?thesis using False g unfolding next_rank_def by simp
    qed (simp add: next_rank_def g)
    ultimately show ?thesis
      using compose_fields [of t n 0] n t(2) nt g by (simp add: generator_ok_def next_rank_def)
  next
    case le: False
    then have "l \<noteq> - 1" using minus_one_less [of t] t(2) by auto
    with assms(1) g have l: "unat l < 2199023255552" "unat q < 4096" by (auto simp: generator_ok_def)
    have q: "q <s max_sequence \<longleftrightarrow> unat q < 4095"
      using signed_less_small(1) [of q max_sequence] l(2) by simp
    show ?thesis
    proof (cases "unat q < 4095")
      case True
      then have "x = compose l n (q + 1)" "g' = g\<lparr>g_sequence := q + 1\<rparr>" using step le q by simp_all
      moreover have "unat (q + 1) = Suc (unat q)" using unat_succ [of q] l(2) by simp
      ultimately show ?thesis
        using compose_fields [of l n "q + 1"] n l True g \<open>l \<noteq> - 1\<close>
        by (simp add: generator_ok_def next_rank_def)
    next
      case False
      then have "l \<noteq> max_timestamp" "x = compose (l + 1) n 0" "g' = g\<lparr>g_last_timestamp := l + 1, g_sequence := 0\<rparr>"
        using step le q by (auto split: if_splits)
      moreover from this(1) have "unat l \<noteq> 2199023255551"
        using unat_constants(3) by (metis unsigned_word_eqI)
      moreover have "unat (l + 1) = Suc (unat l)" using unat_succ [of l] l(1) by simp
      moreover have "l + 1 \<noteq> - 1" using l(1) by (rule succ_not_minus_one)
      ultimately show ?thesis
        using compose_fields [of "l + 1" n 0] n l False g \<open>l \<noteq> - 1\<close>
        by (simp add: generator_ok_def next_rank_def)
    qed
  qed
qed

text \<open>A sequence of calls; the ids they return, in order. A failed call changes nothing.\<close>

fun generator_run :: "generator \<Rightarrow> (go_context \<times> int64) list \<Rightarrow> int64 list" where
  "generator_run g [] = []"
| "generator_run g ((ctx, now) # calls) =
     (case generator_next ctx now g of
        Inl _ \<Rightarrow> generator_run g calls
      | Inr (x, g') \<Rightarrow> x # generator_run g' calls)"

lemma generator_run_above:
  "generator_ok g \<Longrightarrow> x \<in> set (generator_run g calls) \<Longrightarrow>
     unat x < 2 ^ 63 \<and> id_node x = unat (g_node g) \<and> next_rank g \<le> id_rank x"
proof (induction g calls rule: generator_run.induct)
  case (2 g ctx now calls)
  show ?case
  proof (cases "generator_next ctx now g")
    case (Inl e)
    with 2 show ?thesis by simp
  next
    case (Inr p)
    obtain y g' where p: "p = (y, g')" by fastforce
    note step = generator_next_correct [OF 2(3) Inr [unfolded p]]
    show ?thesis
    proof (cases "x = y")
      case True
      with step show ?thesis by simp
    next
      case False
      with 2(4) Inr p have "x \<in> set (generator_run g' calls)" by simp
      with 2(2) [OF Inr p [symmetric]] step show ?thesis by auto
    qed
  qed
qed simp

lemma generator_run_sorted:
  "generator_ok g \<Longrightarrow> sorted_wrt (\<lambda>x y. x <s y) (generator_run g calls)"
proof (induction g calls rule: generator_run.induct)
  case (2 g ctx now calls)
  show ?case
  proof (cases "generator_next ctx now g")
    case (Inl e)
    with 2 show ?thesis by simp
  next
    case (Inr p)
    obtain x g' where p: "p = (x, g')" by fastforce
    note step = generator_next_correct [OF 2(3) Inr [unfolded p]]
    have "x <s y" if "y \<in> set (generator_run g' calls)" for y
    proof -
      from generator_run_above [OF _ that] step
      have y: "unat y < 2 ^ 63" "id_node y = id_node x" "id_rank x < id_rank y" by auto
      then have "unat x < unat y" using id_rank_mono [of x y] by simp
      with y(1) step show ?thesis by (simp add: signed_less_small)
    qed
    with 2(2) [OF Inr p [symmetric]] step Inr p show ?thesis by simp
  qed
qed simp

subsection \<open>The contract of a state store\<close>

text \<open>The ids an allocator may still hand out.\<close>

definition pending :: "allocator \<Rightarrow> int64 set" where
  "pending a =
     {x. valid_id (a_node a) x \<and> id_rank (a_next_id a) \<le> id_rank x
       \<and> int (id_rank x) < int (id_rank (a_next_id a)) + a_remaining a}"

definition allocator_ok :: "allocator \<Rightarrow> bool" where
  "allocator_ok a \<longleftrightarrow> 0 \<le> a_remaining a
     \<and> (0 < a_remaining a \<longrightarrow> valid_id (a_node a) (a_next_id a)
        \<and> int (id_rank (a_next_id a)) + a_remaining a \<le> int last_rank + 1)"

lemma pending_empty: "a_remaining a \<le> 0 \<Longrightarrow> pending a = {}"
  by (auto simp: pending_def)

lemma take_id_correct:
  assumes "allocator_ok a" "0 < a_remaining a"
  shows "\<exists>a'. take_id a = (Inr (a_next_id a), a') \<and> allocator_ok a' \<and> a_node a' = a_node a
    \<and> a_next_id a \<in> pending a \<and> pending a' = pending a - {a_next_id a}"
proof -
  let ?x = "a_next_id a"
  have x: "valid_id (a_node a) ?x" "int (id_rank ?x) + a_remaining a \<le> int last_rank + 1"
    using assms by (simp_all add: allocator_ok_def)
  have mem: "?x \<in> pending a" using x(1) assms(2) by (simp add: pending_def)
  have only: "y = ?x" if "valid_id (a_node a) y" "id_rank y = id_rank ?x" for y
    using that x(1) by (auto simp: valid_id_def intro: id_rank_inject)
  show ?thesis
  proof (cases "a_remaining a = 1")
    case True
    then have t: "take_id a = (Inr ?x, a\<lparr>a_remaining := 0\<rparr>)" by (simp add: take_id_def Let_def)
    have "y = ?x" if "y \<in> pending a" for y
      using that True only [of y] by (auto simp: pending_def)
    with mem have "pending a = {?x}" by blast
    moreover have "pending (a\<lparr>a_remaining := 0\<rparr>) = {}" by (rule pending_empty) simp
    ultimately have "pending (a\<lparr>a_remaining := 0\<rparr>) = pending a - {?x}" by simp
    with t mem show ?thesis by (simp add: allocator_ok_def)
  next
    case False
    then have "id_rank ?x \<noteq> last_rank" using x(2) assms(2) by linarith
    with successor_valid [OF x(1)] obtain y where
      y: "successor ?x (a_node a) = Inr y" "valid_id (a_node a) y" "id_rank y = Suc (id_rank ?x)"
      by auto
    let ?a = "a\<lparr>a_remaining := a_remaining a - 1, a_next_id := y\<rparr>"
    have "take_id a = (Inr ?x, ?a)"
      using False assms(2) y(1) by (simp add: take_id_def Let_def)
    moreover have "pending ?a = pending a - {?x}"
      using y(3) only by (auto simp: pending_def) (metis Suc_leI le_neq_implies_less)
    moreover have "allocator_ok ?a"
      using assms x y(2,3) False by (simp add: allocator_ok_def)
    ultimately show ?thesis using mem by simp
  qed
qed

text \<open>
  What a client may assume of \<^verbatim>\<open>StateStore\<close>: \<open>bound s n\<close> is the first position of node \<open>n\<close>
  that no reservation has reached. A successful reservation of a positive id is a run of ids
  of the node from at or above the bound, and moves the bound past it; no call lowers a bound.
\<close>

locale id_state_store =
  fixes store :: "'s state_store" and store_ok :: "'s \<Rightarrow> bool" and bound :: "'s \<Rightarrow> uint16 \<Rightarrow> nat"
  assumes reserve_run: "store_ok s \<Longrightarrow> store n t k s = (Inr r, s') \<Longrightarrow> \<not> first_id r \<le>s 0 \<Longrightarrow>
      valid_id n (first_id r) \<and> valid_id n (last_id r) \<and> 1 \<le> res_count r
      \<and> bound s n \<le> id_rank (first_id r)
      \<and> int (id_rank (last_id r)) = int (id_rank (first_id r)) + res_count r - 1
      \<and> bound s' n = Suc (id_rank (last_id r))"
    and reserve_keeps: "store_ok s \<Longrightarrow> store n t k s = (res, s') \<Longrightarrow> store_ok s' \<and> bound s m \<le> bound s' m"
begin

lemma reserve_lease_correct:
  assumes "store_ok s" "reserve_lease store now n a s = (res, a', s')"
  shows "store_ok s' \<and> (\<forall>m. bound s m \<le> bound s' m) \<and> a_node a' = a_node a
    \<and> (case res of Inl _ \<Rightarrow> a' = a
       | Inr _ \<Rightarrow> allocator_ok a' \<and> 0 < a_remaining a'
           \<and> (\<forall>x\<in>pending a'. bound s (a_node a) \<le> id_rank x \<and> id_rank x < bound s' (a_node a)))"
proof (cases "timestamp_for now")
  case (Inl e)
  with assms show ?thesis by (auto simp: reserve_lease_def)
next
  case (Inr t)
  obtain out s1 where call: "store (a_node a) t n s = (out, s1)" by fastforce
  note kept = reserve_keeps [OF assms(1) call]
  show ?thesis
  proof (cases out)
    case (Inl e)
    with assms Inr call kept show ?thesis by (auto simp: reserve_lease_def)
  next
    case r: (Inr r)
    show ?thesis
    proof (cases "res_count r \<noteq> n \<or> first_id r \<le>s 0 \<or> last_id r <s first_id r")
      case True
      with assms Inr call kept r show ?thesis by (auto simp: reserve_lease_def)
    next
      case False
      then have pos: "\<not> first_id r \<le>s 0" by simp
      note run = reserve_run [OF assms(1) call [unfolded r] pos]
      have eq: "res = Inr ()" "a' = a\<lparr>a_next_id := first_id r, a_remaining := res_count r\<rparr>" "s' = s1"
        using assms(2) Inr call r False by (simp_all add: reserve_lease_def)
      have "id_rank (last_id r) \<le> last_rank"
        using run by (auto simp: valid_id_def intro: id_rank_le_last)
      with run eq kept show ?thesis
        by (auto simp: allocator_ok_def pending_def)
    qed
  qed
qed

lemma allocator_next_correct:
  assumes "store_ok s" "allocator_ok a" "allocator_next store ctx now a s = (res, a', s')"
  shows "store_ok s' \<and> (\<forall>m. bound s m \<le> bound s' m) \<and> a_node a' = a_node a \<and> allocator_ok a'
    \<and> (case res of Inl _ \<Rightarrow> a' = a
       | Inr x \<Rightarrow> x \<notin> pending a' \<and> valid_id (a_node a) x
           \<and> (insert x (pending a') = pending a
              \<or> (\<forall>y\<in>insert x (pending a'). bound s (a_node a) \<le> id_rank y \<and> id_rank y < bound s' (a_node a))))"
proof (cases "check_context ctx")
  case (Inl e)
  with assms show ?thesis by (auto simp: allocator_next_def)
next
  case ctx: (Inr u)
  show ?thesis
  proof (cases "a_remaining a = 0")
    case False
    then have "0 < a_remaining a" using assms(2) by (simp add: allocator_ok_def)
    from take_id_correct [OF assms(2) this] obtain b where
      b: "take_id a = (Inr (a_next_id a), b)" "allocator_ok b" "a_node b = a_node a"
        "a_next_id a \<in> pending a" "pending b = pending a - {a_next_id a}" by blast
    then have "res = Inr (a_next_id a)" "a' = b" "s' = s"
      using assms(3) ctx False by (simp_all add: allocator_next_def)
    moreover have "valid_id (a_node a) (a_next_id a)" using b(4) by (simp add: pending_def)
    ultimately show ?thesis using b assms(1) by (simp add: insert_absorb)
  next
    case True
    obtain out a1 s1 where call: "reserve_lease store now (a_lease_size a) a s = (out, a1, s1)"
      by (metis prod_cases3)
    note lease = reserve_lease_correct [OF assms(1) call]
    show ?thesis
    proof (cases out)
      case (Inl e)
      with assms ctx True call lease show ?thesis by (auto simp: allocator_next_def)
    next
      case (Inr v)
      with lease have "allocator_ok a1" "0 < a_remaining a1" by simp_all
      from take_id_correct [OF this] obtain b where
        b: "take_id a1 = (Inr (a_next_id a1), b)" "allocator_ok b" "a_node b = a_node a1"
          "a_next_id a1 \<in> pending a1" "pending b = pending a1 - {a_next_id a1}" by blast
      then have "res = Inr (a_next_id a1)" "a' = b" "s' = s1"
        using assms(3) ctx True call Inr by (simp_all add: allocator_next_def)
      moreover have "valid_id (a_node a) (a_next_id a1)"
        using b(4) lease by (simp add: pending_def)
      moreover have "insert (a_next_id a1) (pending b) = pending a1" using b(4,5) by blast
      ultimately show ?thesis using b lease Inr by simp
    qed
  qed
qed

lemma allocator_ensure_correct:
  assumes "store_ok s" "allocator_ok a" "allocator_ensure store ctx now n a s = (res, a', s')"
  shows "store_ok s' \<and> (\<forall>m. bound s m \<le> bound s' m) \<and> a_node a' = a_node a \<and> allocator_ok a'
    \<and> (pending a' = pending a
       \<or> (\<forall>y\<in>pending a'. bound s (a_node a) \<le> id_rank y \<and> id_rank y < bound s' (a_node a)))
    \<and> (res = Inr () \<longrightarrow> n \<le> a_remaining a')"
proof (cases "ctx = LiveContext \<and> \<not> (n < 1 \<or> n > maximum_reservation_size) \<and> a_remaining a < n")
  case False
  with assms show ?thesis
    by (auto simp: allocator_ensure_def split: if_splits) (cases ctx; auto)+
next
  case True
  then have call: "reserve_lease store now (max n (a_lease_size a)) a s = (res, a', s')"
    using assms(3) by (auto simp: allocator_ensure_def)
  have "res = Inr () \<longrightarrow> a_remaining a' = max n (a_lease_size a)"
    using call by (auto simp: reserve_lease_def split: sum.splits prod.splits if_splits)
  with reserve_lease_correct [OF assms(1) call] assms(2) show ?thesis
    by (cases res) auto
qed

end

subsection \<open>Processes that share a store\<close>

text \<open>
  Any number of processes, each with at most one allocator, over one store: they start,
  allocate, prefetch and stop (losing the rest of their lease) in any order, and a reservation
  may be stored whose caller has left and gets an error (\<open>id_lost\<close>). \<open>id_run\<close> says
  that the system can be in a state after having handed out a list of ids.
\<close>

record 's id_system =
  allocators :: "nat \<Rightarrow> allocator option"
  shared :: 's

inductive id_run :: "'s state_store \<Rightarrow> 's \<Rightarrow> 's id_system \<Rightarrow> int64 list \<Rightarrow> bool"
  for store :: "'s state_store" and s0 :: 's where
  id_init: "id_run store s0 \<lparr>allocators = \<lambda>_. None, shared = s0\<rparr> []"
| id_start: "id_run store s0 sys out \<Longrightarrow> new_persistent_allocator node True lease = Inr a \<Longrightarrow>
     id_run store s0 (sys\<lparr>allocators := (allocators sys)(p := Some a)\<rparr>) out"
| id_stop: "id_run store s0 sys out \<Longrightarrow>
     id_run store s0 (sys\<lparr>allocators := (allocators sys)(p := None)\<rparr>) out"
| id_next: "id_run store s0 sys out \<Longrightarrow> allocators sys p = Some a \<Longrightarrow>
     allocator_next store ctx now a (shared sys) = (Inr x, a', s') \<Longrightarrow>
     id_run store s0 \<lparr>allocators = (allocators sys)(p := Some a'), shared = s'\<rparr> (out @ [x])"
| id_next_fails: "id_run store s0 sys out \<Longrightarrow> allocators sys p = Some a \<Longrightarrow>
     allocator_next store ctx now a (shared sys) = (Inl e, a', s') \<Longrightarrow>
     id_run store s0 \<lparr>allocators = (allocators sys)(p := Some a'), shared = s'\<rparr> out"
| id_ensure: "id_run store s0 sys out \<Longrightarrow> allocators sys p = Some a \<Longrightarrow>
     allocator_ensure store ctx now n a (shared sys) = (res, a', s') \<Longrightarrow>
     id_run store s0 \<lparr>allocators = (allocators sys)(p := Some a'), shared = s'\<rparr> out"
| id_lost: "id_run store s0 sys out \<Longrightarrow> store n t k (shared sys) = (res, s') \<Longrightarrow>
     id_run store s0 (sys\<lparr>shared := s'\<rparr>) out"

text \<open>
  The invariant: every lease lies below the bound of its node, leases are disjoint from each
  other and from what has been handed out, and everything handed out lies between the
  bound the run began with and the present one.
\<close>

definition ids_below :: "(uint16 \<Rightarrow> nat) \<Rightarrow> int64 set \<Rightarrow> bool" where
  "ids_below b xs \<longleftrightarrow> (\<forall>x\<in>xs. \<exists>n. valid_id n x \<and> id_rank x < b n)"

definition run_ok :: "(uint16 \<Rightarrow> nat) \<Rightarrow> (uint16 \<Rightarrow> nat) \<Rightarrow> (nat \<Rightarrow> allocator option) \<Rightarrow> int64 list \<Rightarrow> bool" where
  "run_ok b0 b als out \<longleftrightarrow>
     distinct out \<and> ids_below b (set out) \<and> (\<forall>x\<in>set out. \<exists>n. valid_id n x \<and> b0 n \<le> id_rank x)
     \<and> (\<forall>p a. als p = Some a \<longrightarrow> allocator_ok a \<and> ids_below b (pending a) \<and> pending a \<inter> set out = {}
         \<and> (\<forall>x\<in>pending a. b0 (a_node a) \<le> id_rank x))
     \<and> (\<forall>p q a c. als p = Some a \<longrightarrow> als q = Some c \<longrightarrow> p \<noteq> q \<longrightarrow> pending a \<inter> pending c = {})"

lemma valid_id_node: "valid_id n x \<Longrightarrow> valid_id m x \<Longrightarrow> n = m"
  by (auto simp: valid_id_def intro: unsigned_word_eqI)

lemma ids_below_mono: "ids_below b xs \<Longrightarrow> ys \<subseteq> xs \<Longrightarrow> \<forall>n. b n \<le> b' n \<Longrightarrow> ids_below b' ys"
  by (fastforce simp: ids_below_def intro: less_le_trans)

lemma fresh_disjoint:
  "ids_below b xs \<Longrightarrow> \<forall>y\<in>ys. valid_id n y \<and> b n \<le> id_rank y \<Longrightarrow> xs \<inter> ys = {}"
  by (force simp: ids_below_def dest: valid_id_node)

lemma pending_valid: "x \<in> pending a \<Longrightarrow> valid_id (a_node a) x"
  by (simp add: pending_def)

text \<open>An allocator is replaced, after the ids \<open>new\<close> were handed out.\<close>

lemma run_ok_replace:
  assumes ok: "run_ok b0 b als out" and p: "als p = Some a" and mono: "\<forall>n. b n \<le> b' n" "\<forall>n. b0 n \<le> b n"
    and a': "allocator_ok a'" "a_node a' = a_node a"
    and new: "distinct new" "set new \<inter> pending a' = {}" "\<forall>x\<in>set new. valid_id (a_node a) x"
    and fresh: "set new \<union> pending a' \<subseteq> pending a
      \<or> (\<forall>y\<in>set new \<union> pending a'. b (a_node a) \<le> id_rank y \<and> id_rank y < b' (a_node a))"
  shows "run_ok b0 b' (als(p := Some a')) (out @ new)"
proof -
  let ?new = "set new \<union> pending a'"
  have valid: "\<forall>y\<in>?new. valid_id (a_node a) y"
    using new(3) pending_valid [of _ a'] a'(2) by auto
  have pa: "ids_below b (pending a)" "pending a \<inter> set out = {}" "\<forall>x\<in>pending a. b0 (a_node a) \<le> id_rank x"
    using ok p by (auto simp: run_ok_def)
  have below: "ids_below b' ?new"
    using fresh
  proof
    assume "?new \<subseteq> pending a"
    then show ?thesis using ids_below_mono pa(1) mono(1) by blast
  next
    assume "\<forall>y\<in>?new. b (a_node a) \<le> id_rank y \<and> id_rank y < b' (a_node a)"
    then show ?thesis using valid by (auto simp: ids_below_def)
  qed
  have above: "\<forall>y\<in>?new. b0 (a_node a) \<le> id_rank y"
    using fresh pa(3) mono(2) order_trans by blast
  have apart: "?new \<inter> xs = {}" if "ids_below b xs" "pending a \<inter> xs = {}" for xs
    using fresh
  proof
    assume "?new \<subseteq> pending a"
    then show ?thesis using that(2) by blast
  next
    assume "\<forall>y\<in>?new. b (a_node a) \<le> id_rank y \<and> id_rank y < b' (a_node a)"
    then show ?thesis using fresh_disjoint [OF that(1), of ?new "a_node a"] valid by blast
  qed
  have out: "?new \<inter> set out = {}"
    using apart [of "set out"] ok pa(2) by (simp add: run_ok_def)
  have others: "?new \<inter> pending c = {}" if "als q = Some c" "q \<noteq> p" for q c
    using apart [of "pending c"] ok p that unfolding run_ok_def by metis
  show ?thesis
    unfolding run_ok_def
  proof (intro conjI allI impI ballI)
    show "distinct (out @ new)" using ok new(1) out by (auto simp: run_ok_def)
    have "ids_below b' (set out)" using ok mono(1) ids_below_mono by (auto simp: run_ok_def)
    then show "ids_below b' (set (out @ new))" using below by (auto simp: ids_below_def)
    fix x assume "x \<in> set (out @ new)"
    then show "\<exists>n. valid_id n x \<and> b0 n \<le> id_rank x"
      using ok above valid by (auto simp: run_ok_def)
  next
    fix q c assume q: "(als(p := Some a')) q = Some c"
    have old: "allocator_ok c \<and> ids_below b (pending c) \<and> pending c \<inter> set out = {}
        \<and> (\<forall>x\<in>pending c. b0 (a_node c) \<le> id_rank x)" if "q \<noteq> p"
      using ok q that by (auto simp: run_ok_def)
    show "allocator_ok c" using old q a'(1) by (cases "q = p") auto
    show "ids_below b' (pending c)"
      using old q below mono(1) ids_below_mono [of b' ?new "pending a'" b'] ids_below_mono [of b "pending c" "pending c" b']
      by (cases "q = p") auto
    show "pending c \<inter> set (out @ new) = {}"
      using old q out new(2) others [of q c] by (cases "q = p") auto
    fix x assume "x \<in> pending c"
    then show "b0 (a_node c) \<le> id_rank x" using old q above a'(2) by (cases "q = p") auto
  next
    fix q r c d
    assume "(als(p := Some a')) q = Some c" "(als(p := Some a')) r = Some d" "q \<noteq> r"
    then show "pending c \<inter> pending d = {}"
      using others [of q c] others [of r d] ok unfolding run_ok_def
      by (cases "q = p"; cases "r = p") (simp_all add: Int_Un_distrib2 Int_commute [of "pending c"])
  qed
qed

lemma run_ok_start: "run_ok b0 b als out \<Longrightarrow> allocator_ok a \<Longrightarrow> pending a = {} \<Longrightarrow>
    run_ok b0 b (als(p := Some a)) out"
  unfolding run_ok_def by (auto simp: ids_below_def)

lemma run_ok_stop: "run_ok b0 b als out \<Longrightarrow> run_ok b0 b (als(p := None)) out"
  unfolding run_ok_def by (auto split: if_splits)

lemma run_ok_mono: "run_ok b0 b als out \<Longrightarrow> \<forall>n. b n \<le> b' n \<Longrightarrow> run_ok b0 b' als out"
  unfolding run_ok_def using ids_below_mono by blast

context id_state_store
begin

lemma id_run_ok:
  "id_run store s0 sys out \<Longrightarrow> store_ok s0 \<Longrightarrow>
     store_ok (shared sys) \<and> (\<forall>n. bound s0 n \<le> bound (shared sys) n)
     \<and> run_ok (bound s0) (bound (shared sys)) (allocators sys) out"
proof (induction rule: id_run.induct)
  case id_init
  then show ?case by (simp add: run_ok_def ids_below_def)
next
  case (id_start sys out node lease a p)
  then have "a_remaining a = 0" by (auto simp: new_persistent_allocator_def result_simps)
  then have "allocator_ok a" "pending a = {}" by (simp_all add: allocator_ok_def pending_empty)
  then have "run_ok (bound s0) (bound (shared sys)) ((allocators sys)(p := Some a)) out"
    using id_start by (intro run_ok_start) simp_all
  with id_start show ?case by (simp del: fun_upd_apply)
next
  case (id_stop sys out p)
  then show ?case using run_ok_stop by (simp del: fun_upd_apply)
next
  case (id_next sys out p a ctx now x a' s')
  then have ok: "allocator_ok a" by (auto simp: run_ok_def)
  note step = allocator_next_correct [OF _ ok id_next(3)]
  have "run_ok (bound s0) (bound s') ((allocators sys)(p := Some a')) (out @ [x])"
    by (rule run_ok_replace [where b = "bound (shared sys)" and a = a]) (use id_next step in auto)
  with id_next step show ?case by (auto simp del: fun_upd_apply intro: order_trans)
next
  case (id_next_fails sys out p a ctx now e a' s')
  then have ok: "allocator_ok a" by (auto simp: run_ok_def)
  note step = allocator_next_correct [OF _ ok id_next_fails(3)]
  have "run_ok (bound s0) (bound s') ((allocators sys)(p := Some a')) (out @ [])"
    by (rule run_ok_replace [where b = "bound (shared sys)" and a = a]) (use id_next_fails step in auto)
  with id_next_fails step show ?case by (auto simp del: fun_upd_apply intro: order_trans)
next
  case (id_ensure sys out p a ctx now n res a' s')
  then have ok: "allocator_ok a" by (auto simp: run_ok_def)
  note step = allocator_ensure_correct [OF _ ok id_ensure(3)]
  have "run_ok (bound s0) (bound s') ((allocators sys)(p := Some a')) (out @ [])"
    by (rule run_ok_replace [where b = "bound (shared sys)" and a = a]) (use id_ensure step in auto)
  with id_ensure step show ?case by (auto simp del: fun_upd_apply intro: order_trans)
next
  case (id_lost sys out n t k res s')
  then have "store_ok s'" "\<forall>m. bound (shared sys) m \<le> bound s' m" using reserve_keeps by blast+
  with id_lost run_ok_mono show ?case by (fastforce intro: order_trans)
qed

end

subsection \<open>The high-water table meets the contract\<close>

definition table_ok :: "id_table \<Rightarrow> bool" where
  "table_ok table \<longleftrightarrow> (\<forall>n h. table n = Some h \<longrightarrow> mark_ok n h)"

definition table_bound :: "id_table \<Rightarrow> uint16 \<Rightarrow> nat" where
  "table_bound table n = (case table n of None \<Rightarrow> 0 | Some h \<Rightarrow> above_mark h)"

lemma reserve_id_range_cases:
  assumes "reserve_id_range n t k table = (res, table')" "table_ok table"
  obtains e where "res = Inl e" "table' = table"
  | r h where "res = Inr r" "reserve_range n t h k = Inr r" "mark_ok n h" "above_mark h = table_bound table n"
      "table' = table(n \<mapsto> last_id r)"
proof -
  define h where "h = (case table n of None \<Rightarrow> 0 | Some h \<Rightarrow> h)"
  have "mark_ok n h" "above_mark h = table_bound table n"
    using assms(2) by (auto simp: h_def table_ok_def table_bound_def mark_ok_def above_mark_def split: option.splits)
  note mark = this
  have call: "(case reserve_range n t h k of Inl e \<Rightarrow> (Inl e, table)
      | Inr r \<Rightarrow> if last_id r \<le>s 0 then (Inl StateNotPersisted, table)
          else (Inr r, table(n \<mapsto> last_id r))) = (res, table')"
    using assms(1) unfolding reserve_id_range_def h_def Let_def .
  show thesis
  proof (cases "reserve_range n t h k")
    case (Inl e)
    with call have "res = Inl e" "table' = table" by simp_all
    then show thesis by (rule that(1))
  next
    case (Inr r)
    show thesis
    proof (cases "last_id r \<le>s 0")
      case True
      with call Inr have "res = Inl StateNotPersisted" "table' = table" by simp_all
      then show thesis by (rule that(1))
    next
      case False
      with call Inr have "res = Inr r" "table' = table(n \<mapsto> last_id r)" by simp_all
      with Inr mark show thesis by (intro that(2) [of r h]) simp_all
    qed
  qed
qed

interpretation high_water: id_state_store reserve_id_range table_ok table_bound
proof
  fix s s' :: id_table and n t k r
  assume ok: "table_ok s" and call: "reserve_id_range n t k s = (Inr r, s')" and pos: "\<not> first_id r \<le>s 0"
  from reserve_id_range_cases [OF call ok] obtain h where
    h: "reserve_range n t h k = Inr r" "mark_ok n h" "above_mark h = table_bound s n" "s' = s(n \<mapsto> last_id r)"
    by auto
  note run = reserve_range_correct [OF h(1,2) pos]
  then have "last_id r \<noteq> 0" by (auto simp: valid_id_def)
  with run h show "valid_id n (first_id r) \<and> valid_id n (last_id r) \<and> 1 \<le> res_count r
      \<and> table_bound s n \<le> id_rank (first_id r)
      \<and> int (id_rank (last_id r)) = int (id_rank (first_id r)) + res_count r - 1
      \<and> table_bound s' n = Suc (id_rank (last_id r))"
    by (auto simp: table_bound_def above_mark_def)
next
  fix s s' :: id_table and n t k res m
  assume ok: "table_ok s" and call: "reserve_id_range n t k s = (res, s')"
  from call ok show "table_ok s' \<and> table_bound s m \<le> table_bound s' m"
  proof (cases rule: reserve_id_range_cases)
    case (1 e)
    with ok show ?thesis by simp
  next
    case (2 r h)
    from reserve_range_mark [OF 2(2,3)] 2 ok show ?thesis
      by (auto simp: table_ok_def table_bound_def)
  qed
qed

subsection \<open>The properties\<close>

text \<open>
  Packing is a bijection: within the field widths \<^verbatim>\<open>compose\<close> yields a nonnegative
  \<^verbatim>\<open>int64\<close> from which timestamp, node and sequence are read back with the shifts and masks
  that \<^verbatim>\<open>successor\<close> uses.
\<close>

theorem compose_roundtrip:
  assumes "unat t < 2 ^ 41" "unat n < 2 ^ 10" "unat q < 2 ^ 12"
  shows "\<not> compose t n q <s 0 \<and> signed_drop_bit timestamp_shift (compose t n q) = t
    \<and> signed_drop_bit node_shift (compose t n q) AND max_node = n
    \<and> compose t n q AND max_sequence = q"
proof -
  note f = compose_fields [OF assms]
  have "\<not> compose t n q <s 0" using f(5) nonneg_iff by simp
  moreover have "unat (signed_drop_bit timestamp_shift (compose t n q)) = unat t"
    "unat (signed_drop_bit node_shift (compose t n q) AND max_node) = unat n"
    "unat (compose t n q AND max_sequence) = unat q"
    using word_fields [OF f(5)] f(1-3) by simp_all
  ultimately show ?thesis by (simp add: unsigned_word_eqI)
qed

lemma compose_roundtrip_witness:
  "signed_drop_bit timestamp_shift (compose 7 3 5) = 7 \<and> compose 7 3 5 AND max_sequence = 5"
  using compose_roundtrip [of 7 3 5] by simp

text \<open>
  C29. The in-memory generator: whatever the clock does (repeat a millisecond, run out of
  sequence numbers, move backward), the ids it returns are strictly increasing as \<^verbatim>\<open>int64\<close>,
  nonnegative, and carry its node.
\<close>

theorem generator_ids_increase:
  assumes "new_generator node = Inr g"
  shows "sorted_wrt (\<lambda>x y. x <s y) (generator_run g calls)
    \<and> list_all (\<lambda>x. \<not> x <s 0 \<and> id_node x = unat node) (generator_run g calls)"
proof -
  have ok: "generator_ok g" using assms by (rule new_generator_ok)
  have "unat (g_node g) = unat node" using assms by (auto simp: new_generator_def result_simps)
  with generator_run_above [OF ok] generator_run_sorted [OF ok] show ?thesis
    by (auto simp: list_all_iff nonneg_iff)
qed

lemma generator_ids_increase_witness:
  "\<exists>g. new_generator 5 = Inr g \<and> sorted_wrt (\<lambda>x y. x <s y)
     (generator_run g [(LiveContext, epoch_millis + 9), (LiveContext, epoch_millis + 2), (LiveContext, epoch_millis + 10)])"
proof -
  have "new_generator 5 = Inr \<lparr>g_node = ucast (5 :: uint16), g_last_timestamp = - 1, g_sequence = 0\<rparr>"
    by (simp add: new_generator_def validate_node_def max_node_def)
  with generator_ids_increase [OF this] show ?thesis by blast
qed

text \<open>
  A reservation in closed form: for a valid node, an observed time in range, a permitted
  count and a stored mark that is absent or an id of the node, the reserved ids are the
  \<open>n\<close> consecutive positions that start at the observed millisecond or just above the mark,
  whichever is later; it fails exactly when they run past the last timestamp. (On node 0 the
  very first millisecond is excluded: there the first id would be 0.)
\<close>

theorem reserve_range_consecutive:
  assumes "unat node < 1024" "unat t < 2 ^ 41" "1 \<le> n" "n \<le> maximum_reservation_size"
    and "mark_ok node h" "t \<noteq> 0 \<or> node \<noteq> 0 \<or> h \<noteq> 0"
  shows "case reserve_range node t h n of
      Inr r \<Rightarrow> res_count r = n \<and> valid_id node (first_id r) \<and> valid_id node (last_id r)
        \<and> id_rank (first_id r) = max (unat t * 4096) (above_mark h)
        \<and> id_rank (last_id r) = id_rank (first_id r) + nat n - 1
    | Inl e \<Rightarrow> e = ErrTimestampExhausted \<and> last_rank < max (unat t * 4096) (above_mark h) + nat n - 1"
proof -
  have "0 < unat t \<or> 0 < unat node \<or> h \<noteq> 0" using assms(6) by (auto simp: unat_gt_0)
  from reserve_range_closed [OF assms(1) _ assms(3-5) this] assms(2) show ?thesis
    by (auto split: if_splits)
qed

lemma reserve_range_consecutive_witness:
  "case reserve_range 3 7 0 2 of
      Inr r \<Rightarrow> res_count r = 2 \<and> valid_id 3 (first_id r) \<and> valid_id 3 (last_id r)
        \<and> id_rank (first_id r) = max (unat (7 :: int64) * 4096) (above_mark 0)
        \<and> id_rank (last_id r) = id_rank (first_id r) + nat 2 - 1
    | Inl e \<Rightarrow> e = ErrTimestampExhausted \<and> last_rank < max (unat (7 :: int64) * 4096) (above_mark 0) + nat 2 - 1"
  by (rule reserve_range_consecutive) (simp_all add: maximum_reservation_size_def mark_ok_def)

lemma reserve_range_degenerate:
  assumes "reserve_range 0 0 0 k = Inr r"
  shows "last_id r = 0"
proof -
  have "\<not> (0 :: int64) <s 0" "compose 0 0 0 = 0" by (simp_all add: signed_less compose_def)
  with assms show ?thesis
    by (cases "nat k - 1") (auto simp: reserve_range_def result_simps successor_def signed_less)
qed

text \<open>An empty lease is filled exactly when a full one fits, above the mark and from the clock on.\<close>

definition lease_fits :: "int64 \<Rightarrow> allocator \<Rightarrow> id_table \<Rightarrow> bool" where
  "lease_fits now a table \<longleftrightarrow>
     (\<exists>t. timestamp_for now = Inr t \<and> (t \<noteq> 0 \<or> a_node a \<noteq> 0 \<or> table_bound table 0 \<noteq> 0)
        \<and> max (unat t * 4096) (table_bound table (a_node a)) + nat (a_lease_size a) \<le> Suc last_rank)"

lemma reserve_lease_fits:
  assumes "table_ok table" "unat (a_node a) < 1024"
    and "1 \<le> a_lease_size a" "a_lease_size a \<le> maximum_reservation_size"
  shows "if lease_fits now a table
    then \<exists>a' table'. reserve_lease reserve_id_range now (a_lease_size a) a table = (Inr (), a', table')
    else \<exists>e. reserve_lease reserve_id_range now (a_lease_size a) a table = (Inl e, a, table)"
proof (cases "timestamp_for now")
  case (Inl e)
  then show ?thesis by (simp add: lease_fits_def reserve_lease_def)
next
  case time: (Inr t)
  let ?n = "a_node a" and ?k = "a_lease_size a"
  define h where "h = (case table ?n of None \<Rightarrow> 0 | Some h \<Rightarrow> h)"
  have h: "mark_ok ?n h" "above_mark h = table_bound table ?n"
    using assms(1) by (auto simp: h_def table_ok_def table_bound_def mark_ok_def above_mark_def split: option.splits)
  have t: "unat t < 2199023255552" using time timestamp_for_iff by blast
  have call: "reserve_lease reserve_id_range now ?k a table
      = (case reserve_range ?n t h ?k of
           Inl e \<Rightarrow> (Inl e, a, table)
         | Inr r \<Rightarrow> if last_id r \<le>s 0 then (Inl StateNotPersisted, a, table)
             else if res_count r \<noteq> ?k \<or> first_id r \<le>s 0 \<or> last_id r <s first_id r
             then (Inl ErrInvalidReservation, a, table(?n \<mapsto> last_id r))
             else (Inr (), a\<lparr>a_next_id := first_id r, a_remaining := res_count r\<rparr>, table(?n \<mapsto> last_id r)))"
    by (simp add: reserve_lease_def reserve_id_range_def h_def [symmetric] time split: sum.split)
  show ?thesis
  proof (cases "t \<noteq> 0 \<or> ?n \<noteq> 0 \<or> table_bound table 0 \<noteq> 0")
    case False
    then have zero: "t = 0" "?n = 0" "h = 0" "\<not> lease_fits now a table"
      using h(2) time by (auto simp: above_mark_def lease_fits_def split: if_splits)
    show ?thesis
    proof (cases "reserve_range 0 0 0 ?k")
      case (Inl e)
      with call zero show ?thesis by simp
    next
      case (Inr r)
      with call zero reserve_range_degenerate [OF Inr] show ?thesis by simp
    qed
  next
    case True
    then have "0 < unat t \<or> 0 < unat ?n \<or> h \<noteq> 0" using h(2) by (auto simp: unat_gt_0 above_mark_def)
    note closed = reserve_range_closed [OF assms(2) t assms(3,4) h(1) this]
    show ?thesis
    proof (cases "lease_fits now a table")
      case False
      with closed time True h(2) assms(3) call show ?thesis by (auto simp: lease_fits_def)
    next
      case fits: True
      then have "max (unat t * 4096) (table_bound table ?n) + nat ?k - 1 \<le> last_rank"
        using time by (auto simp: lease_fits_def)
      with closed h(2) obtain r where r: "reserve_range ?n t h ?k = Inr r" "res_count r = ?k"
          "valid_id ?n (first_id r)" "valid_id ?n (last_id r)"
          "id_rank (last_id r) = id_rank (first_id r) + nat ?k - 1"
        by auto
      have pos: "\<not> first_id r \<le>s 0" "\<not> last_id r \<le>s 0" using r(3,4) positive_iff by (simp_all add: valid_id_def)
      have "\<not> id_rank (last_id r) < id_rank (first_id r)" using r(5) assms(3) by simp
      then have "\<not> last_id r <s first_id r"
        using id_rank_mono [of "last_id r" "first_id r"] signed_less_small(1) [of "last_id r" "first_id r"] r(3,4)
        by (simp add: valid_id_def)
      with r pos call fits show ?thesis by simp
    qed
  qed
qed

lemma allocator_next_decided:
  assumes "table_ok table" "allocator_ok a" "unat (a_node a) < 1024"
    and "1 \<le> a_lease_size a" "a_lease_size a \<le> maximum_reservation_size"
  shows "if a_remaining a \<noteq> 0 \<or> lease_fits now a table
    then \<exists>x a' table'. allocator_next reserve_id_range LiveContext now a table = (Inr x, a', table')
    else \<exists>e. allocator_next reserve_id_range LiveContext now a table = (Inl e, a, table)"
proof (cases "a_remaining a = 0")
  case False
  then have "0 < a_remaining a" using assms(2) by (simp add: allocator_ok_def)
  from take_id_correct [OF assms(2) this] False show ?thesis
    by (auto simp: allocator_next_def check_context_def)
next
  case True
  note lease = reserve_lease_fits [OF assms(1,3-5), of now]
  show ?thesis
  proof (cases "lease_fits now a table")
    case False
    with lease True show ?thesis by (auto simp: allocator_next_def check_context_def)
  next
    case fits: True
    with lease obtain a1 t1 where call: "reserve_lease reserve_id_range now (a_lease_size a) a table = (Inr (), a1, t1)"
      by auto
    from high_water.reserve_lease_correct [OF assms(1) call] have "allocator_ok a1" "0 < a_remaining a1" by simp_all
    from take_id_correct [OF this] call True fits show ?thesis
      by (auto simp: allocator_next_def check_context_def)
  qed
qed

text \<open>
  C30. When allocation succeeds, and that nothing else makes it fail: with a live context and a
  store that answers, an allocator that still holds a lease hands out an id whatever the clock
  says, and one with an empty lease does exactly when the clock is in range, a full lease fits
  between the later of clock and mark and the last id, and it is not the case that node 0 stands
  in the first millisecond of the epoch with nothing reserved, where the first id would be 0.
  Otherwise it fails and changes neither the allocator nor the table.
\<close>

theorem allocation_decided:
  assumes "table_ok table" "allocator_ok a" "unat (a_node a) < 1024"
    and "1 \<le> a_lease_size a" "a_lease_size a \<le> maximum_reservation_size"
  shows "if a_remaining a \<noteq> 0
      \<or> (\<exists>t. timestamp_for now = Inr t \<and> (t \<noteq> 0 \<or> a_node a \<noteq> 0 \<or> table_bound table 0 \<noteq> 0)
           \<and> max (unat t * 4096) (table_bound table (a_node a)) + nat (a_lease_size a) \<le> Suc last_rank)
    then \<exists>x a' table'. allocator_next reserve_id_range LiveContext now a table = (Inr x, a', table')
    else \<exists>e. allocator_next reserve_id_range LiveContext now a table = (Inl e, a, table)"
  using allocator_next_decided [OF assms] by (simp only: lease_fits_def)

definition sample_allocator :: allocator where
  "sample_allocator = \<lparr>a_node = 1, a_lease_size = 1, a_next_id = 0, a_remaining = 0\<rparr>"

lemma sample_facts:
  "timestamp_for (epoch_millis + 5) = Inr 5" "allocator_ok sample_allocator"
  "new_persistent_allocator 1 True 1 = Inr sample_allocator" "table_ok Map.empty"
  by (simp_all add: timestamp_for_iff allocator_ok_def sample_allocator_def new_persistent_allocator_def
      validate_node_def max_node_def maximum_reservation_size_def table_ok_def)

lemma sample_fits: "lease_fits (epoch_millis + 5) sample_allocator Map.empty"
  by (simp add: lease_fits_def sample_facts sample_allocator_def table_bound_def last_rank_def)

lemma allocation_decided_witness:
  "(\<exists>x a' table'. allocator_next reserve_id_range LiveContext (epoch_millis + 5) sample_allocator Map.empty
     = (Inr x, a', table'))
   \<and> (\<exists>e. allocator_next reserve_id_range LiveContext epoch_millis (sample_allocator\<lparr>a_node := 0\<rparr>) Map.empty
     = (Inl e, sample_allocator\<lparr>a_node := 0\<rparr>, Map.empty))"
proof
  have bounds: "1 \<le> a_lease_size sample_allocator" "a_lease_size sample_allocator \<le> maximum_reservation_size"
    "unat (a_node sample_allocator) < 1024"
    by (simp_all add: sample_allocator_def maximum_reservation_size_def)
  show "\<exists>x a' table'. allocator_next reserve_id_range LiveContext (epoch_millis + 5) sample_allocator Map.empty
     = (Inr x, a', table')"
    using allocation_decided [OF sample_facts(4,2) bounds(3,1,2), of "epoch_millis + 5"] sample_fits
    by (auto simp: lease_fits_def)
  let ?a = "sample_allocator\<lparr>a_node := 0\<rparr>"
  have "allocator_ok ?a" "a_remaining ?a = 0" by (simp_all add: allocator_ok_def sample_allocator_def)
  moreover have "timestamp_for epoch_millis = Inr 0" by (simp add: timestamp_for_iff)
  ultimately show "\<exists>e. allocator_next reserve_id_range LiveContext epoch_millis ?a Map.empty = (Inl e, ?a, Map.empty)"
    using allocation_decided [OF sample_facts(4), of ?a epoch_millis] bounds by (simp add: table_bound_def)
qed

text \<open>
  C7. No id is ever issued twice: over the persisted high-water table, any number of
  allocators of any nodes that start, allocate, prefetch, fail and stop in any order, with
  reservations stored for callers that have left, and with any clocks hand out pairwise distinct
  positive ids, all of them above the marks the table held when the run began (so a restart
  repeats nothing issued before it).
\<close>

theorem ids_never_repeat:
  assumes "table_ok table" "id_run reserve_id_range table sys out"
  shows "distinct out \<and> (\<forall>x\<in>set out. \<exists>n. valid_id n x \<and> table_bound table n \<le> id_rank x)"
  using high_water.id_run_ok [OF assms(2,1)] by (simp add: run_ok_def)

lemma sample_run:
  "\<exists>sys x. id_run reserve_id_range Map.empty sys [x]"
proof -
  let ?sys = "\<lparr>allocators = (\<lambda>_. None)(0 := Some sample_allocator), shared = Map.empty\<rparr>"
  obtain x a' t' where step:
    "allocator_next reserve_id_range LiveContext (epoch_millis + 5) sample_allocator Map.empty = (Inr x, a', t')"
    using allocator_next_decided [OF sample_facts(4,2), of "epoch_millis + 5"] sample_fits
    by (auto simp: sample_allocator_def maximum_reservation_size_def)
  have "id_run reserve_id_range Map.empty ?sys []"
    using id_start [OF id_init sample_facts(3), of reserve_id_range Map.empty 0] by simp
  from id_next [OF this _ , of 0 sample_allocator] step show ?thesis by fastforce
qed

lemma ids_never_repeat_witness:
  "\<exists>sys x. id_run reserve_id_range Map.empty sys [x] \<and> (\<exists>n. valid_id n x)"
proof -
  obtain sys x where run: "id_run reserve_id_range Map.empty sys [x]" using sample_run by blast
  from ids_never_repeat [OF sample_facts(4) this] run show ?thesis by auto
qed

end
