(* ===== verification/Relations.thy ===== *)
theory Relations
  imports ConditionAst
begin

section \<open>Relations and the commands on them\<close>

text \<open>
  \<^verbatim>\<open>internal/relations/types.go\<close> and \<^verbatim>\<open>internal/relations/commands.go\<close>: the data of a
  relation, its revisions and the records handed to the repository, the checks of every
  command, and the commands themselves over the \<^verbatim>\<open>Repository\<close> interface. Go integers that
  only name or number things (ids, revision numbers, times in nanoseconds) are \<^typ>\<open>int\<close>.
  An enumeration that a caller can fill with any integer has an \<open>Other\<close> case; one that only
  the program sets has none. SHA-256 and \<^verbatim>\<open>encoding/json\<close> are arguments of the commands
  (\<open>codec\<close>, \<open>c_digest\<close>), and so are the id generator and the repository.
\<close>

subsection \<open>Commands as state-passing steps\<close>

text \<open>
  A command reads and writes the repository and the id generator. It returns its result
  together with the new state whether or not it fails, because ids drawn before a failure
  stay drawn.
\<close>

type_synonym ('w, 'e, 'a) action = "'w \<Rightarrow> ('e + 'a) \<times> 'w"

definition act_bind :: "('w, 'e, 'a) action \<Rightarrow> ('a \<Rightarrow> ('w, 'e, 'b) action) \<Rightarrow> ('w, 'e, 'b) action" where
  "act_bind m f w = (case m w of (Inl e, w') \<Rightarrow> (Inl e, w') | (Inr x, w') \<Rightarrow> f x w')"

definition act_pure :: "'e + 'a \<Rightarrow> ('w, 'e, 'a) action" where
  "act_pure r w = (r, w)"

lemma act_bind_Inr [result_simps]:
  "act_bind m f w = (Inr y, w') \<longleftrightarrow> (\<exists>x v. m w = (Inr x, v) \<and> f x v = (Inr y, w'))"
  by (auto simp: act_bind_def split: prod.splits sum.splits)

lemma act_bind_pure [simp]:
  "act_bind (act_pure (Inl e)) f w = (Inl e, w)"
  "act_bind (act_pure (Inr x)) f w = f x w"
  by (simp_all add: act_bind_def act_pure_def)

lemma act_pure_Inr [result_simps]: "act_pure r w = (Inr x, w') \<longleftrightarrow> r = Inr x \<and> w' = w"
  by (auto simp: act_pure_def)

lemma act_pure_bind_eq:
  "act_bind (act_pure r) f w = (case r of Inl e \<Rightarrow> (Inl e, w) | Inr x \<Rightarrow> f x w)"
  by (cases r) simp_all

subsection \<open>Enumerations\<close>

datatype role = RoleViewer | RoleAgent | RoleEditor | RoleReviewer | RoleAdmin | RoleOther int

datatype origin = OriginAgent | OriginWeb | OriginSystem | OriginOther int

datatype relation_type =
  TypeConditionalValueCopy | TypeDeclaredForeignKey | TypeOther int

datatype proposal_kind = ProposalContent | ProposalTombstone | ProposalStale

datatype relation_status =
  StatusPending | StatusApproved | StatusSuppressed | StatusTombstoned | StatusStale

datatype decision = DecisionApprove | DecisionReject | DecisionOther int

datatype evidence_kind =
  EvidenceCode | EvidenceSQLMapping | EvidenceManual | EvidenceDatabaseConstraint
| EvidenceOther int

datatype event_type =
  EventProposed | EventApproved | EventRejected | EventSuperseded | EventTombstoned
| EventSuppressed | EventRestored | EventStale

datatype reference_role = ReferenceGuard | ReferenceSelector | ReferenceTransform

subsection \<open>Records\<close>

text \<open>A Go \<^verbatim>\<open>float64\<close>: a finite one is the rational it denotes.\<close>

datatype go_float = NotANumber | Infinite bool | Finite rat

record principal =
  pr_actor :: string
  pr_role :: role
  pr_origin :: origin

record evidence_input =
  ev_kind :: evidence_kind
  ev_repository :: string
  ev_commit :: string
  ev_file :: string
  ev_symbol :: string
  ev_start_line :: int
  ev_end_line :: int
  ev_data_source_id :: int
  ev_constraint_schema :: string
  ev_constraint_name :: string
  ev_scan_run_id :: int

record revision =
  rv_id :: int
  rv_relation_id :: int
  rv_revision_no :: int
  rv_kind :: proposal_kind
  rv_source :: int
  rv_target :: int
  rv_guard :: "boolean option"
  rv_selector :: "boolean option"
  rv_transform :: "value"
  rv_confidence :: go_float
  rv_evidence :: "evidence_input list"
  rv_actor :: string
  rv_origin :: origin
  rv_reason :: string
  rv_request_id :: string
  rv_expected :: "int option"
  rv_created_at :: int

record relation =
  r_id :: int
  r_type :: relation_type
  r_latest :: int
  r_status :: relation_status
  r_active :: "revision option"
  r_proposed :: "revision option"
  r_effective :: bool
  r_created_at :: int

record propose_create_command =
  pc_type :: relation_type
  pc_source :: int
  pc_target :: int
  pc_guard :: "boolean option"
  pc_selector :: "boolean option"
  pc_transform :: "value"
  pc_confidence :: go_float
  pc_evidence :: "evidence_input list"
  pc_principal :: principal
  pc_reason :: string
  pc_request_id :: string

record propose_revision_command =
  pv_relation_id :: int
  pv_expected :: int
  pv_source :: int
  pv_target :: int
  pv_guard :: "boolean option"
  pv_selector :: "boolean option"
  pv_transform :: "value"
  pv_confidence :: go_float
  pv_evidence :: "evidence_input list"
  pv_principal :: principal
  pv_reason :: string
  pv_request_id :: string

record propose_tombstone_command =
  pt_relation_id :: int
  pt_expected :: int
  pt_principal :: principal
  pt_reason :: string
  pt_request_id :: string

record review_command =
  rw_relation_id :: int
  rw_expected :: int
  rw_decision :: decision
  rw_principal :: principal
  rw_reason :: string
  rw_request_id :: string

record change_state_command =
  cs_relation_id :: int
  cs_expected :: int
  cs_principal :: principal
  cs_reason :: string
  cs_request_id :: string

datatype reference = Reference (ref_node: int) (ref_role: reference_role)

record proposal_record =
  p_relation_id :: int
  p_version_id :: int
  p_event_id :: int
  p_audit_id :: int
  p_type :: relation_type
  p_fingerprint :: string
  p_revision :: revision
  p_references :: "reference list"

record review_record =
  w_relation_id :: int
  w_expected :: int
  w_decision :: decision
  w_event_id :: int
  w_superseded_event_id :: int
  w_audit_id :: int
  w_principal :: principal
  w_reason :: string
  w_request_id :: string
  w_occurred_at :: int

record state_record =
  t_relation_id :: int
  t_expected :: int
  t_event_id :: int
  t_audit_id :: int
  t_principal :: principal
  t_reason :: string
  t_request_id :: string
  t_occurred_at :: int

text \<open>
  The sentinel errors; a revision conflict carries the current revision number and the
  relation as it is. \<open>IdGenerationFailed\<close> and \<open>StorageFailure\<close> stand for the wrapped
  errors of the id generator and of the database.
\<close>

datatype relation_error =
    ErrInvalidCommand | ErrForbidden | ErrRelationNotFound | RevisionConflict int relation
  | ErrPendingProposal | ErrInvalidTransition | ErrDuplicateRelation
  | IdGenerationFailed | StorageFailure | ContextEnded

subsection \<open>The repository, the generator and the codec a command uses\<close>

record 's repository =
  repo_propose_create :: "proposal_record \<Rightarrow> ('s, relation_error, relation) action"
  repo_propose_revision :: "proposal_record \<Rightarrow> ('s, relation_error, relation) action"
  repo_review :: "review_record \<Rightarrow> ('s, relation_error, relation) action"
  repo_suppress :: "state_record \<Rightarrow> ('s, relation_error, relation) action"
  repo_restore :: "state_record \<Rightarrow> ('s, relation_error, relation) action"
  repo_get :: "int \<Rightarrow> 's \<Rightarrow> relation_error + relation"
  repo_list_proposals :: "int \<Rightarrow> 's \<Rightarrow> relation_error + relation list"

text \<open>\<^verbatim>\<open>json.Marshal\<close> and \<^verbatim>\<open>json.Unmarshal\<close> on the two condition types.\<close>

record codec =
  marshal_boolean :: "boolean \<Rightarrow> string option"
  unmarshal_boolean :: "string \<Rightarrow> boolean option"
  marshal_value :: "value \<Rightarrow> string option"
  unmarshal_value :: "string \<Rightarrow> value option"

record fingerprint_input =
  fi_type :: relation_type
  fi_kind :: proposal_kind
  fi_source :: int
  fi_target :: int
  fi_guard :: "boolean option"
  fi_selector :: "boolean option"
  fi_transform :: "value"

text \<open>
  \<open>c_digest\<close> is \<^verbatim>\<open>hex(sha256(json.Marshal(canonical)))\<close>, with no result when the marshaller
  fails; \<open>c_now\<close> is the clock reading of the call.
\<close>

record ('s, 'g) commands =
  c_repository :: "'s repository"
  c_ids :: "'g \<Rightarrow> (relation_error + int) \<times> 'g"
  c_now :: int
  c_codec :: codec
  c_digest :: "fingerprint_input \<Rightarrow> string option"

end
