(* ===== verification/RelationCommands.thy ===== *)
theory RelationCommands
  imports Relations
begin

section \<open>The relation commands\<close>

text \<open>
  \<^verbatim>\<open>internal/relations/commands.go\<close>: authorization by role, the checks of a command's
  content, evidence and metadata, the node references a revision's expressions make, and the
  commands. \<^verbatim>\<open>cloneRelation\<close> and \<^verbatim>\<open>cloneRevision\<close> give fresh pointers to the same data; a
  clone of a revision goes through JSON and is \<open>clone_revision\<close>.
\<close>

definition maximum_evidence_items :: int where "maximum_evidence_items = 20"
definition maximum_evidence_text :: int where "maximum_evidence_text = 2000"

subsection \<open>Authorization\<close>

definition can_create_or_tombstone :: "principal \<Rightarrow> bool" where
  "can_create_or_tombstone p \<longleftrightarrow>
     pr_role p = RoleAgent \<or> pr_role p = RoleEditor \<or> pr_role p = RoleAdmin"

definition can_revise :: "principal \<Rightarrow> bool" where
  "can_revise p \<longleftrightarrow> can_create_or_tombstone p \<or> pr_role p = RoleReviewer"

definition can_review :: "principal \<Rightarrow> bool" where
  "can_review p \<longleftrightarrow> pr_role p = RoleReviewer \<or> pr_role p = RoleAdmin"

definition valid_type :: "relation_type \<Rightarrow> bool" where
  "valid_type t \<longleftrightarrow> t = TypeConditionalValueCopy"

subsection \<open>Copies through JSON\<close>

definition copy_boolean :: "codec \<Rightarrow> boolean option \<Rightarrow> relation_error + boolean option" where
  "copy_boolean cd b =
     (case b of
        None \<Rightarrow> Inr None
      | Some e \<Rightarrow>
          (case marshal_boolean cd e of
             None \<Rightarrow> Inl ErrInvalidCommand
           | Some text \<Rightarrow>
               (case unmarshal_boolean cd text of
                  None \<Rightarrow> Inl ErrInvalidCommand
                | Some copied \<Rightarrow> Inr (Some copied))))"

definition copy_value :: "codec \<Rightarrow> value \<Rightarrow> relation_error + value" where
  "copy_value cd v =
     (case marshal_value cd v of
        None \<Rightarrow> Inl ErrInvalidCommand
      | Some text \<Rightarrow>
          (case unmarshal_value cd text of
             None \<Rightarrow> Inl ErrInvalidCommand
           | Some copied \<Rightarrow> Inr copied))"

text \<open>
  \<^verbatim>\<open>copied.Guard, _ = copyBoolean(value.Guard)\<close> drops the error and keeps the nil pointer or
  the zero value that comes with it.
\<close>

definition zero_value :: "value" where
  "zero_value = Value no_value_kind 0 [] None [] None"

definition clone_revision :: "codec \<Rightarrow> revision \<Rightarrow> revision" where
  "clone_revision cd rv =
     rv\<lparr>rv_guard := (case copy_boolean cd (rv_guard rv) of Inr g \<Rightarrow> g | Inl _ \<Rightarrow> None),
        rv_selector := (case copy_boolean cd (rv_selector rv) of Inr s \<Rightarrow> s | Inl _ \<Rightarrow> None),
        rv_transform := (case copy_value cd (rv_transform rv) of Inr t \<Rightarrow> t | Inl _ \<Rightarrow> zero_value)\<rparr>"

definition clone_relation :: "codec \<Rightarrow> relation \<Rightarrow> relation" where
  "clone_relation cd r =
     r\<lparr>r_active := map_option (clone_revision cd) (r_active r),
       r_proposed := map_option (clone_revision cd) (r_proposed r)\<rparr>"

definition require_revision :: "codec \<Rightarrow> relation \<Rightarrow> int \<Rightarrow> relation_error + unit" where
  "require_revision cd r expected =
     fail_if (expected \<le> 0 \<or> expected \<noteq> r_latest r)
       (RevisionConflict (r_latest r) (clone_relation cd r))"

subsection \<open>Node references of an expression\<close>

primrec collect_boolean_references :: "boolean \<Rightarrow> reference_role \<Rightarrow> reference list"
  and collect_value_references :: "value \<Rightarrow> reference_role \<Rightarrow> reference list"
  and collect_branch_references :: "branch \<Rightarrow> reference_role \<Rightarrow> reference list" where
  "collect_boolean_references (Boolean k op children operand left right vals) role =
     concat (map (\<lambda>x. x role) (map collect_boolean_references children))
     @ (case map_option collect_boolean_references operand of None \<Rightarrow> [] | Some x \<Rightarrow> x role)
     @ (case map_option collect_value_references left of None \<Rightarrow> [] | Some x \<Rightarrow> x role)
     @ (case map_option collect_value_references right of None \<Rightarrow> [] | Some x \<Rightarrow> x role)
     @ concat (map (\<lambda>x. x role) (map collect_value_references vals))"
| "collect_value_references (Value k nid param lit cases els) role =
     (if (k = ValueColumn \<or> k = ValueColumnCopy) \<and> nid > 0 then [Reference nid role] else [])
     @ concat (map (\<lambda>x. x role) (map collect_branch_references cases))
     @ (case map_option collect_value_references els of None \<Rightarrow> [] | Some x \<Rightarrow> x role)"
| "collect_branch_references (Case w t) role =
     collect_boolean_references w role @ collect_value_references t role"

definition collect_optional_references :: "boolean option \<Rightarrow> reference_role \<Rightarrow> reference list" where
  "collect_optional_references b role =
     (case b of None \<Rightarrow> [] | Some e \<Rightarrow> collect_boolean_references e role)"

text \<open>The order of \<^verbatim>\<open>sort.Slice\<close>: by role, then by node.\<close>

definition role_rank :: "reference_role \<Rightarrow> nat" where
  "role_rank role =
     (case role of ReferenceGuard \<Rightarrow> 1 | ReferenceSelector \<Rightarrow> 2 | ReferenceTransform \<Rightarrow> 3)"

definition reference_before :: "reference \<Rightarrow> reference \<Rightarrow> bool" where
  "reference_before a b =
     (if ref_role a = ref_role b then ref_node a < ref_node b
      else role_rank (ref_role a) < role_rank (ref_role b))"

lemma role_rank_inject [simp]: "role_rank a = role_rank b \<longleftrightarrow> a = b"
  by (cases a; cases b) (simp_all add: role_rank_def)

instantiation reference :: linorder
begin

definition less_reference :: "reference \<Rightarrow> reference \<Rightarrow> bool" where
  "less_reference a b = reference_before a b"

definition less_eq_reference :: "reference \<Rightarrow> reference \<Rightarrow> bool" where
  "less_eq_reference a b \<longleftrightarrow> reference_before a b \<or> a = b"

instance
proof
  fix x y z :: reference
  note defs = less_reference_def less_eq_reference_def reference_before_def
  show "x < y \<longleftrightarrow> x \<le> y \<and> \<not> y \<le> x"
    by (auto simp: defs split: if_splits)
  show "x \<le> x" by (simp add: defs)
  show "x \<le> y \<Longrightarrow> y \<le> z \<Longrightarrow> x \<le> z"
    by (auto simp: defs split: if_splits)
  show "x \<le> y \<Longrightarrow> y \<le> x \<Longrightarrow> x = y"
    by (auto simp: defs split: if_splits)
  show "x \<le> y \<or> y \<le> x"
    by (cases x; cases y) (auto simp: defs not_less_iff_gr_or_eq)
qed

end

record validated_content =
  vc_source :: int
  vc_target :: int
  vc_guard :: "boolean option"
  vc_selector :: "boolean option"
  vc_transform :: "value"
  vc_confidence :: go_float
  vc_evidence :: "evidence_input list"

definition references_for_content :: "validated_content \<Rightarrow> reference list" where
  "references_for_content c =
     dedup_adjacent (sort
       (collect_optional_references (vc_guard c) ReferenceGuard
        @ collect_optional_references (vc_selector c) ReferenceSelector
        @ collect_value_references (vc_transform c) ReferenceTransform))"

definition references_for_revision :: "revision \<Rightarrow> reference list" where
  "references_for_revision rv =
     references_for_content
       \<lparr>vc_source = rv_source rv, vc_target = rv_target rv, vc_guard = rv_guard rv,
        vc_selector = rv_selector rv, vc_transform = rv_transform rv,
        vc_confidence = Finite 0, vc_evidence = []\<rparr>"

subsection \<open>Checks on the parts of a command\<close>

definition valid_confidence :: "go_float \<Rightarrow> bool" where
  "valid_confidence c =
     (case c of NotANumber \<Rightarrow> False | Infinite _ \<Rightarrow> False | Finite q \<Rightarrow> \<not> q < 0 \<and> \<not> q > 1)"

definition user_evidence_kind :: "evidence_kind \<Rightarrow> bool" where
  "user_evidence_kind k \<longleftrightarrow> k = EvidenceCode \<or> k = EvidenceSQLMapping \<or> k = EvidenceManual"

definition validate_evidence_item :: "evidence_input \<Rightarrow> relation_error + evidence_input" where
  "validate_evidence_item item =
     (let item = item\<lparr>ev_repository := trim_space (ev_repository item),
                      ev_commit := trim_space (ev_commit item),
                      ev_file := trim_space (ev_file item),
                      ev_symbol := trim_space (ev_symbol item)\<rparr> in
      if \<not> user_evidence_kind (ev_kind item)
        \<or> ev_repository item = [] \<or> ev_commit item = [] \<or> ev_file item = []
        \<or> int (length (ev_repository item)) > 500 \<or> int (length (ev_commit item)) > 200
        \<or> int (length (ev_file item)) > maximum_evidence_text
        \<or> int (length (ev_symbol item)) > maximum_evidence_text
        \<or> ev_start_line item < 1 \<or> ev_end_line item < ev_start_line item
        \<or> ev_end_line item - ev_start_line item > 10000
      then Inl ErrInvalidCommand else Inr item)"

definition validate_evidence :: "evidence_input list \<Rightarrow> relation_error + evidence_input list" where
  "validate_evidence evidence =
     sbind (fail_if (length evidence < 1 \<or> int (length evidence) > maximum_evidence_items)
       ErrInvalidCommand) (\<lambda>_.
     map_result validate_evidence_item evidence)"

definition invalid_on_error :: "condition_error + unit \<Rightarrow> relation_error + unit" where
  "invalid_on_error r = (case r of Inl _ \<Rightarrow> Inl ErrInvalidCommand | Inr u \<Rightarrow> Inr u)"

definition validate_content ::
  "codec \<Rightarrow> int \<Rightarrow> int \<Rightarrow> boolean option \<Rightarrow> boolean option \<Rightarrow> value \<Rightarrow> go_float
    \<Rightarrow> evidence_input list \<Rightarrow> relation_error + (validated_content \<times> reference list)" where
  "validate_content cd source target guard selector transform confidence evidence =
     sbind (fail_if (source \<le> 0 \<or> target \<le> 0 \<or> source = target \<or> \<not> valid_confidence confidence)
       ErrInvalidCommand) (\<lambda>_.
     sbind (case guard of None \<Rightarrow> Inr ()
            | Some g \<Rightarrow> invalid_on_error (validate_boolean g default_limits)) (\<lambda>_.
     sbind (case selector of None \<Rightarrow> Inr ()
            | Some s \<Rightarrow> invalid_on_error (validate_boolean s default_limits)) (\<lambda>_.
     sbind (invalid_on_error (validate_value transform default_limits)) (\<lambda>_.
     sbind (validate_evidence evidence) (\<lambda>copied_evidence.
     sbind (copy_boolean cd guard) (\<lambda>copied_guard.
     sbind (copy_boolean cd selector) (\<lambda>copied_selector.
     sbind (copy_value cd transform) (\<lambda>copied_transform.
     let content = \<lparr>vc_source = source, vc_target = target, vc_guard = copied_guard,
                    vc_selector = copied_selector, vc_transform = copied_transform,
                    vc_confidence = confidence, vc_evidence = copied_evidence\<rparr> in
     Inr (content, references_for_content content)))))))))"

definition default_approval_reason :: string where
  "default_approval_reason = ''Approved from the review queue without a stated reason''"

definition default_rejection_reason :: string where
  "default_rejection_reason = ''Rejected from the review queue without a stated reason''"

definition defaulted_review_reason :: "decision \<Rightarrow> string \<Rightarrow> string" where
  "defaulted_review_reason d reason =
     (if trim_space reason \<noteq> [] then reason
      else if d = DecisionReject then default_rejection_reason
      else default_approval_reason)"

definition known_origin :: "origin \<Rightarrow> bool" where
  "known_origin orig = (case orig of OriginOther _ \<Rightarrow> False | _ \<Rightarrow> True)"

definition validate_metadata ::
  "principal \<Rightarrow> string \<Rightarrow> string \<Rightarrow> relation_error + (string \<times> string \<times> string)" where
  "validate_metadata p reason request_id =
     (let actor = trim_space (pr_actor p); reason = trim_space reason;
          request_id = trim_space request_id in
      if actor = [] \<or> length actor > 200 \<or> reason = [] \<or> length reason > 2000
        \<or> request_id = [] \<or> length request_id > 200 \<or> \<not> known_origin (pr_origin p)
      then Inl ErrInvalidCommand else Inr (actor, reason, request_id))"

subsection \<open>Identifiers and fingerprints\<close>

text \<open>The loop of \<^verbatim>\<open>allocateCommandIDs\<close>: \<open>n\<close> draws, stopping at the first failure.\<close>

primrec allocate_command_ids ::
  "('g \<Rightarrow> (relation_error + int) \<times> 'g) \<Rightarrow> nat \<Rightarrow> ('g, relation_error, int list) action" where
  "allocate_command_ids next 0 g = (Inr [], g)"
| "allocate_command_ids next (Suc n) g =
     (case next g of
        (Inl e, g') \<Rightarrow> (Inl IdGenerationFailed, g')
      | (Inr x, g') \<Rightarrow>
          (case allocate_command_ids next n g' of
             (Inl e, g'') \<Rightarrow> (Inl e, g'')
           | (Inr xs, g'') \<Rightarrow> (Inr (x # xs), g'')))"

definition content_fingerprint ::
  "('s, 'g) commands \<Rightarrow> relation_type \<Rightarrow> revision \<Rightarrow> relation_error + string" where
  "content_fingerprint c t rv =
     (case c_digest c
        \<lparr>fi_type = t, fi_kind = rv_kind rv, fi_source = rv_source rv, fi_target = rv_target rv,
         fi_guard = rv_guard rv, fi_selector = rv_selector rv, fi_transform = rv_transform rv\<rparr> of
        None \<Rightarrow> Inl ErrInvalidCommand
      | Some hex \<Rightarrow> Inr hex)"

subsection \<open>Commands\<close>

text \<open>The state of a command: the repository's and the generator's.\<close>

definition on_repository :: "('s, 'e, 'a) action \<Rightarrow> ('s \<times> 'g, 'e, 'a) action" where
  "on_repository m w = (case m (fst w) of (r, s) \<Rightarrow> (r, (s, snd w)))"

definition on_ids :: "('g, 'e, 'a) action \<Rightarrow> ('s \<times> 'g, 'e, 'a) action" where
  "on_ids m w = (case m (snd w) of (r, g) \<Rightarrow> (r, (fst w, g)))"

definition query :: "('s \<Rightarrow> 'e + 'a) \<Rightarrow> ('s \<times> 'g, 'e, 'a) action" where
  "query f w = (f (fst w), w)"

definition draw ::
  "('s, 'g) commands \<Rightarrow> nat \<Rightarrow> ('s \<times> 'g, relation_error, int list) action" where
  "draw c n = on_ids (allocate_command_ids (c_ids c) n)"

definition prepare_create ::
  "('s, 'g) commands \<Rightarrow> propose_create_command
    \<Rightarrow> ('s \<times> 'g, relation_error, proposal_record) action" where
  "prepare_create c cmd =
     act_bind (act_pure (fail_if (\<not> can_create_or_tombstone (pc_principal cmd)) ErrForbidden)) (\<lambda>_.
     act_bind (act_pure (fail_if (\<not> valid_type (pc_type cmd)) ErrInvalidCommand)) (\<lambda>_.
     act_bind (act_pure (validate_content (c_codec c) (pc_source cmd) (pc_target cmd)
       (pc_guard cmd) (pc_selector cmd) (pc_transform cmd) (pc_confidence cmd)
       (pc_evidence cmd))) (\<lambda>(content, references).
     act_bind (act_pure (validate_metadata (pc_principal cmd) (pc_reason cmd)
       (pc_request_id cmd))) (\<lambda>(actor, reason, request_id).
     act_bind (draw c 4) (\<lambda>allocated.
     let rv = \<lparr>rv_id = allocated ! 1, rv_relation_id = allocated ! 0, rv_revision_no = 1,
               rv_kind = ProposalContent, rv_source = vc_source content,
               rv_target = vc_target content, rv_guard = vc_guard content,
               rv_selector = vc_selector content, rv_transform = vc_transform content,
               rv_confidence = vc_confidence content, rv_evidence = vc_evidence content,
               rv_actor = actor, rv_origin = pr_origin (pc_principal cmd), rv_reason = reason,
               rv_request_id = request_id, rv_expected = None, rv_created_at = c_now c\<rparr> in
     act_bind (act_pure (content_fingerprint c (pc_type cmd) rv)) (\<lambda>fingerprint.
     act_pure (Inr
       \<lparr>p_relation_id = allocated ! 0, p_version_id = allocated ! 1, p_event_id = allocated ! 2,
        p_audit_id = allocated ! 3, p_type = pc_type cmd, p_fingerprint = fingerprint,
        p_revision = rv, p_references = references\<rparr>)))))))"

definition propose_create ::
  "('s, 'g) commands \<Rightarrow> propose_create_command \<Rightarrow> ('s \<times> 'g, relation_error, relation) action" where
  "propose_create c cmd =
     act_bind (prepare_create c cmd)
       (\<lambda>p. on_repository (repo_propose_create (c_repository c) p))"

definition propose_revision ::
  "('s, 'g) commands \<Rightarrow> propose_revision_command \<Rightarrow> ('s \<times> 'g, relation_error, relation) action" where
  "propose_revision c cmd =
     act_bind (act_pure (fail_if (\<not> can_revise (pv_principal cmd)) ErrForbidden)) (\<lambda>_.
     act_bind (query (repo_get (c_repository c) (pv_relation_id cmd))) (\<lambda>current.
     act_bind (act_pure (require_revision (c_codec c) current (pv_expected cmd))) (\<lambda>_.
     act_bind (act_pure (fail_if (r_type current = TypeDeclaredForeignKey) ErrForbidden)) (\<lambda>_.
     act_bind (act_pure (fail_if (r_proposed current \<noteq> None) ErrPendingProposal)) (\<lambda>_.
     act_bind (act_pure (validate_content (c_codec c) (pv_source cmd) (pv_target cmd)
       (pv_guard cmd) (pv_selector cmd) (pv_transform cmd) (pv_confidence cmd)
       (pv_evidence cmd))) (\<lambda>(content, references).
     act_bind (act_pure (validate_metadata (pv_principal cmd) (pv_reason cmd)
       (pv_request_id cmd))) (\<lambda>(actor, reason, request_id).
     act_bind (draw c 3) (\<lambda>allocated.
     let rv = \<lparr>rv_id = allocated ! 0, rv_relation_id = pv_relation_id cmd,
               rv_revision_no = r_latest current + 1,
               rv_kind = ProposalContent, rv_source = vc_source content,
               rv_target = vc_target content, rv_guard = vc_guard content,
               rv_selector = vc_selector content, rv_transform = vc_transform content,
               rv_confidence = vc_confidence content, rv_evidence = vc_evidence content,
               rv_actor = actor, rv_origin = pr_origin (pv_principal cmd), rv_reason = reason,
               rv_request_id = request_id, rv_expected = Some (pv_expected cmd),
               rv_created_at = c_now c\<rparr> in
     act_bind (act_pure (content_fingerprint c (r_type current) rv)) (\<lambda>fingerprint.
     on_repository (repo_propose_revision (c_repository c)
       \<lparr>p_relation_id = 0, p_version_id = allocated ! 0, p_event_id = allocated ! 1,
        p_audit_id = allocated ! 2, p_type = r_type current, p_fingerprint = fingerprint,
        p_revision = rv, p_references = references\<rparr>))))))))))"

definition prepare_invalidation ::
  "('s, 'g) commands \<Rightarrow> propose_tombstone_command \<Rightarrow> proposal_kind
    \<Rightarrow> ('s \<times> 'g, relation_error, proposal_record) action" where
  "prepare_invalidation c cmd kind =
     act_bind (act_pure (fail_if (\<not> can_create_or_tombstone (pt_principal cmd)) ErrForbidden)) (\<lambda>_.
     act_bind (query (repo_get (c_repository c) (pt_relation_id cmd))) (\<lambda>current.
     act_bind (act_pure (require_revision (c_codec c) current (pt_expected cmd))) (\<lambda>_.
     act_bind (act_pure (fail_if (r_type current = TypeDeclaredForeignKey) ErrForbidden)) (\<lambda>_.
     act_bind (act_pure (fail_if (r_proposed current \<noteq> None) ErrPendingProposal)) (\<lambda>_.
     act_bind (act_pure (case r_active current of
         None \<Rightarrow> Inl ErrInvalidTransition
       | Some active \<Rightarrow>
           if r_status current = StatusTombstoned \<or> r_status current = StatusStale
           then Inl ErrInvalidTransition else Inr active)) (\<lambda>active.
     act_bind (act_pure (validate_metadata (pt_principal cmd) (pt_reason cmd)
       (pt_request_id cmd))) (\<lambda>(actor, reason, request_id).
     act_bind (draw c 3) (\<lambda>allocated.
     let rv = (clone_revision (c_codec c) active)
              \<lparr>rv_id := allocated ! 0, rv_revision_no := r_latest current + 1, rv_kind := kind,
               rv_actor := actor, rv_origin := pr_origin (pt_principal cmd), rv_reason := reason,
               rv_request_id := request_id, rv_expected := Some (pt_expected cmd),
               rv_created_at := c_now c\<rparr>;
         references = references_for_revision rv in
     act_bind (act_pure (content_fingerprint c (r_type current) rv)) (\<lambda>fingerprint.
     act_pure (Inr
       \<lparr>p_relation_id = 0, p_version_id = allocated ! 0, p_event_id = allocated ! 1,
        p_audit_id = allocated ! 2, p_type = r_type current, p_fingerprint = fingerprint,
        p_revision = rv, p_references = references\<rparr>))))))))))"

definition prepare_tombstone ::
  "('s, 'g) commands \<Rightarrow> propose_tombstone_command
    \<Rightarrow> ('s \<times> 'g, relation_error, proposal_record) action" where
  "prepare_tombstone c cmd = prepare_invalidation c cmd ProposalTombstone"

definition prepare_stale ::
  "('s, 'g) commands \<Rightarrow> propose_tombstone_command
    \<Rightarrow> ('s \<times> 'g, relation_error, proposal_record) action" where
  "prepare_stale c cmd = prepare_invalidation c cmd ProposalStale"

definition propose_tombstone ::
  "('s, 'g) commands \<Rightarrow> propose_tombstone_command \<Rightarrow> ('s \<times> 'g, relation_error, relation) action" where
  "propose_tombstone c cmd =
     act_bind (prepare_tombstone c cmd)
       (\<lambda>p. on_repository (repo_propose_revision (c_repository c) p))"

definition review ::
  "('s, 'g) commands \<Rightarrow> review_command \<Rightarrow> ('s \<times> 'g, relation_error, relation) action" where
  "review c cmd =
     act_bind (act_pure (fail_if (\<not> can_review (rw_principal cmd)) ErrForbidden)) (\<lambda>_.
     act_bind (act_pure (fail_if (rw_relation_id cmd \<le> 0 \<or> rw_expected cmd \<le> 0
       \<or> (rw_decision cmd \<noteq> DecisionApprove \<and> rw_decision cmd \<noteq> DecisionReject))
       ErrInvalidCommand)) (\<lambda>_.
     act_bind (act_pure (validate_metadata (rw_principal cmd)
       (defaulted_review_reason (rw_decision cmd) (rw_reason cmd))
       (rw_request_id cmd))) (\<lambda>(actor, reason, request_id).
     act_bind (draw c 3) (\<lambda>allocated.
     on_repository (repo_review (c_repository c)
       \<lparr>w_relation_id = rw_relation_id cmd, w_expected = rw_expected cmd,
        w_decision = rw_decision cmd, w_event_id = allocated ! 0,
        w_superseded_event_id = allocated ! 1, w_audit_id = allocated ! 2,
        w_principal = \<lparr>pr_actor = actor, pr_role = pr_role (rw_principal cmd),
                       pr_origin = pr_origin (rw_principal cmd)\<rparr>,
        w_reason = reason, w_request_id = request_id, w_occurred_at = c_now c\<rparr>)))))"

definition change_state ::
  "('s, 'g) commands \<Rightarrow> change_state_command
    \<Rightarrow> (state_record \<Rightarrow> ('s, relation_error, relation) action)
    \<Rightarrow> ('s \<times> 'g, relation_error, relation) action" where
  "change_state c cmd change =
     act_bind (act_pure (fail_if (\<not> can_review (cs_principal cmd)) ErrForbidden)) (\<lambda>_.
     act_bind (act_pure (fail_if (cs_relation_id cmd \<le> 0 \<or> cs_expected cmd \<le> 0)
       ErrInvalidCommand)) (\<lambda>_.
     act_bind (act_pure (validate_metadata (cs_principal cmd) (cs_reason cmd)
       (cs_request_id cmd))) (\<lambda>(actor, reason, request_id).
     act_bind (draw c 2) (\<lambda>allocated.
     on_repository (change
       \<lparr>t_relation_id = cs_relation_id cmd, t_expected = cs_expected cmd,
        t_event_id = allocated ! 0, t_audit_id = allocated ! 1,
        t_principal = \<lparr>pr_actor = actor, pr_role = pr_role (cs_principal cmd),
                       pr_origin = pr_origin (cs_principal cmd)\<rparr>,
        t_reason = reason, t_request_id = request_id, t_occurred_at = c_now c\<rparr>)))))"

definition suppress ::
  "('s, 'g) commands \<Rightarrow> change_state_command \<Rightarrow> ('s \<times> 'g, relation_error, relation) action" where
  "suppress c cmd = change_state c cmd (repo_suppress (c_repository c))"

definition restore ::
  "('s, 'g) commands \<Rightarrow> change_state_command \<Rightarrow> ('s \<times> 'g, relation_error, relation) action" where
  "restore c cmd = change_state c cmd (repo_restore (c_repository c))"

definition get_relation :: "('s, 'g) commands \<Rightarrow> int \<Rightarrow> 's \<Rightarrow> relation_error + relation" where
  "get_relation c relation_id s =
     (if relation_id \<le> 0 then Inl ErrInvalidCommand
      else repo_get (c_repository c) relation_id s)"

definition list_proposals :: "('s, 'g) commands \<Rightarrow> int \<Rightarrow> 's \<Rightarrow> relation_error + relation list" where
  "list_proposals c n s =
     (if n < 1 \<or> n > 100 then Inl ErrInvalidCommand
      else repo_list_proposals (c_repository c) n s)"

end
