(* ===== verification/GoFloat.thy ===== *)
theory GoFloat
  imports Prelude "HOL-Library.Log_Nat"
begin

section \<open>Go's float64 arithmetic on moderate values\<close>

text \<open>
  A Go \<^verbatim>\<open>float64\<close> operation gives the exact result rounded to 53 significant bits, ties to
  even. The program only multiplies and divides confidences between 0 and 1 by 10000, so
  the exponent range (overflow, subnormal numbers) is left out: a product too small to be
  normal rounds to the integer 0 either way.
\<close>

definition floor_log2 :: "rat \<Rightarrow> int" where
  "floor_log2 q =
     (let (a, b) = quotient_of q; e = bitlen a - bitlen b in
      if 2 powi e \<le> q then e else e - 1)"

definition round_half_even :: "rat \<Rightarrow> int" where
  "round_half_even q =
     (let f = \<lfloor>q\<rfloor>; d = q - of_int f in
      if d < 1 / 2 then f else if d > 1 / 2 then f + 1 else if even f then f else f + 1)"

definition float64 :: "rat \<Rightarrow> rat" where
  "float64 q =
     (if q = 0 then 0
      else let s = 2 powi (52 - floor_log2 \<bar>q\<bar>) in
           sgn q * of_int (round_half_even (\<bar>q\<bar> * s)) / s)"

text \<open>\<^verbatim>\<open>math.Round\<close> rounds half away from zero.\<close>

definition go_round :: "rat \<Rightarrow> int" where
  "go_round q = (if q < 0 then - \<lfloor>- q + 1 / 2\<rfloor> else \<lfloor>q + 1 / 2\<rfloor>)"

subsection \<open>The rounding error\<close>

lemma round_half_even_error: "\<bar>of_int (round_half_even q) - q\<bar> \<le> 1 / 2"
proof -
  have "of_int \<lfloor>q\<rfloor> \<le> q" "q < of_int \<lfloor>q\<rfloor> + 1" by linarith+
  then show ?thesis by (auto simp: round_half_even_def Let_def)
qed

lemma powi_bounds:
  assumes "0 < (a::int)"
  shows "(2::rat) powi (bitlen a - 1) \<le> of_int a" "of_int a < (2::rat) powi bitlen a"
proof -
  have b: "2 ^ nat (bitlen a - 1) \<le> a \<and> a < 2 ^ nat (bitlen a)" "0 < bitlen a"
    using bitlen_bounds [OF assms] bitlen_eq_zero_iff [of a] bitlen_nonneg [of a] assms by auto
  have "of_int (2 ^ nat (bitlen a - 1)) \<le> (of_int a :: rat)"
    using b by (subst of_int_le_iff) simp
  then show "(2::rat) powi (bitlen a - 1) \<le> of_int a" using b by (simp add: power_int_def)
  have "of_int a < (of_int (2 ^ nat (bitlen a)) :: rat)"
    using b by (subst of_int_less_iff) simp
  then show "of_int a < (2::rat) powi bitlen a" using b by (simp add: power_int_def)
qed

lemma floor_log2_le:
  assumes "0 < q"
  shows "2 powi floor_log2 q \<le> q"
proof -
  obtain a b where q: "quotient_of q = (a, b)" by (cases "quotient_of q")
  then have b: "0 < b" and qq: "q = of_int a / of_int b"
    by (auto simp: quotient_of_denom_pos quotient_of_div)
  with assms have a: "0 < a" by (simp add: zero_less_divide_iff)
  have "(2::rat) powi (bitlen a - bitlen b - 1) * of_int b
      \<le> 2 powi (bitlen a - bitlen b - 1) * 2 powi bitlen b"
    using powi_bounds(2) [OF b] by (intro mult_left_mono) auto
  also have "\<dots> = 2 powi (bitlen a - 1)"
    by (simp flip: power_int_add)
  also have "\<dots> \<le> of_int a" by (rule powi_bounds(1) [OF a])
  finally have "(2::rat) powi (bitlen a - bitlen b - 1) \<le> q"
    using b by (simp add: qq field_simps)
  then show ?thesis
    by (auto simp: floor_log2_def q Let_def)
qed

lemma float64_error: "0 \<le> q \<Longrightarrow> \<bar>float64 q - q\<bar> \<le> q / 2 ^ 53"
proof (cases "q = 0")
  case False
  assume "0 \<le> q"
  with False have q: "0 < q" by simp
  define s :: rat where "s = 2 powi (52 - floor_log2 q)"
  have s: "0 < s" by (simp add: s_def)
  have "2 ^ 52 = 2 powi floor_log2 q * s"
    by (simp add: s_def flip: power_int_add)
  also have "\<dots> \<le> q * s" using floor_log2_le [OF q] s by (simp add: mult_right_mono)
  finally have large: "2 ^ 52 \<le> q * s" .
  have "float64 q = of_int (round_half_even (q * s)) / s"
    using q by (simp add: float64_def s_def Let_def)
  then have "float64 q - q = (of_int (round_half_even (q * s)) - q * s) / s"
    using s by (simp add: field_simps)
  then have "\<bar>float64 q - q\<bar> = \<bar>of_int (round_half_even (q * s)) - q * s\<bar> / s"
    using s by (simp add: abs_divide)
  also have "\<dots> \<le> (1 / 2) / s"
    using round_half_even_error [of "q * s"] s by (intro divide_right_mono) auto
  also have "\<dots> \<le> (q * s / 2 ^ 53) / s"
    using large s by (intro divide_right_mono) auto
  finally show ?thesis using s by simp
qed (simp add: float64_def)

lemma near_bounds:
  fixes x y :: rat
  shows "\<bar>x - y\<bar> \<le> e \<Longrightarrow> e \<le> e' \<Longrightarrow> x \<le> y + e' \<and> y - e' \<le> x"
  unfolding abs_le_iff by linarith

lemma go_round_near: "\<bar>q - of_int n\<bar> < 1 / 2 \<Longrightarrow> go_round q = n"
  unfolding go_round_def abs_less_iff by (cases "q < 0"; simp; linarith)

text \<open>
  A confidence read back from its basis points and written again gives the same basis
  points: the two roundings move it by less than half a point.
\<close>

lemma basis_points_stable:
  assumes "0 \<le> b" "b \<le> 10000"
  shows "go_round (float64 (float64 (of_int b / 10000) * 10000)) = b"
proof -
  define c :: rat where "c = of_int b / 10000"
  have c: "0 \<le> c" "c \<le> 1" using assms by (auto simp: c_def)
  have e1: "\<bar>float64 c - c\<bar> \<le> 1 / 2 ^ 53"
    using float64_error [OF c(1)] c(2) by (meson divide_right_mono order_trans zero_le_numeral zero_le_power)
  have nonneg: "0 \<le> float64 c"
  proof (cases "c = 0")
    case False
    have "c / 2 ^ 53 \<le> c" using c by simp
    then show ?thesis using float64_error [OF c(1)] by linarith
  qed (simp add: float64_def)
  have upper: "float64 c \<le> 2" using near_bounds [OF e1, of 1] c by simp
  define d where "d = float64 c * 10000"
  have d: "0 \<le> d" "d \<le> 20000" using nonneg upper by (auto simp: d_def)
  have e2: "\<bar>float64 d - d\<bar> \<le> 20000 / 2 ^ 53"
    using float64_error [OF d(1)] d(2) by (meson divide_right_mono order_trans zero_le_numeral zero_le_power)
  have e3: "\<bar>d - of_int b\<bar> \<le> 10000 / 2 ^ 53"
    using e1 by (simp add: d_def c_def abs_le_iff field_simps)
  then have "\<bar>float64 d - of_int b\<bar> < 1 / 2"
    using near_bounds [OF e2, of "1 / 8"] near_bounds [OF e3, of "1 / 8"]
    unfolding abs_less_iff by simp
  then show ?thesis unfolding d_def c_def by (rule go_round_near)
qed

lemma go_round_bounds:
  assumes "0 \<le> q" "q \<le> 1"
  shows "0 \<le> go_round (float64 (q * 10000))" "go_round (float64 (q * 10000)) \<le> 10000"
proof -
  define d where "d = q * 10000"
  have d: "0 \<le> d" "d \<le> 10000" using assms by (auto simp: d_def)
  have e: "\<bar>float64 d - d\<bar> \<le> 10000 / 2 ^ 53"
    using float64_error [OF d(1)] d(2) by (meson divide_right_mono order_trans zero_le_numeral zero_le_power)
  then have "- (1 / 2) < float64 d" "float64 d < 10000 + 1 / 2"
    using d near_bounds [OF e, of "1 / 4"] by simp_all
  then show "0 \<le> go_round (float64 (q * 10000))" "go_round (float64 (q * 10000)) \<le> 10000"
    unfolding d_def go_round_def by (simp_all, linarith+)
qed

end
