(* ===== verification/JsonEncode.thy ===== *)
theory JsonEncode
  imports Json
begin

section \<open>JSON bytes as Go's standard library writes them\<close>

text \<open>
  \<^verbatim>\<open>json.Marshal\<close> of strings, slices and structures of them, with the HTML escapes it has on
  by default, and what the parser of \<open>Json\<close> reads back: the value itself, when its strings
  are valid UTF-8. Other strings come back with each stray byte replaced.
\<close>

subsection \<open>Integers\<close>

text \<open>\<^verbatim>\<open>strconv.FormatInt(x, 10)\<close>, SQLite's \<^verbatim>\<open>CAST(x AS TEXT)\<close> and \<^verbatim>\<open>printf('%lld')\<close>.\<close>

fun decimal_digits :: "nat \<Rightarrow> string" where
  "decimal_digits n =
     (if n < 10 then [char_of (48 + n)] else decimal_digits (n div 10) @ [char_of (48 + n mod 10)])"

declare decimal_digits.simps [simp del]

definition int_text :: "int \<Rightarrow> string" where
  "int_text n = (if n < 0 then ''-'' @ decimal_digits (nat (- n)) else decimal_digits (nat n))"

lemma decimal_digits_nonempty: "decimal_digits n \<noteq> []"
  by (subst decimal_digits.simps) simp

lemma int_text_nonempty: "int_text n \<noteq> []"
  by (simp add: int_text_def decimal_digits_nonempty)

lemma decimal_digits_digits: "list_all is_digit (decimal_digits n)"
proof (induction n rule: decimal_digits.induct)
  case (1 n)
  moreover have "is_digit (char_of (48 + k))" if "k < 10" for k :: nat
    using that by (simp add: is_digit_def of_char_of)
  ultimately show ?case by (subst decimal_digits.simps) auto
qed

lemma decimal_value_digits: "decimal_value (decimal_digits n) = n"
proof (induction n rule: decimal_digits.induct)
  case (1 n)
  then show ?case by (subst decimal_digits.simps) (auto simp: decimal_value_def digit_value_def)
qed

lemma parse_int_text:
  assumes "- (2 ^ 63) \<le> n" "n < 2 ^ 63"
  shows "parse_int64 (int_text n) = Some n"
proof -
  obtain c s where c: "decimal_digits (nat n) = c # s"
    using decimal_digits_nonempty [of "nat n"] by (cases "decimal_digits (nat n)") auto
  then have "c \<noteq> CHR ''-''" "c \<noteq> CHR ''+''"
    using decimal_digits_digits [of "nat n"] by (auto simp: is_digit_def)
  then show ?thesis
    using assms c decimal_digits_nonempty [of "nat (- n)"] decimal_digits_digits [of "nat (- n)"]
      decimal_digits_digits [of "nat n"] decimal_value_digits [of "nat n"]
    by (auto simp: parse_int64_def int_text_def decimal_value_digits Let_def)
qed

subsection \<open>Strings\<close>

fun valid_utf8_fuel :: "nat \<Rightarrow> string \<Rightarrow> bool" where
  "valid_utf8_fuel k [] = True"
| "valid_utf8_fuel 0 (c # s) = False"
| "valid_utf8_fuel (Suc k) (c # s) =
     (utf8_width (c # s) \<noteq> 0 \<and> valid_utf8_fuel k (drop (utf8_width (c # s) - 1) s))"

definition valid_utf8 :: "string \<Rightarrow> bool" where
  "valid_utf8 s \<longleftrightarrow> valid_utf8_fuel (length s) s"

definition hex_digit :: "nat \<Rightarrow> char" where
  "hex_digit n = (if n < 10 then char_of (48 + n) else char_of (87 + n))"

text \<open>The escape of one byte below 128, or nothing when the byte is written as it is.\<close>

definition short_escape :: "char \<Rightarrow> char option" where
  "short_escape c =
     (if c = CHR 0x22 \<or> c = CHR 0x5C then Some c
      else if c = CHR 0x08 then Some (CHR ''b'')
      else if c = CHR 0x0C then Some (CHR ''f'')
      else if c = CHR 0x0A then Some (CHR ''n'')
      else if c = CHR 0x0D then Some (CHR ''r'')
      else if c = CHR 0x09 then Some (CHR ''t'')
      else None)"

definition ascii_escape :: "char \<Rightarrow> string option" where
  "ascii_escape c =
     (case short_escape c of
        Some x \<Rightarrow> Some [CHR 0x5C, x]
      | None \<Rightarrow>
          if byte c < 32 \<or> c = CHR ''<'' \<or> c = CHR ''>'' \<or> c = CHR ''&''
          then Some (CHR 0x5C # ''u00'' @ [hex_digit (byte c div 16), hex_digit (byte c mod 16)])
          else None)"

text \<open>The line separators U+2028 and U+2029 are escaped, a stray byte becomes U+FFFD.\<close>

function json_escape :: "string \<Rightarrow> string" where
  "json_escape [] = []"
| "json_escape (c # s) =
     (if byte c < 128
      then (case ascii_escape c of None \<Rightarrow> [c] | Some e \<Rightarrow> e) @ json_escape s
      else
        (let w = utf8_width (c # s); rune = take w (c # s) in
         if w = 0 then CHR 0x5C # ''ufffd'' @ json_escape s
         else (if rune = [CHR 0xE2, CHR 0x80, CHR 0xA8] then CHR 0x5C # ''u2028''
               else if rune = [CHR 0xE2, CHR 0x80, CHR 0xA9] then CHR 0x5C # ''u2029''
               else rune) @ json_escape (drop (w - 1) s)))"
  by pat_completeness auto
termination
  by (relation "measure length") auto

declare json_escape.simps(2) [simp del]

definition json_string :: "string \<Rightarrow> string" where
  "json_string s = CHR 0x22 # json_escape s @ [CHR 0x22]"

lemma lex_string_quote [simp]: "lex_string (CHR 0x22 # s) = Some ([], s)"
  by (simp add: lex_string.simps(2))

lemma hex_value_digit: "n < 16 \<Longrightarrow> hex_value (hex_digit n) = Some n"
  by (cases "n < 10") (auto simp: hex_value_def hex_digit_def is_digit_def of_char_of)

lemma short_escape_simple: "short_escape c = Some x \<Longrightarrow> simple_escape x = Some c \<and> x \<noteq> CHR ''u''"
  by (auto simp: short_escape_def simple_escape_def split: if_splits)

lemma lex_hex_escape:
  assumes "byte c < 128"
  shows "lex_string (CHR 0x5C # ''u00'' @ [hex_digit (byte c div 16), hex_digit (byte c mod 16)] @ s)
    = prepend [c] (lex_string s)"
proof -
  have "hex_value CHR ''0'' = Some 0" by (simp add: hex_value_def is_digit_def)
  then have "hex4 (''00'' @ [hex_digit (byte c div 16), hex_digit (byte c mod 16)] @ s) = Some (byte c)"
    using assms by (simp add: hex4_def hex_value_digit)
  then have "unicode_escape (''00'' @ [hex_digit (byte c div 16), hex_digit (byte c mod 16)] @ s) = Some ([c], 4)"
    using assms by (simp add: unicode_escape_def utf8_encode_def)
  then show ?thesis by (simp add: lex_string.simps(2))
qed

lemma lex_ascii_escape:
  assumes "ascii_escape c = Some e" "byte c < 128"
  shows "lex_string (e @ s) = prepend [c] (lex_string s)"
proof (cases "short_escape c")
  case None
  with assms lex_hex_escape [of c s] show ?thesis by (auto simp: ascii_escape_def split: if_splits)
next
  case (Some x)
  with assms short_escape_simple [OF Some] show ?thesis by (auto simp: ascii_escape_def lex_string.simps(2))
qed

lemma short_escape_None: "short_escape c = None \<Longrightarrow> c \<noteq> CHR 0x22 \<and> c \<noteq> CHR 0x5C"
  by (auto simp: short_escape_def)

lemma lex_plain:
  assumes "byte c < 128" "ascii_escape c = None"
  shows "lex_string (c # s) = prepend [c] (lex_string s)"
  using assms short_escape_None [of c]
  by (auto simp: lex_string.simps(2) ascii_escape_def Let_def split: if_splits option.splits)

text \<open>A wide rune is copied, or escaped and read back.\<close>

lemma utf8_width_length: "utf8_width s \<le> length s"
  by (cases s) (auto simp: Let_def split: list.splits)

lemma utf8_width_take:
  assumes "utf8_width s \<noteq> 0"
  shows "utf8_width (take (utf8_width s) s @ t) = utf8_width s"
  using assms by (cases s) (auto simp: Let_def split: list.splits if_splits)

lemma lex_wide:
  assumes "128 \<le> byte c" "utf8_width (c # s) \<noteq> 0"
  shows "lex_string (take (utf8_width (c # s)) (c # s) @ t)
    = prepend (take (utf8_width (c # s)) (c # s)) (lex_string t)"
proof -
  define w where "w = utf8_width (c # s)"
  have w: "w \<noteq> 0" "w \<le> Suc (length s)" "utf8_width (take w (c # s) @ t) = w"
    using assms utf8_width_length [of "c # s"] utf8_width_take [of "c # s" t]
    by (simp_all add: w_def del: utf8_width.simps)
  then have split: "take w (c # s) @ t = c # take (w - 1) s @ t" by (cases w) simp_all
  have "c \<noteq> CHR 0x22" "c \<noteq> CHR 0x5C" using assms(1) by auto
  moreover have "utf8_width (c # take (w - 1) s @ t) = w" using w(3) split by simp
  moreover have "take w (c # take (w - 1) s @ t) = take w (c # s)" "drop (w - 1) (take (w - 1) s @ t) = t"
    using w(1,2) by (cases w; simp)+
  ultimately show ?thesis
    using w(1) assms(1) unfolding w_def [symmetric] split lex_string.simps(2)
    by (simp add: Let_def del: utf8_width.simps)
qed

lemma separators:
  "char_of (226 :: nat) = CHR 0xE2" "char_of (128 :: nat) = CHR 0x80"
  "char_of (168 :: nat) = CHR 0xA8" "char_of (169 :: nat) = CHR 0xA9"
  by code_simp+

lemma lex_json_escape:
  "valid_utf8_fuel k s \<Longrightarrow> lex_string (json_escape s @ CHR 0x22 # t) = Some (s, t)"
proof (induction k s rule: valid_utf8_fuel.induct)
  case (3 k c s)
  let ?w = "utf8_width (c # s)"
  have w: "?w \<noteq> 0" "?w \<le> Suc (length s)"
    using "3.prems" utf8_width_length [of "c # s"] by (auto simp del: utf8_width.simps)
  have IH: "lex_string (json_escape (drop (?w - 1) s) @ CHR 0x22 # t) = Some (drop (?w - 1) s, t)"
    using "3.IH" "3.prems" by (simp del: utf8_width.simps)
  show ?case
  proof (cases "byte c < 128")
    case True
    with IH show ?thesis
      by (auto simp: json_escape.simps(2) lex_plain lex_ascii_escape prepend_def split: option.splits)
  next
    case False
    have split: "take ?w (c # s) @ drop (?w - 1) s = c # s"
      using w by (cases "?w") (auto simp del: utf8_width.simps)
    have line: "lex_string (CHR 0x5C # ''u2028'' @ r) = prepend [CHR 0xE2, CHR 0x80, CHR 0xA8] (lex_string r)"
      "lex_string (CHR 0x5C # ''u2029'' @ r) = prepend [CHR 0xE2, CHR 0x80, CHR 0xA9] (lex_string r)" for r
      by (simp_all add: lex_string.simps(2) unicode_escape_def hex4_def hex_value_def is_digit_def
          utf8_encode_def separators)
    have "lex_string (json_escape (c # s) @ CHR 0x22 # t)
        = prepend (take ?w (c # s)) (lex_string (json_escape (drop (?w - 1) s) @ CHR 0x22 # t))"
      using False w lex_wide [of c s "json_escape (drop (?w - 1) s) @ CHR 0x22 # t"] line
      by (simp add: json_escape.simps(2) Let_def del: utf8_width.simps)
    with IH split show ?thesis by (simp add: prepend_def del: utf8_width.simps)
  qed
qed (simp_all add: json_escape.simps(1))

subsection \<open>Values\<close>

fun join_commas :: "string list \<Rightarrow> string" where
  "join_commas [] = []"
| "join_commas [x] = x"
| "join_commas (x # y # xs) = x @ '','' @ join_commas (y # xs)"

fun json_text :: "json \<Rightarrow> string" where
  "json_text JNull = ''null''"
| "json_text (JBool b) = (if b then ''true'' else ''false'')"
| "json_text (JNumber n) = n"
| "json_text (JString s) = json_string s"
| "json_text (JArray vs) = ''['' @ join_commas (map json_text vs) @ '']''"
| "json_text (JObject ms) =
     ''{'' @ join_commas (map (\<lambda>(key, v). json_string key @ '':'' @ json_text v) ms) @ ''}''"

text \<open>
  Values without numbers whose strings are valid UTF-8 and which fit the nesting limit when
  \<open>d\<close> arrays and objects are open.
\<close>

fun json_plain :: "nat \<Rightarrow> nat \<Rightarrow> json \<Rightarrow> bool" where
  "json_plain md d (JNumber n) = False"
| "json_plain md d (JString s) = valid_utf8 s"
| "json_plain md d (JArray vs) = (d < md \<and> list_all (json_plain md (Suc d)) vs)"
| "json_plain md d (JObject ms) =
     (d < md \<and> list_all (\<lambda>(key, v). valid_utf8 key \<and> json_plain md (Suc d) v) ms)"
| "json_plain md d _ = True"

lemma lex_json_string: "valid_utf8 s \<Longrightarrow> lex_string (json_escape s @ CHR 0x22 # t) = Some (s, t)"
  unfolding valid_utf8_def by (rule lex_json_escape)

lemma skip_space_plain: "\<not> is_json_space c \<Longrightarrow> skip_space (c # s) = c # s"
  by (simp add: skip_space_def)

lemma json_text_head:
  assumes "json_plain md d v"
  obtains c t where "json_text v = c # t" "\<not> is_json_space c" "c \<noteq> CHR '']''" "c \<noteq> CHR ''}''"
proof (cases v)
  case (JBool b)
  with that show ?thesis by (cases b) (auto simp: is_json_space_def)
qed (use assms in \<open>auto simp: is_json_space_def json_string_def intro: that\<close>)

lemma join_commas_Cons:
  "join_commas (x # xs) = x @ (if xs = [] then [] else CHR '','' # join_commas xs)"
  by (cases xs) simp_all

lemma parse_json_elements:
  assumes "vs \<noteq> []" "Suc (2 * length (join_commas (map json_text vs) @ CHR '']'' # r)) < k"
    and "\<And>v k r. v \<in> set vs \<Longrightarrow> 2 * length (json_text v @ r) < k
      \<Longrightarrow> parse_value k md d (json_text v @ r) = Parsed v r"
  shows "parse_elements k md d (join_commas (map json_text vs) @ CHR '']'' # r) = Parsed vs r"
  using assms
proof (induction vs arbitrary: k)
  case (Cons v vs)
  then obtain k' where k: "k = Suc k'" by (cases k) auto
  have spaces: "\<not> is_json_space (CHR '']'')" "\<not> is_json_space (CHR '','')" by (simp_all add: is_json_space_def)
  have "parse_value k' md d (json_text v @ s) = Parsed v s"
    if "2 * length (json_text v @ s) < k'" for s
    using Cons.prems(3) [of v s k'] that by simp
  then show ?case
    using Cons.prems(2) Cons.IH [of k'] Cons.prems(3) spaces
    by (auto simp: k join_commas_Cons skip_space_plain)
qed simp

lemma parse_json_members:
  assumes "ms \<noteq> []"
    and "Suc (2 * length (join_commas (map (\<lambda>(key, v). json_string key @ '':'' @ json_text v) ms)
      @ CHR ''}'' # r)) < k"
    and "\<And>key v. (key, v) \<in> set ms \<Longrightarrow> valid_utf8 key"
    and "\<And>key v k r. (key, v) \<in> set ms \<Longrightarrow> 2 * length (json_text v @ r) < k
      \<Longrightarrow> parse_value k md d (json_text v @ r) = Parsed v r"
  shows "parse_members k md d (join_commas (map (\<lambda>(key, v). json_string key @ '':'' @ json_text v) ms)
      @ CHR ''}'' # r) = Parsed ms r"
  using assms
proof (induction ms arbitrary: k)
  case (Cons m ms)
  obtain k' key v where k: "k = Suc k'" "m = (key, v)" using Cons.prems(2) by (cases k; cases m) auto
  let ?ms = "join_commas (map (\<lambda>(key, v). json_string key @ '':'' @ json_text v) ms)"
  have spaces: "\<not> is_json_space (CHR ''}'')" "\<not> is_json_space (CHR '','')" "\<not> is_json_space (CHR 0x22)"
    "\<not> is_json_space (CHR '':'')" by (simp_all add: is_json_space_def)
  have v: "parse_value k' md d (json_text v @ s) = Parsed v s"
    if "2 * length (json_text v @ s) < k'" for s
    using Cons.prems(4) [of key v s k'] that k by auto
  have key: "valid_utf8 key" using Cons.prems(3) [of key v] k by auto
  have rest: "parse_members k' md d (?ms @ CHR ''}'' # r) = Parsed ms r" if "ms \<noteq> []"
  proof (rule Cons.IH [OF that])
    show "Suc (2 * length (?ms @ CHR ''}'' # r)) < k'"
      using Cons.prems(2) that by (simp add: k join_commas_Cons)
  next
    fix key v k'' r'
    assume "(key, v) \<in> set ms"
    then have "(key, v) \<in> set (m # ms)" by simp
    note this [THEN Cons.prems(3)] this [THEN Cons.prems(4)]
    then show "valid_utf8 key"
      "2 * length (json_text v @ r') < k'' \<Longrightarrow> parse_value k'' md d (json_text v @ r') = Parsed v r'"
      by simp_all
  qed
  have "parse_value k' md d (json_text v @ (if ms = [] then [] else CHR '','' # ?ms) @ CHR ''}'' # r)
      = Parsed v ((if ms = [] then [] else CHR '','' # ?ms) @ CHR ''}'' # r)"
    using Cons.prems(2) by (intro v) (auto simp: k join_commas_Cons)
  then show ?case
    using key rest spaces
    by (cases "ms = []") (simp_all add: k join_commas_Cons skip_space_plain lex_json_string json_string_def)
qed simp

lemma parse_word_text:
  "0 < k \<Longrightarrow> parse_value k md d (json_text JNull @ r) = Parsed JNull r"
  "0 < k \<Longrightarrow> parse_value k md d (json_text (JBool b) @ r) = Parsed (JBool b) r"
  by (cases k; cases b; simp add: skip_space_plain is_json_space_def)+

theorem parse_json_text:
  "json_plain md d v \<Longrightarrow> 2 * length (json_text v @ r) < k
     \<Longrightarrow> parse_value k md d (json_text v @ r) = Parsed v r"
proof (induction md d v arbitrary: r k rule: json_plain.induct)
  case (2 md d s)
  then show ?case
    by (cases k) (simp_all add: json_string_def skip_space_plain is_json_space_def lex_json_string)
next
  case (3 md d vs)
  obtain k' where k: "k = Suc k'" using "3.prems" by (cases k) auto
  have head: "skip_space (CHR ''['' # s) = CHR ''['' # s" for s by (simp add: skip_space_plain is_json_space_def)
  show ?case
  proof (cases vs)
    case Nil
    with "3.prems" show ?thesis by (simp add: k head) (simp add: skip_space_plain is_json_space_def)
  next
    case (Cons v vs')
    then have "json_plain md (Suc d) v" using "3.prems" by simp
    then obtain c t where "json_text v = c # t" "\<not> is_json_space c" "c \<noteq> CHR '']''"
      by (rule json_text_head)
    moreover have "parse_elements k' md (Suc d) (join_commas (map json_text vs) @ CHR '']'' # r) = Parsed vs r"
    proof (rule parse_json_elements)
      show "vs \<noteq> []" using Cons by simp
      show "Suc (2 * length (join_commas (map json_text vs) @ CHR '']'' # r)) < k'"
        using "3.prems" by (simp add: k)
    next
      fix v k r
      assume "v \<in> set vs" "2 * length (json_text v @ r) < k"
      then show "parse_value k md (Suc d) (json_text v @ r) = Parsed v r"
        using "3.IH" [of v r k] "3.prems" by (auto simp: list_all_iff)
    qed
    ultimately show ?thesis
      using "3.prems" by (simp add: k head Cons join_commas_Cons skip_space_plain)
  qed
next
  case (4 md d ms)
  obtain k' where k: "k = Suc k'" using "4.prems" by (cases k) auto
  let ?ms = "join_commas (map (\<lambda>(key, v). json_string key @ '':'' @ json_text v) ms)"
  have head: "skip_space (CHR ''{'' # s) = CHR ''{'' # s" for s by (simp add: skip_space_plain is_json_space_def)
  show ?case
  proof (cases ms)
    case Nil
    with "4.prems" show ?thesis by (simp add: k head) (simp add: skip_space_plain is_json_space_def)
  next
    case (Cons m ms')
    have "parse_members k' md (Suc d) (?ms @ CHR ''}'' # r) = Parsed ms r"
    proof (rule parse_json_members)
      show "ms \<noteq> []" using Cons by simp
      show "Suc (2 * length (?ms @ CHR ''}'' # r)) < k'" using "4.prems" by (simp add: k)
    next
      fix key v
      assume "(key, v) \<in> set ms"
      then show "valid_utf8 key" using "4.prems" by (auto simp: list_all_iff)
    next
      fix key v k r
      assume "(key, v) \<in> set ms" "2 * length (json_text v @ r) < k"
      then show "parse_value k md (Suc d) (json_text v @ r) = Parsed v r"
        using "4.IH" [of "(key, v)" key v r k] "4.prems" by (auto simp: list_all_iff)
    qed
    moreover obtain t where "?ms @ CHR ''}'' # r = CHR 0x22 # t"
      using Cons by (cases m) (simp add: join_commas_Cons json_string_def)
    ultimately show ?thesis
      using "4.prems" by (simp add: k head skip_space_plain is_json_space_def)
  qed
qed (simp_all add: parse_word_text del: json_text.simps)

corollary json_parse_text: "json_plain 10000 0 v \<Longrightarrow> json_parse (json_text v) = Some v"
  using parse_json_text [of 10000 0 v "[]" "Suc (2 * length (json_text v))"]
  by (simp add: json_parse_def json_parse_depth_def skip_space_def)

end
