(* ===== verification/GoTime.thy ===== *)
theory GoTime
  imports JsonEncode
begin

section \<open>Times as text\<close>

text \<open>
  A \<^verbatim>\<open>time.Time\<close> in UTC is its nanoseconds since 1970, and \<open>rfc3339_nano\<close> is its text in the
  layout \<^verbatim>\<open>time.RFC3339Nano\<close>, which the program stores and which SQL compares: date, time
  and the nanoseconds without trailing zeros.
\<close>

text \<open>The proleptic Gregorian date of a day counted from 1970, by cycles of 400 years from March on.\<close>

definition civil_date :: "int \<Rightarrow> int \<times> int \<times> int" where
  "civil_date days =
     (let z = days + 719468; era = z div 146097; doe = z mod 146097;
          yoe = (doe - doe div 1460 + doe div 36524 - doe div 146096) div 365;
          doy = doe - (365 * yoe + yoe div 4 - yoe div 100);
          mp = (5 * doy + 2) div 153;
          month = (if mp < 10 then mp + 3 else mp - 9) in
      (yoe + era * 400 + (if month \<le> 2 then 1 else 0), month, doy - (153 * mp + 2) div 5 + 1))"

definition pad_zeros :: "nat \<Rightarrow> int \<Rightarrow> string" where
  "pad_zeros w n = (let s = int_text n in replicate (w - length s) (CHR ''0'') @ s)"

definition nine_digits :: "int \<Rightarrow> string" where
  "nine_digits n = map (\<lambda>i. char_of (48 + nat ((n div 10 ^ i) mod 10))) (rev [0..<9])"

definition time_tail :: "int \<Rightarrow> string" where
  "time_tail t =
     (let n = t mod 1000000000 in
      if n = 0 then ''Z''
      else ''.'' @ rev (dropWhile (\<lambda>c. c = CHR ''0'') (rev (nine_digits n))) @ ''Z'')"

definition rfc3339_nano :: "int \<Rightarrow> string" where
  "rfc3339_nano t =
     (let s = t div 1000000000; (y, m, d) = civil_date (s div 86400); clock = s mod 86400 in
      pad_zeros 4 y @ ''-'' @ pad_zeros 2 m @ ''-'' @ pad_zeros 2 d @ ''T''
      @ pad_zeros 2 (clock div 3600) @ '':'' @ pad_zeros 2 (clock div 60 mod 60) @ '':''
      @ pad_zeros 2 (clock mod 60) @ time_tail t)"

lemma rfc3339_nano_samples:
  "rfc3339_nano 0 = ''1970-01-01T00:00:00Z''"
  "rfc3339_nano 1709210096500000000 = ''2024-02-29T12:34:56.5Z''"
  by code_simp+

end
