(* ===== verification/RelationStore.thy ===== *)
theory RelationStore
  imports RelationCommands GoFloat GoTime
begin

section \<open>Relations in SQLite\<close>

text \<open>
  \<^verbatim>\<open>internal/platform/sqlite/relation_repository.go\<close> and
  \<^verbatim>\<open>relation_read_repository.go\<close> on a model of the tables of \<^verbatim>\<open>migrations/001_init.sql\<close>
  that they read and write. A table is the list of its rows in insertion order. The keys,
  the numeric \<^verbatim>\<open>CHECK\<close>s and the trigger on \<^verbatim>\<open>relation_current\<close> are conditions of the
  statements; everything else that SQLite may refuse a statement for (text lengths, foreign
  keys, a full disk, a commit that fails) is the argument \<open>engine\<close>. A refused statement is
  \<open>StorageFailure\<close>. Times are nanoseconds since the epoch; their text form matters only for
  the order of \<^verbatim>\<open>ListProposals\<close>.
\<close>

subsection \<open>Rows\<close>

record relation_row =
  rr_id :: int
  rr_type :: relation_type
  rr_fingerprint :: string
  rr_created_at :: int

record version_row =
  vr_id :: int
  vr_relation_id :: int
  vr_revision_no :: int
  vr_kind :: proposal_kind
  vr_confidence_bps :: int
  vr_guard :: "string option"
  vr_selector :: "string option"
  vr_transform :: string
  vr_fingerprint :: string
  vr_actor :: string
  vr_origin :: origin
  vr_reason :: string
  vr_request_id :: string
  vr_expected :: "int option"
  vr_created_at :: int

record evidence_row =
  er_version :: int
  er_ordinal :: int
  er_item :: evidence_input
  er_data_source :: "int option"
  er_scan_run :: "int option"

record current_row =
  cr_relation :: int
  cr_latest :: int
  cr_active :: "int option"
  cr_proposed :: "int option"
  cr_status :: relation_status
  cr_updated_at :: int

record effective_row =
  ee_relation :: int
  ee_version :: int
  ee_source :: int
  ee_target :: int
  ee_type :: relation_type
  ee_guard :: "string option"
  ee_selector :: "string option"
  ee_transform :: string
  ee_confidence_bps :: int
  ee_published_at :: int

record event_row =
  en_id :: int
  en_relation :: int
  en_version :: int
  en_type :: event_type
  en_actor :: string
  en_origin :: origin
  en_reason :: string
  en_request_id :: string
  en_expected :: "int option"
  en_occurred_at :: int

record suppression_row =
  sr_id :: int
  sr_relation :: int
  sr_version :: int
  sr_actor :: string
  sr_origin :: origin
  sr_reason :: string
  sr_request_id :: string
  sr_created_at :: int

record audit_row =
  ar_id :: int
  ar_actor :: string
  ar_origin :: origin
  ar_action :: string
  ar_subject :: int
  ar_reason :: string
  ar_request_id :: string
  ar_expected :: "int option"
  ar_revision_no :: int
  ar_occurred_at :: int

text \<open>
  \<open>endpoints_t\<close> and \<open>references_t\<close> hold (version, kind, node); \<open>declared_t\<close> holds (relation,
  is\_present) of the declared foreign keys; \<open>column_nodes\<close> are the nodes whose kind is column
  and whose current version is active.
\<close>

record db =
  relations_t :: "relation_row list"
  versions_t :: "version_row list"
  stale_t :: "int list"
  endpoints_t :: "(int \<times> int \<times> int) list"
  references_t :: "(int \<times> reference) list"
  evidence_t :: "evidence_row list"
  current_t :: "current_row list"
  effective_t :: "effective_row list"
  events_t :: "event_row list"
  suppressions_t :: "suppression_row list"
  audit_t :: "audit_row list"
  declared_t :: "(int \<times> bool) list"
  column_nodes :: "int list"

datatype statement =
    InsertRelation relation_row | InsertVersion version_row | InsertStale int
  | InsertEndpoint "int \<times> int \<times> int" | InsertReference "int \<times> reference"
  | InsertEvidence evidence_row | InsertCurrent current_row | UpdateCurrent current_row
  | InsertEffective effective_row | DeleteEffective int | InsertEvent event_row
  | InsertSuppression suppression_row | InsertAudit audit_row
  | EnterQueue | BeginTransaction | CommitTransaction | AwaitAnswer

type_synonym engine = "statement \<Rightarrow> bool"

definition exec ::
  "engine \<Rightarrow> statement \<Rightarrow> (db \<Rightarrow> bool) \<Rightarrow> (db \<Rightarrow> db) \<Rightarrow> db \<Rightarrow> relation_error + db" where
  "exec eng st allowed change d =
     (if eng st \<and> allowed d then Inr (change d) else Inl StorageFailure)"

lemma exec_Inr [result_simps]:
  "exec eng st allowed change d = Inr d' \<longleftrightarrow> eng st \<and> allowed d \<and> d' = change d"
  by (auto simp: exec_def)

subsection \<open>Statements\<close>

definition known_type :: "relation_type \<Rightarrow> bool" where
  "known_type t \<longleftrightarrow> t = TypeConditionalValueCopy \<or> t = TypeDeclaredForeignKey"

definition positive_expected :: "int option \<Rightarrow> bool" where
  "positive_expected e = (case e of None \<Rightarrow> True | Some n \<Rightarrow> n > 0)"

definition insert_relation_row :: "engine \<Rightarrow> relation_row \<Rightarrow> db \<Rightarrow> relation_error + db" where
  "insert_relation_row eng row =
     exec eng (InsertRelation row)
       (\<lambda>d. rr_id row > 0 \<and> known_type (rr_type row)
          \<and> rr_id row \<notin> set (map rr_id (relations_t d))
          \<and> rr_fingerprint row \<notin> set (map rr_fingerprint (relations_t d)))
       (\<lambda>d. d\<lparr>relations_t := relations_t d @ [row]\<rparr>)"

definition insert_version_row :: "engine \<Rightarrow> version_row \<Rightarrow> db \<Rightarrow> relation_error + db" where
  "insert_version_row eng row =
     exec eng (InsertVersion row)
       (\<lambda>d. vr_id row > 0 \<and> vr_revision_no row > 0 \<and> vr_kind row \<noteq> ProposalStale
          \<and> 0 \<le> vr_confidence_bps row \<and> vr_confidence_bps row \<le> 10000
          \<and> known_origin (vr_origin row) \<and> positive_expected (vr_expected row)
          \<and> vr_id row \<notin> set (map vr_id (versions_t d))
          \<and> (vr_relation_id row, vr_revision_no row)
               \<notin> set (map (\<lambda>v. (vr_relation_id v, vr_revision_no v)) (versions_t d)))
       (\<lambda>d. d\<lparr>versions_t := versions_t d @ [row]\<rparr>)"

definition insert_stale_row :: "engine \<Rightarrow> int \<Rightarrow> db \<Rightarrow> relation_error + db" where
  "insert_stale_row eng version =
     exec eng (InsertStale version) (\<lambda>d. version \<notin> set (stale_t d))
       (\<lambda>d. d\<lparr>stale_t := stale_t d @ [version]\<rparr>)"

definition insert_endpoint_row ::
  "engine \<Rightarrow> int \<times> int \<times> int \<Rightarrow> db \<Rightarrow> relation_error + db" where
  "insert_endpoint_row eng row =
     exec eng (InsertEndpoint row)
       (\<lambda>d. (fst row, fst (snd row)) \<notin> set (map (\<lambda>r. (fst r, fst (snd r))) (endpoints_t d)))
       (\<lambda>d. d\<lparr>endpoints_t := endpoints_t d @ [row]\<rparr>)"

definition insert_reference_row ::
  "engine \<Rightarrow> int \<times> reference \<Rightarrow> db \<Rightarrow> relation_error + db" where
  "insert_reference_row eng row =
     exec eng (InsertReference row) (\<lambda>d. row \<notin> set (references_t d))
       (\<lambda>d. d\<lparr>references_t := references_t d @ [row]\<rparr>)"

text \<open>The \<^verbatim>\<open>CHECK\<close> of \<^verbatim>\<open>relation_evidence\<close>: what code evidence and constraint evidence may hold.\<close>

definition evidence_check :: "evidence_row \<Rightarrow> bool" where
  "evidence_check row =
     (let e = er_item row in
      er_ordinal row > 0 \<and> ev_start_line e \<ge> 0 \<and> ev_end_line e \<ge> ev_start_line e
      \<and> (user_evidence_kind (ev_kind e) \<and> ev_repository e \<noteq> [] \<and> ev_commit e \<noteq> []
           \<and> ev_file e \<noteq> [] \<and> ev_start_line e > 0 \<and> er_data_source row = None
           \<and> ev_constraint_schema e = [] \<and> ev_constraint_name e = [] \<and> er_scan_run row = None
         \<or> ev_kind e = EvidenceDatabaseConstraint \<and> ev_repository e = [] \<and> ev_commit e = []
           \<and> ev_file e = [] \<and> ev_symbol e = [] \<and> ev_start_line e = 0 \<and> ev_end_line e = 0
           \<and> er_data_source row \<noteq> None \<and> ev_constraint_schema e \<noteq> []
           \<and> ev_constraint_name e \<noteq> [] \<and> er_scan_run row \<noteq> None))"

definition insert_evidence_row :: "engine \<Rightarrow> evidence_row \<Rightarrow> db \<Rightarrow> relation_error + db" where
  "insert_evidence_row eng row =
     exec eng (InsertEvidence row)
       (\<lambda>d. evidence_check row
          \<and> (er_version row, er_ordinal row)
               \<notin> set (map (\<lambda>e. (er_version e, er_ordinal e)) (evidence_t d)))
       (\<lambda>d. d\<lparr>evidence_t := evidence_t d @ [row]\<rparr>)"

text \<open>
  The negation of the \<^verbatim>\<open>WHEN\<close> of the two triggers \<^verbatim>\<open>relation_current_pair_check_insert\<close> and
  \<^verbatim>\<open>..._update\<close>. A comparison with NULL is not true, so it does not fire.
\<close>

definition version_exists :: "db \<Rightarrow> (version_row \<Rightarrow> bool) \<Rightarrow> bool" where
  "version_exists d p = list_ex p (versions_t d)"

definition pair_check :: "db \<Rightarrow> current_row \<Rightarrow> bool" where
  "pair_check d row \<longleftrightarrow>
     (cr_status row = StatusPending) = (cr_active row = None)
     \<and> version_exists d (\<lambda>v. vr_relation_id v = cr_relation row \<and> vr_revision_no v = cr_latest row)
     \<and> (case cr_active row of None \<Rightarrow> True
        | Some a \<Rightarrow> version_exists d (\<lambda>v. vr_id v = a \<and> vr_relation_id v = cr_relation row))
     \<and> (case cr_proposed row of None \<Rightarrow> True
        | Some p \<Rightarrow> version_exists d (\<lambda>v. vr_id v = p \<and> vr_relation_id v = cr_relation row
                     \<and> vr_revision_no v = cr_latest row))
     \<and> \<not> (cr_active row \<noteq> None \<and> cr_active row = cr_proposed row)
     \<and> (case cr_active row of None \<Rightarrow> True
        | Some a \<Rightarrow>
            (case cr_status row of
               StatusPending \<Rightarrow> True
             | StatusApproved \<Rightarrow> version_exists d (\<lambda>v. vr_id v = a \<and> vr_kind v = ProposalContent)
                 \<and> a \<notin> set (stale_t d)
             | StatusSuppressed \<Rightarrow> version_exists d (\<lambda>v. vr_id v = a \<and> vr_kind v = ProposalContent)
                 \<and> a \<notin> set (stale_t d)
             | StatusTombstoned \<Rightarrow> version_exists d (\<lambda>v. vr_id v = a \<and> vr_kind v = ProposalTombstone)
                 \<and> a \<notin> set (stale_t d)
             | StatusStale \<Rightarrow> version_exists d (\<lambda>v. vr_id v = a \<and> vr_kind v = ProposalTombstone)
                 \<and> a \<in> set (stale_t d)))"

definition insert_current_row :: "engine \<Rightarrow> current_row \<Rightarrow> db \<Rightarrow> relation_error + db" where
  "insert_current_row eng row =
     exec eng (InsertCurrent row)
       (\<lambda>d. cr_latest row > 0 \<and> cr_relation row \<notin> set (map cr_relation (current_t d))
          \<and> pair_check d row)
       (\<lambda>d. d\<lparr>current_t := current_t d @ [row]\<rparr>)"

text \<open>\<^verbatim>\<open>UPDATE relation_current SET ... WHERE relation_id = ?\<close>; no row is no error.\<close>

definition find_current :: "db \<Rightarrow> int \<Rightarrow> current_row option" where
  "find_current d relation_id = find (\<lambda>c. cr_relation c = relation_id) (current_t d)"

definition update_current ::
  "engine \<Rightarrow> int \<Rightarrow> (current_row \<Rightarrow> current_row) \<Rightarrow> db \<Rightarrow> relation_error + db" where
  "update_current eng relation_id change d =
     (case find_current d relation_id of
        None \<Rightarrow> Inr d
      | Some c \<Rightarrow>
          exec eng (UpdateCurrent (change c))
            (\<lambda>d. cr_latest (change c) > 0 \<and> pair_check d (change c))
            (\<lambda>d. d\<lparr>current_t := map (\<lambda>x. if cr_relation x = relation_id then change x else x)
                      (current_t d)\<rparr>) d)"

definition insert_effective_row :: "engine \<Rightarrow> effective_row \<Rightarrow> db \<Rightarrow> relation_error + db" where
  "insert_effective_row eng row =
     exec eng (InsertEffective row)
       (\<lambda>d. known_type (ee_type row) \<and> 0 \<le> ee_confidence_bps row \<and> ee_confidence_bps row \<le> 10000
          \<and> ee_relation row \<notin> set (map ee_relation (effective_t d))
          \<and> ee_version row \<notin> set (map ee_version (effective_t d)))
       (\<lambda>d. d\<lparr>effective_t := effective_t d @ [row]\<rparr>)"

definition delete_effective :: "engine \<Rightarrow> int \<Rightarrow> db \<Rightarrow> relation_error + db" where
  "delete_effective eng relation_id =
     exec eng (DeleteEffective relation_id) (\<lambda>_. True)
       (\<lambda>d. d\<lparr>effective_t := filter (\<lambda>e. ee_relation e \<noteq> relation_id) (effective_t d)\<rparr>)"

definition insert_event_row :: "engine \<Rightarrow> event_row \<Rightarrow> db \<Rightarrow> relation_error + db" where
  "insert_event_row eng row =
     exec eng (InsertEvent row)
       (\<lambda>d. en_id row > 0 \<and> known_origin (en_origin row) \<and> positive_expected (en_expected row)
          \<and> en_id row \<notin> set (map en_id (events_t d))
          \<and> (en_actor row, en_origin row, en_request_id row, en_type row)
               \<notin> set (map (\<lambda>e. (en_actor e, en_origin e, en_request_id e, en_type e)) (events_t d)))
       (\<lambda>d. d\<lparr>events_t := events_t d @ [row]\<rparr>)"

definition insert_suppression_row :: "engine \<Rightarrow> suppression_row \<Rightarrow> db \<Rightarrow> relation_error + db" where
  "insert_suppression_row eng row =
     exec eng (InsertSuppression row)
       (\<lambda>d. sr_id row > 0 \<and> known_origin (sr_origin row)
          \<and> sr_id row \<notin> set (map sr_id (suppressions_t d)))
       (\<lambda>d. d\<lparr>suppressions_t := suppressions_t d @ [row]\<rparr>)"

definition insert_audit_row :: "engine \<Rightarrow> audit_row \<Rightarrow> db \<Rightarrow> relation_error + db" where
  "insert_audit_row eng row =
     exec eng (InsertAudit row)
       (\<lambda>d. ar_id row > 0 \<and> known_origin (ar_origin row)
          \<and> ar_id row \<notin> set (map ar_id (audit_t d)))
       (\<lambda>d. d\<lparr>audit_t := audit_t d @ [row]\<rparr>)"

subsection \<open>Transactions\<close>

text \<open>
  \<^verbatim>\<open>executeWrite\<close> runs an operation in a transaction: an error, of its beginning, of the
  operation or of the commit, leaves the tables as they were.
\<close>

definition execute_relation_write ::
  "engine \<Rightarrow> (db \<Rightarrow> relation_error + (relation \<times> db)) \<Rightarrow> (db, relation_error, relation) action" where
  "execute_relation_write eng operation d =
     (if \<not> eng BeginTransaction then (Inl StorageFailure, d)
      else case operation d of
             Inl e \<Rightarrow> (Inl e, d)
           | Inr (r, d') \<Rightarrow> if eng CommitTransaction then (Inr r, d') else (Inl StorageFailure, d))"

text \<open>
  \<^verbatim>\<open>Store.write\<close> hands the operation to the worker, unless the queue is full or the store
  closed, and waits for its answer or for the end of the caller's context (\<open>AwaitAnswer\<close> is
  refused). In that case the caller gets the error of the context although the operation is
  carried out, or was: what is done to the tables is what the worker does.
\<close>

definition transaction ::
  "engine \<Rightarrow> (db \<Rightarrow> relation_error + (relation \<times> db)) \<Rightarrow> (db, relation_error, relation) action" where
  "transaction eng operation d =
     (if \<not> eng EnterQueue then (Inl StorageFailure, d)
      else case execute_relation_write eng operation d of
             (answer, d') \<Rightarrow> (if eng AwaitAnswer then answer else Inl ContextEnded, d'))"

lemma transaction_Inr [result_simps]:
  "transaction eng operation d = (Inr r, d') \<longleftrightarrow>
     operation d = Inr (r, d') \<and> eng EnterQueue \<and> eng BeginTransaction \<and> eng CommitTransaction
     \<and> eng AwaitAnswer"
  by (auto simp: transaction_def execute_relation_write_def split: sum.splits prod.splits if_splits)

text \<open>The same engine, with a caller that waits.\<close>

definition awaited :: "engine \<Rightarrow> engine" where
  "awaited eng = eng(AwaitAnswer := True)"

lemma awaited_simps [simp]: "awaited eng AwaitAnswer" "st \<noteq> AwaitAnswer \<Longrightarrow> awaited eng st = eng st"
  by (simp_all add: awaited_def)

lemma transaction_Inl:
  "transaction eng operation d = (Inl e, d') \<Longrightarrow>
     d' = d \<or> e = ContextEnded \<and> (\<exists>r. transaction (awaited eng) operation d = (Inr r, d'))"
  by (auto simp: transaction_def execute_relation_write_def split: sum.splits prod.splits if_splits)

lemma exec_awaited: "st \<noteq> AwaitAnswer \<Longrightarrow> exec (awaited eng) st = exec eng st"
  by (simp add: exec_def fun_eq_iff)

lemma statements_awaited:
  "insert_relation_row (awaited eng) = insert_relation_row eng"
  "insert_version_row (awaited eng) = insert_version_row eng"
  "insert_stale_row (awaited eng) = insert_stale_row eng"
  "insert_endpoint_row (awaited eng) = insert_endpoint_row eng"
  "insert_reference_row (awaited eng) = insert_reference_row eng"
  "insert_evidence_row (awaited eng) = insert_evidence_row eng"
  "insert_current_row (awaited eng) = insert_current_row eng"
  "update_current (awaited eng) = update_current eng"
  "insert_effective_row (awaited eng) = insert_effective_row eng"
  "delete_effective (awaited eng) = delete_effective eng"
  "insert_event_row (awaited eng) = insert_event_row eng"
  "insert_suppression_row (awaited eng) = insert_suppression_row eng"
  "insert_audit_row (awaited eng) = insert_audit_row eng"
  by (simp_all add: fun_eq_iff exec_awaited insert_relation_row_def insert_version_row_def insert_stale_row_def
      insert_endpoint_row_def insert_reference_row_def insert_evidence_row_def insert_current_row_def
      update_current_def insert_effective_row_def delete_effective_def insert_event_row_def
      insert_suppression_row_def insert_audit_row_def cong: option.case_cong)

subsection \<open>Reading\<close>

definition endpoint_source :: int where "endpoint_source = 1"
definition endpoint_target :: int where "endpoint_target = 2"

definition find_endpoint :: "db \<Rightarrow> int \<Rightarrow> int \<Rightarrow> int option" where
  "find_endpoint d version kind =
     map_option (\<lambda>r. snd (snd r))
       (find (\<lambda>r. fst r = version \<and> fst (snd r) = kind) (endpoints_t d))"

definition load_evidence :: "db \<Rightarrow> int \<Rightarrow> evidence_input list" where
  "load_evidence d version =
     map (\<lambda>r. (er_item r)
            \<lparr>ev_data_source_id := (case er_data_source r of None \<Rightarrow> 0 | Some i \<Rightarrow> i),
             ev_scan_run_id := (case er_scan_run r of None \<Rightarrow> 0 | Some i \<Rightarrow> i)\<rparr>)
       (sort_key er_ordinal (filter (\<lambda>r. er_version r = version) (evidence_t d)))"

text \<open>A text column that does not decode is an error.\<close>

definition decode_column :: "('a \<Rightarrow> 'b option) \<Rightarrow> 'a \<Rightarrow> relation_error + 'b" where
  "decode_column decode text =
     (case decode text of None \<Rightarrow> Inl StorageFailure | Some x \<Rightarrow> Inr x)"

definition decode_optional :: "codec \<Rightarrow> string option \<Rightarrow> relation_error + boolean option" where
  "decode_optional cd column =
     (case column of None \<Rightarrow> Inr None
      | Some text \<Rightarrow> sbind (decode_column (unmarshal_boolean cd) text) (\<lambda>b. Inr (Some b)))"

definition load_relation_revision :: "codec \<Rightarrow> db \<Rightarrow> int \<Rightarrow> relation_error + revision" where
  "load_relation_revision cd d version =
     (case (find (\<lambda>v. vr_id v = version) (versions_t d),
            find_endpoint d version endpoint_source, find_endpoint d version endpoint_target) of
        (Some v, Some source, Some target) \<Rightarrow>
          sbind (decode_optional cd (vr_guard v)) (\<lambda>guard.
          sbind (decode_optional cd (vr_selector v)) (\<lambda>selector.
          sbind (decode_column (unmarshal_value cd) (vr_transform v)) (\<lambda>transform.
          Inr \<lparr>rv_id = vr_id v, rv_relation_id = vr_relation_id v,
               rv_revision_no = vr_revision_no v,
               rv_kind = (if version \<in> set (stale_t d) then ProposalStale else vr_kind v),
               rv_source = source, rv_target = target, rv_guard = guard, rv_selector = selector,
               rv_transform = transform,
               rv_confidence = Finite (float64 (of_int (vr_confidence_bps v) / 10000)),
               rv_evidence = load_evidence d version, rv_actor = vr_actor v,
               rv_origin = vr_origin v, rv_reason = vr_reason v,
               rv_request_id = vr_request_id v, rv_expected = vr_expected v,
               rv_created_at = vr_created_at v\<rparr>)))
      | _ \<Rightarrow> Inl StorageFailure)"

definition load_optional_revision ::
  "codec \<Rightarrow> db \<Rightarrow> int option \<Rightarrow> relation_error + revision option" where
  "load_optional_revision cd d version =
     (case version of None \<Rightarrow> Inr None
      | Some v \<Rightarrow> sbind (load_relation_revision cd d v) (\<lambda>rv. Inr (Some rv)))"

definition find_relation :: "db \<Rightarrow> int \<Rightarrow> relation_row option" where
  "find_relation d relation_id = find (\<lambda>r. rr_id r = relation_id) (relations_t d)"

definition load_relation :: "codec \<Rightarrow> db \<Rightarrow> int \<Rightarrow> relation_error + relation" where
  "load_relation cd d relation_id =
     (case (find_relation d relation_id, find_current d relation_id) of
        (Some r, Some c) \<Rightarrow>
          sbind (load_optional_revision cd d (cr_active c)) (\<lambda>active.
          sbind (load_optional_revision cd d (cr_proposed c)) (\<lambda>proposed.
          Inr \<lparr>r_id = rr_id r, r_type = rr_type r, r_latest = cr_latest c, r_status = cr_status c,
               r_active = active, r_proposed = proposed,
               r_effective = list_ex (\<lambda>e. ee_relation e = rr_id r) (effective_t d),
               r_created_at = rr_created_at r\<rparr>))
      | _ \<Rightarrow> Inl ErrRelationNotFound)"

text \<open>
  The text of a time is its date and seconds followed by \<open>time_tail\<close>: the nanoseconds without
  trailing zeros, and a Z. For the years that RFC 3339 covers, comparing the texts compares
  the seconds first and then the tails.
\<close>

definition order_by_updated_at :: "current_row list \<Rightarrow> current_row list" where
  "order_by_updated_at rows =
     sort_key (\<lambda>c. cr_updated_at c div 1000000000)
       (sort_key (\<lambda>c. time_tail (cr_updated_at c)) (sort_key cr_relation rows))"

definition list_stored_proposals :: "codec \<Rightarrow> int \<Rightarrow> db \<Rightarrow> relation_error + relation list" where
  "list_stored_proposals cd n d =
     map_result (load_relation cd d)
       (map cr_relation (take (nat n) (order_by_updated_at
         (filter (\<lambda>c. find_relation d (cr_relation c) \<noteq> None \<and> cr_proposed c \<noteq> None)
           (current_t d)))))"

subsection \<open>Writing a revision\<close>

definition stored_proposal_kind :: "proposal_kind \<Rightarrow> proposal_kind" where
  "stored_proposal_kind kind = (if kind = ProposalStale then ProposalTombstone else kind)"

definition audit_action_for_proposal :: "proposal_kind \<Rightarrow> string" where
  "audit_action_for_proposal kind =
     (case kind of
        ProposalTombstone \<Rightarrow> ''RELATION_TOMBSTONE_PROPOSED''
      | ProposalStale \<Rightarrow> ''RELATION_STALE_PROPOSED''
      | ProposalContent \<Rightarrow> ''RELATION_REVISION_PROPOSED'')"

text \<open>
  Go's conversion of a confidence that is no finite number is not defined by the language;
  such a confidence never passes the checks, and the model refuses it.
\<close>

definition confidence_bps :: "go_float \<Rightarrow> relation_error + int" where
  "confidence_bps c =
     (case c of Finite q \<Rightarrow> Inr (go_round (float64 (q * 10000))) | _ \<Rightarrow> Inl StorageFailure)"

definition encode_column :: "('a \<Rightarrow> 'b option) \<Rightarrow> 'a \<Rightarrow> relation_error + 'b" where
  "encode_column encode x =
     (case encode x of None \<Rightarrow> Inl StorageFailure | Some text \<Rightarrow> Inr text)"

definition marshal_optional_boolean :: "codec \<Rightarrow> boolean option \<Rightarrow> relation_error + string option" where
  "marshal_optional_boolean cd b =
     (case b of None \<Rightarrow> Inr None
      | Some e \<Rightarrow> sbind (encode_column (marshal_boolean cd) e) (\<lambda>text. Inr (Some text)))"

definition nullable_positive :: "int \<Rightarrow> int option" where
  "nullable_positive n = (if n \<le> 0 then None else Some n)"

definition evidence_row_of :: "int \<Rightarrow> nat \<times> evidence_input \<Rightarrow> evidence_row" where
  "evidence_row_of version item =
     \<lparr>er_version = version, er_ordinal = int (fst item) + 1, er_item = snd item,
      er_data_source = nullable_positive (ev_data_source_id (snd item)),
      er_scan_run = nullable_positive (ev_scan_run_id (snd item))\<rparr>"

text \<open>The range over the map of the two endpoints has no fixed order; source first here.\<close>

definition insert_relation_version ::
  "codec \<Rightarrow> engine \<Rightarrow> proposal_record \<Rightarrow> db \<Rightarrow> relation_error + db" where
  "insert_relation_version cd eng p d =
     (let rv = p_revision p; version = p_version_id p in
      sbind (marshal_optional_boolean cd (rv_guard rv)) (\<lambda>guard.
      sbind (marshal_optional_boolean cd (rv_selector rv)) (\<lambda>selector.
      sbind (encode_column (marshal_value cd) (rv_transform rv)) (\<lambda>transform.
      sbind (confidence_bps (rv_confidence rv)) (\<lambda>bps.
      sbind (insert_version_row eng
        \<lparr>vr_id = version, vr_relation_id = rv_relation_id rv, vr_revision_no = rv_revision_no rv,
         vr_kind = stored_proposal_kind (rv_kind rv), vr_confidence_bps = bps, vr_guard = guard,
         vr_selector = selector, vr_transform = transform, vr_fingerprint = p_fingerprint p,
         vr_actor = rv_actor rv, vr_origin = rv_origin rv, vr_reason = rv_reason rv,
         vr_request_id = rv_request_id rv, vr_expected = rv_expected rv,
         vr_created_at = rv_created_at rv\<rparr> d) (\<lambda>d.
      sbind (if rv_kind rv = ProposalStale then insert_stale_row eng version d else Inr d) (\<lambda>d.
      sbind (insert_endpoint_row eng (version, endpoint_source, rv_source rv) d) (\<lambda>d.
      sbind (insert_endpoint_row eng (version, endpoint_target, rv_target rv) d) (\<lambda>d.
      sbind (fold_result (\<lambda>r. insert_reference_row eng (version, r)) (p_references p) d) (\<lambda>d.
      fold_result (\<lambda>item. insert_evidence_row eng (evidence_row_of version item))
        (zip [0..<length (rv_evidence rv)] (rv_evidence rv)) d))))))))))"

text \<open>\<^verbatim>\<open>SELECT COUNT(*)\<close> over the nodes of a revision counts those that are active columns.\<close>

definition verify_relation_nodes ::
  "db \<Rightarrow> revision \<Rightarrow> reference list \<Rightarrow> relation_error + unit" where
  "verify_relation_nodes d rv references =
     (let nodes = remdups (rv_source rv # rv_target rv # map ref_node references) in
      fail_if (length (filter (\<lambda>n. n \<in> set (column_nodes d)) nodes) \<noteq> length nodes)
        ErrInvalidCommand)"

definition insert_effective_edge ::
  "codec \<Rightarrow> engine \<Rightarrow> int \<Rightarrow> relation_type \<Rightarrow> revision \<Rightarrow> int \<Rightarrow> db \<Rightarrow> relation_error + db" where
  "insert_effective_edge cd eng relation_id t rv published_at d =
     sbind (marshal_optional_boolean cd (rv_guard rv)) (\<lambda>guard.
     sbind (marshal_optional_boolean cd (rv_selector rv)) (\<lambda>selector.
     sbind (encode_column (marshal_value cd) (rv_transform rv)) (\<lambda>transform.
     sbind (confidence_bps (rv_confidence rv)) (\<lambda>bps.
     insert_effective_row eng
       \<lparr>ee_relation = relation_id, ee_version = rv_id rv, ee_source = rv_source rv,
        ee_target = rv_target rv, ee_type = t, ee_guard = guard, ee_selector = selector,
        ee_transform = transform, ee_confidence_bps = bps, ee_published_at = published_at\<rparr> d))))"

definition insert_relation_event ::
  "engine \<Rightarrow> int \<Rightarrow> int \<Rightarrow> int \<Rightarrow> event_type \<Rightarrow> string \<Rightarrow> origin \<Rightarrow> string \<Rightarrow> string
    \<Rightarrow> int option \<Rightarrow> int \<Rightarrow> db \<Rightarrow> relation_error + db" where
  "insert_relation_event eng event_id relation_id version t actor orig reason request_id
     expected occurred_at =
     insert_event_row eng
       \<lparr>en_id = event_id, en_relation = relation_id, en_version = version, en_type = t,
        en_actor = actor, en_origin = orig, en_reason = reason, en_request_id = request_id,
        en_expected = expected, en_occurred_at = occurred_at\<rparr>"

definition insert_relation_audit ::
  "engine \<Rightarrow> int \<Rightarrow> int \<Rightarrow> string \<Rightarrow> string \<Rightarrow> origin \<Rightarrow> string \<Rightarrow> string
    \<Rightarrow> int option \<Rightarrow> int \<Rightarrow> int \<Rightarrow> db \<Rightarrow> relation_error + db" where
  "insert_relation_audit eng audit_id relation_id action actor orig reason request_id
     expected revision_no occurred_at =
     insert_audit_row eng
       \<lparr>ar_id = audit_id, ar_actor = actor, ar_origin = orig, ar_action = action,
        ar_subject = relation_id, ar_reason = reason, ar_request_id = request_id,
        ar_expected = expected, ar_revision_no = revision_no, ar_occurred_at = occurred_at\<rparr>"

lemma inserts_awaited:
  "insert_relation_version cd (awaited eng) = insert_relation_version cd eng"
  "insert_effective_edge cd (awaited eng) = insert_effective_edge cd eng"
  "insert_relation_event (awaited eng) = insert_relation_event eng"
  "insert_relation_audit (awaited eng) = insert_relation_audit eng"
  by (simp_all add: fun_eq_iff insert_relation_version_def insert_effective_edge_def insert_relation_event_def
      insert_relation_audit_def statements_awaited cong: if_cong)

end
