(* ===== verification/RelationRepository.thy ===== *)
theory RelationRepository
  imports RelationStore
begin

section \<open>The operations of the relation repository\<close>

text \<open>
  Each operation is one transaction over the statements of \<^theory_text>\<open>RelationStore\<close>, in the order
  of the Go code. \<open>sqlite_repository\<close> collects them behind the interface that the commands
  use.
\<close>

definition revision_conflict :: "relation \<Rightarrow> relation_error" where
  "revision_conflict current = RevisionConflict (r_latest current) current"

definition insert_create_proposal ::
  "codec \<Rightarrow> engine \<Rightarrow> proposal_record \<Rightarrow> db \<Rightarrow> relation_error + (relation \<times> db)" where
  "insert_create_proposal cd eng p d =
     (let rv = p_revision p in
      sbind (fail_if (p_fingerprint p \<in> set (map rr_fingerprint (relations_t d)))
        ErrDuplicateRelation) (\<lambda>_.
      sbind (verify_relation_nodes d rv (p_references p)) (\<lambda>_.
      sbind (insert_relation_row eng
        \<lparr>rr_id = p_relation_id p, rr_type = p_type p, rr_fingerprint = p_fingerprint p,
         rr_created_at = rv_created_at rv\<rparr> d) (\<lambda>d.
      sbind (insert_relation_version cd eng p d) (\<lambda>d.
      sbind (insert_relation_event eng (p_event_id p) (p_relation_id p) (p_version_id p)
        EventProposed (rv_actor rv) (rv_origin rv) (rv_reason rv) (rv_request_id rv) None
        (rv_created_at rv) d) (\<lambda>d.
      sbind (insert_current_row eng
        \<lparr>cr_relation = p_relation_id p, cr_latest = 1, cr_active = None,
         cr_proposed = Some (p_version_id p), cr_status = StatusPending,
         cr_updated_at = rv_created_at rv\<rparr> d) (\<lambda>d.
      sbind (insert_relation_audit eng (p_audit_id p) (p_relation_id p) ''RELATION_PROPOSED''
        (rv_actor rv) (rv_origin rv) (rv_reason rv) (rv_request_id rv) None
        (rv_revision_no rv) (rv_created_at rv) d) (\<lambda>d.
      sbind (load_relation cd d (p_relation_id p)) (\<lambda>r. Inr (r, d))))))))))"

definition insert_revision_proposal ::
  "codec \<Rightarrow> engine \<Rightarrow> proposal_record \<Rightarrow> db \<Rightarrow> relation_error + (relation \<times> db)" where
  "insert_revision_proposal cd eng p d =
     (let rv = p_revision p in
      sbind (load_relation cd d (rv_relation_id rv)) (\<lambda>current.
      let expected = (case rv_expected rv of None \<Rightarrow> 0 | Some n \<Rightarrow> n) in
      sbind (fail_if (expected \<noteq> r_latest current) (revision_conflict current)) (\<lambda>_.
      sbind (fail_if (r_proposed current \<noteq> None) ErrPendingProposal) (\<lambda>_.
      sbind (fail_if (rv_revision_no rv \<noteq> r_latest current + 1) ErrInvalidCommand) (\<lambda>_.
      sbind (verify_relation_nodes d rv (p_references p)) (\<lambda>_.
      sbind (insert_relation_version cd eng p d) (\<lambda>d.
      sbind (insert_relation_event eng (p_event_id p) (r_id current) (p_version_id p)
        EventProposed (rv_actor rv) (rv_origin rv) (rv_reason rv) (rv_request_id rv)
        (rv_expected rv) (rv_created_at rv) d) (\<lambda>d.
      sbind (update_current eng (r_id current)
        (\<lambda>c. c\<lparr>cr_latest := rv_revision_no rv, cr_proposed := Some (p_version_id p),
              cr_updated_at := rv_created_at rv\<rparr>) d) (\<lambda>d.
      sbind (insert_relation_audit eng (p_audit_id p) (r_id current)
        (audit_action_for_proposal (rv_kind rv))
        (rv_actor rv) (rv_origin rv) (rv_reason rv) (rv_request_id rv) (rv_expected rv)
        (rv_revision_no rv) (rv_created_at rv) d) (\<lambda>d.
      sbind (load_relation cd d (r_id current)) (\<lambda>r. Inr (r, d))))))))))))"

definition review_event :: "decision \<Rightarrow> proposal_kind \<Rightarrow> event_type \<times> string" where
  "review_event decision kind =
     (if decision = DecisionApprove then
        (case kind of
           ProposalTombstone \<Rightarrow> (EventTombstoned, ''RELATION_TOMBSTONED'')
         | ProposalStale \<Rightarrow> (EventStale, ''RELATION_STALE'')
         | ProposalContent \<Rightarrow> (EventApproved, ''RELATION_APPROVED''))
      else (EventRejected, ''RELATION_REJECTED''))"

definition approved_status :: "proposal_kind \<Rightarrow> relation_status" where
  "approved_status kind =
     (case kind of ProposalTombstone \<Rightarrow> StatusTombstoned | ProposalStale \<Rightarrow> StatusStale
      | ProposalContent \<Rightarrow> StatusApproved)"

text \<open>\<^verbatim>\<open>current.Proposed.RevisionNo != record.ExpectedRevisionNo\<close> with a nil proposal refused first.\<close>

definition reviewed_proposal :: "relation \<Rightarrow> int \<Rightarrow> relation_error + revision" where
  "reviewed_proposal current expected =
     (case r_proposed current of
        None \<Rightarrow> Inl ErrInvalidTransition
      | Some proposed \<Rightarrow>
          if rv_revision_no proposed \<noteq> expected then Inl ErrInvalidTransition else Inr proposed)"

text \<open>The two branches of a review, from the event to the audit record.\<close>

definition reject_proposal ::
  "engine \<Rightarrow> review_record \<Rightarrow> relation \<Rightarrow> db \<Rightarrow> relation_error + db" where
  "reject_proposal eng w current =
     update_current eng (r_id current)
       (\<lambda>c. c\<lparr>cr_proposed := None, cr_updated_at := w_occurred_at w\<rparr>)"

definition approve_proposal ::
  "codec \<Rightarrow> engine \<Rightarrow> review_record \<Rightarrow> relation \<Rightarrow> revision \<Rightarrow> db \<Rightarrow> relation_error + db" where
  "approve_proposal cd eng w current proposed d =
     sbind (case r_active current of
         None \<Rightarrow> Inr d
       | Some active \<Rightarrow>
           insert_relation_event eng (w_superseded_event_id w) (r_id current) (rv_id active)
             EventSuperseded (pr_actor (w_principal w)) (pr_origin (w_principal w)) (w_reason w)
             (w_request_id w) (Some (w_expected w)) (w_occurred_at w) d) (\<lambda>d.
     let status = approved_status (rv_kind proposed) in
     sbind (update_current eng (r_id current)
       (\<lambda>c. c\<lparr>cr_active := cr_proposed c, cr_proposed := None, cr_status := status,
             cr_updated_at := w_occurred_at w\<rparr>) d) (\<lambda>d.
     sbind (delete_effective eng (r_id current) d) (\<lambda>d.
     if status = StatusApproved
     then insert_effective_edge cd eng (r_id current) (r_type current) proposed (w_occurred_at w) d
     else Inr d)))"

definition review_operation ::
  "codec \<Rightarrow> engine \<Rightarrow> review_record \<Rightarrow> db \<Rightarrow> relation_error + (relation \<times> db)" where
  "review_operation cd eng w d =
     sbind (load_relation cd d (w_relation_id w)) (\<lambda>current.
     sbind (fail_if (w_expected w \<noteq> r_latest current) (revision_conflict current)) (\<lambda>_.
     sbind (reviewed_proposal current (w_expected w)) (\<lambda>proposed.
     let (event_type, action) = review_event (w_decision w) (rv_kind proposed) in
     sbind (insert_relation_event eng (w_event_id w) (r_id current) (rv_id proposed)
       event_type (pr_actor (w_principal w)) (pr_origin (w_principal w)) (w_reason w)
       (w_request_id w) (Some (w_expected w)) (w_occurred_at w) d) (\<lambda>d.
     sbind (if w_decision w = DecisionReject then reject_proposal eng w current d
            else approve_proposal cd eng w current proposed d) (\<lambda>d.
     sbind (insert_relation_audit eng (w_audit_id w) (r_id current) action
       (pr_actor (w_principal w)) (pr_origin (w_principal w)) (w_reason w) (w_request_id w)
       (Some (w_expected w)) (w_expected w) (w_occurred_at w) d) (\<lambda>d.
     sbind (load_relation cd d (r_id current)) (\<lambda>r. Inr (r, d))))))))"

definition declared_foreign_key_is_present :: "db \<Rightarrow> int \<Rightarrow> bool" where
  "declared_foreign_key_is_present d relation_id =
     (case map_of (declared_t d) relation_id of None \<Rightarrow> False | Some present \<Rightarrow> present)"

text \<open>The guards of \<^verbatim>\<open>changeState\<close>, which yield the active revision.\<close>

definition changeable_active :: "db \<Rightarrow> relation \<Rightarrow> bool \<Rightarrow> relation_error + revision" where
  "changeable_active d current suppressing =
     (case r_active current of
        None \<Rightarrow> Inl ErrInvalidTransition
      | Some active \<Rightarrow>
          if r_status current = StatusTombstoned \<or> r_proposed current \<noteq> None
            \<or> (suppressing \<and> r_status current \<noteq> StatusApproved)
            \<or> (\<not> suppressing \<and> r_status current \<noteq> StatusSuppressed)
            \<or> (\<not> suppressing \<and> r_type current = TypeDeclaredForeignKey
                 \<and> \<not> declared_foreign_key_is_present d (r_id current))
          then Inl ErrInvalidTransition else Inr active)"

definition change_state_operation ::
  "codec \<Rightarrow> engine \<Rightarrow> bool \<Rightarrow> state_record \<Rightarrow> db \<Rightarrow> relation_error + (relation \<times> db)" where
  "change_state_operation cd eng suppressing t d =
     sbind (load_relation cd d (t_relation_id t)) (\<lambda>current.
     sbind (fail_if (t_expected t \<noteq> r_latest current) (revision_conflict current)) (\<lambda>_.
     sbind (changeable_active d current suppressing) (\<lambda>active.
     let status = (if suppressing then StatusSuppressed else StatusApproved);
         event_type = (if suppressing then EventSuppressed else EventRestored);
         action = (if suppressing then ''RELATION_SUPPRESSED'' else ''RELATION_RESTORED'') in
     sbind (if suppressing then insert_suppression_row eng
              \<lparr>sr_id = t_event_id t, sr_relation = r_id current, sr_version = rv_id active,
               sr_actor = pr_actor (t_principal t), sr_origin = pr_origin (t_principal t),
               sr_reason = t_reason t, sr_request_id = t_request_id t,
               sr_created_at = t_occurred_at t\<rparr> d
            else Inr d) (\<lambda>d.
     sbind (insert_relation_event eng (t_event_id t) (r_id current) (rv_id active)
       event_type (pr_actor (t_principal t)) (pr_origin (t_principal t)) (t_reason t)
       (t_request_id t) (Some (t_expected t)) (t_occurred_at t) d) (\<lambda>d.
     sbind (update_current eng (r_id current)
       (\<lambda>c. c\<lparr>cr_status := status, cr_updated_at := t_occurred_at t\<rparr>) d) (\<lambda>d.
     sbind (delete_effective eng (r_id current) d) (\<lambda>d.
     sbind (if suppressing then Inr d
            else insert_effective_edge cd eng (r_id current) (r_type current) active
                   (t_occurred_at t) d) (\<lambda>d.
     sbind (insert_relation_audit eng (t_audit_id t) (r_id current) action
       (pr_actor (t_principal t)) (pr_origin (t_principal t)) (t_reason t) (t_request_id t)
       (Some (t_expected t)) (t_expected t) (t_occurred_at t) d) (\<lambda>d.
     sbind (load_relation cd d (r_id current)) (\<lambda>r. Inr (r, d)))))))))))"

text \<open>The operations do not depend on whether their answer is awaited.\<close>

lemma decisions_awaited:
  "reject_proposal (awaited eng) = reject_proposal eng"
  "approve_proposal cd (awaited eng) = approve_proposal cd eng"
  by (simp_all add: fun_eq_iff reject_proposal_def approve_proposal_def statements_awaited inserts_awaited
      cong: if_cong option.case_cong)

lemma operations_awaited:
  "insert_create_proposal cd (awaited eng) = insert_create_proposal cd eng"
  "insert_revision_proposal cd (awaited eng) = insert_revision_proposal cd eng"
  "review_operation cd (awaited eng) = review_operation cd eng"
  "change_state_operation cd (awaited eng) = change_state_operation cd eng"
  by (simp_all add: fun_eq_iff insert_create_proposal_def insert_revision_proposal_def review_operation_def
      decisions_awaited change_state_operation_def statements_awaited inserts_awaited cong: if_cong)

definition sqlite_repository :: "codec \<Rightarrow> engine \<Rightarrow> db repository" where
  "sqlite_repository cd eng =
     \<lparr>repo_propose_create = (\<lambda>p. transaction eng (insert_create_proposal cd eng p)),
      repo_propose_revision = (\<lambda>p. transaction eng (insert_revision_proposal cd eng p)),
      repo_review = (\<lambda>w. transaction eng (review_operation cd eng w)),
      repo_suppress = (\<lambda>t. transaction eng (change_state_operation cd eng True t)),
      repo_restore = (\<lambda>t. transaction eng (change_state_operation cd eng False t)),
      repo_get = (\<lambda>relation_id d. load_relation cd d relation_id),
      repo_list_proposals = list_stored_proposals cd\<rparr>"

end
