(* ===== verification/RelationEffects.thy ===== *)
theory RelationEffects
  imports RelationRepository
begin

section \<open>What a successful operation writes\<close>

text \<open>
  Each operation of the repository, when it succeeds, makes one known change to the tables.
  The lemmas named \<open>..._effect\<close> state it as a record update; the invariants and the
  properties of the repository are read off them.
\<close>

subsection \<open>Lookups\<close>

lemma find_some_in: "find p xs = Some x \<Longrightarrow> x \<in> set xs \<and> p x"
  by (auto simp: find_Some_iff)

lemma find_append: "find p (xs @ ys) = (case find p xs of None \<Rightarrow> find p ys | Some x \<Rightarrow> Some x)"
  by (induction xs) auto

lemma find_key:
  "distinct (map key xs) \<Longrightarrow> x \<in> set xs \<Longrightarrow> find (\<lambda>y. key y = key x) xs = Some x"
proof (induction xs)
  case (Cons y ys)
  then show ?case by (cases "key y = key x") (auto simp: image_iff)
qed simp

lemma find_none_key: "find (\<lambda>y. key y = k) xs = None \<longleftrightarrow> k \<notin> set (map key xs)"
  by (auto simp: find_None_iff)

lemma find_map_update:
  assumes "\<And>x. key (change x) = key x"
  shows "find (\<lambda>x. key x = j) (map (\<lambda>x. if key x = i then change x else x) xs)
    = (if i = j then map_option change (find (\<lambda>x. key x = j) xs) else find (\<lambda>x. key x = j) xs)"
  by (induction xs) (auto simp: assms)

lemma find_current_relation: "find_current d i = Some c \<Longrightarrow> cr_relation c = i"
  by (auto simp: find_current_def dest: find_some_in)

lemma find_current_in: "find_current d i = Some c \<Longrightarrow> c \<in> set (current_t d)"
  by (auto simp: find_current_def dest: find_some_in)

subsection \<open>Statements\<close>

lemma update_current_Inr:
  assumes "update_current eng i change d = Inr d'" "find_current d i = Some c"
  shows "d' = d\<lparr>current_t := map (\<lambda>x. if cr_relation x = i then change x else x) (current_t d)\<rparr>"
    and "pair_check d (change c)" "cr_latest (change c) > 0"
  using assms by (auto simp: update_current_def result_simps)

lemma fold_insert_references:
  "fold_result (\<lambda>r. insert_reference_row eng (v, r)) rs d = Inr d' \<Longrightarrow>
     d' = d\<lparr>references_t := references_t d @ map (Pair v) rs\<rparr>"
proof (induction rs arbitrary: d)
  case (Cons r rs)
  then have "fold_result (\<lambda>r. insert_reference_row eng (v, r)) rs
      (d\<lparr>references_t := references_t d @ [(v, r)]\<rparr>) = Inr d'"
    by (auto simp: result_simps insert_reference_row_def [of eng "(v, r)"])
  then show ?case by (auto dest: Cons.IH)
qed simp

lemma fold_insert_evidence:
  "fold_result (\<lambda>item. insert_evidence_row eng (evidence_row_of v item)) items d = Inr d' \<Longrightarrow>
     d' = d\<lparr>evidence_t := evidence_t d @ map (evidence_row_of v) items\<rparr>"
proof (induction items arbitrary: d)
  case (Cons item items)
  then have "fold_result (\<lambda>item. insert_evidence_row eng (evidence_row_of v item)) items
      (d\<lparr>evidence_t := evidence_t d @ [evidence_row_of v item]\<rparr>) = Inr d'"
    by (auto simp: result_simps insert_evidence_row_def [of eng "evidence_row_of v item"])
  then show ?case by (auto dest: Cons.IH)
qed simp

lemma fold_insert_evidence_check:
  "fold_result (\<lambda>item. insert_evidence_row eng (evidence_row_of v item)) items d = Inr d' \<Longrightarrow>
     \<forall>item\<in>set items. evidence_check (evidence_row_of v item)"
  by (induction items arbitrary: d) (auto simp: result_simps insert_evidence_row_def)

subsection \<open>A revision\<close>

definition version_row_of ::
  "proposal_record \<Rightarrow> int \<Rightarrow> string option \<Rightarrow> string option \<Rightarrow> string \<Rightarrow> version_row" where
  "version_row_of p bps guard selector transform =
     (let rv = p_revision p in
      \<lparr>vr_id = p_version_id p, vr_relation_id = rv_relation_id rv,
       vr_revision_no = rv_revision_no rv, vr_kind = stored_proposal_kind (rv_kind rv),
       vr_confidence_bps = bps, vr_guard = guard, vr_selector = selector,
       vr_transform = transform, vr_fingerprint = p_fingerprint p, vr_actor = rv_actor rv,
       vr_origin = rv_origin rv, vr_reason = rv_reason rv, vr_request_id = rv_request_id rv,
       vr_expected = rv_expected rv, vr_created_at = rv_created_at rv\<rparr>)"

lemma version_row_of_simps [simp]:
  "vr_id (version_row_of p b g s t) = p_version_id p"
  "vr_relation_id (version_row_of p b g s t) = rv_relation_id (p_revision p)"
  "vr_revision_no (version_row_of p b g s t) = rv_revision_no (p_revision p)"
  "vr_kind (version_row_of p b g s t) = stored_proposal_kind (rv_kind (p_revision p))"
  "vr_confidence_bps (version_row_of p b g s t) = b" "vr_guard (version_row_of p b g s t) = g"
  "vr_selector (version_row_of p b g s t) = s" "vr_transform (version_row_of p b g s t) = t"
  by (simp_all add: version_row_of_def Let_def)

text \<open>The tables after the rows of a revision were added.\<close>

definition with_version :: "proposal_record \<Rightarrow> version_row \<Rightarrow> db \<Rightarrow> db" where
  "with_version p row d =
     (let rv = p_revision p; v = p_version_id p in
      d\<lparr>versions_t := versions_t d @ [row],
        stale_t := stale_t d @ (if rv_kind rv = ProposalStale then [v] else []),
        endpoints_t := endpoints_t d @ [(v, endpoint_source, rv_source rv), (v, endpoint_target, rv_target rv)],
        references_t := references_t d @ map (Pair v) (p_references p),
        evidence_t := evidence_t d
          @ map (evidence_row_of v) (zip [0..<length (rv_evidence rv)] (rv_evidence rv))\<rparr>)"

lemma with_version_simps [frame_simps]:
  "relations_t (with_version p row d) = relations_t d"
  "versions_t (with_version p row d) = versions_t d @ [row]"
  "stale_t (with_version p row d)
     = stale_t d @ (if rv_kind (p_revision p) = ProposalStale then [p_version_id p] else [])"
  "endpoints_t (with_version p row d) = endpoints_t d
     @ [(p_version_id p, endpoint_source, rv_source (p_revision p)),
        (p_version_id p, endpoint_target, rv_target (p_revision p))]"
  "references_t (with_version p row d) = references_t d @ map (Pair (p_version_id p)) (p_references p)"
  "current_t (with_version p row d) = current_t d"
  "effective_t (with_version p row d) = effective_t d"
  "events_t (with_version p row d) = events_t d"
  "suppressions_t (with_version p row d) = suppressions_t d"
  "audit_t (with_version p row d) = audit_t d"
  "declared_t (with_version p row d) = declared_t d"
  "column_nodes (with_version p row d) = column_nodes d"
  by (simp_all add: with_version_def Let_def)

lemma encode_column_Inr [result_simps]: "encode_column f x = Inr t \<longleftrightarrow> f x = Some t"
  by (simp add: encode_column_def split: option.splits)

lemma decode_column_Inr [result_simps]: "decode_column f x = Inr t \<longleftrightarrow> f x = Some t"
  by (simp add: decode_column_def split: option.splits)

lemma confidence_bps_Inr [result_simps]:
  "confidence_bps c = Inr b \<longleftrightarrow> (\<exists>q. c = Finite q \<and> b = go_round (float64 (q * 10000)))"
  by (auto simp: confidence_bps_def split: go_float.splits)

text \<open>What \<open>insert_relation_version\<close> requires of the row it writes.\<close>

definition row_encodes :: "codec \<Rightarrow> proposal_record \<Rightarrow> version_row \<Rightarrow> bool" where
  "row_encodes cd p row \<longleftrightarrow>
     (\<exists>bps guard selector transform.
        row = version_row_of p bps guard selector transform
        \<and> marshal_optional_boolean cd (rv_guard (p_revision p)) = Inr guard
        \<and> marshal_optional_boolean cd (rv_selector (p_revision p)) = Inr selector
        \<and> marshal_value cd (rv_transform (p_revision p)) = Some transform
        \<and> confidence_bps (rv_confidence (p_revision p)) = Inr bps
        \<and> 0 \<le> bps \<and> bps \<le> 10000)"

definition fresh_version :: "db \<Rightarrow> proposal_record \<Rightarrow> bool" where
  "fresh_version d p \<longleftrightarrow>
     p_version_id p > 0 \<and> rv_revision_no (p_revision p) > 0
     \<and> p_version_id p \<notin> set (map vr_id (versions_t d))
     \<and> (rv_relation_id (p_revision p), rv_revision_no (p_revision p))
          \<notin> set (map (\<lambda>v. (vr_relation_id v, vr_revision_no v)) (versions_t d))
     \<and> (\<forall>r\<in>set (endpoints_t d). fst r = p_version_id p
          \<longrightarrow> fst (snd r) \<noteq> endpoint_source \<and> fst (snd r) \<noteq> endpoint_target)"

lemma insert_relation_version_effect:
  assumes "insert_relation_version cd eng p d = Inr d'"
  shows "\<exists>row. d' = with_version p row d \<and> row_encodes cd p row \<and> fresh_version d p"
proof -
  let ?rv = "p_revision p" and ?v = "p_version_id p"
  from assms obtain guard selector transform bps d1 d2 d3 d4 d5 where
    enc: "marshal_optional_boolean cd (rv_guard ?rv) = Inr guard"
      "marshal_optional_boolean cd (rv_selector ?rv) = Inr selector"
      "marshal_value cd (rv_transform ?rv) = Some transform"
      "confidence_bps (rv_confidence ?rv) = Inr bps" and
    d1: "insert_version_row eng (version_row_of p bps guard selector transform) d = Inr d1" and
    d2: "(if rv_kind ?rv = ProposalStale then insert_stale_row eng ?v d1 else Inr d1) = Inr d2" and
    d3: "insert_endpoint_row eng (?v, endpoint_source, rv_source ?rv) d2 = Inr d3" and
    d4: "insert_endpoint_row eng (?v, endpoint_target, rv_target ?rv) d3 = Inr d4" and
    d5: "fold_result (\<lambda>r. insert_reference_row eng (?v, r)) (p_references p) d4 = Inr d5" and
    d6: "fold_result (\<lambda>item. insert_evidence_row eng (evidence_row_of ?v item))
        (zip [0..<length (rv_evidence ?rv)] (rv_evidence ?rv)) d5 = Inr d'"
    unfolding insert_relation_version_def Let_def version_row_of_def sbind_eq_Inr encode_column_Inr
    by blast
  have 1: "d1 = d\<lparr>versions_t := versions_t d @ [version_row_of p bps guard selector transform]\<rparr>"
    "?v > 0" "rv_revision_no ?rv > 0" "0 \<le> bps" "bps \<le> 10000"
    "?v \<notin> set (map vr_id (versions_t d))"
    "(rv_relation_id ?rv, rv_revision_no ?rv)
       \<notin> set (map (\<lambda>v. (vr_relation_id v, vr_revision_no v)) (versions_t d))"
    using d1 unfolding insert_version_row_def exec_Inr by auto
  have 2: "d2 = d1\<lparr>stale_t := stale_t d1 @ (if rv_kind ?rv = ProposalStale then [?v] else [])\<rparr>"
    using d2 unfolding insert_stale_row_def exec_Inr by (auto split: if_splits simp: exec_Inr)
  have 3: "d3 = d2\<lparr>endpoints_t := endpoints_t d2 @ [(?v, endpoint_source, rv_source ?rv)]\<rparr>"
    "\<forall>r\<in>set (endpoints_t d2). fst r = ?v \<longrightarrow> fst (snd r) \<noteq> endpoint_source"
    using d3 unfolding insert_endpoint_row_def exec_Inr by force+
  have 4: "d4 = d3\<lparr>endpoints_t := endpoints_t d3 @ [(?v, endpoint_target, rv_target ?rv)]\<rparr>"
    "\<forall>r\<in>set (endpoints_t d3). fst r = ?v \<longrightarrow> fst (snd r) \<noteq> endpoint_target"
    using d4 unfolding insert_endpoint_row_def exec_Inr by force+
  have "d' = with_version p (version_row_of p bps guard selector transform) d"
    using 1(1) 2 3(1) 4(1) fold_insert_references [OF d5] fold_insert_evidence [OF d6]
    by (simp add: with_version_def Let_def)
  moreover have "fresh_version d p"
    using 1 2 3 4 by (simp add: fresh_version_def)
  moreover have "row_encodes cd p (version_row_of p bps guard selector transform)"
    using enc 1(4,5) by (auto simp: row_encodes_def)
  ultimately show ?thesis by blast
qed

subsection \<open>Operations\<close>

lemma pair_check_cong:
  "versions_t d = versions_t d' \<Longrightarrow> stale_t d = stale_t d' \<Longrightarrow> pair_check d row = pair_check d' row"
  by (simp add: pair_check_def version_exists_def cong: option.case_cong relation_status.case_cong)

lemma pair_check_frame [frame_simps]:
  "pair_check (d\<lparr>events_t := es\<rparr>) row = pair_check d row"
  "pair_check (d\<lparr>audit_t := as\<rparr>) row = pair_check d row"
  "pair_check (d\<lparr>suppressions_t := ss\<rparr>) row = pair_check d row"
  "pair_check (d\<lparr>current_t := cs\<rparr>) row = pair_check d row"
  "pair_check (d\<lparr>effective_t := ees\<rparr>) row = pair_check d row"
  "pair_check (d\<lparr>relations_t := rs\<rparr>) row = pair_check d row"
  by (rule pair_check_cong; simp)+

lemma find_current_frame [frame_simps]:
  "find_current (d\<lparr>events_t := es\<rparr>) i = find_current d i"
  "find_current (d\<lparr>audit_t := as\<rparr>) i = find_current d i"
  "find_current (d\<lparr>suppressions_t := ss\<rparr>) i = find_current d i"
  "find_current (d\<lparr>effective_t := ees\<rparr>) i = find_current d i"
  "find_current (d\<lparr>relations_t := rs\<rparr>) i = find_current d i"
  "find_current (with_version p row d) i = find_current d i"
  by (simp_all add: find_current_def frame_simps)

text \<open>The event and the audit record that an operation appends.\<close>

definition event_row_of ::
  "int \<Rightarrow> int \<Rightarrow> int \<Rightarrow> event_type \<Rightarrow> principal \<Rightarrow> string \<Rightarrow> string \<Rightarrow> int option \<Rightarrow> int \<Rightarrow> event_row" where
  "event_row_of event_id relation_id version t who reason request_id expected occurred_at =
     \<lparr>en_id = event_id, en_relation = relation_id, en_version = version, en_type = t,
      en_actor = pr_actor who, en_origin = pr_origin who, en_reason = reason,
      en_request_id = request_id, en_expected = expected, en_occurred_at = occurred_at\<rparr>"

definition audit_row_of ::
  "int \<Rightarrow> int \<Rightarrow> string \<Rightarrow> principal \<Rightarrow> string \<Rightarrow> string \<Rightarrow> int option \<Rightarrow> int \<Rightarrow> int \<Rightarrow> audit_row" where
  "audit_row_of audit_id relation_id action who reason request_id expected revision_no occurred_at =
     \<lparr>ar_id = audit_id, ar_actor = pr_actor who, ar_origin = pr_origin who, ar_action = action,
      ar_subject = relation_id, ar_reason = reason, ar_request_id = request_id,
      ar_expected = expected, ar_revision_no = revision_no, ar_occurred_at = occurred_at\<rparr>"

lemma row_of_simps [simp]:
  "en_relation (event_row_of i rel v t who reason req ex now) = rel"
  "en_version (event_row_of i rel v t who reason req ex now) = v"
  "en_type (event_row_of i rel v t who reason req ex now) = t"
  "en_actor (event_row_of i rel v t who reason req ex now) = pr_actor who"
  "ar_id (audit_row_of i rel action who reason req ex n now) = i"
  "ar_subject (audit_row_of i rel action who reason req ex n now) = rel"
  "ar_action (audit_row_of i rel action who reason req ex n now) = action"
  "ar_actor (audit_row_of i rel action who reason req ex n now) = pr_actor who"
  "ar_origin (audit_row_of i rel action who reason req ex n now) = pr_origin who"
  "ar_reason (audit_row_of i rel action who reason req ex n now) = reason"
  "ar_request_id (audit_row_of i rel action who reason req ex n now) = req"
  "ar_revision_no (audit_row_of i rel action who reason req ex n now) = n"
  by (simp_all add: event_row_of_def audit_row_of_def)

lemma insert_relation_event_Inr:
  "insert_relation_event eng i rel v t (pr_actor who) (pr_origin who) reason req ex now d = Inr d' \<Longrightarrow>
     d' = d\<lparr>events_t := events_t d @ [event_row_of i rel v t who reason req ex now]\<rparr>"
  by (auto simp: insert_relation_event_def insert_event_row_def event_row_of_def result_simps)

lemma insert_relation_audit_Inr:
  "insert_relation_audit eng i rel action (pr_actor who) (pr_origin who) reason req ex n now d = Inr d' \<Longrightarrow>
     d' = d\<lparr>audit_t := audit_t d @ [audit_row_of i rel action who reason req ex n now]\<rparr>
     \<and> i \<notin> set (map ar_id (audit_t d))"
  by (auto simp: insert_relation_audit_def insert_audit_row_def audit_row_of_def result_simps)

text \<open>The author of a revision as a principal (its role is not stored).\<close>

definition author :: "revision \<Rightarrow> principal" where
  "author rv = \<lparr>pr_actor = rv_actor rv, pr_role = RoleViewer, pr_origin = rv_origin rv\<rparr>"

lemma author_simps: "rv_actor rv = pr_actor (author rv)" "rv_origin rv = pr_origin (author rv)"
  by (simp_all add: author_def)

definition created_current :: "proposal_record \<Rightarrow> current_row" where
  "created_current p =
     \<lparr>cr_relation = p_relation_id p, cr_latest = 1, cr_active = None,
      cr_proposed = Some (p_version_id p), cr_status = StatusPending,
      cr_updated_at = rv_created_at (p_revision p)\<rparr>"

definition created_relation :: "proposal_record \<Rightarrow> relation_row" where
  "created_relation p =
     \<lparr>rr_id = p_relation_id p, rr_type = p_type p, rr_fingerprint = p_fingerprint p,
      rr_created_at = rv_created_at (p_revision p)\<rparr>"

definition created_tables :: "proposal_record \<Rightarrow> version_row \<Rightarrow> db \<Rightarrow> db" where
  "created_tables p row d =
     (let rv = p_revision p in
      (with_version p row d)
        \<lparr>relations_t := relations_t d @ [created_relation p],
         events_t := events_t d @ [event_row_of (p_event_id p) (p_relation_id p) (p_version_id p)
           EventProposed (author rv) (rv_reason rv) (rv_request_id rv) None (rv_created_at rv)],
         current_t := current_t d @ [created_current p],
         audit_t := audit_t d @ [audit_row_of (p_audit_id p) (p_relation_id p) ''RELATION_PROPOSED''
           (author rv) (rv_reason rv) (rv_request_id rv) None (rv_revision_no rv)
           (rv_created_at rv)]\<rparr>)"

lemma with_version_relations:
  "with_version p row (d\<lparr>relations_t := rs\<rparr>) = (with_version p row d)\<lparr>relations_t := rs\<rparr>"
  "fresh_version (d\<lparr>relations_t := rs\<rparr>) p = fresh_version d p"
  by (simp_all add: with_version_def Let_def fresh_version_def)

lemma create_effect:
  assumes "insert_create_proposal cd eng p d = Inr (r, d')"
  shows "\<exists>row. d' = created_tables p row d \<and> row_encodes cd p row \<and> fresh_version d p
    \<and> p_relation_id p \<notin> set (map rr_id (relations_t d))
    \<and> p_fingerprint p \<notin> set (map rr_fingerprint (relations_t d))
    \<and> p_relation_id p > 0 \<and> known_type (p_type p)
    \<and> p_relation_id p \<notin> set (map cr_relation (current_t d))
    \<and> p_audit_id p \<notin> set (map ar_id (audit_t d))
    \<and> verify_relation_nodes d (p_revision p) (p_references p) = Inr ()
    \<and> pair_check (with_version p row d) (created_current p)
    \<and> load_relation cd d' (p_relation_id p) = Inr r"
proof -
  let ?rv = "p_revision p"
  from assms obtain d1 d2 d3 d4 where
    0: "p_fingerprint p \<notin> set (map rr_fingerprint (relations_t d))"
      "verify_relation_nodes d ?rv (p_references p) = Inr ()" and
    1: "insert_relation_row eng (created_relation p) d = Inr d1" and
    2: "insert_relation_version cd eng p d1 = Inr d2" and
    3: "insert_relation_event eng (p_event_id p) (p_relation_id p) (p_version_id p)
        EventProposed (rv_actor ?rv) (rv_origin ?rv) (rv_reason ?rv) (rv_request_id ?rv) None
        (rv_created_at ?rv) d2 = Inr d3" and
    4: "insert_current_row eng (created_current p) d3 = Inr d4" and
    5: "insert_relation_audit eng (p_audit_id p) (p_relation_id p) ''RELATION_PROPOSED''
        (rv_actor ?rv) (rv_origin ?rv) (rv_reason ?rv) (rv_request_id ?rv) None
        (rv_revision_no ?rv) (rv_created_at ?rv) d4 = Inr d'" and
    6: "load_relation cd d' (p_relation_id p) = Inr r"
    unfolding insert_create_proposal_def Let_def created_relation_def created_current_def
    by (auto simp: sbind_eq_Inr fail_if_eq_Inr)
  have d1: "d1 = d\<lparr>relations_t := relations_t d @ [created_relation p]\<rparr>"
    "p_relation_id p \<notin> set (map rr_id (relations_t d))" "p_relation_id p > 0" "known_type (p_type p)"
    using 1 by (auto simp: insert_relation_row_def result_simps created_relation_def)
  obtain row where d2: "d2 = with_version p row d1" "row_encodes cd p row" "fresh_version d1 p"
    using insert_relation_version_effect [OF 2] by blast
  note d3 = insert_relation_event_Inr [OF 3 [unfolded author_simps]]
  have d4: "d4 = d3\<lparr>current_t := current_t d3 @ [created_current p]\<rparr>"
    "p_relation_id p \<notin> set (map cr_relation (current_t d3))" "pair_check d3 (created_current p)"
    using 4 by (auto simp: insert_current_row_def result_simps created_current_def)
  note d5 = insert_relation_audit_Inr [OF 5 [unfolded author_simps]]
  show ?thesis
    using 0 d1 d2 d3 d4 d5 6
    by (intro exI [of _ row]) (simp add: created_tables_def Let_def with_version_relations frame_simps)
qed

lemma load_optional_Inr:
  "load_optional_revision cd d v = Inr x \<longleftrightarrow>
     (case v of None \<Rightarrow> x = None
      | Some i \<Rightarrow> \<exists>rv. load_relation_revision cd d i = Inr rv \<and> x = Some rv)"
  by (auto simp: load_optional_revision_def result_simps split: option.splits)

lemma load_relation_Inr:
  assumes "load_relation cd d i = Inr r"
  obtains rr c where "find_relation d i = Some rr" "find_current d i = Some c"
    "r_id r = i" "r_type r = rr_type rr" "r_latest r = cr_latest c" "r_status r = cr_status c"
    "load_optional_revision cd d (cr_active c) = Inr (r_active r)"
    "load_optional_revision cd d (cr_proposed c) = Inr (r_proposed r)"
    "r_effective r = list_ex (\<lambda>e. ee_relation e = i) (effective_t d)"
    "r_created_at r = rr_created_at rr" "rr_id rr = i" "cr_relation c = i"
proof -
  from assms obtain rr c where rc: "find_relation d i = Some rr" "find_current d i = Some c"
    by (auto simp: load_relation_def split: option.splits)
  then have ids: "rr_id rr = i" "cr_relation c = i"
    by (auto simp: find_relation_def find_current_def dest: find_some_in)
  from assms rc ids show thesis
    by (intro that [of rr c]) (auto simp: load_relation_def result_simps)
qed

lemma load_relation_revision_id:
  assumes "load_relation_revision cd d i = Inr rv"
  shows "rv_id rv = i \<and> (\<exists>v\<in>set (versions_t d). vr_id v = i \<and> rv_relation_id rv = vr_relation_id v
    \<and> rv_revision_no rv = vr_revision_no v)"
  using assms
  by (auto simp: load_relation_revision_def result_simps split: option.splits dest!: find_some_in)

definition updated_tables ::
  "int \<Rightarrow> (current_row \<Rightarrow> current_row) \<Rightarrow> event_row list \<Rightarrow> audit_row \<Rightarrow> db \<Rightarrow> db" where
  "updated_tables i change evs au d =
     d\<lparr>events_t := events_t d @ evs,
       current_t := map (\<lambda>x. if cr_relation x = i then change x else x) (current_t d),
       audit_t := audit_t d @ [au]\<rparr>"

definition revised_tables :: "proposal_record \<Rightarrow> version_row \<Rightarrow> db \<Rightarrow> db" where
  "revised_tables p row d =
     (let rv = p_revision p; i = rv_relation_id rv in
      updated_tables i
        (\<lambda>c. c\<lparr>cr_latest := rv_revision_no rv, cr_proposed := Some (p_version_id p),
              cr_updated_at := rv_created_at rv\<rparr>)
        [event_row_of (p_event_id p) i (p_version_id p) EventProposed (author rv)
           (rv_reason rv) (rv_request_id rv) (rv_expected rv) (rv_created_at rv)]
        (audit_row_of (p_audit_id p) i (audit_action_for_proposal (rv_kind rv)) (author rv)
           (rv_reason rv) (rv_request_id rv) (rv_expected rv) (rv_revision_no rv)
           (rv_created_at rv))
        (with_version p row d))"

lemma revise_effect:
  assumes "insert_revision_proposal cd eng p d = Inr (r, d')"
  shows "\<exists>row current c. d' = revised_tables p row d \<and> row_encodes cd p row \<and> fresh_version d p
    \<and> load_relation cd d (rv_relation_id (p_revision p)) = Inr current
    \<and> find_current d (rv_relation_id (p_revision p)) = Some c
    \<and> r_latest current = cr_latest c
    \<and> rv_revision_no (p_revision p) = cr_latest c + 1
    \<and> (case rv_expected (p_revision p) of None \<Rightarrow> 0 | Some n \<Rightarrow> n) = cr_latest c
    \<and> cr_proposed c = None
    \<and> p_audit_id p \<notin> set (map ar_id (audit_t d))
    \<and> verify_relation_nodes d (p_revision p) (p_references p) = Inr ()
    \<and> pair_check (with_version p row d)
        (c\<lparr>cr_latest := rv_revision_no (p_revision p), cr_proposed := Some (p_version_id p),
           cr_updated_at := rv_created_at (p_revision p)\<rparr>)
    \<and> load_relation cd d' (rv_relation_id (p_revision p)) = Inr r"
proof -
  let ?rv = "p_revision p" let ?i = "rv_relation_id ?rv"
  let ?change = "\<lambda>c. c\<lparr>cr_latest := rv_revision_no ?rv, cr_proposed := Some (p_version_id p),
              cr_updated_at := rv_created_at ?rv\<rparr>"
  from assms obtain current d1 d2 d3 where
    0: "load_relation cd d ?i = Inr current"
      "(case rv_expected ?rv of None \<Rightarrow> 0 | Some n \<Rightarrow> n) = r_latest current"
      "r_proposed current = None" "rv_revision_no ?rv = r_latest current + 1"
      "verify_relation_nodes d ?rv (p_references p) = Inr ()" and
    1: "insert_relation_version cd eng p d = Inr d1" and
    2: "insert_relation_event eng (p_event_id p) (r_id current) (p_version_id p)
        EventProposed (rv_actor ?rv) (rv_origin ?rv) (rv_reason ?rv) (rv_request_id ?rv)
        (rv_expected ?rv) (rv_created_at ?rv) d1 = Inr d2" and
    3: "update_current eng (r_id current) ?change d2 = Inr d3" and
    4: "insert_relation_audit eng (p_audit_id p) (r_id current) (audit_action_for_proposal (rv_kind ?rv))
        (rv_actor ?rv) (rv_origin ?rv) (rv_reason ?rv) (rv_request_id ?rv) (rv_expected ?rv)
        (rv_revision_no ?rv) (rv_created_at ?rv) d3 = Inr d'" and
    5: "load_relation cd d' (r_id current) = Inr r"
    unfolding insert_revision_proposal_def Let_def by (auto simp: sbind_eq_Inr fail_if_eq_Inr)
  obtain c where c: "find_current d ?i = Some c" "r_id current = ?i" "r_latest current = cr_latest c"
      "load_optional_revision cd d (cr_proposed c) = Inr (r_proposed current)"
    using load_relation_Inr [OF 0(1)] by metis
  then have proposed: "cr_proposed c = None"
    using 0(3) by (auto simp: load_optional_Inr split: option.splits)
  obtain row where d1: "d1 = with_version p row d" "row_encodes cd p row" "fresh_version d p"
    using insert_relation_version_effect [OF 1] by blast
  note d2 = insert_relation_event_Inr [OF 2 [unfolded author_simps]]
  have fc: "find_current d2 (r_id current) = Some c" using c d1 d2 by (simp add: frame_simps)
  note d3 = update_current_Inr [OF 3 fc]
  note d4 = insert_relation_audit_Inr [OF 4 [unfolded author_simps]]
  show ?thesis
    using 0 c proposed d1 d2 d3 d4 5
    by (intro exI [of _ row] exI [of _ current] exI [of _ c])
      (simp add: revised_tables_def updated_tables_def Let_def frame_simps)
qed

text \<open>An effective edge that publishes a revision.\<close>

definition edge_publishes ::
  "codec \<Rightarrow> int \<Rightarrow> relation_type \<Rightarrow> revision \<Rightarrow> int \<Rightarrow> effective_row \<Rightarrow> bool" where
  "edge_publishes cd i t rv published_at e \<longleftrightarrow>
     ee_relation e = i \<and> ee_version e = rv_id rv \<and> ee_source e = rv_source rv
     \<and> ee_target e = rv_target rv \<and> ee_type e = t \<and> ee_published_at e = published_at
     \<and> marshal_optional_boolean cd (rv_guard rv) = Inr (ee_guard e)
     \<and> marshal_optional_boolean cd (rv_selector rv) = Inr (ee_selector e)
     \<and> marshal_value cd (rv_transform rv) = Some (ee_transform e)
     \<and> confidence_bps (rv_confidence rv) = Inr (ee_confidence_bps e)"

lemma insert_effective_edge_Inr:
  "insert_effective_edge cd eng i t rv now d = Inr d' \<Longrightarrow>
     \<exists>e. d' = d\<lparr>effective_t := effective_t d @ [e]\<rparr> \<and> edge_publishes cd i t rv now e
       \<and> i \<notin> set (map ee_relation (effective_t d))"
  by (auto simp: insert_effective_edge_def sbind_eq_Inr encode_column_Inr insert_effective_row_def
      exec_Inr edge_publishes_def)

lemma delete_effective_Inr:
  "delete_effective eng i d = Inr d' \<Longrightarrow>
     d' = d\<lparr>effective_t := filter (\<lambda>e. ee_relation e \<noteq> i) (effective_t d)\<rparr>"
  by (auto simp: delete_effective_def exec_Inr)

text \<open>The edges of the other relations, then those of this one.\<close>

definition with_edges :: "int \<Rightarrow> effective_row list \<Rightarrow> db \<Rightarrow> db" where
  "with_edges i es d =
     d\<lparr>effective_t := filter (\<lambda>e. ee_relation e \<noteq> i) (effective_t d) @ es\<rparr>"

lemma publish_effect:
  assumes "delete_effective eng i d = Inr d1"
    and "(if publish then insert_effective_edge cd eng i t rv now d1 else Inr d1) = Inr d2"
  shows "\<exists>es. d2 = with_edges i es d
    \<and> (if publish then \<exists>e. es = [e] \<and> edge_publishes cd i t rv now e else es = [])"
proof -
  note d1 = delete_effective_Inr [OF assms(1)]
  show ?thesis
  proof (cases publish)
    case True
    then obtain e where "d2 = d1\<lparr>effective_t := effective_t d1 @ [e]\<rparr>" "edge_publishes cd i t rv now e"
      using assms(2) insert_effective_edge_Inr [of cd eng i t rv now d1 d2] by auto
    with d1 True show ?thesis by (intro exI [of _ "[e]"]) (simp add: with_edges_def)
  qed (use assms(2) d1 in \<open>simp add: with_edges_def\<close>)
qed

definition review_row :: "review_record \<Rightarrow> int \<Rightarrow> int \<Rightarrow> event_type \<Rightarrow> event_row" where
  "review_row w event_id version t =
     event_row_of event_id (w_relation_id w) version t (w_principal w) (w_reason w)
       (w_request_id w) (Some (w_expected w)) (w_occurred_at w)"

definition review_audit :: "review_record \<Rightarrow> string \<Rightarrow> audit_row" where
  "review_audit w action =
     audit_row_of (w_audit_id w) (w_relation_id w) action (w_principal w) (w_reason w)
       (w_request_id w) (Some (w_expected w)) (w_expected w) (w_occurred_at w)"

definition rejected_tables :: "review_record \<Rightarrow> revision \<Rightarrow> db \<Rightarrow> db" where
  "rejected_tables w proposed =
     updated_tables (w_relation_id w) (\<lambda>c. c\<lparr>cr_proposed := None, cr_updated_at := w_occurred_at w\<rparr>)
       [review_row w (w_event_id w) (rv_id proposed) EventRejected]
       (review_audit w ''RELATION_REJECTED'')"

definition approved_change :: "review_record \<Rightarrow> proposal_kind \<Rightarrow> current_row \<Rightarrow> current_row" where
  "approved_change w kind c =
     c\<lparr>cr_active := cr_proposed c, cr_proposed := None, cr_status := approved_status kind,
       cr_updated_at := w_occurred_at w\<rparr>"

definition approved_tables ::
  "review_record \<Rightarrow> relation \<Rightarrow> revision \<Rightarrow> effective_row list \<Rightarrow> db \<Rightarrow> db" where
  "approved_tables w current proposed es d =
     (let (event_type, action) = review_event (w_decision w) (rv_kind proposed) in
      with_edges (w_relation_id w) es
        (updated_tables (w_relation_id w) (approved_change w (rv_kind proposed))
          (review_row w (w_event_id w) (rv_id proposed) event_type
            # (case r_active current of None \<Rightarrow> []
               | Some active \<Rightarrow> [review_row w (w_superseded_event_id w) (rv_id active) EventSuperseded]))
          (review_audit w action) d))"

lemma review_effect:
  assumes "review_operation cd eng w d = Inr (r, d')"
  shows "\<exists>current proposed c i. load_relation cd d (w_relation_id w) = Inr current
    \<and> find_current d (w_relation_id w) = Some c
    \<and> r_latest current = cr_latest c \<and> w_expected w = cr_latest c
    \<and> r_proposed current = Some proposed \<and> rv_revision_no proposed = w_expected w
    \<and> cr_proposed c = Some i \<and> load_relation_revision cd d i = Inr proposed
    \<and> w_audit_id w \<notin> set (map ar_id (audit_t d))
    \<and> load_relation cd d' (w_relation_id w) = Inr r
    \<and> (if w_decision w = DecisionReject
       then d' = rejected_tables w proposed d
         \<and> pair_check d (c\<lparr>cr_proposed := None, cr_updated_at := w_occurred_at w\<rparr>)
       else \<exists>es. d' = approved_tables w current proposed es d
         \<and> pair_check d (approved_change w (rv_kind proposed) c)
         \<and> (if rv_kind proposed = ProposalContent
            then \<exists>e. es = [e] \<and> edge_publishes cd (w_relation_id w) (r_type current) proposed
                   (w_occurred_at w) e
            else es = []))"
proof -
  let ?i = "w_relation_id w"
  let ?who = "w_principal w"
  from assms obtain current proposed et action d1 d2 d3 where
    0: "load_relation cd d ?i = Inr current" "w_expected w = r_latest current"
      "reviewed_proposal current (w_expected w) = Inr proposed"
      "et = fst (review_event (w_decision w) (rv_kind proposed))"
      "action = snd (review_event (w_decision w) (rv_kind proposed))" and
    1: "insert_relation_event eng (w_event_id w) (r_id current) (rv_id proposed) et (pr_actor ?who)
        (pr_origin ?who) (w_reason w) (w_request_id w) (Some (w_expected w)) (w_occurred_at w) d = Inr d1" and
    2: "(if w_decision w = DecisionReject then reject_proposal eng w current d1
         else approve_proposal cd eng w current proposed d1) = Inr d2" and
    3: "insert_relation_audit eng (w_audit_id w) (r_id current) action (pr_actor ?who)
        (pr_origin ?who) (w_reason w) (w_request_id w) (Some (w_expected w)) (w_expected w)
        (w_occurred_at w) d2 = Inr d'" and
    4: "load_relation cd d' (r_id current) = Inr r"
    unfolding review_operation_def Let_def
    by (auto simp: sbind_eq_Inr fail_if_eq_Inr case_prod_beta)
  obtain c where c: "find_current d ?i = Some c" "r_id current = ?i" "r_latest current = cr_latest c"
      "load_optional_revision cd d (cr_proposed c) = Inr (r_proposed current)"
    using load_relation_Inr [OF 0(1)] by metis
  have proposed: "r_proposed current = Some proposed" "rv_revision_no proposed = w_expected w"
    using 0(3) by (auto simp: reviewed_proposal_def split: option.splits if_splits)
  with c(4) obtain i where i: "cr_proposed c = Some i" "load_relation_revision cd d i = Inr proposed"
    by (auto simp: load_optional_Inr split: option.splits)
  note d1 = insert_relation_event_Inr [OF 1]
  note d' = insert_relation_audit_Inr [OF 3]
  have fc: "find_current d1 ?i = Some c" using c d1 by (simp add: frame_simps)
  show ?thesis
  proof (cases "w_decision w = DecisionReject")
    case True
    with 2 c have "update_current eng ?i
        (\<lambda>c. c\<lparr>cr_proposed := None, cr_updated_at := w_occurred_at w\<rparr>) d1 = Inr d2"
      by (simp add: reject_proposal_def)
    note d2 = update_current_Inr [OF this fc]
    show ?thesis
      using True 0 c proposed i d1 d2 d' 4
      by (intro exI [of _ current] exI [of _ proposed] exI [of _ c] exI [of _ i])
        (auto simp: rejected_tables_def updated_tables_def review_row_def review_audit_def
          review_event_def frame_simps)
  next
    case False
    with 2 obtain d4 d5 d6 where
      a: "(case r_active current of None \<Rightarrow> Inr d1
          | Some active \<Rightarrow> insert_relation_event eng (w_superseded_event_id w) (r_id current)
              (rv_id active) EventSuperseded (pr_actor ?who) (pr_origin ?who) (w_reason w)
              (w_request_id w) (Some (w_expected w)) (w_occurred_at w) d1) = Inr d4" and
      b: "update_current eng (r_id current) (approved_change w (rv_kind proposed)) d4 = Inr d5" and
      c': "delete_effective eng (r_id current) d5 = Inr d6" and
      e: "(if approved_status (rv_kind proposed) = StatusApproved
          then insert_effective_edge cd eng (r_id current) (r_type current) proposed (w_occurred_at w) d6
          else Inr d6) = Inr d2"
      unfolding approve_proposal_def approved_change_def Let_def by (auto simp: sbind_eq_Inr)
    have d4: "d4 = d1\<lparr>events_t := events_t d1 @ (case r_active current of None \<Rightarrow> []
        | Some active \<Rightarrow> [review_row w (w_superseded_event_id w) (rv_id active) EventSuperseded])\<rparr>"
      using a c(2) by (cases "r_active current") (auto dest!: insert_relation_event_Inr simp: review_row_def)
    have fc4: "find_current d4 (r_id current) = Some c" using fc d4 c by (simp add: frame_simps)
    note d5 = update_current_Inr [OF b fc4]
    obtain es where es: "d2 = with_edges (r_id current) es d5"
      "if approved_status (rv_kind proposed) = StatusApproved
       then \<exists>e. es = [e] \<and> edge_publishes cd (r_id current) (r_type current) proposed (w_occurred_at w) e
       else es = []"
      using publish_effect [OF c' e] by blast
    have content: "approved_status (rv_kind proposed) = StatusApproved \<longleftrightarrow> rv_kind proposed = ProposalContent"
      by (cases "rv_kind proposed") (simp_all add: approved_status_def)
    have "d' = approved_tables w current proposed es d"
      using d' es(1) d5(1) d4 d1 c(2) 0(4,5)
      by (simp add: case_prod_beta approved_tables_def updated_tables_def with_edges_def review_row_def review_audit_def)
    moreover have "pair_check d (approved_change w (rv_kind proposed) c)"
      using d5(2) d4 d1 by (simp add: frame_simps)
    ultimately show ?thesis
      using False 0 c proposed i es(2) d' 4 d4 d5 d1
      unfolding content
      by (intro exI [of _ current] exI [of _ proposed] exI [of _ c] exI [of _ i])
        (auto simp: with_edges_def es(1))
  qed
qed

definition changed_row :: "bool \<Rightarrow> state_record \<Rightarrow> current_row \<Rightarrow> current_row" where
  "changed_row suppressing t c =
     c\<lparr>cr_status := (if suppressing then StatusSuppressed else StatusApproved),
       cr_updated_at := t_occurred_at t\<rparr>"

definition suppression_rows :: "bool \<Rightarrow> state_record \<Rightarrow> int \<Rightarrow> suppression_row list" where
  "suppression_rows suppressing t version =
     (if suppressing
      then [\<lparr>sr_id = t_event_id t, sr_relation = t_relation_id t, sr_version = version,
             sr_actor = pr_actor (t_principal t), sr_origin = pr_origin (t_principal t),
             sr_reason = t_reason t, sr_request_id = t_request_id t,
             sr_created_at = t_occurred_at t\<rparr>]
      else [])"

definition changed_tables ::
  "bool \<Rightarrow> state_record \<Rightarrow> int \<Rightarrow> effective_row list \<Rightarrow> db \<Rightarrow> db" where
  "changed_tables suppressing t version es d =
     with_edges (t_relation_id t) es
       (updated_tables (t_relation_id t) (changed_row suppressing t)
         [event_row_of (t_event_id t) (t_relation_id t) version
            (if suppressing then EventSuppressed else EventRestored) (t_principal t) (t_reason t)
            (t_request_id t) (Some (t_expected t)) (t_occurred_at t)]
         (audit_row_of (t_audit_id t) (t_relation_id t)
            (if suppressing then ''RELATION_SUPPRESSED'' else ''RELATION_RESTORED'')
            (t_principal t) (t_reason t) (t_request_id t) (Some (t_expected t)) (t_expected t)
            (t_occurred_at t))
         (d\<lparr>suppressions_t := suppressions_t d @ suppression_rows suppressing t version\<rparr>))"

lemma change_effect:
  assumes "change_state_operation cd eng suppressing t d = Inr (r, d')"
  shows "\<exists>current active c i es. load_relation cd d (t_relation_id t) = Inr current
    \<and> find_current d (t_relation_id t) = Some c
    \<and> r_latest current = cr_latest c \<and> t_expected t = cr_latest c
    \<and> r_active current = Some active \<and> cr_active c = Some i
    \<and> load_relation_revision cd d i = Inr active
    \<and> cr_proposed c = None
    \<and> cr_status c = (if suppressing then StatusApproved else StatusSuppressed)
    \<and> (\<not> suppressing \<and> r_type current = TypeDeclaredForeignKey
         \<longrightarrow> declared_foreign_key_is_present d (t_relation_id t))
    \<and> t_audit_id t \<notin> set (map ar_id (audit_t d))
    \<and> load_relation cd d' (t_relation_id t) = Inr r
    \<and> pair_check d (changed_row suppressing t c)
    \<and> d' = changed_tables suppressing t i es d
    \<and> (if suppressing then es = []
       else \<exists>e. es = [e] \<and> edge_publishes cd (t_relation_id t) (r_type current) active
              (t_occurred_at t) e)"
proof -
  let ?i = "t_relation_id t" and ?who = "t_principal t"
  from assms obtain current active d1 d2 d3 d4 d5 where
    0: "load_relation cd d ?i = Inr current" "t_expected t = r_latest current"
      "changeable_active d current suppressing = Inr active" and
    1: "(if suppressing then insert_suppression_row eng
              \<lparr>sr_id = t_event_id t, sr_relation = r_id current, sr_version = rv_id active,
               sr_actor = pr_actor ?who, sr_origin = pr_origin ?who,
               sr_reason = t_reason t, sr_request_id = t_request_id t,
               sr_created_at = t_occurred_at t\<rparr> d
            else Inr d) = Inr d1" and
    2: "insert_relation_event eng (t_event_id t) (r_id current) (rv_id active)
       (if suppressing then EventSuppressed else EventRestored) (pr_actor ?who) (pr_origin ?who)
       (t_reason t) (t_request_id t) (Some (t_expected t)) (t_occurred_at t) d1 = Inr d2" and
    3: "update_current eng (r_id current) (changed_row suppressing t) d2 = Inr d3" and
    4: "delete_effective eng (r_id current) d3 = Inr d4" and
    5: "(if \<not> suppressing then insert_effective_edge cd eng (r_id current) (r_type current) active
                   (t_occurred_at t) d4 else Inr d4) = Inr d5" and
    6: "insert_relation_audit eng (t_audit_id t) (r_id current)
        (if suppressing then ''RELATION_SUPPRESSED'' else ''RELATION_RESTORED'')
        (pr_actor ?who) (pr_origin ?who) (t_reason t) (t_request_id t)
        (Some (t_expected t)) (t_expected t) (t_occurred_at t) d5 = Inr d'" and
    7: "load_relation cd d' (r_id current) = Inr r"
    unfolding change_state_operation_def Let_def changed_row_def
    by (cases suppressing) (auto simp: sbind_eq_Inr fail_if_eq_Inr)
  obtain c where c: "find_current d ?i = Some c" "r_id current = ?i" "r_latest current = cr_latest c"
      "r_status current = cr_status c"
      "load_optional_revision cd d (cr_active c) = Inr (r_active current)"
      "load_optional_revision cd d (cr_proposed c) = Inr (r_proposed current)"
    using load_relation_Inr [OF 0(1)] by metis
  have guards: "r_active current = Some active" "r_proposed current = None"
      "r_status current = (if suppressing then StatusApproved else StatusSuppressed)"
      "\<not> suppressing \<and> r_type current = TypeDeclaredForeignKey
         \<longrightarrow> declared_foreign_key_is_present d ?i"
    using 0(3) c(2) by (auto simp: changeable_active_def split: option.splits if_splits)
  then obtain i where i: "cr_active c = Some i" "load_relation_revision cd d i = Inr active"
      and none: "cr_proposed c = None"
    using c(5,6) by (auto simp: load_optional_Inr split: option.splits)
  have id: "rv_id active = i" using load_relation_revision_id [OF i(2)] by simp
  have d1: "d1 = d\<lparr>suppressions_t := suppressions_t d @ suppression_rows suppressing t i\<rparr>"
    using 1 c(2) id by (cases suppressing) (auto simp: insert_suppression_row_def exec_Inr suppression_rows_def)
  note d2 = insert_relation_event_Inr [OF 2]
  have fc: "find_current d2 (r_id current) = Some c" using c d1 d2 by (simp add: frame_simps)
  note d3 = update_current_Inr [OF 3 fc]
  obtain es where es: "d5 = with_edges (r_id current) es d3"
      "if \<not> suppressing then \<exists>e. es = [e] \<and> edge_publishes cd (r_id current) (r_type current) active (t_occurred_at t) e
       else es = []"
    using publish_effect [OF 4 5] by blast
  note d' = insert_relation_audit_Inr [OF 6]
  have "d' = changed_tables suppressing t i es d"
    using d' es(1) d3(1) d2 d1 c(2) id
    by (simp add: changed_tables_def updated_tables_def with_edges_def)
  moreover have "pair_check d (changed_row suppressing t c)"
    using d3(2) d2 d1 by (simp add: frame_simps)
  ultimately show ?thesis
    using 0 c guards i none es(2) d' 7 es(1) d3 d2 d1
    by (intro exI [of _ current] exI [of _ active] exI [of _ c] exI [of _ i] exI [of _ es])
      (auto simp: with_edges_def)
qed

end
