(* ===== verification/RelationInvariant.thy ===== *)
theory RelationInvariant
  imports RelationEffects
begin

section \<open>The invariant of the relation tables\<close>

text \<open>
  Every relation has one current row, its revisions are numbered from 1 to the latest, the
  trigger's condition holds of every row at all times and not only when it was written, and
  a relation has an effective edge exactly when it is approved, with the content of its
  active version. The last part needs \<^verbatim>\<open>encoding/json\<close> to give back its own text:
  \<open>codec_stable\<close>.
\<close>

definition codec_stable :: "codec \<Rightarrow> bool" where
  "codec_stable cd \<longleftrightarrow>
     (\<forall>b text b'. marshal_boolean cd b = Some text \<and> unmarshal_boolean cd text = Some b'
        \<longrightarrow> marshal_boolean cd b' = Some text)
     \<and> (\<forall>v text v'. marshal_value cd v = Some text \<and> unmarshal_value cd text = Some v'
        \<longrightarrow> marshal_value cd v' = Some text)"

definition encoded_version :: "codec \<Rightarrow> version_row \<Rightarrow> bool" where
  "encoded_version cd v \<longleftrightarrow>
     (\<exists>b. marshal_optional_boolean cd b = Inr (vr_guard v))
     \<and> (\<exists>b. marshal_optional_boolean cd b = Inr (vr_selector v))
     \<and> (\<exists>x. marshal_value cd x = Some (vr_transform v))
     \<and> 0 \<le> vr_confidence_bps v \<and> vr_confidence_bps v \<le> 10000"

definition edges_of :: "db \<Rightarrow> int \<Rightarrow> effective_row list" where
  "edges_of d i = filter (\<lambda>e. ee_relation e = i) (effective_t d)"

definition revisions_of :: "db \<Rightarrow> int \<Rightarrow> int set" where
  "revisions_of d i = vr_revision_no ` {v \<in> set (versions_t d). vr_relation_id v = i}"

text \<open>An edge shows a version: same id, endpoints, condition texts and confidence.\<close>

definition edge_shows :: "db \<Rightarrow> int \<Rightarrow> effective_row \<Rightarrow> bool" where
  "edge_shows d i e \<longleftrightarrow>
     (\<exists>v\<in>set (versions_t d). vr_id v = i \<and> ee_version e = i
        \<and> ee_guard e = vr_guard v \<and> ee_selector e = vr_selector v
        \<and> ee_transform e = vr_transform v \<and> ee_confidence_bps e = vr_confidence_bps v
        \<and> (i, endpoint_source, ee_source e) \<in> set (endpoints_t d)
        \<and> (i, endpoint_target, ee_target e) \<in> set (endpoints_t d))"

definition row_ok :: "db \<Rightarrow> current_row \<Rightarrow> bool" where
  "row_ok d c \<longleftrightarrow>
     pair_check d c
     \<and> revisions_of d (cr_relation c) = {1..cr_latest c} \<and> 1 \<le> cr_latest c
     \<and> (if cr_status c = StatusApproved
        then \<exists>e i. edges_of d (cr_relation c) = [e] \<and> cr_active c = Some i \<and> edge_shows d i e
        else edges_of d (cr_relation c) = [])"

definition relation_ids :: "db \<Rightarrow> int list" where
  "relation_ids d = map rr_id (relations_t d)"

definition store_inv :: "codec \<Rightarrow> db \<Rightarrow> bool" where
  "store_inv cd d \<longleftrightarrow>
     distinct (relation_ids d) \<and> map cr_relation (current_t d) = relation_ids d
     \<and> distinct (map rr_fingerprint (relations_t d))
     \<and> distinct (map vr_id (versions_t d))
     \<and> distinct (map (\<lambda>v. (vr_relation_id v, vr_revision_no v)) (versions_t d))
     \<and> distinct (map ar_id (audit_t d))
     \<and> (\<forall>v\<in>set (versions_t d). vr_relation_id v \<in> set (relation_ids d) \<and> encoded_version cd v)
     \<and> set (stale_t d) \<subseteq> set (map vr_id (versions_t d))
     \<and> (\<forall>e\<in>set (effective_t d). ee_relation e \<in> set (relation_ids d))
     \<and> (\<forall>c\<in>set (current_t d). row_ok d c)"

definition empty_db :: "int list \<Rightarrow> (int \<times> bool) list \<Rightarrow> db" where
  "empty_db nodes declared =
     \<lparr>relations_t = [], versions_t = [], stale_t = [], endpoints_t = [], references_t = [],
      evidence_t = [], current_t = [], effective_t = [], events_t = [], suppressions_t = [],
      audit_t = [], declared_t = declared, column_nodes = nodes\<rparr>"

lemma store_inv_empty: "store_inv cd (empty_db nodes declared)"
  by (simp add: store_inv_def empty_db_def relation_ids_def)

subsection \<open>What the invariant gives\<close>

lemma store_inv_find_current:
  assumes "store_inv cd d" "c \<in> set (current_t d)"
  shows "find_current d (cr_relation c) = Some c"
  using assms find_key [of cr_relation "current_t d" c] by (simp add: store_inv_def find_current_def)

lemma store_inv_row: "store_inv cd d \<Longrightarrow> find_current d i = Some c \<Longrightarrow> row_ok d c"
  using find_current_in by (auto simp: store_inv_def)

lemma store_inv_version_unique:
  assumes "store_inv cd d" "v \<in> set (versions_t d)"
  shows "find (\<lambda>x. vr_id x = vr_id v) (versions_t d) = Some v"
  using assms find_key [of vr_id "versions_t d" v] by (simp add: store_inv_def)

text \<open>A loaded revision, published again, gives back the texts and the points of its version.\<close>

lemma codec_stable_boolean:
  "codec_stable cd \<Longrightarrow> marshal_boolean cd b = Some col \<Longrightarrow> unmarshal_boolean cd col = Some b' \<Longrightarrow>
     marshal_boolean cd b' = Some col"
  unfolding codec_stable_def by blast

lemma codec_stable_value:
  "codec_stable cd \<Longrightarrow> marshal_value cd v = Some col \<Longrightarrow> unmarshal_value cd col = Some v' \<Longrightarrow>
     marshal_value cd v' = Some col"
  unfolding codec_stable_def by blast

lemma decode_optional_stable:
  assumes "codec_stable cd" "marshal_optional_boolean cd b = Inr col"
    and "decode_optional cd col = Inr g" "marshal_optional_boolean cd g = Inr col'"
  shows "col' = col"
proof (cases col)
  case None
  then show ?thesis using assms(3,4) by (simp add: decode_optional_def marshal_optional_boolean_def)
next
  case (Some t)
  with assms(2) obtain b' where b': "marshal_boolean cd b' = Some t"
    by (auto simp: marshal_optional_boolean_def result_simps split: option.splits)
  obtain g' where g': "g = Some g'" "unmarshal_boolean cd t = Some g'"
    using Some assms(3) by (auto simp: decode_optional_def result_simps)
  show ?thesis
    using Some assms(4) g'(1) codec_stable_boolean [OF assms(1) b' g'(2)]
    by (simp add: marshal_optional_boolean_def sbind_eq_Inr encode_column_Inr)
qed

lemma published_text:
  assumes stable: "codec_stable cd" and inv: "\<forall>v\<in>set (versions_t d). encoded_version cd v"
    and load: "load_relation_revision cd d i = Inr rv" and pub: "edge_publishes cd r t rv now e"
  shows "edge_shows d i e"
proof -
  from load obtain v source target where
    v: "v \<in> set (versions_t d)" "vr_id v = i" and
    ends: "find_endpoint d i endpoint_source = Some source" "find_endpoint d i endpoint_target = Some target" and
    parts: "decode_optional cd (vr_guard v) = Inr (rv_guard rv)"
      "decode_optional cd (vr_selector v) = Inr (rv_selector rv)"
      "unmarshal_value cd (vr_transform v) = Some (rv_transform rv)"
      "rv_id rv = i" "rv_source rv = source" "rv_target rv = target"
      "rv_confidence rv = Finite (float64 (of_int (vr_confidence_bps v) / 10000))"
    by (auto simp: load_relation_revision_def result_simps split: option.splits dest!: find_some_in)
  have enc: "encoded_version cd v" using inv v(1) by blast
  then obtain bg bs bt where texts: "marshal_optional_boolean cd bg = Inr (vr_guard v)"
      "marshal_optional_boolean cd bs = Inr (vr_selector v)" "marshal_value cd bt = Some (vr_transform v)"
    by (auto simp: encoded_version_def)
  have published: "marshal_optional_boolean cd (rv_guard rv) = Inr (ee_guard e)"
    "marshal_optional_boolean cd (rv_selector rv) = Inr (ee_selector e)"
    "marshal_value cd (rv_transform rv) = Some (ee_transform e)"
    using pub by (simp_all add: edge_publishes_def)
  have "ee_guard e = vr_guard v" "ee_selector e = vr_selector v" "ee_transform e = vr_transform v"
    using decode_optional_stable [OF stable texts(1) parts(1) published(1)]
      decode_optional_stable [OF stable texts(2) parts(2) published(2)]
      codec_stable_value [OF stable texts(3) parts(3)] published(3)
    by simp_all
  moreover have "ee_confidence_bps e = vr_confidence_bps v"
    using pub parts enc basis_points_stable
    by (auto simp: edge_publishes_def confidence_bps_Inr encoded_version_def)
  moreover have "(i, endpoint_source, source) \<in> set (endpoints_t d)"
    "(i, endpoint_target, target) \<in> set (endpoints_t d)"
    using ends by (force simp: find_endpoint_def dest: find_some_in)+
  ultimately show ?thesis
    using v parts pub unfolding edge_shows_def edge_publishes_def by (intro bexI [of _ v]) simp_all
qed

subsection \<open>Frames\<close>

text \<open>A row stays in order while the tables grow by versions of other relations.\<close>

lemma pair_check_with_version:
  assumes "pair_check d c" "fresh_version d p"
  shows "pair_check (with_version p row d) c"
proof -
  have old: "version_exists d q \<Longrightarrow> version_exists (with_version p row d) q" for q
    by (auto simp: version_exists_def frame_simps)
  have "a \<noteq> p_version_id p" if "version_exists d (\<lambda>v. vr_id v = a \<and> q v)" for a q
    using that assms(2) by (force simp: version_exists_def list_ex_iff fresh_version_def)
  then have stale: "a \<in> set (stale_t (with_version p row d)) \<longleftrightarrow> a \<in> set (stale_t d)"
    if "version_exists d (\<lambda>v. vr_id v = a \<and> q v)" for a q
    using that by (auto simp: frame_simps)
  show ?thesis
    using assms(1) old stale
    by (auto simp: pair_check_def split: option.splits relation_status.splits)
qed

lemma edge_shows_with_version: "edge_shows d i e \<Longrightarrow> edge_shows (with_version p row d) i e"
  by (force simp: edge_shows_def frame_simps)

lemma row_ok_with_version:
  assumes "row_ok d c" "fresh_version d p" "vr_relation_id row \<noteq> cr_relation c"
  shows "row_ok (with_version p row d) c"
proof -
  have "revisions_of (with_version p row d) (cr_relation c) = revisions_of d (cr_relation c)"
    using assms(3) by (auto simp: revisions_of_def frame_simps)
  moreover have "edges_of (with_version p row d) i = edges_of d i" for i
    by (simp add: edges_of_def frame_simps)
  ultimately show ?thesis
    using assms pair_check_with_version [of d c p row] edge_shows_with_version
    by (auto simp: row_ok_def split: if_splits)
qed

lemma row_ok_cong:
  assumes "versions_t d = versions_t d'" "stale_t d = stale_t d'" "endpoints_t d = endpoints_t d'"
    and "edges_of d (cr_relation c) = edges_of d' (cr_relation c)"
  shows "row_ok d c = row_ok d' c"
  using assms pair_check_cong [OF assms(1,2)]
  by (simp add: row_ok_def revisions_of_def edge_shows_def)

lemma updated_tables_simps [frame_simps]:
  "relations_t (updated_tables i f evs au d) = relations_t d"
  "versions_t (updated_tables i f evs au d) = versions_t d"
  "stale_t (updated_tables i f evs au d) = stale_t d"
  "endpoints_t (updated_tables i f evs au d) = endpoints_t d"
  "effective_t (updated_tables i f evs au d) = effective_t d"
  "current_t (updated_tables i f evs au d) =
     map (\<lambda>x. if cr_relation x = i then f x else x) (current_t d)"
  "events_t (updated_tables i f evs au d) = events_t d @ evs"
  "audit_t (updated_tables i f evs au d) = audit_t d @ [au]"
  "references_t (updated_tables i f evs au d) = references_t d"
  "evidence_t (updated_tables i f evs au d) = evidence_t d"
  "declared_t (updated_tables i f evs au d) = declared_t d"
  "column_nodes (updated_tables i f evs au d) = column_nodes d"
  by (simp_all add: updated_tables_def)

lemma with_edges_simps [frame_simps]:
  "relations_t (with_edges i es d) = relations_t d"
  "versions_t (with_edges i es d) = versions_t d"
  "stale_t (with_edges i es d) = stale_t d"
  "endpoints_t (with_edges i es d) = endpoints_t d"
  "effective_t (with_edges i es d) = filter (\<lambda>e. ee_relation e \<noteq> i) (effective_t d) @ es"
  "current_t (with_edges i es d) = current_t d"
  "events_t (with_edges i es d) = events_t d"
  "audit_t (with_edges i es d) = audit_t d"
  "references_t (with_edges i es d) = references_t d"
  "evidence_t (with_edges i es d) = evidence_t d"
  "declared_t (with_edges i es d) = declared_t d"
  "column_nodes (with_edges i es d) = column_nodes d"
  by (simp_all add: with_edges_def)

lemma edges_of_with_edges:
  "\<forall>e\<in>set es. ee_relation e = i \<Longrightarrow>
     edges_of (with_edges i es d) j = (if j = i then es else edges_of d j)"
  by (auto simp: edges_of_def frame_simps filter_empty_conv intro: filter_cong)

subsection \<open>Preservation\<close>

definition versions_ok :: "codec \<Rightarrow> db \<Rightarrow> bool" where
  "versions_ok cd d \<longleftrightarrow>
     distinct (map vr_id (versions_t d))
     \<and> distinct (map (\<lambda>v. (vr_relation_id v, vr_revision_no v)) (versions_t d))
     \<and> (\<forall>v\<in>set (versions_t d). vr_relation_id v \<in> set (relation_ids d) \<and> encoded_version cd v)
     \<and> set (stale_t d) \<subseteq> set (map vr_id (versions_t d))"

lemma store_inv_versions_ok: "store_inv cd d \<Longrightarrow> versions_ok cd d"
  by (simp add: store_inv_def versions_ok_def)

lemma row_encodes_encoded: "row_encodes cd p row \<Longrightarrow> encoded_version cd row"
  by (auto simp: row_encodes_def encoded_version_def)

lemma row_encodes_keys:
  "row_encodes cd p row \<Longrightarrow> vr_id row = p_version_id p \<and> vr_relation_id row = rv_relation_id (p_revision p)
     \<and> vr_revision_no row = rv_revision_no (p_revision p)
     \<and> vr_kind row = stored_proposal_kind (rv_kind (p_revision p))"
  by (auto simp: row_encodes_def)

lemma versions_ok_with_version:
  assumes "versions_ok cd d" "row_encodes cd p row" "fresh_version d p"
    and "relations_t d' = relations_t d @ rs" "versions_t d' = versions_t d @ [row]"
    and "stale_t d' = stale_t (with_version p row d)"
    and "rv_relation_id (p_revision p) \<in> set (relation_ids d')"
  shows "versions_ok cd d'"
  using assms row_encodes_encoded [OF assms(2)] row_encodes_keys [OF assms(2)]
  by (auto simp: versions_ok_def fresh_version_def relation_ids_def frame_simps)

text \<open>Every operation but creation rewrites one current row.\<close>

lemma inv_update:
  assumes inv: "store_inv cd d" and f: "\<And>x. cr_relation (f x) = cr_relation x"
    and d': "relations_t d' = relations_t d" "versions_ok cd d'"
      "current_t d' = map (\<lambda>x. if cr_relation x = i then f x else x) (current_t d)"
      "audit_t d' = audit_t d @ [au]" "ar_id au \<notin> set (map ar_id (audit_t d))"
      "\<forall>e\<in>set (effective_t d'). ee_relation e \<in> set (relation_ids d)"
    and others: "\<And>x. x \<in> set (current_t d) \<Longrightarrow> cr_relation x \<noteq> i \<Longrightarrow> row_ok d' x"
    and this_row: "find_current d i = Some c" "row_ok d' (f c)"
  shows "store_inv cd d'"
proof -
  have "row_ok d' x" if "x \<in> set (current_t d')" for x
  proof -
    from that obtain y where y: "y \<in> set (current_t d)" "x = (if cr_relation y = i then f y else y)"
      by (auto simp: d'(3))
    show ?thesis
    proof (cases "cr_relation y = i")
      case True
      then have "y = c"
        using store_inv_find_current [OF inv y(1)] this_row(1) by simp
      with True y(2) this_row(2) show ?thesis by simp
    qed (use others y in simp)
  qed
  moreover have "map cr_relation (current_t d') = map cr_relation (current_t d)"
    by (auto simp: d'(3) f)
  ultimately show ?thesis
    using inv d'(1,2,4-6) by (simp add: store_inv_def versions_ok_def relation_ids_def)
qed

lemma inv_create:
  assumes inv: "store_inv cd d" and op: "insert_create_proposal cd eng p d = Inr (r, d')"
  shows "store_inv cd d'"
proof -
  obtain row where e: "d' = created_tables p row d" "row_encodes cd p row" "fresh_version d p"
      "p_relation_id p \<notin> set (relation_ids d)"
      "p_fingerprint p \<notin> set (map rr_fingerprint (relations_t d))"
      "p_audit_id p \<notin> set (map ar_id (audit_t d))"
      "pair_check (with_version p row d) (created_current p)"
    using create_effect [OF op] by (auto simp: relation_ids_def)
  note keys = row_encodes_keys [OF e(2)]
  have t: "relations_t d' = relations_t d @ [created_relation p]"
    "versions_t d' = versions_t (with_version p row d)" "stale_t d' = stale_t (with_version p row d)"
    "endpoints_t d' = endpoints_t (with_version p row d)" "effective_t d' = effective_t d"
    "current_t d' = current_t d @ [created_current p]"
    using e(1) by (simp_all add: created_tables_def Let_def frame_simps)
  have ids: "relation_ids d' = relation_ids d @ [p_relation_id p]"
    using t(1) by (simp add: relation_ids_def created_relation_def)
  have none: "vr_relation_id v \<noteq> p_relation_id p" if "v \<in> set (versions_t d)" for v
    using inv that e(4) by (auto simp: store_inv_def)
  have rel: "rv_relation_id (p_revision p) = p_relation_id p \<and> rv_revision_no (p_revision p) = 1"
    using e(7) keys none
    by (auto simp: pair_check_def version_exists_def list_ex_iff created_current_def frame_simps)
  have versions: "versions_ok cd d'"
    using store_inv_versions_ok [OF inv] e(2,3) t(1-3) ids rel
    by (intro versions_ok_with_version [of cd d p row d' "[created_relation p]"]) (simp_all add: frame_simps)
  have edges: "edges_of d' = edges_of (with_version p row d)"
    by (intro ext) (simp add: edges_of_def t(5) frame_simps)
  have cong: "row_ok d' c = row_ok (with_version p row d) c" for c
    by (rule row_ok_cong) (simp_all add: t edges)
  have old: "row_ok d' c" if "c \<in> set (current_t d)" for c
  proof -
    have "cr_relation c \<in> set (relation_ids d)"
      using that inv unfolding store_inv_def by (metis image_eqI set_map)
    with e(4) have "cr_relation c \<noteq> p_relation_id p" by auto
    then show ?thesis
      using inv that keys rel row_ok_with_version [OF _ e(3)] by (simp add: cong store_inv_def)
  qed
  have "revisions_of (with_version p row d) (p_relation_id p) = {1}"
    using none keys rel by (auto simp: revisions_of_def frame_simps)
  moreover have "edges_of d (p_relation_id p) = []"
    using inv e(4) by (auto simp: store_inv_def edges_of_def filter_empty_conv)
  ultimately have "row_ok d' (created_current p)"
    using e(7) unfolding cong
    by (simp add: row_ok_def created_current_def edges_of_def frame_simps)
  with old inv versions t ids e show ?thesis
    unfolding store_inv_def versions_ok_def
    by (auto simp: created_tables_def Let_def created_relation_def created_current_def
        audit_row_of_def)
qed

lemma inv_revise:
  assumes inv: "store_inv cd d" and op: "insert_revision_proposal cd eng p d = Inr (r, d')"
  shows "store_inv cd d'"
proof -
  let ?i = "rv_relation_id (p_revision p)"
  let ?f = "\<lambda>c. c\<lparr>cr_latest := rv_revision_no (p_revision p), cr_proposed := Some (p_version_id p),
           cr_updated_at := rv_created_at (p_revision p)\<rparr>"
  let ?rv = "p_revision p"
  let ?au = "audit_row_of (p_audit_id p) ?i (audit_action_for_proposal (rv_kind ?rv)) (author ?rv)
           (rv_reason ?rv) (rv_request_id ?rv) (rv_expected ?rv) (rv_revision_no ?rv)
           (rv_created_at ?rv)"
  obtain row c where e: "d' = revised_tables p row d" "row_encodes cd p row" "fresh_version d p"
      "find_current d ?i = Some c" "rv_revision_no (p_revision p) = cr_latest c + 1"
      "p_audit_id p \<notin> set (map ar_id (audit_t d))"
      "pair_check (with_version p row d) (?f c)"
    using revise_effect [OF op] by auto
  note keys = row_encodes_keys [OF e(2)]
  note t = e(1) [unfolded revised_tables_def Let_def]
  have "?i \<in> set (relation_ids d)"
    using find_current_in [OF e(4)] find_current_relation [OF e(4)] inv
    unfolding store_inv_def by (metis image_eqI set_map)
  then have versions: "versions_ok cd d'"
    using store_inv_versions_ok [OF inv] e(2,3)
    by (intro versions_ok_with_version [of cd d p row d' "[]"]) (simp_all add: t relation_ids_def frame_simps)
  have cong: "row_ok d' x = row_ok (with_version p row d) x" for x
    by (rule row_ok_cong) (simp_all add: t edges_of_def frame_simps)
  have ok: "row_ok d c" using store_inv_row [OF inv e(4)] .
  have c: "cr_relation c = ?i" by (rule find_current_relation [OF e(4)])
  have "revisions_of (with_version p row d) ?i = insert (cr_latest c + 1) (revisions_of d ?i)"
    using keys e(5) by (force simp: revisions_of_def frame_simps)
  then have "revisions_of (with_version p row d) ?i = {1..cr_latest c + 1}"
    using ok c by (auto simp: row_ok_def)
  moreover have "edges_of (with_version p row d) ?i = edges_of d ?i"
    by (simp add: edges_of_def frame_simps)
  ultimately have this_row: "row_ok d' (?f c)"
    using ok c e(5,7) edge_shows_with_version unfolding cong by (auto simp: row_ok_def)
  show ?thesis
  proof (rule inv_update [OF inv, where f = ?f and i = ?i and au = ?au])
    fix x assume "x \<in> set (current_t d)" "cr_relation x \<noteq> ?i"
    with inv keys show "row_ok d' x"
      unfolding cong by (intro row_ok_with_version [OF _ e(3)]) (auto simp: store_inv_def)
  qed (use t e(4-6) this_row versions inv in \<open>simp_all add: frame_simps store_inv_def\<close>)
qed

lemma edges_of_updated: "edges_of (updated_tables i f evs au d) j = edges_of d j"
  by (simp add: edges_of_def frame_simps)

lemma row_ok_updated: "row_ok (updated_tables i f evs au d) x = row_ok d x"
  by (rule row_ok_cong) (simp_all add: edges_of_updated frame_simps)

lemma versions_ok_cong:
  "versions_t d = versions_t d' \<Longrightarrow> relations_t d = relations_t d' \<Longrightarrow> stale_t d = stale_t d' \<Longrightarrow>
     versions_ok cd d = versions_ok cd d'"
  by (simp add: versions_ok_def relation_ids_def)

lemma row_ok_with_edges:
  assumes "\<forall>e\<in>set es. ee_relation e = i" "cr_relation x \<noteq> i"
  shows "row_ok (with_edges i es d) x = row_ok d x"
  using assms by (intro row_ok_cong) (simp_all add: edges_of_with_edges frame_simps)

text \<open>Rewriting the row of a relation together with its edges.\<close>

lemma inv_update_edges:
  assumes inv: "store_inv cd d" and f: "\<And>x. cr_relation (f x) = cr_relation x"
    and t: "d' = with_edges i es (updated_tables i f evs au (d\<lparr>suppressions_t := ss\<rparr>))"
    and c: "find_current d i = Some c" "ar_id au \<notin> set (map ar_id (audit_t d))"
    and pc: "pair_check d (f c)" "cr_latest (f c) = cr_latest c"
    and es: "if cr_status (f c) = StatusApproved
      then \<exists>e v. es = [e] \<and> ee_relation e = i \<and> cr_active (f c) = Some v \<and> edge_shows d v e
      else es = []"
  shows "store_inv cd d'"
proof -
  have own: "\<forall>e\<in>set es. ee_relation e = i" using es by (auto split: if_splits)
  have i: "cr_relation c = i" by (rule find_current_relation [OF c(1)])
  have i_in: "i \<in> set (relation_ids d)"
    using find_current_in [OF c(1)] i inv unfolding store_inv_def by (metis image_eqI set_map)
  have base: "row_ok (d\<lparr>suppressions_t := ss\<rparr>) x = row_ok d x" for x
    by (rule row_ok_cong) (simp_all add: edges_of_def)
  have pcd: "pair_check d' x = pair_check d x" for x
    by (rule pair_check_cong) (simp_all add: t frame_simps)
  have edges: "edges_of d' i = es" using own by (simp add: t edges_of_with_edges)
  have same_shows: "edge_shows d' v e = edge_shows d v e" for v e
    by (simp add: edge_shows_def t frame_simps)
  have "revisions_of d' i = revisions_of d i" by (simp add: revisions_of_def t frame_simps)
  with store_inv_row [OF inv c(1)] i pc es have this_row: "row_ok d' (f c)"
    by (auto simp: row_ok_def pcd f edges same_shows split: if_splits)
  show ?thesis
  proof (rule inv_update [OF inv f, where i = i and au = au])
    show "versions_ok cd d'"
      using store_inv_versions_ok [OF inv] versions_ok_cong [of d' d] by (simp add: t frame_simps)
    show "\<forall>e\<in>set (effective_t d'). ee_relation e \<in> set (relation_ids d)"
      using inv own i_in by (auto simp: t frame_simps store_inv_def)
    show "row_ok d' x" if "x \<in> set (current_t d)" "cr_relation x \<noteq> i" for x
      using inv that own by (simp add: t row_ok_with_edges row_ok_updated base store_inv_def)
  qed (use t c this_row in \<open>simp_all add: frame_simps\<close>)
qed

lemma inv_review:
  assumes stable: "codec_stable cd" and inv: "store_inv cd d"
    and op: "review_operation cd eng w d = Inr (r, d')"
  shows "store_inv cd d'"
proof -
  let ?i = "w_relation_id w"
  obtain current proposed c i where e: "find_current d ?i = Some c" "cr_proposed c = Some i"
      "load_relation_revision cd d i = Inr proposed" "w_audit_id w \<notin> set (map ar_id (audit_t d))" and
    branch: "if w_decision w = DecisionReject
       then d' = rejected_tables w proposed d
         \<and> pair_check d (c\<lparr>cr_proposed := None, cr_updated_at := w_occurred_at w\<rparr>)
       else \<exists>es. d' = approved_tables w current proposed es d
         \<and> pair_check d (approved_change w (rv_kind proposed) c)
         \<and> (if rv_kind proposed = ProposalContent
            then \<exists>e. es = [e] \<and> edge_publishes cd ?i (r_type current) proposed (w_occurred_at w) e
            else es = [])"
    using review_effect [OF op] by (elim exE conjE) (rule that, assumption+)
  have enc: "\<forall>v\<in>set (versions_t d). encoded_version cd v" using inv by (simp add: store_inv_def)
  show ?thesis
  proof (cases "w_decision w = DecisionReject")
    case True
    let ?f = "\<lambda>c. c\<lparr>cr_proposed := None, cr_updated_at := w_occurred_at w\<rparr>"
    have t: "d' = updated_tables ?i ?f [review_row w (w_event_id w) (rv_id proposed) EventRejected]
        (review_audit w ''RELATION_REJECTED'') d" and pc: "pair_check d (?f c)"
      using True branch by (simp_all add: rejected_tables_def)
    have "row_ok d' (?f c)"
      using store_inv_row [OF inv e(1)] pc unfolding t row_ok_updated by (auto simp: row_ok_def)
    moreover have "versions_ok cd d'"
      using store_inv_versions_ok [OF inv] versions_ok_cong [of d' d] by (simp add: t frame_simps)
    ultimately show ?thesis
      using inv e by (intro inv_update [OF inv, of ?f d' ?i "review_audit w ''RELATION_REJECTED''"])
        (simp_all add: t frame_simps store_inv_def row_ok_updated review_audit_def)
  next
    case False
    then obtain es where t: "d' = approved_tables w current proposed es d" and
      pc: "pair_check d (approved_change w (rv_kind proposed) c)" and
      es: "if rv_kind proposed = ProposalContent
            then \<exists>e. es = [e] \<and> edge_publishes cd ?i (r_type current) proposed (w_occurred_at w) e
            else es = []"
      using branch by auto
    have content: "approved_status (rv_kind proposed) = StatusApproved \<longleftrightarrow> rv_kind proposed = ProposalContent"
      by (cases "rv_kind proposed") (simp_all add: approved_status_def)
    have self: "d = d\<lparr>suppressions_t := suppressions_t d\<rparr>" by simp
    show ?thesis
    proof (rule inv_update_edges [OF inv])
      show "d' = with_edges ?i es (updated_tables ?i (approved_change w (rv_kind proposed))
          (review_row w (w_event_id w) (rv_id proposed) (fst (review_event (w_decision w) (rv_kind proposed)))
            # (case r_active current of None \<Rightarrow> []
               | Some active \<Rightarrow> [review_row w (w_superseded_event_id w) (rv_id active) EventSuperseded]))
          (review_audit w (snd (review_event (w_decision w) (rv_kind proposed))))
          (d\<lparr>suppressions_t := suppressions_t d\<rparr>))"
        unfolding t approved_tables_def by (simp add: case_prod_beta)
      show "if cr_status (approved_change w (rv_kind proposed) c) = StatusApproved
        then \<exists>e v. es = [e] \<and> ee_relation e = ?i
          \<and> cr_active (approved_change w (rv_kind proposed) c) = Some v \<and> edge_shows d v e
        else es = []"
        using es e(2) published_text [OF stable enc e(3)]
        by (auto simp: approved_change_def content edge_publishes_def split: if_splits)
    qed (use e pc in \<open>simp_all add: approved_change_def review_audit_def\<close>)
  qed
qed

lemma inv_change:
  assumes stable: "codec_stable cd" and inv: "store_inv cd d"
    and op: "change_state_operation cd eng suppressing t d = Inr (r, d')"
  shows "store_inv cd d'"
proof -
  let ?i = "t_relation_id t"
  obtain active c i es and current :: relation
    where e: "find_current d ?i = Some c" "cr_active c = Some i"
      "load_relation_revision cd d i = Inr active" "t_audit_id t \<notin> set (map ar_id (audit_t d))"
      "pair_check d (changed_row suppressing t c)"
      "d' = changed_tables suppressing t i es d" and
    es: "if suppressing then es = []
       else \<exists>e. es = [e] \<and> edge_publishes cd ?i (r_type current) active (t_occurred_at t) e"
    using change_effect [OF op] by (elim exE conjE) (rule that, assumption+)
  have enc: "\<forall>v\<in>set (versions_t d). encoded_version cd v" using inv by (simp add: store_inv_def)
  show ?thesis
  proof (rule inv_update_edges [OF inv _ e(6) [unfolded changed_tables_def]])
    show "if cr_status (changed_row suppressing t c) = StatusApproved
        then \<exists>e v. es = [e] \<and> ee_relation e = ?i
          \<and> cr_active (changed_row suppressing t c) = Some v \<and> edge_shows d v e
        else es = []"
      using es e(2) published_text [OF stable enc e(3)]
      by (auto simp: changed_row_def edge_publishes_def split: if_splits)
  qed (use e in \<open>simp_all add: changed_row_def\<close>)
qed

end
