(* ===== verification/RelationLifecycle.thy ===== *)
theory RelationLifecycle
  imports RelationInvariant
begin

section \<open>The lifecycle of a relation\<close>

text \<open>
  The abstract specification of the repository: a relation is its latest revision number,
  its status and the kind of its pending proposal, and an operation is a step of a small
  state machine on one relation. The SQLite repository refines it. The contract that the
  commands need of a repository is the locale \<open>relation_repository\<close>.
\<close>

subsection \<open>Calls of the repository\<close>

datatype repository_call =
    CallCreate proposal_record | CallRevise proposal_record | CallReview review_record
  | CallSuppress state_record | CallRestore state_record

definition perform :: "'s repository \<Rightarrow> repository_call \<Rightarrow> ('s, relation_error, relation) action" where
  "perform repo call =
     (case call of
        CallCreate p \<Rightarrow> repo_propose_create repo p
      | CallRevise p \<Rightarrow> repo_propose_revision repo p
      | CallReview w \<Rightarrow> repo_review repo w
      | CallSuppress t \<Rightarrow> repo_suppress repo t
      | CallRestore t \<Rightarrow> repo_restore repo t)"

definition call_target :: "repository_call \<Rightarrow> int" where
  "call_target call =
     (case call of
        CallCreate p \<Rightarrow> p_relation_id p
      | CallRevise p \<Rightarrow> rv_relation_id (p_revision p)
      | CallReview w \<Rightarrow> w_relation_id w
      | CallSuppress t \<Rightarrow> t_relation_id t
      | CallRestore t \<Rightarrow> t_relation_id t)"

definition call_actor :: "repository_call \<Rightarrow> string" where
  "call_actor call =
     (case call of
        CallCreate p \<Rightarrow> rv_actor (p_revision p)
      | CallRevise p \<Rightarrow> rv_actor (p_revision p)
      | CallReview w \<Rightarrow> pr_actor (w_principal w)
      | CallSuppress t \<Rightarrow> pr_actor (t_principal t)
      | CallRestore t \<Rightarrow> pr_actor (t_principal t))"

text \<open>A call that may change the published graph.\<close>

definition publishes :: "repository_call \<Rightarrow> bool" where
  "publishes call =
     (case call of
        CallCreate _ \<Rightarrow> False | CallRevise _ \<Rightarrow> False
      | CallReview w \<Rightarrow> w_decision w \<noteq> DecisionReject
      | CallSuppress _ \<Rightarrow> True | CallRestore _ \<Rightarrow> True)"

lemmas call_simps = perform_def call_target_def call_actor_def publishes_def

lemma perform_sqlite:
  "perform (sqlite_repository cd eng) call =
     (case call of
        CallCreate p \<Rightarrow> transaction eng (insert_create_proposal cd eng p)
      | CallRevise p \<Rightarrow> transaction eng (insert_revision_proposal cd eng p)
      | CallReview w \<Rightarrow> transaction eng (review_operation cd eng w)
      | CallSuppress t \<Rightarrow> transaction eng (change_state_operation cd eng True t)
      | CallRestore t \<Rightarrow> transaction eng (change_state_operation cd eng False t))"
  by (simp add: perform_def sqlite_repository_def split: repository_call.splits)

lemma perform_cases [consumes 1, case_names create revise review suppress restore]:
  assumes "perform (sqlite_repository cd eng) call d = (Inr r, d')"
  obtains p where "call = CallCreate p" "insert_create_proposal cd eng p d = Inr (r, d')"
  | p where "call = CallRevise p" "insert_revision_proposal cd eng p d = Inr (r, d')"
  | w where "call = CallReview w" "review_operation cd eng w d = Inr (r, d')"
  | t where "call = CallSuppress t" "change_state_operation cd eng True t d = Inr (r, d')"
  | t where "call = CallRestore t" "change_state_operation cd eng False t d = Inr (r, d')"
  using assms by (cases call) (auto simp: perform_sqlite transaction_Inr)

text \<open>A call that failed changed nothing, or its caller left before the answer came.\<close>

lemma perform_failure:
  "perform (sqlite_repository cd eng) call d = (Inl e, d') \<Longrightarrow>
     d' = d \<or> e = ContextEnded \<and> (\<exists>r. perform (sqlite_repository cd (awaited eng)) call d = (Inr r, d'))"
  by (cases call) (auto simp: perform_sqlite operations_awaited dest: transaction_Inl)

lemma perform_awaited:
  "perform (sqlite_repository cd eng) call d = (Inr r, d') \<Longrightarrow>
     perform (sqlite_repository cd (awaited eng)) call d = (Inr r, d')"
  by (cases call) (auto simp: perform_sqlite operations_awaited transaction_Inr)

text \<open>Whatever the answer, what is left of the tables is what they were or what a success leaves.\<close>

lemma perform_outcome:
  assumes "perform (sqlite_repository cd eng) call d = (res, d')"
  obtains "d' = d" | r where "perform (sqlite_repository cd (awaited eng)) call d = (Inr r, d')"
  using assms perform_failure perform_awaited by (cases res) blast+

lemma perform_invariant:
  assumes "codec_stable cd" "store_inv cd d" "perform (sqlite_repository cd eng) call d = (Inr r, d')"
  shows "store_inv cd d'"
  using assms(3)
  by (cases rule: perform_cases) (use inv_create inv_revise inv_review [OF assms(1)] inv_change [OF assms(1)] assms(2) in metis)+

subsection \<open>The abstract lifecycle\<close>

record lifecycle =
  lc_latest :: int
  lc_status :: relation_status
  lc_proposed :: "proposal_kind option"

fun lifecycle_step :: "repository_call \<Rightarrow> lifecycle option \<Rightarrow> lifecycle option" where
  "lifecycle_step (CallCreate p) s =
     Some \<lparr>lc_latest = 1, lc_status = StatusPending, lc_proposed = Some (rv_kind (p_revision p))\<rparr>"
| "lifecycle_step (CallRevise p) s =
     map_option (\<lambda>l. l\<lparr>lc_latest := lc_latest l + 1, lc_proposed := Some (rv_kind (p_revision p))\<rparr>) s"
| "lifecycle_step (CallReview w) s =
     map_option (\<lambda>l.
       if w_decision w = DecisionReject then l\<lparr>lc_proposed := None\<rparr>
       else case lc_proposed l of
              None \<Rightarrow> l
            | Some kind \<Rightarrow> l\<lparr>lc_status := approved_status kind, lc_proposed := None\<rparr>) s"
| "lifecycle_step (CallSuppress t) s = map_option (\<lambda>l. l\<lparr>lc_status := StatusSuppressed\<rparr>) s"
| "lifecycle_step (CallRestore t) s = map_option (\<lambda>l. l\<lparr>lc_status := StatusApproved\<rparr>) s"

text \<open>When a call is allowed in a state.\<close>

fun lifecycle_allows :: "repository_call \<Rightarrow> lifecycle option \<Rightarrow> bool" where
  "lifecycle_allows (CallCreate p) s = (s = None)"
| "lifecycle_allows (CallRevise p) s =
     (case s of None \<Rightarrow> False
      | Some l \<Rightarrow> lc_proposed l = None \<and> rv_revision_no (p_revision p) = lc_latest l + 1
          \<and> rv_expected (p_revision p) = Some (lc_latest l))"
| "lifecycle_allows (CallReview w) s =
     (case s of None \<Rightarrow> False | Some l \<Rightarrow> lc_proposed l \<noteq> None \<and> w_expected w = lc_latest l)"
| "lifecycle_allows (CallSuppress t) s =
     (case s of None \<Rightarrow> False
      | Some l \<Rightarrow> lc_proposed l = None \<and> lc_status l = StatusApproved \<and> t_expected t = lc_latest l)"
| "lifecycle_allows (CallRestore t) s =
     (case s of None \<Rightarrow> False
      | Some l \<Rightarrow> lc_proposed l = None \<and> lc_status l = StatusSuppressed \<and> t_expected t = lc_latest l)"

subsection \<open>The abstraction of the tables\<close>

definition version_kind :: "db \<Rightarrow> int \<Rightarrow> proposal_kind option" where
  "version_kind d i =
     map_option (\<lambda>v. if i \<in> set (stale_t d) then ProposalStale else vr_kind v)
       (find (\<lambda>v. vr_id v = i) (versions_t d))"

definition lifecycle_of :: "db \<Rightarrow> int \<Rightarrow> lifecycle option" where
  "lifecycle_of d i =
     map_option (\<lambda>c. \<lparr>lc_latest = cr_latest c, lc_status = cr_status c,
         lc_proposed = (case cr_proposed c of None \<Rightarrow> None | Some v \<Rightarrow> version_kind d v)\<rparr>)
       (find_current d i)"

lemma load_revision_kind:
  "load_relation_revision cd d i = Inr rv \<Longrightarrow> version_kind d i = Some (rv_kind rv)"
  by (auto simp: load_relation_revision_def version_kind_def result_simps split: option.splits)

lemma version_kind_cong:
  "versions_t d = versions_t d' \<Longrightarrow> stale_t d = stale_t d' \<Longrightarrow> version_kind d i = version_kind d' i"
  by (simp add: version_kind_def)

lemma version_kind_with_version:
  assumes "version_kind d i = Some k" "fresh_version d p"
  shows "version_kind (with_version p row d) i = Some k"
proof -
  obtain v where v: "find (\<lambda>v. vr_id v = i) (versions_t d) = Some v"
    using assms(1) by (auto simp: version_kind_def)
  then have "i \<noteq> p_version_id p"
    using assms(2) by (force simp: fresh_version_def dest: find_some_in)
  with assms v show ?thesis by (simp add: version_kind_def find_append frame_simps)
qed

lemma version_kind_new:
  assumes "row_encodes cd p row" "fresh_version d p" "p_version_id p \<notin> set (stale_t d)"
  shows "version_kind (with_version p row d) (p_version_id p) = Some (rv_kind (p_revision p))"
proof -
  have "find (\<lambda>v. vr_id v = p_version_id p) (versions_t d) = None"
    using assms(2) by (simp add: find_none_key fresh_version_def)
  then show ?thesis
    using row_encodes_keys [OF assms(1)] assms(3)
    by (simp add: version_kind_def find_append frame_simps stored_proposal_kind_def)
qed

lemma lifecycle_of_cong:
  assumes "versions_t d = versions_t d'" "stale_t d = stale_t d'" "find_current d i = find_current d' i"
  shows "lifecycle_of d i = lifecycle_of d' i"
  using assms version_kind_cong [OF assms(1,2)]
  by (cases "find_current d' i") (simp_all add: lifecycle_of_def split: option.splits)

lemma proposed_kind:
  assumes "store_inv cd d" "find_current d i = Some c" "cr_proposed c = Some v"
  shows "\<exists>k. version_kind d v = Some k"
proof -
  have "pair_check d c" using store_inv_row [OF assms(1,2)] by (simp add: row_ok_def)
  then obtain x where "x \<in> set (versions_t d)" "vr_id x = v"
    using assms(3) by (auto simp: pair_check_def version_exists_def list_ex_iff)
  then show ?thesis
    using store_inv_version_unique [OF assms(1)] by (auto simp: version_kind_def)
qed

lemma lifecycle_of_with_version:
  assumes "store_inv cd d" "fresh_version d p" "find_current d' j = find_current d j"
    and "versions_t d' = versions_t (with_version p row d)" "stale_t d' = stale_t (with_version p row d)"
  shows "lifecycle_of d' j = lifecycle_of d j"
proof (cases "find_current d j")
  case (Some c)
  show ?thesis
  proof (cases "cr_proposed c")
    case (Some v)
    then obtain k where "version_kind d v = Some k"
      using proposed_kind [OF assms(1) \<open>find_current d j = Some c\<close>] by blast
    then show ?thesis
      using version_kind_with_version [OF _ assms(2)] version_kind_cong [OF assms(4,5)] Some assms(3)
        \<open>find_current d j = Some c\<close>
      by (simp add: lifecycle_of_def)
  qed (use Some assms(3) in \<open>simp add: lifecycle_of_def\<close>)
qed (use assms(3) in \<open>simp add: lifecycle_of_def\<close>)

lemma stale_old: "store_inv cd d \<Longrightarrow> fresh_version d p \<Longrightarrow> p_version_id p \<notin> set (stale_t d)"
  by (auto simp: store_inv_def fresh_version_def)

lemma find_current_updated:
  "(\<And>x. cr_relation (f x) = cr_relation x) \<Longrightarrow>
     find_current (updated_tables i f evs au d) j
       = (if i = j then map_option f (find_current d j) else find_current d j)"
  using find_map_update [of cr_relation f j i "current_t d"]
  by (simp add: find_current_def frame_simps)

lemma find_current_with_edges: "find_current (with_edges i es d) j = find_current d j"
  by (simp add: find_current_def frame_simps)

lemma lifecycle_create:
  assumes inv: "store_inv cd d" and op: "insert_create_proposal cd eng p d = Inr (r, d')"
  shows "lifecycle_of d (p_relation_id p) = None
    \<and> lifecycle_of d' (p_relation_id p) = lifecycle_step (CallCreate p) None
    \<and> (\<forall>j. j \<noteq> p_relation_id p \<longrightarrow> lifecycle_of d' j = lifecycle_of d j)"
proof -
  let ?i = "p_relation_id p"
  obtain row where e: "d' = created_tables p row d" "row_encodes cd p row" "fresh_version d p"
      "?i \<notin> set (map cr_relation (current_t d))"
    using create_effect [OF op] by blast
  have t: "versions_t d' = versions_t (with_version p row d)" "stale_t d' = stale_t (with_version p row d)"
    using e(1) by (simp_all add: created_tables_def Let_def)
  have none: "find_current d ?i = None"
    using e(4) by (simp add: find_current_def find_none_key)
  then have new: "find_current d' j = (if j = ?i then Some (created_current p) else find_current d j)" for j
    using e(1) by (auto simp: find_current_def created_tables_def Let_def find_append
        created_current_def split: option.splits)
  have "lifecycle_of d' ?i = lifecycle_step (CallCreate p) None"
    using new version_kind_cong [OF t] version_kind_new [OF e(2,3) stale_old [OF inv e(3)]]
    by (simp add: lifecycle_of_def created_current_def)
  moreover have "lifecycle_of d' j = lifecycle_of d j" if "j \<noteq> ?i" for j
    using new that by (intro lifecycle_of_with_version [OF inv e(3) _ t]) simp
  ultimately show ?thesis using none by (simp add: lifecycle_of_def)
qed

lemma lifecycle_revise:
  assumes inv: "store_inv cd d" and op: "insert_revision_proposal cd eng p d = Inr (r, d')"
  shows "lifecycle_allows (CallRevise p) (lifecycle_of d (rv_relation_id (p_revision p)))
    \<and> lifecycle_of d' (rv_relation_id (p_revision p))
        = lifecycle_step (CallRevise p) (lifecycle_of d (rv_relation_id (p_revision p)))
    \<and> (\<forall>j. j \<noteq> rv_relation_id (p_revision p) \<longrightarrow> lifecycle_of d' j = lifecycle_of d j)"
proof -
  let ?i = "rv_relation_id (p_revision p)"
  obtain row c where e: "d' = revised_tables p row d" "row_encodes cd p row" "fresh_version d p"
      "find_current d ?i = Some c" "rv_revision_no (p_revision p) = cr_latest c + 1"
      "(case rv_expected (p_revision p) of None \<Rightarrow> 0 | Some n \<Rightarrow> n) = cr_latest c"
      "cr_proposed c = None"
    using revise_effect [OF op] by auto
  have "1 \<le> cr_latest c" using store_inv_row [OF inv e(4)] by (simp add: row_ok_def)
  with e(6) have expected: "rv_expected (p_revision p) = Some (cr_latest c)"
    by (auto split: option.splits)
  note u = e(1) [unfolded revised_tables_def Let_def]
  have t: "versions_t d' = versions_t (with_version p row d)" "stale_t d' = stale_t (with_version p row d)"
    by (simp_all add: u frame_simps)
  have new: "find_current d' j = (if j = ?i
      then Some (c\<lparr>cr_latest := cr_latest c + 1, cr_proposed := Some (p_version_id p),
             cr_updated_at := rv_created_at (p_revision p)\<rparr>) else find_current d j)" for j
    using e(4,5) by (auto simp: u find_current_updated frame_simps)
  have "lifecycle_of d' j = lifecycle_of d j" if "j \<noteq> ?i" for j
    using new that by (intro lifecycle_of_with_version [OF inv e(3) _ t]) simp
  moreover have "lifecycle_of d' ?i = lifecycle_step (CallRevise p) (lifecycle_of d ?i)"
    using new e(4,7) version_kind_cong [OF t] version_kind_new [OF e(2,3) stale_old [OF inv e(3)]]
    by (simp add: lifecycle_of_def)
  ultimately show ?thesis using e(4,5,7) expected by (simp add: lifecycle_of_def)
qed

lemma lifecycle_review:
  assumes inv: "store_inv cd d" and op: "review_operation cd eng w d = Inr (r, d')"
  shows "lifecycle_allows (CallReview w) (lifecycle_of d (w_relation_id w))
    \<and> lifecycle_of d' (w_relation_id w) = lifecycle_step (CallReview w) (lifecycle_of d (w_relation_id w))
    \<and> (\<forall>j. j \<noteq> w_relation_id w \<longrightarrow> lifecycle_of d' j = lifecycle_of d j)"
proof -
  let ?i = "w_relation_id w"
  obtain current proposed c i where e: "find_current d ?i = Some c" "cr_proposed c = Some i"
      "w_expected w = cr_latest c" "load_relation_revision cd d i = Inr proposed" and
    branch: "if w_decision w = DecisionReject then d' = rejected_tables w proposed d
       else \<exists>es. d' = approved_tables w current proposed es d"
    using review_effect [OF op] by (metis (full_types))
  have kind: "version_kind d i = Some (rv_kind proposed)" by (rule load_revision_kind [OF e(4)])
  have t: "versions_t d' = versions_t d" "stale_t d' = stale_t d"
    using branch
    by (auto simp: rejected_tables_def approved_tables_def case_prod_beta frame_simps split: if_splits)
  have new: "find_current d' j = (if j = ?i then Some
      (if w_decision w = DecisionReject then c\<lparr>cr_proposed := None, cr_updated_at := w_occurred_at w\<rparr>
       else approved_change w (rv_kind proposed) c) else find_current d j)" for j
    using branch e(1)
    by (auto simp: rejected_tables_def approved_tables_def case_prod_beta find_current_with_edges
        find_current_updated approved_change_def split: if_splits)
  have "lifecycle_of d' j = lifecycle_of d j" if "j \<noteq> ?i" for j
    using new that t by (intro lifecycle_of_cong) simp_all
  moreover have "lifecycle_of d' ?i = lifecycle_step (CallReview w) (lifecycle_of d ?i)"
    using new e(1,2) kind by (simp add: lifecycle_of_def approved_change_def)
  ultimately show ?thesis using e(1-3) kind by (simp add: lifecycle_of_def)
qed

lemma lifecycle_change:
  assumes inv: "store_inv cd d" and op: "change_state_operation cd eng suppressing t d = Inr (r, d')"
  shows "(let call = (if suppressing then CallSuppress t else CallRestore t) in
    lifecycle_allows call (lifecycle_of d (t_relation_id t))
    \<and> lifecycle_of d' (t_relation_id t) = lifecycle_step call (lifecycle_of d (t_relation_id t))
    \<and> (\<forall>j. j \<noteq> t_relation_id t \<longrightarrow> lifecycle_of d' j = lifecycle_of d j))"
proof -
  let ?i = "t_relation_id t"
  obtain c i es where e: "find_current d ?i = Some c" "cr_proposed c = None" "t_expected t = cr_latest c"
      "cr_status c = (if suppressing then StatusApproved else StatusSuppressed)"
      "d' = changed_tables suppressing t i es d"
    using change_effect [OF op] by blast
  have t: "versions_t d' = versions_t d" "stale_t d' = stale_t d"
    by (simp_all add: e(5) changed_tables_def frame_simps)
  have new: "find_current d' j = (if j = ?i then Some (changed_row suppressing t c)
      else find_current d j)" for j
    using e(1)
    by (auto simp: e(5) changed_tables_def find_current_with_edges find_current_updated
        changed_row_def frame_simps)
  have "lifecycle_of d' j = lifecycle_of d j" if "j \<noteq> ?i" for j
    using new that t by (intro lifecycle_of_cong) simp_all
  then show ?thesis
    using new e(1-4) by (simp add: lifecycle_of_def changed_row_def Let_def)
qed

lemma perform_refines:
  assumes inv: "store_inv cd d" and "perform (sqlite_repository cd eng) call d = (Inr r, d')"
  shows "lifecycle_allows call (lifecycle_of d (call_target call))
    \<and> lifecycle_of d' (call_target call) = lifecycle_step call (lifecycle_of d (call_target call))
    \<and> (\<forall>j. j \<noteq> call_target call \<longrightarrow> lifecycle_of d' j = lifecycle_of d j)"
  using assms(2)
proof (cases rule: perform_cases)
  case (create p)
  with lifecycle_create [OF inv create(2)] show ?thesis by (simp add: call_target_def)
next
  case (revise p)
  with lifecycle_revise [OF inv revise(2)] show ?thesis by (simp add: call_target_def)
next
  case (review w)
  with lifecycle_review [OF inv review(2)] show ?thesis by (simp add: call_target_def)
next
  case (suppress t)
  with lifecycle_change [OF inv suppress(2)] show ?thesis by (simp add: call_target_def)
next
  case (restore t)
  with lifecycle_change [OF inv restore(2)] show ?thesis by (simp add: call_target_def)
qed

end
