(* ===== verification/RelationContract.thy ===== *)
theory RelationContract
  imports RelationLifecycle
begin

section \<open>The contract between the commands and the repository\<close>

text \<open>
  \<open>relation_repository\<close> is what \<^verbatim>\<open>relations.Commands\<close> relies on: a failed call changes
  nothing, unless its caller left before the answer came, and then it did what the same call
  does when its answer is awaited (\<open>answered\<close>); proposals and rejections leave the published
  graph alone, no call touches the edges of another relation, and a successful call appends one
  audit record. The SQLite repository provides it, and inside the locale the commands inherit it.
\<close>

subsection \<open>Commands as data\<close>

datatype command =
    CreateCommand propose_create_command | ReviseCommand propose_revision_command
  | TombstoneCommand propose_tombstone_command | ReviewCommand review_command
  | SuppressCommand change_state_command | RestoreCommand change_state_command

definition run_command :: "('s, 'g) commands \<Rightarrow> command \<Rightarrow> ('s \<times> 'g, relation_error, relation) action" where
  "run_command c cmd =
     (case cmd of
        CreateCommand x \<Rightarrow> propose_create c x
      | ReviseCommand x \<Rightarrow> propose_revision c x
      | TombstoneCommand x \<Rightarrow> propose_tombstone c x
      | ReviewCommand x \<Rightarrow> review c x
      | SuppressCommand x \<Rightarrow> suppress c x
      | RestoreCommand x \<Rightarrow> restore c x)"

definition command_principal :: "command \<Rightarrow> principal" where
  "command_principal cmd =
     (case cmd of
        CreateCommand x \<Rightarrow> pc_principal x
      | ReviseCommand x \<Rightarrow> pv_principal x
      | TombstoneCommand x \<Rightarrow> pt_principal x
      | ReviewCommand x \<Rightarrow> rw_principal x
      | SuppressCommand x \<Rightarrow> cs_principal x
      | RestoreCommand x \<Rightarrow> cs_principal x)"

definition authorized :: "command \<Rightarrow> bool" where
  "authorized cmd =
     (case cmd of
        CreateCommand x \<Rightarrow> can_create_or_tombstone (pc_principal x)
      | ReviseCommand x \<Rightarrow> can_revise (pv_principal x)
      | TombstoneCommand x \<Rightarrow> can_create_or_tombstone (pt_principal x)
      | ReviewCommand x \<Rightarrow> can_review (rw_principal x)
      | SuppressCommand x \<Rightarrow> can_review (cs_principal x)
      | RestoreCommand x \<Rightarrow> can_review (cs_principal x))"

lemmas command_simps = run_command_def command_principal_def authorized_def

subsection \<open>How a command reaches the repository\<close>

definition quiet :: "('s \<times> 'g, 'e, 'a) action \<Rightarrow> bool" where
  "quiet m \<longleftrightarrow> (\<forall>w r w'. m w = (r, w') \<longrightarrow> fst w' = fst w)"

text \<open>
  The command either fails without calling the repository, or makes one call that satisfies
  \<open>P\<close> and returns what it returns.
\<close>

definition calls ::
  "'s repository \<Rightarrow> (repository_call \<Rightarrow> bool) \<Rightarrow> ('s \<times> 'g, relation_error, relation) action \<Rightarrow> bool" where
  "calls repo P m \<longleftrightarrow>
     (\<forall>w r w'. m w = (r, w') \<longrightarrow>
        fst w' = fst w \<and> (\<exists>e. r = Inl e)
        \<or> (\<exists>call. P call \<and> perform repo call (fst w) = (r, fst w')))"

lemma act_bind_assoc: "act_bind (act_bind m f) g = act_bind m (\<lambda>x. act_bind (f x) g)"
  by (intro ext) (simp add: act_bind_def split: prod.splits sum.splits)

lemma quiet_pure [inv_intros]: "quiet (act_pure r)"
  by (simp add: quiet_def act_pure_def)

lemma quiet_query [inv_intros]: "quiet (query f)"
  by (simp add: quiet_def query_def)

lemma quiet_draw [inv_intros]: "quiet (draw c n)"
  by (auto simp: quiet_def draw_def on_ids_def split: prod.splits)

lemma quiet_bind: "quiet m \<Longrightarrow> (\<And>x. quiet (f x)) \<Longrightarrow> quiet (act_bind m f)"
  by (fastforce simp: quiet_def act_bind_def split: prod.splits sum.splits)

lemma calls_bind:
  assumes "quiet m" "\<And>x w w'. m w = (Inr x, w') \<Longrightarrow> calls repo P (f x)"
  shows "calls repo P (act_bind m f)"
  unfolding calls_def
proof (intro allI impI)
  fix w r w' assume run: "act_bind m f w = (r, w')"
  obtain r1 w1 where m: "m w = (r1, w1)" by (cases "m w")
  with assms(1) have same: "fst w1 = fst w" by (metis quiet_def)
  show "fst w' = fst w \<and> (\<exists>e. r = Inl e) \<or> (\<exists>call. P call \<and> perform repo call (fst w) = (r, fst w'))"
  proof (cases r1)
    case (Inl e)
    with run m same show ?thesis by (auto simp: act_bind_def)
  next
    case (Inr x)
    with run m have "f x w1 = (r, w')" by (simp add: act_bind_def)
    with assms(2) [OF m [unfolded Inr]] same show ?thesis by (metis calls_def)
  qed
qed

lemma calls_bind_pure:
  "(\<And>x. r = Inr x \<Longrightarrow> calls repo P (f x)) \<Longrightarrow> calls repo P (act_bind (act_pure r) f)"
  by (rule calls_bind) (auto intro: inv_intros simp: act_pure_def)

lemma calls_bind_query: "(\<And>x. calls repo P (f x)) \<Longrightarrow> calls repo P (act_bind (query q) f)"
  by (rule calls_bind) (auto intro: inv_intros)

lemma calls_bind_draw: "(\<And>x. calls repo P (f x)) \<Longrightarrow> calls repo P (act_bind (draw c n) f)"
  by (rule calls_bind) (auto intro: inv_intros)

lemma calls_repository:
  assumes "P call" "m = perform repo call"
  shows "calls repo P (on_repository m)"
  using assms by (auto simp: calls_def on_repository_def split: prod.splits)

lemmas calls_intros = calls_bind_pure calls_bind_query calls_bind_draw

lemma calls_perform:
  "P (CallCreate p) \<Longrightarrow> calls repo P (on_repository (repo_propose_create repo p))"
  "P (CallRevise p) \<Longrightarrow> calls repo P (on_repository (repo_propose_revision repo p))"
  "P (CallReview w) \<Longrightarrow> calls repo P (on_repository (repo_review repo w))"
  "P (CallSuppress t) \<Longrightarrow> calls repo P (on_repository (repo_suppress repo t))"
  "P (CallRestore t) \<Longrightarrow> calls repo P (on_repository (repo_restore repo t))"
  by (rule calls_repository, assumption, simp add: perform_def)+

lemma validate_metadata_Inr:
  assumes "validate_metadata p reason request_id = Inr m"
  shows "fst m = trim_space (pr_actor p) \<and> fst m \<noteq> [] \<and> length (fst m) \<le> 200
    \<and> fst (snd m) = trim_space reason \<and> fst (snd m) \<noteq> [] \<and> length (fst (snd m)) \<le> 2000
    \<and> snd (snd m) = trim_space request_id \<and> snd (snd m) \<noteq> [] \<and> length (snd (snd m)) \<le> 200
    \<and> known_origin (pr_origin p)"
  using assms by (auto simp: validate_metadata_def Let_def split: if_splits)

text \<open>Who may make a call, and in whose name.\<close>

definition call_of :: "command \<Rightarrow> repository_call \<Rightarrow> bool" where
  "call_of cmd call \<longleftrightarrow>
     authorized cmd \<and> call_actor call = trim_space (pr_actor (command_principal cmd))
     \<and> call_actor call \<noteq> [] \<and> (publishes call \<longrightarrow> can_review (command_principal cmd))"

lemmas call_of_simps = call_of_def call_simps command_simps fail_if_eq_Inr

lemma propose_create_calls: "calls (c_repository c) (call_of (CreateCommand x)) (propose_create c x)"
  unfolding propose_create_def prepare_create_def act_bind_assoc case_prod_beta Let_def
  by (intro calls_intros calls_perform)
    (auto simp: call_of_simps dest!: validate_metadata_Inr)

lemma propose_revision_calls: "calls (c_repository c) (call_of (ReviseCommand x)) (propose_revision c x)"
  unfolding propose_revision_def act_bind_assoc case_prod_beta Let_def
  by (intro calls_intros calls_perform)
    (auto simp: call_of_simps dest!: validate_metadata_Inr)

lemma propose_tombstone_calls:
  "calls (c_repository c) (call_of (TombstoneCommand x)) (propose_tombstone c x)"
  unfolding propose_tombstone_def prepare_tombstone_def prepare_invalidation_def act_bind_assoc
    case_prod_beta Let_def
  by (intro calls_intros calls_perform)
    (auto simp: call_of_simps dest!: validate_metadata_Inr)

lemma review_calls: "calls (c_repository c) (call_of (ReviewCommand x)) (review c x)"
  unfolding review_def case_prod_beta Let_def
  by (intro calls_intros calls_perform)
    (auto simp: call_of_simps dest!: validate_metadata_Inr)

lemma change_state_calls:
  "calls (c_repository c) (call_of (SuppressCommand x)) (suppress c x)"
  "calls (c_repository c) (call_of (RestoreCommand x)) (restore c x)"
  unfolding suppress_def restore_def change_state_def case_prod_beta Let_def
  by (intro calls_intros calls_perform; auto simp: call_of_simps dest!: validate_metadata_Inr)+

lemma run_command_calls: "calls (c_repository c) (call_of cmd) (run_command c cmd)"
  using propose_create_calls propose_revision_calls propose_tombstone_calls review_calls
    change_state_calls
  by (cases cmd) (simp_all add: run_command_def)

lemma unauthorized_run:
  "\<not> authorized cmd \<Longrightarrow> run_command c cmd w = (Inl ErrForbidden, w)"
  by (cases cmd)
    (simp_all add: command_simps propose_create_def prepare_create_def propose_revision_def
      propose_tombstone_def prepare_tombstone_def prepare_invalidation_def review_def suppress_def
      restore_def change_state_def act_bind_assoc)

subsection \<open>The contract\<close>

locale relation_repository =
  fixes repo answered :: "'s repository"
    and edges :: "'s \<Rightarrow> int \<Rightarrow> 'e list"
    and trail :: "'s \<Rightarrow> audit_row list"
  assumes failure_frame: "perform repo call s = (Inl err, s') \<Longrightarrow>
      s' = s \<or> err = ContextEnded \<and> (\<exists>r. perform answered call s = (Inr r, s'))"
    and success_frame: "perform repo call s = (Inr r, s') \<Longrightarrow> perform answered call s = (Inr r, s')"
    and graph_frame: "perform answered call s = (Inr r, s') \<Longrightarrow>
      \<not> publishes call \<or> i \<noteq> call_target call \<Longrightarrow> edges s' i = edges s i"
    and one_record: "perform answered call s = (Inr r, s') \<Longrightarrow>
      \<exists>au. trail s' = trail s @ [au] \<and> ar_actor au = call_actor call \<and> ar_subject au = call_target call"
begin

lemma failed_command:
  assumes "c_repository c = repo" "run_command c cmd (s, g) = (Inl err, (s', g'))"
  shows "s' = s \<or> err = ContextEnded \<and> (\<exists>call r. call_of cmd call \<and> perform answered call s = (Inr r, s'))"
proof -
  have "s' = s \<or> (\<exists>call. call_of cmd call \<and> perform repo call s = (Inl err, s'))"
    using run_command_calls [of c cmd] assms unfolding calls_def by fastforce
  then show ?thesis using failure_frame by blast
qed

lemma successful_command:
  assumes "c_repository c = repo" "run_command c cmd (s, g) = (Inr r, (s', g'))"
  shows "\<exists>call. call_of cmd call \<and> perform answered call s = (Inr r, s')"
proof -
  have "\<exists>call. call_of cmd call \<and> perform repo call s = (Inr r, s')"
    using run_command_calls [of c cmd] assms unfolding calls_def by fastforce
  then show ?thesis using success_frame by blast
qed

lemma graph_changed_by_reviewer:
  assumes "c_repository c = repo" "run_command c cmd (s, g) = (res, (s', g'))"
    and "edges s' i \<noteq> edges s i"
  shows "authorized cmd \<and> can_review (command_principal cmd)"
proof -
  have "s' \<noteq> s" using assms(3) by auto
  then obtain call r where call: "call_of cmd call" "perform answered call s = (Inr r, s')"
    using failed_command [OF assms(1), of cmd s g _ s' g'] successful_command [OF assms(1), of cmd s g _ s' g'] assms(2)
    by (cases res) blast+
  with graph_frame assms(3) have "publishes call" by blast
  with call(1) show ?thesis by (simp add: call_of_def)
qed

lemma command_recorded:
  assumes "c_repository c = repo" "run_command c cmd (s, g) = (Inr r, (s', g'))"
  shows "authorized cmd \<and> (\<exists>au. trail s' = trail s @ [au]
    \<and> ar_actor au = trim_space (pr_actor (command_principal cmd)) \<and> ar_actor au \<noteq> [])"
proof -
  obtain call where call: "call_of cmd call" "perform answered call s = (Inr r, s')"
    using successful_command [OF assms] by blast
  with one_record [OF call(2)] show ?thesis by (auto simp: call_of_def)
qed

end

end
