(* ===== verification/RelationReferences.thy ===== *)
theory RelationReferences
  imports RelationCommands ConditionSemantics
begin

section \<open>What the references of a revision are good for\<close>

text \<open>
  The references stored with a revision are exactly the columns its guard, selector and
  transform mention, sorted and without repetition, and they are enough to evaluate it: two
  contexts that agree on them and on the parameters give the same results.
\<close>

lemma collect_references_iff:
  "r \<in> set (collect_boolean_references e role) \<longleftrightarrow>
     ref_role r = role \<and> 0 < ref_node r \<and> MissingReference (ref_node r) [] \<in> refs_boolean e"
  "r \<in> set (collect_value_references v role) \<longleftrightarrow>
     ref_role r = role \<and> 0 < ref_node r \<and> MissingReference (ref_node r) [] \<in> refs_value v"
  "r \<in> set (collect_branch_references b role) \<longleftrightarrow>
     ref_role r = role \<and> 0 < ref_node r \<and> MissingReference (ref_node r) [] \<in> refs_branch b"
proof (induction e and v and b rule: boolean.induct "value.induct" branch.induct)
  case (Boolean k op children operand left right vals)
  then show ?case
    by (cases operand; cases left; cases right) auto
next
  case (Value k nid p lit cases els)
  then show ?case
    by (cases els; cases r) (auto split: if_splits)
qed auto

definition optional_refs :: "boolean option \<Rightarrow> missing_reference set" where
  "optional_refs b = (case b of None \<Rightarrow> {} | Some e \<Rightarrow> refs_boolean e)"

lemma collect_optional_iff:
  "r \<in> set (collect_optional_references b role) \<longleftrightarrow>
     ref_role r = role \<and> 0 < ref_node r \<and> MissingReference (ref_node r) [] \<in> optional_refs b"
  by (simp add: collect_optional_references_def optional_refs_def collect_references_iff split: option.splits)

text \<open>The expressions of a revision by the role their references have.\<close>

definition refs_of_role :: "validated_content \<Rightarrow> reference_role \<Rightarrow> missing_reference set" where
  "refs_of_role c role =
     (case role of
        ReferenceGuard \<Rightarrow> optional_refs (vc_guard c)
      | ReferenceSelector \<Rightarrow> optional_refs (vc_selector c)
      | ReferenceTransform \<Rightarrow> refs_value (vc_transform c))"

lemma references_for_content_set:
  "r \<in> set (references_for_content c) \<longleftrightarrow>
     0 < ref_node r \<and> MissingReference (ref_node r) [] \<in> refs_of_role c (ref_role r)"
  by (cases "ref_role r")
    (auto simp: references_for_content_def collect_optional_iff collect_references_iff refs_of_role_def)

lemma references_for_content_sorted: "sorted_wrt (<) (references_for_content c)"
  unfolding references_for_content_def by (rule strict_sort_dedup)

lemma validate_content_result:
  assumes "validate_content cd source target guard selector transform confidence evidence
    = Inr (content, references)"
  shows "references = references_for_content content"
    and "vc_source content = source" "vc_target content = target"
    and "0 < source" "0 < target" "source \<noteq> target" "valid_confidence confidence"
    and "vc_confidence content = confidence" "validate_evidence evidence = Inr (vc_evidence content)"
    and "copy_boolean cd guard = Inr (vc_guard content)"
    and "copy_boolean cd selector = Inr (vc_selector content)"
    and "copy_value cd transform = Inr (vc_transform content)"
  using assms by (auto simp: validate_content_def result_simps Let_def)

subsection \<open>Evaluation reads only references\<close>

definition same_on :: "missing_reference set \<Rightarrow> prepared_context \<Rightarrow> prepared_context \<Rightarrow> bool" where
  "same_on A pc pc' \<longleftrightarrow> p_parameters pc = p_parameters pc'
     \<and> (\<forall>n. 0 < n \<longrightarrow> MissingReference n [] \<in> A \<longrightarrow> p_columns pc n = p_columns pc' n)"

lemma same_on_subset: "same_on B pc pc' \<Longrightarrow> A \<subseteq> B \<Longrightarrow> same_on A pc pc'"
  by (auto simp: same_on_def)

lemma pick_case_cong:
  "\<forall>c\<in>set cs. boolean_result pc (c_when c) = boolean_result pc' (c_when c)
     \<and> value_result pc (c_then c) = value_result pc' (c_then c) \<Longrightarrow>
   value_result pc e = value_result pc' e \<Longrightarrow> pick_case pc cs e = pick_case pc' cs e"
  by (induction pc cs e rule: pick_case.induct) (auto split: truth.splits)

lemma results_same_on:
  "wf_boolean lm e \<Longrightarrow> same_on (refs_boolean e) pc pc' \<Longrightarrow> boolean_result pc e = boolean_result pc' e"
  "wf_value lm v \<Longrightarrow> same_on (refs_value v) pc pc' \<Longrightarrow> value_result pc v = value_result pc' v"
  "wf_branch lm c \<Longrightarrow> same_on (refs_branch c) pc pc' \<Longrightarrow>
     boolean_result pc (c_when c) = boolean_result pc' (c_when c)
     \<and> value_result pc (c_then c) = value_result pc' (c_then c)"
proof (induction rule: wf_boolean_wf_value_wf_branch.inducts)
  case (wf_junction k bs)
  have "boolean_result pc b = boolean_result pc' b" if "b \<in> set bs" for b
    using wf_junction(5) that same_on_subset [OF wf_junction(6), of "refs_boolean b"] by auto
  then have "map (boolean_result pc) bs = map (boolean_result pc') bs"
    and "(\<exists>b\<in>set bs. truth_of (boolean_result pc b) = t) = (\<exists>b\<in>set bs. truth_of (boolean_result pc' b) = t)" for t
    by auto
  with wf_junction show ?case
    by (auto simp: result_and [of _ lm] result_or [of _ lm] simp del: map_eq_conv)
next
  case (wf_membership k vs l)
  have "value_result pc v = value_result pc' v" if "v \<in> set vs" for v
    using wf_membership that same_on_subset [OF wf_membership(8), of "refs_value v"] by auto
  then have "map (value_result pc) vs = map (value_result pc') vs" by simp
  moreover have "value_result pc l = value_result pc' l"
    using wf_membership same_on_subset [OF wf_membership(8), of "refs_value l"] by auto
  ultimately show ?case using wf_membership by (simp add: result_membership [of _ lm] del: map_eq_conv)
next
  case (wf_case cs e)
  have "boolean_result pc (c_when c) = boolean_result pc' (c_when c)
     \<and> value_result pc (c_then c) = value_result pc' (c_then c)" if "c \<in> set cs" for c
    using wf_case that same_on_subset [OF wf_case(7), of "refs_branch c"] by auto
  moreover have "value_result pc e = value_result pc' e"
    using wf_case same_on_subset [OF wf_case(7), of "refs_value e"] by auto
  ultimately have "pick_case pc cs e = pick_case pc' cs e"
    by (intro pick_case_cong) auto
  with wf_case show ?case by (simp add: result_case [of _ lm])
qed (auto simp: result_not [of lm] result_compare [of lm] result_null_test [of _ lm] result_column
    result_parameter result_literal [of _ lm] same_on_def)

lemma evaluate_same_on:
  "same_on (refs_boolean e) pc pc' \<Longrightarrow> evaluate_boolean_prepared e pc = evaluate_boolean_prepared e pc'"
  "same_on (refs_value v) pc pc' \<Longrightarrow> evaluate_value_prepared v pc = evaluate_value_prepared v pc'"
proof -
  assume same: "same_on (refs_boolean e) pc pc'"
  show "evaluate_boolean_prepared e pc = evaluate_boolean_prepared e pc'"
  proof (cases "validate_boolean e default_limits")
    case (Inr u)
    then have wf: "wf_boolean default_limits e" by (intro validate_boolean_wf) simp
    then show ?thesis
      using Inr boolean_result [OF wf] results_same_on(1) [OF wf same]
      by (simp add: evaluate_boolean_prepared_def)
  qed (simp add: evaluate_boolean_prepared_def)
next
  assume same: "same_on (refs_value v) pc pc'"
  show "evaluate_value_prepared v pc = evaluate_value_prepared v pc'"
  proof (cases "validate_value v default_limits")
    case (Inr u)
    then have wf: "wf_value default_limits v" by (intro validate_value_wf) simp
    then show ?thesis
      using Inr value_result [OF wf] results_same_on(2) [OF wf same]
      by (simp add: evaluate_value_prepared_def)
  qed (simp add: evaluate_value_prepared_def)
qed

subsection \<open>Properties\<close>

text \<open>
  Content that passes the checks is stored with exactly the column references its guard,
  selector and transform make: strictly sorted by role and node, each a positive node the
  expression of that role mentions, and none of them left out.
\<close>

theorem references_complete:
  assumes "validate_content cd source target guard selector transform confidence evidence
    = Inr (content, references)"
  shows "sorted_wrt (<) references
    \<and> (\<forall>n role. Reference n role \<in> set references
         = (0 < n \<and> MissingReference n [] \<in> refs_of_role content role))"
  using validate_content_result(1) [OF assms] references_for_content_sorted [of content]
  by (simp add: references_for_content_set)

text \<open>
  C34. The stored references are all a trace needs to know about a relation's columns: two
  prepared contexts that agree on the parameters and on the columns referenced under a role
  evaluate the expression of that role alike, results and errors included.
\<close>

theorem references_suffice:
  assumes "validate_content cd source target guard selector transform confidence evidence
      = Inr (content, references)"
    and "p_parameters pc = p_parameters pc'"
    and "\<forall>r\<in>set references. p_columns pc (ref_node r) = p_columns pc' (ref_node r)"
  shows "map_option (\<lambda>e. evaluate_boolean_prepared e pc) (vc_guard content)
      = map_option (\<lambda>e. evaluate_boolean_prepared e pc') (vc_guard content)
    \<and> map_option (\<lambda>e. evaluate_boolean_prepared e pc) (vc_selector content)
      = map_option (\<lambda>e. evaluate_boolean_prepared e pc') (vc_selector content)
    \<and> evaluate_value_prepared (vc_transform content) pc
      = evaluate_value_prepared (vc_transform content) pc'"
proof -
  have same: "same_on (refs_of_role content role) pc pc'" for role
    unfolding same_on_def
  proof (intro conjI allI impI)
    fix n :: int assume "0 < n" "MissingReference n [] \<in> refs_of_role content role"
    then have "Reference n role \<in> set references"
      using validate_content_result(1) [OF assms(1)] by (simp add: references_for_content_set)
    with assms(3) show "p_columns pc n = p_columns pc' n" by fastforce
  qed (rule assms(2))
  show ?thesis
    using same [of ReferenceGuard] same [of ReferenceSelector] same [of ReferenceTransform]
    by (cases "vc_guard content"; cases "vc_selector content")
      (simp_all add: refs_of_role_def optional_refs_def evaluate_same_on)
qed

end
