(* ===== verification/RelationProperties.thy ===== *)
theory RelationProperties
  imports RelationContract RelationReferences
begin

section \<open>Properties of relations\<close>

text \<open>
  The SQLite repository provides the contract of the commands (\<open>sqlite\<close>), and the properties
  of the lifecycle follow for every database that the operations can reach.
\<close>

subsection \<open>The repository provides the contract\<close>

lemma perform_record:
  assumes "perform (sqlite_repository cd eng) call d = (Inr r, d')"
  shows "\<exists>au. audit_t d' = audit_t d @ [au] \<and> ar_actor au = call_actor call
    \<and> ar_subject au = call_target call"
  using assms
proof (cases rule: perform_cases)
  case (create p)
  then obtain row where "d' = created_tables p row d" using create_effect by blast
  with create(1) show ?thesis
    by (simp add: created_tables_def Let_def call_simps author_def)
next
  case (revise p)
  then obtain row where "d' = revised_tables p row d" using revise_effect by blast
  with revise(1) show ?thesis
    by (simp add: revised_tables_def Let_def frame_simps call_simps author_def)
next
  case (review w)
  obtain current proposed es where "d' = rejected_tables w proposed d \<or> d' = approved_tables w current proposed es d"
    using review_effect [OF review(2)] by (metis (full_types))
  with review(1) show ?thesis
    by (auto simp: rejected_tables_def approved_tables_def case_prod_beta frame_simps review_audit_def
        call_simps)
next
  case (suppress t)
  obtain i es where "d' = changed_tables True t i es d" using change_effect [OF suppress(2)] by blast
  with suppress(1) show ?thesis by (simp add: changed_tables_def frame_simps call_simps)
next
  case (restore t)
  obtain i es where "d' = changed_tables False t i es d" using change_effect [OF restore(2)] by blast
  with restore(1) show ?thesis by (simp add: changed_tables_def frame_simps call_simps)
qed

lemma edges_of_effective: "effective_t d = effective_t d' \<Longrightarrow> edges_of d i = edges_of d' i"
  by (simp add: edges_of_def)

lemma edges_of_suppressions [simp]: "edges_of (d\<lparr>suppressions_t := ss\<rparr>) i = edges_of d i"
  by (simp add: edges_of_def)

lemma perform_graph:
  assumes "perform (sqlite_repository cd eng) call d = (Inr r, d')"
    and "\<not> publishes call \<or> i \<noteq> call_target call"
  shows "edges_of d' i = edges_of d i"
  using assms(1)
proof (cases rule: perform_cases)
  case (create p)
  then obtain row where "d' = created_tables p row d" using create_effect by blast
  then show ?thesis by (intro edges_of_effective) (simp add: created_tables_def Let_def frame_simps)
next
  case (revise p)
  then obtain row where "d' = revised_tables p row d" using revise_effect by blast
  then show ?thesis by (intro edges_of_effective) (simp add: revised_tables_def Let_def frame_simps)
next
  case (review w)
  note e = review_effect [OF review(2)]
  show ?thesis
  proof (cases "w_decision w = DecisionReject")
    case True
    with e obtain proposed where "d' = rejected_tables w proposed d" by auto
    then show ?thesis by (simp add: rejected_tables_def edges_of_updated)
  next
    case False
    with e obtain current proposed es where
      t: "d' = approved_tables w current proposed es d" and
      es: "\<forall>e\<in>set es. ee_relation e = w_relation_id w"
      by (auto simp: edge_publishes_def split: if_splits)
    from assms(2) review(1) False have "i \<noteq> w_relation_id w" by (simp add: call_simps)
    with t es show ?thesis
      by (simp add: approved_tables_def case_prod_beta edges_of_with_edges edges_of_updated)
  qed
next
  case (suppress t)
  obtain i es where "d' = changed_tables True t i es d" "es = []" using change_effect [OF suppress(2)] by auto
  with suppress(1) assms(2) show ?thesis
    by (auto simp: changed_tables_def call_simps edges_of_with_edges edges_of_updated)
next
  case (restore t)
  obtain j es where t: "d' = changed_tables False t j es d" "\<forall>e\<in>set es. ee_relation e = t_relation_id t"
    using change_effect [OF restore(2)] by (auto simp: edge_publishes_def)
  with restore(1) assms(2) show ?thesis
    by (auto simp: changed_tables_def call_simps edges_of_with_edges edges_of_updated)
qed

interpretation sqlite: relation_repository "sqlite_repository cd eng" "sqlite_repository cd (awaited eng)" edges_of audit_t
  for cd eng
  by unfold_locales (rule perform_failure perform_awaited perform_graph perform_record; assumption)+

subsection \<open>Reachable databases\<close>

inductive db_reachable :: "codec \<Rightarrow> db \<Rightarrow> bool" for cd where
  db_start: "db_reachable cd (empty_db nodes declared)"
| db_call: "db_reachable cd d \<Longrightarrow> perform (sqlite_repository cd eng) call d = (res, d') \<Longrightarrow>
    db_reachable cd d'"

lemma reachable_invariant:
  assumes "codec_stable cd" "db_reachable cd d"
  shows "store_inv cd d"
  using assms(2)
proof induction
  case (db_call d eng call res d')
  from db_call.hyps(2) show ?case
    by (cases rule: perform_outcome) (use perform_invariant [OF assms(1) db_call.IH] db_call.IH in blast)+
qed (rule store_inv_empty)

text \<open>
  C5. Whatever sequence of calls a database has served, successful or failed, with any
  refusals by SQLite in between: relation ids, fingerprints, version ids and revision numbers
  are unique, every relation has one current row whose revisions run from 1 to the latest and
  which satisfies the trigger's condition, and a relation has exactly one effective edge, with
  the content of its active version, when it is approved and none otherwise.
\<close>

theorem relation_tables_invariant:
  "codec_stable cd \<Longrightarrow> db_reachable cd d \<Longrightarrow> store_inv cd d"
  by (rule reachable_invariant)

text \<open>
  C4. The repository implements the lifecycle: a call that succeeds was allowed in the state
  its relation was in, takes the relation to the state the specification gives, and leaves
  the state of every other relation as it was.
\<close>

theorem relation_lifecycle_refined:
  assumes "codec_stable cd" "db_reachable cd d"
    and "perform (sqlite_repository cd eng) call d = (Inr r, d')"
  shows "lifecycle_allows call (lifecycle_of d (call_target call))
    \<and> lifecycle_of d' (call_target call) = lifecycle_step call (lifecycle_of d (call_target call))
    \<and> (\<forall>j. j \<noteq> call_target call \<longrightarrow> lifecycle_of d' j = lifecycle_of d j)"
  using perform_refines [OF reachable_invariant [OF assms(1,2)] assms(3)] .

text \<open>
  A proposal is decided once: after a review succeeded, another review of the same
  relation, whatever revision it expects and however it decides, fails and changes nothing.
\<close>

theorem proposal_decided_once:
  assumes "codec_stable cd" "db_reachable cd d"
    and "perform (sqlite_repository cd eng) (CallReview w) d = (Inr r, d')"
    and "w_relation_id w' = w_relation_id w"
  shows "\<exists>err. perform (sqlite_repository cd eng') (CallReview w') d' = (Inl err, d')"
proof -
  have inv: "store_inv cd d" by (rule reachable_invariant [OF assms(1,2)])
  have inv': "store_inv cd d'" by (rule perform_invariant [OF assms(1) inv assms(3)])
  have refused: False if "perform (sqlite_repository cd e) (CallReview w') d' = (Inr r', d'')" for e r' d''
  proof -
    have step: "lifecycle_of d' (w_relation_id w) = lifecycle_step (CallReview w) (lifecycle_of d (w_relation_id w))"
      using perform_refines [OF inv assms(3)] by (simp add: call_target_def)
    have "lifecycle_allows (CallReview w') (lifecycle_of d' (w_relation_id w))"
      using perform_refines [OF inv' that] assms(4) by (simp add: call_target_def)
    with step show False
      by (auto split: option.splits if_splits)
  qed
  obtain res d'' where run: "perform (sqlite_repository cd eng') (CallReview w') d' = (res, d'')"
    by fastforce
  then obtain err where "res = Inl err" using refused by (cases res) blast+
  with run perform_failure refused show ?thesis by blast
qed

text \<open>
  C1. Approving a content proposal publishes exactly that proposal: the relation then has one
  effective edge, with the version id, the endpoints, the guard, selector and transform texts
  and the confidence of the version that was pending.
\<close>

theorem approval_publishes_proposal:
  assumes "codec_stable cd" "db_reachable cd d"
    and "perform (sqlite_repository cd eng) (CallReview w) d = (Inr r, d')"
    and "w_decision w = DecisionApprove"
    and "lifecycle_of d (w_relation_id w) = Some l" "lc_proposed l = Some ProposalContent"
  shows "\<exists>c i e. find_current d (w_relation_id w) = Some c \<and> cr_proposed c = Some i
    \<and> edges_of d' (w_relation_id w) = [e] \<and> edge_shows d' i e \<and> r_status r = StatusApproved"
proof -
  let ?i = "w_relation_id w"
  have inv: "store_inv cd d" by (rule reachable_invariant [OF assms(1,2)])
  have enc: "\<forall>v\<in>set (versions_t d). encoded_version cd v" using inv by (simp add: store_inv_def)
  have op: "review_operation cd eng w d = Inr (r, d')"
    using assms(3) by (simp add: perform_sqlite transaction_Inr)
  obtain current proposed c i where e: "find_current d ?i = Some c" "cr_proposed c = Some i"
      "load_relation_revision cd d i = Inr proposed" "load_relation cd d' ?i = Inr r" and
    branch: "\<exists>es. d' = approved_tables w current proposed es d
         \<and> (if rv_kind proposed = ProposalContent
            then \<exists>e. es = [e] \<and> edge_publishes cd ?i (r_type current) proposed (w_occurred_at w) e
            else es = [])"
    using review_effect [OF op] unfolding assms(4) by (simp only: decision.distinct if_False) blast
  have content: "rv_kind proposed = ProposalContent"
    using load_revision_kind [OF e(3)] assms(5,6) e(1,2) by (auto simp: lifecycle_of_def)
  with branch obtain edge where t: "d' = approved_tables w current proposed [edge] d"
      and pub: "edge_publishes cd ?i (r_type current) proposed (w_occurred_at w) edge"
    by auto
  have "edges_of d' ?i = [edge]"
    using t pub by (simp add: approved_tables_def case_prod_beta edges_of_with_edges edge_publishes_def)
  moreover have "edge_shows d' i edge"
    using published_text [OF assms(1) enc e(3) pub] t
    by (simp add: edge_shows_def approved_tables_def case_prod_beta frame_simps)
  moreover have "r_status r = StatusApproved"
  proof -
    have "find_current d' ?i = Some (approved_change w ProposalContent c)"
      using t e(1) content
      by (simp add: approved_tables_def case_prod_beta find_current_with_edges find_current_updated
          approved_change_def)
    moreover obtain cc where "find_current d' ?i = Some cc" "r_status r = cr_status cc"
      by (rule load_relation_Inr [OF e(4)])
    ultimately show ?thesis by (simp add: approved_change_def approved_status_def)
  qed
  ultimately show ?thesis using e by blast
qed

text \<open>
  C3. Only a reviewer or an administrator can change what the graph shows: if running a
  command changed the effective edges of any relation, its principal has the reviewer or the
  admin role and the command was one the role may give.
\<close>

theorem only_reviewers_change_the_graph:
  assumes "c_repository c = sqlite_repository cd eng"
    and "run_command c cmd (d, g) = (res, (d', g'))"
    and "edges_of d' i \<noteq> edges_of d i"
  shows "authorized cmd \<and> can_review (command_principal cmd)"
  using assms by (rule sqlite.graph_changed_by_reviewer)

text \<open>
  C24. A command that fails leaves the database as it was, with one exception that \<^verbatim>\<open>Store.write\<close>
  makes: when the error is that the caller's context ended while the write was queued, the one
  call that the command makes of the repository may have been carried out, and then it was
  carried out in full, as when the answer is awaited. A principal whose role does not allow the
  command is refused before anything is read, and before an id is drawn.
\<close>

theorem failed_commands_all_or_nothing:
  assumes "c_repository c = sqlite_repository cd eng"
  shows "(\<forall>err d' g'. run_command c cmd (d, g) = (Inl err, (d', g')) \<longrightarrow>
      d' = d \<or> err = ContextEnded \<and> (\<exists>call r. call_of cmd call
        \<and> perform (sqlite_repository cd (awaited eng)) call d = (Inr r, d')))
    \<and> (\<not> authorized cmd \<longrightarrow> run_command c cmd (d, g) = (Inl ErrForbidden, (d, g)))"
  using sqlite.failed_command [OF assms] unauthorized_run by blast

text \<open>
  C31. Every command that succeeds leaves exactly one new audit record, under the trimmed,
  non-empty name of the principal who gave it, and only authorized commands succeed.
\<close>

theorem successful_commands_recorded:
  assumes "c_repository c = sqlite_repository cd eng"
    and "run_command c cmd (d, g) = (Inr r, (d', g'))"
  shows "authorized cmd \<and> (\<exists>au. audit_t d' = audit_t d @ [au]
    \<and> ar_actor au = trim_space (pr_actor (command_principal cmd)) \<and> ar_actor au \<noteq> [])"
  using assms by (rule sqlite.command_recorded)

text \<open>
  C32. History is only appended to: a successful call keeps every version, its endpoints,
  references and evidence, every event and every audit record, in place, and adds an event and
  one audit record.
\<close>

theorem history_append_only:
  assumes "perform (sqlite_repository cd eng) call d = (Inr r, d')"
  shows "\<exists>vs ps rs evs es. versions_t d' = versions_t d @ vs \<and> endpoints_t d' = endpoints_t d @ ps
    \<and> references_t d' = references_t d @ rs \<and> evidence_t d' = evidence_t d @ evs
    \<and> events_t d' = events_t d @ es \<and> es \<noteq> [] \<and> (\<exists>au. audit_t d' = audit_t d @ [au])"
  using assms perform_record [OF assms]
proof (cases rule: perform_cases)
  case (create p)
  then obtain row where "d' = created_tables p row d" using create_effect by blast
  then show ?thesis by (simp add: created_tables_def with_version_def Let_def)
next
  case (revise p)
  then obtain row where "d' = revised_tables p row d" using revise_effect by blast
  then show ?thesis by (simp add: revised_tables_def updated_tables_def with_version_def Let_def)
next
  case (review w)
  obtain current proposed es where "d' = rejected_tables w proposed d \<or> d' = approved_tables w current proposed es d"
    using review_effect [OF review(2)] by (metis (full_types))
  then show ?thesis
    by (auto simp: rejected_tables_def approved_tables_def case_prod_beta frame_simps)
next
  case (suppress t)
  obtain i es where "d' = changed_tables True t i es d" using change_effect [OF suppress(2)] by blast
  then show ?thesis by (simp add: changed_tables_def frame_simps)
next
  case (restore t)
  obtain i es where "d' = changed_tables False t i es d" using change_effect [OF restore(2)] by blast
  then show ?thesis by (simp add: changed_tables_def frame_simps)
qed

text \<open>
  C33. A confidence survives storage: the basis points of a version, read as a float64 and
  written again with the effective edge, are the same basis points, rounding included, and a
  confidence that passes the checks is stored within the column's bounds.
\<close>

theorem confidence_survives_storage:
  "(0 \<le> b \<and> b \<le> 10000 \<longrightarrow> confidence_bps (Finite (float64 (of_int b / 10000))) = Inr b)
   \<and> (valid_confidence c \<longrightarrow> (\<exists>b. confidence_bps c = Inr b \<and> 0 \<le> b \<and> b \<le> 10000))"
  using basis_points_stable go_round_bounds
  by (auto simp: confidence_bps_def valid_confidence_def split: go_float.splits)

text \<open>What a prepared creation holds.\<close>

lemma prepare_create_Inr:
  assumes "prepare_create c x w = (Inr p, w')"
  shows "validate_evidence (pc_evidence x) = Inr (rv_evidence (p_revision p))
    \<and> rv_revision_no (p_revision p) = 1 \<and> p_relation_id p = rv_relation_id (p_revision p)
    \<and> (\<exists>m. validate_metadata (pc_principal x) (pc_reason x) (pc_request_id x) = Inr m
         \<and> rv_actor (p_revision p) = fst m \<and> rv_reason (p_revision p) = fst (snd m)
         \<and> rv_request_id (p_revision p) = snd (snd m))"
  using assms
  by (auto simp: prepare_create_def result_simps case_prod_beta Let_def
      dest: validate_content_result(9))

lemma validate_evidence_Inr:
  assumes "validate_evidence es = Inr copied"
  shows "1 \<le> length copied \<and> length copied \<le> 20
    \<and> (\<forall>e\<in>set copied. user_evidence_kind (ev_kind e) \<and> ev_repository e \<noteq> [] \<and> ev_commit e \<noteq> []
        \<and> ev_file e \<noteq> [] \<and> length (ev_repository e) \<le> 500 \<and> length (ev_commit e) \<le> 200
        \<and> length (ev_file e) \<le> 2000 \<and> length (ev_symbol e) \<le> 2000
        \<and> 1 \<le> ev_start_line e \<and> ev_start_line e \<le> ev_end_line e
        \<and> ev_end_line e - ev_start_line e \<le> 10000)"
proof -
  from assms have run: "map_result validate_evidence_item es = Inr copied"
    and n: "1 \<le> length es" "length es \<le> 20"
    by (auto simp: validate_evidence_def result_simps maximum_evidence_items_def Suc_le_eq)
  have "\<exists>x. validate_evidence_item x = Inr e" if "e \<in> set copied" for e
    using map_result_preimage [OF run that] by blast
  with n map_result_length [OF run] show ?thesis
    by (fastforce simp: validate_evidence_item_def Let_def maximum_evidence_text_def split: if_splits)
qed

text \<open>
  What a successful create command stores is within the limits: one version, numbered 1,
  with confidence points between 0 and 10000 and actor, reason and request id of 1 to 200,
  2000 and 200 bytes, and between 1 and 20 evidence rows of that version, each of a kind a
  user may give, with its texts present and bounded and its line span at most 10000.
\<close>

theorem created_revision_bounds:
  assumes "c_repository c = sqlite_repository cd eng"
    and "run_command c (CreateCommand x) (d, g) = (Inr r, (d', g'))"
  shows "\<exists>row evs. versions_t d' = versions_t d @ [row] \<and> evidence_t d' = evidence_t d @ evs
    \<and> vr_revision_no row = 1 \<and> 0 \<le> vr_confidence_bps row \<and> vr_confidence_bps row \<le> 10000
    \<and> length (vr_actor row) \<in> {1..200} \<and> length (vr_reason row) \<in> {1..2000}
    \<and> length (vr_request_id row) \<in> {1..200}
    \<and> length evs \<in> {1..20}
    \<and> (\<forall>ev\<in>set evs. er_version ev = vr_id row \<and> user_evidence_kind (ev_kind (er_item ev))
        \<and> length (ev_repository (er_item ev)) \<in> {1..500} \<and> length (ev_commit (er_item ev)) \<in> {1..200}
        \<and> length (ev_file (er_item ev)) \<in> {1..2000} \<and> length (ev_symbol (er_item ev)) \<le> 2000
        \<and> 1 \<le> ev_start_line (er_item ev)
        \<and> ev_end_line (er_item ev) - ev_start_line (er_item ev) \<in> {0..10000})"
proof -
  obtain p w where p: "prepare_create c x (d, g) = (Inr p, w)"
      "on_repository (repo_propose_create (c_repository c) p) w = (Inr r, (d', g'))"
    using assms(2) by (auto simp: run_command_def propose_create_def result_simps)
  have "quiet (prepare_create c x)"
    unfolding prepare_create_def case_prod_beta Let_def by (intro quiet_bind inv_intros)
  then have "fst w = d" using p(1) unfolding quiet_def by fastforce
  with p(2) assms(1) have op: "insert_create_proposal cd eng p d = Inr (r, d')"
    by (auto simp: on_repository_def sqlite_repository_def transaction_Inr split: prod.splits)
  then obtain row where row: "d' = created_tables p row d" "row_encodes cd p row"
    using create_effect by blast
  note made = prepare_create_Inr [OF p(1)]
  note limits = validate_evidence_Inr [OF conjunct1 [OF made]]
  let ?es = "rv_evidence (p_revision p)"
  let ?evs = "map (evidence_row_of (p_version_id p)) (zip [0..<length ?es] ?es)"
  have t: "versions_t d' = versions_t d @ [row]" "evidence_t d' = evidence_t d @ ?evs"
    using row(1) by (simp_all add: created_tables_def with_version_def Let_def)
  have "\<forall>ev\<in>set ?evs. er_version ev = p_version_id p \<and> er_item ev \<in> set ?es"
    by (auto simp: evidence_row_of_def dest: set_zip_rightD)
  then have items: "\<forall>ev\<in>set ?evs. er_version ev = vr_id row \<and> user_evidence_kind (ev_kind (er_item ev))
        \<and> length (ev_repository (er_item ev)) \<in> {1..500} \<and> length (ev_commit (er_item ev)) \<in> {1..200}
        \<and> length (ev_file (er_item ev)) \<in> {1..2000} \<and> length (ev_symbol (er_item ev)) \<le> 2000
        \<and> 1 \<le> ev_start_line (er_item ev)
        \<and> ev_end_line (er_item ev) - ev_start_line (er_item ev) \<in> {0..10000}"
    using limits row_encodes_keys [OF row(2)] by (simp add: Suc_le_eq)
  have "length (vr_actor row) \<in> {1..200} \<and> length (vr_reason row) \<in> {1..2000}
    \<and> length (vr_request_id row) \<in> {1..200}"
    using made row(2) validate_metadata_Inr
    by (fastforce simp: row_encodes_def version_row_of_def Let_def Suc_le_eq)
  moreover have "0 \<le> vr_confidence_bps row \<and> vr_confidence_bps row \<le> 10000 \<and> vr_revision_no row = 1"
    using row(2) made by (auto simp: row_encodes_def)
  ultimately show ?thesis
    using t items limits by (intro exI [of _ row] exI [of _ ?evs]) simp
qed

subsection \<open>A run\<close>

text \<open>
  A relation from column 1 to column 2 is proposed by an agent and approved by a reviewer,
  with a codec that knows one expression.
\<close>

definition sample_value :: "value" where
  "sample_value = Value ValueColumnCopy 1 [] None [] None"

definition sample_codec :: codec where
  "sample_codec =
     \<lparr>marshal_boolean = (\<lambda>_. None), unmarshal_boolean = (\<lambda>_. None),
      marshal_value = (\<lambda>v. if v = sample_value then Some ''{}'' else None),
      unmarshal_value = (\<lambda>s. if s = ''{}'' then Some sample_value else None)\<rparr>"

definition sample_commands :: "(db, int) commands" where
  "sample_commands =
     \<lparr>c_repository = sqlite_repository sample_codec (\<lambda>_. True), c_ids = (\<lambda>g. (Inr g, g + 1)),
      c_now = 0, c_codec = sample_codec, c_digest = (\<lambda>_. Some ''f'')\<rparr>"

definition sample_principal :: "role \<Rightarrow> principal" where
  "sample_principal role = \<lparr>pr_actor = ''a'', pr_role = role, pr_origin = OriginAgent\<rparr>"

definition sample_evidence :: evidence_input where
  "sample_evidence =
     \<lparr>ev_kind = EvidenceCode, ev_repository = ''r'', ev_commit = ''c'', ev_file = ''f'',
      ev_symbol = [], ev_start_line = 1, ev_end_line = 1, ev_data_source_id = 0,
      ev_constraint_schema = [], ev_constraint_name = [], ev_scan_run_id = 0\<rparr>"

definition sample_create :: command where
  "sample_create = CreateCommand
     \<lparr>pc_type = TypeConditionalValueCopy, pc_source = 1, pc_target = 2, pc_guard = None,
      pc_selector = None, pc_transform = sample_value, pc_confidence = Finite 0,
      pc_evidence = [sample_evidence], pc_principal = sample_principal RoleAgent,
      pc_reason = ''b'', pc_request_id = ''q''\<rparr>"

definition sample_start :: "db \<times> int" where
  "sample_start = (empty_db [1, 2] [], 1)"

definition sample_review :: "decision \<Rightarrow> review_record" where
  "sample_review decision =
     \<lparr>w_relation_id = 1, w_expected = 1, w_decision = decision, w_event_id = 5,
      w_superseded_event_id = 6, w_audit_id = 7, w_principal = sample_principal RoleReviewer,
      w_reason = ''b'', w_request_id = ''w'', w_occurred_at = 0\<rparr>"

definition sample_review_command :: command where
  "sample_review_command = ReviewCommand
     \<lparr>rw_relation_id = 1, rw_expected = 1, rw_decision = DecisionApprove,
      rw_principal = sample_principal RoleReviewer, rw_reason = ''b'', rw_request_id = ''w''\<rparr>"

definition sample_pending :: db where
  "sample_pending = fst (snd (run_command sample_commands sample_create sample_start))"

definition sample_approved :: db where
  "sample_approved =
     snd (perform (sqlite_repository sample_codec (\<lambda>_. True)) (CallReview (sample_review DecisionApprove))
       sample_pending)"

definition result_ok :: "'e + 'a \<Rightarrow> bool" where
  "result_ok r = (case r of Inl _ \<Rightarrow> False | Inr _ \<Rightarrow> True)"

lemma result_okE: "result_ok r \<Longrightarrow> \<exists>x. r = Inr x"
  by (cases r) (simp_all add: result_ok_def)

lemma sample_codec_stable: "codec_stable sample_codec"
  by (auto simp: codec_stable_def sample_codec_def split: if_splits)

lemma sample_commands_repository:
  "c_repository sample_commands = sqlite_repository sample_codec (\<lambda>_. True)"
  by (simp add: sample_commands_def)

lemma sample_created:
  "\<exists>r g. run_command sample_commands sample_create (empty_db [1, 2] [], 1) = (Inr r, (sample_pending, g))"
proof -
  have "result_ok (fst (run_command sample_commands sample_create sample_start))" by code_simp
  then show ?thesis
    using result_okE unfolding sample_pending_def sample_start_def
    by (metis prod.collapse)
qed

lemma sample_reviewed:
  "\<exists>r. perform (sqlite_repository sample_codec (\<lambda>_. True)) (CallReview (sample_review DecisionApprove))
     sample_pending = (Inr r, sample_approved)"
proof -
  have "result_ok (fst (perform (sqlite_repository sample_codec (\<lambda>_. True))
      (CallReview (sample_review DecisionApprove)) sample_pending))" by code_simp
  then show ?thesis
    using result_okE unfolding sample_approved_def by (metis prod.collapse)
qed

lemma sample_pending_reachable: "db_reachable sample_codec sample_pending"
proof -
  obtain r g where "run_command sample_commands sample_create (empty_db [1, 2] [], 1)
      = (Inr r, (sample_pending, g))"
    using sample_created by blast
  from sqlite.successful_command [OF sample_commands_repository this] show ?thesis
    using db_start db_call by metis
qed

lemma sample_pending_lifecycle:
  "lifecycle_of sample_pending 1
     = Some \<lparr>lc_latest = 1, lc_status = StatusPending, lc_proposed = Some ProposalContent\<rparr>"
  by code_simp

lemma relation_tables_invariant_witness: "store_inv sample_codec sample_pending"
  using relation_tables_invariant [OF sample_codec_stable sample_pending_reachable] .

lemma relation_lifecycle_refined_witness:
  "\<exists>s. lifecycle_of sample_approved 1 = Some s \<and> lc_status s = StatusApproved"
proof -
  obtain r where "perform (sqlite_repository sample_codec (\<lambda>_. True))
      (CallReview (sample_review DecisionApprove)) sample_pending = (Inr r, sample_approved)"
    using sample_reviewed by blast
  from relation_lifecycle_refined [OF sample_codec_stable sample_pending_reachable this]
  show ?thesis
    by (simp add: sample_review_def call_target_def sample_pending_lifecycle approved_status_def)
qed

lemma proposal_decided_once_witness:
  "\<exists>err. perform (sqlite_repository sample_codec (\<lambda>_. True)) (CallReview (sample_review DecisionReject))
     sample_approved = (Inl err, sample_approved)"
proof -
  obtain r where "perform (sqlite_repository sample_codec (\<lambda>_. True))
      (CallReview (sample_review DecisionApprove)) sample_pending = (Inr r, sample_approved)"
    using sample_reviewed by blast
  from proposal_decided_once [OF sample_codec_stable sample_pending_reachable this] show ?thesis
    by (simp add: sample_review_def)
qed

lemma approval_publishes_proposal_witness:
  "\<exists>e. edges_of sample_approved 1 = [e] \<and> ee_transform e = ''{}''"
proof -
  obtain r where run: "perform (sqlite_repository sample_codec (\<lambda>_. True))
      (CallReview (sample_review DecisionApprove)) sample_pending = (Inr r, sample_approved)"
    using sample_reviewed by blast
  have "\<exists>e. edges_of sample_approved 1 = [e]"
    using approval_publishes_proposal [OF sample_codec_stable sample_pending_reachable run]
    by (auto simp: sample_review_def sample_pending_lifecycle)
  moreover have "map ee_transform (edges_of sample_approved 1) = [''{}'']" by code_simp
  ultimately show ?thesis by auto
qed

lemma sample_review_runs:
  "\<exists>r d g. run_command sample_commands sample_review_command (sample_pending, 5) = (Inr r, (d, g))
     \<and> edges_of d 1 \<noteq> edges_of sample_pending 1"
proof -
  have "(case run_command sample_commands sample_review_command (sample_pending, 5) of
      (r, (d, g)) \<Rightarrow> result_ok r \<and> edges_of d 1 \<noteq> edges_of sample_pending 1)"
    by code_simp
  then show ?thesis using result_okE by (fastforce split: prod.splits)
qed

lemma only_reviewers_change_the_graph_witness: "can_review (command_principal sample_review_command)"
  using sample_review_runs only_reviewers_change_the_graph [OF sample_commands_repository] by blast

text \<open>A caller that leaves: the review fails and approves the relation nevertheless.\<close>

definition sample_leaving :: "(db, int) commands" where
  "sample_leaving = sample_commands\<lparr>c_repository := sqlite_repository sample_codec (\<lambda>st. st \<noteq> AwaitAnswer)\<rparr>"

lemma sample_left:
  "fst (run_command sample_leaving sample_review_command (sample_pending, 5)) = Inl ContextEnded"
  "length (effective_t (fst (snd (run_command sample_leaving sample_review_command (sample_pending, 5))))) = 1"
  "effective_t sample_pending = []"
  by code_simp+

lemma failed_commands_all_or_nothing_witness:
  "run_command sample_commands (ReviewCommand
     \<lparr>rw_relation_id = 1, rw_expected = 1, rw_decision = DecisionApprove,
      rw_principal = sample_principal RoleAgent, rw_reason = ''b'', rw_request_id = ''w''\<rparr>)
     (sample_pending, 5) = (Inl ErrForbidden, (sample_pending, 5))
   \<and> (\<exists>call r d'. call_of sample_review_command call \<and> length (effective_t d') = 1
     \<and> perform (sqlite_repository sample_codec (awaited (\<lambda>st. st \<noteq> AwaitAnswer))) call sample_pending = (Inr r, d'))"
proof
  show "run_command sample_commands (ReviewCommand
     \<lparr>rw_relation_id = 1, rw_expected = 1, rw_decision = DecisionApprove,
      rw_principal = sample_principal RoleAgent, rw_reason = ''b'', rw_request_id = ''w''\<rparr>)
     (sample_pending, 5) = (Inl ErrForbidden, (sample_pending, 5))"
    using failed_commands_all_or_nothing [OF sample_commands_repository]
    by (simp add: authorized_def can_review_def sample_principal_def)
  let ?run = "run_command sample_leaving sample_review_command (sample_pending, 5)"
  have repo: "c_repository sample_leaving = sqlite_repository sample_codec (\<lambda>st. st \<noteq> AwaitAnswer)"
    by (simp add: sample_leaving_def)
  have run: "?run = (Inl ContextEnded, (fst (snd ?run), snd (snd ?run)))"
    by (metis sample_left(1) prod.collapse)
  have "fst (snd ?run) \<noteq> sample_pending" using sample_left(2,3) by auto
  then show "\<exists>call r d'. call_of sample_review_command call \<and> length (effective_t d') = 1
     \<and> perform (sqlite_repository sample_codec (awaited (\<lambda>st. st \<noteq> AwaitAnswer))) call sample_pending = (Inr r, d')"
    using failed_commands_all_or_nothing [OF repo, of sample_review_command sample_pending 5] run sample_left(2)
    by blast
qed

lemma successful_commands_recorded_witness:
  "\<exists>au. audit_t sample_pending = [au] \<and> ar_actor au \<noteq> []"
proof -
  obtain r g where "run_command sample_commands sample_create (empty_db [1, 2] [], 1)
      = (Inr r, (sample_pending, g))"
    using sample_created by blast
  from successful_commands_recorded [OF sample_commands_repository this] show ?thesis
    by (auto simp: empty_db_def)
qed

lemma history_append_only_witness:
  "\<exists>vs. versions_t sample_approved = versions_t sample_pending @ vs"
  using sample_reviewed history_append_only by blast

lemma confidence_survives_storage_witness:
  "confidence_bps (Finite (float64 (9999 / 10000))) = Inr 9999"
  using confidence_survives_storage [of 9999] by simp

lemma references_complete_witness:
  "\<exists>content references. validate_content sample_codec 1 2 None None sample_value (Finite 0)
     [sample_evidence] = Inr (content, references)
     \<and> Reference 1 ReferenceTransform \<in> set references"
proof -
  have "result_ok (validate_content sample_codec 1 2 None None sample_value (Finite 0) [sample_evidence])"
    by code_simp
  then obtain content references where
    v: "validate_content sample_codec 1 2 None None sample_value (Finite 0) [sample_evidence]
      = Inr (content, references)"
    using result_okE by (metis prod.collapse)
  then have "copy_value sample_codec sample_value = Inr (vc_transform content)"
    by (rule validate_content_result(12))
  then have "vc_transform content = sample_value"
    by (simp add: copy_value_def sample_codec_def)
  with references_complete [OF v] v show ?thesis
    by (auto simp: refs_of_role_def sample_value_def)
qed

lemma created_revision_bounds_witness:
  "\<exists>row. versions_t sample_pending = [row] \<and> length (vr_actor row) \<in> {1..200}"
proof -
  obtain r g where "run_command sample_commands sample_create (empty_db [1, 2] [], 1)
      = (Inr r, (sample_pending, g))"
    using sample_created by blast
  from created_revision_bounds [OF sample_commands_repository this [unfolded sample_create_def]]
  show ?thesis by (auto simp: empty_db_def)
qed

lemma references_suffice_witness:
  "\<exists>content references. validate_content sample_codec 1 2 None None sample_value (Finite 0)
     [sample_evidence] = Inr (content, references)
     \<and> evaluate_value_prepared (vc_transform content)
         \<lparr>p_columns = [1 \<mapsto> known_value ScalarNull], p_parameters = Map.empty\<rparr>
       = evaluate_value_prepared (vc_transform content)
         \<lparr>p_columns = [1 \<mapsto> known_value ScalarNull, 5 \<mapsto> known_value ScalarNull],
          p_parameters = Map.empty\<rparr>"
proof -
  have "(case validate_content sample_codec 1 2 None None sample_value (Finite 0) [sample_evidence] of
      Inr (content, references) \<Rightarrow> references = [Reference 1 ReferenceTransform] | Inl _ \<Rightarrow> False)"
    by code_simp
  then obtain content references where
    v: "validate_content sample_codec 1 2 None None sample_value (Finite 0) [sample_evidence]
      = Inr (content, references)" "references = [Reference 1 ReferenceTransform]"
    by (auto split: sum.splits prod.splits)
  from references_suffice [OF v(1), of "\<lparr>p_columns = [1 \<mapsto> known_value ScalarNull], p_parameters = Map.empty\<rparr>"
      "\<lparr>p_columns = [1 \<mapsto> known_value ScalarNull, 5 \<mapsto> known_value ScalarNull], p_parameters = Map.empty\<rparr>"]
  show ?thesis using v by simp
qed

subsection \<open>Findings\<close>

text \<open>
  \<^verbatim>\<open>ListProposals\<close> orders by the text of \<^verbatim>\<open>updated_at\<close>. RFC3339Nano drops trailing zeros, and
  a point sorts before the Z, so a proposal of the full second comes after one made half a
  second later.
\<close>

lemma proposal_order_not_chronological:
  "map cr_updated_at (order_by_updated_at
     [\<lparr>cr_relation = 1, cr_latest = 1, cr_active = None, cr_proposed = Some 2,
       cr_status = StatusPending, cr_updated_at = 1000000000\<rparr>,
      \<lparr>cr_relation = 3, cr_latest = 1, cr_active = None, cr_proposed = Some 4,
       cr_status = StatusPending, cr_updated_at = 1500000000\<rparr>])
     = [1500000000, 1000000000]"
  by code_simp

end
