(* ===== verification/Graph.thy ===== *)
theory Graph
  imports Relations ConditionEval
begin

section \<open>Tracing the relation graph\<close>

text \<open>
  \<^verbatim>\<open>internal/graph/service.go\<close>: the bounded search for the paths of effective edges from a
  node, upstream or downstream, with the evaluation of every edge under the context of the
  request. The level search over \<^verbatim>\<open>LoadEdges\<close> and the callback search over
  \<^verbatim>\<open>LoadRecursiveEdges\<close> are both here. The size of an encoded step (\<^verbatim>\<open>json.Marshal\<close>) and the
  cancellation of the Go context are arguments: \<open>sv_live n\<close> says whether the \<open>n\<close>-th look at
  \<^verbatim>\<open>ctx.Err()\<close> finds the context alive. Budgets are counted in \<^typ>\<open>int\<close>; the largest sum is far
  below the range of a Go \<^verbatim>\<open>int\<close>.
\<close>

subsection \<open>Data\<close>

datatype direction = DirectionDownstream | DirectionUpstream | DirectionOther int

record trace_limits =
  tl_depth :: int
  tl_nodes :: int
  tl_paths :: int

definition default_trace_limits :: trace_limits where
  "default_trace_limits = \<lparr>tl_depth = 8, tl_nodes = 1000, tl_paths = 1000\<rparr>"

definition no_trace_limits :: trace_limits where
  "no_trace_limits = \<lparr>tl_depth = 0, tl_nodes = 0, tl_paths = 0\<rparr>"

definition maximum_frontier_states :: int where "maximum_frontier_states = 5000"
definition maximum_path_states :: int where "maximum_path_states = 10000"
definition maximum_edge_expansions :: int where "maximum_edge_expansions = 100000"
definition maximum_loaded_edge_bytes :: int where "maximum_loaded_edge_bytes = 16 * 1048576"
definition maximum_result_steps :: int where "maximum_result_steps = 20000"
definition maximum_result_bytes :: int where "maximum_result_bytes = 8 * 1048576"

record edge =
  e_relation :: int
  e_version :: int
  e_source :: int
  e_target :: int
  e_type :: relation_type
  e_status :: relation_status
  e_pending :: bool
  e_guard :: "boolean option"
  e_selector :: "boolean option"
  e_transform :: "value"
  e_confidence :: go_float

record step =
  st_edge :: edge
  st_evaluation :: evaluation

record path =
  pa_nodes :: "int list"
  pa_steps :: "step list"

record trace_request =
  tr_start :: int
  tr_target :: int
  tr_direction :: direction
  tr_context :: eval_context
  tr_limits :: trace_limits

record trace_result =
  tr_paths :: "path list"
  tr_visited :: int
  tr_cycle :: bool
  tr_truncated :: bool

text \<open>
  \<open>StopRecursive\<close> is \<^verbatim>\<open>errStopRecursiveTraversal\<close>; the other cases after \<open>EvaluateFailed\<close> are
  the anonymous errors of the package, and \<open>EdgesNotLoaded\<close> stands for the wrapped errors of a
  repository.
\<close>

datatype graph_error =
    ErrInvalidTrace | ContextCancelled | EvaluateFailed int condition_error
  | ResultNotEncodable | InvalidByteAccounting | InvalidRecursiveState | DuplicateRecursiveState
  | RecursiveStateBeforeParent | InconsistentRecursiveState | InvalidRecursiveCycle
  | StopRecursive | EdgesNotLoaded

record traversal =
  t_current :: int
  t_path :: path

text \<open>
  What both searches keep: the \<^verbatim>\<open>visited\<close> set (its elements in the order they came), the
  result so far, the result budget with its cache of step sizes, the two counters, the
  evaluation cache and the number of looks at the context.
\<close>

record search =
  visited :: "int list"
  found :: "path list"
  cyclic :: bool
  truncated :: bool
  budget_steps :: int
  budget_bytes :: int
  step_sizes :: "int \<times> int \<rightharpoonup> int"
  path_states :: int
  expansions :: int
  evaluations :: "int \<times> int \<rightharpoonup> evaluation"
  polls :: nat

definition start_search :: "int \<Rightarrow> nat \<Rightarrow> search" where
  "start_search start n =
     \<lparr>visited = [start], found = [], cyclic = False, truncated = False, budget_steps = 0,
      budget_bytes = 0, step_sizes = Map.empty, path_states = 1, expansions = 0,
      evaluations = Map.empty, polls = n\<rparr>"

subsection \<open>The repository a search reads\<close>

record recursive_trace_request =
  rq_start :: int
  rq_target :: int
  rq_direction :: direction
  rq_depth :: int
  rq_expansions :: int
  rq_bytes :: int

record recursive_edge_state =
  re_key :: string
  re_parent :: string
  re_depth :: int
  re_next :: int
  re_cycle :: bool
  re_edge :: edge

text \<open>The variables that the callback of \<^verbatim>\<open>traceRecursive\<close> captures.\<close>

record recursive_search =
  rs_search :: search
  rs_states :: "string \<rightharpoonup> traversal"
  rs_seen :: "string list"
  rs_frontier :: "int \<Rightarrow> int"

text \<open>
  \<open>gr_load\<close> is \<^verbatim>\<open>LoadEdges\<close>: edges, whether some were left out, and the bytes consumed.
  \<open>gr_recursive\<close> is there when the repository is a \<^verbatim>\<open>RecursiveRepository\<close>; like the Go method
  it returns its two results and its error together, after the calls of the callback.
\<close>

type_synonym visitor = "recursive_edge_state \<Rightarrow> recursive_search \<Rightarrow> graph_error option \<times> recursive_search"

record graph_repository =
  gr_load :: "int list \<Rightarrow> direction \<Rightarrow> int \<Rightarrow> int \<Rightarrow> graph_error + edge list \<times> bool \<times> int"
  gr_recursive :: "(recursive_trace_request \<Rightarrow> visitor \<Rightarrow> recursive_search
      \<Rightarrow> (bool \<times> int \<times> graph_error option) \<times> recursive_search) option"

record service =
  sv_repository :: graph_repository
  sv_step_size :: "step \<Rightarrow> int option"
  sv_live :: "nat \<Rightarrow> bool"

subsection \<open>Edges\<close>

definition recursive_current_node :: "edge \<Rightarrow> direction \<Rightarrow> int" where
  "recursive_current_node e dir = (if dir = DirectionUpstream then e_target e else e_source e)"

definition recursive_next_node :: "edge \<Rightarrow> direction \<Rightarrow> int" where
  "recursive_next_node e dir = (if dir = DirectionUpstream then e_source e else e_target e)"

definition path_contains :: "int list \<Rightarrow> int \<Rightarrow> bool" where
  "path_contains nodes candidate = list_ex (\<lambda>n. n = candidate) nodes"

text \<open>The map from a node to its edges, in the order of the slice.\<close>

definition group_edges :: "edge list \<Rightarrow> direction \<Rightarrow> int \<Rightarrow> edge list" where
  "group_edges edges dir =
     foldl (\<lambda>grouped e.
        let node = (if dir = DirectionUpstream then e_target e else e_source e) in
        grouped(node := grouped node @ [e])) (\<lambda>_. []) edges"

definition unique_frontier_nodes :: "traversal list \<Rightarrow> int list" where
  "unique_frontier_nodes frontier =
     foldl (\<lambda>seen t. if t_current t \<in> set seen then seen else seen @ [t_current t]) [] frontier"

definition edge_evaluations :: "edge \<Rightarrow> prepared_context \<Rightarrow> condition_error + evaluation list" where
  "edge_evaluations e pc =
     sbind (case e_guard e of None \<Rightarrow> Inr []
            | Some b \<Rightarrow> sbind (evaluate_boolean_prepared b pc) (\<lambda>r. Inr [r])) (\<lambda>guard.
     sbind (case e_selector e of None \<Rightarrow> Inr []
            | Some b \<Rightarrow> sbind (evaluate_boolean_prepared b pc) (\<lambda>r. Inr [r])) (\<lambda>selector.
     sbind (if v_kind (e_transform e) \<noteq> no_value_kind
            then sbind (evaluate_value_prepared (e_transform e) pc) (\<lambda>r. Inr [r])
            else Inr []) (\<lambda>transform.
     Inr (guard @ selector @ transform))))"

text \<open>The loop that returns at the first FALSE part and collects the missing references.\<close>

fun collect_missing :: "evaluation list \<Rightarrow> missing_reference list \<Rightarrow> missing_reference list option" where
  "collect_missing [] ms = Some ms"
| "collect_missing (r # rest) ms =
     (if truth_of r = TruthFalse then None
      else collect_missing rest (if truth_of r = TruthUnknown then ms @ missing r else ms))"

definition evaluate_edge :: "edge \<Rightarrow> prepared_context \<Rightarrow> condition_error + evaluation" where
  "evaluate_edge e pc =
     sbind (edge_evaluations e pc) (\<lambda>parts.
     Inr (case collect_missing parts [] of
            None \<Rightarrow> decided TruthFalse
          | Some ms \<Rightarrow>
              if ms = [] then decided TruthTrue
              else unknown_with (dedup_adjacent (sort ms))))"

text \<open>\<^verbatim>\<open>edgeEvaluator.evaluate\<close>: the cache is passed in and returned.\<close>

definition evaluate_cached ::
  "prepared_context \<Rightarrow> edge \<Rightarrow> (int \<times> int \<rightharpoonup> evaluation)
     \<Rightarrow> condition_error + evaluation \<times> (int \<times> int \<rightharpoonup> evaluation)" where
  "evaluate_cached pc e cache =
     (let key = (e_relation e, e_version e); cacheable = (e_relation e > 0 \<and> e_version e > 0) in
      case (if cacheable then cache key else None) of
        Some r \<Rightarrow> Inr (r, cache)
      | None \<Rightarrow>
          sbind (evaluate_edge e pc) (\<lambda>r. Inr (r, if cacheable then cache(key \<mapsto> r) else cache)))"

text \<open>An error of the evaluator is wrapped with the relation it belongs to.\<close>

definition evaluate_step ::
  "prepared_context \<Rightarrow> edge \<Rightarrow> search \<Rightarrow> graph_error + evaluation \<times> search" where
  "evaluate_step pc e s =
     (case evaluate_cached pc e (evaluations s) of
        Inl err \<Rightarrow> Inl (EvaluateFailed (e_relation e) err)
      | Inr (r, cache) \<Rightarrow> Inr (r, s\<lparr>evaluations := cache\<rparr>))"

subsection \<open>Budgets and requests\<close>

text \<open>
  \<^verbatim>\<open>resultBudget.accept\<close>: \<open>size_steps\<close> is its loop over the steps, \<open>None\<close> when a partial sum is
  over the budget; the sizes computed on the way stay cached.
\<close>

fun size_steps ::
  "(step \<Rightarrow> int option) \<Rightarrow> int \<Rightarrow> step list \<Rightarrow> int \<Rightarrow> (int \<times> int \<rightharpoonup> int)
     \<Rightarrow> graph_error + int option \<times> (int \<times> int \<rightharpoonup> int)" where
  "size_steps size_of used [] total_bytes sizes = Inr (Some total_bytes, sizes)"
| "size_steps size_of used (st # rest) total_bytes sizes =
     (let key = (e_relation (st_edge st), e_version (st_edge st)) in
      sbind (case sizes key of
               Some n \<Rightarrow> Inr n
             | None \<Rightarrow> (case size_of st of None \<Rightarrow> Inl ResultNotEncodable | Some n \<Rightarrow> Inr (n + 32)))
        (\<lambda>n.
      let sizes = sizes(key \<mapsto> n); total_bytes = total_bytes + n in
      if used + total_bytes > maximum_result_bytes then Inr (None, sizes)
      else size_steps size_of used rest total_bytes sizes))"

definition budget_accept :: "(step \<Rightarrow> int option) \<Rightarrow> path \<Rightarrow> search \<Rightarrow> graph_error + bool \<times> search" where
  "budget_accept size_of p s =
     (if budget_steps s + int (length (pa_steps p)) > maximum_result_steps then Inr (False, s)
      else
        sbind (size_steps size_of (budget_bytes s) (pa_steps p)
                 (64 + int (length (pa_nodes p)) * 24) (step_sizes s)) (\<lambda>(n, sizes).
        case n of
          None \<Rightarrow> Inr (False, s\<lparr>step_sizes := sizes\<rparr>)
        | Some n \<Rightarrow>
            Inr (True, s\<lparr>step_sizes := sizes,
                         budget_steps := budget_steps s + int (length (pa_steps p)),
                         budget_bytes := budget_bytes s + n\<rparr>)))"

definition validate_trace_request :: "trace_request \<Rightarrow> graph_error + unit" where
  "validate_trace_request r =
     fail_if (tr_start r \<le> 0 \<or> tr_target r < 0
       \<or> tr_direction r \<noteq> DirectionDownstream \<and> tr_direction r \<noteq> DirectionUpstream
       \<or> tl_depth (tr_limits r) < 1 \<or> tl_depth (tr_limits r) > 64
       \<or> tl_nodes (tr_limits r) < 1 \<or> tl_nodes (tr_limits r) > 10000
       \<or> tl_paths (tr_limits r) < 1 \<or> tl_paths (tr_limits r) > 10000
       \<or> length (columns (tr_context r)) > 1000 \<or> length (parameters (tr_context r)) > 1000)
       ErrInvalidTrace"

definition trace_context_is_empty :: "eval_context \<Rightarrow> bool" where
  "trace_context_is_empty c \<longleftrightarrow> columns c = [] \<and> parameters c = []"

definition truncated_result :: "search \<Rightarrow> trace_result" where
  "truncated_result s =
     \<lparr>tr_paths = found s, tr_visited = int (length (visited s)), tr_cycle = cyclic s,
      tr_truncated = True\<rparr>"

definition finished_result :: "search \<Rightarrow> trace_result" where
  "finished_result s =
     \<lparr>tr_paths = found s, tr_visited = int (length (visited s)), tr_cycle = cyclic s,
      tr_truncated = truncated s\<rparr>"

definition poll :: "service \<Rightarrow> search \<Rightarrow> graph_error + search" where
  "poll sv s = (if sv_live sv (polls s) then Inr (s\<lparr>polls := Suc (polls s)\<rparr>) else Inl ContextCancelled)"

definition visit_node :: "int \<Rightarrow> search \<Rightarrow> search" where
  "visit_node n s =
     s\<lparr>path_states := path_states s + 1,
       visited := (if n \<in> set (visited s) then visited s else visited s @ [n])\<rparr>"

definition extend_path :: "path \<Rightarrow> int \<Rightarrow> edge \<Rightarrow> evaluation \<Rightarrow> path" where
  "extend_path p n e r =
     \<lparr>pa_nodes = pa_nodes p @ [n],
      pa_steps = pa_steps p @ [\<lparr>st_edge = e, st_evaluation = r\<rparr>]\<rparr>"

definition target_reached :: "trace_request \<Rightarrow> int \<Rightarrow> bool" where
  "target_reached r n \<longleftrightarrow> tr_target r = 0 \<or> tr_target r = n"

definition can_expand :: "trace_request \<Rightarrow> int \<Rightarrow> bool" where
  "can_expand r n \<longleftrightarrow> tr_target r = 0 \<or> tr_target r \<noteq> n"

text \<open>
  The part of both loops that adds a path to the result: whether it was added, or the
  limits stop the search.
\<close>

definition record_path ::
  "service \<Rightarrow> trace_request \<Rightarrow> path \<Rightarrow> search \<Rightarrow> graph_error + bool \<times> search" where
  "record_path sv r p s =
     (if int (length (found s)) \<ge> tl_paths (tr_limits r) then Inr (False, s)
      else
        sbind (budget_accept (sv_step_size sv) p s) (\<lambda>(accepted, s).
        if accepted then Inr (True, s\<lparr>found := found s @ [p]\<rparr>) else Inr (False, s)))"

subsection \<open>The level search\<close>

text \<open>
  A step of the loop goes on with the search and the next frontier, or returns the
  truncated result.
\<close>

datatype progress = Proceed search "traversal list" | Finish search

definition follow_edge ::
  "service \<Rightarrow> trace_request \<Rightarrow> path \<Rightarrow> edge \<Rightarrow> evaluation \<Rightarrow> search \<Rightarrow> traversal list
     \<Rightarrow> graph_error + progress" where
  "follow_edge sv r p e ev s nf =
     (let n = recursive_next_node e (tr_direction r) in
      if path_contains (pa_nodes p) n then Inr (Proceed (s\<lparr>cyclic := True\<rparr>) nf)
      else if n \<notin> set (visited s) \<and> int (length (visited s)) \<ge> tl_nodes (tr_limits r)
      then Inr (Proceed (s\<lparr>truncated := True\<rparr>) nf)
      else if path_states s \<ge> maximum_path_states then Inr (Finish s)
      else
        let s = visit_node n s; q = extend_path p n e ev in
        sbind (if target_reached r n then record_path sv r q s else Inr (True, s)) (\<lambda>(recorded, s).
        if \<not> recorded then Inr (Finish s)
        else if can_expand r n
        then if int (length nf) \<ge> maximum_frontier_states then Inr (Finish s)
             else Inr (Proceed s (nf @ [\<lparr>t_current = n, t_path = q\<rparr>]))
        else Inr (Proceed s nf)))"

definition expand_edge ::
  "service \<Rightarrow> trace_request \<Rightarrow> prepared_context \<Rightarrow> traversal \<Rightarrow> edge \<Rightarrow> search \<Rightarrow> traversal list
     \<Rightarrow> graph_error + progress" where
  "expand_edge sv r pc t e s nf =
     sbind (poll sv s) (\<lambda>s.
     if expansions s \<ge> maximum_edge_expansions then Inr (Finish s)
     else
       sbind (evaluate_step pc e (s\<lparr>expansions := expansions s + 1\<rparr>)) (\<lambda>(ev, s).
       if truth_of ev = TruthFalse then Inr (Proceed s nf)
       else follow_edge sv r (t_path t) e ev s nf))"

fun expand_edges ::
  "service \<Rightarrow> trace_request \<Rightarrow> prepared_context \<Rightarrow> traversal \<Rightarrow> edge list \<Rightarrow> search \<Rightarrow> traversal list
     \<Rightarrow> graph_error + progress" where
  "expand_edges sv r pc t [] s nf = Inr (Proceed s nf)"
| "expand_edges sv r pc t (e # es) s nf =
     sbind (expand_edge sv r pc t e s nf) (\<lambda>out.
     case out of Finish s \<Rightarrow> Inr (Finish s) | Proceed s nf \<Rightarrow> expand_edges sv r pc t es s nf)"

fun expand_frontier ::
  "service \<Rightarrow> trace_request \<Rightarrow> prepared_context \<Rightarrow> (int \<Rightarrow> edge list) \<Rightarrow> traversal list \<Rightarrow> search
     \<Rightarrow> traversal list \<Rightarrow> graph_error + progress" where
  "expand_frontier sv r pc by_node [] s nf = Inr (Proceed s nf)"
| "expand_frontier sv r pc by_node (t # ts) s nf =
     sbind (poll sv s) (\<lambda>s.
     sbind (expand_edges sv r pc t (by_node (t_current t)) s nf) (\<lambda>out.
     case out of Finish s \<Rightarrow> Inr (Finish s) | Proceed s nf \<Rightarrow> expand_frontier sv r pc by_node ts s nf))"

text \<open>One round of the outer loop: the edges of the frontier are loaded and followed.\<close>

definition trace_level ::
  "service \<Rightarrow> trace_request \<Rightarrow> prepared_context \<Rightarrow> traversal list \<Rightarrow> search \<Rightarrow> int
     \<Rightarrow> graph_error + progress \<times> int" where
  "trace_level sv r pc frontier s loaded =
     sbind (poll sv s) (\<lambda>s.
     let remaining = maximum_loaded_edge_bytes - loaded in
     if remaining \<le> 0 then Inr (Finish s, loaded)
     else
       sbind (gr_load (sv_repository sv) (unique_frontier_nodes frontier) (tr_direction r)
                (maximum_edge_expansions - expansions s) remaining) (\<lambda>(edges, left_out, consumed).
       sbind (fail_if (consumed < 0 \<or> consumed > remaining) InvalidByteAccounting) (\<lambda>_.
       sbind (poll sv s) (\<lambda>s.
       sbind (expand_frontier sv r pc (group_edges edges (tr_direction r)) frontier s []) (\<lambda>out.
       Inr (case out of
              Proceed s nf \<Rightarrow> if left_out then Finish s else Proceed s nf
            | Finish s \<Rightarrow> Finish s, loaded + consumed))))))"

function trace_levels ::
  "service \<Rightarrow> trace_request \<Rightarrow> prepared_context \<Rightarrow> int \<Rightarrow> traversal list \<Rightarrow> search \<Rightarrow> int
     \<Rightarrow> graph_error + trace_result" where
  "trace_levels sv r pc depth frontier s loaded =
     (if depth < tl_depth (tr_limits r) \<and> frontier \<noteq> []
      then
        sbind (trace_level sv r pc frontier s loaded) (\<lambda>(out, loaded).
        case out of
          Finish s \<Rightarrow> Inr (truncated_result s)
        | Proceed s nf \<Rightarrow> trace_levels sv r pc (depth + 1) nf s loaded)
      else Inr (finished_result (if frontier \<noteq> [] then s\<lparr>truncated := True\<rparr> else s)))"
  by pat_completeness auto
termination
  by (relation "measure (\<lambda>(sv, r, pc, depth, frontier, s, loaded). nat (tl_depth (tr_limits r) - depth))")
    auto

declare trace_levels.simps [simp del]

definition root_path :: "int \<Rightarrow> path" where
  "root_path start = \<lparr>pa_nodes = [start], pa_steps = []\<rparr>"

definition root_traversal :: "int \<Rightarrow> traversal" where
  "root_traversal start = \<lparr>t_current = start, t_path = root_path start\<rparr>"

subsection \<open>The callback search\<close>

definition recursive_follow ::
  "service \<Rightarrow> trace_request \<Rightarrow> prepared_context \<Rightarrow> recursive_edge_state \<Rightarrow> traversal
     \<Rightarrow> recursive_search \<Rightarrow> graph_error option \<times> recursive_search" where
  "recursive_follow sv r pc c parent rs =
     (case evaluate_step pc (re_edge c) (rs_search rs) of
        Inl err \<Rightarrow> (Some err, rs)
      | Inr (ev, s) \<Rightarrow>
          let rs = rs\<lparr>rs_search := s\<rparr> in
          if truth_of ev = TruthFalse then (None, rs)
          else if re_cycle c then (None, rs\<lparr>rs_search := s\<lparr>cyclic := True\<rparr>\<rparr>)
          else if path_states s \<ge> maximum_path_states
          then (Some StopRecursive, rs\<lparr>rs_search := s\<lparr>truncated := True\<rparr>\<rparr>)
          else if re_next c \<notin> set (visited s) \<and> int (length (visited s)) \<ge> tl_nodes (tr_limits r)
          then (None, rs\<lparr>rs_search := s\<lparr>truncated := True\<rparr>\<rparr>)
          else
            let s = visit_node (re_next c) s; q = extend_path (t_path parent) (re_next c) (re_edge c) ev in
            (case (if target_reached r (re_next c) then record_path sv r q s else Inr (True, s)) of
               Inl err \<Rightarrow> (Some err, rs\<lparr>rs_search := s\<rparr>)
             | Inr (recorded, s) \<Rightarrow>
                 if \<not> recorded then (Some StopRecursive, rs\<lparr>rs_search := s\<lparr>truncated := True\<rparr>\<rparr>)
                 else if can_expand r (re_next c)
                 then if rs_frontier rs (re_depth c) \<ge> maximum_frontier_states
                      then (Some StopRecursive, rs\<lparr>rs_search := s\<lparr>truncated := True\<rparr>\<rparr>)
                      else (None, rs\<lparr>rs_search :=
                               (if re_depth c = tl_depth (tr_limits r) then s\<lparr>truncated := True\<rparr> else s),
                             rs_frontier := (rs_frontier rs)(re_depth c := rs_frontier rs (re_depth c) + 1),
                             rs_states := (rs_states rs)(re_key c \<mapsto>
                               \<lparr>t_current = re_next c, t_path = q\<rparr>)\<rparr>)
                 else (None, rs\<lparr>rs_search := s\<rparr>)))"

definition recursive_visit ::
  "service \<Rightarrow> trace_request \<Rightarrow> prepared_context \<Rightarrow> visitor" where
  "recursive_visit sv r pc c rs =
     (case poll sv (rs_search rs) of
        Inl err \<Rightarrow> (Some err, rs)
      | Inr s \<Rightarrow>
          let s = s\<lparr>expansions := expansions s + 1\<rparr>; rs = rs\<lparr>rs_search := s\<rparr> in
          if expansions s > maximum_edge_expansions
          then (Some StopRecursive, rs\<lparr>rs_search := s\<lparr>truncated := True\<rparr>\<rparr>)
          else if re_key c = [] \<or> re_depth c < 1 \<or> re_depth c > tl_depth (tr_limits r)
          then (Some InvalidRecursiveState, rs)
          else if re_key c \<in> set (rs_seen rs) then (Some DuplicateRecursiveState, rs)
          else
            let rs = rs\<lparr>rs_seen := rs_seen rs @ [re_key c]\<rparr> in
            (case rs_states rs (re_parent c) of
               None \<Rightarrow>
                 if re_parent c \<notin> set (rs_seen rs) then (Some RecursiveStateBeforeParent, rs)
                 else (None, rs)
             | Some parent \<Rightarrow>
                 if re_depth c \<noteq> int (length (pa_steps (t_path parent))) + 1 \<or> re_next c \<le> 0
                   \<or> recursive_next_node (re_edge c) (tr_direction r) \<noteq> re_next c
                   \<or> recursive_current_node (re_edge c) (tr_direction r) \<noteq> t_current parent
                 then (Some InconsistentRecursiveState, rs)
                 else if path_contains (pa_nodes (t_path parent)) (re_next c) \<noteq> re_cycle c
                 then (Some InvalidRecursiveCycle, rs)
                 else recursive_follow sv r pc c parent rs))"

definition start_recursive :: "int \<Rightarrow> nat \<Rightarrow> recursive_search" where
  "start_recursive start n =
     \<lparr>rs_search = start_search start n, rs_states = [[] \<mapsto> root_traversal start], rs_seen = [[]],
      rs_frontier = (\<lambda>_. 0)\<rparr>"

definition recursive_request :: "trace_request \<Rightarrow> recursive_trace_request" where
  "recursive_request r =
     \<lparr>rq_start = tr_start r, rq_target = tr_target r, rq_direction = tr_direction r,
      rq_depth = tl_depth (tr_limits r), rq_expansions = maximum_edge_expansions,
      rq_bytes = maximum_loaded_edge_bytes\<rparr>"

definition trace_recursive ::
  "service \<Rightarrow> trace_request \<Rightarrow> prepared_context
     \<Rightarrow> (recursive_trace_request \<Rightarrow> visitor \<Rightarrow> recursive_search
          \<Rightarrow> (bool \<times> int \<times> graph_error option) \<times> recursive_search)
     \<Rightarrow> nat \<Rightarrow> graph_error + trace_result" where
  "trace_recursive sv r pc load n =
     (case load (recursive_request r) (recursive_visit sv r pc) (start_recursive (tr_start r) n) of
        ((left_out, consumed, err), rs) \<Rightarrow>
          let s = rs_search rs in
          sbind (case err of
                   None \<Rightarrow> Inr ()
                 | Some e \<Rightarrow> if e = StopRecursive then Inr () else Inl e) (\<lambda>_.
          sbind (fail_if (consumed < 0 \<or> consumed > maximum_loaded_edge_bytes) InvalidByteAccounting) (\<lambda>_.
          Inr (finished_result (if left_out then s\<lparr>truncated := True\<rparr> else s)))))"

subsection \<open>The entry points\<close>

text \<open>\<^verbatim>\<open>PrepareContext\<close> has one error here: whatever it returns becomes \<^verbatim>\<open>ErrInvalidTrace\<close>.\<close>

definition trace :: "service \<Rightarrow> trace_request \<Rightarrow> graph_error + trace_result" where
  "trace sv r0 =
     (let r = (if tr_limits r0 = no_trace_limits then r0\<lparr>tr_limits := default_trace_limits\<rparr> else r0) in
      sbind (validate_trace_request r) (\<lambda>_.
      case prepare_context (tr_context r) default_context_limits of
        Inl _ \<Rightarrow> Inl ErrInvalidTrace
      | Inr pc \<Rightarrow>
          sbind (fail_if (\<not> sv_live sv 0) ContextCancelled) (\<lambda>_.
          case (if trace_context_is_empty (tr_context r) then gr_recursive (sv_repository sv) else None) of
            Some load \<Rightarrow> trace_recursive sv r pc load 1
          | None \<Rightarrow>
              trace_levels sv r pc 0 [root_traversal (tr_start r)] (start_search (tr_start r) 1) 0)))"

definition impact :: "service \<Rightarrow> trace_request \<Rightarrow> graph_error + trace_result" where
  "impact sv r = trace sv (r\<lparr>tr_direction := DirectionDownstream\<rparr>)"

end
