(* ===== verification/GraphRepository.thy ===== *)
theory GraphRepository
  imports Graph RelationStore JsonEncode
begin

section \<open>Effective edges in SQLite\<close>

text \<open>
  \<^verbatim>\<open>internal/platform/sqlite/graph_repository.go\<close> on the tables of \<open>RelationStore\<close>:
  \<^verbatim>\<open>LoadEdges\<close>, and the recursive common table expression of \<^verbatim>\<open>LoadRecursiveEdges\<close> with the
  queue semantics that SQLite documents for it. An error of the driver while reading is left
  out; a column that does not decode is \<open>EdgesNotLoaded\<close>.
\<close>

subsection \<open>Rows\<close>

text \<open>
  \<^verbatim>\<open>graphEdgeLoadBudget.accept\<close>: the bytes after the row, or nothing when the row does not fit.
\<close>

definition load_budget_accept ::
  "string option \<Rightarrow> string option \<Rightarrow> string \<Rightarrow> int \<Rightarrow> int \<Rightarrow> int option" where
  "load_budget_accept guard selector transform maximum used =
     (let row = 128 + int (length transform)
        + (case guard of None \<Rightarrow> 0 | Some t \<Rightarrow> int (length t))
        + (case selector of None \<Rightarrow> 0 | Some t \<Rightarrow> int (length t)) in
      if used + row > maximum then None else Some (used + row))"

definition stored_status :: "db \<Rightarrow> effective_row \<Rightarrow> relation_status \<times> bool" where
  "stored_status d row =
     (case find_current d (ee_relation row) of
        None \<Rightarrow> (StatusPending, False)
      | Some c \<Rightarrow> (cr_status c, cr_proposed c \<noteq> None))"

definition decode_graph_edge :: "codec \<Rightarrow> db \<Rightarrow> effective_row \<Rightarrow> graph_error + edge" where
  "decode_graph_edge cd d row =
     (case sbind (decode_optional cd (ee_guard row)) (\<lambda>guard.
           sbind (decode_optional cd (ee_selector row)) (\<lambda>selector.
           sbind (decode_column (unmarshal_value cd) (ee_transform row)) (\<lambda>transform.
           Inr (guard, selector, transform)))) of
        Inl _ \<Rightarrow> Inl EdgesNotLoaded
      | Inr (guard, selector, transform) \<Rightarrow>
          Inr \<lparr>e_relation = ee_relation row, e_version = ee_version row,
               e_source = ee_source row, e_target = ee_target row, e_type = ee_type row,
               e_status = fst (stored_status d row), e_pending = snd (stored_status d row),
               e_guard = guard, e_selector = selector, e_transform = transform,
               e_confidence = Finite (float64 (of_int (ee_confidence_bps row) / 10000))\<rparr>)"

subsection \<open>LoadEdges\<close>

text \<open>The node a row is reached from and the node it leads to.\<close>

definition row_current :: "direction \<Rightarrow> effective_row \<Rightarrow> int" where
  "row_current dir row = (if dir = DirectionUpstream then ee_target row else ee_source row)"

definition row_next :: "direction \<Rightarrow> effective_row \<Rightarrow> int" where
  "row_next dir row = (if dir = DirectionUpstream then ee_source row else ee_target row)"

text \<open>The rows joined with \<^verbatim>\<open>relation_current\<close>, in the order of the query.\<close>

definition joined_rows :: "db \<Rightarrow> effective_row list" where
  "joined_rows d = filter (\<lambda>e. find_current d (ee_relation e) \<noteq> None) (effective_t d)"

definition select_edges :: "db \<Rightarrow> int list \<Rightarrow> direction \<Rightarrow> effective_row list" where
  "select_edges d nodes dir =
     sort_key (row_current dir) (sort_key (row_next dir) (sort_key ee_relation
       (filter (\<lambda>e. row_current dir e \<in> set nodes) (joined_rows d))))"

text \<open>
  The loop over the rows. The query returns at most \<^verbatim>\<open>limit+1\<close> of them; the last one only
  shows that rows were left out.
\<close>

fun read_edges ::
  "codec \<Rightarrow> db \<Rightarrow> int \<Rightarrow> int \<Rightarrow> effective_row list \<Rightarrow> edge list \<Rightarrow> int
     \<Rightarrow> graph_error + edge list \<times> bool \<times> int" where
  "read_edges cd d n maximum [] edges used = Inr (edges, False, used)"
| "read_edges cd d n maximum (row # rows) edges used =
     (if int (length edges) \<ge> n then Inr (edges, True, used)
      else
        (case load_budget_accept (ee_guard row) (ee_selector row) (ee_transform row) maximum used of
           None \<Rightarrow> Inr (edges, True, used)
         | Some used \<Rightarrow>
             sbind (decode_graph_edge cd d row) (\<lambda>e. read_edges cd d n maximum rows (edges @ [e]) used)))"

definition load_edges ::
  "codec \<Rightarrow> db \<Rightarrow> int list \<Rightarrow> direction \<Rightarrow> int \<Rightarrow> int \<Rightarrow> graph_error + edge list \<times> bool \<times> int" where
  "load_edges cd d nodes dir n maximum =
     (if nodes = [] then Inr ([], False, 0)
      else if n \<le> 0 \<or> maximum \<le> 0 then Inr ([], True, 0)
      else read_edges cd d n maximum (take_limit (n + 1) (select_edges d nodes dir)) [] 0)"

subsection \<open>Text functions of the recursive query\<close>

text \<open>\<^verbatim>\<open>instr(haystack, needle) > 0\<close>.\<close>

fun occurs_in :: "string \<Rightarrow> string \<Rightarrow> bool" where
  "occurs_in needle [] = starts_with needle []"
| "occurs_in needle (c # cs) = (starts_with needle (c # cs) \<or> occurs_in needle cs)"

subsection \<open>The walk of the recursive query\<close>

record walk_row =
  wk_key :: string
  wk_parent :: string
  wk_depth :: int
  wk_current :: int
  wk_nodes :: string
  wk_cycle :: bool
  wk_relation :: int
  wk_version :: int

definition initial_walk :: "db \<Rightarrow> direction \<Rightarrow> int \<Rightarrow> walk_row list" where
  "initial_walk d dir start =
     map (\<lambda>e. \<lparr>wk_key = int_text (ee_relation e), wk_parent = [], wk_depth = 1,
                wk_current = row_next dir e,
                wk_nodes = '','' @ int_text start @ '','' @ int_text (row_next dir e) @ '','',
                wk_cycle = (row_next dir e = start),
                wk_relation = ee_relation e, wk_version = ee_version e\<rparr>)
       (filter (\<lambda>e. row_current dir e = start) (effective_t d))"

definition extend_walk :: "db \<Rightarrow> recursive_trace_request \<Rightarrow> walk_row \<Rightarrow> walk_row list" where
  "extend_walk d rq w =
     (if \<not> wk_cycle w \<and> wk_depth w < rq_depth rq \<and> (rq_target rq = 0 \<or> wk_current w \<noteq> rq_target rq)
      then
        map (\<lambda>e. \<lparr>wk_key = wk_key w @ '','' @ int_text (ee_relation e), wk_parent = wk_key w,
                   wk_depth = wk_depth w + 1, wk_current = row_next (rq_direction rq) e,
                   wk_nodes = wk_nodes w @ int_text (row_next (rq_direction rq) e) @ '','',
                   wk_cycle = occurs_in ('','' @ int_text (row_next (rq_direction rq) e) @ '','')
                     (wk_nodes w),
                   wk_relation = ee_relation e, wk_version = ee_version e\<rparr>)
          (filter (\<lambda>e. row_current (rq_direction rq) e = wk_current w) (effective_t d))
      else [])"

text \<open>
  SQLite takes one row at a time from the queue, the least under the \<^verbatim>\<open>ORDER BY\<close>, adds it to
  the result and puts the rows of the recursive select for it into the queue, until the queue
  is empty or the \<^verbatim>\<open>LIMIT\<close> is reached. Rows equal under the order (one relation followed from
  two rows of one depth) are taken in the order they entered.
\<close>

definition walk_before :: "walk_row \<Rightarrow> walk_row \<Rightarrow> bool" where
  "walk_before v w \<longleftrightarrow>
     wk_depth v < wk_depth w \<or> wk_depth v = wk_depth w \<and> wk_relation v < wk_relation w"

fun take_first :: "walk_row \<Rightarrow> walk_row list \<Rightarrow> walk_row \<times> walk_row list" where
  "take_first w [] = (w, [])"
| "take_first w (v # vs) =
     (if walk_before v w then (case take_first v vs of (m, rest) \<Rightarrow> (m, w # rest))
      else (case take_first w vs of (m, rest) \<Rightarrow> (m, v # rest)))"

function walk_rows :: "db \<Rightarrow> recursive_trace_request \<Rightarrow> int \<Rightarrow> walk_row list \<Rightarrow> walk_row list" where
  "walk_rows d rq n queue =
     (if n \<le> 0 then []
      else
        (case queue of
           [] \<Rightarrow> []
         | v # vs \<Rightarrow>
             (case take_first v vs of
                (w, rest) \<Rightarrow> w # walk_rows d rq (n - 1) (rest @ extend_walk d rq w))))"
  by pat_completeness auto
termination
  by (relation "measure (\<lambda>(d, rq, n, queue). nat n)") auto

declare walk_rows.simps [simp del]

text \<open>The outer select: the walk joined with its edge and its \<^verbatim>\<open>relation_current\<close> row.\<close>

definition recursive_rows :: "db \<Rightarrow> recursive_trace_request \<Rightarrow> (walk_row \<times> effective_row) list" where
  "recursive_rows d rq =
     concat (map (\<lambda>w. map (\<lambda>e. (w, e))
         (filter (\<lambda>e. ee_relation e = wk_relation w \<and> ee_version e = wk_version w) (joined_rows d)))
       (walk_rows d rq (rq_expansions rq + 1) (initial_walk d (rq_direction rq) (rq_start rq))))"

subsection \<open>LoadRecursiveEdges\<close>

definition recursive_state_of :: "walk_row \<Rightarrow> edge \<Rightarrow> recursive_edge_state" where
  "recursive_state_of w e =
     \<lparr>re_key = wk_key w, re_parent = wk_parent w, re_depth = wk_depth w, re_next = wk_current w,
      re_cycle = wk_cycle w, re_edge = e\<rparr>"

fun visit_rows ::
  "codec \<Rightarrow> db \<Rightarrow> recursive_trace_request \<Rightarrow> visitor \<Rightarrow> (walk_row \<times> effective_row) list \<Rightarrow> int
     \<Rightarrow> int \<Rightarrow> recursive_search \<Rightarrow> (bool \<times> int \<times> graph_error option) \<times> recursive_search" where
  "visit_rows cd d rq visit [] n used rs = ((False, used, None), rs)"
| "visit_rows cd d rq visit ((w, row) # rows) n used rs =
     (if n + 1 > rq_expansions rq then ((True, used, None), rs)
      else
        (case load_budget_accept (ee_guard row) (ee_selector row) (ee_transform row) (rq_bytes rq) used of
           None \<Rightarrow> ((True, used, None), rs)
         | Some used \<Rightarrow>
             (case decode_graph_edge cd d row of
                Inl err \<Rightarrow> ((False, used, Some err), rs)
              | Inr e \<Rightarrow>
                  (case visit (recursive_state_of w e) rs of
                     (Some err, rs) \<Rightarrow> ((False, used, Some err), rs)
                   | (None, rs) \<Rightarrow> visit_rows cd d rq visit rows (n + 1) used rs))))"

definition load_recursive_edges ::
  "codec \<Rightarrow> db \<Rightarrow> recursive_trace_request \<Rightarrow> visitor \<Rightarrow> recursive_search
     \<Rightarrow> (bool \<times> int \<times> graph_error option) \<times> recursive_search" where
  "load_recursive_edges cd d rq visit rs =
     (if rq_start rq \<le> 0 \<or> rq_target rq < 0
        \<or> rq_direction rq \<noteq> DirectionDownstream \<and> rq_direction rq \<noteq> DirectionUpstream
        \<or> rq_depth rq < 1 \<or> rq_depth rq > 64 \<or> rq_expansions rq < 1 \<or> rq_expansions rq > 100000
        \<or> rq_bytes rq < 1 \<or> rq_bytes rq > 16 * 1048576
      then ((False, 0, Some EdgesNotLoaded), rs)
      else visit_rows cd d rq visit (recursive_rows d rq) 0 0 rs)"

definition sqlite_graph_repository :: "codec \<Rightarrow> db \<Rightarrow> graph_repository" where
  "sqlite_graph_repository cd d =
     \<lparr>gr_load = load_edges cd d, gr_recursive = Some (load_recursive_edges cd d)\<rparr>"

end
