(* ===== verification/GraphTrails.thy ===== *)
theory GraphTrails
  imports Graph ConditionSemantics
begin

section \<open>The paths of a trace\<close>

text \<open>
  What a trace looks for, without any budget: the simple paths from the start along edges
  that do not evaluate to FALSE, which do not pass the target. The lemmas here describe the
  paths themselves, the grouping of the loaded edges and the evaluation of an edge.
\<close>

subsection \<open>Evaluation of an edge\<close>

lemma dedup_sort_missing: "dedup_adjacent (sort ms) = normalize_missing ms"
  by (simp add: normalize_missing_def)

lemma collect_missing_None:
  "collect_missing parts ms = None \<longleftrightarrow> (\<exists>x\<in>set parts. truth_of x = TruthFalse)"
  by (induction parts arbitrary: ms) auto

lemma collect_missing_Some:
  "collect_missing parts ms = Some out \<Longrightarrow>
     set out = set ms \<union> (\<Union>x\<in>{x\<in>set parts. truth_of x = TruthUnknown}. set (missing x))"
  by (induction parts arbitrary: ms) (auto split: if_splits)

lemma evaluate_edge_Inr:
  assumes "evaluate_edge e pc = Inr ev"
  obtains parts where "edge_evaluations e pc = Inr parts"
    "truth_of ev = TruthFalse \<longleftrightarrow> (\<exists>x\<in>set parts. truth_of x = TruthFalse)"
    "set (missing ev) = (if truth_of ev = TruthFalse then {}
       else (\<Union>x\<in>{x\<in>set parts. truth_of x = TruthUnknown}. set (missing x)))"
    "truth_of ev = TruthUnknown \<longleftrightarrow> missing ev \<noteq> []" "sorted_wrt (<) (missing ev)"
proof -
  from assms obtain parts where parts: "edge_evaluations e pc = Inr parts"
    and ev: "ev = (case collect_missing parts [] of None \<Rightarrow> decided TruthFalse
      | Some ms \<Rightarrow> if ms = [] then decided TruthTrue else unknown_with (dedup_adjacent (sort ms)))"
    by (auto simp: evaluate_edge_def result_simps)
  show thesis
  proof (cases "collect_missing parts []")
    case None
    then have "\<exists>x\<in>set parts. truth_of x = TruthFalse" using collect_missing_None by blast
    with parts ev None show thesis by (intro that [of parts]) simp_all
  next
    case (Some ms)
    from collect_missing_Some [OF this] have ms: "set ms = (\<Union>x\<in>{x\<in>set parts. truth_of x = TruthUnknown}. set (missing x))"
      by simp
    have nf: "\<not> (\<exists>x\<in>set parts. truth_of x = TruthFalse)"
      using Some collect_missing_None [of parts "[]"] by simp
    show thesis
    proof (cases "ms = []")
      case True
      with parts ev Some ms nf show thesis by (intro that [of parts]) simp_all
    next
      case False
      then have "sort ms \<noteq> []" by (metis set_empty set_sort)
      with False parts ev Some ms nf show thesis
        by (intro that [of parts]) (simp_all add: strict_sort_dedup)
    qed
  qed
qed

subsection \<open>Grouping and frontier nodes\<close>

lemma group_edges_filter: "group_edges es dir n = filter (\<lambda>e. recursive_current_node e dir = n) es"
  by (induction es rule: rev_induct)
    (auto simp: group_edges_def recursive_current_node_def Let_def)

lemma unique_frontier_nodes_set: "set (unique_frontier_nodes ts) = t_current ` set ts"
  by (induction ts rule: rev_induct) (auto simp: unique_frontier_nodes_def)

lemma unique_frontier_nodes_distinct: "distinct (unique_frontier_nodes ts)"
  by (induction ts rule: rev_induct) (auto simp: unique_frontier_nodes_def)

lemma path_contains_iff [simp]: "path_contains ns n \<longleftrightarrow> n \<in> set ns"
  by (auto simp: path_contains_def list_ex_iff)

subsection \<open>Trails\<close>

definition expandable :: "trace_request \<Rightarrow> path \<Rightarrow> bool" where
  "expandable r p \<longleftrightarrow> pa_steps p = [] \<or> can_expand r (last (pa_nodes p))"

definition usable :: "prepared_context \<Rightarrow> trace_request \<Rightarrow> edge set \<Rightarrow> path \<Rightarrow> edge \<Rightarrow> evaluation \<Rightarrow> bool" where
  "usable pc r E p e ev \<longleftrightarrow>
     expandable r p \<and> e \<in> E \<and> recursive_current_node e (tr_direction r) = last (pa_nodes p)
     \<and> evaluate_edge e pc = Inr ev \<and> truth_of ev \<noteq> TruthFalse"

inductive trail :: "prepared_context \<Rightarrow> trace_request \<Rightarrow> edge set \<Rightarrow> path \<Rightarrow> bool" for pc r E where
  trail_root: "trail pc r E (root_path (tr_start r))"
| trail_step: "trail pc r E p \<Longrightarrow> usable pc r E p e ev
    \<Longrightarrow> recursive_next_node e (tr_direction r) \<notin> set (pa_nodes p)
    \<Longrightarrow> trail pc r E (extend_path p (recursive_next_node e (tr_direction r)) e ev)"

definition answer :: "prepared_context \<Rightarrow> trace_request \<Rightarrow> edge set \<Rightarrow> path \<Rightarrow> bool" where
  "answer pc r E p \<longleftrightarrow>
     trail pc r E p \<and> pa_steps p \<noteq> [] \<and> target_reached r (last (pa_nodes p))"

text \<open>An edge that does not evaluate to FALSE leads back to a node of the path it leaves.\<close>

definition cycle_exists :: "prepared_context \<Rightarrow> trace_request \<Rightarrow> edge set \<Rightarrow> bool" where
  "cycle_exists pc r E \<longleftrightarrow>
     (\<exists>p e ev. trail pc r E p \<and> usable pc r E p e ev
        \<and> recursive_next_node e (tr_direction r) \<in> set (pa_nodes p))"

lemma extend_path_simps [simp]:
  "pa_nodes (extend_path p n e ev) = pa_nodes p @ [n]"
  "pa_steps (extend_path p n e ev) = pa_steps p @ [\<lparr>st_edge = e, st_evaluation = ev\<rparr>]"
  by (simp_all add: extend_path_def)

lemma root_path_simps [simp]: "pa_nodes (root_path n) = [n]" "pa_steps (root_path n) = []"
  by (simp_all add: root_path_def)

lemma extend_path_inject [simp]:
  "extend_path p n e ev = extend_path q m f ew \<longleftrightarrow> p = q \<and> n = m \<and> e = f \<and> ev = ew"
  by (cases p; cases q) (auto simp: extend_path_def)

lemma trail_shape:
  "trail pc r E p \<Longrightarrow> length (pa_nodes p) = Suc (length (pa_steps p)) \<and> distinct (pa_nodes p)
     \<and> pa_nodes p \<noteq> [] \<and> hd (pa_nodes p) = tr_start r"
  by (induction rule: trail.induct) auto

lemma trail_nodes_nonempty: "trail pc r E p \<Longrightarrow> pa_nodes p \<noteq> []"
  using trail_shape by blast

lemma trail_links:
  "trail pc r E p \<Longrightarrow> i < length (pa_steps p) \<Longrightarrow>
     st_edge (pa_steps p ! i) \<in> E
     \<and> recursive_current_node (st_edge (pa_steps p ! i)) (tr_direction r) = pa_nodes p ! i
     \<and> recursive_next_node (st_edge (pa_steps p ! i)) (tr_direction r) = pa_nodes p ! Suc i
     \<and> evaluate_edge (st_edge (pa_steps p ! i)) pc = Inr (st_evaluation (pa_steps p ! i))
     \<and> truth_of (st_evaluation (pa_steps p ! i)) \<noteq> TruthFalse"
proof (induction arbitrary: i rule: trail.induct)
  case trail_root
  then show ?case by simp
next
  case (trail_step p e ev)
  note shape = trail_shape [OF trail_step.hyps(1)]
  show ?case
  proof (cases "i < length (pa_steps p)")
    case True
    with trail_step.IH [OF True] shape show ?thesis by (simp add: nth_append)
  next
    case False
    with trail_step.prems have i: "i = length (pa_steps p)" by simp
    have "pa_nodes p ! i = last (pa_nodes p)" using shape i by (simp add: last_conv_nth)
    with trail_step.hyps(2) shape i show ?thesis by (simp add: nth_append usable_def)
  qed
qed

lemma trail_step_evaluated:
  "trail pc r E p \<Longrightarrow> st \<in> set (pa_steps p) \<Longrightarrow>
     st_edge st \<in> E \<and> evaluate_edge (st_edge st) pc = Inr (st_evaluation st)
     \<and> truth_of (st_evaluation st) \<noteq> TruthFalse"
  using trail_links by (metis in_set_conv_nth)

text \<open>Every step of a trail but the last leaves the path open.\<close>

lemma trail_nonroot:
  "trail pc r E p \<Longrightarrow> pa_steps p \<noteq> [] \<Longrightarrow>
     \<exists>q e ev. trail pc r E q \<and> usable pc r E q e ev
       \<and> recursive_next_node e (tr_direction r) \<notin> set (pa_nodes q)
       \<and> p = extend_path q (recursive_next_node e (tr_direction r)) e ev"
  by (cases pc r E p rule: trail.cases) auto

definition stage :: "prepared_context \<Rightarrow> trace_request \<Rightarrow> edge set \<Rightarrow> nat \<Rightarrow> path set" where
  "stage pc r E k = {p. trail pc r E p \<and> length (pa_steps p) = k \<and> expandable r p}"

lemma stage_0: "stage pc r E 0 = {root_path (tr_start r)}"
proof -
  have "p = root_path (tr_start r)" if "trail pc r E p" "pa_steps p = []" for p
    using that by (cases rule: trail.cases) auto
  then show ?thesis
    by (auto simp: stage_def expandable_def intro: trail_root)
qed

lemma trail_longer_than_stage:
  "trail pc r E p \<Longrightarrow> k < length (pa_steps p) \<Longrightarrow> stage pc r E k \<noteq> {}"
proof (induction rule: trail.induct)
  case (trail_step p e ev)
  show ?case
  proof (cases "k < length (pa_steps p)")
    case True
    with trail_step show ?thesis by simp
  next
    case False
    with trail_step.prems have "length (pa_steps p) = k" by simp
    with trail_step.hyps show ?thesis by (auto simp: stage_def usable_def)
  qed
qed simp

subsection \<open>The extensions of a traversal state\<close>

definition extensions1 :: "prepared_context \<Rightarrow> trace_request \<Rightarrow> traversal \<Rightarrow> edge \<Rightarrow> traversal list" where
  "extensions1 pc r t e =
     (let n = recursive_next_node e (tr_direction r) in
      case evaluate_edge e pc of
        Inl _ \<Rightarrow> []
      | Inr ev \<Rightarrow>
          if truth_of ev \<noteq> TruthFalse \<and> n \<notin> set (pa_nodes (t_path t))
          then [\<lparr>t_current = n, t_path = extend_path (t_path t) n e ev\<rparr>] else [])"

definition extensions :: "prepared_context \<Rightarrow> trace_request \<Rightarrow> (int \<Rightarrow> edge list) \<Rightarrow> traversal \<Rightarrow> traversal list" where
  "extensions pc r by_node t = concat (map (extensions1 pc r t) (by_node (t_current t)))"

definition closing :: "prepared_context \<Rightarrow> trace_request \<Rightarrow> traversal \<Rightarrow> edge \<Rightarrow> bool" where
  "closing pc r t e \<longleftrightarrow>
     (\<exists>ev. evaluate_edge e pc = Inr ev \<and> truth_of ev \<noteq> TruthFalse
        \<and> recursive_next_node e (tr_direction r) \<in> set (pa_nodes (t_path t)))"

definition frontier_state :: "prepared_context \<Rightarrow> trace_request \<Rightarrow> edge set \<Rightarrow> traversal \<Rightarrow> bool" where
  "frontier_state pc r E t \<longleftrightarrow>
     trail pc r E (t_path t) \<and> t_current t = last (pa_nodes (t_path t)) \<and> expandable r (t_path t)"

lemma extensions1_member:
  "d \<in> set (extensions1 pc r t e) \<longleftrightarrow>
     (\<exists>ev. evaluate_edge e pc = Inr ev \<and> truth_of ev \<noteq> TruthFalse
        \<and> recursive_next_node e (tr_direction r) \<notin> set (pa_nodes (t_path t))
        \<and> d = \<lparr>t_current = recursive_next_node e (tr_direction r),
               t_path = extend_path (t_path t) (recursive_next_node e (tr_direction r)) e ev\<rparr>)"
  by (auto simp: extensions1_def Let_def split: sum.splits)

lemma extension_trail:
  assumes "frontier_state pc r E t" "e \<in> E" "recursive_current_node e (tr_direction r) = t_current t"
    and "d \<in> set (extensions1 pc r t e)"
  shows "trail pc r E (t_path d) \<and> t_current d = last (pa_nodes (t_path d))
    \<and> length (pa_steps (t_path d)) = Suc (length (pa_steps (t_path t)))
    \<and> set (pa_nodes (t_path d)) = insert (t_current d) (set (pa_nodes (t_path t)))"
  using assms by (auto simp: extensions1_member frontier_state_def usable_def intro!: trail_step)

lemma extensions1_distinct: "distinct (extensions1 pc r t e)"
  by (auto simp: extensions1_def Let_def split: sum.splits)

lemma distinct_concat_map:
  assumes "distinct xs" "\<And>x. x \<in> set xs \<Longrightarrow> distinct (f x)"
    and "\<And>x y d. x \<in> set xs \<Longrightarrow> y \<in> set xs \<Longrightarrow> d \<in> set (f x) \<Longrightarrow> d \<in> set (f y) \<Longrightarrow> x = y"
  shows "distinct (concat (map f xs))"
  using assms
proof (induction xs)
  case (Cons x xs)
  have "set (f x) \<inter> set (concat (map f xs)) = {}"
  proof (rule ccontr)
    assume "set (f x) \<inter> set (concat (map f xs)) \<noteq> {}"
    then obtain d y where "d \<in> set (f x)" "y \<in> set xs" "d \<in> set (f y)" by auto
    with Cons.prems(3) [of x y d] Cons.prems(1) show False by auto
  qed
  moreover have "distinct (concat (map f xs))"
    by (rule Cons.IH) (use Cons.prems in auto)
  ultimately show ?case using Cons.prems(2) [of x] by simp
qed simp

lemma extensions_distinct:
  assumes "\<And>n. distinct (by_node n)"
  shows "distinct (extensions pc r by_node t)"
  unfolding extensions_def
  by (rule distinct_concat_map [OF assms extensions1_distinct]) (auto simp: extensions1_member)

lemma traversal_eqI: "t_current t = t_current u \<Longrightarrow> t_path t = t_path u \<Longrightarrow> t = (u :: traversal)"
  by simp

lemma level_distinct:
  assumes "\<And>n. distinct (by_node n)" "distinct ts" "\<And>t. t \<in> set ts \<Longrightarrow> frontier_state pc r E t"
  shows "distinct (concat (map (extensions pc r by_node) ts))"
proof (rule distinct_concat_map [OF assms(2) extensions_distinct [OF assms(1)]])
  fix t u d
  assume in_ts: "t \<in> set ts" "u \<in> set ts"
    and d: "d \<in> set (extensions pc r by_node t)" "d \<in> set (extensions pc r by_node u)"
  from d have "t_path t = t_path u" by (auto simp: extensions_def extensions1_member)
  with assms(3) [OF in_ts(1)] assms(3) [OF in_ts(2)] show "t = u"
    by (intro traversal_eqI) (auto simp: frontier_state_def)
qed

end
