(* ===== verification/GraphSearch.thy ===== *)
theory GraphSearch
  imports GraphTrails
begin

section \<open>The search keeps its budgets\<close>

text \<open>
  The invariant of both searches (\<open>search_ok\<close>) and what one run of the loop bodies of the
  level search adds to it: an exact account while nothing was cut off, and sound answers
  within the bounds in any case.
\<close>

subsection \<open>The caches\<close>

definition edge_key :: "edge \<Rightarrow> int \<times> int" where
  "edge_key e = (e_relation e, e_version e)"

definition cache_ok :: "prepared_context \<Rightarrow> edge set \<Rightarrow> (int \<times> int \<rightharpoonup> evaluation) \<Rightarrow> bool" where
  "cache_ok pc E cache \<longleftrightarrow>
     (\<forall>k ev. cache k = Some ev \<longrightarrow> (\<forall>e\<in>E. edge_key e = k \<longrightarrow> evaluate_edge e pc = Inr ev))"

definition step_bytes :: "service \<Rightarrow> step \<Rightarrow> int" where
  "step_bytes sv st = (case sv_step_size sv st of None \<Rightarrow> 0 | Some n \<Rightarrow> n + 32)"

definition path_bytes :: "service \<Rightarrow> path \<Rightarrow> int" where
  "path_bytes sv p =
     64 + int (length (pa_nodes p)) * 24 + sum_list (map (step_bytes sv) (pa_steps p))"

definition sizes_ok :: "service \<Rightarrow> prepared_context \<Rightarrow> edge set \<Rightarrow> (int \<times> int \<rightharpoonup> int) \<Rightarrow> bool" where
  "sizes_ok sv pc E sizes \<longleftrightarrow>
     (\<forall>k n. sizes k = Some n \<longrightarrow>
        (\<forall>st. st_edge st \<in> E \<and> edge_key (st_edge st) = k
            \<and> evaluate_edge (st_edge st) pc = Inr (st_evaluation st) \<longrightarrow> step_bytes sv st = n))"

lemma cache_okD:
  "cache_ok pc E cache \<Longrightarrow> cache k = Some ev \<Longrightarrow> e \<in> E \<Longrightarrow> edge_key e = k \<Longrightarrow> evaluate_edge e pc = Inr ev"
  unfolding cache_ok_def by blast

lemma sizes_okD:
  "sizes_ok sv pc E sizes \<Longrightarrow> sizes k = Some n \<Longrightarrow> st_edge st \<in> E \<Longrightarrow> edge_key (st_edge st) = k
     \<Longrightarrow> evaluate_edge (st_edge st) pc = Inr (st_evaluation st) \<Longrightarrow> step_bytes sv st = n"
  unfolding sizes_ok_def by blast

lemma evaluate_step_Inr:
  assumes "evaluate_step pc e s = Inr (ev, s')" "cache_ok pc E (evaluations s)" "inj_on edge_key E" "e \<in> E"
  obtains cache where "s' = s\<lparr>evaluations := cache\<rparr>" "cache_ok pc E cache" "evaluate_edge e pc = Inr ev"
proof -
  obtain cache where c: "evaluate_cached pc e (evaluations s) = Inr (ev, cache)" "s' = s\<lparr>evaluations := cache\<rparr>"
    using assms(1) by (auto simp: evaluate_step_def split: sum.splits)
  show thesis
  proof (cases "if e_relation e > 0 \<and> e_version e > 0 then evaluations s (edge_key e) else None")
    case None
    with c(1) have "evaluate_edge e pc = Inr ev"
      "cache = evaluations s \<or> cache = (evaluations s)(edge_key e \<mapsto> ev)"
      by (auto simp: evaluate_cached_def edge_key_def Let_def result_simps split: if_splits)
    moreover have "cache_ok pc E ((evaluations s)(edge_key e \<mapsto> ev))"
      using assms(2-4) calculation(1) by (auto simp: cache_ok_def dest: inj_onD)
    ultimately show thesis using c(2) assms(2) that by blast
  next
    case (Some v)
    with c(1) have "ev = v" "cache = evaluations s" "evaluations s (edge_key e) = Some v"
      by (auto simp: evaluate_cached_def edge_key_def Let_def split: if_splits)
    moreover from this assms(4) have "evaluate_edge e pc = Inr v" by (intro cache_okD [OF assms(2)]) simp_all
    ultimately show thesis using assms(2) c(2) by (intro that [of cache]) simp_all
  qed
qed

lemma size_steps_Inr:
  assumes "size_steps (sv_step_size sv) used steps tot sizes = Inr (res, sizes')"
    and "sizes_ok sv pc E sizes" "inj_on edge_key E"
    and "\<And>st. st \<in> set steps \<Longrightarrow> st_edge st \<in> E \<and> evaluate_edge (st_edge st) pc = Inr (st_evaluation st)"
  shows "sizes_ok sv pc E sizes'
    \<and> (\<forall>n. res = Some n \<longrightarrow> n = tot + sum_list (map (step_bytes sv) steps)
          \<and> (steps \<noteq> [] \<longrightarrow> used + n \<le> maximum_result_bytes))"
  using assms(1,2,4)
proof (induction steps arbitrary: tot sizes)
  case Nil
  then show ?case by auto
next
  case (Cons st steps)
  let ?k = "edge_key (st_edge st)"
  have st: "st_edge st \<in> E" "evaluate_edge (st_edge st) pc = Inr (st_evaluation st)" using Cons.prems(3) by auto
  have sized: "sizes_ok sv pc E (sizes(?k \<mapsto> step_bytes sv st))"
    unfolding sizes_ok_def
  proof (intro allI impI)
    fix k n and su :: step
    assume k: "(sizes(?k \<mapsto> step_bytes sv st)) k = Some n" and su: "st_edge su \<in> E \<and> edge_key (st_edge su) = k
      \<and> evaluate_edge (st_edge su) pc = Inr (st_evaluation su)"
    show "step_bytes sv su = n"
    proof (cases "k = ?k")
      case True
      with su st assms(3) have "st_edge su = st_edge st" by (auto dest: inj_onD)
      with su st have "su = st" by simp
      with k True show ?thesis by simp
    next
      case False
      with k have "sizes k = Some n" by simp
      with su show ?thesis by (intro sizes_okD [OF Cons.prems(2)]) simp_all
    qed
  qed
  from Cons.prems(1) obtain n where n: "(case sizes ?k of Some n \<Rightarrow> Inr n
      | None \<Rightarrow> (case sv_step_size sv st of None \<Rightarrow> Inl ResultNotEncodable | Some n \<Rightarrow> Inr (n + 32))) = Inr n"
    and rest: "(if used + (tot + n) > maximum_result_bytes then Inr (None, sizes(?k \<mapsto> n))
      else size_steps (sv_step_size sv) used steps (tot + n) (sizes(?k \<mapsto> n))) = Inr (res, sizes')"
    unfolding size_steps.simps Let_def edge_key_def [symmetric] sbind_eq_Inr by blast
  have "n = step_bytes sv st"
  proof (cases "sizes ?k")
    case None
    with n show ?thesis by (auto simp: step_bytes_def split: option.splits)
  next
    case (Some m)
    with n st show ?thesis by (simp add: sizes_okD [OF Cons.prems(2) Some])
  qed
  note n = this
  show ?case
  proof (cases "used + (tot + n) > maximum_result_bytes")
    case True
    with rest n sized show ?thesis by auto
  next
    case False
    with rest have rest': "size_steps (sv_step_size sv) used steps (tot + n) (sizes(?k \<mapsto> n)) = Inr (res, sizes')"
      by simp
    from Cons.IH [OF this sized [folded n]] Cons.prems(3) have H:
      "sizes_ok sv pc E sizes' \<and> (\<forall>m. res = Some m \<longrightarrow> m = tot + n + sum_list (map (step_bytes sv) steps)
          \<and> (steps \<noteq> [] \<longrightarrow> used + m \<le> maximum_result_bytes))" by auto
    have last_one: "used + m \<le> maximum_result_bytes" if "steps = []" "res = Some m" for m
      using rest' False that by simp
    show ?thesis
    proof (intro conjI allI impI)
      fix m assume m: "res = Some m"
      from H m show "m = tot + sum_list (map (step_bytes sv) (st # steps))" by (simp add: n)
      from H m last_one [of m] show "used + m \<le> maximum_result_bytes" by blast
    qed (simp add: H)
  qed
qed

subsection \<open>The invariant\<close>

definition search_ok :: "service \<Rightarrow> prepared_context \<Rightarrow> trace_request \<Rightarrow> edge set \<Rightarrow> search \<Rightarrow> bool" where
  "search_ok sv pc r E s \<longleftrightarrow>
     distinct (visited s) \<and> tr_start r \<in> set (visited s)
     \<and> int (length (visited s)) \<le> tl_nodes (tr_limits r)
     \<and> (\<forall>p\<in>set (found s). answer pc r E p \<and> set (pa_nodes p) \<subseteq> set (visited s))
     \<and> int (length (found s)) \<le> tl_paths (tr_limits r)
     \<and> budget_steps s = int (sum_list (map (\<lambda>p. length (pa_steps p)) (found s)))
     \<and> budget_steps s \<le> maximum_result_steps
     \<and> budget_bytes s = sum_list (map (path_bytes sv) (found s))
     \<and> budget_bytes s \<le> maximum_result_bytes
     \<and> cache_ok pc E (evaluations s) \<and> sizes_ok sv pc E (step_sizes s)
     \<and> path_states s \<le> maximum_path_states
     \<and> (cyclic s \<longrightarrow> cycle_exists pc r E)"

lemma search_ok_frame [simp]:
  "search_ok sv pc r E (s\<lparr>polls := n\<rparr>) = search_ok sv pc r E s"
  "search_ok sv pc r E (s\<lparr>expansions := k\<rparr>) = search_ok sv pc r E s"
  "search_ok sv pc r E (s\<lparr>truncated := b\<rparr>) = search_ok sv pc r E s"
  by (simp_all add: search_ok_def)

lemma search_ok_start:
  "1 \<le> tl_nodes (tr_limits r) \<Longrightarrow> 1 \<le> tl_paths (tr_limits r) \<Longrightarrow> search_ok sv pc r E (start_search (tr_start r) n)"
  by (simp add: search_ok_def start_search_def cache_ok_def sizes_ok_def maximum_result_steps_def
      maximum_result_bytes_def maximum_path_states_def)

lemma search_ok_visit:
  assumes "search_ok sv pc r E s" "n \<in> set (visited s) \<or> int (length (visited s)) < tl_nodes (tr_limits r)"
    and "path_states s < maximum_path_states"
  shows "search_ok sv pc r E (visit_node n s)"
  using assms by (auto simp: search_ok_def visit_node_def)

lemma record_path_Inr:
  assumes "record_path sv r p s = Inr (recorded, s')" "search_ok sv pc r E s" "inj_on edge_key E"
    and "answer pc r E p" "set (pa_nodes p) \<subseteq> set (visited s)"
  shows "search_ok sv pc r E s' \<and> found s' = (if recorded then found s @ [p] else found s)
    \<and> visited s' = visited s \<and> truncated s' = truncated s \<and> cyclic s' = cyclic s
    \<and> path_states s' = path_states s \<and> expansions s' = expansions s \<and> polls s' = polls s"
proof (cases "int (length (found s)) \<ge> tl_paths (tr_limits r)
    \<or> budget_steps s + int (length (pa_steps p)) > maximum_result_steps")
  case True
  with assms(1,2) show ?thesis
    by (auto simp: record_path_def budget_accept_def result_simps split: if_splits)
next
  case False
  then obtain res sizes where
    sizes: "size_steps (sv_step_size sv) (budget_bytes s) (pa_steps p) (64 + int (length (pa_nodes p)) * 24)
      (step_sizes s) = Inr (res, sizes)"
    and out: "(recorded, s') = (case res of None \<Rightarrow> (False, s\<lparr>step_sizes := sizes\<rparr>)
      | Some n \<Rightarrow> (True, s\<lparr>step_sizes := sizes, budget_steps := budget_steps s + int (length (pa_steps p)),
          budget_bytes := budget_bytes s + n, found := found s @ [p]\<rparr>))"
    using assms(1)
    by (auto simp: record_path_def budget_accept_def result_simps split: if_splits option.splits)
  have "pa_steps p \<noteq> []" and evaluated: "st \<in> set (pa_steps p) \<Longrightarrow>
      st_edge st \<in> E \<and> evaluate_edge (st_edge st) pc = Inr (st_evaluation st)" for st
    using assms(4) trail_step_evaluated by (auto simp: answer_def)
  moreover have "sizes_ok sv pc E (step_sizes s)" using assms(2) by (simp add: search_ok_def)
  ultimately have "sizes_ok sv pc E sizes \<and> (\<forall>n. res = Some n \<longrightarrow> n = path_bytes sv p
      \<and> budget_bytes s + n \<le> maximum_result_bytes)"
    using size_steps_Inr [OF sizes _ assms(3)] by (auto simp: path_bytes_def)
  with out False assms(2,4,5) show ?thesis
    by (auto simp: search_ok_def split: option.splits)
qed

subsection \<open>What a loop does to the search\<close>

text \<open>
  A loop that considered the extensions \<open>ds\<close>, and met an edge that closes a cycle if \<open>c\<close>,
  takes the search from \<open>s\<close> with the next frontier \<open>nf\<close> to \<open>s'\<close> with \<open>nf'\<close>.
\<close>

definition gained ::
  "service \<Rightarrow> prepared_context \<Rightarrow> trace_request \<Rightarrow> edge set \<Rightarrow> traversal list \<Rightarrow> bool
     \<Rightarrow> search \<Rightarrow> search \<Rightarrow> path list \<Rightarrow> traversal list \<Rightarrow> bool" where
  "gained sv pc r E ds c s s' ps fs \<longleftrightarrow>
     search_ok sv pc r E s' \<and> set (visited s) \<subseteq> set (visited s') \<and> (truncated s \<longrightarrow> truncated s')
     \<and> found s' = found s @ ps \<and> set ps \<subseteq> t_path ` set ds \<and> set fs \<subseteq> set ds
     \<and> (\<forall>f\<in>set fs. can_expand r (t_current f) \<and> set (pa_nodes (t_path f)) \<subseteq> set (visited s'))
     \<and> (\<not> truncated s' \<longrightarrow>
          ps = map t_path (filter (\<lambda>d. target_reached r (t_current d)) ds)
          \<and> fs = filter (\<lambda>d. can_expand r (t_current d)) ds
          \<and> set (visited s') = set (visited s) \<union> t_current ` set ds
          \<and> (cyclic s' \<longleftrightarrow> cyclic s \<or> c))"

definition progressed ::
  "service \<Rightarrow> prepared_context \<Rightarrow> trace_request \<Rightarrow> edge set \<Rightarrow> traversal list \<Rightarrow> bool
     \<Rightarrow> search \<Rightarrow> traversal list \<Rightarrow> search \<Rightarrow> traversal list \<Rightarrow> bool" where
  "progressed sv pc r E ds c s nf s' nf' \<longleftrightarrow>
     (\<exists>ps fs. nf' = nf @ fs \<and> gained sv pc r E ds c s s' ps fs)"

definition finished ::
  "service \<Rightarrow> prepared_context \<Rightarrow> trace_request \<Rightarrow> edge set \<Rightarrow> traversal list
     \<Rightarrow> search \<Rightarrow> search \<Rightarrow> bool" where
  "finished sv pc r E ds s s' \<longleftrightarrow>
     search_ok sv pc r E s' \<and> (\<exists>ps. found s' = found s @ ps \<and> set ps \<subseteq> t_path ` set ds)"

lemma progressed_none:
  "search_ok sv pc r E s \<Longrightarrow> progressed sv pc r E [] False s nf s nf"
  by (simp add: progressed_def gained_def)

lemma gainedD:
  assumes "gained sv pc r E ds c s s' ps fs"
  shows "search_ok sv pc r E s'" "set (visited s) \<subseteq> set (visited s')" "truncated s \<longrightarrow> truncated s'"
    "found s' = found s @ ps" "set ps \<subseteq> t_path ` set ds" "set fs \<subseteq> set ds"
    "\<forall>f\<in>set fs. can_expand r (t_current f) \<and> set (pa_nodes (t_path f)) \<subseteq> set (visited s')"
    "\<not> truncated s' \<longrightarrow>
          ps = map t_path (filter (\<lambda>d. target_reached r (t_current d)) ds)
          \<and> fs = filter (\<lambda>d. can_expand r (t_current d)) ds
          \<and> set (visited s') = set (visited s) \<union> t_current ` set ds
          \<and> (cyclic s' \<longleftrightarrow> cyclic s \<or> c)"
proof -
  note g = assms [unfolded gained_def]
  from g show "search_ok sv pc r E s'" by (elim conjE)
  from g show "set (visited s) \<subseteq> set (visited s')" by (elim conjE)
  from g show "truncated s \<longrightarrow> truncated s'" by (elim conjE)
  from g show "found s' = found s @ ps" by (elim conjE)
  from g show "set ps \<subseteq> t_path ` set ds" by (elim conjE)
  from g show "set fs \<subseteq> set ds" by (elim conjE)
  from g show "\<forall>f\<in>set fs. can_expand r (t_current f) \<and> set (pa_nodes (t_path f)) \<subseteq> set (visited s')"
    by (elim conjE)
  from g show "\<not> truncated s' \<longrightarrow>
          ps = map t_path (filter (\<lambda>d. target_reached r (t_current d)) ds)
          \<and> fs = filter (\<lambda>d. can_expand r (t_current d)) ds
          \<and> set (visited s') = set (visited s) \<union> t_current ` set ds
          \<and> (cyclic s' \<longleftrightarrow> cyclic s \<or> c)"
    by (elim conjE)
qed

lemma gained_trans:
  assumes g: "gained sv pc r E ds c s s1 ps fs" and h: "gained sv pc r E ds' c' s1 s2 ps' fs'"
  shows "gained sv pc r E (ds @ ds') (c \<or> c') s s2 (ps @ ps') (fs @ fs')"
proof -
  note one = gainedD [OF g] and two = gainedD [OF h]
  show ?thesis
    unfolding gained_def
  proof (intro conjI impI)
    show "search_ok sv pc r E s2" by (rule two(1))
    show "set (visited s) \<subseteq> set (visited s2)" using one(2) two(2) by (rule subset_trans)
    show "truncated s2" if "truncated s" using that one(3) two(3) by simp
    show "found s2 = found s @ ps @ ps'" using one(4) two(4) by simp
    show "set (ps @ ps') \<subseteq> t_path ` set (ds @ ds')" using one(5) two(5) unfolding set_append image_Un by blast
    show "set (fs @ fs') \<subseteq> set (ds @ ds')" using one(6) two(6) unfolding set_append by blast
    show "\<forall>f\<in>set (fs @ fs'). can_expand r (t_current f) \<and> set (pa_nodes (t_path f)) \<subseteq> set (visited s2)"
      using one(7) two(2,7) unfolding set_append by blast
    assume nt: "\<not> truncated s2"
    then have "\<not> truncated s1" using two(3) by simp
    note a = one(8) [rule_format, OF this] and b = two(8) [rule_format, OF nt]
    from a b show "ps @ ps' = map t_path (filter (\<lambda>d. target_reached r (t_current d)) (ds @ ds'))" by simp
    from a b show "fs @ fs' = filter (\<lambda>d. can_expand r (t_current d)) (ds @ ds')" by simp
    from a b show "set (visited s2) = set (visited s) \<union> t_current ` set (ds @ ds')"
      by (simp add: image_Un Un_assoc)
    from a b show "cyclic s2 \<longleftrightarrow> cyclic s \<or> c \<or> c'" by simp
  qed
qed

lemma progressed_trans:
  assumes "progressed sv pc r E ds c s nf s1 nf1" "progressed sv pc r E ds' c' s1 nf1 s2 nf2"
  shows "progressed sv pc r E (ds @ ds') (c \<or> c') s nf s2 nf2"
proof -
  from assms obtain ps fs ps' fs' where "gained sv pc r E ds c s s1 ps fs" "gained sv pc r E ds' c' s1 s2 ps' fs'"
    and "nf1 = nf @ fs" "nf2 = nf1 @ fs'" unfolding progressed_def by blast
  with gained_trans show ?thesis unfolding progressed_def by (intro exI [of _ "ps @ ps'"] exI [of _ "fs @ fs'"]) simp
qed

lemma progressed_finished:
  assumes "progressed sv pc r E ds c s nf s1 nf1" "finished sv pc r E ds' s1 s2"
  shows "finished sv pc r E (ds @ ds') s s2"
proof -
  from assms(1) obtain ps where "found s1 = found s @ ps" "set ps \<subseteq> t_path ` set ds"
    unfolding progressed_def gained_def by blast
  moreover from assms(2) obtain ps' where "found s2 = found s1 @ ps'" "set ps' \<subseteq> t_path ` set ds'"
    "search_ok sv pc r E s2" unfolding finished_def by blast
  ultimately show ?thesis
    unfolding finished_def set_append image_Un by (intro conjI exI [of _ "ps @ ps'"]) auto
qed

lemma finished_mono: "finished sv pc r E ds s s' \<Longrightarrow> set ds \<subseteq> set ds' \<Longrightarrow> finished sv pc r E ds' s s'"
  unfolding finished_def by blast

text \<open>Fields that no answer depends on may change between two loops.\<close>

definition same_answers :: "search \<Rightarrow> search \<Rightarrow> bool" where
  "same_answers s s' \<longleftrightarrow>
     found s' = found s \<and> visited s' = visited s \<and> truncated s' = truncated s \<and> cyclic s' = cyclic s"

lemma progressed_cong:
  "same_answers s s1 \<Longrightarrow> progressed sv pc r E ds c s1 nf s' nf' = progressed sv pc r E ds c s nf s' nf'"
  by (simp add: same_answers_def progressed_def gained_def)

lemma finished_cong:
  "same_answers s s1 \<Longrightarrow> finished sv pc r E ds s1 s' = finished sv pc r E ds s s'"
  by (simp add: same_answers_def finished_def)

definition outcome ::
  "service \<Rightarrow> prepared_context \<Rightarrow> trace_request \<Rightarrow> edge set \<Rightarrow> traversal list \<Rightarrow> bool
     \<Rightarrow> search \<Rightarrow> traversal list \<Rightarrow> progress \<Rightarrow> bool" where
  "outcome sv pc r E ds c s nf out =
     (case out of
        Proceed s' nf' \<Rightarrow> progressed sv pc r E ds c s nf s' nf'
      | Finish s' \<Rightarrow> finished sv pc r E ds s s')"

lemma outcome_cong:
  "same_answers s s1 \<Longrightarrow> outcome sv pc r E ds c s1 nf out = outcome sv pc r E ds c s nf out"
  by (auto simp: outcome_def progressed_cong finished_cong split: progress.splits)

definition entered :: "prepared_context \<Rightarrow> trace_request \<Rightarrow> edge set \<Rightarrow> search \<Rightarrow> traversal \<Rightarrow> bool" where
  "entered pc r E s t \<longleftrightarrow> frontier_state pc r E t \<and> set (pa_nodes (t_path t)) \<subseteq> set (visited s)"

subsection \<open>One edge\<close>

lemma extensions1_cases:
  assumes "evaluate_edge e pc = Inr ev"
  shows "extensions1 pc r t e =
    (if truth_of ev \<noteq> TruthFalse \<and> recursive_next_node e (tr_direction r) \<notin> set (pa_nodes (t_path t))
     then [\<lparr>t_current = recursive_next_node e (tr_direction r),
            t_path = extend_path (t_path t) (recursive_next_node e (tr_direction r)) e ev\<rparr>] else [])"
    and "closing pc r t e \<longleftrightarrow>
      truth_of ev \<noteq> TruthFalse \<and> recursive_next_node e (tr_direction r) \<in> set (pa_nodes (t_path t))"
  using assms by (simp_all add: extensions1_def closing_def Let_def)

lemma follow_edge_outcome:
  assumes "search_ok sv pc r E s" "inj_on edge_key E" "entered pc r E s t"
    and "e \<in> E" "recursive_current_node e (tr_direction r) = t_current t"
    and "evaluate_edge e pc = Inr ev" "truth_of ev \<noteq> TruthFalse"
    and "follow_edge sv r (t_path t) e ev s nf = Inr out"
  shows "outcome sv pc r E (extensions1 pc r t e) (closing pc r t e) s nf out"
proof -
  let ?n = "recursive_next_node e (tr_direction r)"
  let ?d = "\<lparr>t_current = ?n, t_path = extend_path (t_path t) ?n e ev\<rparr>"
  note ext = extensions1_cases [OF assms(6), of r t]
  have usable: "usable pc r E (t_path t) e ev"
    using assms by (simp add: entered_def frontier_state_def usable_def)
  consider (cycle) "?n \<in> set (pa_nodes (t_path t))"
    | (nodes) "?n \<notin> set (pa_nodes (t_path t))" "?n \<notin> set (visited s) \<and> int (length (visited s)) \<ge> tl_nodes (tr_limits r)"
    | (states) "?n \<notin> set (pa_nodes (t_path t))" "\<not> (?n \<notin> set (visited s) \<and> int (length (visited s)) \<ge> tl_nodes (tr_limits r))"
        "path_states s \<ge> maximum_path_states"
    | (go) "?n \<notin> set (pa_nodes (t_path t))" "?n \<in> set (visited s) \<or> int (length (visited s)) < tl_nodes (tr_limits r)"
        "path_states s < maximum_path_states"
    by linarith
  then show ?thesis
  proof cases
    case cycle
    then have "out = Proceed (s\<lparr>cyclic := True\<rparr>) nf"
      using assms(8) by (simp add: follow_edge_def Let_def)
    moreover have "cycle_exists pc r E"
      using assms(3) usable cycle by (auto simp: cycle_exists_def entered_def frontier_state_def)
    ultimately show ?thesis
      using assms(1,7) cycle ext by (simp add: outcome_def progressed_def gained_def search_ok_def)
  next
    case nodes
    then have "out = Proceed (s\<lparr>truncated := True\<rparr>) nf"
      using assms(8) by (simp add: follow_edge_def Let_def)
    then show ?thesis using assms(1) by (simp add: outcome_def progressed_def gained_def)
  next
    case states
    then have "out = Finish s" using assms(8) by (auto simp: follow_edge_def Let_def)
    then show ?thesis using assms(1) by (simp add: outcome_def finished_def)
  next
    case go
    let ?s = "visit_node ?n s" and ?q = "t_path ?d"
    have d: "?d \<in> set (extensions1 pc r t e)" using go ext assms(7) by simp
    from extension_trail [OF _ assms(4,5) d] assms(3) have q: "trail pc r E ?q" "last (pa_nodes ?q) = ?n"
      "set (pa_nodes ?q) \<subseteq> set (visited ?s)"
      by (auto simp: entered_def visit_node_def)
    have vis: "search_ok sv pc r E ?s" by (rule search_ok_visit [OF assms(1)]) (use go in auto)
    have same: "found ?s = found s" "truncated ?s = truncated s" "cyclic ?s = cyclic s"
      "set (visited ?s) = insert ?n (set (visited s))" by (auto simp: visit_node_def)
    from assms(8) go obtain recorded s1 where
      rec: "(if target_reached r ?n then record_path sv r ?q ?s else Inr (True, ?s)) = Inr (recorded, s1)"
      and out: "out = (if \<not> recorded then Finish s1
        else if can_expand r ?n
        then if int (length nf) \<ge> maximum_frontier_states then Finish s1 else Proceed s1 (nf @ [?d])
        else Proceed s1 nf)"
      by (auto simp: follow_edge_def Let_def result_simps split: if_splits)
    have s1: "search_ok sv pc r E s1 \<and> visited s1 = visited ?s \<and> truncated s1 = truncated ?s \<and> cyclic s1 = cyclic ?s
      \<and> found s1 = (if recorded \<and> target_reached r ?n then found s @ [?q] else found s)
      \<and> (\<not> target_reached r ?n \<longrightarrow> recorded)"
    proof (cases "target_reached r ?n")
      case True
      then have "answer pc r E ?q" using q by (simp add: answer_def)
      moreover have "record_path sv r ?q ?s = Inr (recorded, s1)" using rec True by simp
      ultimately show ?thesis using record_path_Inr [OF _ vis assms(2) _ q(3)] True same(1) by simp
    next
      case False
      with rec vis same show ?thesis by auto
    qed
    have ds: "extensions1 pc r t e = [?d]" "\<not> closing pc r t e" using go ext assms(7) by simp_all
    show ?thesis
    proof (cases out)
      case (Finish s2)
      then have "s2 = s1" using out by (auto split: if_splits)
      with Finish s1 show ?thesis unfolding ds outcome_def finished_def by auto
    next
      case (Proceed s2 nf2)
      then have s2: "recorded" "s2 = s1" "nf2 = (if can_expand r ?n then nf @ [?d] else nf)"
        using out by (auto split: if_splits)
      have "gained sv pc r E [?d] False s s1 (if target_reached r ?n then [?q] else [])
          (if can_expand r ?n then [?d] else [])"
        unfolding gained_def using s1 s2(1) same q(3) by (simp add: subset_insertI)
      then have "progressed sv pc r E [?d] False s nf s1 nf2"
        unfolding progressed_def using s2(3) by (intro exI conjI) auto
      with s2 Proceed ds show ?thesis by (simp add: outcome_def)
    qed
  qed
qed

subsection \<open>The loops\<close>

lemma poll_Inr: "poll sv s = Inr s' \<longleftrightarrow> sv_live sv (polls s) \<and> s' = s\<lparr>polls := Suc (polls s)\<rparr>"
  by (auto simp: poll_def)

lemma entered_mono: "entered pc r E s t \<Longrightarrow> set (visited s) \<subseteq> set (visited s') \<Longrightarrow> entered pc r E s' t"
  by (auto simp: entered_def)

lemma progressed_visited: "progressed sv pc r E ds c s nf s' nf' \<Longrightarrow> set (visited s) \<subseteq> set (visited s')"
  unfolding progressed_def using gainedD(2) by blast

lemma progressed_ok: "progressed sv pc r E ds c s nf s' nf' \<Longrightarrow> search_ok sv pc r E s'"
  unfolding progressed_def using gainedD(1) by blast

lemma expand_edge_outcome:
  assumes "search_ok sv pc r E s" "inj_on edge_key E" "entered pc r E s t"
    and "e \<in> E" "recursive_current_node e (tr_direction r) = t_current t"
    and "expand_edge sv r pc t e s nf = Inr out"
  shows "outcome sv pc r E (extensions1 pc r t e) (closing pc r t e) s nf out"
proof -
  let ?s = "s\<lparr>polls := Suc (polls s)\<rparr>" and ?s' = "s\<lparr>polls := Suc (polls s), expansions := expansions s + 1\<rparr>"
  show ?thesis
  proof (cases "expansions s \<ge> maximum_edge_expansions")
    case True
    with assms(6) have "out = Finish ?s" by (auto simp: expand_edge_def poll_Inr result_simps)
    with assms(1) show ?thesis by (simp add: outcome_def finished_def)
  next
    case False
    with assms(6) obtain ev s1 where ev: "evaluate_step pc e ?s' = Inr (ev, s1)"
      and out: "(if truth_of ev = TruthFalse then Inr (Proceed s1 nf)
        else follow_edge sv r (t_path t) e ev s1 nf) = Inr out"
      by (auto simp: expand_edge_def poll_Inr result_simps)
    have "cache_ok pc E (evaluations ?s')" using assms(1) by (simp add: search_ok_def)
    from evaluate_step_Inr [OF ev this assms(2,4)] obtain cache where
      s1: "s1 = ?s'\<lparr>evaluations := cache\<rparr>" "cache_ok pc E cache" "evaluate_edge e pc = Inr ev" by blast
    have ok: "search_ok sv pc r E s1" using assms(1) s1 by (simp add: search_ok_def)
    have same: "same_answers s s1" using s1 by (simp add: same_answers_def)
    have t: "entered pc r E s1 t" using assms(3) same by (simp add: same_answers_def entered_def)
    show ?thesis
    proof (cases "truth_of ev = TruthFalse")
      case True
      with out have "out = Proceed s1 nf" by simp
      moreover have "extensions1 pc r t e = []" "\<not> closing pc r t e"
        using extensions1_cases [OF s1(3), of r t] True by simp_all
      ultimately have "outcome sv pc r E (extensions1 pc r t e) (closing pc r t e) s1 nf out"
        using progressed_none [OF ok] by (simp add: outcome_def)
      then show ?thesis using outcome_cong [OF same] by simp
    next
      case False
      with out have "follow_edge sv r (t_path t) e ev s1 nf = Inr out" by simp
      from follow_edge_outcome [OF ok assms(2) t assms(4,5) s1(3) False this]
      show ?thesis using outcome_cong [OF same] by simp
    qed
  qed
qed

text \<open>Sequencing two parts of a loop.\<close>

lemma outcome_seq:
  assumes "outcome sv pc r E ds c s nf mid"
    and "case mid of Finish s1 \<Rightarrow> out = Finish s1
         | Proceed s1 nf1 \<Rightarrow> outcome sv pc r E ds' c' s1 nf1 out"
  shows "outcome sv pc r E (ds @ ds') (c \<or> c') s nf out"
proof (cases mid)
  case (Finish s1)
  with assms show ?thesis by (auto simp: outcome_def intro: finished_mono)
next
  case mid: (Proceed s1 nf1)
  with assms(1) have first: "progressed sv pc r E ds c s nf s1 nf1" by (simp add: outcome_def)
  from mid assms(2) have "outcome sv pc r E ds' c' s1 nf1 out" by simp
  with progressed_trans [OF first] progressed_finished [OF first] show ?thesis
    unfolding outcome_def by (cases out) auto
qed

lemma expand_edges_outcome:
  assumes "search_ok sv pc r E s" "inj_on edge_key E" "entered pc r E s t"
    and "\<And>e. e \<in> set es \<Longrightarrow> e \<in> E \<and> recursive_current_node e (tr_direction r) = t_current t"
    and "expand_edges sv r pc t es s nf = Inr out"
  shows "outcome sv pc r E (concat (map (extensions1 pc r t) es)) (\<exists>e\<in>set es. closing pc r t e) s nf out"
  using assms(1,3,4,5)
proof (induction es arbitrary: s nf)
  case Nil
  then show ?case using progressed_none by (auto simp: outcome_def)
next
  case (Cons e es)
  then obtain mid where mid: "expand_edge sv r pc t e s nf = Inr mid"
    and rest: "(case mid of Finish s \<Rightarrow> Inr (Finish s) | Proceed s nf \<Rightarrow> expand_edges sv r pc t es s nf) = Inr out"
    by (auto simp: result_simps)
  have e: "e \<in> E" "recursive_current_node e (tr_direction r) = t_current t" using Cons.prems(3) by auto
  note one = expand_edge_outcome [OF Cons.prems(1) assms(2) Cons.prems(2) e mid]
  have "outcome sv pc r E (extensions1 pc r t e @ concat (map (extensions1 pc r t) es))
      (closing pc r t e \<or> (\<exists>e\<in>set es. closing pc r t e)) s nf out"
  proof (rule outcome_seq [OF one])
    show "case mid of Finish s1 \<Rightarrow> out = Finish s1
      | Proceed s1 nf1 \<Rightarrow> outcome sv pc r E (concat (map (extensions1 pc r t) es))
          (\<exists>e\<in>set es. closing pc r t e) s1 nf1 out"
    proof (cases mid)
      case (Proceed s1 nf1)
      with one have p: "progressed sv pc r E (extensions1 pc r t e) (closing pc r t e) s nf s1 nf1"
        by (simp add: outcome_def)
      from Cons.IH [OF progressed_ok [OF p] entered_mono [OF Cons.prems(2) progressed_visited [OF p]]]
        Cons.prems(3) rest Proceed show ?thesis by simp
    qed (use rest in auto)
  qed
  then show ?case by simp
qed

lemma expand_frontier_outcome:
  assumes "search_ok sv pc r E s" "inj_on edge_key E" "\<And>t. t \<in> set ts \<Longrightarrow> entered pc r E s t"
    and "\<And>n e. e \<in> set (by_node n) \<Longrightarrow> e \<in> E \<and> recursive_current_node e (tr_direction r) = n"
    and "expand_frontier sv r pc by_node ts s nf = Inr out"
  shows "outcome sv pc r E (concat (map (extensions pc r by_node) ts))
    (\<exists>t\<in>set ts. \<exists>e\<in>set (by_node (t_current t)). closing pc r t e) s nf out"
  using assms(1,3,5)
proof (induction ts arbitrary: s nf)
  case Nil
  then show ?case using progressed_none by (auto simp: outcome_def)
next
  case (Cons t ts)
  let ?s = "s\<lparr>polls := Suc (polls s)\<rparr>"
  have same: "same_answers s ?s" by (simp add: same_answers_def)
  have entered: "entered pc r E ?s u" if "u \<in> set (t # ts)" for u
    using Cons.prems(2) [OF that] by (simp add: entered_def)
  from Cons.prems(3) obtain mid where
    mid: "expand_edges sv r pc t (by_node (t_current t)) ?s nf = Inr mid"
    and rest: "(case mid of Finish s \<Rightarrow> Inr (Finish s)
      | Proceed s nf \<Rightarrow> expand_frontier sv r pc by_node ts s nf) = Inr out"
    by (auto simp: result_simps poll_Inr)
  have "search_ok sv pc r E ?s" using Cons.prems(1) by simp
  note one = expand_edges_outcome [OF this assms(2) entered [OF list.set_intros(1)] assms(4) mid]
  have "outcome sv pc r E (extensions pc r by_node t @ concat (map (extensions pc r by_node) ts))
      ((\<exists>e\<in>set (by_node (t_current t)). closing pc r t e)
        \<or> (\<exists>t\<in>set ts. \<exists>e\<in>set (by_node (t_current t)). closing pc r t e)) ?s nf out"
    unfolding extensions_def [of pc r by_node t]
  proof (rule outcome_seq [OF one])
    show "case mid of Finish s1 \<Rightarrow> out = Finish s1
      | Proceed s1 nf1 \<Rightarrow> outcome sv pc r E (concat (map (extensions pc r by_node) ts))
          (\<exists>t\<in>set ts. \<exists>e\<in>set (by_node (t_current t)). closing pc r t e) s1 nf1 out"
    proof (cases mid)
      case (Proceed s1 nf1)
      with one have p: "progressed sv pc r E (concat (map (extensions1 pc r t) (by_node (t_current t))))
          (\<exists>e\<in>set (by_node (t_current t)). closing pc r t e) ?s nf s1 nf1"
        by (simp add: outcome_def)
      from Cons.IH [OF progressed_ok [OF p] entered_mono [OF entered progressed_visited [OF p]]]
        rest Proceed show ?thesis by simp
    qed (use rest in auto)
  qed
  then show ?case using outcome_cong [OF same] by simp
qed

end
