(* ===== verification/GraphLevels.thy ===== *)
theory GraphLevels
  imports GraphSearch
begin

section \<open>The level search is complete\<close>

text \<open>
  The contract of a repository of edges, and inside it the level search: what it returns is
  sound and within its limits, and a result that is not marked truncated holds every path
  there is, once each and shorter ones first.
\<close>

subsection \<open>One level\<close>

definition closes_cycle :: "prepared_context \<Rightarrow> trace_request \<Rightarrow> edge set \<Rightarrow> path \<Rightarrow> bool" where
  "closes_cycle pc r E p \<longleftrightarrow>
     (\<exists>e ev. usable pc r E p e ev \<and> recursive_next_node e (tr_direction r) \<in> set (pa_nodes p))"

lemma cycle_exists_iff: "cycle_exists pc r E \<longleftrightarrow> (\<exists>p. trail pc r E p \<and> closes_cycle pc r E p)"
  by (auto simp: cycle_exists_def closes_cycle_def)

definition complete_to :: "prepared_context \<Rightarrow> trace_request \<Rightarrow> edge set \<Rightarrow> nat \<Rightarrow> search \<Rightarrow> bool" where
  "complete_to pc r E k s \<longleftrightarrow>
     distinct (found s) \<and> set (found s) = {p. answer pc r E p \<and> length (pa_steps p) \<le> k}
     \<and> set (visited s) = (\<Union>p\<in>{p. trail pc r E p \<and> length (pa_steps p) \<le> k}. set (pa_nodes p))
     \<and> (cyclic s \<longleftrightarrow> (\<exists>p. trail pc r E p \<and> length (pa_steps p) < k \<and> closes_cycle pc r E p))"

definition level ::
  "service \<Rightarrow> prepared_context \<Rightarrow> trace_request \<Rightarrow> edge set \<Rightarrow> nat \<Rightarrow> search \<Rightarrow> traversal list \<Rightarrow> bool" where
  "level sv pc r E k s ts \<longleftrightarrow>
     search_ok sv pc r E s
     \<and> (\<forall>t\<in>set ts. entered pc r E s t \<and> length (pa_steps (t_path t)) = k)
     \<and> (\<forall>p\<in>set (found s). length (pa_steps p) \<le> k)
     \<and> sorted (map (\<lambda>p. length (pa_steps p)) (found s))
     \<and> (\<not> truncated s \<longrightarrow> t_path ` set ts = stage pc r E k \<and> distinct ts \<and> complete_to pc r E k s)"

definition bounded_search ::
  "service \<Rightarrow> prepared_context \<Rightarrow> trace_request \<Rightarrow> edge set \<Rightarrow> nat \<Rightarrow> search \<Rightarrow> bool" where
  "bounded_search sv pc r E k s \<longleftrightarrow>
     search_ok sv pc r E s \<and> (\<forall>p\<in>set (found s). length (pa_steps p) \<le> k)
     \<and> sorted (map (\<lambda>p. length (pa_steps p)) (found s))"

lemma sorted_append_same:
  "sorted (map f xs) \<Longrightarrow> \<forall>x\<in>set xs. f x \<le> k \<Longrightarrow> \<forall>y\<in>set ys. f y = Suc k \<Longrightarrow> sorted (map f (xs @ ys))"
proof -
  assume "sorted (map f xs)" "\<forall>x\<in>set xs. f x \<le> k" and ys: "\<forall>y\<in>set ys. f y = Suc k"
  moreover have "sorted (map f ys)"
    using ys by (induction ys) auto
  ultimately show ?thesis by (auto simp: sorted_append)
qed

text \<open>The extensions of a whole frontier.\<close>

definition level_extensions ::
  "prepared_context \<Rightarrow> trace_request \<Rightarrow> (int \<Rightarrow> edge list) \<Rightarrow> traversal list \<Rightarrow> traversal list" where
  "level_extensions pc r by_node ts = concat (map (extensions pc r by_node) ts)"

lemma level_extensions_trail:
  assumes "\<And>t. t \<in> set ts \<Longrightarrow> frontier_state pc r E t \<and> length (pa_steps (t_path t)) = k"
    and "\<And>n e. e \<in> set (by_node n) \<Longrightarrow> e \<in> E \<and> recursive_current_node e (tr_direction r) = n"
    and "d \<in> set (level_extensions pc r by_node ts)"
  shows "trail pc r E (t_path d) \<and> t_current d = last (pa_nodes (t_path d))
    \<and> length (pa_steps (t_path d)) = Suc k"
proof -
  from assms(3) obtain t e where te: "t \<in> set ts" "e \<in> set (by_node (t_current t))" "d \<in> set (extensions1 pc r t e)"
    by (auto simp: level_extensions_def extensions_def)
  with extension_trail [of pc r E t e d] assms(1) [OF te(1)] assms(2) [OF te(2)] show ?thesis by simp
qed

lemma level_extensions_all:
  assumes "t_path ` set ts = stage pc r E k" "\<And>t. t \<in> set ts \<Longrightarrow> frontier_state pc r E t"
    and "\<And>t e. t \<in> set ts \<Longrightarrow> e \<in> E \<Longrightarrow> recursive_current_node e (tr_direction r) = t_current t
      \<Longrightarrow> e \<in> set (by_node (t_current t))"
    and "trail pc r E p" "length (pa_steps p) = Suc k"
  shows "p \<in> t_path ` set (level_extensions pc r by_node ts)"
proof -
  from trail_nonroot [OF assms(4)] assms(5) obtain q e ev where
    q: "trail pc r E q" "usable pc r E q e ev" "recursive_next_node e (tr_direction r) \<notin> set (pa_nodes q)"
      "p = extend_path q (recursive_next_node e (tr_direction r)) e ev" by force
  with assms(5) have "q \<in> stage pc r E k" by (simp add: stage_def usable_def)
  with assms(1) obtain t where t: "t \<in> set ts" "q = t_path t" by auto
  with assms(2) [OF t(1)] q(2) have "e \<in> set (by_node (t_current t))"
    by (intro assms(3)) (auto simp: usable_def frontier_state_def)
  moreover have "\<lparr>t_current = recursive_next_node e (tr_direction r), t_path = p\<rparr> \<in> set (extensions1 pc r t e)"
    using q t(2) by (auto simp: extensions1_member usable_def)
  ultimately have "\<lparr>t_current = recursive_next_node e (tr_direction r), t_path = p\<rparr>
      \<in> set (level_extensions pc r by_node ts)"
    using t(1) by (auto simp: level_extensions_def extensions_def)
  then show ?thesis by force
qed

lemma expandable_nonroot: "pa_steps p \<noteq> [] \<Longrightarrow> expandable r p \<longleftrightarrow> can_expand r (last (pa_nodes p))"
  by (simp add: expandable_def)

lemma level_polls: "level sv pc r E k (s\<lparr>polls := n\<rparr>) ts = level sv pc r E k s ts"
  by (simp add: level_def entered_def complete_to_def)

lemma level_entered:
  "level sv pc r E k s ts \<Longrightarrow> t \<in> set ts \<Longrightarrow> entered pc r E s t"
  "level sv pc r E k s ts \<Longrightarrow> t \<in> set ts \<Longrightarrow> frontier_state pc r E t \<and> length (pa_steps (t_path t)) = k"
  by (auto simp: level_def entered_def)

definition frontier_closes ::
  "prepared_context \<Rightarrow> trace_request \<Rightarrow> (int \<Rightarrow> edge list) \<Rightarrow> traversal list \<Rightarrow> bool" where
  "frontier_closes pc r by_node ts \<longleftrightarrow> (\<exists>t\<in>set ts. \<exists>e\<in>set (by_node (t_current t)). closing pc r t e)"

lemma trails_up_to_Suc:
  "{p. trail pc r E p \<and> length (pa_steps p) \<le> Suc k} =
     {p. trail pc r E p \<and> length (pa_steps p) \<le> k} \<union> {p. trail pc r E p \<and> length (pa_steps p) = Suc k}"
  by (auto simp: le_Suc_eq)

lemma level_complete:
  assumes now: "t_path ` set ts = stage pc r E k" "distinct ts" "complete_to pc r E k s"
    and states: "\<And>t. t \<in> set ts \<Longrightarrow> frontier_state pc r E t \<and> length (pa_steps (t_path t)) = k"
    and members: "\<And>n e. e \<in> set (by_node n) \<Longrightarrow> e \<in> E \<and> recursive_current_node e (tr_direction r) = n"
    and distinct_edges: "\<And>n. distinct (by_node n)"
    and all_edges: "\<And>t e. t \<in> set ts \<Longrightarrow> e \<in> E \<Longrightarrow> recursive_current_node e (tr_direction r) = t_current t
      \<Longrightarrow> e \<in> set (by_node (t_current t))"
    and D: "D = level_extensions pc r by_node ts"
    and s': "found s' = found s @ map t_path (filter (\<lambda>d. target_reached r (t_current d)) D)"
      "set (visited s') = set (visited s) \<union> t_current ` set D"
      "cyclic s' \<longleftrightarrow> cyclic s \<or> frontier_closes pc r by_node ts"
    and nf: "nf = filter (\<lambda>d. can_expand r (t_current d)) D"
  shows "t_path ` set nf = stage pc r E (Suc k) \<and> distinct nf \<and> complete_to pc r E (Suc k) s'"
proof -
  have trail_D: "trail pc r E (t_path d) \<and> t_current d = last (pa_nodes (t_path d))
      \<and> length (pa_steps (t_path d)) = Suc k" if "d \<in> set D" for d
    by (rule level_extensions_trail [OF states members]) (use that D in auto)
  have all_D: "t_path ` set D = {p. trail pc r E p \<and> length (pa_steps p) = Suc k}" (is "_ = ?new")
  proof
    show "t_path ` set D \<subseteq> ?new" using trail_D by auto
    show "?new \<subseteq> t_path ` set D"
    proof
      fix p assume "p \<in> ?new"
      then show "p \<in> t_path ` set D"
        unfolding D using states by (intro level_extensions_all [OF now(1)] all_edges) auto
    qed
  qed
  have distinct_D: "distinct D"
    unfolding D level_extensions_def
    by (rule level_distinct [OF distinct_edges now(2), of pc r E]) (use states in simp)
  have inj: "inj_on t_path (set D)"
    using trail_D by (intro inj_onI traversal_eqI) auto
  have path_filter: "t_path ` {d \<in> set D. P (t_current d)} = {p \<in> ?new. P (last (pa_nodes p))}" for P
    using trail_D unfolding all_D [symmetric] by (auto simp: image_iff)
  have stage: "t_path ` set nf = stage pc r E (Suc k)"
    unfolding nf set_filter path_filter by (auto simp: stage_def expandable_def)
  have found: "set (found s') = {p. answer pc r E p \<and> length (pa_steps p) \<le> Suc k}"
    using now(3) unfolding s'(1) set_append set_map set_filter path_filter complete_to_def
    by (auto simp: answer_def le_Suc_eq)
  have "distinct (map t_path (filter (\<lambda>d. target_reached r (t_current d)) D))"
    using distinct_D inj by (simp add: distinct_map inj_on_def)
  then have distinct_found: "distinct (found s')"
    using now(3) trail_D unfolding s'(1) complete_to_def by fastforce
  have visited: "set (visited s') = (\<Union>p\<in>{p. trail pc r E p \<and> length (pa_steps p) \<le> Suc k}. set (pa_nodes p))"
  proof -
    have old: "set (visited s) = (\<Union>p\<in>{p. trail pc r E p \<and> length (pa_steps p) \<le> k}. set (pa_nodes p))"
      using now(3) by (simp add: complete_to_def)
    have "t_current ` set D \<subseteq> (\<Union>p\<in>?new. set (pa_nodes p))"
      using trail_D trail_nodes_nonempty by fastforce
    moreover have "(\<Union>p\<in>?new. set (pa_nodes p)) \<subseteq> set (visited s) \<union> t_current ` set D"
    proof
      fix n assume "n \<in> (\<Union>p\<in>?new. set (pa_nodes p))"
      then obtain d where d: "d \<in> set D" "n \<in> set (pa_nodes (t_path d))" unfolding all_D [symmetric] by auto
      then obtain t e where te: "t \<in> set ts" "e \<in> set (by_node (t_current t))" "d \<in> set (extensions1 pc r t e)"
        by (auto simp: D level_extensions_def extensions_def)
      with states have t: "trail pc r E (t_path t)" "length (pa_steps (t_path t)) = k"
        by (auto simp: frontier_state_def)
      from extension_trail [OF _ _ _ te(3), of E] states [OF te(1)] members [OF te(2)]
      have "set (pa_nodes (t_path d)) = insert (t_current d) (set (pa_nodes (t_path t)))" by simp
      with d t show "n \<in> set (visited s) \<union> t_current ` set D" unfolding old by auto
    qed
    moreover have "(\<Union>p\<in>{p. trail pc r E p \<and> length (pa_steps p) \<le> Suc k}. set (pa_nodes p))
        = set (visited s) \<union> (\<Union>p\<in>?new. set (pa_nodes p))"
      by (simp only: trails_up_to_Suc UN_Un old)
    ultimately show ?thesis unfolding s'(2) by (simp only:) blast
  qed
  have closes: "frontier_closes pc r by_node ts \<longleftrightarrow>
      (\<exists>p. trail pc r E p \<and> length (pa_steps p) = k \<and> closes_cycle pc r E p)" (is "?c \<longleftrightarrow> ?ex")
  proof
    assume ?c
    then obtain t e ev where te: "t \<in> set ts" "e \<in> set (by_node (t_current t))" "evaluate_edge e pc = Inr ev"
      "truth_of ev \<noteq> TruthFalse" "recursive_next_node e (tr_direction r) \<in> set (pa_nodes (t_path t))"
      unfolding frontier_closes_def closing_def by blast
    with states [OF te(1)] members [OF te(2)] have "closes_cycle pc r E (t_path t)"
      unfolding closes_cycle_def by (intro exI [of _ e] exI [of _ ev]) (simp add: usable_def frontier_state_def)
    with states [OF te(1)] show ?ex unfolding frontier_state_def by blast
  next
    assume ?ex
    then obtain p e ev where p: "trail pc r E p" "length (pa_steps p) = k" "usable pc r E p e ev"
      "recursive_next_node e (tr_direction r) \<in> set (pa_nodes p)" unfolding closes_cycle_def by blast
    then have "p \<in> stage pc r E k" by (simp add: stage_def usable_def)
    with now(1) obtain t where t: "t \<in> set ts" "p = t_path t" by auto
    with states [OF t(1)] p(3) have "e \<in> set (by_node (t_current t))"
      by (intro all_edges) (auto simp: usable_def frontier_state_def)
    with t p show ?c by (auto simp: frontier_closes_def closing_def usable_def)
  qed
  have "cyclic s \<longleftrightarrow> (\<exists>p. trail pc r E p \<and> length (pa_steps p) < k \<and> closes_cycle pc r E p)"
    using now(3) by (simp add: complete_to_def)
  then have "cyclic s' \<longleftrightarrow> (\<exists>p. trail pc r E p \<and> length (pa_steps p) < Suc k \<and> closes_cycle pc r E p)"
    unfolding s'(3) closes less_Suc_eq by blast
  with stage found distinct_found visited show ?thesis
    unfolding complete_to_def using distinct_D nf by simp
qed

lemma level_progress:
  assumes now: "level sv pc r E k s ts"
    and members: "\<And>n e. e \<in> set (by_node n) \<Longrightarrow> e \<in> E \<and> recursive_current_node e (tr_direction r) = n"
    and distinct_edges: "\<And>n. distinct (by_node n)"
    and all_edges: "\<And>t e. t \<in> set ts \<Longrightarrow> e \<in> E \<Longrightarrow> recursive_current_node e (tr_direction r) = t_current t
      \<Longrightarrow> e \<in> set (by_node (t_current t))"
    and step: "progressed sv pc r E (level_extensions pc r by_node ts) (frontier_closes pc r by_node ts) s [] s' nf"
  shows "level sv pc r E (Suc k) s' nf"
proof -
  let ?D = "level_extensions pc r by_node ts"
  note states = level_entered(2) [OF now]
  have D: "trail pc r E (t_path d) \<and> t_current d = last (pa_nodes (t_path d))
      \<and> length (pa_steps (t_path d)) = Suc k" if "d \<in> set ?D" for d
    by (rule level_extensions_trail [OF states members that])
  from step obtain ps where g: "gained sv pc r E ?D (frontier_closes pc r by_node ts) s s' ps nf"
    unfolding progressed_def by auto
  note g = gainedD [OF g]
  have ps: "\<forall>p\<in>set ps. length (pa_steps p) = Suc k" using g(5) D by auto
  have old: "\<forall>p\<in>set (found s). length (pa_steps p) \<le> k" "sorted (map (\<lambda>p. length (pa_steps p)) (found s))"
    using now by (simp_all add: level_def)
  have "entered pc r E s' d \<and> length (pa_steps (t_path d)) = Suc k" if "d \<in> set nf" for d
  proof -
    from that g(6) have "d \<in> set ?D" by blast
    note dD = D [OF this]
    moreover have "can_expand r (t_current d)" "set (pa_nodes (t_path d)) \<subseteq> set (visited s')" using g(7) that by auto
    ultimately show ?thesis by (simp add: entered_def frontier_state_def expandable_def)
  qed
  moreover have "\<forall>p\<in>set (found s'). length (pa_steps p) \<le> Suc k"
    unfolding g(4) set_append using old(1) ps by auto
  moreover have "sorted (map (\<lambda>p. length (pa_steps p)) (found s'))"
    unfolding g(4) by (rule sorted_append_same [OF old(2,1) ps])
  moreover have "t_path ` set nf = stage pc r E (Suc k) \<and> distinct nf \<and> complete_to pc r E (Suc k) s'"
    if nt: "\<not> truncated s'"
  proof -
    note e = g(8) [rule_format, OF nt]
    have "\<not> truncated s" using nt g(3) by blast
    with now have before: "t_path ` set ts = stage pc r E k" "distinct ts" "complete_to pc r E k s"
      by (simp_all add: level_def)
    show ?thesis
      by (rule level_complete [where D = ?D and by_node = by_node, OF before states members distinct_edges all_edges])
        (use e g(4) in auto)
  qed
  ultimately show ?thesis unfolding level_def using g(1) by blast
qed

lemma level_finished:
  assumes now: "level sv pc r E k s ts"
    and members: "\<And>n e. e \<in> set (by_node n) \<Longrightarrow> e \<in> E \<and> recursive_current_node e (tr_direction r) = n"
    and step: "finished sv pc r E (level_extensions pc r by_node ts) s s'"
  shows "bounded_search sv pc r E (Suc k) s'"
proof -
  let ?D = "level_extensions pc r by_node ts"
  from step obtain ps where ps: "found s' = found s @ ps" "set ps \<subseteq> t_path ` set ?D" "search_ok sv pc r E s'"
    unfolding finished_def by blast
  have "\<forall>p\<in>set ps. length (pa_steps p) = Suc k"
    using ps(2) level_extensions_trail [OF level_entered(2) [OF now] members] by fastforce
  moreover have old: "\<forall>p\<in>set (found s). length (pa_steps p) \<le> k" "sorted (map (\<lambda>p. length (pa_steps p)) (found s))"
    using now by (simp_all add: level_def)
  ultimately show ?thesis
    unfolding bounded_search_def ps(1) set_append using sorted_append_same ps(3) by fastforce
qed


subsection \<open>What a result promises\<close>

definition trace_sound ::
  "service \<Rightarrow> prepared_context \<Rightarrow> trace_request \<Rightarrow> edge set \<Rightarrow> trace_result \<Rightarrow> bool" where
  "trace_sound sv pc r E res \<longleftrightarrow>
     (\<forall>p\<in>set (tr_paths res). answer pc r E p \<and> int (length (pa_steps p)) \<le> tl_depth (tr_limits r))
     \<and> sorted (map (\<lambda>p. length (pa_steps p)) (tr_paths res))
     \<and> int (length (tr_paths res)) \<le> tl_paths (tr_limits r)
     \<and> int (sum_list (map (\<lambda>p. length (pa_steps p)) (tr_paths res))) \<le> maximum_result_steps
     \<and> sum_list (map (path_bytes sv) (tr_paths res)) \<le> maximum_result_bytes
     \<and> tr_visited res \<le> tl_nodes (tr_limits r)
     \<and> int (card (\<Union>p\<in>set (tr_paths res). set (pa_nodes p))) \<le> tr_visited res
     \<and> (tr_cycle res \<longrightarrow> cycle_exists pc r E)"

definition trace_complete :: "prepared_context \<Rightarrow> trace_request \<Rightarrow> edge set \<Rightarrow> trace_result \<Rightarrow> bool" where
  "trace_complete pc r E res \<longleftrightarrow>
     distinct (tr_paths res) \<and> set (tr_paths res) = {p. answer pc r E p}
     \<and> tr_visited res = int (card (\<Union>p\<in>{p. trail pc r E p}. set (pa_nodes p)))
     \<and> (tr_cycle res \<longleftrightarrow> cycle_exists pc r E)"

lemma bounded_search_sound:
  assumes "bounded_search sv pc r E k s" "int k \<le> tl_depth (tr_limits r)"
    and "tr_paths res = found s" "tr_visited res = int (length (visited s))" "tr_cycle res = cyclic s"
  shows "trace_sound sv pc r E res"
proof -
  have ok: "search_ok sv pc r E s" using assms(1) by (simp add: bounded_search_def)
  have "(\<Union>p\<in>set (found s). set (pa_nodes p)) \<subseteq> set (visited s)"
    using ok by (auto simp: search_ok_def)
  from card_mono [OF _ this] ok
  have "card (\<Union>p\<in>set (found s). set (pa_nodes p)) \<le> length (visited s)"
    by (simp add: search_ok_def distinct_card)
  moreover have "\<forall>p\<in>set (found s). answer pc r E p \<and> int (length (pa_steps p)) \<le> tl_depth (tr_limits r)"
    using ok assms(1,2) by (force simp: search_ok_def bounded_search_def)
  ultimately show ?thesis
    using assms ok by (simp add: trace_sound_def search_ok_def bounded_search_def)
qed

lemma level_bounded: "level sv pc r E k s ts \<Longrightarrow> bounded_search sv pc r E k s"
  by (simp add: level_def bounded_search_def)

lemma complete_to_complete:
  assumes "complete_to pc r E k s" "stage pc r E k = {}" "distinct (visited s)"
    and "tr_paths res = found s" "tr_visited res = int (length (visited s))" "tr_cycle res = cyclic s"
  shows "trace_complete pc r E res"
proof -
  have short: "length (pa_steps p) \<le> k" if "trail pc r E p" for p
    using trail_longer_than_stage [OF that, of k] assms(2) by (meson not_less)
  have shorter: "length (pa_steps p) < k" if "trail pc r E p" "closes_cycle pc r E p" for p
  proof (rule ccontr)
    assume "\<not> length (pa_steps p) < k"
    with short [OF that(1)] have "length (pa_steps p) = k" by simp
    with that have "p \<in> stage pc r E k" by (auto simp: stage_def closes_cycle_def usable_def)
    with assms(2) show False by simp
  qed
  have "set (found s) = {p. answer pc r E p}" "distinct (found s)"
    using assms(1) short unfolding complete_to_def answer_def by blast+
  moreover have "set (visited s) = (\<Union>p\<in>{p. trail pc r E p}. set (pa_nodes p))"
    using assms(1) short unfolding complete_to_def by blast
  moreover have "cyclic s \<longleftrightarrow> cycle_exists pc r E"
    using assms(1) shorter unfolding complete_to_def cycle_exists_iff by blast
  ultimately show ?thesis
    using assms(3-6) distinct_card [OF assms(3)] by (simp add: trace_complete_def)
qed

lemma level_end:
  assumes "level sv pc r E k s ts" "int k \<le> tl_depth (tr_limits r)"
    and "res = finished_result (if ts \<noteq> [] then s\<lparr>truncated := True\<rparr> else s)"
  shows "trace_sound sv pc r E res \<and> (\<not> tr_truncated res \<longrightarrow> trace_complete pc r E res)"
proof -
  have "trace_sound sv pc r E res"
    by (rule bounded_search_sound [OF level_bounded [OF assms(1)] assms(2)])
      (simp_all add: assms(3) finished_result_def)
  moreover have "trace_complete pc r E res" if "\<not> tr_truncated res"
  proof -
    from that assms(3) have "\<not> truncated (if ts \<noteq> [] then s\<lparr>truncated := True\<rparr> else s)"
      by (simp add: finished_result_def)
    then have ts: "ts = []" "\<not> truncated s" by (simp_all split: if_splits)
    with assms(1) have "complete_to pc r E k s" "stage pc r E k = {}" "distinct (visited s)"
      by (auto simp: level_def search_ok_def)
    then show ?thesis
      by (rule complete_to_complete) (simp_all add: assms(3) ts finished_result_def)
  qed
  ultimately show ?thesis by blast
qed

lemma progressed_is_finished:
  assumes "progressed sv pc r E ds c s nf s' nf'"
  shows "finished sv pc r E ds s s'"
proof -
  from assms obtain ps fs where "gained sv pc r E ds c s s' ps fs" unfolding progressed_def by blast
  from gainedD(1,4,5) [OF this] show ?thesis unfolding finished_def by blast
qed

subsection \<open>A repository of edges\<close>

text \<open>
  What the service relies on: an edge is known by its relation and version, a load returns
  edges at the nodes it was asked for, without repetition, all of them unless it says that
  some were left out, and it accounts for its bytes within the limit it was given.
\<close>

locale edge_repository =
  fixes load :: "'s \<Rightarrow> int list \<Rightarrow> direction \<Rightarrow> int \<Rightarrow> int \<Rightarrow> graph_error + edge list \<times> bool \<times> int"
    and edges :: "'s \<Rightarrow> edge set"
    and ok :: "'s \<Rightarrow> bool"
  assumes edge_keys: "ok d \<Longrightarrow> inj_on edge_key (edges d)"
    and loaded_edges: "ok d \<Longrightarrow> load d nodes dir n b = Inr (es, left_out, used) \<Longrightarrow>
      distinct es \<and> set es \<subseteq> {e \<in> edges d. recursive_current_node e dir \<in> set nodes}"
    and all_loaded: "ok d \<Longrightarrow> load d nodes dir n b = Inr (es, False, used) \<Longrightarrow>
      e \<in> edges d \<Longrightarrow> recursive_current_node e dir \<in> set nodes \<Longrightarrow> e \<in> set es"
    and bytes_accounted: "load d nodes dir n b = Inr (es, left_out, used) \<Longrightarrow> 0 < b \<Longrightarrow> 0 \<le> used \<and> used \<le> b"
begin

lemma trace_level_outcome:
  assumes "ok d" "gr_load (sv_repository sv) = load d" "level sv pc r (edges d) k s ts"
    and "trace_level sv r pc ts s used = Inr (out, used')"
  shows "case out of Proceed s' nf \<Rightarrow> level sv pc r (edges d) (Suc k) s' nf
    | Finish s' \<Rightarrow> bounded_search sv pc r (edges d) (Suc k) s'"
proof (cases "maximum_loaded_edge_bytes - used \<le> 0")
  case True
  with assms(4) have "out = Finish (s\<lparr>polls := Suc (polls s)\<rparr>)"
    by (auto simp: trace_level_def poll_Inr result_simps)
  with level_bounded [OF assms(3)] show ?thesis by (auto simp: bounded_search_def)
next
  case False
  let ?dir = "tr_direction r" and ?s = "s\<lparr>polls := Suc (Suc (polls s))\<rparr>"
  from False assms(2,4) obtain es left_out consumed out1 where
    load: "load d (unique_frontier_nodes ts) ?dir (maximum_edge_expansions - expansions s)
      (maximum_loaded_edge_bytes - used) = Inr (es, left_out, consumed)"
    and run: "expand_frontier sv r pc (group_edges es ?dir) ts ?s [] = Inr out1"
    and out: "out = (case out1 of Proceed s nf \<Rightarrow> if left_out then Finish s else Proceed s nf | Finish s \<Rightarrow> Finish s)"
    by (auto simp: trace_level_def poll_Inr result_simps Let_def simp del: split_paired_All split_paired_Ex)
  let ?by = "group_edges es ?dir"
  note es = loaded_edges [OF assms(1) load]
  have members: "e \<in> edges d \<and> recursive_current_node e ?dir = n" if "e \<in> set (?by n)" for n e
    using that es by (auto simp: group_edges_filter)
  have distinct: "distinct (?by n)" for n using es by (simp add: group_edges_filter)
  have now: "level sv pc r (edges d) k ?s ts"
    using assms(3) by (simp only: level_polls)
  have "search_ok sv pc r (edges d) ?s" using now by (simp add: level_def)
  from expand_frontier_outcome [OF this edge_keys [OF assms(1)] level_entered(1) [OF now] members run]
  have outcome: "outcome sv pc r (edges d) (level_extensions pc r ?by ts) (frontier_closes pc r ?by ts) ?s [] out1"
    by (simp add: level_extensions_def frontier_closes_def)
  show ?thesis
  proof (cases out1)
    case (Finish s1)
    with outcome have "finished sv pc r (edges d) (level_extensions pc r ?by ts) ?s s1"
      by (simp add: outcome_def)
    from level_finished [OF now members this] show ?thesis using Finish out by simp
  next
    case (Proceed s1 nf)
    with outcome have p: "progressed sv pc r (edges d) (level_extensions pc r ?by ts)
        (frontier_closes pc r ?by ts) ?s [] s1 nf" by (simp add: outcome_def)
    show ?thesis
    proof (cases left_out)
      case True
      from p have "finished sv pc r (edges d) (level_extensions pc r ?by ts) ?s s1"
        by (rule progressed_is_finished)
      from level_finished [OF now members this] show ?thesis using Proceed True out by simp
    next
      case False
      then have load': "load d (unique_frontier_nodes ts) ?dir (maximum_edge_expansions - expansions s)
          (maximum_loaded_edge_bytes - used) = Inr (es, False, consumed)" using load by simp
      have "e \<in> set (?by (t_current t))"
        if "t \<in> set ts" "e \<in> edges d" "recursive_current_node e ?dir = t_current t" for t e
        using all_loaded [OF assms(1) load' that(2)] that
        by (simp add: unique_frontier_nodes_set group_edges_filter)
      note all = this
      have "level sv pc r (edges d) (Suc k) s1 nf"
        by (rule level_progress [OF now members distinct all p])
      then show ?thesis using Proceed False out by simp
    qed
  qed
qed

lemma trace_levels_result:
  assumes "ok d" "gr_load (sv_repository sv) = load d" "level sv pc r (edges d) k s ts"
    and "depth = int k" "int k \<le> tl_depth (tr_limits r)"
    and "trace_levels sv r pc depth ts s used = Inr res"
  shows "trace_sound sv pc r (edges d) res \<and> (\<not> tr_truncated res \<longrightarrow> trace_complete pc r (edges d) res)"
  using assms(3-6)
proof (induction "nat (tl_depth (tr_limits r) - int k)" arbitrary: k depth ts s used)
  case 0
  then have "\<not> depth < tl_depth (tr_limits r)" by simp
  with 0(5) have res: "res = finished_result (if ts \<noteq> [] then s\<lparr>truncated := True\<rparr> else s)"
    by (simp add: trace_levels.simps)
  with level_end [OF 0(2,4)] show ?case by simp
next
  case (Suc m)
  show ?case
  proof (cases "ts = []")
    case True
    with Suc.prems(4) have "res = finished_result (if ts \<noteq> [] then s\<lparr>truncated := True\<rparr> else s)"
      by (simp add: trace_levels.simps)
    with level_end [OF Suc.prems(1,3)] show ?thesis by simp
  next
    case False
    from Suc.hyps(2) Suc.prems(2) have lt: "depth < tl_depth (tr_limits r)" by simp
    with Suc.prems(4) False obtain out used' where
      step: "trace_level sv r pc ts s used = Inr (out, used')"
      and rest: "(case out of Finish s \<Rightarrow> Inr (truncated_result s)
        | Proceed s nf \<Rightarrow> trace_levels sv r pc (depth + 1) nf s used') = Inr res"
      by (auto simp: trace_levels.simps [of sv r pc depth] result_simps)
    note after = trace_level_outcome [OF assms(1,2) Suc.prems(1) step]
    show ?thesis
    proof (cases out)
      case (Finish s1)
      with rest have "res = truncated_result s1" by simp
      moreover have "bounded_search sv pc r (edges d) (Suc k) s1" using after Finish by simp
      ultimately show ?thesis
        using lt Suc.prems(2) bounded_search_sound [of sv pc r "edges d" "Suc k" s1 res]
        by (simp add: truncated_result_def)
    next
      case (Proceed s1 nf)
      with after have "level sv pc r (edges d) (Suc k) s1 nf" by simp
      then show ?thesis
        by (rule Suc.hyps(1) [rotated 1]) (use Suc.hyps(2) Suc.prems(2) lt rest Proceed in auto)
    qed
  qed
qed

end

end
