(* ===== verification/GraphStore.thy ===== *)
theory GraphStore
  imports GraphRepository GraphLevels
begin

section \<open>SQLite as a repository of edges\<close>

text \<open>
  \<^verbatim>\<open>LoadEdges\<close> meets the contract of \<open>edge_repository\<close> on every database whose effective
  edges have one row per relation, the primary key of the table.
\<close>

definition stored_edges :: "codec \<Rightarrow> db \<Rightarrow> edge set" where
  "stored_edges cd d = {e. \<exists>row\<in>set (joined_rows d). decode_graph_edge cd d row = Inr e}"

definition edges_keyed :: "db \<Rightarrow> bool" where
  "edges_keyed d \<longleftrightarrow> distinct (map ee_relation (effective_t d))"

lemma decode_graph_edge_fields:
  "decode_graph_edge cd d row = Inr e \<Longrightarrow>
     e_relation e = ee_relation row \<and> e_version e = ee_version row \<and> e_source e = ee_source row
     \<and> e_target e = ee_target row"
  by (auto simp: decode_graph_edge_def split: sum.splits prod.splits)

lemma decode_graph_edge_nodes:
  "decode_graph_edge cd d row = Inr e \<Longrightarrow>
     recursive_current_node e dir = row_current dir row \<and> recursive_next_node e dir = row_next dir row"
  by (auto dest!: decode_graph_edge_fields
      simp: recursive_current_node_def recursive_next_node_def row_current_def row_next_def)

lemma joined_rows_keyed: "edges_keyed d \<Longrightarrow> inj_on ee_relation (set (joined_rows d)) \<and> distinct (joined_rows d)"
  by (auto simp: edges_keyed_def joined_rows_def distinct_map inj_on_def)

lemma read_edges_Inr:
  assumes "read_edges cd d n b rows es0 used0 = Inr (es, left_out, used)"
  shows "\<exists>done rest. rows = done @ rest \<and> list_all2 (\<lambda>row e. decode_graph_edge cd d row = Inr e) done (drop (length es0) es)
    \<and> take (length es0) es = es0 \<and> length es0 \<le> length es
    \<and> (\<not> left_out \<longrightarrow> rest = [] \<and> (done \<noteq> [] \<longrightarrow> int (length es) \<le> n)) \<and> used0 \<le> used \<and> (used0 \<le> b \<longrightarrow> used \<le> b)"
  using assms
proof (induction rows arbitrary: es0 used0)
  case Nil
  then show ?case by auto
next
  case (Cons row rows)
  show ?case
  proof (cases "int (length es0) \<ge> n \<or>
      load_budget_accept (ee_guard row) (ee_selector row) (ee_transform row) b used0 = None")
    case True
    with Cons.prems have "es = es0" "left_out" "used = used0" by (auto split: if_splits)
    then show ?thesis by (intro exI [of _ "[]"] exI [of _ "row # rows"]) auto
  next
    case False
    then obtain u where u: "load_budget_accept (ee_guard row) (ee_selector row) (ee_transform row) b used0 = Some u"
      by auto
    with False Cons.prems obtain e where e: "decode_graph_edge cd d row = Inr e"
      and rest: "read_edges cd d n b rows (es0 @ [e]) u = Inr (es, left_out, used)"
      by (auto simp: result_simps)
    from Cons.IH [OF rest] obtain ds rs where
      ds: "rows = ds @ rs" "list_all2 (\<lambda>row e. decode_graph_edge cd d row = Inr e) ds (drop (Suc (length es0)) es)"
        "take (Suc (length es0)) es = es0 @ [e]" "Suc (length es0) \<le> length es"
        "\<not> left_out \<longrightarrow> rs = [] \<and> (ds \<noteq> [] \<longrightarrow> int (length es) \<le> n)" "u \<le> used" "u \<le> b \<longrightarrow> used \<le> b"
      by auto
    have "used0 \<le> u" "u \<le> b" using u
      by (auto simp: load_budget_accept_def Let_def split: if_splits option.splits)
    moreover have "drop (length es0) es = e # drop (Suc (length es0)) es"
      using ds(3,4) by (metis append_eq_append_conv append_take_drop_id Cons_eq_appendI append_Nil append_assoc
          append_take_drop_id drop_eq_Nil length_take min.absorb2 take_Suc_conv_app_nth Cons_nth_drop_Suc
          Suc_le_eq nth_append_length)
    moreover have "take (length es0) es = es0"
      using ds(3) by (metis append_eq_conv_conj take_Suc take_take min.absorb1 le_SucI le_refl append_take_drop_id)
    moreover have "ds = [] \<Longrightarrow> \<not> left_out \<Longrightarrow> int (length es) \<le> n"
      using ds(2,4) False by simp
    ultimately show ?thesis
      using ds e by (intro exI [of _ "row # ds"] exI [of _ rs]) auto
  qed
qed


lemma select_edges_set:
  "set (select_edges d nodes dir) = {row \<in> set (joined_rows d). row_current dir row \<in> set nodes}"
  by (auto simp: select_edges_def)

lemma select_edges_distinct: "edges_keyed d \<Longrightarrow> distinct (select_edges d nodes dir)"
  using joined_rows_keyed by (simp add: select_edges_def)

lemma list_all2_decoded:
  assumes "list_all2 (\<lambda>row e. decode_graph_edge cd d row = Inr e) rows es" "set rows \<subseteq> set (joined_rows d)"
    and "edges_keyed d" "distinct rows"
  shows "distinct es"
proof -
  have "map e_relation es = map ee_relation rows"
    using assms(1) by (induction rule: list_all2_induct) (auto dest: decode_graph_edge_fields)
  moreover have "distinct (map ee_relation rows)"
    using assms(2-4) joined_rows_keyed [OF assms(3)] by (auto simp: distinct_map intro: inj_on_subset)
  ultimately show ?thesis by (metis distinct_map)
qed

lemma load_edges_rows:
  assumes "load_edges cd d nodes dir n b = Inr (es, left_out, used)" "nodes \<noteq> []"
  obtains rows rest where "select_edges d nodes dir = rows @ rest"
    "list_all2 (\<lambda>row e. decode_graph_edge cd d row = Inr e) rows es" "\<not> left_out \<Longrightarrow> rest = []"
    "0 \<le> used" "0 < b \<Longrightarrow> used \<le> b"
proof (cases "n \<le> 0 \<or> b \<le> 0")
  case True
  with assms have "es = []" "left_out" "used = 0" by (auto simp: load_edges_def)
  then show thesis using that [of "[]" "select_edges d nodes dir"] by simp
next
  case False
  let ?all = "select_edges d nodes dir"
  from False assms have "read_edges cd d n b (take (nat (n + 1)) ?all) [] 0 = Inr (es, left_out, used)"
    by (auto simp: load_edges_def take_limit_take)
  from read_edges_Inr [OF this] obtain rows rest where
    rows: "take (nat (n + 1)) ?all = rows @ rest" "list_all2 (\<lambda>row e. decode_graph_edge cd d row = Inr e) rows es"
      "\<not> left_out \<longrightarrow> rest = [] \<and> (rows \<noteq> [] \<longrightarrow> int (length es) \<le> n)" "0 \<le> used" "0 \<le> b \<longrightarrow> used \<le> b"
    by auto
  have "drop (nat (n + 1)) ?all = []" if "\<not> left_out"
  proof -
    from that rows False have "int (length rows) \<le> n"
      by (cases "rows = []") (auto dest: list_all2_lengthD)
    moreover have "take (nat (n + 1)) ?all = rows" using that rows by simp
    ultimately have "\<not> nat (n + 1) < length ?all" using False by (metis length_take min.absorb4 nat_less_iff
          add1_zle_eq int_nat_eq less_irrefl linorder_not_less nat_eq_iff order_less_le_trans zless_add1_eq)
    then show ?thesis by simp
  qed
  moreover have "?all = rows @ rest @ drop (nat (n + 1)) ?all"
    using rows(1) by (metis append.assoc append_take_drop_id)
  ultimately show thesis using that [of rows "rest @ drop (nat (n + 1)) ?all"] rows False by simp
qed

lemma load_edges_no_nodes: "load_edges cd d [] dir n b = Inr ([], False, 0)"
  by (simp add: load_edges_def)

interpretation sqlite_edges: edge_repository "load_edges cd" "stored_edges cd" edges_keyed for cd
proof
  fix d assume "edges_keyed d"
  then have inj: "inj_on ee_relation (set (joined_rows d))" using joined_rows_keyed by blast
  show "inj_on edge_key (stored_edges cd d)"
  proof (rule inj_onI)
    fix e f assume "e \<in> stored_edges cd d" "f \<in> stored_edges cd d" and key: "edge_key e = edge_key f"
    then obtain v w where v: "v \<in> set (joined_rows d)" "decode_graph_edge cd d v = Inr e"
      and w: "w \<in> set (joined_rows d)" "decode_graph_edge cd d w = Inr f" by (auto simp: stored_edges_def)
    from decode_graph_edge_fields [OF v(2)] decode_graph_edge_fields [OF w(2)] key have "ee_relation v = ee_relation w"
      by (simp add: edge_key_def)
    with inj v(1) w(1) have "v = w" by (simp add: inj_on_def)
    with v(2) w(2) show "e = f" by simp
  qed
next
  fix d nodes dir n b es left_out used
  assume keyed: "edges_keyed d" and load: "load_edges cd d nodes dir n b = Inr (es, left_out, used)"
  show "distinct es \<and> set es \<subseteq> {e \<in> stored_edges cd d. recursive_current_node e dir \<in> set nodes}"
  proof (cases "nodes = []")
    case True
    with load show ?thesis by (simp add: load_edges_no_nodes)
  next
    case False
    from load_edges_rows [OF load False] obtain rows rest where
      rows: "select_edges d nodes dir = rows @ rest"
        "list_all2 (\<lambda>row e. decode_graph_edge cd d row = Inr e) rows es" by metis
    have sub: "row \<in> set (joined_rows d) \<and> row_current dir row \<in> set nodes" if "row \<in> set rows" for row
      using select_edges_set [of d nodes dir] that unfolding rows(1) by auto
    have "distinct rows" using select_edges_distinct [OF keyed, of nodes dir] unfolding rows(1) by simp
    then have "distinct es" by (intro list_all2_decoded [OF rows(2) _ keyed]) (use sub in auto)
    moreover have "e \<in> stored_edges cd d \<and> recursive_current_node e dir \<in> set nodes" if "e \<in> set es" for e
    proof -
      from rows(2) that obtain row where row: "row \<in> set rows" "decode_graph_edge cd d row = Inr e"
        by (blast dest: list_all2_right)
      with sub [OF row(1)] decode_graph_edge_nodes [OF row(2)] show ?thesis by (auto simp: stored_edges_def)
    qed
    ultimately show ?thesis by blast
  qed
next
  fix d nodes dir n b es used e
  assume keyed: "edges_keyed d" and load: "load_edges cd d nodes dir n b = Inr (es, False, used)"
    and e: "e \<in> stored_edges cd d" "recursive_current_node e dir \<in> set nodes"
  then have "nodes \<noteq> []" by auto
  from load_edges_rows [OF load this] obtain rows where
    rows: "select_edges d nodes dir = rows" "list_all2 (\<lambda>row e. decode_graph_edge cd d row = Inr e) rows es"
    by (metis append_Nil2)
  from e(1) obtain row where row: "row \<in> set (joined_rows d)" "decode_graph_edge cd d row = Inr e"
    by (auto simp: stored_edges_def)
  with e(2) decode_graph_edge_nodes [OF row(2)] have "row \<in> set rows"
    using select_edges_set [of d nodes dir] rows(1) by auto
  then obtain f where "f \<in> set es" "decode_graph_edge cd d row = Inr f"
    using list_all2_left [OF rows(2)] by blast
  with row(2) show "e \<in> set es" by simp
next
  fix d nodes dir n b es left_out used
  assume load: "load_edges cd d nodes dir n b = Inr (es, left_out, used)" and pos: "0 < b"
  show "0 \<le> used \<and> used \<le> b"
  proof (cases "nodes = []")
    case True
    with load pos show ?thesis by (simp add: load_edges_no_nodes)
  next
    case False
    from load_edges_rows [OF load False] pos show ?thesis by metis
  qed
qed

end
