(* ===== verification/GraphRecursive.thy ===== *)
theory GraphRecursive
  imports GraphLevels
begin

section \<open>The callback search is complete\<close>

text \<open>
  The contract of a recursive repository and, inside it, the search of \<^verbatim>\<open>traceRecursive\<close>: the
  callback checks every state it is given, so a search that ends without an error is sound
  whatever the repository sent; when nothing was cut off and the repository sent the whole
  walk, it holds every path there is.
\<close>

subsection \<open>One call\<close>

definition linked :: "trace_request \<Rightarrow> recursive_edge_state \<Rightarrow> traversal \<Rightarrow> bool" where
  "linked r c t \<longleftrightarrow>
     re_depth c = int (length (pa_steps (t_path t))) + 1
     \<and> recursive_next_node (re_edge c) (tr_direction r) = re_next c
     \<and> recursive_current_node (re_edge c) (tr_direction r) = t_current t
     \<and> (re_next c \<in> set (pa_nodes (t_path t)) \<longleftrightarrow> re_cycle c)"

definition entered_state :: "recursive_edge_state \<Rightarrow> traversal \<Rightarrow> evaluation \<Rightarrow> traversal" where
  "entered_state c t ev =
     \<lparr>t_current = re_next c, t_path = extend_path (t_path t) (re_next c) (re_edge c) ev\<rparr>"

text \<open>
  What a call that returns no error did with its state: the parent is not active, the edge is
  FALSE, it closes a cycle, the node limit drops it, or its path is entered.
\<close>

inductive visit_step ::
  "prepared_context \<Rightarrow> trace_request \<Rightarrow> recursive_edge_state \<Rightarrow> recursive_search \<Rightarrow> search
     \<Rightarrow> (string \<rightharpoonup> traversal) \<Rightarrow> bool" for pc r c rs where
  step_dropped: "rs_states rs (re_parent c) = None \<Longrightarrow> same_answers (rs_search rs) s
    \<Longrightarrow> visit_step pc r c rs s (rs_states rs)"
| step_false: "rs_states rs (re_parent c) = Some t \<Longrightarrow> linked r c t \<Longrightarrow> evaluate_edge (re_edge c) pc = Inr ev
    \<Longrightarrow> truth_of ev = TruthFalse \<Longrightarrow> same_answers (rs_search rs) s \<Longrightarrow> visit_step pc r c rs s (rs_states rs)"
| step_cycle: "rs_states rs (re_parent c) = Some t \<Longrightarrow> linked r c t \<Longrightarrow> evaluate_edge (re_edge c) pc = Inr ev
    \<Longrightarrow> truth_of ev \<noteq> TruthFalse \<Longrightarrow> re_cycle c \<Longrightarrow> same_answers ((rs_search rs)\<lparr>cyclic := True\<rparr>) s
    \<Longrightarrow> visit_step pc r c rs s (rs_states rs)"
| step_full: "rs_states rs (re_parent c) = Some t \<Longrightarrow> linked r c t
    \<Longrightarrow> same_answers ((rs_search rs)\<lparr>truncated := True\<rparr>) s \<Longrightarrow> visit_step pc r c rs s (rs_states rs)"
| step_entered: "rs_states rs (re_parent c) = Some t \<Longrightarrow> linked r c t \<Longrightarrow> evaluate_edge (re_edge c) pc = Inr ev
    \<Longrightarrow> truth_of ev \<noteq> TruthFalse \<Longrightarrow> \<not> re_cycle c
    \<Longrightarrow> found s = found (rs_search rs) @ (if target_reached r (re_next c) then [t_path (entered_state c t ev)] else [])
    \<Longrightarrow> set (visited s) = insert (re_next c) (set (visited (rs_search rs)))
    \<Longrightarrow> cyclic s = cyclic (rs_search rs)
    \<Longrightarrow> truncated s = (truncated (rs_search rs) \<or> can_expand r (re_next c) \<and> re_depth c = tl_depth (tr_limits r))
    \<Longrightarrow> visit_step pc r c rs s
      (if can_expand r (re_next c) then (rs_states rs)(re_key c \<mapsto> entered_state c t ev) else rs_states rs)"

inductive_cases visit_stepE: "visit_step pc r c rs s states"

definition states_entered ::
  "prepared_context \<Rightarrow> trace_request \<Rightarrow> edge set \<Rightarrow> search \<Rightarrow> (string \<rightharpoonup> traversal) \<Rightarrow> bool" where
  "states_entered pc r E s states \<longleftrightarrow> (\<forall>key t. states key = Some t \<longrightarrow> entered pc r E s t)"

text \<open>The path that a call would enter is a trail.\<close>

lemma entered_state_trail:
  assumes "entered pc r E s t" "linked r c t" "re_edge c \<in> E" "evaluate_edge (re_edge c) pc = Inr ev"
    and "truth_of ev \<noteq> TruthFalse" "\<not> re_cycle c"
  shows "trail pc r E (t_path (entered_state c t ev))"
    "last (pa_nodes (t_path (entered_state c t ev))) = re_next c"
    "set (pa_nodes (t_path (entered_state c t ev))) = insert (re_next c) (set (pa_nodes (t_path t)))"
    "int (length (pa_steps (t_path (entered_state c t ev)))) = re_depth c"
    "pa_steps (t_path (entered_state c t ev)) \<noteq> []"
proof -
  have "trail pc r E (t_path t)" "t_current t = last (pa_nodes (t_path t))" "expandable r (t_path t)"
    using assms(1) by (simp_all add: entered_def frontier_state_def)
  with assms(2-6) trail_step [of pc r E "t_path t" "re_edge c" ev]
  show "trail pc r E (t_path (entered_state c t ev))"
    by (simp add: linked_def entered_state_def usable_def)
qed (use assms(2) in \<open>simp_all add: entered_state_def linked_def\<close>)

lemma closing_cycle_exists:
  assumes "entered pc r E s t" "linked r c t" "re_edge c \<in> E" "evaluate_edge (re_edge c) pc = Inr ev"
    and "truth_of ev \<noteq> TruthFalse" "re_cycle c"
  shows "closes_cycle pc r E (t_path t)" "cycle_exists pc r E"
proof -
  have "trail pc r E (t_path t)" "t_current t = last (pa_nodes (t_path t))" "expandable r (t_path t)"
    using assms(1) by (simp_all add: entered_def frontier_state_def)
  moreover from this assms(2-6) have "usable pc r E (t_path t) (re_edge c) ev"
    "recursive_next_node (re_edge c) (tr_direction r) \<in> set (pa_nodes (t_path t))"
    by (simp_all add: linked_def usable_def)
  ultimately show "closes_cycle pc r E (t_path t)" "cycle_exists pc r E"
    unfolding closes_cycle_def cycle_exists_def by blast+
qed

text \<open>
  How the answers can change before an error or a stop: not at all, or by the path of the state.
\<close>

definition stopped_after ::
  "service \<Rightarrow> prepared_context \<Rightarrow> trace_request \<Rightarrow> edge set \<Rightarrow> recursive_edge_state \<Rightarrow> search \<Rightarrow> search \<Rightarrow> bool" where
  "stopped_after sv pc r E c s s' \<longleftrightarrow>
     search_ok sv pc r E s' \<and> truncated s'
     \<and> (\<exists>ps. found s' = found s @ ps \<and> (\<forall>p\<in>set ps. int (length (pa_steps p)) = re_depth c))"

lemma recursive_follow_None:
  assumes "recursive_follow sv r pc c t rs = (None, rs')" "search_ok sv pc r E (rs_search rs)" "inj_on edge_key E"
    and "rs_states rs (re_parent c) = Some t" "entered pc r E (rs_search rs) t" "linked r c t" "re_edge c \<in> E"
  shows "visit_step pc r c rs (rs_search rs') (rs_states rs') \<and> search_ok sv pc r E (rs_search rs')
    \<and> rs_seen rs' = rs_seen rs"
proof -
  obtain ev s where ev: "evaluate_step pc (re_edge c) (rs_search rs) = Inr (ev, s)"
    using assms(1) by (auto simp: recursive_follow_def split: sum.splits)
  from assms(2) have "cache_ok pc E (evaluations (rs_search rs))" by (simp add: search_ok_def)
  from evaluate_step_Inr [OF ev this assms(3,7)] obtain cache where
    s: "s = (rs_search rs)\<lparr>evaluations := cache\<rparr>" "cache_ok pc E cache" "evaluate_edge (re_edge c) pc = Inr ev" by blast
  have ok: "search_ok sv pc r E s" using assms(2) s by (simp add: search_ok_def)
  have same: "same_answers (rs_search rs) s" using s by (simp add: same_answers_def)
  note run = assms(1) [unfolded recursive_follow_def ev sum.case prod.case Let_def]
  note link = assms(4,6)
  show ?thesis
  proof (cases "truth_of ev = TruthFalse")
    case True
    with run have rs': "rs' = rs\<lparr>rs_search := s\<rparr>" by simp
    show ?thesis using step_false [OF link s(3) True same] ok by (simp add: rs')
  next
    case nf: False
    show ?thesis
    proof (cases "re_cycle c")
      case True
      with run nf have rs': "rs' = rs\<lparr>rs_search := s\<lparr>cyclic := True\<rparr>\<rparr>" by simp
      have "same_answers ((rs_search rs)\<lparr>cyclic := True\<rparr>) (s\<lparr>cyclic := True\<rparr>)"
        using same by (simp add: same_answers_def)
      from step_cycle [OF link s(3) nf True this] closing_cycle_exists(2) [OF assms(5-7) s(3) nf True] ok
      show ?thesis by (simp add: rs' search_ok_def)
    next
      case nc: False
      with run nf have states: "\<not> path_states s \<ge> maximum_path_states" by (auto split: if_splits)
      show ?thesis
      proof (cases "re_next c \<notin> set (visited s) \<and> int (length (visited s)) \<ge> tl_nodes (tr_limits r)")
        case True
        with run nf nc states have rs': "rs' = rs\<lparr>rs_search := s\<lparr>truncated := True\<rparr>\<rparr>" by simp
        have "same_answers ((rs_search rs)\<lparr>truncated := True\<rparr>) (s\<lparr>truncated := True\<rparr>)"
          using same by (simp add: same_answers_def)
        from step_full [OF link this] ok show ?thesis by (simp add: rs')
      next
        case False
        let ?v = "visit_node (re_next c) s" and ?q = "t_path (entered_state c t ev)"
        have v: "search_ok sv pc r E ?v" by (rule search_ok_visit [OF ok]) (use False states in auto)
        have same_v: "found ?v = found (rs_search rs)" "cyclic ?v = cyclic (rs_search rs)"
          "truncated ?v = truncated (rs_search rs)"
          "set (visited ?v) = insert (re_next c) (set (visited (rs_search rs)))"
          using same by (auto simp: visit_node_def same_answers_def)
        note q = entered_state_trail [OF assms(5-7) s(3) nf nc]
        have q_visited: "set (pa_nodes ?q) \<subseteq> set (visited ?v)"
          using assms(5) q(3) same_v(4) by (auto simp: entered_def)
        from run nf nc states False obtain s1 where
          rec: "(if target_reached r (re_next c) then record_path sv r ?q ?v else Inr (True, ?v)) = Inr (True, s1)"
          and rs': "rs' = (if can_expand r (re_next c)
            then rs\<lparr>rs_search := (if re_depth c = tl_depth (tr_limits r) then s1\<lparr>truncated := True\<rparr> else s1),
                rs_frontier := (rs_frontier rs)(re_depth c := rs_frontier rs (re_depth c) + 1),
                rs_states := (rs_states rs)(re_key c \<mapsto> entered_state c t ev)\<rparr>
            else rs\<lparr>rs_search := s1\<rparr>)"
          by (auto simp: entered_state_def split: sum.splits prod.splits if_splits)
        have s1: "search_ok sv pc r E s1 \<and> visited s1 = visited ?v \<and> truncated s1 = truncated ?v \<and> cyclic s1 = cyclic ?v
          \<and> found s1 = (if target_reached r (re_next c) then found (rs_search rs) @ [?q] else found (rs_search rs))"
        proof (cases "target_reached r (re_next c)")
          case True
          then have "answer pc r E ?q" using q by (simp add: answer_def)
          moreover have "record_path sv r ?q ?v = Inr (True, s1)" using rec True by simp
          ultimately show ?thesis using record_path_Inr [OF _ v assms(3) _ q_visited] True same_v(1) by simp
        next
          case False
          with rec v same_v show ?thesis by simp
        qed
        have "visit_step pc r c rs (rs_search rs')
          (if can_expand r (re_next c) then (rs_states rs)(re_key c \<mapsto> entered_state c t ev) else rs_states rs)"
          by (rule step_entered [OF link s(3) nf nc]) (use s1 same_v rs' in simp_all)
        moreover have "rs_states rs' = (if can_expand r (re_next c) then (rs_states rs)(re_key c \<mapsto> entered_state c t ev)
          else rs_states rs)" "search_ok sv pc r E (rs_search rs')" "rs_seen rs' = rs_seen rs"
          using rs' s1 by simp_all
        ultimately show ?thesis by simp
      qed
    qed
  qed
qed

lemma evaluate_step_error: "evaluate_step pc e s = Inl err \<Longrightarrow> \<exists>x. err = EvaluateFailed (e_relation e) x"
  by (auto simp: evaluate_step_def split: sum.splits)

lemma size_steps_error:
  "size_steps size_of used steps tot sizes = Inl err \<Longrightarrow> err = ResultNotEncodable"
  by (induction steps arbitrary: tot sizes)
    (auto simp: Let_def sbind_eq_Inl split: option.splits if_splits)

lemma record_path_error: "record_path sv r p s = Inl err \<Longrightarrow> err = ResultNotEncodable"
  by (auto simp: record_path_def budget_accept_def sbind_eq_Inl dest: size_steps_error split: if_splits option.splits)

lemma recursive_follow_Stop:
  assumes "recursive_follow sv r pc c t rs = (Some StopRecursive, rs')" "search_ok sv pc r E (rs_search rs)"
    and "inj_on edge_key E" "entered pc r E (rs_search rs) t" "linked r c t" "re_edge c \<in> E"
  shows "stopped_after sv pc r E c (rs_search rs) (rs_search rs')"
proof -
  obtain ev s where ev: "evaluate_step pc (re_edge c) (rs_search rs) = Inr (ev, s)"
    using assms(1) evaluate_step_error by (fastforce simp: recursive_follow_def split: sum.splits)
  from assms(2) have "cache_ok pc E (evaluations (rs_search rs))" by (simp add: search_ok_def)
  from evaluate_step_Inr [OF ev this assms(3,6)] obtain cache where
    s: "s = (rs_search rs)\<lparr>evaluations := cache\<rparr>" "cache_ok pc E cache" "evaluate_edge (re_edge c) pc = Inr ev" by blast
  have ok: "search_ok sv pc r E s" using assms(2) s by (simp add: search_ok_def)
  note run = assms(1) [unfolded recursive_follow_def ev sum.case prod.case Let_def]
  have nf: "truth_of ev \<noteq> TruthFalse" and nc: "\<not> re_cycle c" using run by (auto split: if_splits)
  show ?thesis
  proof (cases "path_states s \<ge> maximum_path_states")
    case True
    with run nf nc have "rs' = rs\<lparr>rs_search := s\<lparr>truncated := True\<rparr>\<rparr>" by simp
    with ok s(1) show ?thesis by (simp add: stopped_after_def)
  next
    case states: False
    with run nf nc have room: "\<not> (re_next c \<notin> set (visited s) \<and> int (length (visited s)) \<ge> tl_nodes (tr_limits r))"
      by (auto split: if_splits)
    let ?v = "visit_node (re_next c) s" and ?q = "t_path (entered_state c t ev)"
    have v: "search_ok sv pc r E ?v" by (rule search_ok_visit [OF ok]) (use room states in auto)
    note q = entered_state_trail [OF assms(4-6) s(3) nf nc]
    have q_visited: "set (pa_nodes ?q) \<subseteq> set (visited ?v)"
      using assms(4) q(3) s(1) by (auto simp: entered_def visit_node_def)
    have found_v: "found ?v = found (rs_search rs)" using s(1) by (simp add: visit_node_def)
    from run nf nc states room obtain recorded s1 where
      rec: "(if target_reached r (re_next c) then record_path sv r ?q ?v else Inr (True, ?v)) = Inr (recorded, s1)"
      and rs': "rs_search rs' = s1\<lparr>truncated := True\<rparr>"
      by (auto simp: entered_state_def dest: record_path_error split: sum.splits prod.splits if_splits)
    have s1: "search_ok sv pc r E s1 \<and> (found s1 = found (rs_search rs) \<or> found s1 = found (rs_search rs) @ [?q])"
    proof (cases "target_reached r (re_next c)")
      case True
      then have "answer pc r E ?q" using q by (simp add: answer_def)
      moreover have "record_path sv r ?q ?v = Inr (recorded, s1)" using rec True by simp
      ultimately show ?thesis using record_path_Inr [OF _ v assms(3) _ q_visited] found_v by simp
    next
      case False
      with rec v found_v show ?thesis by simp
    qed
    then show ?thesis using q(4) rs' by (auto simp: stopped_after_def)
  qed
qed

lemma visit_step_cong:
  "rs_states rs1 = rs_states rs \<Longrightarrow> same_answers (rs_search rs) (rs_search rs1) \<Longrightarrow>
     visit_step pc r c rs1 s states = visit_step pc r c rs s states"
  by (simp add: visit_step.simps same_answers_def)

text \<open>One call of the callback: the checks it makes, and then one of the steps.\<close>

lemma recursive_visit_None:
  assumes "recursive_visit sv r pc c rs = (None, rs')" "search_ok sv pc r E (rs_search rs)" "inj_on edge_key E"
    and "states_entered pc r E (rs_search rs) (rs_states rs)" "re_edge c \<in> E"
  shows "visit_step pc r c rs (rs_search rs') (rs_states rs') \<and> search_ok sv pc r E (rs_search rs')
    \<and> rs_seen rs' = rs_seen rs @ [re_key c] \<and> re_key c \<noteq> [] \<and> re_key c \<notin> set (rs_seen rs)
    \<and> 1 \<le> re_depth c \<and> re_depth c \<le> tl_depth (tr_limits r)
    \<and> re_parent c \<in> set (rs_seen rs) \<union> {re_key c} \<union> dom (rs_states rs)"
proof -
  let ?s = "(rs_search rs)\<lparr>polls := Suc (polls (rs_search rs)), expansions := expansions (rs_search rs) + 1\<rparr>"
  let ?rs = "rs\<lparr>rs_search := ?s, rs_seen := rs_seen rs @ [re_key c]\<rparr>"
  have ok: "search_ok sv pc r E ?s" using assms(2) by (simp add: search_ok_def)
  have same: "same_answers (rs_search rs) ?s" by (simp add: same_answers_def)
  from assms(1) have checks: "re_key c \<noteq> []" "re_key c \<notin> set (rs_seen rs)" "1 \<le> re_depth c"
      "re_depth c \<le> tl_depth (tr_limits r)"
    and run: "(case rs_states rs (re_parent c) of
               None \<Rightarrow>
                 if re_parent c \<notin> set (rs_seen rs @ [re_key c]) then (Some RecursiveStateBeforeParent, ?rs)
                 else (None, ?rs)
             | Some parent \<Rightarrow>
                 if re_depth c \<noteq> int (length (pa_steps (t_path parent))) + 1 \<or> re_next c \<le> 0
                   \<or> recursive_next_node (re_edge c) (tr_direction r) \<noteq> re_next c
                   \<or> recursive_current_node (re_edge c) (tr_direction r) \<noteq> t_current parent
                 then (Some InconsistentRecursiveState, ?rs)
                 else if path_contains (pa_nodes (t_path parent)) (re_next c) \<noteq> re_cycle c
                 then (Some InvalidRecursiveCycle, ?rs)
                 else recursive_follow sv r pc c parent ?rs) = (None, rs')"
    by (auto simp: recursive_visit_def poll_def Let_def split: if_splits)
  have transfer: "visit_step pc r c ?rs s states = visit_step pc r c rs s states" for s states
    by (rule visit_step_cong) (simp_all add: same_answers_def)
  show ?thesis
  proof (cases "rs_states rs (re_parent c)")
    case None
    with run have "rs' = ?rs" "re_parent c \<in> set (rs_seen rs @ [re_key c])" by (auto split: if_splits)
    with None ok checks same show ?thesis by (auto simp: step_dropped)
  next
    case (Some t)
    with run have link: "linked r c t" by (auto simp: linked_def split: if_splits)
    from run Some have follow: "recursive_follow sv r pc c t ?rs = (None, rs')" by (auto split: if_splits)
    have "entered pc r E (rs_search ?rs) t"
      using assms(4) Some by (simp add: states_entered_def entered_def)
    from recursive_follow_None [OF follow _ assms(3) _ this link assms(5)] ok Some checks transfer
    show ?thesis by auto
  qed
qed

lemma recursive_visit_Stop:
  assumes "recursive_visit sv r pc c rs = (Some StopRecursive, rs')" "search_ok sv pc r E (rs_search rs)"
    and "inj_on edge_key E" "states_entered pc r E (rs_search rs) (rs_states rs)" "re_edge c \<in> E"
  shows "stopped_after sv pc r E c (rs_search rs) (rs_search rs')
    \<and> (found (rs_search rs') \<noteq> found (rs_search rs) \<longrightarrow> re_depth c \<le> tl_depth (tr_limits r))"
proof -
  let ?s = "(rs_search rs)\<lparr>polls := Suc (polls (rs_search rs)), expansions := expansions (rs_search rs) + 1\<rparr>"
  let ?rs = "rs\<lparr>rs_search := ?s, rs_seen := rs_seen rs @ [re_key c]\<rparr>"
  have ok: "search_ok sv pc r E ?s" using assms(2) by (simp add: search_ok_def)
  show ?thesis
  proof (cases "expansions ?s > maximum_edge_expansions")
    case True
    with assms(1) have "rs_search rs' = ?s\<lparr>truncated := True\<rparr>"
      by (auto simp: recursive_visit_def poll_def Let_def split: if_splits)
    with ok show ?thesis by (simp add: stopped_after_def)
  next
    case False
    with assms(1) obtain t where t: "rs_states rs (re_parent c) = Some t" and link: "linked r c t"
      and follow: "recursive_follow sv r pc c t ?rs = (Some StopRecursive, rs')"
      and depth: "re_depth c \<le> tl_depth (tr_limits r)"
      by (auto simp: recursive_visit_def poll_def Let_def linked_def split: if_splits option.splits)
    have "entered pc r E (rs_search ?rs) t"
      using assms(4) t by (simp add: states_entered_def entered_def)
    from recursive_follow_Stop [OF follow _ assms(3) this link assms(5)] ok depth show ?thesis
      by (simp add: stopped_after_def)
  qed
qed


subsection \<open>All calls\<close>

fun visit_all :: "visitor \<Rightarrow> recursive_edge_state list \<Rightarrow> recursive_search \<Rightarrow> graph_error option \<times> recursive_search" where
  "visit_all visit [] rs = (None, rs)"
| "visit_all visit (c # cs) rs =
     (case visit c rs of
        (Some err, rs) \<Rightarrow> (Some err, rs)
      | (None, rs) \<Rightarrow> visit_all visit cs rs)"

text \<open>What was entered, for every state that was sent: \<open>settled\<close>; and nothing else: \<open>recursive_inv\<close>.\<close>

definition settled ::
  "prepared_context \<Rightarrow> trace_request \<Rightarrow> recursive_search \<Rightarrow> recursive_edge_state \<Rightarrow> bool" where
  "settled pc r rs c \<longleftrightarrow>
     (\<forall>t. rs_states rs (re_parent c) = Some t \<longrightarrow>
        linked r c t
        \<and> (\<exists>ev. evaluate_edge (re_edge c) pc = Inr ev
            \<and> (truth_of ev = TruthFalse
               \<or> re_cycle c \<and> cyclic (rs_search rs)
               \<or> \<not> re_cycle c \<and> re_next c \<in> set (visited (rs_search rs))
                  \<and> (target_reached r (re_next c) \<longrightarrow> t_path (entered_state c t ev) \<in> set (found (rs_search rs)))
                  \<and> (can_expand r (re_next c) \<longrightarrow>
                       rs_states rs (re_key c) = Some (entered_state c t ev) \<and> re_depth c \<noteq> tl_depth (tr_limits r)))))"

definition origin_of ::
  "recursive_search \<Rightarrow> recursive_edge_state list \<Rightarrow> path \<Rightarrow> recursive_edge_state \<Rightarrow> bool" where
  "origin_of rs cs p c \<longleftrightarrow>
     c \<in> set cs \<and> \<not> re_cycle c
     \<and> (\<exists>t ev. rs_states rs (re_parent c) = Some t \<and> p = extend_path (t_path t) (re_next c) (re_edge c) ev)"

definition recursive_inv ::
  "service \<Rightarrow> prepared_context \<Rightarrow> trace_request \<Rightarrow> edge set \<Rightarrow> recursive_edge_state list \<Rightarrow> recursive_search \<Rightarrow> bool" where
  "recursive_inv sv pc r E cs rs \<longleftrightarrow>
     search_ok sv pc r E (rs_search rs)
     \<and> states_entered pc r E (rs_search rs) (rs_states rs)
     \<and> rs_seen rs = [] # map re_key cs \<and> distinct (rs_seen rs)
     \<and> dom (rs_states rs) \<subseteq> set (rs_seen rs) \<and> rs_states rs [] = Some (root_traversal (tr_start r))
     \<and> (\<forall>c\<in>set cs. re_parent c \<in> set (rs_seen rs) \<and> re_depth c \<le> tl_depth (tr_limits r))
     \<and> sorted (map (\<lambda>p. length (pa_steps p)) (found (rs_search rs)))
     \<and> (\<forall>p\<in>set (found (rs_search rs)). \<exists>c. origin_of rs cs p c \<and> int (length (pa_steps p)) = re_depth c)
     \<and> distinct (found (rs_search rs))
     \<and> (\<forall>k t. rs_states rs k = Some t \<longrightarrow> k \<noteq> [] \<longrightarrow>
          (\<exists>c. origin_of rs cs (t_path t) c \<and> re_key c = k \<and> t_current t = re_next c \<and> can_expand r (re_next c)))
     \<and> set (visited (rs_search rs)) \<subseteq> (\<Union>p\<in>{p. trail pc r E p}. set (pa_nodes p))
     \<and> (\<not> truncated (rs_search rs) \<longrightarrow> (\<forall>c\<in>set cs. settled pc r rs c))"

definition keys_by_edge :: "recursive_edge_state list \<Rightarrow> bool" where
  "keys_by_edge cs \<longleftrightarrow>
     (\<forall>c\<in>set cs. \<forall>c'\<in>set cs. re_parent c = re_parent c' \<longrightarrow> re_edge c = re_edge c' \<longrightarrow> re_key c = re_key c')"

lemma keys_by_edgeD:
  "keys_by_edge cs \<Longrightarrow> c \<in> set cs \<Longrightarrow> c' \<in> set cs \<Longrightarrow> re_parent c = re_parent c'
     \<Longrightarrow> re_edge c = re_edge c' \<Longrightarrow> re_key c = re_key c'"
  unfolding keys_by_edge_def by blast

lemma keys_by_edge_append: "keys_by_edge (cs @ ds) \<Longrightarrow> keys_by_edge cs"
  unfolding keys_by_edge_def set_append by blast

lemma recursive_inv_start:
  assumes "1 \<le> tl_nodes (tr_limits r)" "1 \<le> tl_paths (tr_limits r)"
  shows "recursive_inv sv pc r E [] (start_recursive (tr_start r) n)"
proof -
  have "entered pc r E (start_search (tr_start r) n) (root_traversal (tr_start r))"
    by (simp add: entered_def frontier_state_def root_traversal_def trail_root expandable_def start_search_def)
  moreover have "tr_start r \<in> (\<Union>p\<in>{p. trail pc r E p}. set (pa_nodes p))"
    using trail_root by fastforce
  ultimately show ?thesis
    using search_ok_start [OF assms] by (simp add: recursive_inv_def start_recursive_def states_entered_def)
      (simp add: start_search_def)
qed

text \<open>A state is not entered twice, and a key determines its path.\<close>

lemma recursive_inv_path_key:
  assumes "recursive_inv sv pc r E cs rs" "rs_states rs k = Some t" "rs_states rs k' = Some t'" "t_path t = t_path t'"
    and "keys_by_edge cs"
  shows "k = k'"
proof -
  have nonroot: "pa_steps (t_path u) \<noteq> []" if "rs_states rs l = Some u" "l \<noteq> []" for l u
    using assms(1) that unfolding recursive_inv_def origin_of_def by fastforce
  have root: "pa_steps (t_path u) = []" if "rs_states rs [] = Some u" for u
    using assms(1) that by (auto simp: recursive_inv_def root_traversal_def)
  define n where "n = length (pa_steps (t_path t))"
  have "length (pa_steps (t_path t)) = n \<Longrightarrow> rs_states rs k = Some t \<Longrightarrow> rs_states rs k' = Some t' \<Longrightarrow>
      t_path t = t_path t' \<Longrightarrow> k = k'"
  proof (induction n arbitrary: k k' t t')
    case 0
    with nonroot show ?case by (metis length_0_conv)
  next
    case (Suc n)
    then have "k \<noteq> []" "k' \<noteq> []" using root by fastforce+
    with assms(1) Suc.prems obtain c c' where
      c: "origin_of rs cs (t_path t) c" "re_key c = k" and c': "origin_of rs cs (t_path t') c'" "re_key c' = k'"
      unfolding recursive_inv_def by meson
    then obtain u ev u' ev' where
      u: "rs_states rs (re_parent c) = Some u" "t_path t = extend_path (t_path u) (re_next c) (re_edge c) ev"
      and u': "rs_states rs (re_parent c') = Some u'" "t_path t' = extend_path (t_path u') (re_next c') (re_edge c') ev'"
      by (auto simp: origin_of_def)
    with Suc.prems have same: "t_path u = t_path u'" "re_edge c = re_edge c'" by auto
    have "length (pa_steps (t_path u)) = n" using Suc.prems(1) u(2) by simp
    from Suc.IH [OF this u(1) u'(1) same(1)] have "re_parent c = re_parent c'" .
    with same(2) c c' assms(5) show ?case by (auto simp: keys_by_edge_def origin_of_def)
  qed
  with n_def assms(2-4) show ?thesis by blast
qed

definition grows :: "recursive_search \<Rightarrow> recursive_search \<Rightarrow> bool" where
  "grows rs rs' \<longleftrightarrow>
     (\<forall>k\<in>set (rs_seen rs). rs_states rs' k = rs_states rs k) \<and> rs_states rs \<subseteq>\<^sub>m rs_states rs'
     \<and> set (visited (rs_search rs)) \<subseteq> set (visited (rs_search rs'))
     \<and> set (found (rs_search rs)) \<subseteq> set (found (rs_search rs'))
     \<and> (cyclic (rs_search rs) \<longrightarrow> cyclic (rs_search rs'))
     \<and> (truncated (rs_search rs) \<longrightarrow> truncated (rs_search rs'))"

lemma grows_states: "grows rs rs' \<Longrightarrow> rs_states rs k = Some t \<Longrightarrow> rs_states rs' k = Some t"
  unfolding grows_def map_le_def by (metis domI)

lemma settled_grows:
  assumes "settled pc r rs c" "grows rs rs'" "re_parent c \<in> set (rs_seen rs)"
  shows "settled pc r rs' c"
  unfolding settled_def
proof (intro allI impI)
  fix t assume "rs_states rs' (re_parent c) = Some t"
  then have "rs_states rs (re_parent c) = Some t" using assms(2,3) by (simp add: grows_def)
  with assms(1) obtain ev where "linked r c t" "evaluate_edge (re_edge c) pc = Inr ev"
    "truth_of ev = TruthFalse
     \<or> re_cycle c \<and> cyclic (rs_search rs)
     \<or> \<not> re_cycle c \<and> re_next c \<in> set (visited (rs_search rs))
        \<and> (target_reached r (re_next c) \<longrightarrow> t_path (entered_state c t ev) \<in> set (found (rs_search rs)))
        \<and> (can_expand r (re_next c) \<longrightarrow>
             rs_states rs (re_key c) = Some (entered_state c t ev) \<and> re_depth c \<noteq> tl_depth (tr_limits r))"
    unfolding settled_def by blast
  moreover have "rs_states rs (re_key c) = Some (entered_state c t ev) \<Longrightarrow>
      rs_states rs' (re_key c) = Some (entered_state c t ev)" for ev
    by (rule grows_states [OF assms(2)])
  ultimately show "linked r c t \<and> (\<exists>ev. evaluate_edge (re_edge c) pc = Inr ev
      \<and> (truth_of ev = TruthFalse
         \<or> re_cycle c \<and> cyclic (rs_search rs')
         \<or> \<not> re_cycle c \<and> re_next c \<in> set (visited (rs_search rs'))
            \<and> (target_reached r (re_next c) \<longrightarrow> t_path (entered_state c t ev) \<in> set (found (rs_search rs')))
            \<and> (can_expand r (re_next c) \<longrightarrow>
                 rs_states rs' (re_key c) = Some (entered_state c t ev) \<and> re_depth c \<noteq> tl_depth (tr_limits r))))"
    using assms(2) unfolding grows_def by blast
qed

lemma origin_of_grows:
  assumes "origin_of rs cs p c" "grows rs rs'"
  shows "origin_of rs' (cs @ ds) p c"
  using assms(1) grows_states [OF assms(2)] unfolding origin_of_def by fastforce

text \<open>What the cases of a step have in common.\<close>

lemma recursive_inv_extend:
  assumes inv: "recursive_inv sv pc r E cs rs"
    and step: "grows rs rs'" "search_ok sv pc r E (rs_search rs')" "rs_seen rs' = rs_seen rs @ [re_key c]"
      "re_key c \<notin> set (rs_seen rs)" "re_parent c \<in> set (rs_seen rs')" "re_depth c \<le> tl_depth (tr_limits r)"
    and states: "\<And>k t. rs_states rs' k = Some t \<Longrightarrow> rs_states rs k = Some t \<or> k = re_key c \<and> k \<noteq> []
        \<and> entered pc r E (rs_search rs') t \<and> origin_of rs' [c] (t_path t) c \<and> t_current t = re_next c
        \<and> can_expand r (re_next c)"
    and found: "found (rs_search rs') = found (rs_search rs) @ ps"
      "\<And>p. p \<in> set ps \<Longrightarrow> origin_of rs' [c] p c \<and> int (length (pa_steps p)) = re_depth c"
      "distinct (found (rs_search rs'))" "length ps \<le> 1"
    and depths: "\<And>c'. c' \<in> set cs \<Longrightarrow> re_depth c' \<le> re_depth c"
    and visited: "set (visited (rs_search rs')) \<subseteq> (\<Union>p\<in>{p. trail pc r E p}. set (pa_nodes p))"
    and settled: "\<not> truncated (rs_search rs') \<Longrightarrow> settled pc r rs' c"
  shows "recursive_inv sv pc r E (cs @ [c]) rs'"
proof -
  have old: "states_entered pc r E (rs_search rs) (rs_states rs)" "rs_seen rs = [] # map re_key cs"
    "distinct (rs_seen rs)" "dom (rs_states rs) \<subseteq> set (rs_seen rs)"
    "rs_states rs [] = Some (root_traversal (tr_start r))"
    "\<And>c. c \<in> set cs \<Longrightarrow> re_parent c \<in> set (rs_seen rs) \<and> re_depth c \<le> tl_depth (tr_limits r)"
    "sorted (map (\<lambda>p. length (pa_steps p)) (found (rs_search rs)))"
    "\<And>p. p \<in> set (found (rs_search rs)) \<Longrightarrow> \<exists>c. origin_of rs cs p c \<and> int (length (pa_steps p)) = re_depth c"
    "\<And>k t. rs_states rs k = Some t \<Longrightarrow> k \<noteq> [] \<Longrightarrow>
      \<exists>c. origin_of rs cs (t_path t) c \<and> re_key c = k \<and> t_current t = re_next c \<and> can_expand r (re_next c)"
    "\<not> truncated (rs_search rs) \<Longrightarrow> \<forall>c\<in>set cs. settled pc r rs c"
    using inv unfolding recursive_inv_def by blast+
  have new_origin: "origin_of rs' (cs @ [c]) p c" if "origin_of rs' [c] p c" for p
    using that by (auto simp: origin_of_def)
  show ?thesis
    unfolding recursive_inv_def
  proof (intro conjI)
    show "states_entered pc r E (rs_search rs') (rs_states rs')"
      unfolding states_entered_def
    proof (intro allI impI)
      fix k t assume "rs_states rs' k = Some t"
      from states [OF this] show "entered pc r E (rs_search rs') t"
        using old(1) step(1) entered_mono unfolding states_entered_def grows_def by blast
    qed
    show "rs_seen rs' = [] # map re_key (cs @ [c])" "distinct (rs_seen rs')" using old(2,3) step(3,4) by auto
    show "dom (rs_states rs') \<subseteq> set (rs_seen rs')"
      using states old(4) step(3) by (fastforce simp: dom_def)
    show "rs_states rs' [] = Some (root_traversal (tr_start r))" by (rule grows_states [OF step(1) old(5)])
    show "\<forall>c\<in>set (cs @ [c]). re_parent c \<in> set (rs_seen rs') \<and> re_depth c \<le> tl_depth (tr_limits r)"
      using old(6) step(3,5,6) by auto
    have len: "int (length (pa_steps p)) \<le> re_depth c" if "p \<in> set (found (rs_search rs))" for p
      using old(8) [OF that] depths unfolding origin_of_def by fastforce
    show "sorted (map (\<lambda>p. length (pa_steps p)) (found (rs_search rs')))"
    proof (cases ps)
      case Nil
      with old(7) found(1) show ?thesis by simp
    next
      case (Cons q qs)
      with found(4) have q: "ps = [q]" by simp
      with found(2) [of q] have "int (length (pa_steps q)) = re_depth c" by simp
      with len have "length (pa_steps p) \<le> length (pa_steps q)" if "p \<in> set (found (rs_search rs))" for p
        using that by fastforce
      with old(7) q show ?thesis by (auto simp: found(1) sorted_append)
    qed
    show "\<forall>p\<in>set (found (rs_search rs')). \<exists>d. origin_of rs' (cs @ [c]) p d \<and> int (length (pa_steps p)) = re_depth d"
    proof
      fix p assume "p \<in> set (found (rs_search rs'))"
      then consider "p \<in> set (found (rs_search rs))" | "p \<in> set ps" by (auto simp: found(1))
      then show "\<exists>d. origin_of rs' (cs @ [c]) p d \<and> int (length (pa_steps p)) = re_depth d"
      proof cases
        case 1
        from old(8) [OF this] origin_of_grows [OF _ step(1)] show ?thesis by blast
      next
        case 2
        from found(2) [OF this] new_origin show ?thesis by blast
      qed
    qed
    show "\<forall>k t. rs_states rs' k = Some t \<longrightarrow> k \<noteq> [] \<longrightarrow>
      (\<exists>d. origin_of rs' (cs @ [c]) (t_path t) d \<and> re_key d = k \<and> t_current t = re_next d \<and> can_expand r (re_next d))"
    proof (intro allI impI)
      fix k t assume "rs_states rs' k = Some t" and k: "k \<noteq> []"
      from states [OF this(1)] show "\<exists>d. origin_of rs' (cs @ [c]) (t_path t) d \<and> re_key d = k
          \<and> t_current t = re_next d \<and> can_expand r (re_next d)"
      proof
        assume "rs_states rs k = Some t"
        from old(9) [OF this k] origin_of_grows [OF _ step(1)] show ?thesis by blast
      next
        assume "k = re_key c \<and> k \<noteq> [] \<and> entered pc r E (rs_search rs') t \<and> origin_of rs' [c] (t_path t) c
          \<and> t_current t = re_next c \<and> can_expand r (re_next c)"
        with new_origin show ?thesis by blast
      qed
    qed
    show "\<not> truncated (rs_search rs') \<longrightarrow> (\<forall>c\<in>set (cs @ [c]). settled pc r rs' c)"
    proof (intro impI ballI)
      fix d assume nt: "\<not> truncated (rs_search rs')" and d: "d \<in> set (cs @ [c])"
      from nt step(1) have "\<not> truncated (rs_search rs)" by (auto simp: grows_def)
      with d old(6,10) settled_grows [OF _ step(1)] settled [OF nt] show "settled pc r rs' d" by auto
    qed
  qed (use step(2) found(3) visited in auto)
qed


lemma recursive_inv_visit:
  assumes inv: "recursive_inv sv pc r E cs rs" and run: "recursive_visit sv r pc c rs = (None, rs')"
    and E: "inj_on edge_key E" "re_edge c \<in> E"
    and keyed: "keys_by_edge (cs @ [c])" and depths: "\<And>c'. c' \<in> set cs \<Longrightarrow> re_depth c' \<le> re_depth c"
  shows "recursive_inv sv pc r E (cs @ [c]) rs'"
proof -
  have old: "search_ok sv pc r E (rs_search rs)" "states_entered pc r E (rs_search rs) (rs_states rs)"
    "rs_seen rs = [] # map re_key cs" "dom (rs_states rs) \<subseteq> set (rs_seen rs)" "distinct (found (rs_search rs))"
    "\<And>p. p \<in> set (found (rs_search rs)) \<Longrightarrow> \<exists>c. origin_of rs cs p c"
    "set (visited (rs_search rs)) \<subseteq> (\<Union>p\<in>{p. trail pc r E p}. set (pa_nodes p))"
    using inv unfolding recursive_inv_def by blast+
  from recursive_visit_None [OF run old(1) E(1) old(2) E(2)]
  have step: "visit_step pc r c rs (rs_search rs') (rs_states rs')" and ok: "search_ok sv pc r E (rs_search rs')"
    and seen: "rs_seen rs' = rs_seen rs @ [re_key c]" "re_key c \<noteq> []" "re_key c \<notin> set (rs_seen rs)"
    and depth: "re_depth c \<le> tl_depth (tr_limits r)"
    and parent: "re_parent c \<in> set (rs_seen rs) \<union> {re_key c} \<union> dom (rs_states rs)" by simp_all
  have parent': "re_parent c \<in> set (rs_seen rs')" using parent old(4) seen(1) by auto
  have fresh: "rs_states rs (re_key c) = None" using seen(3) old(4) by auto
  note extend = recursive_inv_extend [OF inv _ ok seen(1,3) parent' depth]
  have keep: ?thesis if same: "rs_states rs' = rs_states rs" "found (rs_search rs') = found (rs_search rs)"
      "visited (rs_search rs') = visited (rs_search rs)" "cyclic (rs_search rs) \<longrightarrow> cyclic (rs_search rs')"
      "truncated (rs_search rs) \<longrightarrow> truncated (rs_search rs')"
      and settled: "\<not> truncated (rs_search rs') \<longrightarrow> settled pc r rs' c"
    by (rule extend [where ps = "[]"]) (use same settled old depths in \<open>auto simp: grows_def\<close>)
  from step show ?thesis
  proof (cases rule: visit_step.cases)
    case step_dropped
    then show ?thesis by (intro keep) (auto simp: same_answers_def settled_def)
  next
    case (step_false t ev)
    then show ?thesis by (intro keep) (auto simp: same_answers_def settled_def)
  next
    case (step_cycle t ev)
    then show ?thesis by (intro keep) (auto simp: same_answers_def settled_def)
  next
    case (step_full t)
    then show ?thesis by (intro keep) (auto simp: same_answers_def)
  next
    case (step_entered t ev)
    let ?d = "entered_state c t ev"
    have t: "entered pc r E (rs_search rs) t" using old(2) step_entered(2) by (auto simp: states_entered_def)
    note q = entered_state_trail [OF t step_entered(3) E(2) step_entered(4-6)]
    have grows: "grows rs rs'"
      unfolding grows_def using step_entered fresh seen(3) by (auto simp: map_le_def)
    have parent_state: "rs_states rs' (re_parent c) = Some t" by (rule grows_states [OF grows step_entered(2)])
    have origin: "origin_of rs' [c] (t_path ?d) c"
      using parent_state step_entered(6) unfolding origin_of_def entered_state_def by auto
    have t_visited: "set (pa_nodes (t_path t)) \<subseteq> set (visited (rs_search rs))" using t by (simp add: entered_def)
    have d: "entered pc r E (rs_search rs') ?d" if "can_expand r (re_next c)"
      using q that step_entered(8) t_visited by (auto simp: entered_def frontier_state_def expandable_def entered_state_def)
    have "t_path ?d \<notin> set (found (rs_search rs))"
    proof
      assume "t_path ?d \<in> set (found (rs_search rs))"
      from old(6) [OF this] obtain c' t' ev' where c': "c' \<in> set cs" "rs_states rs (re_parent c') = Some t'"
        "t_path ?d = extend_path (t_path t') (re_next c') (re_edge c') ev'" by (auto simp: origin_of_def)
      then have same: "t_path t = t_path t'" "re_edge c = re_edge c'" by (simp_all add: entered_state_def)
      have "keys_by_edge cs" using keyed by (rule keys_by_edge_append)
      from recursive_inv_path_key [OF inv step_entered(2) c'(2) same(1) this] have "re_parent c = re_parent c'" .
      then have "re_key c = re_key c'"
        by (intro keys_by_edgeD [OF keyed] same(2)) (use c'(1) in simp_all)
      with c'(1) seen(3) old(3) show False by auto
    qed
    then have distinct: "distinct (found (rs_search rs'))" using step_entered(7) old(5) by simp
    have "settled pc r rs' c" if nt: "\<not> truncated (rs_search rs')"
      unfolding settled_def
    proof (intro allI impI conjI exI [of _ ev])
      fix u assume "rs_states rs' (re_parent c) = Some u"
      with parent_state have u: "u = t" by simp
      then show "linked r c u" using step_entered(3) by simp
      show "evaluate_edge (re_edge c) pc = Inr ev" by (rule step_entered(4))
      have visited: "re_next c \<in> set (visited (rs_search rs'))" using step_entered(8) by simp
      have found: "target_reached r (re_next c) \<longrightarrow> t_path ?d \<in> set (found (rs_search rs'))"
        using step_entered(7) by simp
      have state: "can_expand r (re_next c) \<longrightarrow>
          rs_states rs' (re_key c) = Some ?d \<and> re_depth c \<noteq> tl_depth (tr_limits r)"
        using step_entered(1,10) nt by simp
      show "truth_of ev = TruthFalse
         \<or> re_cycle c \<and> cyclic (rs_search rs')
         \<or> \<not> re_cycle c \<and> re_next c \<in> set (visited (rs_search rs'))
            \<and> (target_reached r (re_next c) \<longrightarrow> t_path (entered_state c u ev) \<in> set (found (rs_search rs')))
            \<and> (can_expand r (re_next c) \<longrightarrow>
                 rs_states rs' (re_key c) = Some (entered_state c u ev) \<and> re_depth c \<noteq> tl_depth (tr_limits r))"
        unfolding u using step_entered(6) visited found state by blast
    qed
    then show ?thesis
    proof (rule extend [OF grows _ step_entered(7) _ distinct _ depths, rotated -1])
      show "set (visited (rs_search rs')) \<subseteq> (\<Union>p\<in>{p. trail pc r E p}. set (pa_nodes p))"
        using old(7) q(1,3) step_entered(8) by auto
      fix k u assume "rs_states rs' k = Some u"
      then show "rs_states rs k = Some u \<or> k = re_key c \<and> k \<noteq> [] \<and> entered pc r E (rs_search rs') u
          \<and> origin_of rs' [c] (t_path u) c \<and> t_current u = re_next c \<and> can_expand r (re_next c)"
        using step_entered(1) seen(2) d origin by (auto simp: entered_state_def split: if_splits)
    next
      fix p assume "p \<in> set (if target_reached r (re_next c) then [t_path ?d] else [])"
      then show "origin_of rs' [c] p c \<and> int (length (pa_steps p)) = re_depth c"
        using origin q(4) by (auto split: if_splits)
    qed simp_all
  qed
qed

lemma recursive_inv_lengths:
  assumes "recursive_inv sv pc r E cs rs" "p \<in> set (found (rs_search rs))"
  shows "\<exists>c\<in>set cs. int (length (pa_steps p)) = re_depth c" "int (length (pa_steps p)) \<le> tl_depth (tr_limits r)"
proof -
  have "\<exists>c. origin_of rs cs p c \<and> int (length (pa_steps p)) = re_depth c"
    and depth: "\<forall>c\<in>set cs. re_depth c \<le> tl_depth (tr_limits r)"
    using assms unfolding recursive_inv_def by blast+
  then obtain c where c: "c \<in> set cs" "int (length (pa_steps p)) = re_depth c" unfolding origin_of_def by blast
  then show "\<exists>c\<in>set cs. int (length (pa_steps p)) = re_depth c" by blast
  from c depth show "int (length (pa_steps p)) \<le> tl_depth (tr_limits r)" by simp
qed

definition recursive_bounded ::
  "service \<Rightarrow> prepared_context \<Rightarrow> trace_request \<Rightarrow> edge set \<Rightarrow> search \<Rightarrow> bool" where
  "recursive_bounded sv pc r E s \<longleftrightarrow> bounded_search sv pc r E (nat (tl_depth (tr_limits r))) s"

lemma recursive_inv_bounded:
  assumes "recursive_inv sv pc r E cs rs"
  shows "recursive_bounded sv pc r E (rs_search rs)"
proof -
  have "length (pa_steps p) \<le> nat (tl_depth (tr_limits r))" if "p \<in> set (found (rs_search rs))" for p
    using recursive_inv_lengths(2) [OF assms that] by simp
  moreover have "search_ok sv pc r E (rs_search rs)"
    "sorted (map (\<lambda>p. length (pa_steps p)) (found (rs_search rs)))"
    using assms unfolding recursive_inv_def by blast+
  ultimately show ?thesis by (simp add: recursive_bounded_def bounded_search_def)
qed

lemma sorted_append_equal:
  "sorted (map f xs) \<Longrightarrow> \<forall>x\<in>set xs. f x \<le> k \<Longrightarrow> \<forall>y\<in>set ys. f y = k \<Longrightarrow> sorted (map f (xs @ ys))"
proof -
  assume "sorted (map f xs)" "\<forall>x\<in>set xs. f x \<le> k" and ys: "\<forall>y\<in>set ys. f y = k"
  moreover have "sorted (map f ys)"
    using ys by (induction ys) auto
  ultimately show ?thesis by (auto simp: sorted_append)
qed

lemma stopped_bounded:
  assumes inv: "recursive_inv sv pc r E cs rs" and stop: "stopped_after sv pc r E c (rs_search rs) s'"
    and depth: "found s' \<noteq> found (rs_search rs) \<longrightarrow> re_depth c \<le> tl_depth (tr_limits r)"
    and depths: "\<And>c'. c' \<in> set cs \<Longrightarrow> re_depth c' \<le> re_depth c"
  shows "recursive_bounded sv pc r E s' \<and> truncated s'"
proof -
  from stop obtain ps where s': "search_ok sv pc r E s'" "truncated s'" "found s' = found (rs_search rs) @ ps"
    and ps: "\<forall>p\<in>set ps. int (length (pa_steps p)) = re_depth c"
    unfolding stopped_after_def by blast
  have old: "\<forall>p\<in>set (found (rs_search rs)). int (length (pa_steps p)) \<le> re_depth c"
    using recursive_inv_lengths(1) [OF inv] depths by fastforce
  have "sorted (map (\<lambda>p. length (pa_steps p)) (found (rs_search rs)))"
    using inv unfolding recursive_inv_def by blast
  then have "sorted (map (\<lambda>p. length (pa_steps p)) (found s'))"
    unfolding s'(3) by (rule sorted_append_equal [where k = "nat (re_depth c)"]) (use old ps in auto)
  moreover have "length (pa_steps p) \<le> nat (tl_depth (tr_limits r))" if "p \<in> set (found s')" for p
  proof (cases "p \<in> set (found (rs_search rs))")
    case True
    then show ?thesis using recursive_inv_lengths(2) [OF inv True] by simp
  next
    case False
    with that s'(3) have "p \<in> set ps" "found s' \<noteq> found (rs_search rs)" by auto
    with ps depth show ?thesis by fastforce
  qed
  ultimately show ?thesis using s' by (simp add: recursive_bounded_def bounded_search_def)
qed

lemma visit_all_result:
  assumes "visit_all (recursive_visit sv r pc) cs rs = (err, rs')" "err = None \<or> err = Some StopRecursive"
    and "recursive_inv sv pc r E ds rs" "inj_on edge_key E" "re_edge ` set cs \<subseteq> E"
    and "keys_by_edge (ds @ cs)" "sorted (map re_depth (ds @ cs))"
  shows "recursive_bounded sv pc r E (rs_search rs')
    \<and> (if err = None then recursive_inv sv pc r E (ds @ cs) rs' else truncated (rs_search rs'))"
  using assms(1,3,5-7)
proof (induction cs arbitrary: ds rs)
  case Nil
  then show ?case using recursive_inv_bounded by auto
next
  case (Cons c cs)
  have depths: "re_depth c' \<le> re_depth c" if "c' \<in> set ds" for c'
    using Cons.prems(5) that by (simp add: sorted_append)
  have edge: "re_edge c \<in> E" using Cons.prems(3) by simp
  have keyed: "keys_by_edge (ds @ [c])" using Cons.prems(4) keys_by_edge_append [of "ds @ [c]" cs] by simp
  obtain e1 rs1 where visit: "recursive_visit sv r pc c rs = (e1, rs1)" by (cases "recursive_visit sv r pc c rs")
  show ?case
  proof (cases e1)
    case None
    with visit have "recursive_inv sv pc r E (ds @ [c]) rs1"
      using recursive_inv_visit [OF Cons.prems(2) _ assms(4) edge keyed depths] by simp
    moreover have "visit_all (recursive_visit sv r pc) cs rs1 = (err, rs')" using Cons.prems(1) visit None by simp
    ultimately show ?thesis
      using Cons.IH [of rs1 "ds @ [c]"] Cons.prems(3-5) by (auto split: if_splits)
  next
    case (Some x)
    with Cons.prems(1) visit have "err = Some x" "rs' = rs1" by simp_all
    with assms(2) visit Some have stop: "recursive_visit sv r pc c rs = (Some StopRecursive, rs')" "err \<noteq> None"
      by simp_all
    have "search_ok sv pc r E (rs_search rs)" "states_entered pc r E (rs_search rs) (rs_states rs)"
      using Cons.prems(2) unfolding recursive_inv_def by blast+
    from recursive_visit_Stop [OF stop(1) this(1) assms(4) this(2) edge]
    have "stopped_after sv pc r E c (rs_search rs) (rs_search rs')"
      "found (rs_search rs') \<noteq> found (rs_search rs) \<longrightarrow> re_depth c \<le> tl_depth (tr_limits r)" by simp_all
    from stopped_bounded [OF Cons.prems(2) this depths] stop(2) show ?thesis by auto
  qed
qed

subsection \<open>Completeness\<close>

definition whole_walk :: "edge set \<Rightarrow> recursive_trace_request \<Rightarrow> recursive_edge_state list \<Rightarrow> bool" where
  "whole_walk E rq cs \<longleftrightarrow>
     (\<forall>k n. k = [] \<and> n = rq_start rq
        \<or> (\<exists>c\<in>set cs. re_key c = k \<and> re_next c = n \<and> \<not> re_cycle c \<and> re_depth c < rq_depth rq
             \<and> (rq_target rq = 0 \<or> n \<noteq> rq_target rq))
        \<longrightarrow> (\<forall>e\<in>E. recursive_current_node e (rq_direction rq) = n
               \<longrightarrow> (\<exists>c\<in>set cs. re_parent c = k \<and> re_edge c = e)))"

lemma whole_walkD:
  assumes "whole_walk E rq cs" "k = [] \<and> n = rq_start rq
        \<or> (\<exists>c\<in>set cs. re_key c = k \<and> re_next c = n \<and> \<not> re_cycle c \<and> re_depth c < rq_depth rq
             \<and> (rq_target rq = 0 \<or> n \<noteq> rq_target rq))"
    and "e \<in> E" "recursive_current_node e (rq_direction rq) = n"
  obtains c where "c \<in> set cs" "re_parent c = k" "re_edge c = e"
  using assms unfolding whole_walk_def by blast


text \<open>Every trail that may be expanded is a state, and every other one was entered too.\<close>

lemma recursive_state_of_trail:
  assumes inv: "recursive_inv sv pc r E cs rs" and nt: "\<not> truncated (rs_search rs)"
    and walk: "whole_walk E (recursive_request r) cs"
  shows "trail pc r E p \<Longrightarrow>
    (expandable r p \<longrightarrow> (\<exists>k t. rs_states rs k = Some t \<and> t_path t = p \<and> t_current t = last (pa_nodes p)
      \<and> (\<forall>e\<in>E. recursive_current_node e (tr_direction r) = last (pa_nodes p)
            \<longrightarrow> (\<exists>c\<in>set cs. re_parent c = k \<and> re_edge c = e))))
    \<and> (answer pc r E p \<longrightarrow> p \<in> set (found (rs_search rs)))
    \<and> set (pa_nodes p) \<subseteq> set (visited (rs_search rs))"
proof (induction rule: trail.induct)
  case trail_root
  have "rs_states rs [] = Some (root_traversal (tr_start r))" "tr_start r \<in> set (visited (rs_search rs))"
    using inv unfolding recursive_inv_def search_ok_def by blast+
  moreover have "\<exists>c\<in>set cs. re_parent c = [] \<and> re_edge c = e"
    if "e \<in> E" "recursive_current_node e (tr_direction r) = tr_start r" for e
    using whole_walkD [OF walk, of "[]" "tr_start r" e] that by (metis recursive_request_def
        recursive_trace_request.select_convs(1,3))
  moreover have "t_path (root_traversal (tr_start r)) = root_path (tr_start r)"
    "t_current (root_traversal (tr_start r)) = tr_start r" by (simp_all add: root_traversal_def)
  ultimately have "\<exists>k t. rs_states rs k = Some t \<and> t_path t = root_path (tr_start r)
      \<and> t_current t = last (pa_nodes (root_path (tr_start r)))
      \<and> (\<forall>e\<in>E. recursive_current_node e (tr_direction r) = last (pa_nodes (root_path (tr_start r)))
            \<longrightarrow> (\<exists>c\<in>set cs. re_parent c = k \<and> re_edge c = e))"
    by (intro exI [of _ "[]"] exI [of _ "root_traversal (tr_start r)"]) simp
  then show ?case using \<open>tr_start r \<in> set (visited (rs_search rs))\<close> by (simp add: answer_def)
next
  case (trail_step p e ev)
  let ?n = "recursive_next_node e (tr_direction r)"
  let ?q = "extend_path p ?n e ev"
  have usable: "expandable r p" "e \<in> E" "recursive_current_node e (tr_direction r) = last (pa_nodes p)"
    "evaluate_edge e pc = Inr ev" "truth_of ev \<noteq> TruthFalse"
    using trail_step.hyps(2) by (simp_all add: usable_def)
  from trail_step.IH usable(1-3) obtain k t c where t: "rs_states rs k = Some t" "t_path t = p"
    and c: "c \<in> set cs" "re_parent c = k" "re_edge c = e" by blast
  have "settled pc r rs c" "re_depth c \<le> tl_depth (tr_limits r)"
    using inv nt c(1) unfolding recursive_inv_def by blast+
  then have "linked r c t" and entered: "re_next c \<in> set (visited (rs_search rs))
      \<and> (target_reached r (re_next c) \<longrightarrow> t_path (entered_state c t ev) \<in> set (found (rs_search rs)))
      \<and> (can_expand r (re_next c) \<longrightarrow> rs_states rs (re_key c) = Some (entered_state c t ev)
          \<and> re_depth c \<noteq> tl_depth (tr_limits r))" and nc: "\<not> re_cycle c"
    using t c usable(4,5) trail_step.hyps(3) unfolding settled_def linked_def by auto
  then have n: "re_next c = ?n" using c(3) by (simp add: linked_def)
  have q: "t_path (entered_state c t ev) = ?q" "t_current (entered_state c t ev) = ?n"
    using t c(3) n by (simp_all add: entered_state_def)
  have "\<exists>k t. rs_states rs k = Some t \<and> t_path t = ?q \<and> t_current t = ?n
      \<and> (\<forall>f\<in>E. recursive_current_node f (tr_direction r) = ?n
            \<longrightarrow> (\<exists>c\<in>set cs. re_parent c = k \<and> re_edge c = f))" if "can_expand r ?n"
  proof (intro exI conjI ballI impI)
    show "rs_states rs (re_key c) = Some (entered_state c t ev)" using entered that n by simp
    fix f assume f: "f \<in> E" "recursive_current_node f (tr_direction r) = ?n"
    have "re_depth c < tl_depth (tr_limits r)"
      using entered that n \<open>re_depth c \<le> tl_depth (tr_limits r)\<close> by simp
    then show "\<exists>d\<in>set cs. re_parent d = re_key c \<and> re_edge d = f"
      using whole_walkD [OF walk, of "re_key c" ?n f] f c(1) n nc that
      by (metis can_expand_def recursive_request_def recursive_trace_request.select_convs(2-4))
  qed (rule q)+
  moreover have "expandable r ?q \<longleftrightarrow> can_expand r ?n" by (simp add: expandable_def)
  moreover have "answer pc r E ?q \<longrightarrow> ?q \<in> set (found (rs_search rs))"
    using entered n q by (simp add: answer_def)
  ultimately show ?case using trail_step.IH entered n by simp
qed

lemma recursive_complete:
  assumes inv: "recursive_inv sv pc r E cs rs" and nt: "\<not> truncated (rs_search rs)"
    and walk: "whole_walk E (recursive_request r) cs"
    and res: "tr_paths res = found (rs_search rs)" "tr_visited res = int (length (visited (rs_search rs)))"
      "tr_cycle res = cyclic (rs_search rs)"
  shows "trace_complete pc r E res"
proof -
  note all = recursive_state_of_trail [OF inv nt walk]
  have old: "search_ok sv pc r E (rs_search rs)" "distinct (found (rs_search rs))"
    "set (visited (rs_search rs)) \<subseteq> (\<Union>p\<in>{p. trail pc r E p}. set (pa_nodes p))"
    using inv unfolding recursive_inv_def by blast+
  have "set (found (rs_search rs)) = {p. answer pc r E p}"
    using old(1) all by (auto simp: search_ok_def answer_def)
  moreover have "set (visited (rs_search rs)) = (\<Union>p\<in>{p. trail pc r E p}. set (pa_nodes p))"
    using old(3) all by blast
  moreover have "cyclic (rs_search rs)" if "cycle_exists pc r E"
  proof -
    from that obtain p e ev where p: "trail pc r E p" "usable pc r E p e ev"
      "recursive_next_node e (tr_direction r) \<in> set (pa_nodes p)" by (auto simp: cycle_exists_def)
    then obtain k t c where t: "rs_states rs k = Some t" "t_path t = p"
      and c: "c \<in> set cs" "re_parent c = k" "re_edge c = e"
      using all [OF p(1)] unfolding usable_def by blast
    have "settled pc r rs c" using inv nt c(1) unfolding recursive_inv_def by blast
    then show ?thesis
      using t c p unfolding settled_def linked_def usable_def by auto
  qed
  moreover have "distinct (visited (rs_search rs))" "cyclic (rs_search rs) \<longrightarrow> cycle_exists pc r E"
    using old(1) by (simp_all add: search_ok_def)
  ultimately show ?thesis
    using old(2) res distinct_card [of "visited (rs_search rs)"] by (auto simp: trace_complete_def)
qed

subsection \<open>A recursive repository\<close>

text \<open>
  What \<^verbatim>\<open>traceRecursive\<close> relies on: the callback is called with a list of states whose edges
  are edges of the graph, by depth, until it returns an error; a key stands for one edge below
  one parent, and a load that ends without error and leaves nothing out sent the whole walk.
\<close>

locale recursive_repository =
  fixes load :: "'s \<Rightarrow> recursive_trace_request \<Rightarrow> visitor \<Rightarrow> recursive_search
      \<Rightarrow> (bool \<times> int \<times> graph_error option) \<times> recursive_search"
    and edges :: "'s \<Rightarrow> edge set"
    and ok :: "'s \<Rightarrow> bool"
  assumes edge_keys: "ok d \<Longrightarrow> inj_on edge_key (edges d)"
    and sends: "ok d \<Longrightarrow> load d rq visit rs = ((left_out, used, err), rs')
      \<Longrightarrow> err = None \<or> err = Some StopRecursive
      \<Longrightarrow> \<exists>cs. visit_all visit cs rs = (err, rs') \<and> re_edge ` set cs \<subseteq> edges d \<and> sorted (map re_depth cs)
        \<and> keys_by_edge cs \<and> (err = None \<longrightarrow> \<not> left_out \<longrightarrow> whole_walk (edges d) rq cs)"
begin

lemma trace_recursive_result:
  assumes "ok d" "trace_recursive sv r pc (load d) n = Inr res"
    and "1 \<le> tl_depth (tr_limits r)" "1 \<le> tl_nodes (tr_limits r)" "1 \<le> tl_paths (tr_limits r)"
  shows "trace_sound sv pc r (edges d) res \<and> (\<not> tr_truncated res \<longrightarrow> trace_complete pc r (edges d) res)"
proof -
  from assms(2) obtain left_out used err rs where
    load: "load d (recursive_request r) (recursive_visit sv r pc) (start_recursive (tr_start r) n)
      = ((left_out, used, err), rs)"
    and err: "err = None \<or> err = Some StopRecursive"
    and res: "res = finished_result (if left_out then (rs_search rs)\<lparr>truncated := True\<rparr> else rs_search rs)"
    by (auto simp: trace_recursive_def Let_def result_simps split: prod.splits option.splits if_splits)
  from sends [OF assms(1) load err] obtain cs where
    cs: "visit_all (recursive_visit sv r pc) cs (start_recursive (tr_start r) n) = (err, rs)"
      "re_edge ` set cs \<subseteq> edges d" "sorted (map re_depth cs)" "keys_by_edge cs"
      "err = None \<longrightarrow> \<not> left_out \<longrightarrow> whole_walk (edges d) (recursive_request r) cs" by blast
  from visit_all_result [OF cs(1) err recursive_inv_start [OF assms(4,5)] edge_keys [OF assms(1)] cs(2)] cs(3,4)
  have out: "recursive_bounded sv pc r (edges d) (rs_search rs)"
    "err = None \<longrightarrow> recursive_inv sv pc r (edges d) cs rs" "err \<noteq> None \<longrightarrow> truncated (rs_search rs)"
    by (auto split: if_splits)
  have "tr_paths res = found (rs_search rs)" "tr_visited res = int (length (visited (rs_search rs)))"
    "tr_cycle res = cyclic (rs_search rs)"
    "\<not> tr_truncated res \<longrightarrow> \<not> left_out \<and> \<not> truncated (rs_search rs)"
    by (simp_all add: res finished_result_def)
  note fields = this
  have "trace_sound sv pc r (edges d) res"
    by (rule bounded_search_sound [OF out(1) [unfolded recursive_bounded_def] _ fields(1-3)]) (use assms(3) in simp)
  moreover have "trace_complete pc r (edges d) res" if "\<not> tr_truncated res"
  proof -
    from that fields(4) out(3) have "err = None" "\<not> left_out" "\<not> truncated (rs_search rs)" by auto
    with out(2) cs(5) show ?thesis by (intro recursive_complete [OF _ _ _ fields(1-3)]) auto
  qed
  ultimately show ?thesis by blast
qed

end

end
