(* ===== verification/GraphWalk.thy ===== *)
theory GraphWalk
  imports GraphStore GraphRecursive
begin

section \<open>The recursive query sends the whole walk\<close>

text \<open>
  \<^verbatim>\<open>LoadRecursiveEdges\<close> meets the contract of \<open>recursive_repository\<close>: the rows of the common
  table expression come by depth, the key of a row is made of its parent's key and its
  relation, and below the \<^verbatim>\<open>LIMIT\<close> the queue is worked off completely.
\<close>

subsection \<open>Working off the queue\<close>

lemma take_first_mset: "take_first w vs = (m, rest) \<Longrightarrow> add_mset m (mset rest) = add_mset w (mset vs)"
  by (induction w vs arbitrary: m rest rule: take_first.induct) (auto split: if_splits prod.splits)

lemma take_first_set: "take_first w vs = (m, rest) \<Longrightarrow> insert m (set rest) = insert w (set vs)"
  using take_first_mset by (metis set_mset_add_mset_insert set_mset_mset)

lemma take_first_least: "take_first w vs = (m, rest) \<Longrightarrow> v \<in> set (w # vs) \<Longrightarrow> wk_depth m \<le> wk_depth v"
proof (induction w vs arbitrary: m rest v rule: take_first.induct)
  case (2 w u us)
  then show ?case by (fastforce simp: walk_before_def split: if_splits prod.splits)
qed simp

lemma walk_rows_Cons:
  "0 < n \<Longrightarrow> take_first v vs = (w, rest) \<Longrightarrow>
     walk_rows d rq n (v # vs) = w # walk_rows d rq (n - 1) (rest @ extend_walk d rq w)"
  by (simp add: walk_rows.simps [of d rq n])

lemma walk_rows_Nil: "walk_rows d rq n [] = []" "n \<le> 0 \<Longrightarrow> walk_rows d rq n q = []"
  by (simp_all add: walk_rows.simps [of d rq n])

text \<open>A walk that stays below its limit is closed.\<close>

lemma walk_rows_closed:
  "int (length (walk_rows d rq n q)) < n \<Longrightarrow>
     set q \<subseteq> set (walk_rows d rq n q) \<and> (\<forall>w\<in>set (walk_rows d rq n q). set (extend_walk d rq w) \<subseteq> set (walk_rows d rq n q))"
proof (induction d rq n q rule: walk_rows.induct)
  case (1 d rq n q)
  then have n: "0 < n" by simp
  show ?case
  proof (cases q)
    case Nil
    then show ?thesis by (simp add: walk_rows_Nil)
  next
    case (Cons v vs)
    obtain w rest where w: "take_first v vs = (w, rest)" by (cases "take_first v vs")
    let ?rest = "walk_rows d rq (n - 1) (rest @ extend_walk d rq w)"
    have rows: "walk_rows d rq n q = w # ?rest" unfolding Cons by (rule walk_rows_Cons [OF n w])
    with 1(2) have short: "int (length ?rest) < n - 1" by simp
    have "\<not> n \<le> 0" using n by simp
    note IH = 1(1) [OF this Cons w [symmetric] short]
    have "set q = insert w (set rest)" using take_first_set [OF w] Cons by simp
    with IH show ?thesis unfolding rows by auto
  qed
qed

lemma walk_rows_sorted:
  "sorted (map wk_depth (walk_rows d rq n q))
     \<and> (\<forall>w\<in>set (walk_rows d rq n q). \<exists>v\<in>set q. wk_depth v \<le> wk_depth w)"
proof (induction d rq n q rule: walk_rows.induct)
  case (1 d rq n q)
  show ?case
  proof (cases "n \<le> 0 \<or> q = []")
    case True
    then show ?thesis by (auto simp: walk_rows_Nil)
  next
    case False
    then obtain v vs where q: "q = v # vs" by (cases q) auto
    obtain w rest where w: "take_first v vs = (w, rest)" by (cases "take_first v vs")
    let ?rest = "walk_rows d rq (n - 1) (rest @ extend_walk d rq w)"
    have rows: "walk_rows d rq n q = w # ?rest" using walk_rows_Cons w q False by simp
    have "\<not> n \<le> 0" using False by simp
    from 1 [OF this q w [symmetric]] have IH: "sorted (map wk_depth ?rest)"
      "\<forall>u\<in>set ?rest. \<exists>x\<in>set (rest @ extend_walk d rq w). wk_depth x \<le> wk_depth u" by blast+
    have least: "wk_depth w \<le> wk_depth x" if "x \<in> set (rest @ extend_walk d rq w)" for x
    proof (cases "x \<in> set rest")
      case True
      with take_first_set [OF w] take_first_least [OF w, of x] show ?thesis by auto
    next
      case False
      with that show ?thesis by (auto simp: extend_walk_def split: if_splits)
    qed
    have "wk_depth w \<le> wk_depth u" if "u \<in> set ?rest" for u
      using IH(2) that least order_trans by blast
    moreover have "\<exists>x\<in>set q. wk_depth x \<le> wk_depth u" if "u \<in> set (w # ?rest)" for u
    proof -
      have "w \<in> set q" using take_first_set [OF w] q by auto
      with that calculation show ?thesis by auto
    qed
    ultimately show ?thesis unfolding rows using IH(1) by simp
  qed
qed

lemma walk_rows_all:
  assumes "\<And>w. w \<in> set q \<Longrightarrow> P w" "\<And>w v. P w \<Longrightarrow> v \<in> set (extend_walk d rq w) \<Longrightarrow> P v"
  shows "w \<in> set (walk_rows d rq n q) \<Longrightarrow> P w"
  using assms
proof (induction d rq n q arbitrary: w rule: walk_rows.induct)
  case (1 d rq n q)
  have n: "0 < n" using 1(2) by (cases "n \<le> 0") (simp_all add: walk_rows_Nil)
  have "q \<noteq> []" using 1(2) by (cases q) (simp_all add: walk_rows_Nil)
  then obtain v vs where q: "q = v # vs" by (cases q) auto
  obtain u rest where u: "take_first v vs = (u, rest)" by (cases "take_first v vs")
  let ?rest = "walk_rows d rq (n - 1) (rest @ extend_walk d rq u)"
  have rows: "walk_rows d rq n q = u # ?rest" unfolding q by (rule walk_rows_Cons [OF n u])
  have "P u" using take_first_set [OF u] q 1(3) by auto
  moreover have "P x" if "x \<in> set (rest @ extend_walk d rq u)" for x
    using that take_first_set [OF u] q 1(3,4) \<open>P u\<close> by auto
  moreover have "\<not> n \<le> 0" using n by simp
  note IH = 1(1) [OF this q u [symmetric]]
  ultimately show ?case
    using IH [of w] 1(2,4) unfolding rows by auto
qed

subsection \<open>The rows of the walk\<close>

text \<open>What every row says of the edge it stands for and of its key.\<close>

definition walk_row_ok :: "db \<Rightarrow> direction \<Rightarrow> walk_row \<Rightarrow> bool" where
  "walk_row_ok d dir w \<longleftrightarrow>
     wk_key w = (if wk_parent w = [] then int_text (wk_relation w)
                 else wk_parent w @ '','' @ int_text (wk_relation w))
     \<and> (\<exists>e\<in>set (effective_t d). ee_relation e = wk_relation w \<and> ee_version e = wk_version w
          \<and> wk_current w = row_next dir e)"

lemma walk_row_key: "walk_row_ok d dir w \<Longrightarrow> wk_key w \<noteq> []"
  using int_text_nonempty by (auto simp: walk_row_ok_def split: if_splits)

lemma initial_walk_ok: "w \<in> set (initial_walk d dir start) \<Longrightarrow> walk_row_ok d dir w"
  by (auto simp: initial_walk_def walk_row_ok_def)

lemma extend_walk_ok:
  "walk_row_ok d (rq_direction rq) w \<Longrightarrow> v \<in> set (extend_walk d rq w) \<Longrightarrow> walk_row_ok d (rq_direction rq) v"
proof -
  assume "walk_row_ok d (rq_direction rq) w" and v: "v \<in> set (extend_walk d rq w)"
  then have key: "wk_key w \<noteq> []" by (intro walk_row_key)
  from v obtain e where "e \<in> set (effective_t d)" "wk_key v = wk_key w @ '','' @ int_text (ee_relation e)"
    "wk_parent v = wk_key w" "wk_current v = row_next (rq_direction rq) e" "wk_relation v = ee_relation e"
    "wk_version v = ee_version e"
    by (auto simp: extend_walk_def split: if_splits)
  with key show ?thesis by (auto simp: walk_row_ok_def)
qed

definition query_walk :: "db \<Rightarrow> recursive_trace_request \<Rightarrow> walk_row list" where
  "query_walk d rq = walk_rows d rq (rq_expansions rq + 1) (initial_walk d (rq_direction rq) (rq_start rq))"

lemma query_walk_ok: "w \<in> set (query_walk d rq) \<Longrightarrow> walk_row_ok d (rq_direction rq) w"
  unfolding query_walk_def
  by (rule walk_rows_all [where P = "walk_row_ok d (rq_direction rq)"])
    (auto intro: initial_walk_ok extend_walk_ok)

text \<open>A database whose effective edges have one row each and belong to a relation.\<close>

definition graph_ready :: "db \<Rightarrow> bool" where
  "graph_ready d \<longleftrightarrow>
     edges_keyed d \<and> (\<forall>e\<in>set (effective_t d). find_current d (ee_relation e) \<noteq> None)"

lemma graph_ready_joined: "graph_ready d \<Longrightarrow> joined_rows d = effective_t d"
  by (auto simp: graph_ready_def joined_rows_def filter_id_conv)

lemma edges_keyed_unique:
  "edges_keyed d \<Longrightarrow> v \<in> set (effective_t d) \<Longrightarrow> w \<in> set (effective_t d) \<Longrightarrow> ee_relation v = ee_relation w \<Longrightarrow> v = w"
  by (auto simp: edges_keyed_def distinct_map inj_on_def)

lemma filter_unique:
  "distinct xs \<Longrightarrow> x \<in> set xs \<Longrightarrow> P x \<Longrightarrow> (\<And>y. y \<in> set xs \<Longrightarrow> P y \<Longrightarrow> y = x) \<Longrightarrow> filter P xs = [x]"
proof (induction xs)
  case (Cons a xs)
  show ?case
  proof (cases "a = x")
    case True
    then have "filter P xs = []" using Cons.prems(1,4) by (fastforce simp: filter_empty_conv)
    with True Cons.prems(3) show ?thesis by simp
  next
    case False
    then have "\<not> P a" using Cons.prems(4) [of a] by auto
    moreover have "filter P xs = [x]" by (rule Cons.IH) (use Cons.prems False in auto)
    ultimately show ?thesis by simp
  qed
qed simp

definition edge_row :: "db \<Rightarrow> walk_row \<Rightarrow> effective_row" where
  "edge_row d w = hd (filter (\<lambda>e. ee_relation e = wk_relation w \<and> ee_version e = wk_version w) (joined_rows d))"

lemma edge_row_filter:
  assumes "graph_ready d" "walk_row_ok d dir w"
  shows "filter (\<lambda>e. ee_relation e = wk_relation w \<and> ee_version e = wk_version w) (joined_rows d) = [edge_row d w]"
    and "edge_row d w \<in> set (effective_t d)" "ee_relation (edge_row d w) = wk_relation w"
    and "row_next dir (edge_row d w) = wk_current w"
proof -
  have keyed: "edges_keyed d" using assms(1) by (simp add: graph_ready_def)
  obtain e where e: "e \<in> set (effective_t d)" "ee_relation e = wk_relation w" "ee_version e = wk_version w"
    "wk_current w = row_next dir e" using assms(2) by (auto simp: walk_row_ok_def)
  have "distinct (effective_t d)" using keyed by (simp add: edges_keyed_def distinct_map)
  then have one: "filter (\<lambda>e. ee_relation e = wk_relation w \<and> ee_version e = wk_version w) (joined_rows d) = [e]"
    unfolding graph_ready_joined [OF assms(1)]
  proof (rule filter_unique [OF _ e(1)])
    fix f assume "f \<in> set (effective_t d)" "ee_relation f = wk_relation w \<and> ee_version f = wk_version w"
    with e show "f = e" by (intro edges_keyed_unique [OF keyed]) simp_all
  qed (use e in simp)
  then show "filter (\<lambda>e. ee_relation e = wk_relation w \<and> ee_version e = wk_version w) (joined_rows d) = [edge_row d w]"
    "edge_row d w \<in> set (effective_t d)" "ee_relation (edge_row d w) = wk_relation w"
    "row_next dir (edge_row d w) = wk_current w"
    using e by (simp_all add: edge_row_def)
qed

lemma recursive_rows_map:
  assumes "graph_ready d"
  shows "recursive_rows d rq = map (\<lambda>w. (w, edge_row d w)) (query_walk d rq)"
proof -
  have "concat (map (\<lambda>w. map (\<lambda>e. (w, e))
         (filter (\<lambda>e. ee_relation e = wk_relation w \<and> ee_version e = wk_version w) (joined_rows d))) ws)
      = map (\<lambda>w. (w, edge_row d w)) ws" if "set ws \<subseteq> set (query_walk d rq)" for ws
    using that
  proof (induction ws)
    case (Cons w ws)
    then have "walk_row_ok d (rq_direction rq) w" by (intro query_walk_ok) simp
    from Cons edge_row_filter(1) [OF assms this] show ?case by simp
  qed simp
  then show ?thesis unfolding recursive_rows_def query_walk_def by blast
qed

subsection \<open>The calls of the callback\<close>

definition sent_state :: "codec \<Rightarrow> db \<Rightarrow> walk_row \<times> effective_row \<Rightarrow> recursive_edge_state \<Rightarrow> bool" where
  "sent_state cd d wr c \<longleftrightarrow>
     (\<exists>e. decode_graph_edge cd d (snd wr) = Inr e \<and> c = recursive_state_of (fst wr) e)"

lemma visit_rows_result:
  assumes "visit_rows cd d rq visit rows n used rs = ((left_out, used', err), rs')"
    and "err = None \<or> err = Some StopRecursive"
  shows "\<exists>sent rest cs. rows = sent @ rest \<and> list_all2 (sent_state cd d) sent cs \<and> visit_all visit cs rs = (err, rs')
    \<and> (err = None \<longrightarrow> \<not> left_out \<longrightarrow> rest = [] \<and> (rows \<noteq> [] \<longrightarrow> n + int (length rows) \<le> rq_expansions rq))"
  using assms(1)
proof (induction rows arbitrary: n used rs)
  case Nil
  then show ?case by (intro exI [of _ "[]"]) auto
next
  case (Cons wr rows)
  obtain w row where wr: "wr = (w, row)" by (cases wr)
  show ?case
  proof (cases "n + 1 > rq_expansions rq \<or>
      load_budget_accept (ee_guard row) (ee_selector row) (ee_transform row) (rq_bytes rq) used = None")
    case True
    with Cons.prems wr have "left_out" "err = None" "rs' = rs" by (auto split: if_splits)
    then show ?thesis by (intro exI [of _ "[]"] exI [of _ "wr # rows"]) simp
  next
    case False
    then obtain u where u: "load_budget_accept (ee_guard row) (ee_selector row) (ee_transform row) (rq_bytes rq) used = Some u"
      by auto
    have "decode_graph_edge cd d row \<noteq> Inl StopRecursive"
      by (auto simp: decode_graph_edge_def split: sum.splits)
    with Cons.prems False u wr assms(2) obtain e where e: "decode_graph_edge cd d row = Inr e"
      and run: "(case visit (recursive_state_of w e) rs of
                     (Some err, rs) \<Rightarrow> ((False, u, Some err), rs)
                   | (None, rs) \<Rightarrow> visit_rows cd d rq visit rows (n + 1) u rs) = ((left_out, used', err), rs')"
      by (auto split: if_splits sum.splits)
    let ?c = "recursive_state_of w e"
    have sent: "sent_state cd d wr ?c" using e wr by (simp add: sent_state_def)
    obtain e1 rs1 where visit: "visit ?c rs = (e1, rs1)" by (cases "visit ?c rs")
    show ?thesis
    proof (cases e1)
      case (Some x)
      with run visit have out: "err = Some x" "rs' = rs1" by simp_all
      then have "visit_all visit [?c] rs = (err, rs')" using visit Some by simp
      with sent out show ?thesis by (intro exI [of _ "[wr]"] exI [of _ rows] exI [of _ "[?c]"]) simp
    next
      case None
      with run visit have "visit_rows cd d rq visit rows (n + 1) u rs1 = ((left_out, used', err), rs')" by simp
      from Cons.IH [OF this] obtain ss rest cs where
        ss: "rows = ss @ rest" "list_all2 (sent_state cd d) ss cs" "visit_all visit cs rs1 = (err, rs')"
          "err = None \<longrightarrow> \<not> left_out \<longrightarrow> rest = [] \<and> (rows \<noteq> [] \<longrightarrow> n + 1 + int (length rows) \<le> rq_expansions rq)"
        by blast
      have "visit_all visit (?c # cs) rs = (err, rs')" using ss(3) visit None by simp
      moreover have "wr # rows \<noteq> [] \<longrightarrow> n + int (length (wr # rows)) \<le> rq_expansions rq"
        if "err = None" "\<not> left_out"
        using ss(4) that False by (cases rows) auto
      ultimately show ?thesis
        using ss(1,2,4) sent by (intro exI [of _ "wr # ss"] exI [of _ rest] exI [of _ "?c # cs"]) auto
    qed
  qed
qed

text \<open>The states sent for a prefix of the walk.\<close>

definition state_of_walk :: "codec \<Rightarrow> db \<Rightarrow> walk_row \<Rightarrow> recursive_edge_state \<Rightarrow> bool" where
  "state_of_walk cd d w c \<longleftrightarrow>
     (\<exists>e. decode_graph_edge cd d (edge_row d w) = Inr e \<and> c = recursive_state_of w e)"

lemma state_of_walk_fields:
  "state_of_walk cd d w c \<Longrightarrow> re_key c = wk_key w \<and> re_parent c = wk_parent w \<and> re_depth c = wk_depth w
     \<and> re_next c = wk_current w \<and> re_cycle c = wk_cycle w"
  by (auto simp: state_of_walk_def recursive_state_of_def)

lemma sent_states_walk:
  "list_all2 (sent_state cd d) (map (\<lambda>w. (w, edge_row d w)) ws) cs \<longleftrightarrow> list_all2 (state_of_walk cd d) ws cs"
  by (simp add: list_all2_map1 sent_state_def state_of_walk_def [abs_def])

lemma sent_keys_by_edge:
  assumes "list_all2 (state_of_walk cd d) ws cs" "\<And>w. w \<in> set ws \<Longrightarrow> walk_row_ok d dir w" "graph_ready d"
  shows "keys_by_edge cs"
  unfolding keys_by_edge_def
proof (intro ballI impI)
  fix c c' assume c: "c \<in> set cs" and c': "c' \<in> set cs"
    and same: "re_parent c = re_parent c'" "re_edge c = re_edge c'"
  from list_all2_right [OF assms(1) c] obtain w where w: "w \<in> set ws" "state_of_walk cd d w c" by blast
  from list_all2_right [OF assms(1) c'] obtain v where v: "v \<in> set ws" "state_of_walk cd d v c'" by blast
  have rel: "e_relation (re_edge c) = wk_relation w" if "state_of_walk cd d w c" "w \<in> set ws" for w c
    using that edge_row_filter(3) [OF assms(3) assms(2) [OF that(2)]]
    by (auto simp: state_of_walk_def recursive_state_of_def dest: decode_graph_edge_fields)
  from rel [OF w(2,1)] rel [OF v(2,1)] same(2) have "wk_relation w = wk_relation v" by simp
  with same(1) state_of_walk_fields [OF w(2)] state_of_walk_fields [OF v(2)]
    assms(2) [OF w(1)] assms(2) [OF v(1)] show "re_key c = re_key c'"
    by (simp add: walk_row_ok_def)
qed

lemma sent_whole_walk:
  assumes "graph_ready d" "list_all2 (state_of_walk cd d) (query_walk d rq) cs"
    and "int (length (query_walk d rq)) \<le> rq_expansions rq"
  shows "whole_walk (stored_edges cd d) rq cs"
  unfolding whole_walk_def
proof (intro allI impI ballI)
  fix k n e
  assume place: "k = [] \<and> n = rq_start rq \<or> (\<exists>c\<in>set cs. re_key c = k \<and> re_next c = n \<and> \<not> re_cycle c
      \<and> re_depth c < rq_depth rq \<and> (rq_target rq = 0 \<or> n \<noteq> rq_target rq))"
    and e: "e \<in> stored_edges cd d" "recursive_current_node e (rq_direction rq) = n"
  have closed: "set (initial_walk d (rq_direction rq) (rq_start rq)) \<subseteq> set (query_walk d rq)"
    "\<And>w. w \<in> set (query_walk d rq) \<Longrightarrow> set (extend_walk d rq w) \<subseteq> set (query_walk d rq)"
    using walk_rows_closed [of d rq "rq_expansions rq + 1" "initial_walk d (rq_direction rq) (rq_start rq)"] assms(3)
    unfolding query_walk_def by auto
  from e(1) obtain row where row: "row \<in> set (effective_t d)" "decode_graph_edge cd d row = Inr e"
    using graph_ready_joined [OF assms(1)] by (auto simp: stored_edges_def)
  have current: "row_current (rq_direction rq) row = n" using decode_graph_edge_nodes [OF row(2)] e(2) by simp
  have "\<exists>w\<in>set (query_walk d rq). wk_parent w = k \<and> wk_relation w = ee_relation row"
  proof (cases "k = [] \<and> n = rq_start rq")
    case True
    with row(1) current have "\<exists>w\<in>set (initial_walk d (rq_direction rq) (rq_start rq)).
        wk_parent w = k \<and> wk_relation w = ee_relation row" by (auto simp: initial_walk_def)
    with closed(1) show ?thesis by blast
  next
    case False
    with place obtain c where c: "c \<in> set cs" "re_key c = k" "re_next c = n" "\<not> re_cycle c"
      "re_depth c < rq_depth rq" "rq_target rq = 0 \<or> n \<noteq> rq_target rq" by blast
    from list_all2_right [OF assms(2) c(1)] obtain w where w: "w \<in> set (query_walk d rq)" "state_of_walk cd d w c" by blast
    have "\<exists>v\<in>set (extend_walk d rq w). wk_parent v = k \<and> wk_relation v = ee_relation row"
      using c row(1) current state_of_walk_fields [OF w(2)] by (auto simp: extend_walk_def)
    with closed(2) [OF w(1)] show ?thesis by blast
  qed
  then obtain w where w: "w \<in> set (query_walk d rq)" "wk_parent w = k" "wk_relation w = ee_relation row" by blast
  note edge_row = edge_row_filter [OF assms(1) query_walk_ok [OF w(1)]]
  have "edges_keyed d" using assms(1) by (simp add: graph_ready_def)
  then have "edge_row d w = row"
    by (rule edges_keyed_unique) (use edge_row(2,3) row(1) w(3) in simp_all)
  moreover obtain c where "c \<in> set cs" "state_of_walk cd d w c"
    using list_all2_left [OF assms(2) w(1)] by blast
  ultimately show "\<exists>c\<in>set cs. re_parent c = k \<and> re_edge c = e"
    using row(2) w(2) by (intro bexI [of _ c]) (auto simp: state_of_walk_def recursive_state_of_def)
qed

interpretation sqlite_recursive: recursive_repository "load_recursive_edges cd" "stored_edges cd" graph_ready for cd
proof
  fix d assume "graph_ready d"
  then show "inj_on edge_key (stored_edges cd d)"
    by (intro sqlite_edges.edge_keys) (simp add: graph_ready_def)
next
  fix d rq visit rs left_out used err rs'
  assume ready: "graph_ready d" and load: "load_recursive_edges cd d rq visit rs = ((left_out, used, err), rs')"
    and err: "err = None \<or> err = Some StopRecursive"
  then have bounds: "1 \<le> rq_expansions rq"
    and run: "visit_rows cd d rq visit (recursive_rows d rq) 0 0 rs = ((left_out, used, err), rs')"
    by (auto simp: load_recursive_edges_def split: if_splits)
  from visit_rows_result [OF run err] obtain sent rest cs where
    rows: "recursive_rows d rq = sent @ rest" and sent: "list_all2 (sent_state cd d) sent cs"
    and visited: "visit_all visit cs rs = (err, rs')"
    and whole: "err = None \<longrightarrow> \<not> left_out \<longrightarrow> rest = [] \<and>
      (recursive_rows d rq \<noteq> [] \<longrightarrow> 0 + int (length (recursive_rows d rq)) \<le> rq_expansions rq)" by blast
  obtain ws vs where ws: "query_walk d rq = ws @ vs" "sent = map (\<lambda>w. (w, edge_row d w)) ws" "rest = map (\<lambda>w. (w, edge_row d w)) vs"
    using rows unfolding recursive_rows_map [OF ready] by (auto simp: map_eq_append_conv)
  have states: "list_all2 (state_of_walk cd d) ws cs" using sent unfolding ws(2) sent_states_walk .
  have ok: "walk_row_ok d (rq_direction rq) w" if "w \<in> set ws" for w
    by (rule query_walk_ok) (use that ws(1) in simp)
  have "re_edge c \<in> stored_edges cd d" if "c \<in> set cs" for c
  proof -
    from list_all2_right [OF states that] obtain w where w: "w \<in> set ws" "state_of_walk cd d w c" by blast
    with edge_row_filter(2) [OF ready ok [OF w(1)]] show ?thesis
      using graph_ready_joined [OF ready]
      by (auto simp: stored_edges_def state_of_walk_def recursive_state_of_def)
  qed
  moreover have "sorted (map re_depth cs)"
  proof -
    have "map re_depth cs = map wk_depth ws"
      using states by (induction rule: list_all2_induct) (auto dest: state_of_walk_fields)
    moreover have "sorted (map wk_depth (ws @ vs))"
      using walk_rows_sorted unfolding ws(1) [symmetric] query_walk_def by blast
    ultimately show ?thesis by (simp add: sorted_append)
  qed
  moreover have "keys_by_edge cs" by (rule sent_keys_by_edge [OF states ok ready])
  moreover have "whole_walk (stored_edges cd d) rq cs" if "err = None" "\<not> left_out"
  proof -
    from whole that have vs: "vs = []" and len: "recursive_rows d rq \<noteq> [] \<longrightarrow>
        int (length (recursive_rows d rq)) \<le> rq_expansions rq" using ws(3) by simp_all
    have "int (length (query_walk d rq)) \<le> rq_expansions rq"
      using len bounds unfolding recursive_rows_map [OF ready] by (cases "query_walk d rq") simp_all
    with states ws(1) vs ready show ?thesis by (intro sent_whole_walk) simp_all
  qed
  ultimately show "\<exists>cs. visit_all visit cs rs = (err, rs') \<and> re_edge ` set cs \<subseteq> stored_edges cd d
      \<and> sorted (map re_depth cs) \<and> keys_by_edge cs
      \<and> (err = None \<longrightarrow> \<not> left_out \<longrightarrow> whole_walk (stored_edges cd d) rq cs)"
    using visited by blast
qed

end
