(* ===== verification/GraphProperties.thy ===== *)
theory GraphProperties
  imports GraphWalk RelationProperties
begin

section \<open>Properties of the graph\<close>

text \<open>
  The SQLite repository provides both contracts of the trace service (\<open>sqlite_edges\<close> and
  \<open>sqlite_recursive\<close>); the properties hold for every database that the relation repository can
  reach, whichever of the two searches a request takes.
\<close>

subsection \<open>Every trace\<close>

lemma distinct_by_filter:
  "(\<And>i. length (filter (\<lambda>x. f x = i) xs) \<le> 1) \<Longrightarrow> distinct (map f xs)"
proof (induction xs)
  case (Cons x xs)
  have "length (filter (\<lambda>y. f y = i) xs) \<le> 1" for i
    using Cons.prems [of i] by (auto split: if_splits)
  moreover have "f x \<notin> f ` set xs"
    using Cons.prems [of "f x"] by (auto simp: filter_empty_conv)
  ultimately show ?case using Cons.IH by simp
qed simp

lemma store_inv_graph_ready:
  assumes "store_inv cd d"
  shows "graph_ready d"
proof -
  have current: "\<exists>c. find_current d (ee_relation e) = Some c \<and> row_ok d c \<and> cr_relation c = ee_relation e"
    if "e \<in> set (effective_t d)" for e
  proof -
    have "ee_relation e \<in> set (map cr_relation (current_t d))"
      using assms that by (simp add: store_inv_def)
    then obtain c where c: "c \<in> set (current_t d)" "cr_relation c = ee_relation e" by auto
    have found: "find_current d (ee_relation e) = Some c"
      using store_inv_find_current [OF assms c(1)] c(2) by simp
    with store_inv_row [OF assms found] c(2) show ?thesis by blast
  qed
  have "length (filter (\<lambda>e. ee_relation e = i) (effective_t d)) \<le> 1" for i
  proof (cases "\<exists>e\<in>set (effective_t d). ee_relation e = i")
    case True
    then obtain c where "row_ok d c" "cr_relation c = i" using current by blast
    then show ?thesis by (auto simp: row_ok_def edges_of_def split: if_splits)
  next
    case False
    then have "filter (\<lambda>e. ee_relation e = i) (effective_t d) = []" by (simp add: filter_empty_conv)
    then show ?thesis by simp
  qed
  then have "edges_keyed d" unfolding edges_keyed_def by (rule distinct_by_filter)
  with current show ?thesis by (auto simp: graph_ready_def)
qed


definition with_limits :: "trace_request \<Rightarrow> trace_request" where
  "with_limits r = (if tr_limits r = no_trace_limits then r\<lparr>tr_limits := default_trace_limits\<rparr> else r)"

lemma with_limits_fields [simp]:
  "tr_start (with_limits r) = tr_start r" "tr_target (with_limits r) = tr_target r"
  "tr_direction (with_limits r) = tr_direction r" "tr_context (with_limits r) = tr_context r"
  by (simp_all add: with_limits_def)

lemma validate_trace_request_Inr:
  "validate_trace_request r = Inr u \<Longrightarrow> 1 \<le> tl_depth (tr_limits r) \<and> 1 \<le> tl_nodes (tr_limits r)
     \<and> 1 \<le> tl_paths (tr_limits r)"
  by (auto simp: validate_trace_request_def fail_if_def split: if_splits)

lemma level_start:
  assumes "1 \<le> tl_nodes (tr_limits r)" "1 \<le> tl_paths (tr_limits r)"
  shows "level sv pc r E 0 (start_search (tr_start r) n) [root_traversal (tr_start r)]"
proof -
  let ?s = "start_search (tr_start r) n" and ?t = "root_traversal (tr_start r)"
  have "trail pc r E p \<and> pa_steps p = [] \<longleftrightarrow> p = root_path (tr_start r)" for p
    using stage_0 [of pc r E] by (auto simp: stage_def expandable_def trail_root)
  then have "{p. trail pc r E p \<and> pa_steps p = []} = {root_path (tr_start r)}" by blast
  then have "complete_to pc r E 0 ?s"
    by (auto simp: complete_to_def answer_def start_search_def)
  moreover have "entered pc r E ?s ?t \<and> length (pa_steps (t_path ?t)) = 0"
    by (simp add: entered_def frontier_state_def root_traversal_def trail_root expandable_def start_search_def)
  moreover have "t_path ` set [?t] = stage pc r E 0" unfolding stage_0 by (simp add: root_traversal_def)
  moreover have "found ?s = []" by (simp add: start_search_def)
  ultimately show ?thesis using search_ok_start [OF assms] by (simp add: level_def)
qed

lemma sqlite_trace_result:
  assumes "graph_ready d" "sv_repository sv = sqlite_graph_repository cd d" "trace sv r = Inr res"
  shows "\<exists>pc. prepare_context (tr_context r) default_context_limits = Inr pc
    \<and> trace_sound sv pc (with_limits r) (stored_edges cd d) res
    \<and> (\<not> tr_truncated res \<longrightarrow> trace_complete pc (with_limits r) (stored_edges cd d) res)"
proof -
  let ?r = "with_limits r"
  have keyed: "edges_keyed d" using assms(1) by (simp add: graph_ready_def)
  note repo = assms(2) [unfolded sqlite_graph_repository_def]
  from assms(3) have valid: "validate_trace_request ?r = Inr ()" and run: "(case prepare_context (tr_context ?r) default_context_limits of
        Inl _ \<Rightarrow> Inl ErrInvalidTrace
      | Inr pc \<Rightarrow>
          sbind (fail_if (\<not> sv_live sv 0) ContextCancelled) (\<lambda>_.
          case (if trace_context_is_empty (tr_context ?r) then gr_recursive (sv_repository sv) else None) of
            Some load \<Rightarrow> trace_recursive sv ?r pc load 1
          | None \<Rightarrow>
              trace_levels sv ?r pc 0 [root_traversal (tr_start ?r)] (start_search (tr_start ?r) 1) 0)) = Inr res"
    unfolding trace_def with_limits_def [symmetric] Let_def sbind_eq_Inr by auto
  note bounds = validate_trace_request_Inr [OF valid]
  from run obtain pc where pc: "prepare_context (tr_context r) default_context_limits = Inr pc"
    by (auto split: sum.splits)
  have "trace_sound sv pc ?r (stored_edges cd d) res
      \<and> (\<not> tr_truncated res \<longrightarrow> trace_complete pc ?r (stored_edges cd d) res)"
  proof (cases "trace_context_is_empty (tr_context r)")
    case True
    with run pc repo have "trace_recursive sv ?r pc (load_recursive_edges cd d) 1 = Inr res"
      by (simp add: sbind_eq_Inr)
    from sqlite_recursive.trace_recursive_result [OF assms(1) this] bounds show ?thesis by simp
  next
    case False
    with run pc have levels: "trace_levels sv ?r pc 0 [root_traversal (tr_start ?r)] (start_search (tr_start ?r) 1) 0 = Inr res"
      by (simp add: sbind_eq_Inr)
    have "gr_load (sv_repository sv) = load_edges cd d" using repo by simp
    from sqlite_edges.trace_levels_result [OF keyed this level_start _ _ levels] bounds show ?thesis by simp
  qed
  with pc show ?thesis by blast
qed

text \<open>
  C21. What a trace returns are paths of the graph: each starts at the start node, visits no
  node twice, stays within the depth limit and ends at the target when there is one; its
  \<open>i\<close>-th step is a stored effective edge from its \<open>i\<close>-th to its next node in the direction of
  the trace, with the evaluation that edge has under the context, which is not FALSE.
\<close>

theorem traced_paths_sound:
  assumes "codec_stable cd" "db_reachable cd d" "sv_repository sv = sqlite_graph_repository cd d"
    and "trace sv r = Inr res" "p \<in> set (tr_paths res)"
  shows "\<exists>pc. prepare_context (tr_context r) default_context_limits = Inr pc
    \<and> hd (pa_nodes p) = tr_start r \<and> distinct (pa_nodes p)
    \<and> length (pa_nodes p) = Suc (length (pa_steps p)) \<and> pa_steps p \<noteq> []
    \<and> int (length (pa_steps p)) \<le> tl_depth (tr_limits (with_limits r))
    \<and> (tr_target r = 0 \<or> last (pa_nodes p) = tr_target r)
    \<and> (\<forall>i < length (pa_steps p).
         st_edge (pa_steps p ! i) \<in> stored_edges cd d
         \<and> recursive_current_node (st_edge (pa_steps p ! i)) (tr_direction r) = pa_nodes p ! i
         \<and> recursive_next_node (st_edge (pa_steps p ! i)) (tr_direction r) = pa_nodes p ! Suc i
         \<and> evaluate_edge (st_edge (pa_steps p ! i)) pc = Inr (st_evaluation (pa_steps p ! i))
         \<and> truth_of (st_evaluation (pa_steps p ! i)) \<noteq> TruthFalse)"
proof -
  have "graph_ready d" by (rule store_inv_graph_ready [OF reachable_invariant [OF assms(1,2)]])
  from sqlite_trace_result [OF this assms(3,4)] obtain pc where
    pc: "prepare_context (tr_context r) default_context_limits = Inr pc"
    and sound: "trace_sound sv pc (with_limits r) (stored_edges cd d) res" by blast
  from sound assms(5) have p: "answer pc (with_limits r) (stored_edges cd d) p"
    "int (length (pa_steps p)) \<le> tl_depth (tr_limits (with_limits r))" by (auto simp: trace_sound_def)
  from p(1) have t: "trail pc (with_limits r) (stored_edges cd d) p" by (simp add: answer_def)
  show ?thesis
    using pc p trail_shape [OF t] trail_links [OF t] by (auto simp: answer_def target_reached_def)
qed

text \<open>
  C35. The limits of a request and of the service hold for every result, truncated or not:
  the numbers of paths, of visited nodes, of steps over all paths and of estimated bytes; the
  visited nodes cover those of the paths, and shorter paths come first.
\<close>

theorem trace_limits_kept:
  assumes "codec_stable cd" "db_reachable cd d" "sv_repository sv = sqlite_graph_repository cd d"
    and "trace sv r = Inr res"
  shows "int (length (tr_paths res)) \<le> tl_paths (tr_limits (with_limits r))
    \<and> tr_visited res \<le> tl_nodes (tr_limits (with_limits r))
    \<and> int (card (\<Union>p\<in>set (tr_paths res). set (pa_nodes p))) \<le> tr_visited res
    \<and> sum_list (map (\<lambda>p. int (length (pa_steps p))) (tr_paths res)) \<le> 20000
    \<and> sum_list (map (path_bytes sv) (tr_paths res)) \<le> 8388608
    \<and> sorted (map (\<lambda>p. length (pa_steps p)) (tr_paths res))"
proof -
  have "graph_ready d" by (rule store_inv_graph_ready [OF reachable_invariant [OF assms(1,2)]])
  from sqlite_trace_result [OF this assms(3,4)] obtain pc where
    sound: "trace_sound sv pc (with_limits r) (stored_edges cd d) res" by blast
  have "int (sum_list (map f xs)) = sum_list (map (\<lambda>x. int (f x)) xs)" for f and xs :: "path list"
    by (induction xs) simp_all
  with sound show ?thesis
    by (simp add: trace_sound_def maximum_result_steps_def maximum_result_bytes_def)
qed

text \<open>
  C2. A result that is not marked truncated is the whole answer: it has every simple path
  from the start along effective edges that are not FALSE, which ends at the target without
  passing it, and has it once; the visited nodes are those reachable this way, and a cycle is
  reported exactly when some such edge leads back into the path it continues.
\<close>

theorem untruncated_trace_complete:
  assumes "codec_stable cd" "db_reachable cd d" "sv_repository sv = sqlite_graph_repository cd d"
    and "trace sv r = Inr res" "\<not> tr_truncated res"
  shows "\<exists>pc. prepare_context (tr_context r) default_context_limits = Inr pc
    \<and> distinct (tr_paths res)
    \<and> set (tr_paths res) = {p. answer pc (with_limits r) (stored_edges cd d) p}
    \<and> tr_visited res = int (card (\<Union>p\<in>{p. trail pc (with_limits r) (stored_edges cd d) p}. set (pa_nodes p)))
    \<and> (tr_cycle res \<longleftrightarrow> cycle_exists pc (with_limits r) (stored_edges cd d))"
proof -
  have "graph_ready d" by (rule store_inv_graph_ready [OF reachable_invariant [OF assms(1,2)]])
  from sqlite_trace_result [OF this assms(3,4)] assms(5) show ?thesis
    unfolding trace_complete_def by blast
qed

text \<open>
  C22. The two searches agree: on one database, a request answered level by level and answered
  through the recursive query gives the same paths, the same number of visited nodes and the
  same cycle report, when neither result is truncated.
\<close>

theorem searches_agree:
  assumes "codec_stable cd" "db_reachable cd d" "sv_repository sv = sqlite_graph_repository cd d"
    and "validate_trace_request r = Inr ()"
    and "trace_levels sv r pc 0 [root_traversal (tr_start r)] (start_search (tr_start r) m) 0 = Inr a"
    and "trace_recursive sv r pc (load_recursive_edges cd d) n = Inr b"
    and "\<not> tr_truncated a" "\<not> tr_truncated b"
  shows "mset (tr_paths a) = mset (tr_paths b) \<and> tr_visited a = tr_visited b \<and> tr_cycle a = tr_cycle b"
proof -
  have ready: "graph_ready d" by (rule store_inv_graph_ready [OF reachable_invariant [OF assms(1,2)]])
  then have keyed: "edges_keyed d" by (simp add: graph_ready_def)
  note bounds = validate_trace_request_Inr [OF assms(4)]
  have "gr_load (sv_repository sv) = load_edges cd d" using assms(3) by (simp add: sqlite_graph_repository_def)
  from sqlite_edges.trace_levels_result [OF keyed this level_start _ _ assms(5)] bounds assms(7)
  have "trace_complete pc r (stored_edges cd d) a" by simp
  moreover from sqlite_recursive.trace_recursive_result [OF ready assms(6)] bounds assms(8)
  have "trace_complete pc r (stored_edges cd d) b" by simp
  ultimately show ?thesis
    using set_eq_iff_mset_eq_distinct [of "tr_paths a" "tr_paths b"] by (simp add: trace_complete_def)
qed


subsection \<open>Traces and the lifecycle of relations\<close>

lemma stored_edge_approved:
  assumes "store_inv cd d" "e \<in> stored_edges cd d"
  shows "\<exists>c. find_current d (e_relation e) = Some c \<and> cr_status c = StatusApproved
    \<and> cr_active c = Some (e_version e) \<and> e_status e = StatusApproved \<and> e_pending e = (cr_proposed c \<noteq> None)
    \<and> (e_version e, endpoint_source, e_source e) \<in> set (endpoints_t d)
    \<and> (e_version e, endpoint_target, e_target e) \<in> set (endpoints_t d)"
proof -
  from assms(2) obtain row where row: "row \<in> set (effective_t d)" "decode_graph_edge cd d row = Inr e"
    by (auto simp: stored_edges_def joined_rows_def)
  note fields = decode_graph_edge_fields [OF row(2)]
  have "ee_relation row \<in> set (map cr_relation (current_t d))"
    using assms(1) row(1) by (simp add: store_inv_def)
  then obtain c where c: "c \<in> set (current_t d)" "cr_relation c = ee_relation row" by auto
  have found: "find_current d (ee_relation row) = Some c"
    using store_inv_find_current [OF assms(1) c(1)] c(2) by simp
  have ok: "row_ok d c" by (rule store_inv_row [OF assms(1) found])
  have "row \<in> set (edges_of d (cr_relation c))" using row(1) c(2) by (simp add: edges_of_def)
  with ok obtain i where "cr_status c = StatusApproved" "cr_active c = Some i" "edge_shows d i row"
    by (auto simp: row_ok_def split: if_splits)
  moreover have "e_status e = cr_status c \<and> e_pending e = (cr_proposed c \<noteq> None)"
    using row(2) found by (auto simp: decode_graph_edge_def stored_status_def split: sum.splits)
  ultimately show ?thesis using found fields by (auto simp: edge_shows_def)
qed

text \<open>
  C6. Traces show what reviewers approved: every step of every path belongs to a relation
  that is approved, shows its active version with the endpoints stored for it, and says
  truthfully whether a proposal for the relation is pending.
\<close>

theorem traced_steps_are_approved:
  assumes "codec_stable cd" "db_reachable cd d" "sv_repository sv = sqlite_graph_repository cd d"
    and "trace sv r = Inr res" "p \<in> set (tr_paths res)" "st \<in> set (pa_steps p)"
  shows "\<exists>c. find_current d (e_relation (st_edge st)) = Some c \<and> cr_status c = StatusApproved
    \<and> cr_active c = Some (e_version (st_edge st)) \<and> e_status (st_edge st) = StatusApproved
    \<and> e_pending (st_edge st) = (cr_proposed c \<noteq> None)
    \<and> (e_version (st_edge st), endpoint_source, e_source (st_edge st)) \<in> set (endpoints_t d)
    \<and> (e_version (st_edge st), endpoint_target, e_target (st_edge st)) \<in> set (endpoints_t d)"
proof -
  have inv: "store_inv cd d" by (rule reachable_invariant [OF assms(1,2)])
  from sqlite_trace_result [OF store_inv_graph_ready [OF inv] assms(3,4)] obtain pc where
    "trace_sound sv pc (with_limits r) (stored_edges cd d) res" by blast
  with assms(5) have "trail pc (with_limits r) (stored_edges cd d) p" by (auto simp: trace_sound_def answer_def)
  from trail_step_evaluated [OF this assms(6)] have "st_edge st \<in> stored_edges cd d" by blast
  then show ?thesis by (rule stored_edge_approved [OF inv])
qed

subsection \<open>Evaluating an edge\<close>

text \<open>
  C36. An edge in three values: when its guard, selector and transform evaluate, it is FALSE
  exactly when one of them is, otherwise it is UNKNOWN exactly when one of them is UNKNOWN for
  a missing reference, and TRUE if not; its missing references are those of its unknown parts,
  sorted and without repetition. It has no result exactly when one of the parts has none.
\<close>

theorem edge_evaluation_decided:
  "(case edge_evaluations e pc of
      Inl err \<Rightarrow> evaluate_edge e pc = Inl err
    | Inr parts \<Rightarrow>
        (\<exists>ev. evaluate_edge e pc = Inr ev
           \<and> (truth_of ev = TruthFalse \<longleftrightarrow> (\<exists>x\<in>set parts. truth_of x = TruthFalse))
           \<and> (truth_of ev = TruthUnknown \<longleftrightarrow> missing ev \<noteq> [])
           \<and> set (missing ev) = (if truth_of ev = TruthFalse then {}
               else (\<Union>x\<in>{x \<in> set parts. truth_of x = TruthUnknown}. set (missing x)))
           \<and> sorted_wrt (<) (missing ev)))
   \<and> (\<forall>cache. (\<forall>ev. cache (edge_key e) = Some ev \<longrightarrow> evaluate_edge e pc = Inr ev) \<longrightarrow>
        (case evaluate_cached pc e cache of
           Inl err \<Rightarrow> evaluate_edge e pc = Inl err
         | Inr (ev, cache') \<Rightarrow> evaluate_edge e pc = Inr ev
             \<and> (\<forall>k. k \<noteq> edge_key e \<longrightarrow> cache' k = cache k)
             \<and> (\<forall>ev'. cache' (edge_key e) = Some ev' \<longrightarrow> ev' = ev)))"
proof (intro conjI allI impI)
  show "case edge_evaluations e pc of
      Inl err \<Rightarrow> evaluate_edge e pc = Inl err
    | Inr parts \<Rightarrow>
        (\<exists>ev. evaluate_edge e pc = Inr ev
           \<and> (truth_of ev = TruthFalse \<longleftrightarrow> (\<exists>x\<in>set parts. truth_of x = TruthFalse))
           \<and> (truth_of ev = TruthUnknown \<longleftrightarrow> missing ev \<noteq> [])
           \<and> set (missing ev) = (if truth_of ev = TruthFalse then {}
               else (\<Union>x\<in>{x \<in> set parts. truth_of x = TruthUnknown}. set (missing x)))
           \<and> sorted_wrt (<) (missing ev))"
  proof (cases "edge_evaluations e pc")
    case (Inr parts)
    then obtain ev where ev: "evaluate_edge e pc = Inr ev" by (auto simp: evaluate_edge_def)
    obtain parts' where "edge_evaluations e pc = Inr parts'"
      "truth_of ev = TruthFalse \<longleftrightarrow> (\<exists>x\<in>set parts'. truth_of x = TruthFalse)"
      "set (missing ev) = (if truth_of ev = TruthFalse then {}
         else (\<Union>x\<in>{x\<in>set parts'. truth_of x = TruthUnknown}. set (missing x)))"
      "truth_of ev = TruthUnknown \<longleftrightarrow> missing ev \<noteq> []" "sorted_wrt (<) (missing ev)"
      by (rule evaluate_edge_Inr [OF ev])
    with Inr ev show ?thesis by simp
  qed (simp add: evaluate_edge_def)
next
  fix cache :: "int \<times> int \<rightharpoonup> evaluation"
  assume "\<forall>ev. cache (edge_key e) = Some ev \<longrightarrow> evaluate_edge e pc = Inr ev"
  then show "case evaluate_cached pc e cache of
           Inl err \<Rightarrow> evaluate_edge e pc = Inl err
         | Inr (ev, cache') \<Rightarrow> evaluate_edge e pc = Inr ev
             \<and> (\<forall>k. k \<noteq> edge_key e \<longrightarrow> cache' k = cache k)
             \<and> (\<forall>ev'. cache' (edge_key e) = Some ev' \<longrightarrow> ev' = ev)"
    by (cases "evaluate_edge e pc"; cases "cache (edge_key e)")
      (auto simp: evaluate_cached_def Let_def edge_key_def split: if_splits)
qed


subsection \<open>Sample traces\<close>

definition sample_service :: service where
  "sample_service =
     \<lparr>sv_repository = sqlite_graph_repository sample_codec sample_approved,
      sv_step_size = (\<lambda>_. Some 100), sv_live = (\<lambda>_. True)\<rparr>"

definition sample_trace :: "(int \<times> string) list \<Rightarrow> trace_request" where
  "sample_trace cols =
     \<lparr>tr_start = 1, tr_target = 0, tr_direction = DirectionDownstream,
      tr_context = \<lparr>columns = cols, parameters = []\<rparr>, tr_limits = no_trace_limits\<rparr>"

definition traced_nodes :: "(int \<times> string) list \<Rightarrow> (int list \<times> nat) list option" where
  "traced_nodes cols =
     (case trace sample_service (sample_trace cols) of
        Inl _ \<Rightarrow> None
      | Inr res \<Rightarrow>
          if tr_truncated res then None
          else Some (map (\<lambda>p. (pa_nodes p, length (pa_steps p))) (tr_paths res)))"

text \<open>The recursive query and the search level by level find the path of the approved relation.\<close>

lemma sample_trace_recursive: "traced_nodes [] = Some [([1, 2], 1)]"
  by code_simp

lemma sample_trace_levels: "traced_nodes [(1, ''null'')] = Some [([1, 2], 1)]"
  by code_simp

lemma traced_nodesE:
  assumes "traced_nodes cols = Some nodes"
  obtains res where "trace sample_service (sample_trace cols) = Inr res" "\<not> tr_truncated res"
    "map (\<lambda>p. (pa_nodes p, length (pa_steps p))) (tr_paths res) = nodes"
  using assms by (auto simp: traced_nodes_def split: sum.splits if_splits)

lemma sample_repository: "sv_repository sample_service = sqlite_graph_repository sample_codec sample_approved"
  by (simp add: sample_service_def)

lemma sample_approved_reachable: "db_reachable sample_codec sample_approved"
  using sample_reviewed db_call [OF sample_pending_reachable] by blast

lemma sample_traced:
  obtains res p st where "trace sample_service (sample_trace []) = Inr res" "\<not> tr_truncated res"
    "p \<in> set (tr_paths res)" "pa_nodes p = [1, 2]" "pa_steps p = [st]"
proof (rule traced_nodesE [OF sample_trace_recursive])
  fix res
  assume "trace sample_service (sample_trace []) = Inr res" "\<not> tr_truncated res"
    "map (\<lambda>p. (pa_nodes p, length (pa_steps p))) (tr_paths res) = [([1, 2], 1)]"
  with that show thesis by (auto simp: length_Suc_conv)
qed

lemma traced_paths_sound_witness:
  "\<exists>res p. trace sample_service (sample_trace []) = Inr res \<and> p \<in> set (tr_paths res)
     \<and> hd (pa_nodes p) = 1 \<and> length (pa_nodes p) = Suc (length (pa_steps p))"
proof -
  obtain res p st where run: "trace sample_service (sample_trace []) = Inr res" "p \<in> set (tr_paths res)"
    by (rule sample_traced)
  from traced_paths_sound [OF sample_codec_stable sample_approved_reachable sample_repository run]
  have "hd (pa_nodes p) = 1 \<and> length (pa_nodes p) = Suc (length (pa_steps p))"
    by (auto simp: sample_trace_def)
  with run show ?thesis by blast
qed

lemma trace_limits_kept_witness:
  "\<exists>res. trace sample_service (sample_trace []) = Inr res \<and> length (tr_paths res) \<le> 1000"
proof -
  obtain res p st where run: "trace sample_service (sample_trace []) = Inr res"
    by (rule sample_traced)
  have "int (length (tr_paths res)) \<le> tl_paths (tr_limits (with_limits (sample_trace [])))"
    using trace_limits_kept [OF sample_codec_stable sample_approved_reachable sample_repository run] by blast
  with run show ?thesis
    by (simp add: with_limits_def sample_trace_def default_trace_limits_def)
qed

lemma untruncated_trace_complete_witness:
  "\<exists>res. trace sample_service (sample_trace []) = Inr res \<and> distinct (tr_paths res)"
proof -
  obtain res p st where run: "trace sample_service (sample_trace []) = Inr res" "\<not> tr_truncated res"
    by (rule sample_traced)
  from untruncated_trace_complete [OF sample_codec_stable sample_approved_reachable sample_repository run] run
  show ?thesis by blast
qed

lemma traced_steps_are_approved_witness:
  "\<exists>res p st. trace sample_service (sample_trace []) = Inr res \<and> p \<in> set (tr_paths res)
     \<and> pa_steps p = [st] \<and> e_status (st_edge st) = StatusApproved"
proof -
  obtain res p st where run: "trace sample_service (sample_trace []) = Inr res" "p \<in> set (tr_paths res)"
    and st: "pa_steps p = [st]"
    by (rule sample_traced)
  have "st \<in> set (pa_steps p)" using st by simp
  from traced_steps_are_approved [OF sample_codec_stable sample_approved_reachable sample_repository run this]
    run st
  show ?thesis by blast
qed

definition sample_context :: prepared_context where
  "sample_context = \<lparr>p_columns = Map.empty, p_parameters = Map.empty\<rparr>"

definition is_whole :: "graph_error + trace_result \<Rightarrow> bool" where
  "is_whole r = (case r of Inl _ \<Rightarrow> False | Inr res \<Rightarrow> \<not> tr_truncated res)"

lemma is_wholeE:
  assumes "is_whole r"
  obtains res where "r = Inr res" "\<not> tr_truncated res"
  using assms by (auto simp: is_whole_def split: sum.splits)

lemma searches_agree_witness:
  "\<exists>a b. trace_levels sample_service (with_limits (sample_trace [])) sample_context 0 [root_traversal 1]
       (start_search 1 1) 0 = Inr a
     \<and> trace_recursive sample_service (with_limits (sample_trace [])) sample_context
         (load_recursive_edges sample_codec sample_approved) 1 = Inr b
     \<and> mset (tr_paths a) = mset (tr_paths b)"
proof -
  let ?r = "with_limits (sample_trace [])"
  have start: "tr_start ?r = 1" by (simp add: sample_trace_def)
  have "is_whole (trace_levels sample_service ?r sample_context 0 [root_traversal 1] (start_search 1 1) 0)"
    by code_simp
  then obtain a where a: "trace_levels sample_service ?r sample_context 0 [root_traversal (tr_start ?r)]
      (start_search (tr_start ?r) 1) 0 = Inr a" "\<not> tr_truncated a"
    unfolding start by (rule is_wholeE)
  have "is_whole (trace_recursive sample_service ?r sample_context
      (load_recursive_edges sample_codec sample_approved) 1)"
    by code_simp
  then obtain b where b: "trace_recursive sample_service ?r sample_context
      (load_recursive_edges sample_codec sample_approved) 1 = Inr b" "\<not> tr_truncated b"
    by (rule is_wholeE)
  have "validate_trace_request ?r = Inr ()" by code_simp
  from searches_agree [OF sample_codec_stable sample_approved_reachable sample_repository this
      a(1) b(1) a(2) b(2)] a(1) b(1)
  show ?thesis unfolding start by blast
qed

definition sample_edge :: edge where
  "sample_edge =
     \<lparr>e_relation = 1, e_version = 1, e_source = 1, e_target = 2, e_type = TypeConditionalValueCopy,
      e_status = StatusApproved, e_pending = False, e_guard = None, e_selector = None,
      e_transform = sample_value, e_confidence = Finite 0\<rparr>"

lemma edge_evaluation_decided_witness:
  "\<exists>ev cache. evaluate_edge sample_edge sample_context = Inr ev \<and> sorted_wrt (<) (missing ev)
     \<and> evaluate_cached sample_context sample_edge Map.empty = Inr (ev, cache)"
proof -
  have "case edge_evaluations sample_edge sample_context of Inl _ \<Rightarrow> False | Inr _ \<Rightarrow> True" by code_simp
  then obtain parts where parts: "edge_evaluations sample_edge sample_context = Inr parts"
    by (auto split: sum.splits)
  note decided = edge_evaluation_decided [of sample_edge sample_context]
  from decided parts obtain ev where ev: "evaluate_edge sample_edge sample_context = Inr ev"
    "sorted_wrt (<) (missing ev)" by auto
  from conjunct2 [OF decided, rule_format, of Map.empty] ev(1)
  have "\<exists>cache. evaluate_cached sample_context sample_edge Map.empty = Inr (ev, cache)"
    by (auto split: sum.splits)
  with ev show ?thesis by blast
qed

end
