(* ===== verification/AuditLog.thy ===== *)
theory AuditLog
  imports Relations GoTime
begin

section \<open>The audit log\<close>

text \<open>
  \<^verbatim>\<open>internal/audit/audit.go\<close>, \<^verbatim>\<open>internal/jsoncheck\<close>, which it checks details with, and
  \<^verbatim>\<open>internal/platform/sqlite/audit_repository.go\<close> on the rows of \<^verbatim>\<open>audit_events\<close>. What SQLite
  may refuse an insert for besides the primary key is the argument \<open>accepts\<close>.
\<close>

subsection \<open>Bounded JSON objects\<close>

text \<open>
  \<^verbatim>\<open>jsoncheck.ValidateObject\<close> reads tokens and counts the open delimiters: one object with
  nothing after it, nested at most \<^verbatim>\<open>MaxDepth\<close> deep.
\<close>

definition validate_object :: "int \<Rightarrow> int \<Rightarrow> string \<Rightarrow> bool" where
  "validate_object size_limit depth_limit raw \<longleftrightarrow>
     \<not> (size_limit < 2 \<or> depth_limit < 1 \<or> int (length raw) > size_limit)
     \<and> (case json_parse_depth (nat depth_limit) raw of Some (JObject _) \<Rightarrow> True | _ \<Rightarrow> False)"

subsection \<open>Events\<close>

record audit_event =
  ae_id :: int
  ae_actor :: string
  ae_origin :: origin
  ae_action :: string
  ae_subject_type :: string
  ae_subject :: int
  ae_reason :: string
  ae_request_id :: string
  ae_expected :: "int option"
  ae_details :: string
  ae_occurred_at :: int

record record_event =
  re_actor :: string
  re_origin :: origin
  re_action :: string
  re_subject_type :: string
  re_subject :: int
  re_reason :: string
  re_request_id :: string
  re_expected :: "int option"
  re_details :: string

datatype audit_error = ErrInvalidEvent | AuditIdNotDrawn | AuditStoreFailure

record 'w audit_service =
  as_append :: "audit_event \<Rightarrow> ('w, audit_error, unit) action"
  as_list :: "int \<Rightarrow> 'w \<Rightarrow> audit_error + audit_event list"
  as_ids :: "('w, audit_error, int) action"
  as_now :: "'w \<Rightarrow> int"

definition known_text :: "nat \<Rightarrow> string \<Rightarrow> bool" where
  "known_text n s \<longleftrightarrow> \<not> (trim_space s = [] \<or> length s > n)"

definition validate_record :: "record_event \<Rightarrow> audit_error + unit" where
  "validate_record cmd =
     fail_if (re_subject cmd \<le> 0
       \<or> re_origin cmd \<noteq> OriginAgent \<and> re_origin cmd \<noteq> OriginWeb \<and> re_origin cmd \<noteq> OriginSystem
       \<or> \<not> known_text 200 (re_actor cmd) \<or> \<not> known_text 100 (re_action cmd)
       \<or> \<not> known_text 100 (re_subject_type cmd) \<or> \<not> known_text 2000 (re_reason cmd)
       \<or> \<not> known_text 200 (re_request_id cmd) \<or> \<not> validate_object 20000 16 (re_details cmd))
       ErrInvalidEvent"

definition record_audit_event :: "'w audit_service \<Rightarrow> record_event \<Rightarrow> ('w, audit_error, audit_event) action" where
  "record_audit_event sv cmd =
     act_bind (act_pure (validate_record cmd)) (\<lambda>_.
     act_bind (as_ids sv) (\<lambda>event_id w.
     let event = \<lparr>ae_id = event_id, ae_actor = trim_space (re_actor cmd), ae_origin = re_origin cmd,
           ae_action = trim_space (re_action cmd), ae_subject_type = trim_space (re_subject_type cmd),
           ae_subject = re_subject cmd, ae_reason = trim_space (re_reason cmd),
           ae_request_id = trim_space (re_request_id cmd), ae_expected = re_expected cmd,
           ae_details = re_details cmd, ae_occurred_at = as_now sv w\<rparr> in
     act_bind (as_append sv event) (\<lambda>_. act_pure (Inr event)) w))"

definition list_audit_events :: "'w audit_service \<Rightarrow> int \<Rightarrow> 'w \<Rightarrow> audit_error + audit_event list" where
  "list_audit_events sv n w =
     sbind (fail_if (n \<le> 0 \<or> n > 1000) ErrInvalidEvent) (\<lambda>_. as_list sv n w)"

subsection \<open>Rows\<close>

definition insert_audit_event ::
  "(audit_event \<Rightarrow> bool) \<Rightarrow> audit_event \<Rightarrow> audit_event list \<Rightarrow> audit_event list option" where
  "insert_audit_event accepts event rows =
     (if ae_id event > 0 \<and> ae_id event \<notin> ae_id ` set rows \<and> accepts event
      then Some (rows @ [event]) else None)"

definition append_audit_event ::
  "(audit_event \<Rightarrow> bool) \<Rightarrow> audit_event \<Rightarrow> (audit_event list, audit_error, unit) action" where
  "append_audit_event accepts event rows =
     (case insert_audit_event accepts event rows of
        None \<Rightarrow> (Inl AuditStoreFailure, rows)
      | Some rows' \<Rightarrow> (Inr (), rows'))"

text \<open>\<^verbatim>\<open>ORDER BY occurred_at DESC, id DESC LIMIT ?\<close>, by the text of the time.\<close>

definition list_stored_events :: "int \<Rightarrow> audit_event list \<Rightarrow> audit_error + audit_event list" where
  "list_stored_events n rows =
     Inr (take_limit n (rev (sort_key (\<lambda>e. rfc3339_nano (ae_occurred_at e)) (sort_key ae_id rows))))"

end
