(* ===== verification/Jobs.thy ===== *)
theory Jobs
  imports AuditLog
begin

section \<open>Schema scan jobs\<close>

text \<open>
  \<^verbatim>\<open>internal/jobs/jobs.go\<close> and \<^verbatim>\<open>internal/jobs/schema_scan.go\<close>: the coordinator that queues
  schema scans, claims them one at a time, runs them and records how they ended. The store,
  the catalog, the id generator, the clock and the scan runner are the fields of
  \<open>coordinator\<close>; they act on a world \<open>'w\<close> that other goroutines share, so that a wait is an
  action too: it says whether the timer fired before the context was done. The job payload
  is the JSON text the code writes and reads.
\<close>

subsection \<open>Jobs and commands\<close>

datatype job_status = JobPending | JobRunning | JobSucceeded | JobFailed | JobCancelled

record job =
  jb_id :: int
  jb_type :: int
  jb_status :: job_status
  jb_payload :: string
  jb_result :: "string option"
  jb_error_code :: string
  jb_error_message :: string
  jb_created_at :: int
  jb_started_at :: "int option"
  jb_completed_at :: "int option"
  jb_revision :: int

definition type_schema_scan :: int where "type_schema_scan = 1"

text \<open>\<open>ScanFailed\<close> carries the \<^verbatim>\<open>FailureCode\<close> of a runner's error, empty when it has none.\<close>

datatype job_error =
    ErrInvalidJob | ErrJobNotFound | ErrScanForbidden | ErrNoPendingJob | ErrJobConflict
  | ErrQueueFull | ErrStoreBusy | JobStoreFailure | ScanContextCanceled | ScanDeadlineExceeded
  | DataSourceNotRead | JobIdNotDrawn | ScanFailed string

datatype scan_mode = ScanUnset | ScanFull | ScanIncremental | ScanOther int

record start_schema_scan =
  ss_data_source :: int
  ss_mode :: scan_mode
  ss_tables :: "string list"
  ss_principal :: principal
  ss_reason :: string
  ss_request_id :: string

record completion =
  cp_job :: int
  cp_expected :: int
  cp_status :: job_status
  cp_result :: string
  cp_error_code :: string
  cp_error_message :: string
  cp_completed_at :: int

record published_snapshot =
  ps_scan_run :: int
  ps_nodes :: int
  ps_stale :: int
  ps_published_at :: int

definition maximum_pending_schema_scans :: int where "maximum_pending_schema_scans = 100"

text \<open>Durations are nanoseconds.\<close>

definition schema_scan_retry_minimum :: int where "schema_scan_retry_minimum = 10 * 1000000"
definition schema_scan_retry_maximum :: int where "schema_scan_retry_maximum = 1000 * 1000000"
definition maximum_incremental_tables :: int where "maximum_incremental_tables = 100"

subsection \<open>The scope of a scan\<close>

definition last_dot :: "string \<Rightarrow> int" where
  "last_dot s =
     (if CHR ''.'' \<in> set s then int (length s) - 1 - int (length (takeWhile (\<lambda>c. c \<noteq> CHR ''.'') (rev s)))
      else - 1)"

definition valid_table_name :: "string \<Rightarrow> bool" where
  "valid_table_name table \<longleftrightarrow>
     \<not> (last_dot table \<le> 0 \<or> last_dot table = int (length table) - 1 \<or> length table > 1000
        \<or> list_ex (\<lambda>c. c \<in> {CHR 0x00, CHR 0x0D, CHR 0x0A, CHR 0x09}) table)"

fun normalize_tables :: "string list \<Rightarrow> string list \<Rightarrow> job_error + string list" where
  "normalize_tables [] normalized = Inr normalized"
| "normalize_tables (table # tables) normalized =
     (let table = trim_space table in
      if \<not> valid_table_name table then Inl ErrInvalidJob
      else if table \<in> set normalized then Inl ErrInvalidJob
      else normalize_tables tables (normalized @ [table]))"

definition normalize_schema_scan_scope ::
  "scan_mode \<Rightarrow> string list \<Rightarrow> job_error + scan_mode \<times> string list" where
  "normalize_schema_scan_scope mode tables =
     (let mode = (if mode = ScanUnset then ScanFull else mode) in
      sbind (fail_if (mode \<noteq> ScanFull \<and> mode \<noteq> ScanIncremental) ErrInvalidJob) (\<lambda>_.
      sbind (fail_if (mode = ScanFull \<and> tables \<noteq> []
          \<or> mode = ScanIncremental
            \<and> (tables = [] \<or> int (length tables) > maximum_incremental_tables)) ErrInvalidJob) (\<lambda>_.
      sbind (normalize_tables tables []) (\<lambda>normalized.
      Inr (mode, sort normalized)))))"

definition schema_scan_mode_name :: "scan_mode \<Rightarrow> string" where
  "schema_scan_mode_name mode = (if mode = ScanIncremental then ''INCREMENTAL'' else ''FULL'')"

text \<open>
  \<^verbatim>\<open>strings.ToUpper\<close> as far as a comparison with an ASCII text can tell: the letters, and the
  two runes beyond ASCII whose upper case is an ASCII letter (dotless i and long s).
\<close>

fun ascii_upper :: "string \<Rightarrow> string" where
  "ascii_upper [] = []"
| "ascii_upper (c # s) =
     (if starts_with [CHR 0xC4, CHR 0xB1] (c # s) then CHR ''I'' # ascii_upper (drop 1 s)
      else if starts_with [CHR 0xC5, CHR 0xBF] (c # s) then CHR ''S'' # ascii_upper (drop 1 s)
      else (if 97 \<le> byte c \<and> byte c \<le> 122 then char_of (byte c - 32) else c) # ascii_upper s)"

definition parse_schema_scan_mode :: "string \<Rightarrow> job_error + scan_mode" where
  "parse_schema_scan_mode v =
     (let name = ascii_upper (trim_space v) in
      if name = ''FULL'' then Inr ScanFull
      else if name = ''INCREMENTAL'' then Inr ScanIncremental
      else Inl ErrInvalidJob)"

definition validate_start_schema_scan :: "start_schema_scan \<Rightarrow> job_error + unit" where
  "validate_start_schema_scan cmd =
     sbind (fail_if (pr_role (ss_principal cmd) \<noteq> RoleAdmin) ErrScanForbidden) (\<lambda>_.
     let actor = trim_space (pr_actor (ss_principal cmd)); reason = trim_space (ss_reason cmd);
         request_id = trim_space (ss_request_id cmd) in
     fail_if (ss_data_source cmd \<le> 0
       \<or> ss_mode cmd \<noteq> ScanFull \<and> ss_mode cmd \<noteq> ScanIncremental
       \<or> ss_mode cmd = ScanFull \<and> ss_tables cmd \<noteq> []
       \<or> ss_mode cmd = ScanIncremental \<and> ss_tables cmd = []
       \<or> pr_origin (ss_principal cmd) \<noteq> OriginAgent \<and> pr_origin (ss_principal cmd) \<noteq> OriginWeb
       \<or> actor = [] \<or> length actor > 200 \<or> reason = [] \<or> length reason > 2000
       \<or> request_id = [] \<or> length request_id > 200) ErrInvalidJob)"

subsection \<open>The payload of a job\<close>

text \<open>
  \<^verbatim>\<open>json.Marshal(schemaScanPayload{...})\<close>; an empty list of tables is left out.
\<close>

definition scan_payload :: "int \<Rightarrow> scan_mode \<Rightarrow> string list \<Rightarrow> json" where
  "scan_payload data_source mode tables =
     JObject ([(''dataSourceId'', JString (int_text data_source)),
               (''mode'', JString (schema_scan_mode_name mode))]
       @ (if tables = [] then [] else [(''tables'', JArray (map JString tables))]))"

definition encode_schema_scan_payload :: "int \<Rightarrow> scan_mode \<Rightarrow> string list \<Rightarrow> string" where
  "encode_schema_scan_payload data_source mode tables = json_text (scan_payload data_source mode tables)"

text \<open>
  Decoding into the struct: the decoder compares the folded names of fields, a null leaves a
  string as it is and empties the slice, and any other mismatch or an unknown name is an
  error. A slice is decoded into its old backing array: a null element keeps what that array
  has at its place, and \<open>pf_backing\<close> is what it has (the rest is zero), which a shorter array
  only overwrites in part and an empty one replaces.
\<close>

fun fold_name :: "string \<Rightarrow> string" where
  "fold_name [] = []"
| "fold_name (c # s) =
     (if starts_with [CHR 0xC5, CHR 0xBF] (c # s) then CHR ''S'' # fold_name (drop 1 s)
      else if starts_with [CHR 0xE2, CHR 0x84, CHR 0xAA] (c # s) then CHR ''K'' # fold_name (drop 2 s)
      else (if 97 \<le> byte c \<and> byte c \<le> 122 then char_of (byte c - 32) else c) # fold_name s)"

fun string_elements :: "json list \<Rightarrow> string list \<Rightarrow> string list option" where
  "string_elements [] old = Some []"
| "string_elements (v # vs) old =
     (case v of
        JString s \<Rightarrow> map_option (\<lambda>xs. s # xs) (string_elements vs (tl old))
      | JNull \<Rightarrow>
          map_option (\<lambda>xs. (case old of [] \<Rightarrow> [] | s # _ \<Rightarrow> s) # xs) (string_elements vs (tl old))
      | _ \<Rightarrow> None)"

definition decoded_backing :: "string list \<Rightarrow> string list \<Rightarrow> string list" where
  "decoded_backing xs old = (if xs = [] then [] else xs @ drop (length xs) old)"

record payload_fields =
  pf_data_source :: string
  pf_mode :: string
  pf_tables :: "string list"
  pf_backing :: "string list"

definition set_payload_field :: "string \<Rightarrow> json \<Rightarrow> payload_fields \<Rightarrow> payload_fields option" where
  "set_payload_field name v pf =
     (if fold_name name = ''DATASOURCEID'' then
        (case v of JString s \<Rightarrow> Some (pf\<lparr>pf_data_source := s\<rparr>) | JNull \<Rightarrow> Some pf | _ \<Rightarrow> None)
      else if fold_name name = ''MODE'' then
        (case v of JString s \<Rightarrow> Some (pf\<lparr>pf_mode := s\<rparr>) | JNull \<Rightarrow> Some pf | _ \<Rightarrow> None)
      else if fold_name name = ''TABLES'' then
        (case v of
           JArray vs \<Rightarrow>
             map_option (\<lambda>xs. pf\<lparr>pf_tables := xs, pf_backing := decoded_backing xs (pf_backing pf)\<rparr>)
               (string_elements vs (pf_backing pf))
         | JNull \<Rightarrow> Some (pf\<lparr>pf_tables := [], pf_backing := []\<rparr>)
         | _ \<Rightarrow> None)
      else None)"

fun set_payload_fields :: "(string \<times> json) list \<Rightarrow> payload_fields \<Rightarrow> payload_fields option" where
  "set_payload_fields [] pf = Some pf"
| "set_payload_fields ((name, v) # ms) pf =
     Option.bind (set_payload_field name v pf) (set_payload_fields ms)"

definition unmarshal_payload :: "string \<Rightarrow> payload_fields option" where
  "unmarshal_payload payload =
     (let zero = \<lparr>pf_data_source = [], pf_mode = [], pf_tables = [], pf_backing = []\<rparr> in
      case json_parse payload of
        Some (JObject ms) \<Rightarrow> set_payload_fields ms zero
      | Some JNull \<Rightarrow> Some zero
      | _ \<Rightarrow> None)"

definition decode_schema_scan_payload ::
  "string \<Rightarrow> job_error + int \<times> scan_mode \<times> string list" where
  "decode_schema_scan_payload payload =
     (case unmarshal_payload payload of
        None \<Rightarrow> Inl ErrInvalidJob
      | Some pf \<Rightarrow>
          (case parse_int64 (pf_data_source pf) of
             None \<Rightarrow> Inl ErrInvalidJob
           | Some data_source \<Rightarrow>
               sbind (fail_if (data_source \<le> 0) ErrInvalidJob) (\<lambda>_.
               sbind (if pf_mode pf \<noteq> [] then parse_schema_scan_mode (pf_mode pf)
                      else Inr ScanFull) (\<lambda>mode.
               sbind (normalize_schema_scan_scope mode (pf_tables pf)) (\<lambda>(mode, tables).
               Inr (data_source, mode, tables))))))"

subsection \<open>The coordinator\<close>

text \<open>
  A context: its \<^verbatim>\<open>Err()\<close>, and the wait for a retry timer, which fires or finds the context
  done and then gives that error. \<open>sc_context\<close> is the one \<^verbatim>\<open>Run\<close> gets, \<open>sc_cleanup\<close> the one it makes to record
  a cancelled scan. \<open>sc_idle\<close> is the \<^verbatim>\<open>select\<close> of the loop: woken, or the context is done.
\<close>

record 'w scan_context =
  cx_err :: "'w \<Rightarrow> job_error option"
  cx_wait :: "int \<Rightarrow> 'w \<Rightarrow> job_error option \<times> 'w"

record 'w coordinator =
  sc_create :: "job \<Rightarrow> audit_event \<Rightarrow> int \<Rightarrow> ('w, job_error, unit) action"
  sc_recover :: "int \<Rightarrow> ('w, job_error, int) action"
  sc_claim :: "int \<Rightarrow> ('w, job_error, job) action"
  sc_finish :: "completion \<Rightarrow> ('w, job_error, job) action"
  sc_get :: "int \<Rightarrow> 'w \<Rightarrow> job_error + job"
  sc_source_kind :: "int \<Rightarrow> 'w \<Rightarrow> job_error + int"
  sc_ids :: "('w, job_error, int) action"
  sc_run :: "int \<Rightarrow> ('w, job_error, published_snapshot) action"
  sc_run_incremental :: "(int \<Rightarrow> string list \<Rightarrow> ('w, job_error, published_snapshot) action) option"
  sc_now :: "'w \<Rightarrow> int"
  sc_signal :: "'w \<Rightarrow> 'w"
  sc_context :: "'w scan_context"
  sc_cleanup :: "'w scan_context"
  sc_idle :: "'w \<Rightarrow> bool \<times> 'w"

definition data_source_mysql :: int where "data_source_mysql = 1"

definition pending_job :: "int \<Rightarrow> int \<Rightarrow> string \<Rightarrow> int \<Rightarrow> job" where
  "pending_job job_id job_type payload now =
     \<lparr>jb_id = job_id, jb_type = job_type, jb_status = JobPending, jb_payload = payload,
      jb_result = None, jb_error_code = [], jb_error_message = [], jb_created_at = now,
      jb_started_at = None, jb_completed_at = None, jb_revision = 1\<rparr>"

definition queued_event :: "int \<Rightarrow> start_schema_scan \<Rightarrow> int \<Rightarrow> string \<Rightarrow> int \<Rightarrow> audit_event" where
  "queued_event audit_id cmd job_id payload now =
     \<lparr>ae_id = audit_id, ae_actor = trim_space (pr_actor (ss_principal cmd)),
      ae_origin = pr_origin (ss_principal cmd), ae_action = ''SCHEMA_SCAN_QUEUED'',
      ae_subject_type = ''SCHEMA_SCAN_JOB'', ae_subject = job_id,
      ae_reason = trim_space (ss_reason cmd), ae_request_id = trim_space (ss_request_id cmd),
      ae_expected = None, ae_details = payload, ae_occurred_at = now\<rparr>"

definition start_scan :: "'w coordinator \<Rightarrow> start_schema_scan \<Rightarrow> ('w, job_error, job) action" where
  "start_scan c cmd =
     act_bind (act_pure (normalize_schema_scan_scope (ss_mode cmd) (ss_tables cmd))) (\<lambda>(mode, tables).
     let cmd = cmd\<lparr>ss_mode := mode, ss_tables := tables\<rparr>;
         payload = encode_schema_scan_payload (ss_data_source cmd) mode tables in
     act_bind (act_pure (validate_start_schema_scan cmd)) (\<lambda>_.
     act_bind (\<lambda>w. (sc_source_kind c (ss_data_source cmd) w, w)) (\<lambda>kind.
     act_bind (act_pure (fail_if (kind \<noteq> data_source_mysql) ErrInvalidJob)) (\<lambda>_.
     act_bind (sc_ids c) (\<lambda>job_id.
     act_bind (sc_ids c) (\<lambda>audit_id w.
     let now = sc_now c w; job = pending_job job_id type_schema_scan payload now in
     act_bind (sc_create c job (queued_event audit_id cmd job_id payload now)
         maximum_pending_schema_scans) (\<lambda>_ w.
     (Inr job, sc_signal c w)) w))))))"

definition get_scan :: "'w coordinator \<Rightarrow> int \<Rightarrow> 'w \<Rightarrow> job_error + job" where
  "get_scan c job_id w = sbind (fail_if (job_id \<le> 0) ErrInvalidJob) (\<lambda>_. sc_get c job_id w)"

subsection \<open>Retries\<close>

fun doubled :: "nat \<Rightarrow> int \<Rightarrow> int" where
  "doubled 0 delay = delay"
| "doubled (Suc k) delay =
     (if delay < schema_scan_retry_maximum then doubled k (delay * 2) else delay)"

definition retry_delay :: "nat \<Rightarrow> int" where
  "retry_delay failures =
     (let delay = doubled failures schema_scan_retry_minimum in
      if delay > schema_scan_retry_maximum then schema_scan_retry_maximum else delay)"

text \<open>
  The loops have no bound of their own: they retry while the store is busy and the context
  lives, so their result is optional.
\<close>

partial_function (option) finish_with_retry ::
  "'w coordinator \<Rightarrow> 'w scan_context \<Rightarrow> completion \<Rightarrow> nat \<Rightarrow> 'w \<Rightarrow> ((job_error + unit) \<times> 'w) option" where
  "finish_with_retry c cx cp failures w =
     (case sc_finish c cp w of
        (Inr _, w) \<Rightarrow> Some (Inr (), w)
      | (Inl err, w) \<Rightarrow>
          if err \<noteq> ErrStoreBusy then Some (Inl err, w)
          else
            (case cx_wait cx (retry_delay failures) w of
               (None, w) \<Rightarrow> finish_with_retry c cx cp (Suc failures) w
             | (Some err, w) \<Rightarrow> Some (Inl err, w)))"

definition finish_failure ::
  "'w coordinator \<Rightarrow> 'w scan_context \<Rightarrow> job \<Rightarrow> job_status \<Rightarrow> string \<Rightarrow> 'w
     \<Rightarrow> ((job_error + unit) \<times> 'w) option" where
  "finish_failure c cx job status code w =
     finish_with_retry c cx
       \<lparr>cp_job = jb_id job, cp_expected = jb_revision job, cp_status = status, cp_result = [],
        cp_error_code = code, cp_error_message = ''schema scan did not complete'',
        cp_completed_at = sc_now c w\<rparr> 0 w"

definition failure_code :: "job_error \<Rightarrow> string" where
  "failure_code err = (case err of ScanFailed code \<Rightarrow> code | _ \<Rightarrow> [])"

text \<open>The keys of a Go map are written in order.\<close>

definition scan_result :: "published_snapshot \<Rightarrow> string" where
  "scan_result published =
     json_text (JObject
       [(''nodeCount'', JNumber (int_text (ps_nodes published))),
        (''publishedAt'', JString (rfc3339_nano (ps_published_at published))),
        (''scanRunId'', JString (int_text (ps_scan_run published))),
        (''staleCount'', JNumber (int_text (ps_stale published)))])"

definition run_claimed ::
  "'w coordinator \<Rightarrow> job \<Rightarrow> 'w \<Rightarrow> ((job_error + unit) \<times> 'w) option" where
  "run_claimed c job w =
     (case decode_schema_scan_payload (jb_payload job) of
        Inl _ \<Rightarrow> finish_failure c (sc_context c) job JobFailed ''INVALID_JOB_PAYLOAD'' w
      | Inr (data_source, mode, tables) \<Rightarrow>
          (case (if mode = ScanIncremental
                 then map_option (\<lambda>run. run data_source tables) (sc_run_incremental c)
                 else Some (sc_run c data_source)) of
             None \<Rightarrow> finish_failure c (sc_context c) job JobFailed ''INCREMENTAL_SCAN_UNSUPPORTED'' w
           | Some run \<Rightarrow>
               (case run w of
                  (Inl err, w) \<Rightarrow>
                    if cx_err (sc_context c) w \<noteq> None
                    then finish_failure c (sc_cleanup c) job JobCancelled ''SCAN_CANCELLED'' w
                    else finish_failure c (sc_context c) job JobFailed
                           (if failure_code err \<noteq> [] then failure_code err else ''SCHEMA_SCAN_FAILED'') w
                | (Inr published, w) \<Rightarrow>
                    finish_with_retry c (sc_context c)
                      \<lparr>cp_job = jb_id job, cp_expected = jb_revision job, cp_status = JobSucceeded,
                       cp_result = scan_result published, cp_error_code = [], cp_error_message = [],
                       cp_completed_at = sc_now c w\<rparr> 0 w)))"

definition process_next :: "'w coordinator \<Rightarrow> 'w \<Rightarrow> ((job_error + bool) \<times> 'w) option" where
  "process_next c w =
     (case sc_claim c (sc_now c w) w of
        (Inl err, w) \<Rightarrow> Some (if err = ErrNoPendingJob then Inr False else Inl err, w)
      | (Inr job, w) \<Rightarrow>
          map_option (\<lambda>(r, w). (sbind r (\<lambda>_. Inr True), w)) (run_claimed c job w))"

subsection \<open>The worker\<close>

datatype worker_step = WorkerNext nat | WorkerEnd "job_error option"

text \<open>One round of the loop of \<^verbatim>\<open>Run\<close>, which counts the temporary failures in a row.\<close>

definition worker_round :: "'w coordinator \<Rightarrow> nat \<Rightarrow> 'w \<Rightarrow> (worker_step \<times> 'w) option" where
  "worker_round c failures w =
     map_option (\<lambda>(r, w).
       case r of
         Inl err \<Rightarrow>
           if err = ScanContextCanceled \<and> cx_err (sc_context c) w \<noteq> None then (WorkerEnd None, w)
           else if err = ErrStoreBusy then
             (case cx_wait (sc_context c) (retry_delay failures) w of
                (done_err, w) \<Rightarrow>
                  (if done_err = None then WorkerNext (Suc failures) else WorkerEnd None, w))
           else (WorkerEnd (Some err), w)
       | Inr processed \<Rightarrow>
           if processed then (WorkerNext 0, w)
           else (case sc_idle c w of (woken, w) \<Rightarrow> (if woken then WorkerNext 0 else WorkerEnd None, w)))
     (process_next c w)"

partial_function (option) worker_loop ::
  "'w coordinator \<Rightarrow> nat \<Rightarrow> 'w \<Rightarrow> (job_error option \<times> 'w) option" where
  "worker_loop c failures w =
     (case worker_round c failures w of
        None \<Rightarrow> None
      | Some (step, w) \<Rightarrow>
          (case step of
             WorkerEnd err \<Rightarrow> Some (err, w)
           | WorkerNext failures \<Rightarrow> worker_loop c failures w))"

partial_function (option) recover_running ::
  "'w coordinator \<Rightarrow> nat \<Rightarrow> 'w \<Rightarrow> (job_error option \<times> 'w) option" where
  "recover_running c failures w =
     (case sc_recover c (sc_now c w) w of
        (Inr _, w) \<Rightarrow> Some (None, w)
      | (Inl err, w) \<Rightarrow>
          if err = ScanContextCanceled \<and> cx_err (sc_context c) w \<noteq> None then Some (None, w)
          else if err \<noteq> ErrStoreBusy then Some (Some err, w)
          else
            (case cx_wait (sc_context c) (retry_delay failures) w of
               (None, w) \<Rightarrow> recover_running c (Suc failures) w
             | (Some _, w) \<Rightarrow> Some (None, w)))"

definition run_coordinator :: "'w coordinator \<Rightarrow> 'w \<Rightarrow> (job_error option \<times> 'w) option" where
  "run_coordinator c w =
     (case recover_running c 0 w of
        None \<Rightarrow> None
      | Some (Some err, w) \<Rightarrow> Some (Some err, w)
      | Some (None, w) \<Rightarrow> worker_loop c 0 w)"

subsection \<open>The generic job service\<close>

record 'w job_service =
  js_create :: "job \<Rightarrow> ('w, job_error, unit) action"
  js_get :: "int \<Rightarrow> 'w \<Rightarrow> job_error + job"
  js_ids :: "('w, job_error, int) action"
  js_now :: "'w \<Rightarrow> int"

definition create_job :: "'w job_service \<Rightarrow> int \<Rightarrow> string \<Rightarrow> ('w, job_error, job) action" where
  "create_job sv job_type payload =
     act_bind (act_pure (fail_if (job_type \<noteq> type_schema_scan \<or> \<not> validate_object 20000 16 payload)
       ErrInvalidJob)) (\<lambda>_.
     act_bind (js_ids sv) (\<lambda>job_id w.
     let job = pending_job job_id job_type payload (js_now sv w) in
     act_bind (js_create sv job) (\<lambda>_. act_pure (Inr job)) w))"

definition get_job :: "'w job_service \<Rightarrow> int \<Rightarrow> 'w \<Rightarrow> job_error + job" where
  "get_job sv job_id w = sbind (fail_if (job_id \<le> 0) ErrInvalidJob) (\<lambda>_. js_get sv job_id w)"

end
