(* ===== verification/JobRepository.thy ===== *)
theory JobRepository
  imports Jobs
begin

section \<open>Schema scan jobs in SQLite\<close>

text \<open>
  \<^verbatim>\<open>internal/platform/sqlite/job_repository.go\<close> on the tables \<^verbatim>\<open>jobs\<close>, \<^verbatim>\<open>schema_scan_runs\<close> and
  \<^verbatim>\<open>audit_events\<close>. A row of \<^verbatim>\<open>jobs\<close> is the job that \<^verbatim>\<open>scanJob\<close> reads from it (a NULL error is
  the empty string). The primary key, the checks on id and revision and the trigger on the
  job type are conditions of the insert; what else SQLite may refuse a statement for is the
  argument \<open>job_engine\<close>. Every write goes through the queue of the store, whose answer is a
  \<open>write_turn\<close>.
\<close>

subsection \<open>Tables\<close>

datatype scan_run_status = ScanRunRunning | ScanRunSucceeded | ScanRunFailed

record scan_run =
  sn_id :: int
  sn_data_source :: int
  sn_status :: scan_run_status
  sn_nodes :: int
  sn_stale :: int
  sn_error_code :: "string option"
  sn_error_message :: "string option"
  sn_started_at :: int
  sn_completed_at :: "int option"

record job_db =
  jobs_t :: "job list"
  scan_runs_t :: "scan_run list"
  scan_audit_t :: "audit_event list"

datatype job_statement =
    InsertJob job | InsertScanAudit audit_event | ClaimJob job | FinishJob job
  | FailScanRuns | RequeueJobs | CommitJobs

type_synonym job_engine = "job_statement \<Rightarrow> bool"

definition job_write ::
  "job_engine \<Rightarrow> (job_db \<Rightarrow> job_error + 'a \<times> job_db) \<Rightarrow> (job_db, job_error, 'a) action" where
  "job_write je operation d =
     (case operation d of
        Inl err \<Rightarrow> (Inl err, d)
      | Inr (x, d') \<Rightarrow> if je CommitJobs then (Inr x, d') else (Inl JobStoreFailure, d))"

subsection \<open>Operations\<close>

definition insert_job :: "job_engine \<Rightarrow> job \<Rightarrow> job_db \<Rightarrow> job_error + job_db" where
  "insert_job je job d =
     (if jb_id job > 0 \<and> jb_id job \<notin> jb_id ` set (jobs_t d) \<and> jb_type job = type_schema_scan
        \<and> jb_revision job > 0 \<and> je (InsertJob job)
      then Inr (d\<lparr>jobs_t := jobs_t d @ [job\<lparr>jb_result := None, jb_error_code := [],
             jb_error_message := [], jb_started_at := None, jb_completed_at := None\<rparr>]\<rparr>)
      else Inl JobStoreFailure)"

definition create_stored_job :: "job_engine \<Rightarrow> job \<Rightarrow> (job_db, job_error, unit) action" where
  "create_stored_job je job =
     job_write je (\<lambda>d. sbind (insert_job je job d) (\<lambda>d. Inr ((), d)))"

definition queued_scans :: "job_db \<Rightarrow> job list" where
  "queued_scans d =
     filter (\<lambda>j. jb_type j = type_schema_scan \<and> jb_status j \<in> {JobPending, JobRunning}) (jobs_t d)"

definition create_schema_scan_job ::
  "job_engine \<Rightarrow> job \<Rightarrow> audit_event \<Rightarrow> int \<Rightarrow> (job_db, job_error, unit) action" where
  "create_schema_scan_job je job event maximum_pending =
     job_write je (\<lambda>d.
       sbind (fail_if (maximum_pending \<le> 0 \<or> int (length (queued_scans d)) \<ge> maximum_pending)
         ErrQueueFull) (\<lambda>_.
       sbind (insert_job je job d) (\<lambda>d.
       case insert_audit_event (\<lambda>e. je (InsertScanAudit e)) event (scan_audit_t d) of
         None \<Rightarrow> Inl JobStoreFailure
       | Some events \<Rightarrow> Inr ((), d\<lparr>scan_audit_t := events\<rparr>))))"

text \<open>The subselect: \<^verbatim>\<open>ORDER BY created_at, id LIMIT 1\<close>, by the text of the time.\<close>

definition pending_scans :: "job_db \<Rightarrow> job list" where
  "pending_scans d =
     sort_key (\<lambda>j. rfc3339_nano (jb_created_at j)) (sort_key jb_id
       (filter (\<lambda>j. jb_type j = type_schema_scan \<and> jb_status j = JobPending) (jobs_t d)))"

definition replace_job :: "job \<Rightarrow> job list \<Rightarrow> job list" where
  "replace_job job js = map (\<lambda>j. if jb_id j = jb_id job then job else j) js"

definition claimed_job :: "int \<Rightarrow> job \<Rightarrow> job" where
  "claimed_job started_at j =
     j\<lparr>jb_status := JobRunning, jb_started_at := Some started_at, jb_revision := jb_revision j + 1\<rparr>"

definition claim_next_schema_scan :: "job_engine \<Rightarrow> int \<Rightarrow> (job_db, job_error, job) action" where
  "claim_next_schema_scan je started_at =
     job_write je (\<lambda>d.
       case pending_scans d of
         [] \<Rightarrow> Inl ErrNoPendingJob
       | j # _ \<Rightarrow>
           let job = claimed_job started_at j in
           if je (ClaimJob job) then Inr (job, d\<lparr>jobs_t := replace_job job (jobs_t d)\<rparr>)
           else Inl JobStoreFailure)"

definition recovered_schema_scan_error_code :: string where
  "recovered_schema_scan_error_code = ''PROCESS_INTERRUPTED''"

definition recovered_schema_scan_error_message :: string where
  "recovered_schema_scan_error_message = ''schema scan did not complete''"

definition interrupted_run :: "int \<Rightarrow> scan_run \<Rightarrow> scan_run" where
  "interrupted_run recovered_at run =
     (if sn_status run = ScanRunRunning
      then run\<lparr>sn_status := ScanRunFailed, sn_error_code := Some recovered_schema_scan_error_code,
               sn_error_message := Some recovered_schema_scan_error_message,
               sn_completed_at := Some recovered_at\<rparr>
      else run)"

definition is_running_scan :: "job \<Rightarrow> bool" where
  "is_running_scan j \<longleftrightarrow> jb_type j = type_schema_scan \<and> jb_status j = JobRunning"

definition requeued_job :: "job \<Rightarrow> job" where
  "requeued_job j =
     (if is_running_scan j
      then j\<lparr>jb_status := JobPending, jb_started_at := None, jb_revision := jb_revision j + 1\<rparr>
      else j)"

definition recover_running_schema_scans :: "job_engine \<Rightarrow> int \<Rightarrow> (job_db, job_error, int) action" where
  "recover_running_schema_scans je recovered_at =
     job_write je (\<lambda>d.
       sbind (fail_if (\<not> je FailScanRuns) JobStoreFailure) (\<lambda>_.
       let d = d\<lparr>scan_runs_t := map (interrupted_run recovered_at) (scan_runs_t d)\<rparr> in
       sbind (fail_if (\<not> je RequeueJobs) JobStoreFailure) (\<lambda>_.
       Inr (int (length (filter is_running_scan (jobs_t d))),
            d\<lparr>jobs_t := map requeued_job (jobs_t d)\<rparr>))))"

definition completes :: "completion \<Rightarrow> job \<Rightarrow> bool" where
  "completes cp j \<longleftrightarrow>
     jb_id j = cp_job cp \<and> jb_status j = JobRunning \<and> jb_revision j = cp_expected cp"

definition finished_job :: "completion \<Rightarrow> job \<Rightarrow> job" where
  "finished_job cp j =
     j\<lparr>jb_status := cp_status cp, jb_result := (if cp_result cp = [] then None else Some (cp_result cp)),
       jb_error_code := cp_error_code cp, jb_error_message := cp_error_message cp,
       jb_completed_at := Some (cp_completed_at cp), jb_revision := jb_revision j + 1\<rparr>"

definition finish_schema_scan :: "job_engine \<Rightarrow> completion \<Rightarrow> (job_db, job_error, job) action" where
  "finish_schema_scan je cp =
     job_write je (\<lambda>d.
       case find (completes cp) (jobs_t d) of
         None \<Rightarrow> Inl ErrJobConflict
       | Some j \<Rightarrow>
           let job = finished_job cp j in
           if je (FinishJob job) then Inr (job, d\<lparr>jobs_t := replace_job job (jobs_t d)\<rparr>)
           else Inl JobStoreFailure)"

definition get_stored_job :: "int \<Rightarrow> job_db \<Rightarrow> job_error + job" where
  "get_stored_job job_id d =
     (case find (\<lambda>j. jb_id j = job_id) (jobs_t d) of None \<Rightarrow> Inl ErrJobNotFound | Some j \<Rightarrow> Inr j)"

subsection \<open>The store as the coordinator meets it\<close>

text \<open>
  What \<^verbatim>\<open>Store.write\<close> may answer: the operation ran; the queue was full (which
  \<^verbatim>\<open>mapJobStoreError\<close> turns into \<^verbatim>\<open>ErrStoreBusy\<close>); the context was done before it ran; or the
  caller stopped waiting for an operation that still runs.
\<close>

datatype write_turn = WriteAccepted | WriteQueueFull | WriteCancelled | WriteAbandoned

text \<open>
  The rest of the process, on a state \<open>'r\<close>: the answers of the write queue, the catalog, the
  id generator, the runner, the clock, the contexts, and the scans that other goroutines
  queue while a runner runs or the worker waits.
\<close>

record 'r scan_environment =
  se_turn :: "'r \<Rightarrow> write_turn \<times> 'r"
  se_source_kind :: "int \<Rightarrow> 'r \<Rightarrow> job_error + int"
  se_ids :: "('r, job_error, int) action"
  se_run :: "int \<Rightarrow> ('r, job_error, published_snapshot) action"
  se_run_incremental :: "(int \<Rightarrow> string list \<Rightarrow> ('r, job_error, published_snapshot) action) option"
  se_now :: "'r \<Rightarrow> int"
  se_signal :: "'r \<Rightarrow> 'r"
  se_err :: "'r \<Rightarrow> job_error option"
  se_wait :: "int \<Rightarrow> 'r \<Rightarrow> job_error option \<times> 'r"
  se_cleanup_err :: "'r \<Rightarrow> job_error option"
  se_cleanup_wait :: "int \<Rightarrow> 'r \<Rightarrow> job_error option \<times> 'r"
  se_idle :: "'r \<Rightarrow> bool \<times> 'r"
  se_meanwhile :: "'r \<Rightarrow> (int \<times> string \<times> int \<times> audit_event) list"

definition queued_write ::
  "'r scan_environment \<Rightarrow> (job_db, job_error, 'a) action \<Rightarrow> (job_db \<times> 'r, job_error, 'a) action" where
  "queued_write env operation w =
     (case (w, se_turn env (snd w)) of
        ((d, _), (turn, r)) \<Rightarrow>
          (case turn of
             WriteAccepted \<Rightarrow> (case operation d of (res, d') \<Rightarrow> (res, (d', r)))
           | WriteQueueFull \<Rightarrow> (Inl ErrStoreBusy, (d, r))
           | WriteCancelled \<Rightarrow> (Inl ScanContextCanceled, (d, r))
           | WriteAbandoned \<Rightarrow> (Inl ScanContextCanceled, (snd (operation d), r))))"

text \<open>The scans that others queue: id, payload and time of the job, and its audit event.\<close>

fun others_queue :: "job_engine \<Rightarrow> (int \<times> string \<times> int \<times> audit_event) list \<Rightarrow> job_db \<Rightarrow> job_db" where
  "others_queue je [] d = d"
| "others_queue je ((job_id, payload, now, event) # calls) d =
     others_queue je calls
       (snd (create_schema_scan_job je (pending_job job_id type_schema_scan payload now) event
          maximum_pending_schema_scans d))"

definition elsewhere ::
  "job_engine \<Rightarrow> 'r scan_environment \<Rightarrow> ('r \<Rightarrow> 'a \<times> 'r) \<Rightarrow> job_db \<times> 'r \<Rightarrow> 'a \<times> (job_db \<times> 'r)" where
  "elsewhere je env f w =
     (case f (snd w) of (x, r) \<Rightarrow> (x, (others_queue je (se_meanwhile env (snd w)) (fst w), r)))"

definition sqlite_coordinator :: "job_engine \<Rightarrow> 'r scan_environment \<Rightarrow> (job_db \<times> 'r) coordinator" where
  "sqlite_coordinator je env =
     \<lparr>sc_create = (\<lambda>job event n. queued_write env (create_schema_scan_job je job event n)),
      sc_recover = (\<lambda>t. queued_write env (recover_running_schema_scans je t)),
      sc_claim = (\<lambda>t. queued_write env (claim_next_schema_scan je t)),
      sc_finish = (\<lambda>cp. queued_write env (finish_schema_scan je cp)),
      sc_get = (\<lambda>job_id w. get_stored_job job_id (fst w)),
      sc_source_kind = (\<lambda>data_source w. se_source_kind env data_source (snd w)),
      sc_ids = elsewhere je env (se_ids env),
      sc_run = (\<lambda>data_source. elsewhere je env (se_run env data_source)),
      sc_run_incremental = map_option (\<lambda>run data_source tables. elsewhere je env (run data_source tables))
        (se_run_incremental env),
      sc_now = (\<lambda>w. se_now env (snd w)),
      sc_signal = (\<lambda>(d, r). (d, se_signal env r)),
      sc_context = \<lparr>cx_err = (\<lambda>w. se_err env (snd w)), cx_wait = (\<lambda>delay. elsewhere je env (se_wait env delay))\<rparr>,
      sc_cleanup = \<lparr>cx_err = (\<lambda>w. se_cleanup_err env (snd w)),
        cx_wait = (\<lambda>delay. elsewhere je env (se_cleanup_wait env delay))\<rparr>,
      sc_idle = elsewhere je env (se_idle env)\<rparr>"

end
