(* ===== verification/JobQueue.thy ===== *)
theory JobQueue
  imports JobRepository
begin

section \<open>The life of a job\<close>

text \<open>
  The table of jobs under the writes of the repository, in any order and from any number of
  goroutines. Its invariant says what a row of each status looks like and that a revision is
  odd while a job is pending, even while it runs and odd again when it has ended. A row only
  ever moves to a later revision, and an ended one never moves.
\<close>

subsection \<open>Calls\<close>

datatype job_call =
    CallQueue job audit_event int | CallClaim int | CallFinish completion | CallRecover int

definition ended :: "job_status \<Rightarrow> bool" where
  "ended status \<longleftrightarrow> status \<in> {JobSucceeded, JobFailed, JobCancelled}"

lemma ended_simps [simp]:
  "ended JobSucceeded" "ended JobFailed" "ended JobCancelled" "\<not> ended JobPending" "\<not> ended JobRunning"
  by (simp_all add: ended_def)

definition without_row :: "(job_db, job_error, 'a) action \<Rightarrow> (job_db, job_error, job option) action" where
  "without_row operation d = (case operation d of (r, d') \<Rightarrow> (sbind r (\<lambda>_. Inr None), d'))"

definition with_row :: "(job_db, job_error, job) action \<Rightarrow> (job_db, job_error, job option) action" where
  "with_row operation d = (case operation d of (r, d') \<Rightarrow> (sbind r (\<lambda>j. Inr (Some j)), d'))"

primrec perform_job :: "job_engine \<Rightarrow> job_call \<Rightarrow> (job_db, job_error, job option) action" where
  "perform_job je (CallQueue job event n) = without_row (create_schema_scan_job je job event n)"
| "perform_job je (CallClaim t) = with_row (claim_next_schema_scan je t)"
| "perform_job je (CallFinish cp) = with_row (finish_schema_scan je cp)"
| "perform_job je (CallRecover t) = without_row (recover_running_schema_scans je t)"

text \<open>The calls a coordinator makes: it queues new jobs under its bound and ends jobs.\<close>

primrec coordinator_call :: "job_call \<Rightarrow> bool" where
  "coordinator_call (CallQueue job event n) \<longleftrightarrow>
     n = maximum_pending_schema_scans
     \<and> (\<exists>job_id payload now. job = pending_job job_id type_schema_scan payload now)"
| "coordinator_call (CallClaim t) \<longleftrightarrow> True"
| "coordinator_call (CallFinish cp) \<longleftrightarrow> ended (cp_status cp)"
| "coordinator_call (CallRecover t) \<longleftrightarrow> True"

inductive jobs_later :: "job_db \<Rightarrow> job_db \<Rightarrow> bool" for d where
  jobs_now: "jobs_later d d"
| jobs_call: "jobs_later d d' \<Longrightarrow> coordinator_call call \<Longrightarrow> perform_job je call d' = (r, d'') \<Longrightarrow> jobs_later d d''"

definition jobs_reachable :: "job_db \<Rightarrow> bool" where
  "jobs_reachable d \<longleftrightarrow> (\<exists>d0. jobs_t d0 = [] \<and> jobs_later d0 d)"

subsection \<open>What a call does to the rows\<close>

lemma job_write_cases:
  assumes "job_write je f d = (r, d')"
  obtains x where "f d = Inr (x, d')" "r = Inr x" "je CommitJobs"
  | err where "r = Inl err" "d' = d"
  using assms by (auto simp: job_write_def split: sum.splits if_splits)

inductive row_step :: "job list \<Rightarrow> job list \<Rightarrow> bool" where
  rows_same: "row_step js js"
| row_queued: "j = pending_job job_id type_schema_scan payload now \<Longrightarrow> 0 < job_id
     \<Longrightarrow> job_id \<notin> jb_id ` set js
     \<Longrightarrow> int (length (filter (\<lambda>j. jb_type j = type_schema_scan \<and> jb_status j \<in> {JobPending, JobRunning}) js)) < 100
     \<Longrightarrow> row_step js (js @ [j])"
| row_claimed: "j \<in> set js \<Longrightarrow> jb_type j = type_schema_scan \<Longrightarrow> jb_status j = JobPending
     \<Longrightarrow> row_step js (replace_job (claimed_job t j) js)"
| row_finished: "j \<in> set js \<Longrightarrow> completes cp j \<Longrightarrow> ended (cp_status cp)
     \<Longrightarrow> row_step js (replace_job (finished_job cp j) js)"
| rows_requeued: "row_step js (map requeued_job js)"

lemma set_pending_scans:
  "set (pending_scans d) = {j \<in> set (jobs_t d). jb_type j = type_schema_scan \<and> jb_status j = JobPending}"
  by (auto simp: pending_scans_def)

lemma claim_result:
  assumes "claim_next_schema_scan je t d = (Inr j, d')"
  obtains k ks where "pending_scans d = k # ks" "j = claimed_job t k"
    "d' = d\<lparr>jobs_t := replace_job j (jobs_t d)\<rparr>"
  using assms unfolding claim_next_schema_scan_def
  by (elim job_write_cases) (auto simp: Let_def split: list.splits if_splits)

lemma finish_result:
  assumes "finish_schema_scan je cp d = (Inr j, d')"
  obtains k where "find (completes cp) (jobs_t d) = Some k" "j = finished_job cp k"
    "d' = d\<lparr>jobs_t := replace_job j (jobs_t d)\<rparr>"
  using assms unfolding finish_schema_scan_def
  by (elim job_write_cases) (auto simp: Let_def split: option.splits if_splits)

lemma create_result:
  assumes "create_schema_scan_job je job event n d = (Inr u, d')"
  shows "jobs_t d' = jobs_t d @ [job\<lparr>jb_result := None, jb_error_code := [], jb_error_message := [],
       jb_started_at := None, jb_completed_at := None\<rparr>]
     \<and> 0 < jb_id job \<and> jb_id job \<notin> jb_id ` set (jobs_t d) \<and> int (length (queued_scans d)) < n
     \<and> scan_audit_t d' = scan_audit_t d @ [event]"
proof -
  from assms obtain d1 events where "int (length (queued_scans d)) < n" "insert_job je job d = Inr d1"
    "insert_audit_event (\<lambda>e. je (InsertScanAudit e)) event (scan_audit_t d1) = Some events"
    "d' = d1\<lparr>scan_audit_t := events\<rparr>"
    unfolding create_schema_scan_job_def
    by (elim job_write_cases) (auto simp: result_simps split: option.splits)
  then show ?thesis by (auto simp: insert_job_def insert_audit_event_def split: if_splits)
qed

lemma recover_result:
  assumes "recover_running_schema_scans je t d = (Inr n, d')"
  shows "jobs_t d' = map requeued_job (jobs_t d)" "n = int (length (filter is_running_scan (jobs_t d)))"
    "scan_runs_t d' = map (interrupted_run t) (scan_runs_t d)"
  using assms unfolding recover_running_schema_scans_def
  by - (erule job_write_cases, auto simp: result_simps Let_def)+

lemma operation_error:
  "claim_next_schema_scan je t d = (Inl err, d') \<Longrightarrow> d' = d"
  "finish_schema_scan je cp d = (Inl err, d') \<Longrightarrow> d' = d"
  "create_schema_scan_job je job event n d = (Inl err, d') \<Longrightarrow> d' = d"
  "recover_running_schema_scans je t d = (Inl err, d') \<Longrightarrow> d' = d"
  unfolding claim_next_schema_scan_def finish_schema_scan_def create_schema_scan_job_def
    recover_running_schema_scans_def
  by (elim job_write_cases; simp)+

lemma perform_job_rows:
  assumes "perform_job je call d = (r, d')" "coordinator_call call"
  shows "row_step (jobs_t d) (jobs_t d')"
proof (cases call)
  case (CallQueue job event n)
  then obtain job_id payload now where job: "job = pending_job job_id type_schema_scan payload now"
    and n: "n = 100" using assms(2) by (auto simp: maximum_pending_schema_scans_def)
  obtain s where run: "create_schema_scan_job je job event n d = (s, d')"
    using assms(1) CallQueue by (auto simp: without_row_def split: prod.splits)
  show ?thesis
  proof (cases s)
    case (Inl err)
    with run have "d' = d" by (simp add: operation_error(3))
    then show ?thesis by (simp add: rows_same)
  next
    case (Inr u)
    note created = create_result [OF run [unfolded Inr]]
    have "jobs_t d' = jobs_t d @ [job]" using created job by (simp add: pending_job_def)
    moreover have "row_step (jobs_t d) (jobs_t d @ [job])"
      using created n job by (intro row_queued [OF job]) (auto simp: pending_job_def queued_scans_def)
    ultimately show ?thesis by simp
  qed
next
  case (CallClaim t)
  obtain s where run: "claim_next_schema_scan je t d = (s, d')"
    using assms(1) CallClaim by (auto simp: with_row_def split: prod.splits)
  show ?thesis
  proof (cases s)
    case (Inl err)
    with run have "d' = d" by (simp add: operation_error(1))
    then show ?thesis by (simp add: rows_same)
  next
    case (Inr j)
    with run obtain k ks where "pending_scans d = k # ks" "j = claimed_job t k"
      "d' = d\<lparr>jobs_t := replace_job j (jobs_t d)\<rparr>" using claim_result by blast
    then show ?thesis using set_pending_scans [of d] row_claimed [of k "jobs_t d" t] by auto
  qed
next
  case (CallFinish cp)
  obtain s where run: "finish_schema_scan je cp d = (s, d')"
    using assms(1) CallFinish by (auto simp: with_row_def split: prod.splits)
  show ?thesis
  proof (cases s)
    case (Inl err)
    with run have "d' = d" by (simp add: operation_error(2))
    then show ?thesis by (simp add: rows_same)
  next
    case (Inr j)
    with run obtain k where "find (completes cp) (jobs_t d) = Some k" "j = finished_job cp k"
      "d' = d\<lparr>jobs_t := replace_job j (jobs_t d)\<rparr>" using finish_result by blast
    then show ?thesis
      using assms(2) CallFinish row_finished [of k "jobs_t d" cp] by (auto simp: find_Some_iff)
  qed
next
  case (CallRecover t)
  obtain s where run: "recover_running_schema_scans je t d = (s, d')"
    using assms(1) CallRecover by (auto simp: without_row_def split: prod.splits)
  show ?thesis
  proof (cases s)
    case (Inl err)
    with run have "d' = d" by (simp add: operation_error(4))
    then show ?thesis by (simp add: rows_same)
  next
    case (Inr n)
    with run have "jobs_t d' = map requeued_job (jobs_t d)" by (simp add: recover_result(1))
    then show ?thesis by (simp add: rows_requeued)
  qed
qed

subsection \<open>The invariant\<close>

definition row_shape :: "job \<Rightarrow> bool" where
  "row_shape j \<longleftrightarrow>
     0 < jb_id j \<and> jb_type j = type_schema_scan \<and> 0 < jb_revision j
     \<and> (jb_started_at j = None \<longleftrightarrow> jb_status j = JobPending)
     \<and> (jb_completed_at j = None \<longleftrightarrow> \<not> ended (jb_status j))
     \<and> (\<not> ended (jb_status j) \<longrightarrow> jb_result j = None \<and> jb_error_code j = [] \<and> jb_error_message j = [])
     \<and> (even (jb_revision j) \<longleftrightarrow> jb_status j = JobRunning)"

definition jobs_inv :: "job list \<Rightarrow> bool" where
  "jobs_inv js \<longleftrightarrow>
     distinct (map jb_id js) \<and> (\<forall>j\<in>set js. row_shape j)
     \<and> length (filter (\<lambda>j. \<not> ended (jb_status j)) js) \<le> 100"

lemma replace_job_ids: "jb_id job = jb_id j \<Longrightarrow> map jb_id (replace_job job js) = map jb_id js"
  by (simp add: replace_job_def)

lemma set_replace_job:
  "distinct (map jb_id js) \<Longrightarrow> j \<in> set js \<Longrightarrow> jb_id job = jb_id j
    \<Longrightarrow> set (replace_job job js) = insert job (set js - {j})"
  by (auto simp: replace_job_def distinct_map inj_on_def)

lemma count_replace_job:
  assumes "P job \<Longrightarrow> \<forall>j\<in>set js. jb_id j = jb_id job \<longrightarrow> P j"
  shows "length (filter P (replace_job job js)) \<le> length (filter P js)"
  using assms by (induction js) (auto simp: replace_job_def)

lemma shape_claimed: "row_shape j \<Longrightarrow> jb_status j = JobPending \<Longrightarrow> row_shape (claimed_job t j)"
  by (simp add: row_shape_def claimed_job_def)

lemma shape_finished:
  "row_shape j \<Longrightarrow> completes cp j \<Longrightarrow> ended (cp_status cp) \<Longrightarrow> row_shape (finished_job cp j)"
  by (auto simp: row_shape_def finished_job_def completes_def ended_def)

lemma requeued_id [simp]: "jb_id (requeued_job j) = jb_id j"
  by (simp add: requeued_job_def)

lemma shape_requeued: "row_shape j \<Longrightarrow> row_shape (requeued_job j)"
  by (auto simp: row_shape_def requeued_job_def is_running_scan_def)

lemma unique_by_id: "distinct (map jb_id js) \<Longrightarrow> j \<in> set js \<Longrightarrow> k \<in> set js \<Longrightarrow> jb_id j = jb_id k \<Longrightarrow> j = k"
  by (auto simp: distinct_map inj_on_def)

lemma row_step_inv:
  assumes "row_step js js'" "jobs_inv js"
  shows "jobs_inv js'"
  using assms
proof cases
  case (row_queued j job_id payload now)
  have shape: "\<forall>k\<in>set js. row_shape k" using assms(2) by (simp add: jobs_inv_def)
  have "filter (\<lambda>j. jb_type j = type_schema_scan \<and> jb_status j \<in> {JobPending, JobRunning}) js
      = filter (\<lambda>j. \<not> ended (jb_status j)) js"
  proof (rule filter_cong [OF refl])
    fix k
    assume "k \<in> set js"
    with shape have "jb_type k = type_schema_scan" by (simp add: row_shape_def)
    then show "(jb_type k = type_schema_scan \<and> jb_status k \<in> {JobPending, JobRunning}) = (\<not> ended (jb_status k))"
      by (cases "jb_status k") simp_all
  qed
  with row_queued have "length (filter (\<lambda>j. \<not> ended (jb_status j)) js) < 100" by simp
  moreover have "row_shape j" "\<not> ended (jb_status j)" "jb_id j = job_id"
    using row_queued by (simp_all add: row_shape_def pending_job_def)
  ultimately show ?thesis using row_queued assms(2) by (simp add: jobs_inv_def)
next
  case (row_claimed j t)
  have "jb_id (claimed_job t j) = jb_id j" by (simp add: claimed_job_def)
  note job = this replace_job_ids [OF this, of js]
    set_replace_job [OF _ row_claimed(2) this]
  have "length (filter (\<lambda>j. \<not> ended (jb_status j)) (replace_job (claimed_job t j) js))
      \<le> length (filter (\<lambda>j. \<not> ended (jb_status j)) js)"
    using unique_by_id [of js _ j] row_claimed assms(2) job(1)
    by (intro count_replace_job) (fastforce simp: jobs_inv_def)
  then show ?thesis
    using assms(2) row_claimed job shape_claimed [of j t] by (auto simp: jobs_inv_def)
next
  case (row_finished j cp)
  have "jb_id (finished_job cp j) = jb_id j" by (simp add: finished_job_def)
  note job = this replace_job_ids [OF this, of js] set_replace_job [OF _ row_finished(2) this]
  have "length (filter (\<lambda>j. \<not> ended (jb_status j)) (replace_job (finished_job cp j) js))
      \<le> length (filter (\<lambda>j. \<not> ended (jb_status j)) js)"
    using row_finished by (intro count_replace_job) (simp add: finished_job_def)
  then show ?thesis
    using assms(2) row_finished job shape_finished [of j cp] by (auto simp: jobs_inv_def)
next
  case rows_requeued
  have "distinct (map jb_id js')" using rows_requeued assms(2) by (simp add: jobs_inv_def comp_def)
  moreover have "length (filter (\<lambda>j. \<not> ended (jb_status j)) (map requeued_job js))
      = length (filter (\<lambda>j. \<not> ended (jb_status j)) js)"
    by (induction js) (auto simp: requeued_job_def is_running_scan_def)
  ultimately show ?thesis
    using assms(2) rows_requeued shape_requeued by (auto simp: jobs_inv_def)
qed simp

lemma jobs_later_inv: "jobs_later d d' \<Longrightarrow> jobs_inv (jobs_t d) \<Longrightarrow> jobs_inv (jobs_t d')"
  by (induction rule: jobs_later.induct) (auto intro: row_step_inv perform_job_rows)

lemma reachable_jobs_inv: "jobs_reachable d \<Longrightarrow> jobs_inv (jobs_t d)"
  unfolding jobs_reachable_def using jobs_later_inv by (fastforce simp: jobs_inv_def)

subsection \<open>Rows only move forward\<close>

definition row_evolves :: "job \<Rightarrow> job \<Rightarrow> bool" where
  "row_evolves j k \<longleftrightarrow>
     jb_id k = jb_id j \<and> (k = j \<or> jb_revision j < jb_revision k \<and> \<not> ended (jb_status j))"

lemma row_evolves_trans: "row_evolves i j \<Longrightarrow> row_evolves j k \<Longrightarrow> row_evolves i k"
  by (auto simp: row_evolves_def)

lemma replaced_row_evolves:
  assumes "distinct (map jb_id js)" "i \<in> set js" "row_evolves i job" "j \<in> set js"
  shows "\<exists>k\<in>set (replace_job job js). row_evolves j k"
proof (cases "jb_id j = jb_id i")
  case True
  then have "j = i" using assms by (intro unique_by_id)
  then show ?thesis using assms True by (force simp: replace_job_def row_evolves_def)
next
  case False
  then have "j \<in> set (replace_job job js)"
    using assms by (force simp: replace_job_def row_evolves_def)
  then show ?thesis by (auto simp: row_evolves_def)
qed

lemma row_step_evolves:
  assumes "row_step js js'" "jobs_inv js" "j \<in> set js"
  shows "\<exists>k\<in>set js'. row_evolves j k"
  using assms(1)
proof cases
  case (row_claimed i t)
  moreover have "distinct (map jb_id js)" using assms(2) by (simp add: jobs_inv_def)
  moreover have "row_evolves i (claimed_job t i)" using row_claimed by (simp add: row_evolves_def claimed_job_def)
  ultimately show ?thesis using replaced_row_evolves assms(3) by blast
next
  case (row_finished i cp)
  moreover have "distinct (map jb_id js)" using assms(2) by (simp add: jobs_inv_def)
  moreover have "row_evolves i (finished_job cp i)"
    using row_finished by (simp add: row_evolves_def finished_job_def completes_def)
  ultimately show ?thesis using replaced_row_evolves assms(3) by blast
next
  case rows_requeued
  have "row_evolves j (requeued_job j)" by (simp add: row_evolves_def requeued_job_def is_running_scan_def)
  then show ?thesis using rows_requeued assms(3) by auto
qed (use assms(3) in \<open>auto simp: row_evolves_def\<close>)

lemma jobs_later_evolves:
  assumes "jobs_later d d'" "jobs_inv (jobs_t d)" "j \<in> set (jobs_t d)"
  shows "\<exists>k\<in>set (jobs_t d'). row_evolves j k"
  using assms(1)
proof (induction rule: jobs_later.induct)
  case jobs_now
  then show ?case using assms(3) by (auto simp: row_evolves_def)
next
  case (jobs_call d1 call je r d2)
  then obtain k where k: "k \<in> set (jobs_t d1)" "row_evolves j k" by blast
  have "jobs_inv (jobs_t d1)" using jobs_call.hyps(1) assms(2) by (rule jobs_later_inv)
  with row_step_evolves [OF perform_job_rows [OF jobs_call.hyps(3,2)] this k(1)] k(2)
  show ?case using row_evolves_trans by blast
qed

lemma claim_rows:
  assumes "perform_job je (CallClaim t) d = (Inr (Some j), d')" "distinct (map jb_id (jobs_t d))"
  obtains k where "k \<in> set (jobs_t d)" "jb_status k = JobPending" "j = claimed_job t k" "j \<in> set (jobs_t d')"
proof -
  have "claim_next_schema_scan je t d = (Inr j, d')"
    using assms(1) by (auto simp: with_row_def result_simps split: prod.splits)
  then obtain k ks where k: "pending_scans d = k # ks" "j = claimed_job t k"
    "d' = d\<lparr>jobs_t := replace_job j (jobs_t d)\<rparr>" by (rule claim_result)
  have "k \<in> set (jobs_t d)" "jb_status k = JobPending" using set_pending_scans [of d] k(1) by auto
  moreover have "jb_id j = jb_id k" using k(2) by (simp add: claimed_job_def)
  ultimately show thesis
    using that [of k] k set_replace_job [OF assms(2), of k j] by simp
qed

lemma finish_rows:
  assumes "perform_job je (CallFinish cp) d = (Inr (Some j), d')" "distinct (map jb_id (jobs_t d))"
  obtains k where "k \<in> set (jobs_t d)" "completes cp k" "j = finished_job cp k" "j \<in> set (jobs_t d')"
proof -
  have "finish_schema_scan je cp d = (Inr j, d')"
    using assms(1) by (auto simp: with_row_def result_simps split: prod.splits)
  then obtain k where k: "find (completes cp) (jobs_t d) = Some k" "j = finished_job cp k"
    "d' = d\<lparr>jobs_t := replace_job j (jobs_t d)\<rparr>" by (rule finish_result)
  have "k \<in> set (jobs_t d)" "completes cp k" using k(1) by (auto simp: find_Some_iff)
  moreover have "jb_id j = jb_id k" using k(2) by (simp add: finished_job_def)
  ultimately show thesis
    using that [of k] k set_replace_job [OF assms(2), of k j] by simp
qed

end
