(* ===== verification/JobWorker.thy ===== *)
theory JobWorker
  imports JobQueue
begin

section \<open>The worker and its store\<close>

text \<open>
  What the coordinator needs of a store is the locale \<open>scan_store\<close>: which row a claim and a
  completion change, that a busy store changes none, and that meanwhile others can only queue
  new jobs. \<open>scan_outcome\<close> says how a scan ends without its retries. The store of
  \<open>JobRepository\<close> provides the contract.
\<close>

subsection \<open>How a scan ends\<close>

definition runner_of ::
  "'w coordinator \<Rightarrow> int \<Rightarrow> scan_mode \<Rightarrow> string list \<Rightarrow> ('w, job_error, published_snapshot) action option" where
  "runner_of c data_source mode tables =
     (if mode = ScanIncremental then map_option (\<lambda>run. run data_source tables) (sc_run_incremental c)
      else Some (sc_run c data_source))"

inductive scan_outcome :: "'w coordinator \<Rightarrow> string \<Rightarrow> 'w \<Rightarrow> job_status \<Rightarrow> string \<Rightarrow> string \<Rightarrow> bool"
  for c payload w where
  scan_undecodable: "decode_schema_scan_payload payload = Inl err
     \<Longrightarrow> scan_outcome c payload w JobFailed [] ''INVALID_JOB_PAYLOAD''"
| scan_unsupported: "decode_schema_scan_payload payload = Inr (data_source, mode, tables)
     \<Longrightarrow> runner_of c data_source mode tables = None
     \<Longrightarrow> scan_outcome c payload w JobFailed [] ''INCREMENTAL_SCAN_UNSUPPORTED''"
| scan_succeeded: "decode_schema_scan_payload payload = Inr (data_source, mode, tables)
     \<Longrightarrow> runner_of c data_source mode tables = Some run \<Longrightarrow> run w = (Inr published, w')
     \<Longrightarrow> scan_outcome c payload w JobSucceeded (scan_result published) []"
| scan_cancelled: "decode_schema_scan_payload payload = Inr (data_source, mode, tables)
     \<Longrightarrow> runner_of c data_source mode tables = Some run \<Longrightarrow> run w = (Inl err, w')
     \<Longrightarrow> cx_err (sc_context c) w' \<noteq> None
     \<Longrightarrow> scan_outcome c payload w JobCancelled [] ''SCAN_CANCELLED''"
| scan_failed: "decode_schema_scan_payload payload = Inr (data_source, mode, tables)
     \<Longrightarrow> runner_of c data_source mode tables = Some run \<Longrightarrow> run w = (Inl err, w')
     \<Longrightarrow> cx_err (sc_context c) w' = None
     \<Longrightarrow> scan_outcome c payload w JobFailed []
           (if failure_code err \<noteq> [] then failure_code err else ''SCHEMA_SCAN_FAILED'')"

lemma scan_outcome_ended: "scan_outcome c payload w status result code \<Longrightarrow> ended status"
  by (induction rule: scan_outcome.induct) simp_all

text \<open>Rows that others queued meanwhile come after the known ones.\<close>

definition joined :: "job list \<Rightarrow> job list \<Rightarrow> bool" where
  "joined js js' \<longleftrightarrow>
     (\<exists>new. js' = js @ new \<and> (\<forall>j\<in>set new. jb_status j = JobPending)
        \<and> (distinct (map jb_id js) \<longrightarrow> distinct (map jb_id js')))"

lemma joined_refl [simp, intro]: "joined js js"
  by (simp add: joined_def)

lemma joined_trans: "joined i j \<Longrightarrow> joined j k \<Longrightarrow> joined i k"
  unfolding joined_def by fastforce

definition first_pending :: "job \<Rightarrow> job list \<Rightarrow> bool" where
  "first_pending k js \<longleftrightarrow>
     k \<in> set js \<and> jb_type k = type_schema_scan \<and> jb_status k = JobPending
     \<and> (\<forall>j\<in>set js. jb_type j = type_schema_scan \<and> jb_status j = JobPending \<longrightarrow>
          rfc3339_nano (jb_created_at k) < rfc3339_nano (jb_created_at j)
          \<or> rfc3339_nano (jb_created_at k) = rfc3339_nano (jb_created_at j) \<and> jb_id k \<le> jb_id j)"

subsection \<open>Retries\<close>

inductive retried ::
  "'w coordinator \<Rightarrow> 'w scan_context \<Rightarrow> completion \<Rightarrow> nat \<Rightarrow> 'w \<Rightarrow> nat \<Rightarrow> 'w \<Rightarrow> bool" for c cx cp where
  retried_now: "retried c cx cp n w n w"
| retried_busy: "sc_finish c cp w = (Inl ErrStoreBusy, w1) \<Longrightarrow> cx_wait cx (retry_delay n) w1 = (None, w2)
     \<Longrightarrow> retried c cx cp (Suc n) w2 m w3 \<Longrightarrow> retried c cx cp n w m w3"

definition last_attempt ::
  "'w coordinator \<Rightarrow> 'w scan_context \<Rightarrow> completion \<Rightarrow> nat \<Rightarrow> 'w \<Rightarrow> (job_error + unit) \<times> 'w \<Rightarrow> bool" where
  "last_attempt c cx cp n w y \<longleftrightarrow>
     (case sc_finish c cp w of
        (Inr _, w1) \<Rightarrow> y = (Inr (), w1)
      | (Inl err, w1) \<Rightarrow>
          if err \<noteq> ErrStoreBusy then y = (Inl err, w1)
          else (\<exists>e w2. cx_wait cx (retry_delay n) w1 = (Some e, w2) \<and> y = (Inl e, w2)))"

lemma last_attempt_finished: "last_attempt c cx cp n w (Inr u, w') \<Longrightarrow> \<exists>j. sc_finish c cp w = (Inr j, w')"
  by (cases "sc_finish c cp w") (auto simp: last_attempt_def split: sum.splits if_splits)

lemma finish_with_retry_iff:
  "finish_with_retry c cx cp n w = Some y \<longleftrightarrow> (\<exists>m w1. retried c cx cp n w m w1 \<and> last_attempt c cx cp m w1 y)"
proof
  show "\<exists>m w1. retried c cx cp n w m w1 \<and> last_attempt c cx cp m w1 y"
    if "finish_with_retry c cx cp n w = Some y"
    using that
  proof (induction rule: finish_with_retry.raw_induct [rotated 1, consumes 1, case_names step])
    case (step f c cx cp n w y)
    obtain r w1 where run: "sc_finish c cp w = (r, w1)" by (cases "sc_finish c cp w")
    show ?case
    proof (cases "r = Inl ErrStoreBusy \<and> fst (cx_wait cx (retry_delay n) w1) = None")
      case True
      then obtain w2 where w2: "cx_wait cx (retry_delay n) w1 = (None, w2)"
        by (cases "cx_wait cx (retry_delay n) w1") auto
      with True run step(2) have "f c cx cp (Suc n) w2 = Some y" by simp
      from step(1) [OF this] obtain m w3 where "retried c cx cp (Suc n) w2 m w3" "last_attempt c cx cp m w3 y"
        by blast
      then show ?thesis using retried_busy [of c cp w w1 cx n w2 m w3] run True w2 by auto
    next
      case False
      then have "last_attempt c cx cp n w y"
        using run step(2) by (auto simp: last_attempt_def split: sum.splits prod.splits option.splits if_splits)
      then show ?thesis using retried.retried_now [of c cx cp n w] by (intro exI conjI)
    qed
  qed
next
  assume "\<exists>m w1. retried c cx cp n w m w1 \<and> last_attempt c cx cp m w1 y"
  then obtain m w1 where "retried c cx cp n w m w1" "last_attempt c cx cp m w1 y" by blast
  then show "finish_with_retry c cx cp n w = Some y"
  proof (induction rule: retried.induct)
    case (retried_now n w)
    then show ?case
      by (subst finish_with_retry.simps)
        (auto simp: last_attempt_def split: sum.splits prod.splits if_splits)
  next
    case (retried_busy w w1 n w2 m w3)
    then show ?case by (subst finish_with_retry.simps) simp
  qed
qed

subsection \<open>The contract of the store\<close>

locale scan_store =
  fixes c :: "'w coordinator" and rows :: "'w \<Rightarrow> job list"
  assumes claim_row: "sc_claim c t w = (Inr j, w')
      \<Longrightarrow> \<exists>k. first_pending k (rows w) \<and> j = claimed_job t k \<and> rows w' = replace_job j (rows w)"
    and claim_none: "sc_claim c t w = (Inl ErrNoPendingJob, w')
      \<Longrightarrow> rows w' = rows w
        \<and> (\<forall>j\<in>set (rows w). jb_type j = type_schema_scan \<longrightarrow> jb_status j \<noteq> JobPending)"
    and finish_row: "sc_finish c cp w = (Inr j, w')
      \<Longrightarrow> \<exists>k\<in>set (rows w). completes cp k \<and> j = finished_job cp k \<and> rows w' = replace_job j (rows w)"
    and finish_busy: "sc_finish c cp w = (Inl ErrStoreBusy, w') \<Longrightarrow> rows w' = rows w"
    and others_join: "sc_run c data_source w = (res, w') \<Longrightarrow> joined (rows w) (rows w')"
      "sc_run_incremental c = Some run \<Longrightarrow> run data_source tables w = (res, w') \<Longrightarrow> joined (rows w) (rows w')"
      "cx_wait (sc_context c) delay w = (err, w') \<Longrightarrow> joined (rows w) (rows w')"
      "cx_wait (sc_cleanup c) delay w = (err, w') \<Longrightarrow> joined (rows w) (rows w')"
begin

lemma runner_joins:
  "runner_of c data_source mode tables = Some run \<Longrightarrow> run w = (res, w') \<Longrightarrow> joined (rows w) (rows w')"
  using others_join(1,2) by (auto simp: runner_of_def split: if_splits)

lemma retried_joins:
  "retried c cx cp n w m w' \<Longrightarrow> cx = sc_context c \<or> cx = sc_cleanup c \<Longrightarrow> joined (rows w) (rows w')"
proof (induction rule: retried.induct)
  case (retried_busy w w1 n w2 m w3)
  have "rows w1 = rows w" by (rule finish_busy [OF retried_busy.hyps(1)])
  moreover have "joined (rows w1) (rows w2)"
    using retried_busy.prems others_join(3,4) retried_busy.hyps(2) by blast
  ultimately show ?case using joined_trans retried_busy.IH retried_busy.prems by metis
qed simp

lemma finish_with_retry_rows:
  assumes "finish_with_retry c cx cp n w = Some (Inr u, w')" "cx = sc_context c \<or> cx = sc_cleanup c"
  shows "\<exists>js. joined (rows w) js \<and> (\<exists>k\<in>set js. completes cp k \<and> rows w' = replace_job (finished_job cp k) js)"
proof -
  obtain m w1 where "retried c cx cp n w m w1" "last_attempt c cx cp m w1 (Inr u, w')"
    using assms(1) by (auto simp: finish_with_retry_iff)
  moreover from this(2) obtain j where "sc_finish c cp w1 = (Inr j, w')"
    using last_attempt_finished [of c cx cp m w1 u w'] by auto
  ultimately show ?thesis using retried_joins [OF _ assms(2)] finish_row by blast
qed

lemma finish_failure_rows:
  assumes "finish_failure c cx job status code w = Some (Inr u, w')" "cx = sc_context c \<or> cx = sc_cleanup c"
  shows "\<exists>js cp. joined (rows w) js \<and> cp_job cp = jb_id job \<and> cp_expected cp = jb_revision job
    \<and> cp_status cp = status \<and> cp_result cp = [] \<and> cp_error_code cp = code
    \<and> (\<exists>k\<in>set js. completes cp k \<and> rows w' = replace_job (finished_job cp k) js)"
proof -
  define cp where "cp = \<lparr>cp_job = jb_id job, cp_expected = jb_revision job, cp_status = status,
    cp_result = [], cp_error_code = code, cp_error_message = ''schema scan did not complete'',
    cp_completed_at = sc_now c w\<rparr>"
  obtain js k where "joined (rows w) js" "k \<in> set js" "completes cp k" "rows w' = replace_job (finished_job cp k) js"
    using finish_with_retry_rows [OF assms(1) [unfolded finish_failure_def, folded cp_def] assms(2)] by auto
  then show ?thesis by (intro exI [of _ js] exI [of _ cp]) (auto simp: cp_def)
qed

text \<open>The result of a claimed scan, with the rows between the claim and its completion.\<close>

definition recorded :: "job \<Rightarrow> 'w \<Rightarrow> 'w \<Rightarrow> bool" where
  "recorded job w w' \<longleftrightarrow>
     (\<exists>js cp. joined (rows w) js \<and> cp_job cp = jb_id job \<and> cp_expected cp = jb_revision job
        \<and> scan_outcome c (jb_payload job) w (cp_status cp) (cp_result cp) (cp_error_code cp)
        \<and> (\<exists>k\<in>set js. completes cp k \<and> rows w' = replace_job (finished_job cp k) js))"

lemma recorded_failure:
  assumes "finish_failure c cx job status code w1 = Some (Inr u, w')" "cx = sc_context c \<or> cx = sc_cleanup c"
    and "joined (rows w) (rows w1)" "scan_outcome c (jb_payload job) w status [] code"
  shows "recorded job w w'"
proof -
  obtain js cp where js: "joined (rows w1) js" and "cp_job cp = jb_id job" "cp_expected cp = jb_revision job"
    "cp_status cp = status" "cp_result cp = []" "cp_error_code cp = code"
    "\<exists>k\<in>set js. completes cp k \<and> rows w' = replace_job (finished_job cp k) js"
    using finish_failure_rows [OF assms(1,2)] by auto
  moreover have "joined (rows w) js" using assms(3) js by (rule joined_trans)
  ultimately show ?thesis unfolding recorded_def using assms(4)
    by (intro exI [of _ js] exI [of _ cp]) auto
qed

lemma run_claimed_rows:
  assumes "run_claimed c job w = Some (Inr u, w')"
  shows "recorded job w w'"
proof (cases "decode_schema_scan_payload (jb_payload job)")
  case (Inl err)
  show ?thesis
  proof (rule recorded_failure)
    show "finish_failure c (sc_context c) job JobFailed ''INVALID_JOB_PAYLOAD'' w = Some (Inr u, w')"
      using assms Inl by (simp add: run_claimed_def)
  qed (use scan_undecodable [OF Inl] in auto)
next
  case (Inr scope)
  obtain data_source mode tables where scope: "decode_schema_scan_payload (jb_payload job) = Inr (data_source, mode, tables)"
    using Inr by (cases scope) auto
  note run = assms [unfolded run_claimed_def scope, simplified, folded runner_of_def]
  show ?thesis
  proof (cases "runner_of c data_source mode tables")
    case None
    show ?thesis
    proof (rule recorded_failure)
      show "finish_failure c (sc_context c) job JobFailed ''INCREMENTAL_SCAN_UNSUPPORTED'' w = Some (Inr u, w')"
        using run None by simp
    qed (use scan_unsupported [OF scope None] in auto)
  next
    case (Some runner)
    obtain res w1 where w1: "runner w = (res, w1)" by (cases "runner w")
    have later: "joined (rows w) (rows w1)" by (rule runner_joins [OF Some w1])
    show ?thesis
    proof (cases res)
      case (Inl err)
      note failed = w1 [unfolded Inl]
      show ?thesis
      proof (cases "cx_err (sc_context c) w1 = None")
        case True
        show ?thesis
        proof (rule recorded_failure [OF _ _ later])
          show "finish_failure c (sc_context c) job JobFailed
              (if failure_code err \<noteq> [] then failure_code err else ''SCHEMA_SCAN_FAILED'') w1 = Some (Inr u, w')"
            using run Some failed True by simp
        qed (use scan_failed [OF scope Some failed True] in auto)
      next
        case False
        show ?thesis
        proof (rule recorded_failure [OF _ _ later])
          show "finish_failure c (sc_cleanup c) job JobCancelled ''SCAN_CANCELLED'' w1 = Some (Inr u, w')"
            using run Some failed False by simp
        qed (use scan_cancelled [OF scope Some failed False] in auto)
      qed
    next
      case (Inr published)
      define cp where "cp = \<lparr>cp_job = jb_id job, cp_expected = jb_revision job, cp_status = JobSucceeded,
        cp_result = scan_result published, cp_error_code = [], cp_error_message = [],
        cp_completed_at = sc_now c w1\<rparr>"
      have "finish_with_retry c (sc_context c) cp 0 w1 = Some (Inr u, w')"
        using run Some w1 Inr by (simp add: cp_def)
      from finish_with_retry_rows [OF this] obtain js where "joined (rows w1) js"
        "\<exists>k\<in>set js. completes cp k \<and> rows w' = replace_job (finished_job cp k) js" by auto
      moreover from this(1) have "joined (rows w) js" by (rule joined_trans [OF later])
      moreover have "scan_outcome c (jb_payload job) w JobSucceeded (scan_result published) []"
        using scan_succeeded [OF scope Some w1 [unfolded Inr]] .
      ultimately show ?thesis unfolding recorded_def by (intro exI [of _ js] exI [of _ cp]) (simp add: cp_def)
    qed
  qed
qed

lemma process_next_rows:
  assumes run: "process_next c w = Some (Inr True, w')" and ids: "distinct (map jb_id (rows w))"
  obtains k t w1 cp where "first_pending k (rows w)" "sc_claim c t w = (Inr (claimed_job t k), w1)"
    "scan_outcome c (jb_payload k) w1 (cp_status cp) (cp_result cp) (cp_error_code cp)"
    "joined (replace_job (finished_job cp (claimed_job t k)) (rows w)) (rows w')"
proof -
  let ?t = "sc_now c w"
  obtain job w1 u where claim: "sc_claim c ?t w = (Inr job, w1)" and done_: "run_claimed c job w1 = Some (Inr u, w')"
    using run by (auto simp: process_next_def result_simps split: prod.splits sum.splits if_splits)
  obtain k where k: "first_pending k (rows w)" "job = claimed_job ?t k" "rows w1 = replace_job job (rows w)"
    using claim_row [OF claim] by auto
  have id: "jb_id job = jb_id k" "jb_payload job = jb_payload k" using k(2) by (simp_all add: claimed_job_def)
  have "k \<in> set (rows w)" using k(1) by (simp add: first_pending_def)
  with id k(3) ids have job: "job \<in> set (rows w1)" and ids1: "distinct (map jb_id (rows w1))"
    by (simp_all add: set_replace_job [of _ k job] replace_job_ids)
  obtain js cp i where js: "joined (rows w1) js" "cp_job cp = jb_id job"
    and outcome: "scan_outcome c (jb_payload job) w1 (cp_status cp) (cp_result cp) (cp_error_code cp)"
    and i: "i \<in> set js" "completes cp i" "rows w' = replace_job (finished_job cp i) js"
    using run_claimed_rows [OF done_] unfolding recorded_def by blast
  obtain extra where extra: "js = rows w1 @ extra" "\<forall>j\<in>set extra. jb_status j = JobPending" "distinct (map jb_id js)"
    using js(1) ids1 by (auto simp: joined_def)
  have "i = job" using unique_by_id [OF extra(3) i(1), of job] job i(2) js(2) extra(1) by (auto simp: completes_def)
  have apart: "jb_id j \<noteq> jb_id job" if "j \<in> set extra" for j
    using unique_by_id [OF extra(3), of j job] that job extra(1,3) by auto
  have "replace_job (finished_job cp job) extra = extra"
    using apart by (auto simp: replace_job_def finished_job_def intro!: map_idI)
  moreover have "replace_job (finished_job cp job) (rows w1) = replace_job (finished_job cp job) (rows w)"
    unfolding k(3) by (simp add: replace_job_def finished_job_def)
  ultimately have rows: "rows w' = replace_job (finished_job cp job) (rows w) @ extra"
    using i(3) \<open>i = job\<close> extra(1) by (simp add: replace_job_def)
  moreover have "map jb_id (rows w') = map jb_id js"
    using i(3) \<open>i = job\<close> by (simp add: replace_job_ids finished_job_def)
  ultimately have "joined (replace_job (finished_job cp job) (rows w)) (rows w')"
    using extra(2,3) unfolding joined_def by auto
  then show thesis using that [of k ?t w1 cp] k claim outcome id by simp
qed

lemma process_next_idle:
  assumes "process_next c w = Some (Inr False, w')"
  shows "rows w' = rows w" "\<forall>j\<in>set (rows w). jb_type j = type_schema_scan \<longrightarrow> jb_status j \<noteq> JobPending"
proof -
  have "sc_claim c (sc_now c w) w = (Inl ErrNoPendingJob, w')"
    using assms by (auto simp: process_next_def result_simps split: prod.splits sum.splits if_splits)
  then show "rows w' = rows w" "\<forall>j\<in>set (rows w). jb_type j = type_schema_scan \<longrightarrow> jb_status j \<noteq> JobPending"
    using claim_none by blast+
qed

end

subsection \<open>The SQLite store\<close>

lemma sort_key_twice_first:
  assumes "sort_key f (sort_key g xs) = k # ks" "j \<in> set xs"
  shows "f k < f j \<or> f k = f j \<and> g k \<le> g j"
proof -
  have j: "j \<in> set (k # ks)" using assms set_sort [of f "sort_key g xs"] by (metis set_sort)
  have "sorted (map f (k # ks))" using assms(1) sorted_sort_key [of f "sort_key g xs"] by simp
  then have le: "f k \<le> f j" using j by auto
  have "g k \<le> g j" if "f k = f j"
  proof -
    have "filter (\<lambda>y. f y = f k) (sort_key g xs) = k # filter (\<lambda>y. f y = f k) ks"
      using sort_key_stable [of f "f k" "sort_key g xs"] assms(1) by simp
    moreover have "sorted (map g (filter (\<lambda>y. f y = f k) (sort_key g xs)))"
      by (rule sorted_filter) (rule sorted_sort_key)
    ultimately show ?thesis using j that by auto
  qed
  with le show ?thesis by auto
qed

lemma claim_first_pending: "pending_scans d = k # ks \<Longrightarrow> first_pending k (jobs_t d)"
  using set_pending_scans [of d] sort_key_twice_first [of "\<lambda>j. rfc3339_nano (jb_created_at j)" jb_id _ k ks]
  by (fastforce simp: first_pending_def pending_scans_def)

lemma joined_others_queue: "joined (jobs_t d) (jobs_t (others_queue je calls d))"
proof (induction je calls d rule: others_queue.induct)
  case (2 je job_id payload now event calls d)
  let ?job = "pending_job job_id type_schema_scan payload now"
  obtain r d' where run: "create_schema_scan_job je ?job event maximum_pending_schema_scans d = (r, d')"
    by (cases "create_schema_scan_job je ?job event maximum_pending_schema_scans d")
  have "joined (jobs_t d) (jobs_t d')"
  proof (cases r)
    case (Inl err)
    with run have "d' = d" by (simp add: operation_error(3))
    then show ?thesis by simp
  next
    case (Inr u)
    from create_result [OF run [unfolded Inr]] have "jobs_t d' = jobs_t d @ [?job]" "jb_id ?job \<notin> jb_id ` set (jobs_t d)"
      by (simp_all add: pending_job_def)
    then show ?thesis unfolding joined_def by (simp add: pending_job_def)
  qed
  with "2.IH" run show ?case by (auto intro: joined_trans)
qed simp

lemma joined_elsewhere: "elsewhere je env f w = (x, w') \<Longrightarrow> joined (jobs_t (fst w)) (jobs_t (fst w'))"
  by (auto simp: elsewhere_def joined_others_queue split: prod.splits)

lemma queued_write_Inr:
  "queued_write env operation (d, r) = (Inr x, (d', r')) \<Longrightarrow> operation d = (Inr x, d')"
  by (auto simp: queued_write_def split: prod.splits write_turn.splits)

lemma queued_write_Inl:
  "queued_write env operation (d, r) = (Inl err, (d', r')) \<Longrightarrow> err \<noteq> ScanContextCanceled
     \<Longrightarrow> operation d = (Inl err, d') \<or> err = ErrStoreBusy \<and> d' = d"
  by (auto simp: queued_write_def split: prod.splits write_turn.splits)

lemma claim_no_pending:
  assumes "claim_next_schema_scan je t d = (Inl ErrNoPendingJob, d')"
  shows "pending_scans d = []"
  using assms by (auto simp: claim_next_schema_scan_def job_write_def Let_def split: list.splits if_splits)

lemma finish_not_busy: "finish_schema_scan je cp d \<noteq> (Inl ErrStoreBusy, d')"
  by (auto simp: finish_schema_scan_def job_write_def Let_def split: option.splits if_splits)

interpretation sqlite_scans: scan_store "sqlite_coordinator je env" "\<lambda>w. jobs_t (fst w)" for je env
proof
  let ?c = "sqlite_coordinator je env"
  fix t w j w'
  assume "sc_claim ?c t w = (Inr j, w')"
  then have "claim_next_schema_scan je t (fst w) = (Inr j, fst w')"
    by (cases w; cases w') (auto simp: sqlite_coordinator_def dest: queued_write_Inr)
  from claim_result [OF this] claim_first_pending
  show "\<exists>k. first_pending k (jobs_t (fst w)) \<and> j = claimed_job t k \<and> jobs_t (fst w') = replace_job j (jobs_t (fst w))"
    by (metis job_db.select_convs(1) job_db.surjective job_db.update_convs(1))
next
  let ?c = "sqlite_coordinator je env"
  fix t w w'
  assume "sc_claim ?c t w = (Inl ErrNoPendingJob, w')"
  then have run: "claim_next_schema_scan je t (fst w) = (Inl ErrNoPendingJob, fst w')"
    by (cases w; cases w') (auto simp: sqlite_coordinator_def dest: queued_write_Inl)
  show "jobs_t (fst w') = jobs_t (fst w)
      \<and> (\<forall>j\<in>set (jobs_t (fst w)). jb_type j = type_schema_scan \<longrightarrow> jb_status j \<noteq> JobPending)"
    using operation_error(1) [OF run] claim_no_pending [OF run] set_pending_scans [of "fst w"] by auto
next
  let ?c = "sqlite_coordinator je env"
  fix cp w j w'
  assume "sc_finish ?c cp w = (Inr j, w')"
  then have "finish_schema_scan je cp (fst w) = (Inr j, fst w')"
    by (cases w; cases w') (auto simp: sqlite_coordinator_def dest: queued_write_Inr)
  then obtain k where "find (completes cp) (jobs_t (fst w)) = Some k" "j = finished_job cp k"
    "fst w' = (fst w)\<lparr>jobs_t := replace_job j (jobs_t (fst w))\<rparr>" by (rule finish_result)
  then show "\<exists>k\<in>set (jobs_t (fst w)). completes cp k \<and> j = finished_job cp k
      \<and> jobs_t (fst w') = replace_job j (jobs_t (fst w))"
    by (auto simp: find_Some_iff)
next
  let ?c = "sqlite_coordinator je env"
  fix cp w w'
  assume "sc_finish ?c cp w = (Inl ErrStoreBusy, w')"
  then show "jobs_t (fst w') = jobs_t (fst w)"
    using finish_not_busy by (cases w; cases w') (auto simp: sqlite_coordinator_def dest!: queued_write_Inl)
qed (auto simp: sqlite_coordinator_def dest: joined_elsewhere)

subsection \<open>A store that is there\<close>

lemma count_replaced:
  "distinct (map jb_id js) \<Longrightarrow> i \<in> set js \<Longrightarrow> P i \<Longrightarrow> \<not> P job \<Longrightarrow> jb_id job = jb_id i
    \<Longrightarrow> Suc (length (filter P (replace_job job js))) = length (filter P js)"
proof (induction js)
  case (Cons x js)
  show ?case
  proof (cases "x = i")
    case True
    then have "\<forall>j\<in>set js. jb_id j \<noteq> jb_id job" using Cons.prems by (metis distinct.simps(2) image_eqI list.set_map list.simps(9))
    then have "replace_job job js = js" by (auto simp: replace_job_def intro!: map_idI)
    then show ?thesis using Cons.prems True by (simp add: replace_job_def)
  next
    case False
    then have "i \<in> set js" using Cons.prems by simp
    moreover from this have "jb_id x \<noteq> jb_id job" using Cons.prems by auto
    ultimately show ?thesis using Cons.prems Cons.IH by (auto simp: replace_job_def)
  qed
qed simp

fun drain :: "nat \<Rightarrow> 'w coordinator \<Rightarrow> 'w \<Rightarrow> 'w option" where
  "drain 0 c w = Some w"
| "drain (Suc n) c w =
     (case process_next c w of
        None \<Rightarrow> None
      | Some (r, w) \<Rightarrow> if r = Inr True then drain n c w else None)"

text \<open>
  When the store accepts every write and nobody else queues scans, every claim and completion
  that may succeed does, and draining the queue ends.
\<close>

locale reliable_scan_store = scan_store c rows for c :: "'w coordinator" and rows :: "'w \<Rightarrow> job list" +
  assumes claim_there: "(\<exists>j\<in>set (rows w). jb_type j = type_schema_scan \<and> jb_status j = JobPending)
      \<Longrightarrow> \<exists>j w'. sc_claim c t w = (Inr j, w')"
    and claim_empty: "(\<forall>j\<in>set (rows w). jb_type j = type_schema_scan \<longrightarrow> jb_status j \<noteq> JobPending)
      \<Longrightarrow> \<exists>w'. sc_claim c t w = (Inl ErrNoPendingJob, w')"
    and finish_there: "k \<in> set (rows w) \<Longrightarrow> completes cp k \<Longrightarrow> \<exists>j w'. sc_finish c cp w = (Inr j, w')"
    and recover_there: "\<exists>n w'. sc_recover c t w = (Inr n, w') \<and> rows w' = map requeued_job (rows w)"
    and nobody_else: "sc_run c data_source w = (res, w') \<Longrightarrow> rows w' = rows w"
      "sc_run_incremental c = Some run \<Longrightarrow> run data_source tables w = (res, w') \<Longrightarrow> rows w' = rows w"
begin

lemma runner_alone: "runner_of c data_source mode tables = Some run \<Longrightarrow> run w = (res, w') \<Longrightarrow> rows w' = rows w"
  using nobody_else by (auto simp: runner_of_def split: if_splits)

lemma finish_at_once:
  assumes "k \<in> set (rows w)" "completes cp k"
  shows "\<exists>w'. finish_with_retry c cx cp n w = Some (Inr (), w') \<and> length (rows w') = length (rows w)"
proof -
  obtain j w' where "sc_finish c cp w = (Inr j, w')" using finish_there [OF assms] by blast
  then show ?thesis
    using finish_row by (fastforce simp: finish_with_retry.simps replace_job_def)
qed

lemma failure_at_once:
  assumes "job \<in> set (rows w)" "jb_status job = JobRunning"
  shows "\<exists>w'. finish_failure c cx job status code w = Some (Inr (), w') \<and> length (rows w') = length (rows w)"
  unfolding finish_failure_def by (rule finish_at_once [OF assms(1)]) (simp add: completes_def assms(2))

lemma run_claimed_at_once:
  assumes "job \<in> set (rows w)" "jb_status job = JobRunning"
  shows "\<exists>w'. run_claimed c job w = Some (Inr (), w') \<and> length (rows w') = length (rows w)"
proof (cases "decode_schema_scan_payload (jb_payload job)")
  case (Inl err)
  then show ?thesis using failure_at_once [OF assms] by (simp add: run_claimed_def)
next
  case (Inr scope)
  obtain data_source mode tables where scope: "scope = (data_source, mode, tables)" by (cases scope)
  note run = run_claimed_def [of c job w, unfolded Inr scope, simplified, folded runner_of_def]
  show ?thesis
  proof (cases "runner_of c data_source mode tables")
    case None
    then show ?thesis using failure_at_once [OF assms] by (simp add: run)
  next
    case (Some runner)
    obtain res w1 where w1: "runner w = (res, w1)" by (cases "runner w")
    have "rows w1 = rows w" by (rule runner_alone [OF Some w1])
    with assms have job: "job \<in> set (rows w1)" by simp
    show ?thesis
    proof (cases res)
      case (Inl err)
      then show ?thesis
        using Some w1 failure_at_once [OF job assms(2)] \<open>rows w1 = rows w\<close> by (simp add: run)
    next
      case (Inr published)
      have "completes \<lparr>cp_job = jb_id job, cp_expected = jb_revision job, cp_status = JobSucceeded,
          cp_result = scan_result published, cp_error_code = [], cp_error_message = [],
          cp_completed_at = sc_now c w1\<rparr> job"
        by (simp add: completes_def assms(2))
      from finish_at_once [OF job this, of "sc_context c" 0] Some w1 Inr \<open>rows w1 = rows w\<close>
      show ?thesis by (simp add: run)
    qed
  qed
qed

definition waiting :: "'w \<Rightarrow> nat" where
  "waiting w = length (filter (\<lambda>j. jb_status j = JobPending) (rows w))"

text \<open>No scan runs, and the rows are scans with different ids.\<close>

definition at_rest :: "'w \<Rightarrow> bool" where
  "at_rest w \<longleftrightarrow> distinct (map jb_id (rows w))
     \<and> (\<forall>j\<in>set (rows w). jb_type j = type_schema_scan \<and> jb_status j \<noteq> JobRunning)"

lemma process_at_once:
  assumes "at_rest w" "waiting w = Suc n"
  shows "\<exists>w'. process_next c w = Some (Inr True, w') \<and> at_rest w' \<and> waiting w' = n
    \<and> map jb_id (rows w') = map jb_id (rows w)"
proof -
  have ids: "distinct (map jb_id (rows w))" using assms(1) by (simp add: at_rest_def)
  have "filter (\<lambda>j. jb_status j = JobPending) (rows w) \<noteq> []" using assms(2) by (auto simp: waiting_def)
  then have "\<exists>j\<in>set (rows w). jb_type j = type_schema_scan \<and> jb_status j = JobPending"
    using assms(1) by (auto simp: at_rest_def filter_empty_conv)
  then obtain job w1 where claim: "sc_claim c (sc_now c w) w = (Inr job, w1)" using claim_there by blast
  obtain k where k: "first_pending k (rows w)" "job = claimed_job (sc_now c w) k" "rows w1 = replace_job job (rows w)"
    using claim_row [OF claim] by auto
  have known: "k \<in> set (rows w)" "jb_status k = JobPending" using k(1) by (simp_all add: first_pending_def)
  have job: "jb_id job = jb_id k" "jb_status job = JobRunning" using k(2) by (simp_all add: claimed_job_def)
  have "job \<in> set (rows w1)" using k(3) known(1) ids job(1) by (simp add: set_replace_job)
  from run_claimed_at_once [OF this job(2)] obtain w' where
    w': "run_claimed c job w1 = Some (Inr (), w')" "length (rows w') = length (rows w1)" by blast
  have done_: "process_next c w = Some (Inr True, w')" using claim w'(1) by (simp add: process_next_def)
  obtain i t w2 cp where i: "first_pending i (rows w)"
    "scan_outcome c (jb_payload i) w2 (cp_status cp) (cp_result cp) (cp_error_code cp)"
    "joined (replace_job (finished_job cp (claimed_job t i)) (rows w)) (rows w')"
    by (rule process_next_rows [OF done_ ids])
  let ?job = "finished_job cp (claimed_job t i)"
  have ended: "ended (jb_status ?job)" using scan_outcome_ended [OF i(2)] by (simp add: finished_job_def)
  have id: "jb_id ?job = jb_id i" "jb_type ?job = jb_type i" by (simp_all add: finished_job_def claimed_job_def)
  have "i \<in> set (rows w)" "jb_status i = JobPending" using i(1) by (simp_all add: first_pending_def)
  have "length (rows w') = length (rows w)" using w'(2) k(3) by (simp add: replace_job_def)
  with i(3) have rows: "rows w' = replace_job ?job (rows w)" by (auto simp: joined_def replace_job_def)
  have "jb_status ?job \<noteq> JobPending" using ended by auto
  then have "waiting w' = n"
    using count_replaced [of "rows w" i "\<lambda>j. jb_status j = JobPending" ?job] ids ended id assms(2)
      \<open>i \<in> set (rows w)\<close> \<open>jb_status i = JobPending\<close> by (simp add: waiting_def rows)
  moreover have "at_rest w'"
    using assms(1) ended id \<open>i \<in> set (rows w)\<close> ids
    by (auto simp: at_rest_def rows replace_job_ids set_replace_job)
  ultimately show ?thesis using done_ rows id by (simp add: replace_job_ids)
qed

lemma drain_all:
  "at_rest w \<Longrightarrow> waiting w = n \<Longrightarrow> \<exists>w'. drain n c w = Some w' \<and> at_rest w' \<and> waiting w' = 0
     \<and> map jb_id (rows w') = map jb_id (rows w)"
proof (induction n arbitrary: w)
  case (Suc n)
  from process_at_once [OF Suc.prems] obtain w1 where
    "process_next c w = Some (Inr True, w1)" "at_rest w1" "waiting w1 = n"
    "map jb_id (rows w1) = map jb_id (rows w)" by blast
  with Suc.IH [of w1] show ?case by auto
qed simp

lemma drained_ended: "at_rest w \<Longrightarrow> waiting w = 0 \<Longrightarrow> j \<in> set (rows w) \<Longrightarrow> ended (jb_status j)"
  by (cases "jb_status j") (auto simp: at_rest_def waiting_def filter_empty_conv)

lemma idle_when_drained:
  assumes "at_rest w" "waiting w = 0"
  shows "\<exists>w'. process_next c w = Some (Inr False, w')"
proof -
  have "\<forall>j\<in>set (rows w). jb_type j = type_schema_scan \<longrightarrow> jb_status j \<noteq> JobPending"
    using drained_ended [OF assms] by fastforce
  from claim_empty [OF this, of "sc_now c w"] show ?thesis by (auto simp: process_next_def)
qed

lemma restart_drains:
  assumes "distinct (map jb_id (rows w))" "\<forall>j\<in>set (rows w). jb_type j = type_schema_scan"
  shows "\<exists>w1 w2. recover_running c 0 w = Some (None, w1)
    \<and> drain (length (filter (\<lambda>j. \<not> ended (jb_status j)) (rows w))) c w1 = Some w2
    \<and> map jb_id (rows w2) = map jb_id (rows w) \<and> (\<forall>j\<in>set (rows w2). ended (jb_status j))
    \<and> (\<exists>w3. process_next c w2 = Some (Inr False, w3))"
proof -
  obtain n w1 where w1: "sc_recover c (sc_now c w) w = (Inr n, w1)" "rows w1 = map requeued_job (rows w)"
    using recover_there by blast
  have recovered: "recover_running c 0 w = Some (None, w1)" using w1(1) by (simp add: recover_running.simps)
  have rest: "at_rest w1" using assms unfolding at_rest_def w1(2)
    by (auto simp: comp_def) (auto simp: requeued_job_def is_running_scan_def split: if_splits)
  have open_jobs: "waiting w1 = length (filter (\<lambda>j. \<not> ended (jb_status j)) (rows w))"
  proof -
    have "jb_status (requeued_job j) = JobPending \<longleftrightarrow> \<not> ended (jb_status j)" if "j \<in> set (rows w)" for j
      using assms(2) that by (cases "jb_status j") (auto simp: requeued_job_def is_running_scan_def)
    then show ?thesis by (simp add: waiting_def w1(2) filter_map comp_def cong: filter_cong)
  qed
  obtain w2 where w2: "drain (waiting w1) c w1 = Some w2" "at_rest w2" "waiting w2 = 0"
      "map jb_id (rows w2) = map jb_id (rows w1)"
    using drain_all [OF rest refl] by blast
  moreover have "map jb_id (rows w1) = map jb_id (rows w)" by (simp add: w1(2) comp_def)
  ultimately show ?thesis
    using recovered drained_ended [OF w2(2,3)] idle_when_drained [OF w2(2,3)] unfolding open_jobs by metis
qed

end

text \<open>The same process with a write queue that always has room, and no other goroutine.\<close>

definition reliable_environment :: "'r scan_environment \<Rightarrow> 'r scan_environment" where
  "reliable_environment env = env\<lparr>se_turn := (\<lambda>r. (WriteAccepted, snd (se_turn env r))), se_meanwhile := (\<lambda>_. [])\<rparr>"

lemma reliable_environment_id:
  assumes "\<And>r. fst (se_turn env r) = WriteAccepted" "\<And>r. se_meanwhile env r = []"
  shows "reliable_environment env = env"
proof -
  have "(\<lambda>r. (WriteAccepted, snd (se_turn env r))) = se_turn env" "(\<lambda>_. []) = se_meanwhile env"
    using assms by (auto simp: fun_eq_iff prod_eq_iff)
  then show ?thesis by (simp add: reliable_environment_def)
qed

lemma reliable_write:
  "queued_write (reliable_environment env) operation (d, r)
     = (fst (operation d), (snd (operation d), snd (se_turn env r)))"
  by (simp add: queued_write_def reliable_environment_def split: prod.splits)

lemma reliable_elsewhere: "elsewhere je (reliable_environment env) f w = (x, w') \<Longrightarrow> fst w' = fst w"
  by (auto simp: elsewhere_def reliable_environment_def split: prod.splits)

lemma job_write_reliable:
  "job_write (\<lambda>_. True) operation d = (case operation d of Inl err \<Rightarrow> (Inl err, d) | Inr (x, d') \<Rightarrow> (Inr x, d'))"
  by (simp add: job_write_def split: sum.splits)

interpretation reliable_scans: reliable_scan_store
  "sqlite_coordinator (\<lambda>_. True) (reliable_environment env)" "\<lambda>w. jobs_t (fst w)" for env
proof
  let ?c = "sqlite_coordinator (\<lambda>_. True) (reliable_environment env)"
  fix t and w :: "job_db \<times> 'a"
  obtain d r where w: "w = (d, r)" by (cases w)
  show "\<exists>j w'. sc_claim ?c t w = (Inr j, w')"
    if "\<exists>j\<in>set (jobs_t (fst w)). jb_type j = type_schema_scan \<and> jb_status j = JobPending"
  proof -
    have "pending_scans d \<noteq> []" using that set_pending_scans [of d] w by auto
    then show ?thesis
      by (auto simp: w sqlite_coordinator_def reliable_write claim_next_schema_scan_def job_write_reliable
          Let_def neq_Nil_conv)
  qed
  show "\<exists>w'. sc_claim ?c t w = (Inl ErrNoPendingJob, w')"
    if "\<forall>j\<in>set (jobs_t (fst w)). jb_type j = type_schema_scan \<longrightarrow> jb_status j \<noteq> JobPending"
  proof -
    have "set (pending_scans d) = {}" using that w by (auto simp: set_pending_scans)
    then have "pending_scans d = []" by simp
    then show ?thesis
      by (auto simp: w sqlite_coordinator_def reliable_write claim_next_schema_scan_def job_write_reliable)
  qed
  show "\<exists>n w'. sc_recover ?c t w = (Inr n, w') \<and> jobs_t (fst w') = map requeued_job (jobs_t (fst w))"
    by (simp add: w sqlite_coordinator_def reliable_write recover_running_schema_scans_def job_write_reliable Let_def)
  fix k cp
  assume "k \<in> set (jobs_t (fst w))" "completes cp k"
  then obtain i where "find (completes cp) (jobs_t d) = Some i"
    using w by (cases "find (completes cp) (jobs_t d)") (auto simp: find_None_iff)
  then show "\<exists>j w'. sc_finish ?c cp w = (Inr j, w')"
    by (simp add: w sqlite_coordinator_def reliable_write finish_schema_scan_def job_write_reliable Let_def)
qed (auto simp: sqlite_coordinator_def dest: reliable_elsewhere)

end
