(* ===== verification/JobPayload.thy ===== *)
theory JobPayload
  imports JobWorker
begin

section \<open>Scopes and payloads\<close>

text \<open>
  A scope that was normalised once is normalised, and the payload of a job, decoded by the
  worker, is the scope it was queued with, as long as the table names are valid UTF-8.
\<close>

subsection \<open>Trimming twice\<close>

lemma strip_leading_fixed:
  "[] \<notin> set es \<Longrightarrow> e \<in> set es \<Longrightarrow> \<not> starts_with e (strip_leading es s)"
proof (induction es s rule: strip_leading.induct)
  case (1 es s)
  show ?case
  proof (cases "find (\<lambda>e. starts_with e s) es")
    case None
    then have "strip_leading es s = s" by (simp add: strip_leading.simps [of es s])
    with None "1.prems"(2) show ?thesis by (auto simp: find_None_iff)
  next
    case (Some x)
    then have "x \<in> set es" "starts_with x s" by (auto simp: find_Some_iff)
    then have "x \<noteq> []" using "1.prems"(1) by auto
    with \<open>starts_with x s\<close> have "s \<noteq> []" by (cases x; cases s) auto
    then show ?thesis
      using "1.IH" [OF Some] Some \<open>x \<noteq> []\<close> "1.prems" by (simp add: strip_leading.simps [of es s])
  qed
qed

lemma strip_leading_nothing: "(\<And>e. e \<in> set es \<Longrightarrow> \<not> starts_with e s) \<Longrightarrow> strip_leading es s = s"
  by (subst strip_leading.simps) (auto split: option.splits simp: find_Some_iff)

lemma strip_leading_suffix: "\<exists>n. strip_leading es s = drop n s"
proof (induction es s rule: strip_leading.induct)
  case (1 es s)
  show ?case
  proof (cases "find (\<lambda>e. starts_with e s) es")
    case None
    then show ?thesis by (subst strip_leading.simps) (auto intro: exI [of _ 0])
  next
    case (Some e)
    then show ?thesis
      using "1.IH" [OF Some] by (subst strip_leading.simps) (auto intro: exI [of _ 0])
  qed
qed

lemma starts_with_append: "starts_with e s \<Longrightarrow> starts_with e (s @ t)"
  by (induction e s rule: starts_with.induct) auto

lemma go_spaces_nonempty: "[] \<notin> set go_spaces" "[] \<notin> set (map rev go_spaces)"
  by (auto simp: go_spaces_def)

lemma trim_space_idem [simp]: "trim_space (trim_space s) = trim_space s"
proof -
  let ?l = "trim_left s"
  obtain n where "strip_leading (map rev go_spaces) (rev ?l) = drop n (rev ?l)"
    using strip_leading_suffix by blast
  then have "trim_right ?l = take (length ?l - n) ?l" by (simp add: trim_right_def rev_drop)
  then have prefix: "?l = trim_right ?l @ drop (length ?l - n) ?l" by simp
  have "trim_left (trim_right ?l) = trim_right ?l"
    unfolding trim_left_def [of "trim_right ?l"]
  proof (rule strip_leading_nothing)
    fix e
    assume "e \<in> set go_spaces"
    then have "\<not> starts_with e ?l" using strip_leading_fixed [OF go_spaces_nonempty(1)] by (simp add: trim_left_def)
    then show "\<not> starts_with e (trim_right ?l)" using prefix starts_with_append by metis
  qed
  moreover have "trim_right (trim_right ?l) = trim_right ?l"
    unfolding trim_right_def rev_rev_ident rev_is_rev_conv
    by (intro strip_leading_nothing strip_leading_fixed [OF go_spaces_nonempty(2)])
  ultimately show ?thesis by (simp add: trim_space_def)
qed

subsection \<open>Normal scopes\<close>

lemma normalize_tables_Inr:
  "normalize_tables tables acc = Inr out \<Longrightarrow> distinct acc
     \<Longrightarrow> out = acc @ map trim_space tables \<and> distinct out
       \<and> (\<forall>t\<in>set tables. valid_table_name (trim_space t))"
proof (induction tables acc rule: normalize_tables.induct)
  case (2 table tables normalized)
  then have "valid_table_name (trim_space table)" "trim_space table \<notin> set normalized"
    "normalize_tables tables (normalized @ [trim_space table]) = Inr out"
    by (auto simp: Let_def split: if_splits)
  note step = this
  have "out = (normalized @ [trim_space table]) @ map trim_space tables \<and> distinct out
      \<and> (\<forall>t\<in>set tables. valid_table_name (trim_space t))"
    by (rule "2.IH" [OF refl]) (use step "2.prems"(2) in simp_all)
  then show ?case using step(1) by (elim conjE) simp
qed simp

lemma normalize_tables_normal:
  "distinct (acc @ tables) \<Longrightarrow> (\<forall>t\<in>set tables. trim_space t = t \<and> valid_table_name t)
     \<Longrightarrow> normalize_tables tables acc = Inr (acc @ tables)"
  by (induction tables acc rule: normalize_tables.induct) (auto simp: Let_def)

definition normal_scope :: "scan_mode \<Rightarrow> string list \<Rightarrow> bool" where
  "normal_scope m ts \<longleftrightarrow>
     (m = ScanFull \<and> ts = [] \<or> m = ScanIncremental \<and> ts \<noteq> [] \<and> int (length ts) \<le> 100)
     \<and> sorted ts \<and> distinct ts \<and> (\<forall>t\<in>set ts. trim_space t = t \<and> valid_table_name t)"

lemma normalize_scope_Inr:
  assumes "normalize_schema_scan_scope mode tables = Inr (m, ts)"
  shows "normal_scope m ts \<and> set ts = trim_space ` set tables"
proof -
  obtain normalized where n: "normalize_tables tables [] = Inr normalized" "ts = sort normalized"
    and m: "m = (if mode = ScanUnset then ScanFull else mode)" "m = ScanFull \<or> m = ScanIncremental"
    "\<not> (m = ScanFull \<and> tables \<noteq> [] \<or> m = ScanIncremental \<and> (tables = [] \<or> int (length tables) > 100))"
    using assms by (auto simp: normalize_schema_scan_scope_def Let_def result_simps maximum_incremental_tables_def)
  from normalize_tables_Inr [OF n(1)] have "normalized = map trim_space tables" "distinct normalized"
    "\<forall>t\<in>set tables. valid_table_name (trim_space t)" by auto
  moreover from this n(2) have "length ts = length tables" "set ts = trim_space ` set tables" "sorted ts" "distinct ts"
    by auto
  ultimately show ?thesis using m unfolding normal_scope_def by (cases ts; cases tables) auto
qed

lemma normalize_scope_normal: "normal_scope m ts \<Longrightarrow> normalize_schema_scan_scope m ts = Inr (m, ts)"
  using normalize_tables_normal [of "[]" ts]
  by (auto simp: normal_scope_def normalize_schema_scan_scope_def maximum_incremental_tables_def sorted_sort_id)

subsection \<open>The payload\<close>

lemma ascii_valid_utf8:
  assumes "list_all (\<lambda>c. byte c < 128) s"
  shows "valid_utf8 s"
proof -
  have "length s \<le> k \<Longrightarrow> valid_utf8_fuel k s" for k
    using assms by (induction k s rule: valid_utf8_fuel.induct) (auto simp: Let_def)
  then show ?thesis by (simp add: valid_utf8_def)
qed

lemma int_text_utf8: "valid_utf8 (int_text n)"
  using decimal_digits_digits [of "nat n"] decimal_digits_digits [of "nat (- n)"]
  by (intro ascii_valid_utf8) (auto simp: int_text_def is_digit_def list_all_iff)

lemma string_elements_strings: "string_elements (map JString ts) old = Some ts"
  by (induction ts arbitrary: old) auto

lemma payload_names:
  "fold_name ''dataSourceId'' = ''DATASOURCEID''" "fold_name ''mode'' = ''MODE''"
  "fold_name ''tables'' = ''TABLES''"
  by code_simp+

lemma mode_names:
  "parse_schema_scan_mode ''FULL'' = Inr ScanFull"
  "parse_schema_scan_mode ''INCREMENTAL'' = Inr ScanIncremental"
  by code_simp+

lemma unmarshal_scan_payload:
  assumes "\<forall>t\<in>set ts. valid_utf8 t"
  shows "unmarshal_payload (encode_schema_scan_payload data_source mode ts)
    = Some \<lparr>pf_data_source = int_text data_source, pf_mode = schema_scan_mode_name mode, pf_tables = ts,
        pf_backing = ts\<rparr>"
proof -
  have "valid_utf8 ''dataSourceId''" "valid_utf8 ''mode''" "valid_utf8 ''tables''"
    "valid_utf8 (schema_scan_mode_name mode)"
    by (auto simp: schema_scan_mode_name_def intro!: ascii_valid_utf8)
  then have "json_plain 10000 0 (scan_payload data_source mode ts)"
    using assms int_text_utf8 by (auto simp: scan_payload_def list_all_iff)
  from json_parse_text [OF this] show ?thesis
    by (auto simp: unmarshal_payload_def encode_schema_scan_payload_def scan_payload_def
        set_payload_field_def payload_names string_elements_strings decoded_backing_def Let_def simp del: fold_name.simps)
qed

lemma decode_encoded_payload:
  assumes "normalize_schema_scan_scope mode0 tables0 = Inr (mode, tables)"
    and "\<forall>t\<in>set tables. valid_utf8 t" "0 < data_source" "data_source < 2 ^ 63"
  shows "decode_schema_scan_payload (encode_schema_scan_payload data_source mode tables)
    = Inr (data_source, mode, tables)"
proof -
  have scope: "normal_scope mode tables" using normalize_scope_Inr [OF assms(1)] by blast
  have "normalize_schema_scan_scope mode tables = Inr (mode, tables)" by (rule normalize_scope_normal [OF scope])
  moreover have "mode = ScanFull \<or> mode = ScanIncremental" using scope by (auto simp: normal_scope_def)
  then have "schema_scan_mode_name mode \<noteq> []" "parse_schema_scan_mode (schema_scan_mode_name mode) = Inr mode"
    using mode_names by (auto simp: schema_scan_mode_name_def)
  moreover have "parse_int64 (int_text data_source) = Some data_source"
    using assms(3,4) by (intro parse_int_text) simp_all
  ultimately show ?thesis
    using assms(3) unfolding decode_schema_scan_payload_def unmarshal_scan_payload [OF assms(2)] by simp
qed

end
