(* ===== verification/JobProtocol.thy ===== *)
theory JobProtocol
  imports JobPayload
begin

section \<open>The coordinator keeps to the protocol\<close>

text \<open>
  Whatever the coordinator does on the SQLite store, with its retries and with other
  goroutines queueing scans in between, moves the tables by calls of \<open>JobQueue\<close>, so that
  everything proved of those holds for it.
\<close>

lemma jobs_later_trans: "jobs_later d1 d2 \<Longrightarrow> jobs_later d d1 \<Longrightarrow> jobs_later d d2"
  by (induction rule: jobs_later.induct) (auto intro: jobs_call)

lemma jobs_later_step:
  assumes "coordinator_call call"
  shows "jobs_later d (snd (perform_job je call d))"
  using jobs_call [OF jobs_now assms, of je] by (cases "perform_job je call d") auto

lemma snd_with_row: "snd (with_row operation d) = snd (operation d)"
  by (simp add: with_row_def split: prod.splits)

lemma snd_without_row: "snd (without_row operation d) = snd (operation d)"
  by (simp add: without_row_def split: prod.splits)

lemma operations_later:
  "jobs_later d (snd (claim_next_schema_scan je t d))"
  "ended (cp_status cp) \<Longrightarrow> jobs_later d (snd (finish_schema_scan je cp d))"
  "jobs_later d (snd (recover_running_schema_scans je t d))"
  "jobs_later d (snd (create_schema_scan_job je (pending_job job_id type_schema_scan payload now) event
     maximum_pending_schema_scans d))"
  using jobs_later_step [of "CallClaim t" d je] jobs_later_step [of "CallFinish cp" d je]
    jobs_later_step [of "CallRecover t" d je]
    jobs_later_step [of "CallQueue (pending_job job_id type_schema_scan payload now) event
      maximum_pending_schema_scans" d je]
  by (auto simp: snd_with_row snd_without_row)

lemma queued_write_later:
  assumes "queued_write env operation w = (x, w')" "\<And>d. jobs_later d (snd (operation d))"
  shows "jobs_later (fst w) (fst w')"
proof -
  obtain d r turn r1 where "w = (d, r)" "se_turn env r = (turn, r1)" by (cases w; cases "se_turn env (snd w)") auto
  then show ?thesis
    using assms(1) assms(2) [of d] jobs_now [of d]
    by (cases turn) (auto simp: queued_write_def split: prod.splits)
qed

lemma others_queue_later: "jobs_later d (others_queue je calls d)"
  by (induction je calls d rule: others_queue.induct)
    (auto intro: jobs_now jobs_later_trans operations_later(4))

lemma elsewhere_later: "elsewhere je env f w = (x, w') \<Longrightarrow> jobs_later (fst w) (fst w')"
  by (auto simp: elsewhere_def others_queue_later split: prod.splits)

text \<open>The fields of the coordinator.\<close>

lemma coordinator_later:
  assumes c: "c = sqlite_coordinator je env"
  shows "sc_claim c t w = (x, w') \<Longrightarrow> jobs_later (fst w) (fst w')"
    and "ended (cp_status cp) \<Longrightarrow> sc_finish c cp w = (x, w') \<Longrightarrow> jobs_later (fst w) (fst w')"
    and "sc_recover c t w = (n, w') \<Longrightarrow> jobs_later (fst w) (fst w')"
    and "sc_create c (pending_job job_id type_schema_scan payload now) event maximum_pending_schema_scans w
      = (u, w') \<Longrightarrow> jobs_later (fst w) (fst w')"
    and "sc_ids c w = (i, w') \<Longrightarrow> jobs_later (fst w) (fst w')"
    and "runner_of c data_source mode tables = Some run \<Longrightarrow> run w = (res, w') \<Longrightarrow> jobs_later (fst w) (fst w')"
    and "cx = sc_context c \<or> cx = sc_cleanup c \<Longrightarrow> cx_wait cx delay w = (err, w') \<Longrightarrow> jobs_later (fst w) (fst w')"
    and "sc_idle c w = (b, w') \<Longrightarrow> jobs_later (fst w) (fst w')"
    and "fst (sc_signal c w) = fst w"
  unfolding c sqlite_coordinator_def
  by (auto simp: runner_of_def split: if_splits prod.splits
      dest: queued_write_later [OF _ operations_later(1)] queued_write_later [OF _ operations_later(2)]
        queued_write_later [OF _ operations_later(3)] queued_write_later [OF _ operations_later(4)]
        elsewhere_later)

lemma retried_later:
  assumes c: "c = sqlite_coordinator je env" and "ended (cp_status cp)" "cx = sc_context c \<or> cx = sc_cleanup c"
  shows "retried c cx cp n w m w' \<Longrightarrow> jobs_later (fst w) (fst w')"
proof (induction rule: retried.induct)
  case (retried_busy w w1 n w2 m w3)
  then show ?case
    using coordinator_later(2) [OF c assms(2)] coordinator_later(7) [OF c assms(3)] jobs_later_trans by metis
qed (rule jobs_now)

lemma finish_with_retry_later:
  assumes c: "c = sqlite_coordinator je env" and "ended (cp_status cp)" "cx = sc_context c \<or> cx = sc_cleanup c"
    and "finish_with_retry c cx cp n w = Some (res, w')"
  shows "jobs_later (fst w) (fst w')"
proof -
  obtain m w1 where w1: "retried c cx cp n w m w1" "last_attempt c cx cp m w1 (res, w')"
    using assms(4) by (auto simp: finish_with_retry_iff)
  obtain x w2 where w2: "sc_finish c cp w1 = (x, w2)" by (cases "sc_finish c cp w1")
  have "jobs_later (fst w2) (fst w')"
    using w1(2) w2 coordinator_later(7) [OF c assms(3), of _ w2] jobs_now
    by (cases w2) (auto simp: last_attempt_def split: sum.splits if_splits)
  then show ?thesis
    using retried_later [OF c assms(2,3) w1(1)] coordinator_later(2) [OF c assms(2) w2] jobs_later_trans by metis
qed

lemma run_claimed_later:
  assumes c: "c = sqlite_coordinator je env" and run: "run_claimed c job w = Some (res, w')"
  shows "jobs_later (fst w) (fst w')"
proof -
  note finish = finish_with_retry_later [OF c]
  have failure: "jobs_later (fst v) (fst v')"
    if "finish_failure c cx job status code v = Some (x, v')" "ended status" "cx = sc_context c \<or> cx = sc_cleanup c"
    for cx status code v x v'
    using finish [OF _ that(3) that(1) [unfolded finish_failure_def]] that(2) by simp
  show ?thesis
  proof (cases "decode_schema_scan_payload (jb_payload job)")
    case (Inl err)
    with run show ?thesis using failure [of "sc_context c"] by (auto simp: run_claimed_def)
  next
    case (Inr scope)
    obtain data_source mode tables where scope: "scope = (data_source, mode, tables)" by (cases scope)
    note run = run [unfolded run_claimed_def Inr scope, simplified, folded runner_of_def]
    show ?thesis
    proof (cases "runner_of c data_source mode tables")
      case None
      with run show ?thesis using failure [of "sc_context c"] by auto
    next
      case (Some runner)
      obtain y w1 where w1: "runner w = (y, w1)" by (cases "runner w")
      have "jobs_later (fst w) (fst w1)" by (rule coordinator_later(6) [OF c Some w1])
      moreover have "jobs_later (fst w1) (fst w')"
      proof (cases y)
        case (Inl err)
        with run Some w1 show ?thesis
          using failure [of "sc_context c"] failure [of "sc_cleanup c"] by (auto split: if_splits)
      next
        case (Inr published)
        let ?cp = "\<lparr>cp_job = jb_id job, cp_expected = jb_revision job, cp_status = JobSucceeded,
          cp_result = scan_result published, cp_error_code = [], cp_error_message = [],
          cp_completed_at = sc_now c w1\<rparr>"
        have "finish_with_retry c (sc_context c) ?cp 0 w1 = Some (res, w')" using run Some w1 Inr by simp
        then show ?thesis by (rule finish [rotated 2]) simp_all
      qed
      ultimately show ?thesis using jobs_later_trans by blast
    qed
  qed
qed

lemma process_next_later:
  assumes c: "c = sqlite_coordinator je env" and "process_next c w = Some (res, w')"
  shows "jobs_later (fst w) (fst w')"
proof -
  obtain x w1 where w1: "sc_claim c (sc_now c w) w = (x, w1)" by (cases "sc_claim c (sc_now c w) w")
  have "jobs_later (fst w1) (fst w')"
    using assms(2) w1 run_claimed_later [OF c, of _ w1] jobs_now
    by (cases x; cases w1) (auto simp: process_next_def split: prod.splits)
  then show ?thesis using coordinator_later(1) [OF c w1] jobs_later_trans by metis
qed

lemma recover_running_later:
  "recover_running c n w = Some y \<Longrightarrow> c = sqlite_coordinator je env \<longrightarrow> jobs_later (fst w) (fst (snd y))"
proof (induction rule: recover_running.raw_induct [rotated 1, consumes 1, case_names step])
  case (step f c n w y)
  show ?case
  proof
    assume c: "c = sqlite_coordinator je env"
    obtain x w1 where w1: "sc_recover c (sc_now c w) w = (x, w1)" by (cases "sc_recover c (sc_now c w) w")
    obtain e w2 where w2: "cx_wait (sc_context c) (retry_delay n) w1 = (e, w2)"
      by (cases "cx_wait (sc_context c) (retry_delay n) w1")
    have "jobs_later (fst w) (fst w1)" by (rule coordinator_later(3) [OF c w1])
    moreover have "jobs_later (fst w1) (fst w2)" using coordinator_later(7) [OF c _ w2] by simp
    moreover have "y = (None, w1) \<or> (\<exists>err. y = (Some err, w1)) \<or> y = (None, w2)
        \<or> f c (Suc n) w2 = Some y"
      using step(2) w1 w2 by (auto split: sum.splits if_splits option.splits)
    ultimately show "jobs_later (fst w) (fst (snd y))"
      using step(1) [of c "Suc n" w2 y] c jobs_later_trans by (metis snd_conv)
  qed
qed

lemma worker_round_later:
  assumes c: "c = sqlite_coordinator je env" and "worker_round c n w = Some (st, w')"
  shows "jobs_later (fst w) (fst w')"
proof -
  obtain x w1 where run: "process_next c w = Some (x, w1)"
    using assms(2) by (auto simp: worker_round_def)
  obtain e w2 where w2: "cx_wait (sc_context c) (retry_delay n) w1 = (e, w2)"
    by (cases "cx_wait (sc_context c) (retry_delay n) w1")
  obtain b w3 where w3: "sc_idle c w1 = (b, w3)" by (cases "sc_idle c w1")
  have "w' = w1 \<or> w' = w2 \<or> w' = w3"
    using assms(2) run w2 w3 by (auto simp: worker_round_def split: sum.splits if_splits)
  then show ?thesis
    using process_next_later [OF c run] coordinator_later(7) [OF c _ w2] coordinator_later(8) [OF c w3]
      jobs_later_trans by metis
qed

lemma worker_loop_later:
  "worker_loop c n w = Some y \<Longrightarrow> c = sqlite_coordinator je env \<longrightarrow> jobs_later (fst w) (fst (snd y))"
proof (induction rule: worker_loop.raw_induct [rotated 1, consumes 1, case_names step])
  case (step f c n w y)
  show ?case
  proof
    assume c: "c = sqlite_coordinator je env"
    obtain st w1 where w1: "worker_round c n w = Some (st, w1)"
      using step(2) by (auto split: option.splits)
    have "jobs_later (fst w) (fst w1)" by (rule worker_round_later [OF c w1])
    moreover have "(\<exists>err. y = (err, w1)) \<or> (\<exists>m. f c m w1 = Some y)"
      using step(2) w1 by (auto split: worker_step.splits)
    ultimately show "jobs_later (fst w) (fst (snd y))"
      using step(1) [of c _ w1 y] c jobs_later_trans by (metis snd_conv fst_conv)
  qed
qed

lemma run_coordinator_later:
  assumes "c = sqlite_coordinator je env" "run_coordinator c w = Some (err, w')"
  shows "jobs_later (fst w) (fst w')"
proof -
  obtain err1 w1 where w1: "recover_running c 0 w = Some (err1, w1)"
    using assms(2) by (auto simp: run_coordinator_def split: option.splits)
  have "jobs_later (fst w) (fst w1)" using recover_running_later [OF w1] assms(1) by simp
  moreover have "jobs_later (fst w1) (fst w')"
    using assms w1 worker_loop_later [of c 0 w1 "(err, w')"] jobs_now
    by (auto simp: run_coordinator_def split: option.splits)
  ultimately show ?thesis using jobs_later_trans by blast
qed

lemma start_scan_steps:
  assumes "start_scan c cmd w = (res, w')"
  shows "w' = w \<or> (\<exists>i w1. sc_ids c w = (i, w1) \<and> (w' = w1 \<or> (\<exists>k w2. sc_ids c w1 = (k, w2) \<and> (w' = w2
    \<or> (\<exists>job_id payload event u w3. sc_create c (pending_job job_id type_schema_scan payload (sc_now c w2)) event
         maximum_pending_schema_scans w2 = (u, w3) \<and> (w' = w3 \<or> w' = sc_signal c w3))))))"
proof -
  obtain i w1 where i: "sc_ids c w = (i, w1)" by (cases "sc_ids c w")
  obtain k w2 where k: "sc_ids c w1 = (k, w2)" by (cases "sc_ids c w1")
  consider "w' = w" | "w' = w1" | "w' = w2"
    | job_id payload event u w3 where "sc_create c (pending_job job_id type_schema_scan payload (sc_now c w2)) event
        maximum_pending_schema_scans w2 = (u, w3)" "w' = w3 \<or> w' = sc_signal c w3"
    using assms i k
    by (auto simp: start_scan_def act_bind_def act_pure_def Let_def split: sum.splits prod.splits if_splits)
  then show ?thesis using i k by cases blast+
qed

lemma start_scan_later:
  assumes c: "c = sqlite_coordinator je env" and "start_scan c cmd w = (res, w')"
  shows "jobs_later (fst w) (fst w')"
  using start_scan_steps [OF assms(2)]
proof (elim disjE exE conjE)
  fix i w1
  assume i: "sc_ids c w = (i, w1)"
  have w1: "jobs_later (fst w) (fst w1)" by (rule coordinator_later(5) [OF c i])
  then show ?thesis if "w' = w1" using that by simp
  fix k w2
  assume k: "sc_ids c w1 = (k, w2)"
  have w2: "jobs_later (fst w) (fst w2)" by (rule jobs_later_trans [OF coordinator_later(5) [OF c k] w1])
  then show ?thesis if "w' = w2" using that by simp
  fix job_id payload event u w3
  assume u: "sc_create c (pending_job job_id type_schema_scan payload (sc_now c w2)) event
    maximum_pending_schema_scans w2 = (u, w3)"
  have "jobs_later (fst w) (fst w3)" by (rule jobs_later_trans [OF coordinator_later(4) [OF c u] w2])
  note w3 = this coordinator_later(9) [OF c, of w3]
  show ?thesis if "w' = w3" using that w3 by simp
  show ?thesis if "w' = sc_signal c w3" using that w3 by simp
qed (simp add: jobs_now)

text \<open>A scan that was started.\<close>

lemma start_scan_Inr:
  assumes "start_scan c cmd w = (Inr job, w')"
  obtains mode tables job_id audit_id w1 w2 w3 u where
    "normalize_schema_scan_scope (ss_mode cmd) (ss_tables cmd) = Inr (mode, tables)"
    "validate_start_schema_scan (cmd\<lparr>ss_mode := mode, ss_tables := tables\<rparr>) = Inr ()"
    "sc_source_kind c (ss_data_source cmd) w = Inr data_source_mysql"
    "sc_ids c w = (Inr job_id, w1)" "sc_ids c w1 = (Inr audit_id, w2)"
    "job = pending_job job_id type_schema_scan
       (encode_schema_scan_payload (ss_data_source cmd) mode tables) (sc_now c w2)"
    "sc_create c job (queued_event audit_id (cmd\<lparr>ss_mode := mode, ss_tables := tables\<rparr>) job_id
       (jb_payload job) (sc_now c w2)) maximum_pending_schema_scans w2 = (Inr u, w3)"
    "w' = sc_signal c w3"
  using assms
  by (auto simp: start_scan_def act_bind_def act_pure_def Let_def fail_if_def pending_job_def
      split: sum.splits prod.splits if_splits)

end
