(* ===== verification/JobProperties.thy ===== *)
theory JobProperties
  imports JobProtocol
begin

section \<open>Properties of schema scan jobs\<close>

text \<open>
  The properties hold for every table that calls of the protocol reach, which
  \<open>coordinator_keeps_protocol\<close> shows of whatever the coordinator does; the contract of
  \<open>JobWorker\<close> is used through its interpretations on the SQLite store.
\<close>

subsection \<open>The table\<close>

text \<open>
  C9. The table of jobs: ids are unique, at most 100 jobs wait or run, and each row has the
  shape of its status: only a job that was claimed has a start time, only an ended one a
  completion time, a result or an error, and the revision is even exactly while it runs.
\<close>

theorem job_table_invariant:
  assumes "jobs_reachable d"
  shows "distinct (map jb_id (jobs_t d)) \<and> (\<forall>j\<in>set (jobs_t d). row_shape j)
    \<and> length (filter (\<lambda>j. \<not> ended (jb_status j)) (jobs_t d)) \<le> 100"
  using reachable_jobs_inv [OF assms] by (simp add: jobs_inv_def)

text \<open>
  C10. A scan ends once: when a completion was accepted, the row keeps its final state whatever
  follows, no other completion of the job is accepted and no claim returns it again.
\<close>

theorem scan_finished_once:
  assumes "jobs_reachable d" "ended (cp_status cp)"
    and "perform_job je (CallFinish cp) d = (Inr (Some j), d1)" "jobs_later d1 d2"
  shows "j \<in> set (jobs_t d2) \<and> jb_id j = cp_job cp \<and> jb_status j = cp_status cp
    \<and> (\<forall>je' cp'. cp_job cp' = cp_job cp
         \<longrightarrow> (\<exists>err. perform_job je' (CallFinish cp') d2 = (Inl err, d2)))
    \<and> (\<forall>je' t k d3. perform_job je' (CallClaim t) d2 = (Inr (Some k), d3) \<longrightarrow> jb_id k \<noteq> cp_job cp)"
proof -
  have inv: "jobs_inv (jobs_t d)" by (rule reachable_jobs_inv [OF assms(1)])
  then have ids: "distinct (map jb_id (jobs_t d))" by (simp add: jobs_inv_def)
  obtain k where k: "completes cp k" "j = finished_job cp k" "j \<in> set (jobs_t d1)"
    by (rule finish_rows [OF assms(3) ids])
  have "coordinator_call (CallFinish cp)" using assms(2) by simp
  then have inv1: "jobs_inv (jobs_t d1)"
    using row_step_inv [OF perform_job_rows [OF assms(3)] inv] by blast
  obtain i where i: "i \<in> set (jobs_t d2)" "row_evolves j i"
    using jobs_later_evolves [OF assms(4) inv1 k(3)] by blast
  have j: "jb_status j = cp_status cp" "jb_id j = cp_job cp"
    using k(1,2) by (simp_all add: finished_job_def completes_def)
  then have j2: "j \<in> set (jobs_t d2)" using i assms(2) by (auto simp: row_evolves_def)
  have ids2: "distinct (map jb_id (jobs_t d2))"
    using jobs_later_inv [OF assms(4) inv1] by (simp add: jobs_inv_def)
  have "\<exists>err. perform_job je' (CallFinish cp') d2 = (Inl err, d2)" if "cp_job cp' = cp_job cp" for je' cp'
  proof -
    have "\<not> completes cp' x" if "x \<in> set (jobs_t d2)" for x
      using unique_by_id [OF ids2 that j2] j assms(2) \<open>cp_job cp' = cp_job cp\<close> by (auto simp: completes_def)
    then have "find (completes cp') (jobs_t d2) = None" by (auto simp: find_None_iff)
    then show ?thesis by (simp add: with_row_def finish_schema_scan_def job_write_def)
  qed
  moreover have "jb_id x \<noteq> cp_job cp" if "perform_job je' (CallClaim t) d2 = (Inr (Some x), d3)" for je' t x d3
  proof -
    note run = that
    obtain y where y: "y \<in> set (jobs_t d2)" "jb_status y = JobPending" "x = claimed_job t y"
      by (rule claim_rows [OF run ids2])
    then show ?thesis
      using unique_by_id [OF ids2 y(1) j2] j assms(2) by (auto simp: claimed_job_def)
  qed
  ultimately show ?thesis using j2 j by blast
qed

text \<open>
  C8. A stale worker is fenced off: the completion a worker sends for its claim is accepted only
  while the row is still the one it claimed, and then it is that row that is completed; when
  the job is claimed again, after a restart, the claim has a later revision and the first
  worker's row is gone.
\<close>

theorem stale_workers_fenced:
  assumes "jobs_reachable d" "perform_job je (CallClaim t) d = (Inr (Some j), d1)" "jobs_later d1 d2"
  shows "(\<forall>je' cp k d3. cp_job cp = jb_id j \<and> cp_expected cp = jb_revision j
           \<and> perform_job je' (CallFinish cp) d2 = (Inr (Some k), d3)
           \<longrightarrow> j \<in> set (jobs_t d2) \<and> k = finished_job cp j)
    \<and> (\<forall>je' s k d3. perform_job je' (CallClaim s) d2 = (Inr (Some k), d3) \<and> jb_id k = jb_id j
           \<longrightarrow> jb_revision j < jb_revision k \<and> j \<notin> set (jobs_t d2))"
proof -
  have inv: "jobs_inv (jobs_t d)" by (rule reachable_jobs_inv [OF assms(1)])
  then have ids: "distinct (map jb_id (jobs_t d))" by (simp add: jobs_inv_def)
  obtain i where i: "j = claimed_job t i" "j \<in> set (jobs_t d1)" by (rule claim_rows [OF assms(2) ids])
  have inv1: "jobs_inv (jobs_t d1)"
    using row_step_inv [OF perform_job_rows [OF assms(2)] inv] by simp
  obtain x where x: "x \<in> set (jobs_t d2)" "row_evolves j x"
    using jobs_later_evolves [OF assms(3) inv1 i(2)] by blast
  have ids2: "distinct (map jb_id (jobs_t d2))"
    using jobs_later_inv [OF assms(3) inv1] by (simp add: jobs_inv_def)
  have running: "jb_status j = JobRunning" using i(1) by (simp add: claimed_job_def)
  show ?thesis
  proof (intro conjI allI impI; elim conjE)
    fix je' cp k d3
    assume "cp_job cp = jb_id j" "cp_expected cp = jb_revision j"
      "perform_job je' (CallFinish cp) d2 = (Inr (Some k), d3)"
    moreover from this(3) obtain y where "y \<in> set (jobs_t d2)" "completes cp y" "k = finished_job cp y"
      by (rule finish_rows [OF _ ids2])
    ultimately show "j \<in> set (jobs_t d2)" "k = finished_job cp j"
      using unique_by_id [OF ids2 x(1), of y] x by (auto simp: completes_def row_evolves_def)
  next
    fix je' s k d3
    assume "perform_job je' (CallClaim s) d2 = (Inr (Some k), d3)" "jb_id k = jb_id j"
    moreover from this(1) obtain y where "y \<in> set (jobs_t d2)" "jb_status y = JobPending" "k = claimed_job s y"
      by (rule claim_rows [OF _ ids2])
    ultimately have "y = x" "jb_status x = JobPending" "k = claimed_job s x"
      using unique_by_id [OF ids2 x(1), of y] x by (auto simp: claimed_job_def row_evolves_def)
    then show "jb_revision j < jb_revision k" "j \<notin> set (jobs_t d2)"
      using x running unique_by_id [OF ids2 x(1), of j] by (auto simp: claimed_job_def row_evolves_def)
  qed
qed

subsection \<open>The coordinator\<close>

text \<open>
  Whatever the coordinator does, starting a scan, processing one, or running until it
  ends, with every answer the write queue may give and with other goroutines queueing scans
  meanwhile, changes the tables by a sequence of calls of the protocol.
\<close>

theorem coordinator_keeps_protocol:
  assumes "c = sqlite_coordinator je env"
  shows "(\<forall>cmd res d' r'. start_scan c cmd (d, r) = (res, (d', r')) \<longrightarrow> jobs_later d d')
    \<and> (\<forall>res d' r'. process_next c (d, r) = Some (res, (d', r')) \<longrightarrow> jobs_later d d')
    \<and> (\<forall>res d' r'. run_coordinator c (d, r) = Some (res, (d', r')) \<longrightarrow> jobs_later d d')"
  using start_scan_later [OF assms, of _ "(d, r)"] process_next_later [OF assms, of "(d, r)"]
    run_coordinator_later [OF assms, of "(d, r)"] by auto

text \<open>
  C38. Starting a scan takes an administrator and a MySQL source; it adds one pending job and
  one audit event with that job's id, the trimmed actor and the payload, and the payload
  decodes to the normalised scope of the command when its table names are valid UTF-8.
\<close>

theorem started_scan_queued:
  assumes "start_scan (sqlite_coordinator je env) cmd (d, r) = (Inr job, (d', r'))"
  shows "pr_role (ss_principal cmd) = RoleAdmin
    \<and> se_source_kind env (ss_data_source cmd) r = Inr data_source_mysql
    \<and> (\<exists>js. joined (jobs_t d) js \<and> jobs_t d' = js @ [job]) \<and> jb_status job = JobPending
    \<and> (\<exists>e es. scan_audit_t d' = es @ [e] \<and> ae_subject e = jb_id job
         \<and> ae_actor e = trim_space (pr_actor (ss_principal cmd)) \<and> ae_details e = jb_payload job)
    \<and> (\<exists>mode tables. normalize_schema_scan_scope (ss_mode cmd) (ss_tables cmd) = Inr (mode, tables)
         \<and> (ss_data_source cmd < 2 ^ 63 \<and> (\<forall>t\<in>set tables. valid_utf8 t) \<longrightarrow>
              decode_schema_scan_payload (jb_payload job) = Inr (ss_data_source cmd, mode, tables)))"
proof -
  let ?c = "sqlite_coordinator je env"
  obtain mode tables job_id audit_id w1 w2 w3 u where
    scope: "normalize_schema_scan_scope (ss_mode cmd) (ss_tables cmd) = Inr (mode, tables)"
    and valid: "validate_start_schema_scan (cmd\<lparr>ss_mode := mode, ss_tables := tables\<rparr>) = Inr ()"
    and source: "sc_source_kind ?c (ss_data_source cmd) (d, r) = Inr data_source_mysql"
    and ids: "sc_ids ?c (d, r) = (Inr job_id, w1)" "sc_ids ?c w1 = (Inr audit_id, w2)"
    and job: "job = pending_job job_id type_schema_scan
       (encode_schema_scan_payload (ss_data_source cmd) mode tables) (sc_now ?c w2)"
    and create: "sc_create ?c job (queued_event audit_id (cmd\<lparr>ss_mode := mode, ss_tables := tables\<rparr>) job_id
       (jb_payload job) (sc_now ?c w2)) maximum_pending_schema_scans w2 = (Inr u, w3)"
    and w': "(d', r') = sc_signal ?c w3"
    by (rule start_scan_Inr [OF assms])
  have d': "d' = fst w3" using coordinator_later(9) [OF refl, of je env w3] w' by (metis fst_conv)
  have "joined (jobs_t d) (jobs_t (fst w1))" "joined (jobs_t (fst w1)) (jobs_t (fst w2))"
    using ids by (auto simp: sqlite_coordinator_def dest: joined_elsewhere)
  then have join: "joined (jobs_t d) (jobs_t (fst w2))" by (rule joined_trans)
  have "create_schema_scan_job je job (queued_event audit_id (cmd\<lparr>ss_mode := mode, ss_tables := tables\<rparr>) job_id
      (jb_payload job) (sc_now ?c w2)) maximum_pending_schema_scans (fst w2) = (Inr u, fst w3)"
    using create by (cases w2; cases w3) (auto simp: sqlite_coordinator_def dest: queued_write_Inr)
  from create_result [OF this]
  have "jobs_t d' = jobs_t (fst w2) @ [job]" and audit: "scan_audit_t d' = scan_audit_t (fst w2)
      @ [queued_event audit_id (cmd\<lparr>ss_mode := mode, ss_tables := tables\<rparr>) job_id (jb_payload job) (sc_now ?c w2)]"
    using job d' by (simp_all add: pending_job_def)
  moreover have "se_source_kind env (ss_data_source cmd) r = Inr data_source_mysql"
    using source by (simp add: sqlite_coordinator_def)
  moreover have "pr_role (ss_principal cmd) = RoleAdmin" "0 < ss_data_source cmd"
    using valid by (auto simp: validate_start_schema_scan_def result_simps Let_def)
  moreover have "jb_id job = job_id" "jb_status job = JobPending"
    "jb_payload job = encode_schema_scan_payload (ss_data_source cmd) mode tables"
    using job by (simp_all add: pending_job_def)
  ultimately show ?thesis
    using join scope decode_encoded_payload [OF scope] by (auto simp: queued_event_def)
qed

text \<open>
  C37. A worker's round records what the scan did: when it processed a job, that was the first
  pending one by creation time and id, its row has the outcome of its payload and of the
  runner, and no other row changed but for scans that others queued meanwhile.
\<close>

theorem claimed_scan_recorded:
  assumes "jobs_reachable d" "c = sqlite_coordinator je env"
    and "process_next c (d, r) = Some (Inr True, (d', r'))"
  shows "\<exists>k t w1 cp. first_pending k (jobs_t d) \<and> sc_claim c t (d, r) = (Inr (claimed_job t k), w1)
    \<and> scan_outcome c (jb_payload k) w1 (cp_status cp) (cp_result cp) (cp_error_code cp)
    \<and> ended (cp_status cp)
    \<and> joined (replace_job (finished_job cp (claimed_job t k)) (jobs_t d)) (jobs_t d')"
proof -
  have "distinct (map jb_id (jobs_t (fst (d, r))))"
    using reachable_jobs_inv [OF assms(1)] by (simp add: jobs_inv_def)
  note ids = this
  show ?thesis unfolding assms(2)
  proof (rule sqlite_scans.process_next_rows [OF assms(3) [unfolded assms(2)] ids])
    fix k t w1 cp
    assume "first_pending k (jobs_t (fst (d, r)))"
      "sc_claim (sqlite_coordinator je env) t (d, r) = (Inr (claimed_job t k), w1)"
      and outcome: "scan_outcome (sqlite_coordinator je env) (jb_payload k) w1 (cp_status cp) (cp_result cp)
        (cp_error_code cp)"
      and "joined (replace_job (finished_job cp (claimed_job t k)) (jobs_t (fst (d, r)))) (jobs_t (fst (d', r')))"
    then show "\<exists>k t w1 cp. first_pending k (jobs_t d)
      \<and> sc_claim (sqlite_coordinator je env) t (d, r) = (Inr (claimed_job t k), w1)
      \<and> scan_outcome (sqlite_coordinator je env) (jb_payload k) w1 (cp_status cp) (cp_result cp) (cp_error_code cp)
      \<and> ended (cp_status cp)
      \<and> joined (replace_job (finished_job cp (claimed_job t k)) (jobs_t d)) (jobs_t d')"
      using scan_outcome_ended [OF outcome] by (intro exI [of _ k] exI [of _ t] exI [of _ w1] exI [of _ cp]) simp
  qed
qed

text \<open>
  C19. After a restart every scan ends, one in each round: on a store that carries out its writes,
  and while no other goroutine queues a scan, recovering returns, and then exactly as many rounds
  as the table has jobs that have not ended each process one job, leave every job of the table
  ended and no job added or lost, and the next look at the queue finds it empty. The runner may
  succeed or fail in each round.
\<close>

theorem restart_ends_every_scan:
  assumes "jobs_reachable d" "c = sqlite_coordinator (\<lambda>_. True) env"
    and "\<And>r. fst (se_turn env r) = WriteAccepted" "\<And>r. se_meanwhile env r = []"
  shows "\<exists>w1 w2 w3. recover_running c 0 (d, r) = Some (None, w1)
    \<and> drain (length (filter (\<lambda>j. jb_status j = JobPending \<or> jb_status j = JobRunning) (jobs_t d))) c w1 = Some w2
    \<and> map jb_id (jobs_t (fst w2)) = map jb_id (jobs_t d)
    \<and> (\<forall>j\<in>set (jobs_t (fst w2)). ended (jb_status j))
    \<and> process_next c w2 = Some (Inr False, w3)"
proof -
  have "jobs_inv (jobs_t d)" by (rule reachable_jobs_inv [OF assms(1)])
  then have "distinct (map jb_id (jobs_t (fst (d, r))))"
    "\<forall>j\<in>set (jobs_t (fst (d, r))). jb_type j = type_schema_scan"
    by (auto simp: jobs_inv_def row_shape_def)
  note drained = reliable_scans.restart_drains [OF this, of env]
  have open_jobs: "(\<not> ended st) = (st = JobPending \<or> st = JobRunning)" for st by (cases st) simp_all
  show ?thesis
    using drained unfolding assms(2) fst_conv reliable_environment_id [OF assms(3,4)] open_jobs by blast
qed

subsection \<open>A sample run\<close>

text \<open>
  An administrator starts an incremental scan of one table; the process draws ids from a
  counter and its runner publishes at once.
\<close>

definition sample_environment :: "nat scan_environment" where
  "sample_environment =
     \<lparr>se_turn = (\<lambda>r. (WriteAccepted, r)), se_source_kind = (\<lambda>_ _. Inr data_source_mysql),
      se_ids = (\<lambda>r. (Inr (int r + 1), Suc r)),
      se_run = (\<lambda>_ r. (Inr \<lparr>ps_scan_run = 9, ps_nodes = 1, ps_stale = 0, ps_published_at = 0\<rparr>, r)),
      se_run_incremental = None, se_now = (\<lambda>_. 0), se_signal = (\<lambda>r. r), se_err = (\<lambda>_. None),
      se_wait = (\<lambda>_ r. (None, r)), se_cleanup_err = (\<lambda>_. None), se_cleanup_wait = (\<lambda>_ r. (None, r)),
      se_idle = (\<lambda>r. (False, r)), se_meanwhile = (\<lambda>_. [])\<rparr>"

definition sample_start_scan :: start_schema_scan where
  "sample_start_scan =
     \<lparr>ss_data_source = 1, ss_mode = ScanIncremental, ss_tables = ['' a.b ''],
      ss_principal = \<lparr>pr_actor = ''a'', pr_role = RoleAdmin, pr_origin = OriginWeb\<rparr>,
      ss_reason = ''r'', ss_request_id = ''q''\<rparr>"

definition no_jobs :: job_db where
  "no_jobs = \<lparr>jobs_t = [], scan_runs_t = [], scan_audit_t = []\<rparr>"

definition sample_queue :: job_db where
  "sample_queue = fst (snd (start_scan (sqlite_coordinator (\<lambda>_. True) sample_environment) sample_start_scan
     (no_jobs, 0)))"

lemma sample_started:
  obtains job r where
    "start_scan (sqlite_coordinator (\<lambda>_. True) sample_environment) sample_start_scan (no_jobs, 0)
       = (Inr job, (sample_queue, r))"
proof -
  have "case fst (start_scan (sqlite_coordinator (\<lambda>_. True) sample_environment) sample_start_scan
      (no_jobs, 0)) of Inl _ \<Rightarrow> False | Inr _ \<Rightarrow> True"
    by code_simp
  then show thesis
    using that unfolding sample_queue_def by (auto split: sum.splits) (metis prod.collapse)
qed

lemma sample_queue_reachable: "jobs_reachable sample_queue"
proof -
  obtain job r where "start_scan (sqlite_coordinator (\<lambda>_. True) sample_environment) sample_start_scan
      (no_jobs, 0) = (Inr job, (sample_queue, r))" by (rule sample_started)
  from start_scan_later [OF refl this] have "jobs_later no_jobs sample_queue" by simp
  moreover have "jobs_t no_jobs = []" by (simp add: no_jobs_def)
  ultimately show ?thesis unfolding jobs_reachable_def by blast
qed

lemma job_table_invariant_witness: "length (filter (\<lambda>j. \<not> ended (jb_status j)) (jobs_t sample_queue)) \<le> 100"
  using job_table_invariant [OF sample_queue_reachable] by blast

lemma started_scan_queued_witness:
  "\<exists>job r. start_scan (sqlite_coordinator (\<lambda>_. True) sample_environment) sample_start_scan (no_jobs, 0)
     = (Inr job, (sample_queue, r)) \<and> jobs_t sample_queue = [job]"
proof -
  obtain job r where run: "start_scan (sqlite_coordinator (\<lambda>_. True) sample_environment) sample_start_scan
      (no_jobs, 0) = (Inr job, (sample_queue, r))" by (rule sample_started)
  have "length (jobs_t sample_queue) = 1" by code_simp
  with started_scan_queued [OF run] run show ?thesis by auto
qed

subsection \<open>The sample scan, claimed and finished\<close>

definition sample_completion :: completion where
  "sample_completion =
     \<lparr>cp_job = 1, cp_expected = 2, cp_status = JobSucceeded, cp_result = ''{}'', cp_error_code = [],
      cp_error_message = [], cp_completed_at = 9\<rparr>"

definition sample_running :: job_db where
  "sample_running = snd (perform_job (\<lambda>_. True) (CallClaim 5) sample_queue)"

definition sample_finished :: job_db where
  "sample_finished = snd (perform_job (\<lambda>_. True) (CallFinish sample_completion) sample_running)"

definition sample_job :: job where
  "sample_job = pending_job 1 type_schema_scan (encode_schema_scan_payload 1 ScanIncremental [''a.b'']) 0"

lemma sample_queue_rows: "jobs_t sample_queue = [sample_job]"
  by code_simp

lemma sample_claim:
  "perform_job (\<lambda>_. True) (CallClaim 5) sample_queue = (Inr (Some (claimed_job 5 sample_job)), sample_running)"
  "jobs_t sample_running = [claimed_job 5 sample_job]"
  by (simp_all add: sample_running_def with_row_def claim_next_schema_scan_def job_write_def pending_scans_def
      sample_queue_rows sample_job_def pending_job_def replace_job_def claimed_job_def Let_def)

lemma sample_finish:
  "perform_job (\<lambda>_. True) (CallFinish sample_completion) sample_running
     = (Inr (Some (finished_job sample_completion (claimed_job 5 sample_job))), sample_finished)"
  by (simp add: sample_finished_def with_row_def finish_schema_scan_def job_write_def sample_claim(2)
      completes_def sample_completion_def sample_job_def pending_job_def claimed_job_def Let_def)

lemma sample_running_reachable: "jobs_reachable sample_running"
proof -
  have "coordinator_call (CallClaim 5)" by simp
  then show ?thesis using sample_queue_reachable jobs_call sample_claim(1) unfolding jobs_reachable_def by blast
qed

lemma scan_finished_once_witness:
  "finished_job sample_completion (claimed_job 5 sample_job) \<in> set (jobs_t sample_finished)
     \<and> (\<exists>err. perform_job (\<lambda>_. True) (CallFinish sample_completion) sample_finished = (Inl err, sample_finished))"
proof -
  have "ended (cp_status sample_completion)" by (simp add: sample_completion_def)
  from scan_finished_once [OF sample_running_reachable this sample_finish jobs_now] show ?thesis by blast
qed

lemma stale_workers_fenced_witness: "claimed_job 5 sample_job \<in> set (jobs_t sample_running)"
proof -
  have "cp_job sample_completion = jb_id (claimed_job 5 sample_job)"
    "cp_expected sample_completion = jb_revision (claimed_job 5 sample_job)"
    by (simp_all add: sample_completion_def sample_job_def pending_job_def claimed_job_def)
  with stale_workers_fenced [OF sample_queue_reachable sample_claim(1) jobs_now] sample_finish
  show ?thesis by blast
qed

lemma coordinator_keeps_protocol_witness: "jobs_later no_jobs sample_queue"
proof -
  obtain job r where "start_scan (sqlite_coordinator (\<lambda>_. True) sample_environment) sample_start_scan
      (no_jobs, 0) = (Inr job, (sample_queue, r))" by (rule sample_started)
  with coordinator_keeps_protocol [OF refl, of "\<lambda>_. True" sample_environment no_jobs 0] show ?thesis by blast
qed

lemma sample_payload: "decode_schema_scan_payload (jb_payload sample_job) = Inr (1, ScanIncremental, [''a.b''])"
  by code_simp

lemma sample_claimed_job:
  "jb_id (claimed_job t sample_job) = 1" "jb_status (claimed_job t sample_job) = JobRunning"
  "jb_revision (claimed_job t sample_job) = 2" "jb_payload (claimed_job t sample_job) = jb_payload sample_job"
  "jb_type sample_job = type_schema_scan" "jb_status sample_job = JobPending" "jb_id sample_job = 1"
  by (simp_all add: claimed_job_def sample_job_def pending_job_def)

lemma sample_process:
  "\<exists>w. process_next (sqlite_coordinator (\<lambda>_. True) sample_environment) (sample_queue, 2) = Some (Inr True, w)"
proof -
  let ?c = "sqlite_coordinator (\<lambda>_. True) sample_environment"
  let ?d = "sample_queue\<lparr>jobs_t := [claimed_job 0 sample_job]\<rparr>"
  have "claim_next_schema_scan (\<lambda>_. True) 0 sample_queue = (Inr (claimed_job 0 sample_job), ?d)"
    by (simp add: claim_next_schema_scan_def job_write_def pending_scans_def sample_queue_rows replace_job_def
        sample_claimed_job Let_def)
  then have claim: "sc_claim ?c (sc_now ?c (sample_queue, 2)) (sample_queue, 2)
      = (Inr (claimed_job 0 sample_job), (?d, 2))"
    by (simp add: sqlite_coordinator_def sample_environment_def queued_write_def)
  have "completes cp (claimed_job 0 sample_job)" if "cp_job cp = 1" "cp_expected cp = 2" for cp
    using that by (simp add: completes_def sample_claimed_job)
  then have finish: "\<exists>j w. sc_finish ?c cp (?d, 2) = (Inr j, w)" if "cp_job cp = 1" "cp_expected cp = 2" for cp
    using that
    by (simp add: sqlite_coordinator_def sample_environment_def queued_write_def finish_schema_scan_def
        job_write_def Let_def)
  have "\<exists>w. finish_failure ?c cx (claimed_job 0 sample_job) JobFailed code (?d, 2) = Some (Inr (), w)"
    for cx code
  proof -
    let ?cp = "\<lparr>cp_job = 1, cp_expected = 2, cp_status = JobFailed, cp_result = [], cp_error_code = code,
      cp_error_message = ''schema scan did not complete'', cp_completed_at = sc_now ?c (?d, 2)\<rparr>"
    obtain j w where "sc_finish ?c ?cp (?d, 2) = (Inr j, w)" using finish [of ?cp] by auto
    then show ?thesis
      by (simp add: finish_failure_def sample_claimed_job finish_with_retry.simps)
  qed
  moreover have "sc_run_incremental ?c = None" by (simp add: sqlite_coordinator_def sample_environment_def)
  ultimately have "\<exists>w. run_claimed ?c (claimed_job 0 sample_job) (?d, 2) = Some (Inr (), w)"
    by (simp add: run_claimed_def sample_claimed_job sample_payload)
  then show ?thesis by (auto simp: process_next_def claim)
qed

lemma claimed_scan_recorded_witness:
  "\<exists>w cp. process_next (sqlite_coordinator (\<lambda>_. True) sample_environment) (sample_queue, 2) = Some (Inr True, w)
     \<and> ended (cp_status cp) \<and> (\<exists>t. joined [finished_job cp (claimed_job t sample_job)] (jobs_t (fst w)))"
proof -
  obtain d r where run: "process_next (sqlite_coordinator (\<lambda>_. True) sample_environment) (sample_queue, 2)
    = Some (Inr True, (d, r))" using sample_process by force
  obtain k t cp where "first_pending k (jobs_t sample_queue)" "ended (cp_status cp)"
    "joined (replace_job (finished_job cp (claimed_job t k)) (jobs_t sample_queue)) (jobs_t d)"
    using claimed_scan_recorded [OF sample_queue_reachable refl run] by blast
  moreover from this(1) have "k = sample_job" by (simp add: first_pending_def sample_queue_rows)
  ultimately have "joined [finished_job cp (claimed_job t sample_job)] (jobs_t d)"
    by (simp add: sample_queue_rows replace_job_def finished_job_def sample_claimed_job)
  with run \<open>ended (cp_status cp)\<close> show ?thesis by (metis fst_conv)
qed

lemma restart_ends_every_scan_witness:
  "\<exists>w :: job_db \<times> nat. (\<forall>j\<in>set (jobs_t (fst w)). ended (jb_status j)) \<and> map jb_id (jobs_t (fst w)) = [1]"
proof -
  have "map jb_id (jobs_t sample_running) = [1]" by (simp add: sample_claim(2) sample_claimed_job)
  moreover have "fst (se_turn sample_environment r) = WriteAccepted" "se_meanwhile sample_environment r = []" for r
    by (simp_all add: sample_environment_def)
  ultimately show ?thesis
    using restart_ends_every_scan [OF sample_running_reachable refl, of sample_environment 0] by auto
qed

end
