(* ===== verification/WriteQueue.thy ===== *)
theory WriteQueue
  imports Prelude
begin

section \<open>The write queue\<close>

text \<open>
  \<^verbatim>\<open>internal/platform/sqlite/write_queue.go\<close>: every write of the process goes through one
  worker. A state holds the channels, the mutex, the phase of the worker and of each call of
  \<^verbatim>\<open>write\<close>; a step is one action of one goroutine, and the scheduler's choices, which calls
  run, which contexts are done and what the database answers, are the list of events. A step
  that would block is \<open>None\<close>.
\<close>

subsection \<open>State\<close>

datatype 'e write_error =
    StoreClosed | WriteQueueIsFull | WriteArgumentMissing | WriteContextDone
  | WriteBeginFailed | WriteCommitFailed | WriteOperationFailed 'e

type_synonym ('d, 'e) write_operation = "'d \<Rightarrow> 'e + 'd"
type_synonym ('d, 'e) write_request = "nat \<times> ('d, 'e) write_operation"

text \<open>\<open>None\<close> is Go's nil error.\<close>

type_synonym 'e write_answer = "'e write_error option"

datatype ('d, 'e) call_phase =
    CallNotStarted | CallLocked "('d, 'e) write_operation" | CallSending "('d, 'e) write_operation"
  | CallAwaiting | CallReturned "'e write_answer"

datatype ('d, 'e) worker_phase =
    WorkerSelecting | WorkerExecuting "('d, 'e) write_request" | WorkerReleasing
  | WorkerDraining | WorkerRejected | WorkerStopped

datatype close_phase = CloseNotCalled | CloseWaiting | CloseDone

record ('d, 'e) store_queue =
  qs_maximum :: nat
  qs_closed :: bool
  qs_mutex :: "nat option"
  qs_slots :: nat
  qs_queue :: "('d, 'e) write_request list"
  qs_results :: "nat \<Rightarrow> 'e write_answer option"
  qs_calls :: "nat \<Rightarrow> ('d, 'e) call_phase"
  qs_cancelled :: "nat set"
  qs_worker :: "('d, 'e) worker_phase"
  qs_close :: close_phase
  qs_db :: 'd

definition start_write_worker :: "nat \<Rightarrow> 'd \<Rightarrow> ('d, 'e) store_queue" where
  "start_write_worker capacity d =
     \<lparr>qs_maximum = capacity + 1, qs_closed = False, qs_mutex = None, qs_slots = 0, qs_queue = [],
      qs_results = (\<lambda>_. None), qs_calls = (\<lambda>_. CallNotStarted), qs_cancelled = {},
      qs_worker = WorkerSelecting, qs_close = CloseNotCalled, qs_db = d\<rparr>"

subsection \<open>A transaction\<close>

text \<open>What the database does: it refuses to begin or to commit, or it commits.\<close>

datatype tx_outcome = TxBeginFails | TxCommitFails | TxCommits

definition execute_write ::
  "tx_outcome \<Rightarrow> bool \<Rightarrow> ('d, 'e) write_operation \<Rightarrow> 'd \<Rightarrow> 'e write_answer \<times> 'd" where
  "execute_write outcome cancelled operation d =
     (if cancelled then (Some WriteContextDone, d)
      else if outcome = TxBeginFails then (Some WriteBeginFailed, d)
      else
        (case operation d of
           Inl e \<Rightarrow> (Some (WriteOperationFailed e), d)
         | Inr d' \<Rightarrow> if outcome = TxCommitFails then (Some WriteCommitFailed, d) else (None, d')))"

subsection \<open>Steps\<close>

datatype ('d, 'e) queue_event =
    EvCall nat "('d, 'e) write_operation option" | EvEnter nat | EvSend nat | EvReceive nat
  | EvAbandon nat | EvCancel nat
  | EvTake | EvExecute tx_outcome | EvRelease | EvStopSeen | EvReject | EvRejectRelease | EvDrained
  | EvClose | EvCloseReturn

definition set_call :: "nat \<Rightarrow> ('d, 'e) call_phase \<Rightarrow> ('d, 'e) store_queue \<Rightarrow> ('d, 'e) store_queue" where
  "set_call c phase s = s\<lparr>qs_calls := (qs_calls s)(c := phase)\<rparr>"

text \<open>A call of \<^verbatim>\<open>write\<close>: it takes the mutex, a slot, and its place in the queue.\<close>

definition call_step :: "nat \<Rightarrow> ('d, 'e) write_operation option \<Rightarrow> ('d, 'e) store_queue \<Rightarrow> ('d, 'e) store_queue option" where
  "call_step c operation s =
     (case qs_calls s c of
        CallNotStarted \<Rightarrow>
          (case operation of
             None \<Rightarrow> Some (set_call c (CallReturned (Some WriteArgumentMissing)) s)
           | Some f \<Rightarrow>
               if qs_mutex s = None then Some (set_call c (CallLocked f) (s\<lparr>qs_mutex := Some c\<rparr>)) else None)
      | _ \<Rightarrow> None)"

definition enter_step :: "nat \<Rightarrow> ('d, 'e) store_queue \<Rightarrow> ('d, 'e) store_queue option" where
  "enter_step c s =
     (case qs_calls s c of
        CallLocked f \<Rightarrow>
          Some
            (if qs_closed s
             then set_call c (CallReturned (Some StoreClosed)) (s\<lparr>qs_mutex := None\<rparr>)
             else if qs_slots s < qs_maximum s
             then set_call c (CallSending f) (s\<lparr>qs_slots := qs_slots s + 1\<rparr>)
             else set_call c (CallReturned (Some WriteQueueIsFull)) (s\<lparr>qs_mutex := None\<rparr>))
      | _ \<Rightarrow> None)"

definition send_step :: "nat \<Rightarrow> ('d, 'e) store_queue \<Rightarrow> ('d, 'e) store_queue option" where
  "send_step c s =
     (case qs_calls s c of
        CallSending f \<Rightarrow>
          if length (qs_queue s) < qs_maximum s
          then Some (set_call c CallAwaiting (s\<lparr>qs_queue := qs_queue s @ [(c, f)], qs_mutex := None\<rparr>))
          else None
      | _ \<Rightarrow> None)"

definition receive_step :: "nat \<Rightarrow> ('d, 'e) store_queue \<Rightarrow> ('d, 'e) store_queue option" where
  "receive_step c s =
     (case (qs_calls s c, qs_results s c) of
        (CallAwaiting, Some answer) \<Rightarrow>
          Some (set_call c (CallReturned answer) (s\<lparr>qs_results := (qs_results s)(c := None)\<rparr>))
      | _ \<Rightarrow> None)"

definition abandon_step :: "nat \<Rightarrow> ('d, 'e) store_queue \<Rightarrow> ('d, 'e) store_queue option" where
  "abandon_step c s =
     (case qs_calls s c of
        CallAwaiting \<Rightarrow>
          if c \<in> qs_cancelled s then Some (set_call c (CallReturned (Some WriteContextDone)) s) else None
      | _ \<Rightarrow> None)"

text \<open>The worker: the channel of an answer holds one, so a second send to it would block.\<close>

definition answer_call ::
  "nat \<Rightarrow> 'e write_answer \<Rightarrow> ('d, 'e) store_queue \<Rightarrow> ('d, 'e) store_queue option" where
  "answer_call c answer s =
     (if qs_results s c = None then Some (s\<lparr>qs_results := (qs_results s)(c := Some answer)\<rparr>) else None)"

definition release_slot :: "('d, 'e) store_queue \<Rightarrow> ('d, 'e) store_queue option" where
  "release_slot s = (if qs_slots s > 0 then Some (s\<lparr>qs_slots := qs_slots s - 1\<rparr>) else None)"

definition take_step :: "('d, 'e) store_queue \<Rightarrow> ('d, 'e) store_queue option" where
  "take_step s =
     (case (qs_worker s, qs_queue s) of
        (WorkerSelecting, request # rest) \<Rightarrow>
          Some (s\<lparr>qs_queue := rest, qs_worker := WorkerExecuting request\<rparr>)
      | _ \<Rightarrow> None)"

definition execute_step :: "tx_outcome \<Rightarrow> ('d, 'e) store_queue \<Rightarrow> ('d, 'e) store_queue option" where
  "execute_step outcome s =
     (case qs_worker s of
        WorkerExecuting (c, operation) \<Rightarrow>
          (case execute_write outcome (c \<in> qs_cancelled s) operation (qs_db s) of
             (answer, d) \<Rightarrow> answer_call c answer (s\<lparr>qs_db := d, qs_worker := WorkerReleasing\<rparr>))
      | _ \<Rightarrow> None)"

definition reject_step :: "('d, 'e) store_queue \<Rightarrow> ('d, 'e) store_queue option" where
  "reject_step s =
     (case (qs_worker s, qs_queue s) of
        (WorkerDraining, (c, _) # rest) \<Rightarrow>
          answer_call c (Some StoreClosed) (s\<lparr>qs_queue := rest, qs_worker := WorkerRejected\<rparr>)
      | _ \<Rightarrow> None)"

text \<open>Closing sets the flag under the mutex and waits until the worker has stopped.\<close>

definition close_step :: "('d, 'e) store_queue \<Rightarrow> ('d, 'e) store_queue option" where
  "close_step s =
     (if qs_mutex s \<noteq> None then None
      else if qs_closed s then Some s
      else Some (s\<lparr>qs_closed := True, qs_close := CloseWaiting\<rparr>))"

primrec queue_step :: "('d, 'e) queue_event \<Rightarrow> ('d, 'e) store_queue \<Rightarrow> ('d, 'e) store_queue option" where
  "queue_step (EvCall c operation) s = call_step c operation s"
| "queue_step (EvEnter c) s = enter_step c s"
| "queue_step (EvSend c) s = send_step c s"
| "queue_step (EvReceive c) s = receive_step c s"
| "queue_step (EvAbandon c) s = abandon_step c s"
| "queue_step (EvCancel c) s = Some (s\<lparr>qs_cancelled := insert c (qs_cancelled s)\<rparr>)"
| "queue_step EvTake s = take_step s"
| "queue_step (EvExecute outcome) s = execute_step outcome s"
| "queue_step EvRelease s =
     (case qs_worker s of
        WorkerReleasing \<Rightarrow> release_slot (s\<lparr>qs_worker := WorkerSelecting\<rparr>)
      | _ \<Rightarrow> None)"
| "queue_step EvStopSeen s =
     (case qs_worker s of
        WorkerSelecting \<Rightarrow> if qs_closed s then Some (s\<lparr>qs_worker := WorkerDraining\<rparr>) else None
      | _ \<Rightarrow> None)"
| "queue_step EvReject s = reject_step s"
| "queue_step EvRejectRelease s =
     (case qs_worker s of
        WorkerRejected \<Rightarrow> release_slot (s\<lparr>qs_worker := WorkerDraining\<rparr>)
      | _ \<Rightarrow> None)"
| "queue_step EvDrained s =
     (case (qs_worker s, qs_queue s) of
        (WorkerDraining, []) \<Rightarrow> Some (s\<lparr>qs_worker := WorkerStopped\<rparr>)
      | _ \<Rightarrow> None)"
| "queue_step EvClose s = close_step s"
| "queue_step EvCloseReturn s =
     (case (qs_close s, qs_worker s) of
        (CloseWaiting, WorkerStopped) \<Rightarrow> Some (s\<lparr>qs_close := CloseDone\<rparr>)
      | _ \<Rightarrow> None)"

primrec run_queue :: "('d, 'e) queue_event list \<Rightarrow> ('d, 'e) store_queue \<Rightarrow> ('d, 'e) store_queue option" where
  "run_queue [] s = Some s"
| "run_queue (ev # evs) s = Option.bind (queue_step ev s) (run_queue evs)"

lemma run_queue_snoc:
  "run_queue (evs @ [ev]) s = Some s' \<longleftrightarrow> (\<exists>t. run_queue evs s = Some t \<and> queue_step ev t = Some s')"
  by (induction evs arbitrary: s) (auto simp: bind_eq_Some_conv)

lemma run_queue_trans:
  "run_queue evs s = Some t \<Longrightarrow> run_queue evs' t = Some s' \<Longrightarrow> run_queue (evs @ evs') s = Some s'"
  by (induction evs arbitrary: s) (auto simp: bind_eq_Some_conv)

lemma run_queue_induct [consumes 1, case_names start step]:
  assumes "run_queue evs s = Some s'"
    and "P [] s"
    and "\<And>evs ev t t'. run_queue evs s = Some t \<Longrightarrow> P evs t \<Longrightarrow> queue_step ev t = Some t' \<Longrightarrow> P (evs @ [ev]) t'"
  shows "P evs s'"
  using assms(1)
proof (induction evs arbitrary: s' rule: rev_induct)
  case Nil
  then show ?case using assms(2) by simp
next
  case (snoc ev evs)
  then show ?case using assms(3) by (auto simp: run_queue_snoc)
qed

end
