(* ===== verification/WriteQueueProperties.thy ===== *)
theory WriteQueueProperties
  imports WriteQueue
begin

section \<open>Properties of the write queue\<close>

text \<open>
  The invariants of a run, the list of answers that a run amounts to, and what the worker
  still has to do. The properties are at the end.
\<close>

subsection \<open>Who waits for what\<close>

definition in_work :: "('d, 'e) store_queue \<Rightarrow> ('d, 'e) write_request list" where
  "in_work s = (case qs_worker s of WorkerExecuting request \<Rightarrow> [request] | _ \<Rightarrow> [])"

definition pending :: "('d, 'e) store_queue \<Rightarrow> ('d, 'e) write_request list" where
  "pending s = in_work s @ qs_queue s"

text \<open>The slots in use are those of the queue, of the worker and of a caller about to send.\<close>

definition worker_slots :: "('d, 'e) store_queue \<Rightarrow> nat" where
  "worker_slots s =
     (case qs_worker s of WorkerExecuting _ \<Rightarrow> 1 | WorkerReleasing \<Rightarrow> 1 | WorkerRejected \<Rightarrow> 1 | _ \<Rightarrow> 0)"

definition sender_slots :: "('d, 'e) store_queue \<Rightarrow> nat" where
  "sender_slots s =
     (case qs_mutex s of
        None \<Rightarrow> 0
      | Some c \<Rightarrow> (case qs_calls s c of CallSending _ \<Rightarrow> 1 | _ \<Rightarrow> 0))"

definition inside :: "('d, 'e) call_phase \<Rightarrow> bool" where
  "inside phase \<longleftrightarrow> (case phase of CallLocked _ \<Rightarrow> True | CallSending _ \<Rightarrow> True | _ \<Rightarrow> False)"

definition stopping :: "('d, 'e) worker_phase \<Rightarrow> bool" where
  "stopping w \<longleftrightarrow> (case w of WorkerDraining \<Rightarrow> True | WorkerRejected \<Rightarrow> True | WorkerStopped \<Rightarrow> True | _ \<Rightarrow> False)"

definition slots_inv :: "('d, 'e) store_queue \<Rightarrow> bool" where
  "slots_inv s \<longleftrightarrow> qs_slots s = length (qs_queue s) + worker_slots s + sender_slots s \<and> qs_slots s \<le> qs_maximum s"

definition mutex_inv :: "('d, 'e) store_queue \<Rightarrow> bool" where
  "mutex_inv s \<longleftrightarrow> (\<forall>c. inside (qs_calls s c) \<longleftrightarrow> qs_mutex s = Some c)"

definition closed_inv :: "('d, 'e) store_queue \<Rightarrow> bool" where
  "closed_inv s \<longleftrightarrow>
     (qs_closed s \<longrightarrow> sender_slots s = 0) \<and> (stopping (qs_worker s) \<longrightarrow> qs_closed s)
     \<and> (qs_worker s = WorkerStopped \<longrightarrow> qs_queue s = [])
     \<and> (qs_close s = CloseDone \<longrightarrow> qs_worker s = WorkerStopped)
     \<and> (qs_closed s \<longleftrightarrow> qs_close s \<noteq> CloseNotCalled)"

text \<open>
  A request that waits has no answer yet, and its caller waits or gave up; a caller that waits
  has its request in the queue or its answer in the channel.
\<close>

definition answers_inv :: "('d, 'e) store_queue \<Rightarrow> bool" where
  "answers_inv s \<longleftrightarrow> distinct (map fst (pending s))
     \<and> (\<forall>c\<in>fst ` set (pending s). qs_results s c = None
          \<and> (qs_calls s c = CallAwaiting \<or> qs_calls s c = CallReturned (Some WriteContextDone)))
     \<and> (\<forall>c. qs_results s c \<noteq> None \<longrightarrow>
          qs_calls s c = CallAwaiting \<or> qs_calls s c = CallReturned (Some WriteContextDone))
     \<and> (\<forall>c. qs_calls s c = CallAwaiting \<longrightarrow> c \<in> fst ` set (pending s) \<or> qs_results s c \<noteq> None)"

lemmas queue_invs = slots_inv_def mutex_inv_def closed_inv_def answers_inv_def
lemmas queue_steps = call_step_def enter_step_def send_step_def receive_step_def abandon_step_def take_step_def
  execute_step_def reject_step_def close_step_def answer_call_def release_slot_def set_call_def
lemmas queue_counts = pending_def in_work_def worker_slots_def sender_slots_def inside_def stopping_def
lemmas queue_splits = option.splits if_splits call_phase.splits worker_phase.splits prod.splits list.splits
  close_phase.splits

text \<open>The steps as a relation, one rule per branch.\<close>

inductive queue_moved ::
  "('d, 'e) queue_event \<Rightarrow> ('d, 'e) store_queue \<Rightarrow> ('d, 'e) store_queue \<Rightarrow> bool" where
  moved_missing: "qs_calls s c = CallNotStarted
     \<Longrightarrow> queue_moved (EvCall c None) s (set_call c (CallReturned (Some WriteArgumentMissing)) s)"
| moved_locked: "qs_calls s c = CallNotStarted \<Longrightarrow> qs_mutex s = None
     \<Longrightarrow> queue_moved (EvCall c (Some f)) s (set_call c (CallLocked f) (s\<lparr>qs_mutex := Some c\<rparr>))"
| moved_closed: "qs_calls s c = CallLocked f \<Longrightarrow> qs_closed s
     \<Longrightarrow> queue_moved (EvEnter c) s (set_call c (CallReturned (Some StoreClosed)) (s\<lparr>qs_mutex := None\<rparr>))"
| moved_slot: "qs_calls s c = CallLocked f \<Longrightarrow> \<not> qs_closed s \<Longrightarrow> qs_slots s < qs_maximum s
     \<Longrightarrow> queue_moved (EvEnter c) s (set_call c (CallSending f) (s\<lparr>qs_slots := Suc (qs_slots s)\<rparr>))"
| moved_full: "qs_calls s c = CallLocked f \<Longrightarrow> \<not> qs_closed s \<Longrightarrow> \<not> qs_slots s < qs_maximum s
     \<Longrightarrow> queue_moved (EvEnter c) s (set_call c (CallReturned (Some WriteQueueIsFull)) (s\<lparr>qs_mutex := None\<rparr>))"
| moved_sent: "qs_calls s c = CallSending f \<Longrightarrow> length (qs_queue s) < qs_maximum s
     \<Longrightarrow> queue_moved (EvSend c) s
          (set_call c CallAwaiting (s\<lparr>qs_queue := qs_queue s @ [(c, f)], qs_mutex := None\<rparr>))"
| moved_received: "qs_calls s c = CallAwaiting \<Longrightarrow> qs_results s c = Some answer
     \<Longrightarrow> queue_moved (EvReceive c) s
          (set_call c (CallReturned answer) (s\<lparr>qs_results := (qs_results s)(c := None)\<rparr>))"
| moved_abandoned: "qs_calls s c = CallAwaiting \<Longrightarrow> c \<in> qs_cancelled s
     \<Longrightarrow> queue_moved (EvAbandon c) s (set_call c (CallReturned (Some WriteContextDone)) s)"
| moved_cancelled: "queue_moved (EvCancel c) s (s\<lparr>qs_cancelled := insert c (qs_cancelled s)\<rparr>)"
| moved_taken: "qs_worker s = WorkerSelecting \<Longrightarrow> qs_queue s = request # rest
     \<Longrightarrow> queue_moved EvTake s (s\<lparr>qs_queue := rest, qs_worker := WorkerExecuting request\<rparr>)"
| moved_executed: "qs_worker s = WorkerExecuting (c, f) \<Longrightarrow> qs_results s c = None
     \<Longrightarrow> execute_write outcome (c \<in> qs_cancelled s) f (qs_db s) = (answer, d)
     \<Longrightarrow> queue_moved (EvExecute outcome) s
          (s\<lparr>qs_db := d, qs_worker := WorkerReleasing, qs_results := (qs_results s)(c := Some answer)\<rparr>)"
| moved_released: "qs_worker s = WorkerReleasing \<Longrightarrow> 0 < qs_slots s
     \<Longrightarrow> queue_moved EvRelease s (s\<lparr>qs_worker := WorkerSelecting, qs_slots := qs_slots s - 1\<rparr>)"
| moved_stopping: "qs_worker s = WorkerSelecting \<Longrightarrow> qs_closed s
     \<Longrightarrow> queue_moved EvStopSeen s (s\<lparr>qs_worker := WorkerDraining\<rparr>)"
| moved_rejected: "qs_worker s = WorkerDraining \<Longrightarrow> qs_queue s = (c, f) # rest \<Longrightarrow> qs_results s c = None
     \<Longrightarrow> queue_moved EvReject s (s\<lparr>qs_queue := rest, qs_worker := WorkerRejected,
          qs_results := (qs_results s)(c := Some (Some StoreClosed))\<rparr>)"
| moved_reject_released: "qs_worker s = WorkerRejected \<Longrightarrow> 0 < qs_slots s
     \<Longrightarrow> queue_moved EvRejectRelease s (s\<lparr>qs_worker := WorkerDraining, qs_slots := qs_slots s - 1\<rparr>)"
| moved_drained: "qs_worker s = WorkerDraining \<Longrightarrow> qs_queue s = []
     \<Longrightarrow> queue_moved EvDrained s (s\<lparr>qs_worker := WorkerStopped\<rparr>)"
| moved_close: "qs_mutex s = None \<Longrightarrow> \<not> qs_closed s
     \<Longrightarrow> queue_moved EvClose s (s\<lparr>qs_closed := True, qs_close := CloseWaiting\<rparr>)"
| moved_close_again: "qs_mutex s = None \<Longrightarrow> qs_closed s \<Longrightarrow> queue_moved EvClose s s"
| moved_close_done: "qs_close s = CloseWaiting \<Longrightarrow> qs_worker s = WorkerStopped
     \<Longrightarrow> queue_moved EvCloseReturn s (s\<lparr>qs_close := CloseDone\<rparr>)"

lemma queue_step_moved:
  assumes "queue_step ev s = Some s'"
  shows "queue_moved ev s s'"
proof (cases ev)
  case (EvCall c operation)
  with assms show ?thesis
    by (auto simp: call_step_def intro: moved_missing moved_locked split: call_phase.splits option.splits if_splits)
next
  case (EvEnter c)
  with assms obtain f where "qs_calls s c = CallLocked f" by (auto simp: enter_step_def split: call_phase.splits)
  with assms EvEnter show ?thesis
    by (auto simp: enter_step_def split: if_splits
        intro: moved_closed [of s c f] moved_slot [of s c f] moved_full [of s c f])
next
  case (EvSend c)
  with assms show ?thesis by (auto simp: send_step_def intro: moved_sent split: call_phase.splits if_splits)
next
  case (EvReceive c)
  with assms show ?thesis
    by (auto simp: receive_step_def intro: moved_received split: call_phase.splits option.splits)
next
  case (EvAbandon c)
  with assms show ?thesis
    by (auto simp: abandon_step_def intro: moved_abandoned split: call_phase.splits if_splits)
next
  case EvTake
  with assms show ?thesis by (auto simp: take_step_def intro: moved_taken split: worker_phase.splits list.splits)
next
  case (EvExecute outcome)
  with assms show ?thesis
    by (auto simp: execute_step_def answer_call_def intro: moved_executed
        split: worker_phase.splits prod.splits if_splits)
next
  case EvRelease
  with assms show ?thesis
    by (auto simp: release_slot_def simp del: One_nat_def intro: moved_released split: worker_phase.splits if_splits)
next
  case EvReject
  with assms show ?thesis
    by (auto simp: reject_step_def answer_call_def intro: moved_rejected
        split: worker_phase.splits list.splits if_splits)
next
  case EvRejectRelease
  with assms show ?thesis
    by (auto simp: release_slot_def simp del: One_nat_def intro: moved_reject_released split: worker_phase.splits if_splits)
next
  case EvClose
  with assms show ?thesis
    by (auto simp: close_step_def intro: moved_close moved_close_again split: if_splits)
qed (use assms in \<open>auto intro: moved_cancelled moved_stopping moved_drained moved_close_done
       split: worker_phase.splits list.splits if_splits close_phase.splits\<close>)

lemma moved_mutex_inv: "queue_moved ev s s' \<Longrightarrow> mutex_inv s \<Longrightarrow> mutex_inv s'"
  by (cases rule: queue_moved.cases, assumption)
    (auto simp: set_call_def mutex_inv_def inside_def split: call_phase.splits if_splits)

lemma sender_slots_call:
  "mutex_inv s \<Longrightarrow> \<not> inside (qs_calls s c) \<Longrightarrow> qs_mutex s' = qs_mutex s
     \<Longrightarrow> qs_calls s' = (qs_calls s)(c := phase) \<Longrightarrow> sender_slots s' = sender_slots s"
  by (auto simp: mutex_inv_def sender_slots_def split: option.splits)

lemma moved_slots_inv: "queue_moved ev s s' \<Longrightarrow> mutex_inv s \<Longrightarrow> slots_inv s \<Longrightarrow> slots_inv s'"
proof (induction rule: queue_moved.cases)
  case (moved_missing s c)
  then have "sender_slots s' = sender_slots s" by (intro sender_slots_call) (auto simp: set_call_def inside_def)
  with moved_missing show ?case by (simp add: slots_inv_def set_call_def worker_slots_def)
next
  case (moved_received s c answer)
  then have "sender_slots s' = sender_slots s" by (intro sender_slots_call) (auto simp: set_call_def inside_def)
  with moved_received show ?case by (simp add: slots_inv_def set_call_def worker_slots_def)
next
  case (moved_abandoned s c)
  then have "sender_slots s' = sender_slots s" by (intro sender_slots_call) (auto simp: set_call_def inside_def)
  with moved_abandoned show ?case by (simp add: slots_inv_def set_call_def worker_slots_def)
next
  case (moved_slot s c f)
  then have "qs_mutex s = Some c" by (auto simp: mutex_inv_def inside_def split: call_phase.splits)
  with moved_slot show ?case by (simp add: slots_inv_def set_call_def worker_slots_def sender_slots_def)
next
  case (moved_full s c f)
  then have "qs_mutex s = Some c" by (auto simp: mutex_inv_def inside_def split: call_phase.splits)
  with moved_full show ?case by (simp add: slots_inv_def set_call_def worker_slots_def sender_slots_def)
next
  case (moved_closed s c f)
  then have "qs_mutex s = Some c" by (auto simp: mutex_inv_def inside_def split: call_phase.splits)
  with moved_closed show ?case by (simp add: slots_inv_def set_call_def worker_slots_def sender_slots_def)
next
  case (moved_sent s c f)
  then have "qs_mutex s = Some c" by (auto simp: mutex_inv_def inside_def split: call_phase.splits)
  with moved_sent show ?case by (simp add: slots_inv_def set_call_def worker_slots_def sender_slots_def)
qed (auto simp: slots_inv_def set_call_def worker_slots_def sender_slots_def split: option.splits)


lemma moved_closed_inv:
  assumes "queue_moved ev s s'" "mutex_inv s" "closed_inv s"
  shows "closed_inv s'"
  using assms
  by (cases rule: queue_moved.cases)
    (auto simp: set_call_def mutex_inv_def inside_def closed_inv_def stopping_def sender_slots_def
      split: option.splits call_phase.splits)

lemma pending_simps:
  "qs_worker s = WorkerSelecting \<Longrightarrow> pending s = qs_queue s"
  "qs_worker s = WorkerExecuting r \<Longrightarrow> pending s = r # qs_queue s"
  "qs_worker s = WorkerReleasing \<Longrightarrow> pending s = qs_queue s"
  "qs_worker s = WorkerDraining \<Longrightarrow> pending s = qs_queue s"
  "qs_worker s = WorkerRejected \<Longrightarrow> pending s = qs_queue s"
  "qs_worker s = WorkerStopped \<Longrightarrow> pending s = qs_queue s"
  by (simp_all add: pending_def in_work_def)

lemma pending_cong: "qs_worker s' = qs_worker s \<Longrightarrow> qs_queue s' = qs_queue s \<Longrightarrow> pending s' = pending s"
  by (simp add: pending_def in_work_def)

lemma answers_inv_cong:
  "answers_inv s \<Longrightarrow> pending s' = pending s \<Longrightarrow> qs_results s' = qs_results s \<Longrightarrow> qs_calls s' = qs_calls s
     \<Longrightarrow> answers_inv s'"
  by (simp add: answers_inv_def)

lemma answers_inv_answered:
  "answers_inv s \<Longrightarrow> pending s = (c, f) # pending s' \<Longrightarrow> qs_results s' = (qs_results s)(c \<mapsto> answer)
     \<Longrightarrow> qs_calls s' = qs_calls s \<Longrightarrow> answers_inv s'"
  unfolding answers_inv_def by (intro conjI) auto

text \<open>A call that is not in the queue moves on without an answer.\<close>

lemma answers_inv_call:
  "answers_inv s \<Longrightarrow> pending s' = pending s \<Longrightarrow> qs_results s' = qs_results s
     \<Longrightarrow> qs_calls s' = (qs_calls s)(c := phase) \<Longrightarrow> qs_calls s c \<noteq> CallAwaiting
     \<Longrightarrow> qs_calls s c \<noteq> CallReturned (Some WriteContextDone) \<Longrightarrow> phase \<noteq> CallAwaiting \<Longrightarrow> answers_inv s'"
  unfolding answers_inv_def by (intro conjI) auto

lemma answers_inv_sent:
  "answers_inv s \<Longrightarrow> pending s' = pending s @ [(c, f)] \<Longrightarrow> qs_results s' = qs_results s
     \<Longrightarrow> qs_calls s' = (qs_calls s)(c := CallAwaiting) \<Longrightarrow> qs_calls s c = CallSending f \<Longrightarrow> answers_inv s'"
  unfolding answers_inv_def by (intro conjI) fastforce+

lemma answers_inv_returned:
  assumes "answers_inv s" "pending s' = pending s" "qs_results s' = (qs_results s)(c := None)"
    and "qs_calls s' = (qs_calls s)(c := CallReturned answer)" "qs_results s c = Some answer"
  shows "answers_inv s'"
proof -
  have "c \<notin> fst ` set (pending s)" using assms(1,5) by (auto simp: answers_inv_def)
  then show ?thesis using assms unfolding answers_inv_def by (intro conjI) (auto simp: fun_upd_def)
qed

lemma answers_inv_abandoned:
  assumes "answers_inv s" "pending s' = pending s" "qs_results s' = qs_results s"
    and "qs_calls s' = (qs_calls s)(c := CallReturned (Some WriteContextDone))"
  shows "answers_inv s'"
  using assms unfolding answers_inv_def by (intro conjI) (auto simp: fun_upd_def)

lemmas queue_fields = set_call_def pending_def in_work_def

lemma moved_answers_inv:
  assumes "queue_moved ev s s'" "answers_inv s"
  shows "answers_inv s'"
  using assms
proof (induction rule: queue_moved.cases)
  case (moved_sent s c f)
  then show ?case by (intro answers_inv_sent [of s s' c f]) (simp_all add: queue_fields)
next
  case (moved_received s c answer)
  then show ?case by (intro answers_inv_returned [of s s' c answer]) (simp_all add: queue_fields)
next
  case (moved_abandoned s c)
  then show ?case by (intro answers_inv_abandoned [of s s' c]) (simp_all add: queue_fields)
next
  case (moved_executed s c f outcome answer d)
  then show ?case by (intro answers_inv_answered [of s c f s' answer]) (simp_all add: queue_fields)
next
  case (moved_rejected s c f rest)
  then show ?case by (intro answers_inv_answered [of s c f s' "Some StoreClosed"]) (simp_all add: queue_fields)
next
  case (moved_missing s c)
  then show ?case by (intro answers_inv_call [of s s' c "CallReturned (Some WriteArgumentMissing)"]) (simp_all add: queue_fields)
next
  case (moved_locked s c f)
  then show ?case by (intro answers_inv_call [of s s' c "CallLocked f"]) (simp_all add: queue_fields)
next
  case (moved_closed s c f)
  then show ?case by (intro answers_inv_call [of s s' c "CallReturned (Some StoreClosed)"]) (simp_all add: queue_fields)
next
  case (moved_slot s c f)
  then show ?case by (intro answers_inv_call [of s s' c "CallSending f"]) (simp_all add: queue_fields)
next
  case (moved_full s c f)
  then show ?case by (intro answers_inv_call [of s s' c "CallReturned (Some WriteQueueIsFull)"]) (simp_all add: queue_fields)
qed (erule answers_inv_cong; simp add: queue_fields)+


definition queue_inv :: "('d, 'e) store_queue \<Rightarrow> bool" where
  "queue_inv s \<longleftrightarrow> mutex_inv s \<and> slots_inv s \<and> closed_inv s \<and> answers_inv s"

lemma queue_step_inv: "queue_step ev s = Some s' \<Longrightarrow> queue_inv s \<Longrightarrow> queue_inv s'"
  using queue_step_moved [of ev s s'] unfolding queue_inv_def
  by (blast intro: moved_mutex_inv moved_slots_inv moved_closed_inv moved_answers_inv)

lemma start_queue_inv: "queue_inv (start_write_worker n d)"
  by (simp add: queue_inv_def queue_invs queue_counts start_write_worker_def)

lemma run_queue_inv: "run_queue evs (start_write_worker n d) = Some s \<Longrightarrow> queue_inv s"
  by (induction rule: run_queue_induct) (auto intro: start_queue_inv queue_step_inv)

lemma run_queue_maximum: "run_queue evs s0 = Some s \<Longrightarrow> qs_maximum s = qs_maximum s0"
proof (induction rule: run_queue_induct)
  case (step evs ev t t')
  from queue_step_moved [OF step.hyps(2)] show ?case
    using step.IH by (cases rule: queue_moved.cases) (simp_all add: set_call_def)
qed simp

subsection \<open>One write after the other\<close>

text \<open>
  The specification is one list of answered requests in the order in which they were accepted:
  each operation sees the database that the one before it left, and only a nil answer means
  that it changed it.
\<close>

type_synonym ('d, 'e) answered = "('d, 'e) write_request \<times> 'e write_answer"

fun served_run :: "'d \<Rightarrow> ('d, 'e) answered list \<Rightarrow> 'd option" where
  "served_run d [] = Some d"
| "served_run d (((c, f), answer) # rest) =
     (case answer of
        None \<Rightarrow> (case f d of Inr d' \<Rightarrow> served_run d' rest | Inl _ \<Rightarrow> None)
      | Some (WriteOperationFailed e) \<Rightarrow> if f d = Inl e then served_run d rest else None
      | Some _ \<Rightarrow> served_run d rest)"

primrec sent :: "('d, 'e) queue_event list \<Rightarrow> nat list" where
  "sent [] = []"
| "sent (ev # evs) = (case ev of EvSend c \<Rightarrow> c # sent evs | _ \<Rightarrow> sent evs)"

lemma sent_snoc [simp]: "sent (evs @ [ev]) = sent evs @ (case ev of EvSend c \<Rightarrow> [c] | _ \<Rightarrow> [])"
  by (induction evs) (auto split: queue_event.splits)

lemma served_run_snoc:
  "served_run d served = Some d1 \<Longrightarrow> served_run d1 [(r, answer)] = Some d2
     \<Longrightarrow> served_run d (served @ [(r, answer)]) = Some d2"
  by (induction d served rule: served_run.induct) (auto split: option.splits sum.splits write_error.splits if_splits)

lemma execute_write_served:
  "execute_write outcome cancelled f d = (answer, d') \<Longrightarrow> served_run d [((c, f), answer)] = Some d'
     \<and> answer \<notin> Some ` {StoreClosed, WriteQueueIsFull, WriteArgumentMissing}
     \<and> (answer = Some WriteContextDone \<longrightarrow> cancelled)"
  by (auto simp: execute_write_def split: if_splits sum.splits)

definition given :: "('d, 'e) queue_event list \<Rightarrow> ('d, 'e) store_queue \<Rightarrow> bool" where
  "given evs s \<longleftrightarrow> (\<forall>c f. qs_calls s c = CallLocked f \<or> qs_calls s c = CallSending f \<or> (c, f) \<in> set (pending s)
     \<longrightarrow> EvCall c (Some f) \<in> set evs)"

definition justified :: "nat list \<Rightarrow> ('d, 'e) answered list \<Rightarrow> ('d, 'e) store_queue \<Rightarrow> nat \<Rightarrow> 'e write_answer \<Rightarrow> bool" where
  "justified accepted served s c answer \<longleftrightarrow>
     (\<exists>f. ((c, f), answer) \<in> set served)
     \<or> c \<notin> set accepted \<and> answer \<in> Some ` {StoreClosed, WriteQueueIsFull, WriteArgumentMissing}
     \<or> answer = Some WriteContextDone \<and> c \<in> qs_cancelled s"

definition served_inv :: "('d, 'e) queue_event list \<Rightarrow> 'd \<Rightarrow> ('d, 'e) answered list \<Rightarrow> ('d, 'e) store_queue \<Rightarrow> bool" where
  "served_inv evs d served s \<longleftrightarrow>
     served_run d served = Some (qs_db s)
     \<and> map (\<lambda>r. fst (fst r)) served @ map fst (pending s) = sent evs
     \<and> distinct (sent evs)
     \<and> (\<forall>c\<in>set (sent evs). \<exists>a. qs_calls s c = CallAwaiting \<or> qs_calls s c = CallReturned a)
     \<and> (\<forall>c f a. ((c, f), a) \<in> set served \<longrightarrow> EvCall c (Some f) \<in> set evs)
     \<and> (\<forall>c a. qs_results s c = Some a \<longrightarrow> (\<exists>f. ((c, f), a) \<in> set served))
     \<and> (\<forall>c a. qs_calls s c = CallReturned a \<longrightarrow> justified (sent evs) served s c a)
     \<and> given evs s"

lemma justified_mono:
  "justified accepted served s c a \<Longrightarrow> set served \<subseteq> set served' \<Longrightarrow> qs_cancelled s \<subseteq> qs_cancelled s'
     \<Longrightarrow> justified accepted served' s' c a"
  by (auto simp: justified_def)

lemma served_invI:
  assumes "served_run d served = Some (qs_db s)"
    and "map (\<lambda>r. fst (fst r)) served @ map fst (pending s) = sent evs" "distinct (sent evs)"
    and "\<And>c. c \<in> set (sent evs) \<Longrightarrow> \<exists>a. qs_calls s c = CallAwaiting \<or> qs_calls s c = CallReturned a"
    and "\<And>c f a. ((c, f), a) \<in> set served \<Longrightarrow> EvCall c (Some f) \<in> set evs"
    and "\<And>c a. qs_results s c = Some a \<Longrightarrow> \<exists>f. ((c, f), a) \<in> set served"
    and "\<And>c a. qs_calls s c = CallReturned a \<Longrightarrow> justified (sent evs) served s c a" "given evs s"
  shows "served_inv evs d served s"
  unfolding served_inv_def using assms by blast

lemma served_inv_answered:
  assumes "served_inv evs d served s" "pending s = (c, f) # pending s'"
    and "qs_results s' = (qs_results s)(c \<mapsto> answer)" "qs_calls s' = qs_calls s"
    and "qs_cancelled s' = qs_cancelled s" "served_run (qs_db s) [((c, f), answer)] = Some (qs_db s')"
    and "sent (evs @ [ev]) = sent evs"
  shows "served_inv (evs @ [ev]) d (served @ [((c, f), answer)]) s'"
proof -
  note inv = assms(1) [unfolded served_inv_def]
  have "served_run d (served @ [((c, f), answer)]) = Some (qs_db s')"
    using inv by (intro served_run_snoc [OF _ assms(6)]) blast
  moreover have "map (\<lambda>r. fst (fst r)) (served @ [((c, f), answer)]) @ map fst (pending s') = sent evs"
    using inv assms(2) by simp
  moreover have "distinct (sent evs)" using inv by blast
  moreover have "\<forall>c\<in>set (sent evs). \<exists>a. qs_calls s' c = CallAwaiting \<or> qs_calls s' c = CallReturned a"
    using inv assms(4) by metis
  moreover have given: "given evs s" using inv by blast
  then have "EvCall c (Some f) \<in> set evs" using assms(2) by (simp add: given_def)
  then have "\<forall>x g a. ((x, g), a) \<in> set (served @ [((c, f), answer)]) \<longrightarrow> EvCall x (Some g) \<in> set (evs @ [ev])"
    using inv by auto
  moreover have "\<forall>x a. qs_results s' x = Some a \<longrightarrow> (\<exists>g. ((x, g), a) \<in> set (served @ [((c, f), answer)]))"
    using inv assms(3) by auto
  moreover have "\<forall>x a. qs_calls s' x = CallReturned a \<longrightarrow> justified (sent evs) (served @ [((c, f), answer)]) s' x a"
  proof (intro allI impI)
    fix x a
    assume "qs_calls s' x = CallReturned a"
    then have "justified (sent evs) served s x a" using inv assms(4) by simp
    then show "justified (sent evs) (served @ [((c, f), answer)]) s' x a"
      by (rule justified_mono) (auto simp: assms(5))
  qed
  moreover have "given (evs @ [ev]) s'" using given assms(2,4) by (simp add: given_def)
  ultimately show ?thesis by (intro served_invI; (simp only: assms(7))?; blast?)
qed

text \<open>A step that answers nothing keeps the list.\<close>

lemma served_inv_cong:
  assumes "served_inv evs d served s" "pending s' = pending s" "qs_results s' = qs_results s"
    and "qs_calls s' = qs_calls s" "qs_cancelled s \<subseteq> qs_cancelled s'" "qs_db s' = qs_db s"
    and "sent (evs @ [ev]) = sent evs"
  shows "served_inv (evs @ [ev]) d served s'"
proof -
  note inv = assms(1) [unfolded served_inv_def]
  have "\<forall>x a. qs_calls s' x = CallReturned a \<longrightarrow> justified (sent evs) served s' x a"
    using inv assms(4,5) justified_mono [of "sent evs" served s _ _ served s'] by simp
  moreover have "given (evs @ [ev]) s'" using inv assms(2,4) by (simp add: given_def)
  moreover have "\<forall>c f a. ((c, f), a) \<in> set served \<longrightarrow> EvCall c (Some f) \<in> set (evs @ [ev])" using inv by simp
  ultimately show ?thesis using inv unfolding served_inv_def assms(2-4,6,7) by blast
qed

text \<open>Nor does one of a call that only moves that call on.\<close>

lemma served_inv_call:
  assumes "served_inv evs d served s" "pending s' = pending s"
    and "\<And>x a. qs_results s' x = Some a \<Longrightarrow> qs_results s x = Some a"
    and "qs_calls s' = (qs_calls s)(c := phase)" "qs_cancelled s' = qs_cancelled s" "qs_db s' = qs_db s"
    and "sent (evs @ [ev]) = sent evs"
    and "\<And>a. phase = CallReturned a \<Longrightarrow> justified (sent evs) served s c a"
    and "c \<in> set (sent evs) \<Longrightarrow> \<exists>a. phase = CallReturned a"
    and "\<And>f. phase = CallLocked f \<or> phase = CallSending f \<Longrightarrow> EvCall c (Some f) \<in> set (evs @ [ev])"
  shows "served_inv (evs @ [ev]) d served s'"
proof -
  note inv = assms(1) [unfolded served_inv_def]
  have "\<forall>x a. qs_calls s' x = CallReturned a \<longrightarrow> justified (sent evs) served s' x a"
    using inv assms(4,5,8) justified_mono [of "sent evs" served s _ _ served s'] by simp
  moreover have "given evs s" using inv by blast
  then have "given (evs @ [ev]) s'" using assms(2,4,10) by (auto simp: given_def)
  moreover have "\<forall>c f a. ((c, f), a) \<in> set served \<longrightarrow> EvCall c (Some f) \<in> set (evs @ [ev])" using inv by simp
  moreover have "\<forall>x\<in>set (sent evs). \<exists>a. qs_calls s' x = CallAwaiting \<or> qs_calls s' x = CallReturned a"
    using inv assms(4,9) by simp
  moreover have "\<forall>c a. qs_results s' c = Some a \<longrightarrow> (\<exists>f. ((c, f), a) \<in> set served)"
    using inv assms(3) by blast
  ultimately show ?thesis using inv unfolding served_inv_def assms(2,6,7) by blast
qed

lemma served_inv_sent:
  assumes "served_inv evs d served s" "pending s' = pending s @ [(c, f)]" "qs_results s' = qs_results s"
    and "qs_calls s' = (qs_calls s)(c := CallAwaiting)" "qs_cancelled s' = qs_cancelled s" "qs_db s' = qs_db s"
    and "qs_calls s c = CallSending f"
  shows "served_inv (evs @ [EvSend c]) d served s'"
proof -
  note inv = assms(1) [unfolded served_inv_def]
  have c: "c \<notin> set (sent evs)" using inv assms(7) by fastforce
  then have "\<forall>x a. qs_calls s' x = CallReturned a \<longrightarrow> justified (sent evs @ [c]) served s' x a"
    using inv assms(4,5) by (auto simp: justified_def)
  moreover have "given evs s" using inv by blast
  then have "given (evs @ [EvSend c]) s'" using assms(2,4,7) by (auto simp: given_def)
  moreover have "\<forall>c' f a. ((c', f), a) \<in> set served \<longrightarrow> EvCall c' (Some f) \<in> set (evs @ [EvSend c])" using inv by simp
  moreover have "\<forall>x\<in>set (sent evs @ [c]). \<exists>a. qs_calls s' x = CallAwaiting \<or> qs_calls s' x = CallReturned a"
    using inv assms(4) by simp
  moreover have "map (\<lambda>r. fst (fst r)) served @ map fst (pending s) = sent evs" using inv by blast
  then have "map (\<lambda>r. fst (fst r)) served @ map fst (pending s') = sent evs @ [c]"
    by (simp add: assms(2) flip: append_assoc)
  moreover have "distinct (sent evs @ [c])" using inv c by simp
  moreover have "served_run d served = Some (qs_db s')" using inv assms(6) by simp
  moreover have "\<forall>c a. qs_results s' c = Some a \<longrightarrow> (\<exists>f. ((c, f), a) \<in> set served)" using inv assms(3) by simp
  moreover have "sent (evs @ [EvSend c]) = sent evs @ [c]" by simp
  ultimately show ?thesis by (intro served_invI; (simp only:)?; blast?)
qed


lemma moved_served_inv:
  assumes "queue_moved ev s s'" "served_inv evs d served s" "closed_inv s"
  shows "\<exists>served'. served_inv (evs @ [ev]) d served' s'"
  using assms
proof (induction rule: queue_moved.cases)
  case (moved_sent s c f)
  then have "served_inv (evs @ [EvSend c]) d served s'"
    by (intro served_inv_sent [of evs d served s s' c f]) (simp_all add: queue_fields)
  with moved_sent show ?case by blast
next
  case (moved_executed s c f outcome answer d')
  note answer = execute_write_served [OF moved_executed(6), of c]
  have "served_inv (evs @ [ev]) d (served @ [((c, f), answer)]) s'"
    using moved_executed answer by (intro served_inv_answered [of evs d served s c f s' answer ev]) (simp_all add: queue_fields)
  then show ?case by blast
next
  case (moved_rejected s c f rest)
  then have "served_inv (evs @ [ev]) d (served @ [((c, f), Some StoreClosed)]) s'"
    by (intro served_inv_answered [of evs d served s c f s' "Some StoreClosed" ev]) (simp_all add: queue_fields)
  then show ?case by blast
next
  case (moved_received s c answer)
  then have "\<exists>f. ((c, f), answer) \<in> set served" by (simp add: served_inv_def)
  then have "justified (sent evs) served s c answer" by (simp add: justified_def)
  with moved_received have "served_inv (evs @ [ev]) d served s'"
    by (intro served_inv_call [of evs d served s s' c "CallReturned answer" ev])
      (simp_all add: queue_fields split: if_splits)
  then show ?case by blast
next
  case (moved_abandoned s c)
  then have "justified (sent evs) served s c (Some WriteContextDone)" by (simp add: justified_def)
  with moved_abandoned have "served_inv (evs @ [ev]) d served s'"
    by (intro served_inv_call [of evs d served s s' c "CallReturned (Some WriteContextDone)" ev])
      (simp_all add: queue_fields)
  then show ?case by blast
next
  case (moved_missing s c)
  then have "c \<notin> set (sent evs)" by (auto simp: served_inv_def)
  then have "justified (sent evs) served s c (Some WriteArgumentMissing)" by (simp add: justified_def)
  with moved_missing have "served_inv (evs @ [ev]) d served s'"
    by (intro served_inv_call [of evs d served s s' c "CallReturned (Some WriteArgumentMissing)" ev])
      (simp_all add: queue_fields)
  then show ?case by blast
next
  case (moved_locked s c f)
  then have "c \<notin> set (sent evs)" by (auto simp: served_inv_def)
  with moved_locked have "served_inv (evs @ [ev]) d served s'"
    by (intro served_inv_call [of evs d served s s' c "CallLocked f" ev]) (simp_all add: queue_fields)
  then show ?case by blast
next
  case (moved_closed s c f)
  then have "c \<notin> set (sent evs)" by (auto simp: served_inv_def)
  then have "justified (sent evs) served s c (Some StoreClosed)" by (simp add: justified_def)
  with moved_closed have "served_inv (evs @ [ev]) d served s'"
    by (intro served_inv_call [of evs d served s s' c "CallReturned (Some StoreClosed)" ev]) (simp_all add: queue_fields)
  then show ?case by blast
next
  case (moved_full s c f)
  then have "c \<notin> set (sent evs)" by (auto simp: served_inv_def)
  then have "justified (sent evs) served s c (Some WriteQueueIsFull)" by (simp add: justified_def)
  with moved_full have "served_inv (evs @ [ev]) d served s'"
    by (intro served_inv_call [of evs d served s s' c "CallReturned (Some WriteQueueIsFull)" ev])
      (simp_all add: queue_fields)
  then show ?case by blast
next
  case (moved_slot s c f)
  then have "c \<notin> set (sent evs)" "EvCall c (Some f) \<in> set evs" by (auto simp: served_inv_def given_def)
  with moved_slot have "served_inv (evs @ [ev]) d served s'"
    by (intro served_inv_call [of evs d served s s' c "CallSending f" ev]) (simp_all add: queue_fields)
  then show ?case by blast
qed (rule exI [of _ served], rule served_inv_cong [of evs d served s]; auto simp: queue_fields)+


lemma start_served_inv: "served_inv [] d [] (start_write_worker n d)"
  by (simp add: served_inv_def start_write_worker_def pending_def in_work_def given_def)

lemma run_served_inv:
  assumes "run_queue evs (start_write_worker n d) = Some s"
  shows "\<exists>served. served_inv evs d served s"
  using assms
proof (induction rule: run_queue_induct)
  case (step evs ev t t')
  have "closed_inv t" using run_queue_inv [OF step.hyps(1)] by (simp add: queue_inv_def)
  moreover obtain served where "served_inv evs d served t" using step.IH by (elim exE)
  ultimately show ?case by (intro moved_served_inv [OF queue_step_moved [OF step.hyps(2)]])
qed (use start_served_inv in \<open>rule exI\<close>)

subsection \<open>What the worker still has to do\<close>

primrec worker_event :: "('d, 'e) queue_event \<Rightarrow> bool" where
  "worker_event (EvCall c f) \<longleftrightarrow> False"
| "worker_event (EvEnter c) \<longleftrightarrow> False"
| "worker_event (EvSend c) \<longleftrightarrow> False"
| "worker_event (EvReceive c) \<longleftrightarrow> False"
| "worker_event (EvAbandon c) \<longleftrightarrow> False"
| "worker_event (EvCancel c) \<longleftrightarrow> False"
| "worker_event EvTake \<longleftrightarrow> True"
| "worker_event (EvExecute outcome) \<longleftrightarrow> True"
| "worker_event EvRelease \<longleftrightarrow> True"
| "worker_event EvStopSeen \<longleftrightarrow> True"
| "worker_event EvReject \<longleftrightarrow> True"
| "worker_event EvRejectRelease \<longleftrightarrow> True"
| "worker_event EvDrained \<longleftrightarrow> True"
| "worker_event EvClose \<longleftrightarrow> False"
| "worker_event EvCloseReturn \<longleftrightarrow> False"

definition work_left :: "('d, 'e) store_queue \<Rightarrow> nat" where
  "work_left s = 3 * length (qs_queue s)
     + (case qs_worker s of WorkerSelecting \<Rightarrow> 2 | WorkerExecuting _ \<Rightarrow> 4 | WorkerReleasing \<Rightarrow> 3
        | WorkerDraining \<Rightarrow> 1 | WorkerRejected \<Rightarrow> 3 | WorkerStopped \<Rightarrow> 0)"

lemma worker_step_works: "queue_step ev s = Some s' \<Longrightarrow> worker_event ev \<Longrightarrow> work_left s' < work_left s"
  by (drule queue_step_moved, erule queue_moved.cases) (simp_all add: work_left_def)

lemma worker_run_bounded:
  "run_queue evs s = Some s' \<Longrightarrow> list_all worker_event evs \<Longrightarrow> length evs + work_left s' \<le> work_left s"
proof (induction rule: run_queue_induct)
  case (step evs ev t t')
  then show ?case using worker_step_works [OF step.hyps(2)] by simp
qed simp

lemma worker_enabled:
  assumes "queue_inv s" "pending s \<noteq> [] \<or> qs_worker s \<in> {WorkerReleasing, WorkerRejected}"
  shows "\<exists>ev. worker_event ev \<and> queue_step ev s \<noteq> None"
proof (cases "qs_worker s")
  case WorkerSelecting
  then have "qs_queue s \<noteq> []" using assms(2) by (auto simp: pending_simps)
  then have "take_step s \<noteq> None" using WorkerSelecting by (simp add: take_step_def split: list.splits)
  then show ?thesis by (intro exI [of _ EvTake]) simp
next
  case (WorkerExecuting r)
  then have "qs_results s (fst r) = None"
    using assms(1) by (simp add: queue_inv_def answers_inv_def pending_simps)
  then have "execute_step TxCommits s \<noteq> None"
    using WorkerExecuting by (cases r) (simp add: execute_step_def answer_call_def split: prod.splits)
  then show ?thesis by (intro exI [of _ "EvExecute TxCommits"]) simp
next
  case WorkerReleasing
  then have "0 < qs_slots s" using assms(1) by (simp add: queue_inv_def slots_inv_def worker_slots_def)
  then show ?thesis using WorkerReleasing by (intro exI [of _ EvRelease]) (simp add: release_slot_def)
next
  case WorkerDraining
  then obtain r rest where queue: "qs_queue s = r # rest"
    using assms(2) by (cases "qs_queue s") (auto simp: pending_simps)
  then have "qs_results s (fst r) = None"
    using assms(1) WorkerDraining by (simp add: queue_inv_def answers_inv_def pending_simps)
  then have "reject_step s \<noteq> None"
    using WorkerDraining queue by (cases r) (simp add: reject_step_def answer_call_def)
  then show ?thesis by (intro exI [of _ EvReject]) simp
next
  case WorkerRejected
  then have "0 < qs_slots s" using assms(1) by (simp add: queue_inv_def slots_inv_def worker_slots_def)
  then show ?thesis using WorkerRejected by (intro exI [of _ EvRejectRelease]) (simp add: release_slot_def)
next
  case WorkerStopped
  then show ?thesis using assms by (simp add: pending_simps queue_inv_def closed_inv_def)
qed

lemma awaiting_receives:
  assumes "queue_inv s" "pending s = []" "qs_calls s c = CallAwaiting"
  shows "queue_step (EvReceive c) s \<noteq> None"
  using assms by (auto simp: queue_inv_def answers_inv_def receive_step_def)

lemma stopped_stays:
  "run_queue evs s = Some s' \<Longrightarrow> qs_worker s = WorkerStopped \<Longrightarrow> qs_worker s' = WorkerStopped \<and> qs_db s' = qs_db s"
proof (induction rule: run_queue_induct)
  case (step evs ev t t')
  from queue_step_moved [OF step.hyps(2)] show ?case
    using step.IH [OF step.prems] by (cases rule: queue_moved.cases) (simp_all add: set_call_def)
qed simp

subsection \<open>Properties\<close>

text \<open>
  C17. Writes are serial: whatever the schedule, the database is what the accepted operations
  make of it one after the other in the order in which they entered the queue, each sees the
  state the one before it left, and only those answered nil had an effect. A call that returned
  got the answer of its own operation, or was refused before it entered, or its context was done.
\<close>

theorem writes_serialized:
  assumes "run_queue evs (start_write_worker n d) = Some s"
  shows "\<exists>served. served_run d served = Some (qs_db s)
    \<and> map (\<lambda>r. fst (fst r)) served @ map fst (pending s) = sent evs \<and> distinct (sent evs)
    \<and> (\<forall>c f a. ((c, f), a) \<in> set served \<longrightarrow> EvCall c (Some f) \<in> set evs)
    \<and> (\<forall>c a. qs_calls s c = CallReturned a \<longrightarrow>
         (\<exists>f. ((c, f), a) \<in> set served)
         \<or> c \<notin> set (sent evs) \<and> a \<in> Some ` {StoreClosed, WriteQueueIsFull, WriteArgumentMissing}
         \<or> a = Some WriteContextDone \<and> c \<in> qs_cancelled s)"
proof -
  obtain served where "served_inv evs d served s" using run_served_inv [OF assms] by blast
  then show ?thesis unfolding served_inv_def justified_def by (intro exI [of _ served]) blast
qed

text \<open>
  C18. The queue never gets stuck: a caller that has a slot can send, the worker can always
  deliver its answer, at most capacity + 1 requests wait, and the worker's own steps, in
  whatever order, come to an end after at most three per place in the queue, with every
  request answered and every caller that waits able to return.
\<close>

theorem write_queue_never_stuck:
  assumes "run_queue evs (start_write_worker n d) = Some s"
  shows "(\<forall>c f. qs_calls s c = CallSending f \<longrightarrow> queue_step (EvSend c) s \<noteq> None)
    \<and> (\<forall>r outcome. qs_worker s = WorkerExecuting r \<longrightarrow> queue_step (EvExecute outcome) s \<noteq> None)
    \<and> length (pending s) \<le> n + 1
    \<and> (\<forall>evs' s'. list_all worker_event evs' \<and> run_queue evs' s = Some s' \<longrightarrow>
         length evs' \<le> 3 * n + 5
         \<and> ((\<forall>ev. worker_event ev \<longrightarrow> queue_step ev s' = None) \<longrightarrow>
              pending s' = [] \<and> (\<forall>c. qs_calls s' c = CallAwaiting \<longrightarrow> queue_step (EvReceive c) s' \<noteq> None)))"
proof -
  have inv: "queue_inv s" by (rule run_queue_inv [OF assms])
  have bound: "qs_slots s \<le> n + 1" "qs_slots s = length (qs_queue s) + worker_slots s + sender_slots s"
    using inv run_queue_maximum [OF assms] by (simp_all add: queue_inv_def slots_inv_def start_write_worker_def)
  have "queue_step (EvSend c) s \<noteq> None" if "qs_calls s c = CallSending f" for c f
  proof -
    have "qs_mutex s = Some c" using inv that by (auto simp: queue_inv_def mutex_inv_def inside_def split: call_phase.splits)
    then have "length (qs_queue s) < qs_maximum s"
      using bound that run_queue_maximum [OF assms] by (simp add: sender_slots_def start_write_worker_def)
    then show ?thesis using that by (simp add: send_step_def)
  qed
  moreover have "queue_step (EvExecute outcome) s \<noteq> None" if "qs_worker s = WorkerExecuting r" for r outcome
  proof -
    have "qs_results s (fst r) = None" using inv that by (simp add: queue_inv_def answers_inv_def pending_simps)
    then show ?thesis using that by (cases r) (simp add: execute_step_def answer_call_def split: prod.splits)
  qed
  moreover have "length (pending s) \<le> n + 1"
    using bound by (auto simp: pending_def in_work_def worker_slots_def split: worker_phase.splits)
  moreover have "work_left s \<le> 3 * n + 5"
    using bound by (auto simp: work_left_def worker_slots_def split: worker_phase.splits)
  moreover have "pending s' = [] \<and> (\<forall>c. qs_calls s' c = CallAwaiting \<longrightarrow> queue_step (EvReceive c) s' \<noteq> None)"
    if "run_queue evs' s = Some s'" "\<forall>ev. worker_event ev \<longrightarrow> queue_step ev s' = None" for evs' s'
  proof -
    have "run_queue (evs @ evs') (start_write_worker n d) = Some s'"
      by (rule run_queue_trans [OF assms that(1)])
    from run_queue_inv [OF this] have inv': "queue_inv s'" .
    have "pending s' = []"
    proof (rule ccontr)
      assume "pending s' \<noteq> []"
      then obtain ev where "worker_event ev" "queue_step ev s' \<noteq> None"
        using worker_enabled [OF inv'] by auto
      with that(2) show False by simp
    qed
    with awaiting_receives [OF inv'] show ?thesis by blast
  qed
  ultimately show ?thesis using worker_run_bounded [of _ s] by (meson add_leD1 order_trans)
qed

text \<open>
  Closing is final: when the close has returned, every accepted request has its answer,
  and no schedule of calls changes the database any more.
\<close>

theorem closed_store_final:
  assumes "run_queue evs (start_write_worker n d) = Some s" "qs_close s = CloseDone"
  shows "pending s = [] \<and> (\<forall>c. qs_calls s c = CallAwaiting \<longrightarrow> queue_step (EvReceive c) s \<noteq> None)
    \<and> (\<forall>evs' s'. run_queue evs' s = Some s' \<longrightarrow> qs_db s' = qs_db s)"
proof -
  have inv: "queue_inv s" by (rule run_queue_inv [OF assms(1)])
  then have stopped: "qs_worker s = WorkerStopped" "pending s = []"
    using assms(2) by (auto simp: queue_inv_def closed_inv_def pending_simps)
  then show ?thesis using awaiting_receives [OF inv] stopped_stays by blast
qed


subsection \<open>A sample run\<close>

text \<open>One write that adds one to a counter, and a close that finds another one waiting.\<close>

definition sample_events :: "(nat, unit) queue_event list" where
  "sample_events =
     [EvCall 0 (Some (\<lambda>d. Inr (d + 1))), EvEnter 0, EvSend 0, EvTake, EvCall 1 (Some (\<lambda>d. Inr (d + 2))),
      EvEnter 1, EvSend 1, EvExecute TxCommits, EvReceive 0, EvRelease, EvClose, EvStopSeen, EvReject,
      EvRejectRelease, EvDrained, EvCloseReturn]"

definition sample_end :: "(nat, unit) store_queue" where
  "sample_end = the (run_queue sample_events (start_write_worker 1 7))"

lemmas sample_steps = call_step_def enter_step_def send_step_def receive_step_def take_step_def execute_step_def
  reject_step_def close_step_def answer_call_def release_slot_def set_call_def execute_write_def
  start_write_worker_def

lemma sample_writes: "run_queue sample_events (start_write_worker 1 7) = Some sample_end"
  "qs_db sample_end = 8" "qs_close sample_end = CloseDone" "qs_calls sample_end 1 = CallAwaiting"
  by (simp_all add: sample_end_def sample_events_def sample_steps)

lemma writes_serialized_witness:
  "\<exists>served. served_run 7 served = Some 8
     \<and> map (\<lambda>r. fst (fst (r :: (nat, unit) answered))) served @ map fst (pending sample_end) = [0, 1]"
proof -
  have "sent sample_events = [0, 1]" by (simp add: sample_events_def)
  with writes_serialized [OF sample_writes(1)] sample_writes(2) show ?thesis by auto
qed

lemma write_queue_never_stuck_witness: "length (pending sample_end) \<le> 2"
  using write_queue_never_stuck [OF sample_writes(1)] by simp

lemma closed_store_final_witness: "pending sample_end = [] \<and> queue_step (EvReceive 1) sample_end \<noteq> None"
  using closed_store_final [OF sample_writes(1,3)] sample_writes(4) by blast

end
