(* ===== verification/Reconcile.thy ===== *)
theory Reconcile
  imports Jobs RelationContract
begin

section \<open>Relation initialization sessions\<close>

text \<open>
  \<^verbatim>\<open>internal/reconcile\<close>: an agent opens a session on a repository, submits batches of
  proposals and of findings it could not resolve, and completes it, which proposes as stale
  what the session did not see. The repository, the id generator and SHA-256 are fields of
  \<open>init_service\<close>; the relation commands are those of \<open>RelationCommands\<close>.
\<close>

subsection \<open>Data\<close>

datatype init_error =
    ErrInvalidInit | ErrInitNotFound | ErrInitNotOpen | ErrBatchConflict | ErrInitIdempotencyConflict
  | ErrIncompleteBatches | ErrCompletionBudgetExceeded
  | InitRelationError relation_error | InitIdNotDrawn | InitStoreFailure | InitContextEnded

definition maximum_completion_candidates :: int where "maximum_completion_candidates = 100"
definition maximum_completion_candidate_raw_bytes :: int where
  "maximum_completion_candidate_raw_bytes = 2 ^ 20"
definition maximum_batch_items :: int where "maximum_batch_items = 100"
definition maximum_incremental_relation_ids :: int where "maximum_incremental_relation_ids = 1000"

datatype init_mode = ModeFull | ModeIncremental | ModeOther int
datatype init_status = InitOpen | InitCompleted | InitFailed | InitCancelled

record init_session =
  is_id :: int
  is_repository :: int
  is_mode :: init_mode
  is_source_commit :: string
  is_scope :: string
  is_status :: init_status
  is_principal :: principal
  is_request_id :: string
  is_created_at :: int
  is_completed_at :: "int option"

record begin_init_command =
  bi_repository :: int
  bi_mode :: init_mode
  bi_source_commit :: string
  bi_scope :: string
  bi_principal :: principal
  bi_request_id :: string

record init_proposal =
  ip_type :: relation_type
  ip_source :: int
  ip_target :: int
  ip_guard :: "boolean option"
  ip_selector :: "boolean option"
  ip_transform :: "value"
  ip_confidence :: go_float
  ip_evidence :: "evidence_input list"
  ip_reason :: string

record unresolved_input =
  ui_type :: string
  ui_summary :: string
  ui_evidence :: string

record unresolved =
  uf_id :: int
  uf_repository :: int
  uf_session :: int
  uf_batch :: int
  uf_fingerprint :: string
  uf_type :: string
  uf_summary :: string
  uf_evidence :: string
  uf_status :: int
  uf_principal :: principal
  uf_created_at :: int

record submit_batch_command =
  sb_session :: int
  sb_no :: int
  sb_key :: string
  sb_proposals :: "init_proposal list"
  sb_unresolved :: "unresolved_input list"
  sb_principal :: principal
  sb_request_id :: string

datatype item_status = ItemCreated | ItemDeduplicated | ItemReproposed

record batch_result =
  br_batch :: int
  br_session :: int
  br_no :: int
  br_items :: "(int \<times> item_status) list"
  br_unresolved :: "int list"
  br_accepted_at :: int

record batch_record =
  bc_batch :: int
  bc_session :: init_session
  bc_no :: int
  bc_key :: string
  bc_request_id :: string
  bc_digest :: string
  bc_proposals :: "proposal_record list"
  bc_unresolved :: "unresolved list"
  bc_accepted_at :: int

record complete_init_command =
  ci_session :: int
  ci_expected :: int
  ci_principal :: principal
  ci_reason :: string
  ci_request_id :: string

record init_completion =
  ic_session :: init_session
  ic_relations :: "int list"

record completion_record =
  cn_session :: init_session
  cn_expected :: int
  cn_candidates :: "proposal_record list"
  cn_audit :: int
  cn_principal :: principal
  cn_reason :: string
  cn_request_id :: string
  cn_completed_at :: int

record completion_check =
  cc_count :: int
  cc_bytes :: int

record completion_budget =
  cb_candidates :: int
  cb_bytes :: int

record omission_plan =
  op_relations :: "relation list"
  op_bytes :: int

record 's init_repository =
  ir_begin :: "init_session \<Rightarrow> ('s, init_error, init_session) action"
  ir_get :: "int \<Rightarrow> 's \<Rightarrow> init_error + init_session"
  ir_submit :: "batch_record \<Rightarrow> ('s, init_error, batch_result) action"
  ir_check :: "init_session \<Rightarrow> int \<Rightarrow> 's \<Rightarrow> init_error + completion_check"
  ir_omitted :: "init_session \<Rightarrow> completion_budget \<Rightarrow> 's \<Rightarrow> init_error + omission_plan"
  ir_complete :: "completion_record \<Rightarrow> ('s, init_error, init_completion) action"
  ir_unresolved :: "int \<Rightarrow> 's \<Rightarrow> init_error + unresolved list"

text \<open>
  \<open>iv_batch_digest\<close> and \<open>iv_fingerprint\<close> are \<^verbatim>\<open>hex(sha256(json.Marshal(...)))\<close>, with no result
  when the marshaller fails.
\<close>

record ('s, 'g) init_service =
  iv_repository :: "'s init_repository"
  iv_commands :: "('s, 'g) commands"
  iv_ids :: "'g \<Rightarrow> (relation_error + int) \<times> 'g"
  iv_now :: int
  iv_batch_digest :: "int \<Rightarrow> init_proposal list \<Rightarrow> unresolved_input list \<Rightarrow> string option"
  iv_fingerprint :: "int \<Rightarrow> string \<Rightarrow> string \<Rightarrow> string \<Rightarrow> string option"

subsection \<open>The scope of an incremental session\<close>

definition is_decimal_id :: "string \<Rightarrow> bool" where
  "is_decimal_id s \<longleftrightarrow>
     \<not> (length s < 1 \<or> length s > 19 \<or> hd s = CHR ''0'')
     \<and> list_all (\<lambda>c. 48 \<le> byte c \<and> byte c \<le> 57) s"

text \<open>
  \<^verbatim>\<open>*[]string\<close>: a null sets the pointer to nil, an array decodes into the slice it points to.
\<close>

record scope_fields =
  sf_ids :: "string list option"
  sf_backing :: "string list"

fun set_scope_fields :: "(string \<times> json) list \<Rightarrow> scope_fields \<Rightarrow> scope_fields option" where
  "set_scope_fields [] sf = Some sf"
| "set_scope_fields ((name, v) # ms) sf =
     (if fold_name name = ''RELATIONIDS'' then
        (case v of
           JArray vs \<Rightarrow>
             (case string_elements vs (sf_backing sf) of
                None \<Rightarrow> None
              | Some xs \<Rightarrow>
                  set_scope_fields ms \<lparr>sf_ids = Some xs, sf_backing = decoded_backing xs (sf_backing sf)\<rparr>)
         | JNull \<Rightarrow> set_scope_fields ms \<lparr>sf_ids = None, sf_backing = []\<rparr>
         | _ \<Rightarrow> None)
      else None)"

definition unmarshal_scope :: "string \<Rightarrow> scope_fields option" where
  "unmarshal_scope scope =
     (let zero = \<lparr>sf_ids = None, sf_backing = []\<rparr> in
      case json_parse scope of
        Some (JObject ms) \<Rightarrow> set_scope_fields ms zero
      | Some JNull \<Rightarrow> Some zero
      | _ \<Rightarrow> None)"

fun parse_relation_ids :: "string list \<Rightarrow> int list \<Rightarrow> init_error + int list" where
  "parse_relation_ids [] ids = Inr ids"
| "parse_relation_ids (s # ss) ids =
     sbind (fail_if (\<not> is_decimal_id s) ErrInvalidInit) (\<lambda>_.
     case parse_int64 s of
       None \<Rightarrow> Inl ErrInvalidInit
     | Some i \<Rightarrow>
         sbind (fail_if (i \<le> 0 \<or> i \<in> set ids) ErrInvalidInit) (\<lambda>_. parse_relation_ids ss (ids @ [i])))"

definition incremental_relation_ids :: "string \<Rightarrow> init_error + int list" where
  "incremental_relation_ids scope =
     (case unmarshal_scope scope of
        None \<Rightarrow> Inl ErrInvalidInit
      | Some sf \<Rightarrow>
          (case sf_ids sf of
             None \<Rightarrow> Inl ErrInvalidInit
           | Some ss \<Rightarrow>
               sbind (fail_if (int (length ss) > maximum_incremental_relation_ids) ErrInvalidInit) (\<lambda>_.
               parse_relation_ids ss [])))"

subsection \<open>Reproposals\<close>

definition prepare_reproposal :: "relation \<Rightarrow> proposal_record \<Rightarrow> proposal_record option" where
  "prepare_reproposal current prepared =
     (if r_id current \<le> 0 \<or> r_latest current \<le> 0 \<or> r_proposed current \<noteq> None
        \<or> r_type current \<noteq> p_type prepared \<or> rv_kind (p_revision prepared) \<noteq> ProposalContent then None
      else
        let active_kind = map_option rv_kind (r_active current);
            tombstoned = (r_status current = StatusTombstoned \<and> active_kind = Some ProposalTombstone);
            stale = (r_status current = StatusStale \<and> active_kind = Some ProposalStale);
            rejected_create = (r_status current = StatusPending \<and> r_active current = None) in
        if \<not> tombstoned \<and> \<not> stale \<and> \<not> rejected_create then None
        else Some (prepared
          \<lparr>p_relation_id := r_id current,
           p_revision := (p_revision prepared)
             \<lparr>rv_relation_id := r_id current, rv_revision_no := r_latest current + 1,
              rv_expected := Some (r_latest current)\<rparr>\<rparr>))"

subsection \<open>Who may do what\<close>

definition can_initialize :: "principal \<Rightarrow> bool" where
  "can_initialize p \<longleftrightarrow> pr_role p = RoleAgent \<or> pr_role p = RoleAdmin"

definition valid_principal :: "principal \<Rightarrow> bool" where
  "valid_principal p \<longleftrightarrow>
     (let actor = trim_space (pr_actor p) in
      actor \<noteq> [] \<and> length actor \<le> 200 \<and> known_origin (pr_origin p))"

definition same_initializer :: "init_session \<Rightarrow> principal \<Rightarrow> bool" where
  "same_initializer session p \<longleftrightarrow>
     can_initialize p \<and> valid_principal p
     \<and> pr_actor p = pr_actor (is_principal session) \<and> pr_origin p = pr_origin (is_principal session)"

subsection \<open>The service\<close>

definition relation_step :: "('w, relation_error, 'a) action \<Rightarrow> ('w, init_error, 'a) action" where
  "relation_step m w =
     (case m w of (Inl e, w') \<Rightarrow> (Inl (InitRelationError e), w') | (Inr x, w') \<Rightarrow> (Inr x, w'))"

definition init_draw :: "('s, 'g) init_service \<Rightarrow> ('s \<times> 'g, init_error, int) action" where
  "init_draw sv = on_ids (\<lambda>g. case iv_ids sv g of
     (Inl _, g') \<Rightarrow> (Inl InitIdNotDrawn, g') | (Inr x, g') \<Rightarrow> (Inr x, g'))"

definition begin_init ::
  "('s, 'g) init_service \<Rightarrow> begin_init_command \<Rightarrow> ('s \<times> 'g, init_error, init_session) action" where
  "begin_init sv cmd =
     act_bind (act_pure (fail_if (\<not> can_initialize (bi_principal cmd) \<or> bi_repository cmd \<le> 0
       \<or> bi_mode cmd \<noteq> ModeFull \<and> bi_mode cmd \<noteq> ModeIncremental) ErrInvalidInit)) (\<lambda>_.
     let source_commit = trim_space (bi_source_commit cmd); request_id = trim_space (bi_request_id cmd) in
     act_bind (act_pure (fail_if (source_commit = [] \<or> length source_commit > 200
       \<or> request_id = [] \<or> length request_id > 200 \<or> \<not> valid_principal (bi_principal cmd))
       ErrInvalidInit)) (\<lambda>_.
     let scope = (if bi_scope cmd = [] then ''{}'' else bi_scope cmd) in
     act_bind (act_pure (fail_if (\<not> validate_object 20000 16 scope) ErrInvalidInit)) (\<lambda>_.
     act_bind (act_pure (if bi_mode cmd = ModeIncremental
       then sbind (incremental_relation_ids scope) (\<lambda>_. Inr ()) else Inr ())) (\<lambda>_.
     act_bind (init_draw sv) (\<lambda>session_id.
     on_repository (ir_begin (iv_repository sv)
       \<lparr>is_id = session_id, is_repository = bi_repository cmd, is_mode = bi_mode cmd,
        is_source_commit = source_commit, is_scope = scope, is_status = InitOpen,
        is_principal = bi_principal cmd, is_request_id = request_id, is_created_at = iv_now sv,
        is_completed_at = None\<rparr>))))))"

text \<open>The request id of the n-th item: \<^verbatim>\<open>fmt.Sprintf("%s:%d", requestID, index+1)\<close>.\<close>

definition item_request_id :: "string \<Rightarrow> nat \<Rightarrow> string" where
  "item_request_id request_id n = request_id @ '':'' @ int_text (int n + 1)"

fun prepare_proposals ::
  "('s, 'g) init_service \<Rightarrow> principal \<Rightarrow> string \<Rightarrow> nat \<Rightarrow> init_proposal list
    \<Rightarrow> ('s \<times> 'g, init_error, proposal_record list) action" where
  "prepare_proposals sv p request_id n [] = act_pure (Inr [])"
| "prepare_proposals sv p request_id n (x # xs) =
     act_bind (relation_step (prepare_create (iv_commands sv)
       \<lparr>pc_type = ip_type x, pc_source = ip_source x, pc_target = ip_target x, pc_guard = ip_guard x,
        pc_selector = ip_selector x, pc_transform = ip_transform x, pc_confidence = ip_confidence x,
        pc_evidence = ip_evidence x, pc_principal = p, pc_reason = ip_reason x,
        pc_request_id = item_request_id request_id n\<rparr>)) (\<lambda>record.
     act_bind (prepare_proposals sv p request_id (Suc n) xs) (\<lambda>records.
     act_pure (Inr (record # records))))"

definition prepare_unresolved ::
  "('s, 'g) init_service \<Rightarrow> init_session \<Rightarrow> int \<Rightarrow> principal \<Rightarrow> unresolved_input
    \<Rightarrow> ('s \<times> 'g, init_error, unresolved) action" where
  "prepare_unresolved sv session batch_id p x =
     (let finding_type = trim_space (ui_type x); summary = trim_space (ui_summary x) in
      act_bind (act_pure (fail_if (finding_type = [] \<or> length finding_type > 100 \<or> summary = []
        \<or> length summary > 2000 \<or> \<not> validate_object 20000 16 (ui_evidence x)) ErrInvalidInit)) (\<lambda>_.
      act_bind (act_pure
        (case iv_fingerprint sv (is_repository session) finding_type summary (ui_evidence x) of
           None \<Rightarrow> Inl ErrInvalidInit | Some hex \<Rightarrow> Inr hex)) (\<lambda>fingerprint.
      act_bind (init_draw sv) (\<lambda>finding_id.
      act_pure (Inr
        \<lparr>uf_id = finding_id, uf_repository = is_repository session, uf_session = is_id session,
         uf_batch = batch_id, uf_fingerprint = fingerprint, uf_type = finding_type, uf_summary = summary,
         uf_evidence = ui_evidence x, uf_status = 1, uf_principal = p, uf_created_at = iv_now sv\<rparr>)))))"

fun prepare_findings ::
  "('s, 'g) init_service \<Rightarrow> init_session \<Rightarrow> int \<Rightarrow> principal \<Rightarrow> unresolved_input list
    \<Rightarrow> ('s \<times> 'g, init_error, unresolved list) action" where
  "prepare_findings sv session batch_id p [] = act_pure (Inr [])"
| "prepare_findings sv session batch_id p (x # xs) =
     act_bind (prepare_unresolved sv session batch_id p x) (\<lambda>finding.
     act_bind (prepare_findings sv session batch_id p xs) (\<lambda>findings.
     act_pure (Inr (finding # findings))))"

definition submit_batch ::
  "('s, 'g) init_service \<Rightarrow> submit_batch_command \<Rightarrow> ('s \<times> 'g, init_error, batch_result) action" where
  "submit_batch sv cmd =
     act_bind (query (ir_get (iv_repository sv) (sb_session cmd))) (\<lambda>session.
     act_bind (act_pure (fail_if (is_status session \<noteq> InitOpen) ErrInitNotOpen)) (\<lambda>_.
     let items = int (length (sb_proposals cmd)) + int (length (sb_unresolved cmd)) in
     act_bind (act_pure (fail_if (\<not> same_initializer session (sb_principal cmd) \<or> sb_no cmd \<le> 0
       \<or> items < 1 \<or> items > maximum_batch_items) ErrInvalidInit)) (\<lambda>_.
     let key = trim_space (sb_key cmd); request_id = trim_space (sb_request_id cmd) in
     act_bind (act_pure (fail_if (key = [] \<or> length key > 200 \<or> request_id = []
       \<or> length request_id > 180) ErrInvalidInit)) (\<lambda>_.
     act_bind (act_pure
       (case iv_batch_digest sv (sb_no cmd) (sb_proposals cmd) (sb_unresolved cmd) of
          None \<Rightarrow> Inl ErrInvalidInit | Some hex \<Rightarrow> Inr hex)) (\<lambda>digest.
     act_bind (prepare_proposals sv (sb_principal cmd) request_id 0 (sb_proposals cmd)) (\<lambda>prepared.
     act_bind (init_draw sv) (\<lambda>batch_id.
     act_bind (prepare_findings sv session batch_id (sb_principal cmd) (sb_unresolved cmd)) (\<lambda>findings.
     on_repository (ir_submit (iv_repository sv)
       \<lparr>bc_batch = batch_id, bc_session = session, bc_no = sb_no cmd, bc_key = key,
        bc_request_id = request_id, bc_digest = digest, bc_proposals = prepared,
        bc_unresolved = findings, bc_accepted_at = iv_now sv\<rparr>)))))))))"

definition completion_budget_exceeded :: "int \<Rightarrow> int \<Rightarrow> bool" where
  "completion_budget_exceeded candidates bytes \<longleftrightarrow>
     candidates > maximum_completion_candidates \<or> candidates < 0
     \<or> bytes > maximum_completion_candidate_raw_bytes \<or> bytes < 0"

text \<open>
  The running total of encoded lengths, which stops once it is over the limit. \<^verbatim>\<open>null\<close> is what
  a nil pointer marshals to: in the list of \<^verbatim>\<open>any\<close> values it is not a nil value.
\<close>

fun add_lengths :: "nat option list \<Rightarrow> int \<Rightarrow> init_error + int \<times> bool" where
  "add_lengths [] total_bytes = Inr (total_bytes, False)"
| "add_lengths (x # xs) total_bytes =
     (case x of
        None \<Rightarrow> Inl ErrInvalidInit
      | Some n \<Rightarrow>
          if total_bytes + int n > maximum_completion_candidate_raw_bytes then Inr (total_bytes + int n, True)
          else add_lengths xs (total_bytes + int n))"

definition pointer_length :: "codec \<Rightarrow> boolean option \<Rightarrow> nat option" where
  "pointer_length cd b =
     (case b of None \<Rightarrow> Some (length ''null'') | Some e \<Rightarrow> map_option length (marshal_boolean cd e))"

fun omitted_candidate_raw_bytes :: "codec \<Rightarrow> relation list \<Rightarrow> int \<Rightarrow> init_error + int" where
  "omitted_candidate_raw_bytes cd [] total_bytes = Inr total_bytes"
| "omitted_candidate_raw_bytes cd (r # rs) total_bytes =
     (case r_active r of
        None \<Rightarrow> Inl ErrInvalidInit
      | Some rv \<Rightarrow>
          sbind (add_lengths [pointer_length cd (rv_guard rv), pointer_length cd (rv_selector rv),
              map_option length (marshal_value cd (rv_transform rv))] total_bytes) (\<lambda>(total_bytes, over).
          if over then Inr total_bytes else omitted_candidate_raw_bytes cd rs total_bytes))"

fun prepare_stale_candidates ::
  "('s, 'g) init_service \<Rightarrow> principal \<Rightarrow> string \<Rightarrow> string \<Rightarrow> nat \<Rightarrow> relation list
    \<Rightarrow> ('s \<times> 'g, init_error, proposal_record list) action" where
  "prepare_stale_candidates sv p reason request_id n [] = act_pure (Inr [])"
| "prepare_stale_candidates sv p reason request_id n (r # rs) =
     act_bind (relation_step (prepare_stale (iv_commands sv)
       \<lparr>pt_relation_id = r_id r, pt_expected = r_latest r, pt_principal = p, pt_reason = reason,
        pt_request_id = item_request_id request_id n\<rparr>)) (\<lambda>record.
     act_bind (prepare_stale_candidates sv p reason request_id (Suc n) rs) (\<lambda>records.
     act_pure (Inr (record # records))))"

text \<open>Everything of \<^verbatim>\<open>Complete\<close> up to the write, which reads only.\<close>

definition prepare_completion ::
  "('s, 'g) init_service \<Rightarrow> complete_init_command \<Rightarrow> ('s \<times> 'g, init_error, completion_record) action" where
  "prepare_completion sv cmd =
     act_bind (query (ir_get (iv_repository sv) (ci_session cmd))) (\<lambda>session.
     act_bind (act_pure (fail_if (is_status session \<noteq> InitOpen) ErrInitNotOpen)) (\<lambda>_.
     act_bind (act_pure (fail_if (\<not> same_initializer session (ci_principal cmd) \<or> ci_expected cmd < 1)
       ErrInvalidInit)) (\<lambda>_.
     let reason = trim_space (ci_reason cmd); request_id = trim_space (ci_request_id cmd) in
     act_bind (act_pure (fail_if (reason = [] \<or> length reason > 2000 \<or> request_id = []
       \<or> length request_id > 180) ErrInvalidInit)) (\<lambda>_.
     act_bind (query (ir_check (iv_repository sv) session (ci_expected cmd))) (\<lambda>check.
     act_bind (act_pure (fail_if (completion_budget_exceeded (cc_count check) (cc_bytes check))
       ErrCompletionBudgetExceeded)) (\<lambda>_.
     act_bind
       (if is_mode session = ModeFull \<or> is_mode session = ModeIncremental then
          act_bind (query (ir_omitted (iv_repository sv) session
            \<lparr>cb_candidates = maximum_completion_candidates - cc_count check,
             cb_bytes = maximum_completion_candidate_raw_bytes - cc_bytes check\<rparr>)) (\<lambda>plan.
          let omitted = op_relations plan; n = cc_count check + int (length omitted) in
          act_bind (act_pure (fail_if (completion_budget_exceeded n (cc_bytes check + op_bytes plan))
            ErrCompletionBudgetExceeded)) (\<lambda>_.
          act_bind (act_pure (omitted_candidate_raw_bytes (c_codec (iv_commands sv)) omitted 0)) (\<lambda>bytes.
          act_bind (act_pure (fail_if (completion_budget_exceeded n (cc_bytes check + bytes))
            ErrCompletionBudgetExceeded)) (\<lambda>_.
          prepare_stale_candidates sv (ci_principal cmd) reason request_id 0 omitted))))
        else act_pure (Inr [])) (\<lambda>candidates.
     act_bind (init_draw sv) (\<lambda>audit_id.
     act_pure (Inr
       \<lparr>cn_session = session, cn_expected = ci_expected cmd, cn_candidates = candidates,
        cn_audit = audit_id, cn_principal = ci_principal cmd, cn_reason = reason,
        cn_request_id = request_id, cn_completed_at = iv_now sv\<rparr>)))))))))"

definition complete_init ::
  "('s, 'g) init_service \<Rightarrow> complete_init_command \<Rightarrow> ('s \<times> 'g, init_error, init_completion) action" where
  "complete_init sv cmd =
     act_bind (prepare_completion sv cmd) (\<lambda>record. on_repository (ir_complete (iv_repository sv) record))"

definition get_init :: "('s, 'g) init_service \<Rightarrow> int \<Rightarrow> 's \<Rightarrow> init_error + init_session" where
  "get_init sv session_id s =
     sbind (fail_if (session_id \<le> 0) ErrInvalidInit) (\<lambda>_. ir_get (iv_repository sv) session_id s)"

definition list_unresolved :: "('s, 'g) init_service \<Rightarrow> int \<Rightarrow> 's \<Rightarrow> init_error + unresolved list" where
  "list_unresolved sv n s =
     sbind (fail_if (n < 1 \<or> n > 100) ErrInvalidInit) (\<lambda>_. ir_unresolved (iv_repository sv) n s)"

end
