(* ===== verification/ReconcileRepository.thy ===== *)
theory ReconcileRepository
  imports Reconcile
begin

section \<open>Sessions in SQLite\<close>

text \<open>
  \<^verbatim>\<open>internal/platform/sqlite/reconcile_repository.go\<close> and
  \<^verbatim>\<open>reconcile_completion_repository.go\<close>. The relation tables are those of \<open>RelationStore\<close>, on
  which a batch and a completion run the inserts of the relation repository; the audit records
  of sessions are kept beside those of relations, under the same primary key. The keys and the
  checks on ids are conditions of the statements, what else SQLite may refuse one for is the
  argument \<open>init_engine\<close>, and \<^verbatim>\<open>encoding/json\<close> on records is \<open>init_codec\<close>.
\<close>

subsection \<open>Tables\<close>

record batch_row =
  bt_id :: int
  bt_session :: int
  bt_no :: int
  bt_key :: string
  bt_digest :: string
  bt_proposals :: int
  bt_unresolved :: int
  bt_result :: string
  bt_accepted_at :: int

record candidate_row =
  ca_session :: int
  ca_batch :: int
  ca_relation :: int
  ca_json :: string
  ca_created_at :: int

record origin_row =
  og_relation :: int
  og_repository :: int
  og_session :: int
  og_created_at :: int

text \<open>\<open>seen_t\<close> holds (session, relation, batch); \<open>repositories_t\<close> the ids of \<^verbatim>\<open>repositories\<close>.\<close>

record init_db =
  relations_db :: db
  sessions_t :: "init_session list"
  batches_t :: "batch_row list"
  candidates_t :: "candidate_row list"
  seen_t :: "(int \<times> int \<times> int) list"
  origins_t :: "origin_row list"
  findings_t :: "unresolved list"
  repositories_t :: "int list"
  init_audit_t :: "audit_event list"

datatype init_statement =
    RelationStatement statement | InsertSession init_session | InsertInitAudit audit_event
  | InsertBatch batch_row | InsertCandidate candidate_row | InsertSeen "int \<times> int \<times> int"
  | InsertOrigin origin_row | InsertFinding unresolved | CompleteSession int
  | QueueInit | StartInit | CommitInit | AnswerInit

type_synonym init_engine = "init_statement \<Rightarrow> bool"

record init_codec =
  jc_relations :: codec
  jc_marshal_record :: "proposal_record \<Rightarrow> string option"
  jc_unmarshal_record :: "string \<Rightarrow> proposal_record option"
  jc_marshal_result :: "batch_result \<Rightarrow> string option"
  jc_unmarshal_result :: "string \<Rightarrow> batch_result option"

definition init_exec ::
  "init_engine \<Rightarrow> init_statement \<Rightarrow> (init_db \<Rightarrow> bool) \<Rightarrow> (init_db \<Rightarrow> init_db) \<Rightarrow> init_db \<Rightarrow> init_error + init_db" where
  "init_exec ie st allowed change d = (if ie st \<and> allowed d then Inr (change d) else Inl InitStoreFailure)"

lemma init_exec_Inr [result_simps]:
  "init_exec ie st allowed change d = Inr d' \<longleftrightarrow> ie st \<and> allowed d \<and> d' = change d"
  by (auto simp: init_exec_def)

text \<open>
  \<^verbatim>\<open>executeWrite\<close> and \<^verbatim>\<open>Store.write\<close>, as in \<open>RelationStore\<close>: the caller of a queued write whose
  context ends before the answer (\<open>AnswerInit\<close> is refused) gets an error for an operation that
  is carried out.
\<close>

definition execute_init ::
  "init_engine \<Rightarrow> (init_db \<Rightarrow> init_error + 'a \<times> init_db) \<Rightarrow> (init_db, init_error, 'a) action" where
  "execute_init ie operation d =
     (if \<not> ie StartInit then (Inl InitStoreFailure, d)
      else case operation d of
             Inl e \<Rightarrow> (Inl e, d)
           | Inr (x, d') \<Rightarrow> if ie CommitInit then (Inr x, d') else (Inl InitStoreFailure, d))"

definition init_write ::
  "init_engine \<Rightarrow> (init_db \<Rightarrow> init_error + 'a \<times> init_db) \<Rightarrow> (init_db, init_error, 'a) action" where
  "init_write ie operation d =
     (if \<not> ie QueueInit then (Inl InitStoreFailure, d)
      else case execute_init ie operation d of
             (answer, d') \<Rightarrow> (if ie AnswerInit then answer else Inl InitContextEnded, d'))"

text \<open>An operation of the relation repository inside a transaction on all tables.\<close>

definition relation_engine :: "init_engine \<Rightarrow> engine" where
  "relation_engine ie = (\<lambda>st. ie (RelationStatement st))"

definition on_relations ::
  "(db \<Rightarrow> relation_error + 'a \<times> db) \<Rightarrow> init_db \<Rightarrow> init_error + 'a \<times> init_db" where
  "on_relations operation d =
     (case operation (relations_db d) of
        Inl e \<Rightarrow> Inl (InitRelationError e)
      | Inr (x, rd) \<Rightarrow> Inr (x, d\<lparr>relations_db := rd\<rparr>))"

definition read_relation :: "init_codec \<Rightarrow> init_db \<Rightarrow> int \<Rightarrow> init_error + relation" where
  "read_relation ic d relation_id =
     (case load_relation (jc_relations ic) (relations_db d) relation_id of
        Inl e \<Rightarrow> Inl (InitRelationError e) | Inr r \<Rightarrow> Inr r)"

subsection \<open>Sessions\<close>

text \<open>The role is not stored: a session read back is an agent's.\<close>

definition get_init_session :: "int \<Rightarrow> init_db \<Rightarrow> init_error + init_session" where
  "get_init_session session_id d =
     (case find (\<lambda>s. is_id s = session_id) (sessions_t d) of
        None \<Rightarrow> Inl ErrInitNotFound
      | Some s \<Rightarrow> Inr (s\<lparr>is_principal := (is_principal s)\<lparr>pr_role := RoleAgent\<rparr>\<rparr>))"

definition same_request :: "string \<Rightarrow> origin \<Rightarrow> string \<Rightarrow> init_session \<Rightarrow> bool" where
  "same_request actor orig request_id s \<longleftrightarrow>
     pr_actor (is_principal s) = actor \<and> pr_origin (is_principal s) = orig \<and> is_request_id s = request_id"

definition find_init_session_by_request ::
  "string \<Rightarrow> origin \<Rightarrow> string \<Rightarrow> init_db \<Rightarrow> init_error + init_session" where
  "find_init_session_by_request actor orig request_id d =
     (case find (same_request actor orig request_id) (sessions_t d) of
        None \<Rightarrow> Inl ErrInitNotFound
      | Some s \<Rightarrow> get_init_session (is_id s) d)"

definition insert_init_audit ::
  "init_engine \<Rightarrow> int \<Rightarrow> int \<Rightarrow> string \<Rightarrow> principal \<Rightarrow> string \<Rightarrow> string \<Rightarrow> int \<Rightarrow> init_db \<Rightarrow> init_error + init_db" where
  "insert_init_audit ie audit_id session_id action p reason request_id occurred_at =
     (let event =
        \<lparr>ae_id = audit_id, ae_actor = pr_actor p, ae_origin = pr_origin p, ae_action = action,
         ae_subject_type = ''RELATION_INIT_SESSION'', ae_subject = session_id, ae_reason = reason,
         ae_request_id = request_id, ae_expected = None, ae_details = ''{}'',
         ae_occurred_at = occurred_at\<rparr> in
      init_exec ie (InsertInitAudit event)
        (\<lambda>d. audit_id > 0 \<and> known_origin (pr_origin p) \<and> audit_id \<notin> set (map ae_id (init_audit_t d))
           \<and> audit_id \<notin> set (map ar_id (audit_t (relations_db d))))
        (\<lambda>d. d\<lparr>init_audit_t := init_audit_t d @ [event]\<rparr>))"

definition insert_session_row :: "init_engine \<Rightarrow> init_session \<Rightarrow> init_db \<Rightarrow> init_error + init_db" where
  "insert_session_row ie s =
     init_exec ie (InsertSession s)
       (\<lambda>d. is_id s > 0 \<and> (is_mode s = ModeFull \<or> is_mode s = ModeIncremental)
          \<and> known_origin (pr_origin (is_principal s)) \<and> is_id s \<notin> set (map is_id (sessions_t d))
          \<and> \<not> list_ex (same_request (pr_actor (is_principal s)) (pr_origin (is_principal s)) (is_request_id s))
                (sessions_t d))
       (\<lambda>d. d\<lparr>sessions_t := sessions_t d @ [s]\<rparr>)"

definition begin_session :: "init_engine \<Rightarrow> init_session \<Rightarrow> (init_db, init_error, init_session) action" where
  "begin_session ie s =
     init_write ie (\<lambda>d.
       case find_init_session_by_request (pr_actor (is_principal s)) (pr_origin (is_principal s))
              (is_request_id s) d of
         Inr existing \<Rightarrow>
           if is_repository existing \<noteq> is_repository s \<or> is_mode existing \<noteq> is_mode s
             \<or> is_source_commit existing \<noteq> is_source_commit s \<or> is_scope existing \<noteq> is_scope s
           then Inl ErrInitIdempotencyConflict else Inr (existing, d)
       | Inl e \<Rightarrow>
           sbind (fail_if (e \<noteq> ErrInitNotFound) e) (\<lambda>_.
           sbind (fail_if (is_repository s \<notin> set (repositories_t d)) ErrInvalidInit) (\<lambda>_.
           sbind (insert_session_row ie s d) (\<lambda>d.
           sbind (insert_init_audit ie (is_id s) (is_id s) ''RELATION_INIT_BEGUN'' (is_principal s)
             ''Begin relation initialization.'' (is_request_id s) (is_created_at s) d) (\<lambda>d.
           Inr (s, d))))))"

subsection \<open>Batches\<close>

definition session_batches :: "int \<Rightarrow> init_db \<Rightarrow> batch_row list" where
  "session_batches session_id d = filter (\<lambda>b. bt_session b = session_id) (batches_t d)"

text \<open>\<^verbatim>\<open>COALESCE(MAX(batch_no), 0)\<close>\<close>

definition maximum_batch_no :: "int \<Rightarrow> init_db \<Rightarrow> int" where
  "maximum_batch_no session_id d =
     (case map bt_no (session_batches session_id d) of [] \<Rightarrow> 0 | n # ns \<Rightarrow> fold max ns n)"

definition candidate_exists :: "int \<Rightarrow> int \<Rightarrow> init_db \<Rightarrow> bool" where
  "candidate_exists session_id relation_id d \<longleftrightarrow>
     list_ex (\<lambda>c. ca_session c = session_id \<and> ca_relation c = relation_id) (candidates_t d)"

text \<open>
  One proposal of a batch: it creates its relation, or the relation exists, and then a
  reproposal of one that is gone is kept back for the completion.
\<close>

definition accept_proposal ::
  "init_codec \<Rightarrow> init_engine \<Rightarrow> int \<Rightarrow> proposal_record \<Rightarrow> proposal_record list \<Rightarrow> init_db
    \<Rightarrow> init_error + (int \<times> item_status) \<times> proposal_record list \<times> init_db" where
  "accept_proposal ic ie session_id p deferred d =
     (case find (\<lambda>r. rr_fingerprint r = p_fingerprint p) (relations_t (relations_db d)) of
        None \<Rightarrow>
          sbind (on_relations (insert_create_proposal (jc_relations ic) (relation_engine ie) p) d) (\<lambda>(r, d).
          Inr ((r_id r, ItemCreated), deferred, d))
      | Some row \<Rightarrow>
          sbind (read_relation ic d (rr_id row)) (\<lambda>current.
          case prepare_reproposal current p of
            None \<Rightarrow> Inr ((rr_id row, ItemDeduplicated), deferred, d)
          | Some reproposal \<Rightarrow>
              if candidate_exists session_id (rr_id row) d
                \<or> rr_id row \<in> set (map p_relation_id deferred)
              then Inr ((rr_id row, ItemDeduplicated), deferred, d)
              else Inr ((rr_id row, ItemReproposed), deferred @ [reproposal], d)))"

fun accept_proposals ::
  "init_codec \<Rightarrow> init_engine \<Rightarrow> int \<Rightarrow> proposal_record list \<Rightarrow> proposal_record list \<Rightarrow> init_db
    \<Rightarrow> init_error + (int \<times> item_status) list \<times> proposal_record list \<times> init_db" where
  "accept_proposals ic ie session_id [] deferred d = Inr ([], deferred, d)"
| "accept_proposals ic ie session_id (p # ps) deferred d =
     sbind (accept_proposal ic ie session_id p deferred d) (\<lambda>(item, deferred, d).
     sbind (accept_proposals ic ie session_id ps deferred d) (\<lambda>(items, deferred, d).
     Inr (item # items, deferred, d)))"

definition open_finding :: "unresolved \<Rightarrow> init_db \<Rightarrow> unresolved option" where
  "open_finding f d =
     find (\<lambda>x. uf_repository x = uf_repository f \<and> uf_fingerprint x = uf_fingerprint f \<and> uf_status x = 1)
       (findings_t d)"

definition unresolved_ids :: "unresolved list \<Rightarrow> init_db \<Rightarrow> int list" where
  "unresolved_ids findings d =
     map (\<lambda>f. case open_finding f d of None \<Rightarrow> uf_id f | Some x \<Rightarrow> uf_id x) findings"

definition insert_batch_row :: "init_engine \<Rightarrow> batch_row \<Rightarrow> init_db \<Rightarrow> init_error + init_db" where
  "insert_batch_row ie row =
     init_exec ie (InsertBatch row)
       (\<lambda>d. bt_id row > 0 \<and> bt_no row > 0 \<and> bt_id row \<notin> set (map bt_id (batches_t d))
          \<and> bt_no row \<notin> set (map bt_no (session_batches (bt_session row) d))
          \<and> bt_key row \<notin> set (map bt_key (session_batches (bt_session row) d)))
       (\<lambda>d. d\<lparr>batches_t := batches_t d @ [row]\<rparr>)"

definition insert_init_reproposal_candidate ::
  "init_codec \<Rightarrow> init_engine \<Rightarrow> int \<Rightarrow> int \<Rightarrow> proposal_record \<Rightarrow> init_db \<Rightarrow> init_error + init_db" where
  "insert_init_reproposal_candidate ic ie session_id batch_id p d =
     (case jc_marshal_record ic p of
        None \<Rightarrow> Inl InitStoreFailure
      | Some text \<Rightarrow>
          let row = \<lparr>ca_session = session_id, ca_batch = batch_id, ca_relation = p_relation_id p,
                ca_json = text, ca_created_at = rv_created_at (p_revision p)\<rparr> in
          init_exec ie (InsertCandidate row)
            (\<lambda>d. \<not> candidate_exists session_id (p_relation_id p) d
               \<and> \<not> list_ex (\<lambda>c. ca_batch c = batch_id \<and> ca_relation c = p_relation_id p) (candidates_t d))
            (\<lambda>d. d\<lparr>candidates_t := candidates_t d @ [row]\<rparr>) d)"

text \<open>\<^verbatim>\<open>INSERT OR IGNORE\<close>: a row whose key exists is left out.\<close>

definition record_seen ::
  "init_engine \<Rightarrow> init_session \<Rightarrow> int \<Rightarrow> int \<Rightarrow> int \<Rightarrow> init_db \<Rightarrow> init_error + init_db" where
  "record_seen ie session batch_id accepted_at relation_id d =
     (let seen = (is_id session, relation_id, batch_id);
          orig = \<lparr>og_relation = relation_id, og_repository = is_repository session,
            og_session = is_id session, og_created_at = accepted_at\<rparr> in
      sbind (init_exec ie (InsertSeen seen) (\<lambda>_. True)
        (\<lambda>d. if list_ex (\<lambda>(s, r, b). s = is_id session \<and> r = relation_id) (seen_t d) then d
             else d\<lparr>seen_t := seen_t d @ [seen]\<rparr>) d) (\<lambda>d.
      init_exec ie (InsertOrigin orig) (\<lambda>_. True)
        (\<lambda>d. if relation_id \<in> set (map og_relation (origins_t d)) then d
             else d\<lparr>origins_t := origins_t d @ [orig]\<rparr>) d))"

definition insert_finding :: "init_engine \<Rightarrow> int \<Rightarrow> unresolved \<Rightarrow> init_db \<Rightarrow> init_error + init_db" where
  "insert_finding ie batch_id f =
     (let row = f\<lparr>uf_batch := batch_id\<rparr> in
      init_exec ie (InsertFinding row)
        (\<lambda>d. uf_id f > 0 \<and> 1 \<le> uf_status f \<and> uf_status f \<le> 3 \<and> known_origin (pr_origin (uf_principal f))
           \<and> uf_id f \<notin> set (map uf_id (findings_t d))
           \<and> \<not> list_ex (\<lambda>x. uf_repository x = uf_repository f \<and> uf_fingerprint x = uf_fingerprint f
                \<and> uf_status x = uf_status f) (findings_t d))
        (\<lambda>d. d\<lparr>findings_t := findings_t d @ [row]\<rparr>))"

definition accept_batch ::
  "init_codec \<Rightarrow> init_engine \<Rightarrow> batch_record \<Rightarrow> init_session \<Rightarrow> init_db \<Rightarrow> init_error + batch_result \<times> init_db" where
  "accept_batch ic ie b session d =
     sbind (accept_proposals ic ie (is_id session) (bc_proposals b) [] d) (\<lambda>(items, deferred, d).
     let result = \<lparr>br_batch = bc_batch b, br_session = is_id session, br_no = bc_no b, br_items = items,
           br_unresolved = unresolved_ids (bc_unresolved b) d, br_accepted_at = bc_accepted_at b\<rparr>;
         new_unresolved = filter (\<lambda>f. open_finding f d = None) (bc_unresolved b) in
     case jc_marshal_result ic result of
       None \<Rightarrow> Inl InitStoreFailure
     | Some text \<Rightarrow>
         sbind (insert_batch_row ie
           \<lparr>bt_id = bc_batch b, bt_session = is_id session, bt_no = bc_no b, bt_key = bc_key b,
            bt_digest = bc_digest b, bt_proposals = int (length (bc_proposals b)),
            bt_unresolved = int (length (bc_unresolved b)), bt_result = text,
            bt_accepted_at = bc_accepted_at b\<rparr> d) (\<lambda>d.
         sbind (fold_result (insert_init_reproposal_candidate ic ie (is_id session) (bc_batch b)) deferred d) (\<lambda>d.
         sbind (fold_result (record_seen ie session (bc_batch b) (bc_accepted_at b)) (map fst items) d) (\<lambda>d.
         sbind (fold_result (insert_finding ie (bc_batch b)) new_unresolved d) (\<lambda>d.
         sbind (insert_init_audit ie (bc_batch b) (is_id session) ''RELATION_INIT_BATCH_ACCEPTED''
           (is_principal session) ''Accept a bounded relation initialization batch.'' (bc_request_id b)
           (bc_accepted_at b) d) (\<lambda>d.
         Inr (result, d)))))))"

definition submit_stored_batch ::
  "init_codec \<Rightarrow> init_engine \<Rightarrow> batch_record \<Rightarrow> (init_db, init_error, batch_result) action" where
  "submit_stored_batch ic ie b =
     init_write ie (\<lambda>d.
       sbind (get_init_session (is_id (bc_session b)) d) (\<lambda>session.
       sbind (fail_if (is_status session \<noteq> InitOpen) ErrInitNotOpen) (\<lambda>_.
       case find (\<lambda>x. bt_key x = bc_key b) (session_batches (is_id session) d) of
         Some existing \<Rightarrow>
           if bt_digest existing \<noteq> bc_digest b then Inl ErrInitIdempotencyConflict
           else (case jc_unmarshal_result ic (bt_result existing) of
                   None \<Rightarrow> Inl InitStoreFailure | Some result \<Rightarrow> Inr (result, d))
       | None \<Rightarrow>
           sbind (fail_if (bc_no b \<in> set (map bt_no (session_batches (is_id session) d))) ErrBatchConflict) (\<lambda>_.
           sbind (fail_if (bc_no b \<noteq> maximum_batch_no (is_id session) d + 1) ErrBatchConflict) (\<lambda>_.
           accept_batch ic ie b session d)))))"

subsection \<open>Completion\<close>

definition verify_init_batch_count :: "int \<Rightarrow> int \<Rightarrow> init_db \<Rightarrow> init_error + unit" where
  "verify_init_batch_count session_id expected d =
     fail_if (int (length (session_batches session_id d)) \<noteq> expected
       \<or> maximum_batch_no session_id d \<noteq> expected) ErrIncompleteBatches"

definition session_candidates :: "int \<Rightarrow> init_db \<Rightarrow> candidate_row list" where
  "session_candidates session_id d = filter (\<lambda>c. ca_session c = session_id) (candidates_t d)"

definition init_reproposal_candidate_summary :: "int \<Rightarrow> init_db \<Rightarrow> completion_check" where
  "init_reproposal_candidate_summary session_id d =
     (let rows = session_candidates session_id d in
      \<lparr>cc_count = int (length rows), cc_bytes = int (sum_list (map (\<lambda>c. length (ca_json c)) rows))\<rparr>)"

text \<open>\<^verbatim>\<open>completionBudgetExceeded\<close> of the SQLite package, on a summary and what is omitted.\<close>

definition stored_budget_exceeded :: "completion_check \<Rightarrow> int \<Rightarrow> int \<Rightarrow> bool" where
  "stored_budget_exceeded check omitted_count omitted_bytes \<longleftrightarrow>
     cc_count check < 0 \<or> cc_count check > maximum_completion_candidates
     \<or> cc_bytes check < 0 \<or> cc_bytes check > maximum_completion_candidate_raw_bytes
     \<or> omitted_count < 0 \<or> omitted_bytes < 0
     \<or> omitted_count > maximum_completion_candidates - cc_count check
     \<or> omitted_bytes > maximum_completion_candidate_raw_bytes - cc_bytes check"

definition check_completion :: "init_session \<Rightarrow> int \<Rightarrow> init_db \<Rightarrow> init_error + completion_check" where
  "check_completion session expected d =
     sbind (get_init_session (is_id session) d) (\<lambda>current.
     sbind (fail_if (is_status current \<noteq> InitOpen) ErrInitNotOpen) (\<lambda>_.
     sbind (verify_init_batch_count (is_id current) expected d) (\<lambda>_.
     let check = init_reproposal_candidate_summary (is_id current) d in
     sbind (fail_if (stored_budget_exceeded check 0 0) ErrCompletionBudgetExceeded) (\<lambda>_. Inr check))))"

text \<open>
  \<^verbatim>\<open>json_each(?, '$.relationIds')\<close> finds the first member of that very name, and \<^verbatim>\<open>CAST\<close> reads
  the longest numeric prefix of a text, 0 without one; a NULL is in no list.
\<close>

definition cast_integer :: "string \<Rightarrow> int" where
  "cast_integer s =
     (let s = dropWhile (\<lambda>c. c \<in> {CHR '' '', CHR 0x09, CHR 0x0A, CHR 0x0B, CHR 0x0C, CHR 0x0D}) s;
          negative = (s \<noteq> [] \<and> hd s = CHR ''-'');
          t = (if s \<noteq> [] \<and> (hd s = CHR ''-'' \<or> hd s = CHR ''+'') then tl s else s);
          n = foldl (\<lambda>n c. 10 * n + (int (byte c) - 48)) 0 (takeWhile (\<lambda>c. 48 \<le> byte c \<and> byte c \<le> 57) t) in
      if negative then max (- (2 ^ 63)) (- n) else min (2 ^ 63 - 1) n)"

definition scope_rows :: "string \<Rightarrow> int list" where
  "scope_rows scope =
     (case json_parse scope of
        Some (JObject ms) \<Rightarrow>
          (case map_of ms ''relationIds'' of
             Some (JArray vs) \<Rightarrow>
               map cast_integer (concat (map (\<lambda>v. case v of JString s \<Rightarrow> [s] | _ \<Rightarrow> []) vs))
           | _ \<Rightarrow> [])
      | _ \<Rightarrow> [])"

definition optional_length :: "string option \<Rightarrow> int" where
  "optional_length text = (case text of None \<Rightarrow> 0 | Some s \<Rightarrow> int (length s))"

text \<open>The rows of the query: the relation and the bytes of its conditions.\<close>

definition omitted_row :: "init_session \<Rightarrow> init_db \<Rightarrow> origin_row \<Rightarrow> (int \<times> int) list" where
  "omitted_row session d row =
     (case (find_relation (relations_db d) (og_relation row), find_current (relations_db d) (og_relation row)) of
        (Some _, Some c) \<Rightarrow>
          (case cr_active c of
             None \<Rightarrow> []
           | Some active \<Rightarrow>
               (case find (\<lambda>v. vr_id v = active) (versions_t (relations_db d)) of
                  None \<Rightarrow> []
                | Some v \<Rightarrow>
                    if og_repository row = is_repository session \<and> cr_proposed c = None
                      \<and> (cr_status c = StatusApproved \<or> cr_status c = StatusSuppressed)
                      \<and> \<not> list_ex (\<lambda>(s, r, b). s = is_id session \<and> r = og_relation row) (seen_t d)
                    then [(og_relation row, optional_length (vr_guard v) + optional_length (vr_selector v)
                             + int (length (vr_transform v)))]
                    else []))
      | _ \<Rightarrow> [])"

definition omitted_rows :: "init_session \<Rightarrow> init_db \<Rightarrow> (int \<times> int) list" where
  "omitted_rows session d = sort_key fst (concat (map (omitted_row session d) (origins_t d)))"

fun take_omitted :: "completion_budget \<Rightarrow> (int \<times> int) list \<Rightarrow> int list \<Rightarrow> int \<Rightarrow> init_error + int list \<times> int" where
  "take_omitted budget [] ids bytes = Inr (ids, bytes)"
| "take_omitted budget ((relation_id, n) # rows) ids bytes =
     (if int (length ids) \<ge> cb_candidates budget \<or> n < 0 \<or> bytes > cb_bytes budget - n
      then Inl ErrCompletionBudgetExceeded
      else take_omitted budget rows (ids @ [relation_id]) (bytes + n))"

definition list_omitted_relations ::
  "init_codec \<Rightarrow> init_session \<Rightarrow> completion_budget \<Rightarrow> init_db \<Rightarrow> init_error + omission_plan" where
  "list_omitted_relations ic session budget d =
     sbind (fail_if (cb_candidates budget < 0 \<or> cb_candidates budget > maximum_completion_candidates
       \<or> cb_bytes budget < 0 \<or> cb_bytes budget > maximum_completion_candidate_raw_bytes)
       ErrCompletionBudgetExceeded) (\<lambda>_.
     sbind (if is_mode session = ModeIncremental
            then map_sum id (\<lambda>ids. if ids = [] then None
                   else Some (filter (\<lambda>r. fst r \<in> set (scope_rows (is_scope session))) (omitted_rows session d)))
                 (incremental_relation_ids (is_scope session))
            else Inr (Some (omitted_rows session d))) (\<lambda>rows.
     case rows of
       None \<Rightarrow> Inr \<lparr>op_relations = [], op_bytes = 0\<rparr>
     | Some rows \<Rightarrow>
         sbind (take_omitted budget (take (nat (cb_candidates budget) + 1) rows) [] 0) (\<lambda>(ids, bytes).
         sbind (map_result (read_relation ic d) ids) (\<lambda>omitted.
         Inr \<lparr>op_relations = omitted, op_bytes = bytes\<rparr>))))"

fun candidate_ast_raw_bytes :: "codec \<Rightarrow> proposal_record list \<Rightarrow> int \<Rightarrow> init_error + int" where
  "candidate_ast_raw_bytes cd [] total_bytes = Inr total_bytes"
| "candidate_ast_raw_bytes cd (p # ps) total_bytes =
     (let rv = p_revision p;
          texts = (case rv_guard rv of None \<Rightarrow> [] | Some g \<Rightarrow> [marshal_boolean cd g])
            @ (case rv_selector rv of None \<Rightarrow> [] | Some s \<Rightarrow> [marshal_boolean cd s])
            @ [marshal_value cd (rv_transform rv)] in
      sbind (add_lengths (map (map_option length) texts) total_bytes) (\<lambda>(total_bytes, over).
      if over then Inr total_bytes else candidate_ast_raw_bytes cd ps total_bytes))"

text \<open>\<^verbatim>\<open>ORDER BY batch_id, relation_id\<close>, and the loop over the rows.\<close>

fun load_candidates ::
  "init_codec \<Rightarrow> int \<Rightarrow> int \<Rightarrow> candidate_row list \<Rightarrow> proposal_record list \<Rightarrow> int
    \<Rightarrow> init_error + proposal_record list" where
  "load_candidates ic candidate_limit byte_limit [] candidates bytes = Inr candidates"
| "load_candidates ic candidate_limit byte_limit (row # rows) candidates bytes =
     (let n = int (length (ca_json row)) in
      if int (length candidates) \<ge> candidate_limit \<or> n > byte_limit - bytes
      then Inl ErrCompletionBudgetExceeded
      else
        (case jc_unmarshal_record ic (ca_json row) of
           None \<Rightarrow> Inl ErrInvalidInit
         | Some p \<Rightarrow>
             if p_relation_id p \<noteq> ca_relation row then Inl ErrInvalidInit
             else load_candidates ic candidate_limit byte_limit rows (candidates @ [p]) (bytes + n)))"

definition load_init_reproposal_candidates ::
  "init_codec \<Rightarrow> int \<Rightarrow> int \<Rightarrow> int \<Rightarrow> init_db \<Rightarrow> init_error + proposal_record list" where
  "load_init_reproposal_candidates ic session_id candidate_limit byte_limit d =
     load_candidates ic candidate_limit byte_limit
       (sort_key ca_batch (sort_key ca_relation (session_candidates session_id d))) [] 0"

fun propose_candidates ::
  "init_codec \<Rightarrow> init_engine \<Rightarrow> proposal_record list \<Rightarrow> init_db \<Rightarrow> init_error + int list \<times> init_db" where
  "propose_candidates ic ie [] d = Inr ([], d)"
| "propose_candidates ic ie (p # ps) d =
     sbind (on_relations (insert_revision_proposal (jc_relations ic) (relation_engine ie) p) d) (\<lambda>(r, d).
     sbind (propose_candidates ic ie ps d) (\<lambda>(ids, d). Inr (r_id r # ids, d)))"

definition close_session :: "int \<Rightarrow> int \<Rightarrow> init_db \<Rightarrow> init_db" where
  "close_session session_id completed_at d =
     d\<lparr>sessions_t := map (\<lambda>s. if is_id s = session_id \<and> is_status s = InitOpen
         then s\<lparr>is_status := InitCompleted, is_completed_at := Some completed_at\<rparr> else s) (sessions_t d)\<rparr>"

definition complete_session ::
  "init_codec \<Rightarrow> init_engine \<Rightarrow> completion_record \<Rightarrow> (init_db, init_error, init_completion) action" where
  "complete_session ic ie cn =
     init_write ie (\<lambda>d.
       sbind (get_init_session (is_id (cn_session cn)) d) (\<lambda>session.
       sbind (fail_if (is_status session \<noteq> InitOpen) ErrInitNotOpen) (\<lambda>_.
       sbind (verify_init_batch_count (is_id session) (cn_expected cn) d) (\<lambda>_.
       let check = init_reproposal_candidate_summary (is_id session) d;
           n = int (length (cn_candidates cn)) in
       sbind (fail_if (stored_budget_exceeded check n 0) ErrCompletionBudgetExceeded) (\<lambda>_.
       sbind (candidate_ast_raw_bytes (jc_relations ic) (cn_candidates cn) 0) (\<lambda>bytes.
       sbind (fail_if (stored_budget_exceeded check n bytes) ErrCompletionBudgetExceeded) (\<lambda>_.
       sbind (load_init_reproposal_candidates ic (is_id session) (maximum_completion_candidates - n)
         (maximum_completion_candidate_raw_bytes - bytes) d) (\<lambda>deferred.
       sbind (propose_candidates ic ie (deferred @ cn_candidates cn) d) (\<lambda>(ids, d).
       sbind (init_exec ie (CompleteSession (is_id session)) (\<lambda>_. True)
         (close_session (is_id session) (cn_completed_at cn)) d) (\<lambda>d.
       sbind (insert_init_audit ie (cn_audit cn) (is_id session) ''RELATION_INIT_COMPLETED'' (cn_principal cn)
         (cn_reason cn) (cn_request_id cn) (cn_completed_at cn) d) (\<lambda>d.
       Inr (\<lparr>ic_session = session\<lparr>is_status := InitCompleted, is_completed_at := Some (cn_completed_at cn)\<rparr>,
             ic_relations = ids\<rparr>, d))))))))))))"

text \<open>\<^verbatim>\<open>ORDER BY created_at DESC, id DESC LIMIT ?\<close>, by the text of the time.\<close>

definition list_stored_unresolved :: "int \<Rightarrow> init_db \<Rightarrow> init_error + unresolved list" where
  "list_stored_unresolved n d =
     Inr (take_limit n (rev (sort_key (\<lambda>f. rfc3339_nano (uf_created_at f)) (sort_key uf_id
       (filter (\<lambda>f. uf_status f = 1) (findings_t d))))))"

definition sqlite_init_repository :: "init_codec \<Rightarrow> init_engine \<Rightarrow> init_db init_repository" where
  "sqlite_init_repository ic ie =
     \<lparr>ir_begin = begin_session ie, ir_get = get_init_session, ir_submit = submit_stored_batch ic ie,
      ir_check = check_completion, ir_omitted = list_omitted_relations ic,
      ir_complete = complete_session ic ie, ir_unresolved = list_stored_unresolved\<rparr>"

text \<open>The relation repository on the same database.\<close>

definition lift_relations :: "(db, relation_error, 'a) action \<Rightarrow> (init_db, relation_error, 'a) action" where
  "lift_relations m d = (case m (relations_db d) of (r, rd) \<Rightarrow> (r, d\<lparr>relations_db := rd\<rparr>))"

definition relations_beside_sessions :: "codec \<Rightarrow> engine \<Rightarrow> init_db repository" where
  "relations_beside_sessions cd eng =
     (let repo = sqlite_repository cd eng in
      \<lparr>repo_propose_create = (\<lambda>p. lift_relations (repo_propose_create repo p)),
       repo_propose_revision = (\<lambda>p. lift_relations (repo_propose_revision repo p)),
       repo_review = (\<lambda>w. lift_relations (repo_review repo w)),
       repo_suppress = (\<lambda>t. lift_relations (repo_suppress repo t)),
       repo_restore = (\<lambda>t. lift_relations (repo_restore repo t)),
       repo_get = (\<lambda>i d. repo_get repo i (relations_db d)),
       repo_list_proposals = (\<lambda>n d. repo_list_proposals repo n (relations_db d))\<rparr>)"

end
