(* ===== verification/ReconcileEffects.thy ===== *)
theory ReconcileEffects
  imports ReconcileRepository
begin

section \<open>What the operations on sessions write\<close>

text \<open>
  The three writes of \<open>sqlite_init_repository\<close>, when they succeed, as relations between the
  tables before and after. A batch and a completion change the relation tables only by adding
  proposals, \<open>proposals_added\<close>, and every fact about relations is read off that.
\<close>

subsection \<open>Proposals added to the relation tables\<close>

inductive proposals_added :: "codec \<Rightarrow> engine \<Rightarrow> db \<Rightarrow> db \<Rightarrow> bool" for cd :: codec and eng :: engine where
  none: "proposals_added cd eng d d"
| create: "proposals_added cd eng d d1 \<Longrightarrow> insert_create_proposal cd eng p d1 = Inr (r, d2)
    \<Longrightarrow> proposals_added cd eng d d2"
| revise: "proposals_added cd eng d d1 \<Longrightarrow> insert_revision_proposal cd eng p d1 = Inr (r, d2)
    \<Longrightarrow> proposals_added cd eng d d2"

lemma proposals_added_trans:
  assumes "proposals_added cd eng d1 d2" "proposals_added cd eng d0 d1"
  shows "proposals_added cd eng d0 d2"
  using assms by induction (auto intro: proposals_added.intros)

lemma proposals_added_inv: "proposals_added cd eng d d' \<Longrightarrow> store_inv cd d \<Longrightarrow> store_inv cd d'"
  by (induction rule: proposals_added.induct) (auto intro: inv_create inv_revise)

text \<open>
  What adding proposals keeps: the published edges, and of each relation its status, its active
  version and a proposal that is pending; only the number of the latest revision grows.
\<close>

definition row_kept :: "current_row \<Rightarrow> current_row \<Rightarrow> bool" where
  "row_kept c c' \<longleftrightarrow>
     cr_relation c' = cr_relation c \<and> cr_status c' = cr_status c \<and> cr_active c' = cr_active c
     \<and> cr_latest c \<le> cr_latest c' \<and> (cr_proposed c \<noteq> None \<longrightarrow> c' = c)"

definition only_proposed :: "db \<Rightarrow> db \<Rightarrow> bool" where
  "only_proposed d d' \<longleftrightarrow>
     effective_t d' = effective_t d \<and> suppressions_t d' = suppressions_t d
     \<and> (\<exists>rs. relations_t d' = relations_t d @ rs) \<and> (\<exists>vs. versions_t d' = versions_t d @ vs)
     \<and> (\<forall>i c. find_current d i = Some c \<longrightarrow> (\<exists>c'. find_current d' i = Some c' \<and> row_kept c c'))"

lemma only_proposed_refl: "only_proposed d d"
  by (simp add: only_proposed_def row_kept_def)

lemma row_kept_trans: "row_kept a b \<Longrightarrow> row_kept b c \<Longrightarrow> row_kept a c"
  by (cases "cr_proposed a") (simp_all add: row_kept_def)

lemma only_proposed_trans:
  assumes "only_proposed a b" "only_proposed b c"
  shows "only_proposed a c"
proof -
  have "\<exists>c'. find_current c i = Some c' \<and> row_kept x c'" if old: "find_current a i = Some x" for i x
  proof -
    obtain x1 where "find_current b i = Some x1" "row_kept x x1"
      using assms(1) old unfolding only_proposed_def by blast
    moreover then obtain x2 where "find_current c i = Some x2" "row_kept x1 x2"
      using assms(2) unfolding only_proposed_def by blast
    ultimately show ?thesis using row_kept_trans by blast
  qed
  moreover obtain rs rs' vs vs' where
    "relations_t b = relations_t a @ rs" "relations_t c = relations_t b @ rs'"
    "versions_t b = versions_t a @ vs" "versions_t c = versions_t b @ vs'"
    using assms unfolding only_proposed_def by blast
  moreover have "effective_t c = effective_t a" "suppressions_t c = suppressions_t a"
    using assms by (simp_all add: only_proposed_def)
  ultimately show ?thesis by (simp add: only_proposed_def)
qed

lemma find_current_append:
  "find_current d i = Some c \<Longrightarrow> current_t d' = current_t d @ cs \<Longrightarrow> find_current d' i = Some c"
  by (simp add: find_current_def find_append)

lemma create_only_proposed:
  assumes "insert_create_proposal cd eng p d = Inr (r, d')"
  shows "only_proposed d d'"
proof -
  obtain row where d': "d' = created_tables p row d" using create_effect [OF assms] by blast
  then have "current_t d' = current_t d @ [created_current p]"
    by (simp add: created_tables_def Let_def frame_simps)
  then have "\<exists>c'. find_current d' i = Some c' \<and> row_kept c c'" if "find_current d i = Some c" for i c
    using find_current_append [OF that] by (simp add: row_kept_def)
  then show ?thesis
    by (simp add: only_proposed_def d' created_tables_def Let_def frame_simps)
qed

lemma revise_only_proposed:
  assumes "insert_revision_proposal cd eng p d = Inr (r, d')"
  shows "only_proposed d d'"
proof -
  let ?i = "rv_relation_id (p_revision p)"
  obtain row c where e: "d' = revised_tables p row d" "find_current d ?i = Some c"
      "rv_revision_no (p_revision p) = cr_latest c + 1" "cr_proposed c = None"
    using revise_effect [OF assms] by blast
  have "\<exists>c'. find_current d' i = Some c' \<and> row_kept x c'" if "find_current d i = Some x" for i x
    using that e
    by (cases "i = ?i") (auto simp: revised_tables_def Let_def find_current_updated frame_simps row_kept_def)
  then show ?thesis
    by (simp add: only_proposed_def e(1) revised_tables_def updated_tables_def Let_def frame_simps)
qed

lemma proposals_only_proposed: "proposals_added cd eng d d' \<Longrightarrow> only_proposed d d'"
proof (induction rule: proposals_added.induct)
  case (none d)
  show ?case by (rule only_proposed_refl)
next
  case (create d d1 p r d2)
  show ?case by (rule only_proposed_trans [OF create.IH create_only_proposed [OF create.hyps(2)]])
next
  case (revise d d1 p r d2)
  show ?case by (rule only_proposed_trans [OF revise.IH revise_only_proposed [OF revise.hyps(2)]])
qed

lemma only_proposed_ids:
  "only_proposed d d' \<Longrightarrow> set (relation_ids d) \<subseteq> set (relation_ids d')"
  by (auto simp: only_proposed_def relation_ids_def)

text \<open>Tables of sessions that a change of the relation tables leaves alone.\<close>

definition beside :: "db \<Rightarrow> init_db \<Rightarrow> init_db" where
  "beside rd d = d\<lparr>relations_db := rd\<rparr>"

lemma beside_simps [frame_simps]:
  "relations_db (beside rd d) = rd" "sessions_t (beside rd d) = sessions_t d"
  "batches_t (beside rd d) = batches_t d" "candidates_t (beside rd d) = candidates_t d"
  "seen_t (beside rd d) = seen_t d" "origins_t (beside rd d) = origins_t d"
  "findings_t (beside rd d) = findings_t d" "repositories_t (beside rd d) = repositories_t d"
  "init_audit_t (beside rd d) = init_audit_t d"
  "beside rd (beside rd' d) = beside rd d" "beside (relations_db d) d = d"
  by (simp_all add: beside_def)

lemma on_relations_Inr:
  "on_relations operation d = Inr (x, d') \<longleftrightarrow>
     (\<exists>rd. operation (relations_db d) = Inr (x, rd) \<and> d' = beside rd d)"
  by (auto simp: on_relations_def beside_def split: sum.splits)

lemma init_write_Inr [result_simps]:
  "init_write ie m d = (Inr x, d') \<longleftrightarrow>
     m d = Inr (x, d') \<and> ie QueueInit \<and> ie StartInit \<and> ie CommitInit \<and> ie AnswerInit"
  by (auto simp: init_write_def execute_init_def split: sum.splits prod.splits if_splits)

lemma init_write_Inl: "init_write ie m d = (Inl e, d') \<Longrightarrow> d' = d \<or> e = InitContextEnded \<and> \<not> ie AnswerInit"
  by (auto simp: init_write_def execute_init_def split: sum.splits prod.splits if_splits)

subsection \<open>Callers that wait\<close>

text \<open>The same engine, with callers that wait for their answers: what is done to the tables is the same.\<close>

definition awaited_init :: "init_engine \<Rightarrow> init_engine" where
  "awaited_init ie = (\<lambda>st. st = AnswerInit \<or> st = RelationStatement AwaitAnswer \<or> ie st)"

lemma awaited_init_simps [simp]:
  "awaited_init ie AnswerInit" "relation_engine (awaited_init ie) = awaited (relation_engine ie)"
  "st \<noteq> AnswerInit \<Longrightarrow> st \<noteq> RelationStatement AwaitAnswer \<Longrightarrow> awaited_init ie st = ie st"
  by (auto simp: awaited_init_def relation_engine_def awaited_def fun_eq_iff)

lemma init_exec_awaited:
  "st \<noteq> AnswerInit \<Longrightarrow> st \<noteq> RelationStatement AwaitAnswer \<Longrightarrow> init_exec (awaited_init ie) st = init_exec ie st"
  by (simp add: init_exec_def fun_eq_iff)

lemma init_statements_awaited:
  "insert_session_row (awaited_init ie) = insert_session_row ie"
  "insert_init_audit (awaited_init ie) = insert_init_audit ie"
  "insert_batch_row (awaited_init ie) = insert_batch_row ie"
  "insert_init_reproposal_candidate ic (awaited_init ie) = insert_init_reproposal_candidate ic ie"
  "record_seen (awaited_init ie) = record_seen ie" "insert_finding (awaited_init ie) = insert_finding ie"
  by (simp_all add: fun_eq_iff insert_session_row_def insert_init_audit_def insert_batch_row_def
      insert_init_reproposal_candidate_def record_seen_def insert_finding_def init_exec_awaited Let_def
      cong: option.case_cong)

lemma accept_proposal_awaited: "accept_proposal ic (awaited_init ie) = accept_proposal ic ie"
  by (simp add: fun_eq_iff accept_proposal_def operations_awaited cong: option.case_cong)

lemma accept_proposals_awaited: "accept_proposals ic (awaited_init ie) n ps q d = accept_proposals ic ie n ps q d"
  by (induction ps arbitrary: q d) (simp_all add: accept_proposal_awaited)

lemma propose_candidates_awaited: "propose_candidates ic (awaited_init ie) ps d = propose_candidates ic ie ps d"
  by (induction ps arbitrary: d) (simp_all add: operations_awaited)

lemma accept_batch_awaited: "accept_batch ic (awaited_init ie) = accept_batch ic ie"
  by (simp add: fun_eq_iff accept_batch_def accept_proposals_awaited init_statements_awaited Let_def
      cong: option.case_cong)

lemma init_write_awaited: "snd (init_write (awaited_init ie) m d) = snd (init_write ie m d)"
  by (auto simp: init_write_def execute_init_def split: sum.splits prod.splits)

lemma writes_awaited:
  "snd (begin_session (awaited_init ie) s d) = snd (begin_session ie s d)"
  "snd (submit_stored_batch ic (awaited_init ie) b d) = snd (submit_stored_batch ic ie b d)"
  "snd (complete_session ic (awaited_init ie) cn d) = snd (complete_session ic ie cn d)"
  by (simp_all add: begin_session_def submit_stored_batch_def complete_session_def init_statements_awaited
      accept_batch_awaited propose_candidates_awaited init_exec_awaited Let_def init_write_awaited
      cong: option.case_cong sum.case_cong if_cong)

subsection \<open>A batch\<close>

lemma accept_proposal_effect:
  assumes "accept_proposal ic ie session_id p deferred d = Inr (item, deferred', d')"
  shows "\<exists>rd. d' = beside rd d \<and> proposals_added (jc_relations ic) (relation_engine ie) (relations_db d) rd"
proof (cases "find (\<lambda>r. rr_fingerprint r = p_fingerprint p) (relations_t (relations_db d))")
  case None
  with assms show ?thesis
    by (auto simp: accept_proposal_def result_simps on_relations_Inr intro: proposals_added.intros)
next
  case (Some row)
  with assms have "d' = beside (relations_db d) d"
    by (auto simp: accept_proposal_def result_simps frame_simps split: option.splits if_splits)
  then show ?thesis by (auto intro: proposals_added.none)
qed

lemma accept_proposals_effect:
  "accept_proposals ic ie session_id ps deferred d = Inr (items, deferred', d') \<Longrightarrow>
     \<exists>rd. d' = beside rd d \<and> proposals_added (jc_relations ic) (relation_engine ie) (relations_db d) rd"
proof (induction ps arbitrary: items deferred d)
  case Nil
  then show ?case by (intro exI [of _ "relations_db d"]) (auto simp: frame_simps intro: proposals_added.none)
next
  case (Cons p ps)
  from Cons.prems obtain item deferred1 d1 items' where
    1: "accept_proposal ic ie session_id p deferred d = Inr (item, deferred1, d1)" and
    2: "accept_proposals ic ie session_id ps deferred1 d1 = Inr (items', deferred', d')"
    by (auto simp: result_simps)
  obtain rd1 where d1: "d1 = beside rd1 d"
      "proposals_added (jc_relations ic) (relation_engine ie) (relations_db d) rd1"
    using accept_proposal_effect [OF 1] by blast
  obtain rd2 where "d' = beside rd2 d1"
      "proposals_added (jc_relations ic) (relation_engine ie) (relations_db d1) rd2"
    using Cons.IH [OF 2] by blast
  with d1 show ?case
    by (intro exI [of _ rd2]) (auto simp: frame_simps intro: proposals_added_trans)
qed

text \<open>A relation that a batch of the session returned.\<close>

definition seen_in :: "int \<Rightarrow> init_db \<Rightarrow> int \<Rightarrow> bool" where
  "seen_in session_id d i \<longleftrightarrow> list_ex (\<lambda>(s, r, b). s = session_id \<and> r = i) (seen_t d)"

lemma seen_in_append:
  "seen_t d' = seen_t d @ ss \<Longrightarrow> seen_in n d' i \<longleftrightarrow> seen_in n d i \<or> list_ex (\<lambda>(s, r, b). s = n \<and> r = i) ss"
  by (simp add: seen_in_def)

lemma fold_candidates:
  "fold_result (insert_init_reproposal_candidate ic ie session_id batch_id) ps d = Inr d' \<Longrightarrow>
     \<exists>cs. d' = d\<lparr>candidates_t := candidates_t d @ cs\<rparr> \<and> (\<forall>c\<in>set cs. ca_session c = session_id)"
proof (induction ps arbitrary: d)
  case Nil
  then show ?case by (intro exI [of _ "[]"]) simp
next
  case (Cons p ps)
  from Cons.prems obtain d1 where
    1: "insert_init_reproposal_candidate ic ie session_id batch_id p d = Inr d1" and
    2: "fold_result (insert_init_reproposal_candidate ic ie session_id batch_id) ps d1 = Inr d'"
    by (auto simp: result_simps)
  obtain c where c: "d1 = d\<lparr>candidates_t := candidates_t d @ [c]\<rparr>" "ca_session c = session_id"
    using 1 by (auto simp: insert_init_reproposal_candidate_def Let_def result_simps split: option.splits)
  obtain cs where "d' = d1\<lparr>candidates_t := candidates_t d1 @ cs\<rparr>" "\<forall>c\<in>set cs. ca_session c = session_id"
    using Cons.IH [OF 2] by blast
  with c show ?case by (intro exI [of _ "c # cs"]) simp
qed

lemma fold_seen:
  "fold_result (record_seen ie session batch_id accepted_at) ids d = Inr d' \<Longrightarrow>
     \<exists>ss os. d' = d\<lparr>seen_t := seen_t d @ ss, origins_t := origins_t d @ os\<rparr>
       \<and> (\<forall>x\<in>set ss. fst x = is_id session) \<and> (\<forall>i\<in>set ids. seen_in (is_id session) d' i)
       \<and> (\<forall>x\<in>set os. og_relation x \<in> set ids \<and> og_repository x = is_repository session)"
proof (induction ids arbitrary: d)
  case Nil
  then show ?case by (intro exI [of _ "[]"]) simp
next
  case (Cons i ids)
  from Cons.prems obtain d1 where
    1: "record_seen ie session batch_id accepted_at i d = Inr d1" and
    2: "fold_result (record_seen ie session batch_id accepted_at) ids d1 = Inr d'"
    by (auto simp: result_simps)
  have "\<exists>ss os. d1 = d\<lparr>seen_t := seen_t d @ ss, origins_t := origins_t d @ os\<rparr>
      \<and> (\<forall>x\<in>set ss. fst x = is_id session) \<and> seen_in (is_id session) d1 i
      \<and> (\<forall>x\<in>set os. og_relation x = i \<and> og_repository x = is_repository session)"
    using 1
    by (intro exI [of _ "if seen_in (is_id session) d i then [] else [(is_id session, i, batch_id)]"]
        exI [of _ "if i \<in> set (map og_relation (origins_t d)) then []
          else [\<lparr>og_relation = i, og_repository = is_repository session, og_session = is_id session,
                 og_created_at = accepted_at\<rparr>]"])
      (auto simp: record_seen_def Let_def result_simps seen_in_def split: if_splits)
  then obtain ss os where d1: "d1 = d\<lparr>seen_t := seen_t d @ ss, origins_t := origins_t d @ os\<rparr>"
      "\<forall>x\<in>set ss. fst x = is_id session" "seen_in (is_id session) d1 i"
      "\<forall>x\<in>set os. og_relation x = i \<and> og_repository x = is_repository session"
    by blast
  obtain ss' os' where d': "d' = d1\<lparr>seen_t := seen_t d1 @ ss', origins_t := origins_t d1 @ os'\<rparr>"
      "\<forall>x\<in>set ss'. fst x = is_id session" "\<forall>i\<in>set ids. seen_in (is_id session) d' i"
      "\<forall>x\<in>set os'. og_relation x \<in> set ids \<and> og_repository x = is_repository session"
    using Cons.IH [OF 2] by blast
  have "seen_in (is_id session) d' i"
    using d1(3) d'(1) seen_in_append [of d' d1 ss' "is_id session" i] by simp
  with d1 d' show ?case
    by (intro exI [of _ "ss @ ss'"] exI [of _ "os @ os'"]) auto
qed

lemma fold_findings:
  "fold_result (insert_finding ie batch_id) fs d = Inr d' \<Longrightarrow>
     \<exists>xs. d' = d\<lparr>findings_t := findings_t d @ xs\<rparr>"
proof (induction fs arbitrary: d)
  case Nil
  then show ?case by (intro exI [of _ "[]"]) simp
next
  case (Cons f fs)
  from Cons.prems obtain d1 where 1: "insert_finding ie batch_id f d = Inr d1" and
    2: "fold_result (insert_finding ie batch_id) fs d1 = Inr d'"
    by (auto simp: result_simps)
  obtain x where x: "d1 = d\<lparr>findings_t := findings_t d @ [x]\<rparr>"
    using 1 by (auto simp: insert_finding_def Let_def result_simps)
  obtain xs where "d' = d1\<lparr>findings_t := findings_t d1 @ xs\<rparr>" using Cons.IH [OF 2] by blast
  with x show ?case by (intro exI [of _ "x # xs"]) simp
qed

lemma insert_init_audit_Inr:
  "insert_init_audit ie audit_id session_id action p reason request_id now d = Inr d' \<Longrightarrow>
     \<exists>a. d' = d\<lparr>init_audit_t := init_audit_t d @ [a]\<rparr>"
  by (auto simp: insert_init_audit_def Let_def result_simps)

definition batch_row_of :: "batch_record \<Rightarrow> init_session \<Rightarrow> string \<Rightarrow> batch_row" where
  "batch_row_of b session text =
     \<lparr>bt_id = bc_batch b, bt_session = is_id session, bt_no = bc_no b, bt_key = bc_key b,
      bt_digest = bc_digest b, bt_proposals = int (length (bc_proposals b)),
      bt_unresolved = int (length (bc_unresolved b)), bt_result = text,
      bt_accepted_at = bc_accepted_at b\<rparr>"

lemma batch_row_of_simps [simp]:
  "bt_id (batch_row_of b session text) = bc_batch b" "bt_no (batch_row_of b session text) = bc_no b"
  "bt_session (batch_row_of b session text) = is_id session" "bt_key (batch_row_of b session text) = bc_key b"
  "bt_digest (batch_row_of b session text) = bc_digest b" "bt_result (batch_row_of b session text) = text"
  by (simp_all add: batch_row_of_def)

lemma accept_batch_effect:
  assumes "accept_batch ic ie b session d = Inr (result, d')"
  shows "\<exists>rd encoded cs ss os fs a. d' = (beside rd d)\<lparr>batches_t := batches_t d @ [batch_row_of b session encoded],
        candidates_t := candidates_t d @ cs, seen_t := seen_t d @ ss, origins_t := origins_t d @ os,
        findings_t := findings_t d @ fs, init_audit_t := init_audit_t d @ [a]\<rparr>
    \<and> proposals_added (jc_relations ic) (relation_engine ie) (relations_db d) rd
    \<and> jc_marshal_result ic result = Some encoded
    \<and> bc_batch b > 0 \<and> bc_no b > 0 \<and> bc_batch b \<notin> set (map bt_id (batches_t d))
    \<and> bc_no b \<notin> set (map bt_no (session_batches (is_id session) d))
    \<and> bc_key b \<notin> set (map bt_key (session_batches (is_id session) d))
    \<and> (\<forall>c\<in>set cs. ca_session c = is_id session) \<and> (\<forall>x\<in>set ss. fst x = is_id session)
    \<and> (\<forall>x\<in>set os. og_repository x = is_repository session)
    \<and> (\<forall>i\<in>fst ` set (br_items result). seen_in (is_id session) d' i)"
proof -
  from assms obtain items deferred d0 encoded d1 d2 d3 d4 where
    0: "accept_proposals ic ie (is_id session) (bc_proposals b) [] d = Inr (items, deferred, d0)" and
    result: "jc_marshal_result ic result = Some encoded" "br_items result = items" and
    1: "insert_batch_row ie (batch_row_of b session encoded) d0 = Inr d1" and
    2: "fold_result (insert_init_reproposal_candidate ic ie (is_id session) (bc_batch b)) deferred d1 = Inr d2" and
    3: "fold_result (record_seen ie session (bc_batch b) (bc_accepted_at b)) (map fst items) d2 = Inr d3" and
    4: "fold_result (insert_finding ie (bc_batch b))
          (filter (\<lambda>f. open_finding f d0 = None) (bc_unresolved b)) d3 = Inr d4" and
    5: "insert_init_audit ie (bc_batch b) (is_id session) ''RELATION_INIT_BATCH_ACCEPTED''
           (is_principal session) ''Accept a bounded relation initialization batch.'' (bc_request_id b)
           (bc_accepted_at b) d4 = Inr d'"
    by (auto simp: accept_batch_def Let_def batch_row_of_def result_simps split: option.splits)
  obtain rd where d0: "d0 = beside rd d"
      "proposals_added (jc_relations ic) (relation_engine ie) (relations_db d) rd"
    using accept_proposals_effect [OF 0] by blast
  have d1: "d1 = d0\<lparr>batches_t := batches_t d0 @ [batch_row_of b session encoded]\<rparr>"
    "bc_batch b > 0" "bc_no b > 0" "bc_batch b \<notin> set (map bt_id (batches_t d0))"
    "bc_no b \<notin> set (map bt_no (session_batches (is_id session) d0))"
    "bc_key b \<notin> set (map bt_key (session_batches (is_id session) d0))"
    using 1 by (auto simp: insert_batch_row_def result_simps)
  obtain cs where d2: "d2 = d1\<lparr>candidates_t := candidates_t d1 @ cs\<rparr>" "\<forall>c\<in>set cs. ca_session c = is_id session"
    using fold_candidates [OF 2] by blast
  obtain ss os where d3: "d3 = d2\<lparr>seen_t := seen_t d2 @ ss, origins_t := origins_t d2 @ os\<rparr>"
      "\<forall>x\<in>set ss. fst x = is_id session" "\<forall>i\<in>set (map fst items). seen_in (is_id session) d3 i"
      "\<forall>x\<in>set os. og_repository x = is_repository session"
    using fold_seen [OF 3] by blast
  obtain fs where d4: "d4 = d3\<lparr>findings_t := findings_t d3 @ fs\<rparr>" using fold_findings [OF 4] by blast
  obtain a where d5: "d' = d4\<lparr>init_audit_t := init_audit_t d4 @ [a]\<rparr>"
    using insert_init_audit_Inr [OF 5] by blast
  have "seen_in (is_id session) d' i = seen_in (is_id session) d3 i" for i
    by (simp add: seen_in_def d4 d5)
  then show ?thesis
    using d0 d1 d2 d3 d4 d5 result
    by (intro exI [of _ rd] exI [of _ encoded] exI [of _ cs] exI [of _ ss] exI [of _ os] exI [of _ fs]
        exI [of _ a]) (simp add: frame_simps session_batches_def)
qed

subsection \<open>A completion\<close>

text \<open>Adding proposals never touches a relation whose proposal is pending.\<close>

lemma pending_kept:
  "proposals_added cd eng d d' \<Longrightarrow> store_inv cd d \<Longrightarrow> lifecycle_of d i = Some l \<Longrightarrow> lc_proposed l \<noteq> None \<Longrightarrow>
     lifecycle_of d' i = Some l"
proof (induction rule: proposals_added.induct)
  case (create d d1 p r d2)
  note inv = proposals_added_inv [OF create.hyps(1) create.prems(1)]
  show ?case
    using lifecycle_create [OF inv create.hyps(2)] create.IH [OF create.prems]
    by (cases "i = p_relation_id p") auto
next
  case (revise d d1 p r d2)
  note inv = proposals_added_inv [OF revise.hyps(1) revise.prems(1)]
  show ?case
    using lifecycle_revise [OF inv revise.hyps(2)] revise.IH [OF revise.prems] revise.prems(3)
    by (cases "i = rv_relation_id (p_revision p)") auto
qed simp

lemma not_pending_before:
  "proposals_added cd eng d d' \<Longrightarrow> store_inv cd d \<Longrightarrow> lifecycle_of d i \<noteq> None \<Longrightarrow>
     lifecycle_of d' i = Some l \<Longrightarrow> lc_proposed l = None \<Longrightarrow> lifecycle_of d i = Some l"
proof (induction arbitrary: l rule: proposals_added.induct)
  case (create d d1 p r d2)
  note inv = proposals_added_inv [OF create.hyps(1) create.prems(1)]
  show ?case
    using lifecycle_create [OF inv create.hyps(2)] create
    by (cases "i = p_relation_id p") auto
next
  case (revise d d1 p r d2)
  note inv = proposals_added_inv [OF revise.hyps(1) revise.prems(1)]
  show ?case
    using lifecycle_revise [OF inv revise.hyps(2)] revise
    by (cases "i = rv_relation_id (p_revision p)") auto
qed simp

text \<open>A candidate fits the relation it revises; and it is the pending proposal.\<close>

definition candidate_fits :: "db \<Rightarrow> proposal_record \<Rightarrow> bool" where
  "candidate_fits d p \<longleftrightarrow> lifecycle_allows (CallRevise p) (lifecycle_of d (rv_relation_id (p_revision p)))"

definition candidate_pending :: "db \<Rightarrow> proposal_record \<Rightarrow> bool" where
  "candidate_pending d p \<longleftrightarrow>
     (\<exists>l. lifecycle_of d (rv_relation_id (p_revision p)) = Some l
        \<and> lc_proposed l = Some (rv_kind (p_revision p)) \<and> lc_latest l = rv_revision_no (p_revision p))"

lemma revise_candidate:
  assumes "store_inv cd d" "insert_revision_proposal cd eng p d = Inr (r, d')"
  shows "candidate_fits d p \<and> candidate_pending d' p \<and> r_id r = rv_relation_id (p_revision p)"
proof -
  have "r_id r = rv_relation_id (p_revision p)"
    using revise_effect [OF assms(2)] load_relation_Inr by metis
  then show ?thesis
    using lifecycle_revise [OF assms]
    by (auto simp: candidate_fits_def candidate_pending_def split: option.splits)
qed

lemma propose_candidates_effect:
  "propose_candidates ic ie ps d = Inr (ids, d') \<Longrightarrow> store_inv (jc_relations ic) (relations_db d) \<Longrightarrow>
     \<exists>rd. d' = beside rd d \<and> proposals_added (jc_relations ic) (relation_engine ie) (relations_db d) rd
       \<and> ids = map (\<lambda>p. rv_relation_id (p_revision p)) ps
       \<and> (\<forall>p\<in>set ps. candidate_pending rd p
            \<and> (lifecycle_of (relations_db d) (rv_relation_id (p_revision p)) \<noteq> None \<longrightarrow> candidate_fits (relations_db d) p))"
proof (induction ps arbitrary: ids d)
  case Nil
  then show ?case
    by (intro exI [of _ "relations_db d"]) (simp add: frame_simps proposals_added.none)
next
  case (Cons p ps)
  let ?cd = "jc_relations ic" and ?eng = "relation_engine ie"
  from Cons.prems(1) obtain r d1 ids1 where
    1: "on_relations (insert_revision_proposal ?cd ?eng p) d = Inr (r, d1)" and
    2: "propose_candidates ic ie ps d1 = Inr (ids1, d')" "ids = r_id r # ids1"
    by (auto simp: result_simps)
  obtain rd1 where rd1: "insert_revision_proposal ?cd ?eng p (relations_db d) = Inr (r, rd1)" "d1 = beside rd1 d"
    using 1 by (auto simp: on_relations_Inr)
  note first = revise_candidate [OF Cons.prems(2) rd1(1)]
  have added: "proposals_added ?cd ?eng (relations_db d) rd1"
    by (rule proposals_added.revise [OF proposals_added.none rd1(1)])
  note inv1 = inv_revise [OF Cons.prems(2) rd1(1)]
  from Cons.IH [OF 2(1)] inv1 rd1(2) obtain rd where rd: "d' = beside rd d1"
      "proposals_added ?cd ?eng rd1 rd" "ids1 = map (\<lambda>p. rv_relation_id (p_revision p)) ps" and
    rest: "\<And>q. q \<in> set ps \<Longrightarrow> candidate_pending rd q
      \<and> (lifecycle_of rd1 (rv_relation_id (p_revision q)) \<noteq> None \<longrightarrow> candidate_fits rd1 q)"
    by (auto simp: frame_simps)
  have "candidate_pending rd p"
    using first pending_kept [OF rd(2) inv1] by (auto simp: candidate_pending_def)
  moreover have "candidate_fits (relations_db d) q"
    if q: "q \<in> set ps" "lifecycle_of (relations_db d) (rv_relation_id (p_revision q)) \<noteq> None" for q
  proof -
    let ?i = "rv_relation_id (p_revision q)"
    have "lifecycle_of rd1 ?i \<noteq> None"
      using lifecycle_revise [OF Cons.prems(2) rd1(1)] q(2)
      by (cases "?i = rv_relation_id (p_revision p)") auto
    with rest [OF q(1)] obtain l where l: "lifecycle_of rd1 ?i = Some l" "lc_proposed l = None"
        "candidate_fits rd1 q"
      by (auto simp: candidate_fits_def split: option.splits)
    with not_pending_before [OF added Cons.prems(2) q(2) l(1,2)] show ?thesis
      by (simp add: candidate_fits_def)
  qed
  ultimately show ?case
    using first rd rd1(2) rest 2(2) proposals_added_trans [OF rd(2) added]
    by (intro exI [of _ rd]) (auto simp: frame_simps)
qed

lemma complete_session_effect:
  assumes "complete_session ic ie cn d = (Inr completion, d')" "store_inv (jc_relations ic) (relations_db d)"
  shows "\<exists>s rd a deferred. find (\<lambda>s. is_id s = is_id (cn_session cn)) (sessions_t d) = Some s
    \<and> is_status s = InitOpen \<and> verify_init_batch_count (is_id s) (cn_expected cn) d = Inr ()
    \<and> proposals_added (jc_relations ic) (relation_engine ie) (relations_db d) rd
    \<and> (\<exists>m n. load_init_reproposal_candidates ic (is_id s) m n d = Inr deferred)
    \<and> (\<forall>p\<in>set (deferred @ cn_candidates cn). candidate_pending rd p
         \<and> (lifecycle_of (relations_db d) (rv_relation_id (p_revision p)) \<noteq> None \<longrightarrow> candidate_fits (relations_db d) p))
    \<and> d' = (close_session (is_id s) (cn_completed_at cn) (beside rd d))\<lparr>init_audit_t := init_audit_t d @ [a]\<rparr>
    \<and> is_id (ic_session completion) = is_id s \<and> is_status (ic_session completion) = InitCompleted
    \<and> ic_relations completion = map (\<lambda>p. rv_relation_id (p_revision p)) (deferred @ cn_candidates cn)"
proof -
  from assms(1) obtain session bytes deferred ids d1 d2 where
    s: "get_init_session (is_id (cn_session cn)) d = Inr session" "is_status session = InitOpen" and
    counted: "verify_init_batch_count (is_id session) (cn_expected cn) d = Inr ()" and
    loaded: "load_init_reproposal_candidates ic (is_id session)
        (maximum_completion_candidates - int (length (cn_candidates cn)))
        (maximum_completion_candidate_raw_bytes - bytes) d = Inr deferred" and
    proposed: "propose_candidates ic ie (deferred @ cn_candidates cn) d = Inr (ids, d1)" and
    closed: "d2 = close_session (is_id session) (cn_completed_at cn) d1" and
    audit: "insert_init_audit ie (cn_audit cn) (is_id session) ''RELATION_INIT_COMPLETED'' (cn_principal cn)
         (cn_reason cn) (cn_request_id cn) (cn_completed_at cn) d2 = Inr d'" and
    completion: "completion = \<lparr>ic_session = session\<lparr>is_status := InitCompleted,
        is_completed_at := Some (cn_completed_at cn)\<rparr>, ic_relations = ids\<rparr>"
    by (auto simp: complete_session_def Let_def result_simps)
  obtain s0 where s0: "find (\<lambda>s. is_id s = is_id (cn_session cn)) (sessions_t d) = Some s0"
      "session = s0\<lparr>is_principal := (is_principal s0)\<lparr>pr_role := RoleAgent\<rparr>\<rparr>"
    using s(1) by (auto simp: get_init_session_def split: option.splits)
  obtain rd where rd: "d1 = beside rd d"
      "proposals_added (jc_relations ic) (relation_engine ie) (relations_db d) rd"
      "ids = map (\<lambda>p. rv_relation_id (p_revision p)) (deferred @ cn_candidates cn)"
      "\<forall>p\<in>set (deferred @ cn_candidates cn). candidate_pending rd p
         \<and> (lifecycle_of (relations_db d) (rv_relation_id (p_revision p)) \<noteq> None \<longrightarrow> candidate_fits (relations_db d) p)"
    using propose_candidates_effect [OF proposed assms(2)] by blast
  obtain a where a: "d' = d2\<lparr>init_audit_t := init_audit_t d2 @ [a]\<rparr>"
    using insert_init_audit_Inr [OF audit] by blast
  have same: "is_id session = is_id s0" "is_status session = is_status s0" using s0(2) by simp_all
  have d': "d' = (close_session (is_id s0) (cn_completed_at cn) (beside rd d))\<lparr>init_audit_t := init_audit_t d @ [a]\<rparr>"
    using a closed rd(1) same by (simp add: close_session_def frame_simps)
  have "\<exists>m n. load_init_reproposal_candidates ic (is_id s0) m n d = Inr deferred"
    using loaded same(1) by auto
  then show ?thesis
    using s0(1) s(2) counted rd same d' completion
    by (intro exI [of _ s0] exI [of _ rd] exI [of _ a] exI [of _ deferred]) simp
qed

end
