(* ===== verification/ReconcileProtocol.thy ===== *)
theory ReconcileProtocol
  imports ReconcileEffects
begin

section \<open>The protocol of initialization sessions\<close>

text \<open>
  The calls on the tables of sessions and relations in any order, each under an engine of its
  own, as an inductive relation between the states before and after. \<open>init_inv\<close> holds in every
  state the calls reach, and \<open>session_grows\<close> says what a session may do in between: its batches
  are appended to, and it stays as it is once it is completed.
\<close>

subsection \<open>Calls\<close>

datatype init_call =
    CallBegin init_session | CallSubmit batch_record | CallComplete completion_record
  | CallRelation repository_call

definition init_after :: "init_codec \<Rightarrow> init_engine \<Rightarrow> init_call \<Rightarrow> init_db \<Rightarrow> init_db" where
  "init_after ic ie call d =
     (case call of
        CallBegin s \<Rightarrow> snd (begin_session ie s d)
      | CallSubmit b \<Rightarrow> snd (submit_stored_batch ic ie b d)
      | CallComplete cn \<Rightarrow> snd (complete_session ic ie cn d)
      | CallRelation c \<Rightarrow>
          beside (snd (perform (sqlite_repository (jc_relations ic) (relation_engine ie)) c (relations_db d))) d)"

text \<open>The service opens every session it begins.\<close>

definition call_opens :: "init_call \<Rightarrow> bool" where
  "call_opens call =
     (case call of CallBegin s \<Rightarrow> is_status s = InitOpen \<and> is_completed_at s = None | _ \<Rightarrow> True)"

inductive sessions_later :: "init_codec \<Rightarrow> init_db \<Rightarrow> init_db \<Rightarrow> bool" for ic :: init_codec and d :: init_db where
  now: "sessions_later ic d d"
| call: "sessions_later ic d d1 \<Longrightarrow> call_opens call \<Longrightarrow> sessions_later ic d (init_after ic ie call d1)"

definition no_sessions :: "db \<Rightarrow> int list \<Rightarrow> init_db" where
  "no_sessions rd repositories =
     \<lparr>relations_db = rd, sessions_t = [], batches_t = [], candidates_t = [], seen_t = [], origins_t = [],
      findings_t = [], repositories_t = repositories, init_audit_t = []\<rparr>"

definition sessions_reachable :: "init_codec \<Rightarrow> init_db \<Rightarrow> bool" where
  "sessions_reachable ic d \<longleftrightarrow>
     (\<exists>rd repositories. store_inv (jc_relations ic) rd \<and> sessions_later ic (no_sessions rd repositories) d)"

subsection \<open>What a call does to the sessions\<close>

definition closed_copy :: "init_session \<Rightarrow> init_session \<Rightarrow> bool" where
  "closed_copy s s' \<longleftrightarrow>
     s' = s \<or> is_status s = InitOpen
       \<and> (\<exists>t. s' = s\<lparr>is_status := InitCompleted, is_completed_at := Some t\<rparr>)"

definition session_open :: "int \<Rightarrow> init_db \<Rightarrow> bool" where
  "session_open n d \<longleftrightarrow> (\<exists>s. find (\<lambda>s. is_id s = n) (sessions_t d) = Some s \<and> is_status s = InitOpen)"

definition seen_rows :: "int \<Rightarrow> init_db \<Rightarrow> (int \<times> int \<times> int) list" where
  "seen_rows n d = filter (\<lambda>x. fst x = n) (seen_t d)"

lemma seen_in_rows: "seen_in n d i \<longleftrightarrow> list_ex (\<lambda>(s, r, b). s = n \<and> r = i) (seen_rows n d)"
  by (force simp: seen_in_def seen_rows_def list_ex_iff)

text \<open>What a call, and any number of calls, does to one session.\<close>

definition session_grows :: "int \<Rightarrow> init_db \<Rightarrow> init_db \<Rightarrow> bool" where
  "session_grows n d d' \<longleftrightarrow>
     (\<forall>s. find (\<lambda>s. is_id s = n) (sessions_t d) = Some s \<longrightarrow>
        (\<exists>s'. find (\<lambda>s. is_id s = n) (sessions_t d') = Some s' \<and> closed_copy s s'))
     \<and> (\<exists>bs cs. session_batches n d' = session_batches n d @ bs
        \<and> session_candidates n d' = session_candidates n d @ cs
        \<and> (bs = [] \<longrightarrow> cs = [] \<and> seen_rows n d' = seen_rows n d)
        \<and> (\<not> session_open n d \<and> find (\<lambda>s. is_id s = n) (sessions_t d) \<noteq> None \<longrightarrow> bs = []))
     \<and> (\<exists>os. origins_t d' = origins_t d @ os)"

lemma session_grows_refl: "session_grows n d d"
  by (simp add: session_grows_def closed_copy_def)

lemma closed_copy_trans: "closed_copy a b \<Longrightarrow> closed_copy b c \<Longrightarrow> closed_copy a c"
  by (auto simp: closed_copy_def)

lemma session_grows_open:
  assumes "session_grows n d d'" "find (\<lambda>s. is_id s = n) (sessions_t d) \<noteq> None" "session_open n d'"
  shows "session_open n d"
  using assms by (auto simp: session_grows_def session_open_def closed_copy_def)

lemma session_grows_trans:
  assumes "session_grows n d0 d1" "session_grows n d1 d2"
  shows "session_grows n d0 d2"
proof -
  from assms obtain bs cs bs' cs' where
    "session_batches n d1 = session_batches n d0 @ bs" "session_candidates n d1 = session_candidates n d0 @ cs"
    "session_batches n d2 = session_batches n d1 @ bs'" "session_candidates n d2 = session_candidates n d1 @ cs'"
    "bs = [] \<longrightarrow> cs = [] \<and> seen_rows n d1 = seen_rows n d0"
    "bs' = [] \<longrightarrow> cs' = [] \<and> seen_rows n d2 = seen_rows n d1"
    "\<not> session_open n d0 \<and> find (\<lambda>s. is_id s = n) (sessions_t d0) \<noteq> None \<longrightarrow> bs = []"
    "\<not> session_open n d1 \<and> find (\<lambda>s. is_id s = n) (sessions_t d1) \<noteq> None \<longrightarrow> bs' = []"
    unfolding session_grows_def by blast
  moreover have "find (\<lambda>s. is_id s = n) (sessions_t d1) \<noteq> None \<and> \<not> session_open n d1"
    if "\<not> session_open n d0 \<and> find (\<lambda>s. is_id s = n) (sessions_t d0) \<noteq> None"
    using that session_grows_open [OF assms(1)] assms(1) by (auto simp: session_grows_def)
  moreover have "\<exists>s'. find (\<lambda>s. is_id s = n) (sessions_t d2) = Some s' \<and> closed_copy s s'"
    if "find (\<lambda>s. is_id s = n) (sessions_t d0) = Some s" for s
    using assms that closed_copy_trans unfolding session_grows_def by blast
  moreover obtain os os' where "origins_t d1 = origins_t d0 @ os" "origins_t d2 = origins_t d1 @ os'"
    using assms unfolding session_grows_def by blast
  ultimately show ?thesis
    unfolding session_grows_def by auto
qed

subsection \<open>The effect of a call\<close>

lemma get_init_session_Inr:
  "get_init_session n d = Inr s \<longleftrightarrow>
     (\<exists>s0. find (\<lambda>s. is_id s = n) (sessions_t d) = Some s0
        \<and> s = s0\<lparr>is_principal := (is_principal s0)\<lparr>pr_role := RoleAgent\<rparr>\<rparr>)"
  by (auto simp: get_init_session_def split: option.splits)

definition begun_tables :: "init_session \<Rightarrow> audit_event \<Rightarrow> init_db \<Rightarrow> init_db" where
  "begun_tables s a d = d\<lparr>sessions_t := sessions_t d @ [s], init_audit_t := init_audit_t d @ [a]\<rparr>"

lemma begin_session_effect:
  assumes "begin_session ie s d = (Inr s', d')"
  shows "d' = d \<or> s' = s \<and> (\<exists>a. d' = begun_tables s a d) \<and> is_id s \<notin> set (map is_id (sessions_t d))
    \<and> is_id s > 0 \<and> (is_mode s = ModeFull \<or> is_mode s = ModeIncremental)
    \<and> \<not> list_ex (same_request (pr_actor (is_principal s)) (pr_origin (is_principal s)) (is_request_id s))
          (sessions_t d)"
proof -
  let ?found = "find_init_session_by_request (pr_actor (is_principal s)) (pr_origin (is_principal s))
    (is_request_id s) d"
  show ?thesis
  proof (cases ?found)
    case (Inr existing)
    with assms show ?thesis by (auto simp: begin_session_def result_simps split: if_splits)
  next
    case (Inl e)
    with assms obtain d1 where 1: "insert_session_row ie s d = Inr d1" and
      2: "insert_init_audit ie (is_id s) (is_id s) ''RELATION_INIT_BEGUN'' (is_principal s)
             ''Begin relation initialization.'' (is_request_id s) (is_created_at s) d1 = Inr d'" and "s' = s"
      by (auto simp: begin_session_def result_simps)
    with insert_init_audit_Inr [OF 2] show ?thesis
      by (auto simp: insert_session_row_def result_simps begun_tables_def)
  qed
qed

lemma submit_effect:
  assumes "submit_stored_batch ic ie b d = (Inr result, d')"
  obtains (replayed) row where "d' = d" "find (\<lambda>x. bt_key x = bc_key b) (session_batches (is_id (bc_session b)) d) = Some row"
      "bt_digest row = bc_digest b" "jc_unmarshal_result ic (bt_result row) = Some result"
  | (accepted) session where "get_init_session (is_id (bc_session b)) d = Inr session"
      "is_status session = InitOpen" "is_id session = is_id (bc_session b)"
      "find (\<lambda>x. bt_key x = bc_key b) (session_batches (is_id (bc_session b)) d) = None"
      "bc_no b = maximum_batch_no (is_id (bc_session b)) d + 1"
      "accept_batch ic ie b session d = Inr (result, d')"
proof -
  from assms obtain session where s: "get_init_session (is_id (bc_session b)) d = Inr session"
      "is_status session = InitOpen"
    by (auto simp: submit_stored_batch_def result_simps)
  then have same: "is_id session = is_id (bc_session b)"
    by (auto simp: get_init_session_Inr dest: find_some_in)
  show thesis
  proof (cases "find (\<lambda>x. bt_key x = bc_key b) (session_batches (is_id (bc_session b)) d)")
    case None
    with assms s same show thesis
      by (intro accepted [of session]) (auto simp: submit_stored_batch_def result_simps)
  next
    case (Some row)
    with assms s same show thesis
      by (intro replayed [of row])
        (auto simp: submit_stored_batch_def result_simps split: if_splits option.splits)
  qed
qed

text \<open>
  Whether the answer is awaited makes no difference to the tables, and a failed call whose answer
  is awaited changes nothing, so that a call is one of the successful ones.
\<close>

lemma perform_sqlite_awaited:
  "snd (perform (sqlite_repository cd (awaited eng)) call d) = snd (perform (sqlite_repository cd eng) call d)"
  by (cases call) (simp_all add: perform_sqlite operations_awaited transaction_def execute_relation_write_def split: sum.split prod.split)

lemma init_after_awaited: "init_after ic (awaited_init ie) call d = init_after ic ie call d"
  by (cases call) (simp_all add: init_after_def writes_awaited perform_sqlite_awaited)

lemma init_after_cases [case_names unchanged begun submitted completed relation]:
  obtains "init_after ic ie call d = d"
  | s a where "call = CallBegin s" "init_after ic ie call d = begun_tables s a d"
      "is_id s \<notin> set (map is_id (sessions_t d))" "is_id s > 0" "is_mode s = ModeFull \<or> is_mode s = ModeIncremental"
      "\<not> list_ex (same_request (pr_actor (is_principal s)) (pr_origin (is_principal s)) (is_request_id s)) (sessions_t d)"
  | b session result where "call = CallSubmit b" "get_init_session (is_id (bc_session b)) d = Inr session"
      "is_status session = InitOpen" "is_id session = is_id (bc_session b)"
      "bc_no b = maximum_batch_no (is_id session) d + 1"
      "accept_batch ic ie b session d = Inr (result, init_after ic ie call d)"
  | cn completion where "call = CallComplete cn"
      "complete_session ic (awaited_init ie) cn d = (Inr completion, init_after ic ie call d)"
  | c r rd where "call = CallRelation c" "init_after ic ie call d = beside rd d"
      "perform (sqlite_repository (jc_relations ic) (awaited (relation_engine ie))) c (relations_db d) = (Inr r, rd)"
proof (cases call)
  case (CallBegin s)
  obtain r d' where run: "begin_session (awaited_init ie) s d = (r, d')" by fastforce
  then have after: "init_after ic ie call d = d'" using writes_awaited(1) [of ie s d] CallBegin by (simp add: init_after_def)
  show thesis
  proof (cases r)
    case (Inl e)
    with run after show thesis
      by (intro that(1)) (auto simp: begin_session_def dest: init_write_Inl)
  next
    case (Inr s')
    with begin_session_effect [of "awaited_init ie" s d s' d'] run CallBegin after that(1,2) show thesis
      by auto
  qed
next
  case (CallSubmit b)
  obtain r d' where run: "submit_stored_batch ic (awaited_init ie) b d = (r, d')" by fastforce
  then have after: "init_after ic ie call d = d'" using writes_awaited(2) [of ic ie b d] CallSubmit by (simp add: init_after_def)
  show thesis
  proof (cases r)
    case (Inl e)
    with run after show thesis
      by (intro that(1)) (auto simp: submit_stored_batch_def dest: init_write_Inl)
  next
    case (Inr result)
    show thesis
      using run [unfolded Inr]
    proof (cases rule: submit_effect)
      case (replayed row)
      with after show thesis by (intro that(1)) simp
    next
      case (accepted session)
      with after CallSubmit show thesis by (intro that(3) [of b session result]) (simp_all add: accept_batch_awaited)
    qed
  qed
next
  case (CallComplete cn)
  obtain r d' where run: "complete_session ic (awaited_init ie) cn d = (r, d')" by fastforce
  then have after: "init_after ic ie call d = d'" using writes_awaited(3) [of ic ie cn d] CallComplete by (simp add: init_after_def)
  show thesis
  proof (cases r)
    case (Inl e)
    with run after show thesis
      by (intro that(1)) (auto simp: complete_session_def dest: init_write_Inl)
  next
    case (Inr completion)
    with run after CallComplete show thesis by (intro that(4)) simp_all
  qed
next
  case (CallRelation c)
  obtain r rd where run: "perform (sqlite_repository (jc_relations ic) (relation_engine ie)) c (relations_db d) = (r, rd)"
    by fastforce
  then have after: "init_after ic ie call d = beside rd d" using CallRelation by (simp add: init_after_def)
  from run show thesis
  proof (cases rule: perform_outcome)
    case 1
    with after show thesis by (intro that(1)) (simp add: frame_simps)
  next
    case (2 x)
    with after CallRelation show thesis by (intro that(5)) simp_all
  qed
qed

subsection \<open>The invariant\<close>

definition numbered :: "int \<Rightarrow> init_db \<Rightarrow> bool" where
  "numbered n d \<longleftrightarrow>
     map bt_no (session_batches n d) = [1..int (length (session_batches n d))]
     \<and> distinct (map bt_key (session_batches n d))"

definition session_ok :: "init_session \<Rightarrow> bool" where
  "session_ok s \<longleftrightarrow>
     is_id s > 0 \<and> (is_mode s = ModeFull \<or> is_mode s = ModeIncremental)
     \<and> (is_status s = InitOpen \<and> is_completed_at s = None
        \<or> is_status s = InitCompleted \<and> is_completed_at s \<noteq> None)"

definition request_of :: "init_session \<Rightarrow> string \<times> origin \<times> string" where
  "request_of s = (pr_actor (is_principal s), pr_origin (is_principal s), is_request_id s)"

definition init_inv :: "init_codec \<Rightarrow> init_db \<Rightarrow> bool" where
  "init_inv ic d \<longleftrightarrow>
     store_inv (jc_relations ic) (relations_db d)
     \<and> distinct (map is_id (sessions_t d)) \<and> distinct (map request_of (sessions_t d))
     \<and> (\<forall>s\<in>set (sessions_t d). session_ok s)
     \<and> distinct (map bt_id (batches_t d))
     \<and> (\<forall>b\<in>set (batches_t d). bt_session b \<in> set (map is_id (sessions_t d)) \<and> bt_id b > 0)
     \<and> (\<forall>n. numbered n d)"

lemma init_invI:
  assumes "store_inv (jc_relations ic) (relations_db d)" "distinct (map is_id (sessions_t d))"
    "distinct (map request_of (sessions_t d))" "\<forall>s\<in>set (sessions_t d). session_ok s"
    "distinct (map bt_id (batches_t d))"
    "\<forall>b\<in>set (batches_t d). bt_session b \<in> set (map is_id (sessions_t d)) \<and> bt_id b > 0"
    "\<And>n. numbered n d"
  shows "init_inv ic d"
  using assms by (simp add: init_inv_def)

lemma init_inv_start: "store_inv (jc_relations ic) rd \<Longrightarrow> init_inv ic (no_sessions rd repositories)"
  by (simp add: init_inv_def no_sessions_def numbered_def session_batches_def)

lemma maximum_numbered:
  assumes "numbered n d"
  shows "maximum_batch_no n d = int (length (session_batches n d))"
proof -
  have maximum: "fold max [i..j] k = max k j" if "i \<le> j" for i j k :: int
    using that
  proof (induction "nat (j - i)" arbitrary: i k)
    case 0
    then show ?case by simp
  next
    case (Suc m)
    then have "fold max [i + 1..j] (max i k) = max (max i k) j" by simp
    with Suc show ?case by (simp add: upto_rec1 [of i j] max.left_commute max.commute)
  qed
  show ?thesis
  proof (cases "session_batches n d")
    case Nil
    then show ?thesis by (simp add: maximum_batch_no_def)
  next
    case (Cons b bs)
    let ?m = "int (length (session_batches n d))"
    have numbers: "map bt_no (session_batches n d) = 1 # [2..?m]"
    proof -
      have "map bt_no (session_batches n d) = [1..?m]" using assms by (simp add: numbered_def)
      also have "\<dots> = 1 # [1 + 1..?m]" by (rule upto_rec1) (simp add: Cons)
      finally show ?thesis by simp
    qed
    show ?thesis
    proof (cases "2 \<le> ?m")
      case True
      with numbers maximum [of 2 ?m 1] show ?thesis by (simp add: maximum_batch_no_def)
    next
      case False
      with Cons have "bs = []" by (cases bs) simp_all
      with numbers Cons show ?thesis by (simp add: maximum_batch_no_def)
    qed
  qed
qed

lemma numbered_cong: "session_batches n d' = session_batches n d \<Longrightarrow> numbered n d' = numbered n d"
  by (simp add: numbered_def)

lemma same_request_of:
  "same_request (pr_actor (is_principal s)) (pr_origin (is_principal s)) (is_request_id s) x \<longleftrightarrow>
     request_of x = request_of s"
  by (auto simp: same_request_def request_of_def)

lemma begun_inv:
  assumes inv: "init_inv ic d" and s: "is_id s \<notin> set (map is_id (sessions_t d))" "is_id s > 0"
      "is_mode s = ModeFull \<or> is_mode s = ModeIncremental"
      "\<not> list_ex (same_request (pr_actor (is_principal s)) (pr_origin (is_principal s)) (is_request_id s)) (sessions_t d)"
      "is_status s = InitOpen" "is_completed_at s = None"
  shows "init_inv ic (begun_tables s a d)"
proof (rule init_invI)
  have "request_of s \<notin> set (map request_of (sessions_t d))"
    using s(4) by (auto simp: list_ex_iff same_request_of)
  then show "distinct (map request_of (sessions_t (begun_tables s a d)))"
    using inv by (simp add: init_inv_def begun_tables_def)
  show "\<forall>x\<in>set (sessions_t (begun_tables s a d)). session_ok x"
    using inv s by (simp add: init_inv_def begun_tables_def session_ok_def)
  show "numbered n (begun_tables s a d)" for n
    using inv by (subst numbered_cong [of n _ d]) (simp_all add: init_inv_def begun_tables_def session_batches_def)
qed (use inv s in \<open>auto simp: init_inv_def begun_tables_def\<close>)

lemma accepted_inv:
  assumes inv: "init_inv ic d" and s: "get_init_session (is_id session) d = Inr session"
    and no: "bc_no b = maximum_batch_no (is_id session) d + 1"
    and run: "accept_batch ic ie b session d = Inr (result, d')"
  shows "init_inv ic d'"
proof -
  obtain rd row cs ss os fs a where d': "d' = (beside rd d)\<lparr>batches_t := batches_t d @ [row],
        candidates_t := candidates_t d @ cs, seen_t := seen_t d @ ss, origins_t := origins_t d @ os,
        findings_t := findings_t d @ fs, init_audit_t := init_audit_t d @ [a]\<rparr>"
      "bt_id row = bc_batch b" "bt_no row = bc_no b" "bt_session row = is_id session" "bt_key row = bc_key b" and
    added: "proposals_added (jc_relations ic) (relation_engine ie) (relations_db d) rd" and
    fresh: "bc_batch b > 0" "bc_batch b \<notin> set (map bt_id (batches_t d))"
      "bc_key b \<notin> set (map bt_key (session_batches (is_id session) d))"
    using accept_batch_effect [OF run] batch_row_of_simps by metis
  have batches: "session_batches n d' = session_batches n d @ (if n = is_id session then [row] else [])" for n
    using d' by (simp add: session_batches_def)
  have known: "is_id session \<in> set (map is_id (sessions_t d))"
  proof -
    obtain s0 where s0: "find (\<lambda>s. is_id s = is_id session) (sessions_t d) = Some s0"
      using s unfolding get_init_session_Inr by blast
    from find_some_in [OF s0] show ?thesis by (metis image_eqI set_map)
  qed
  show ?thesis
  proof (rule init_invI)
    show "store_inv (jc_relations ic) (relations_db d')"
      using proposals_added_inv [OF added] inv by (simp add: init_inv_def d' frame_simps)
    fix n
    have old: "numbered n d" using inv by (simp add: init_inv_def)
    show "numbered n d'"
    proof (cases "n = is_id session")
      case True
      let ?m = "int (length (session_batches n d))"
      have "[1..1 + ?m] = [1..?m] @ [1 + ?m]" using upto_rec2 [of 1 "1 + ?m"] by simp
      with True old no fresh(3) maximum_numbered [OF old] d'(3,5) show ?thesis
        by (simp add: numbered_def batches)
    next
      case False
      with old batches show ?thesis by (simp add: numbered_def)
    qed
  qed (use inv d' fresh known in \<open>auto simp: init_inv_def frame_simps\<close>)
qed

lemma close_session_simps [frame_simps]:
  "relations_db (close_session n t d) = relations_db d" "batches_t (close_session n t d) = batches_t d"
  "candidates_t (close_session n t d) = candidates_t d" "seen_t (close_session n t d) = seen_t d"
  "origins_t (close_session n t d) = origins_t d"
  by (simp_all add: close_session_def)

lemma close_session_sessions:
  "map is_id (sessions_t (close_session n t d)) = map is_id (sessions_t d)"
  "map request_of (sessions_t (close_session n t d)) = map request_of (sessions_t d)"
  by (simp_all add: close_session_def request_of_def)

lemma completed_inv:
  assumes inv: "init_inv ic d" and run: "complete_session ic ie cn d = (Inr completion, d')"
  shows "init_inv ic d'"
proof -
  have "store_inv (jc_relations ic) (relations_db d)" using inv by (simp add: init_inv_def)
  from complete_session_effect [OF run this] obtain n rd a where
    added: "proposals_added (jc_relations ic) (relation_engine ie) (relations_db d) rd" and
    d': "d' = (close_session n (cn_completed_at cn) (beside rd d))\<lparr>init_audit_t := init_audit_t d @ [a]\<rparr>"
    by blast
  have sessions: "sessions_t d' = sessions_t (close_session n (cn_completed_at cn) d)"
    by (simp add: d' close_session_def beside_def)
  show ?thesis
  proof (rule init_invI)
    show "store_inv (jc_relations ic) (relations_db d')"
      using proposals_added_inv [OF added] inv by (simp add: init_inv_def d' frame_simps)
    show "\<forall>s\<in>set (sessions_t d'). session_ok s"
      using inv by (auto simp: init_inv_def sessions close_session_def session_ok_def)
    show "numbered m d'" for m
      using inv by (subst numbered_cong [of m _ d]) (simp_all add: init_inv_def d' session_batches_def frame_simps)
  qed (use inv in \<open>simp_all add: init_inv_def sessions close_session_sessions\<close>, use inv in \<open>simp_all add: init_inv_def d' frame_simps sessions close_session_sessions\<close>)
qed

lemma call_inv:
  assumes "codec_stable (jc_relations ic)" "init_inv ic d" "call_opens call"
  shows "init_inv ic (init_after ic ie call d)"
proof (cases ic ie call d rule: init_after_cases)
  case unchanged
  with assms show ?thesis by simp
next
  case (begun s a)
  with assms(3) begun_inv [OF assms(2) begun(3-6), of a] show ?thesis by (simp add: call_opens_def)
next
  case (submitted b session result)
  from submitted(2,4) have "get_init_session (is_id session) d = Inr session" by simp
  then show ?thesis by (rule accepted_inv [OF assms(2) _ submitted(5,6)])
next
  case (completed cn completion)
  with completed_inv [OF assms(2)] show ?thesis by blast
next
  case (relation c r rd)
  have "store_inv (jc_relations ic) rd"
    using perform_invariant [OF assms(1) _ relation(3)] assms(2) by (simp add: init_inv_def)
  with assms(2) relation(2) show ?thesis
    by (simp add: init_inv_def numbered_def session_batches_def frame_simps)
qed

lemma later_inv:
  "sessions_later ic d d' \<Longrightarrow> codec_stable (jc_relations ic) \<Longrightarrow> init_inv ic d \<Longrightarrow> init_inv ic d'"
  by (induction rule: sessions_later.induct) (auto intro: call_inv)

lemma reachable_inv:
  "sessions_reachable ic d \<Longrightarrow> codec_stable (jc_relations ic) \<Longrightarrow> init_inv ic d"
  using later_inv init_inv_start by (auto simp: sessions_reachable_def)

end
