(* ===== verification/ReconcileGrowth.thy ===== *)
theory ReconcileGrowth
  imports ReconcileProtocol
begin

section \<open>How sessions grow\<close>

text \<open>
  Every call, and so every sequence of calls, leaves a completed session alone and appends to
  the batches of an open one; the numbers of the latest revisions only grow.
\<close>

lemma find_closed:
  "find (\<lambda>s. is_id s = n) (sessions_t d) = Some s \<Longrightarrow>
     \<exists>s'. find (\<lambda>s. is_id s = n) (sessions_t (close_session m t d)) = Some s' \<and> closed_copy s s'"
proof -
  have "find (\<lambda>s. is_id s = n) xs = Some s \<Longrightarrow>
      \<exists>s'. find (\<lambda>s. is_id s = n) (map (\<lambda>s. if is_id s = m \<and> is_status s = InitOpen
         then s\<lparr>is_status := InitCompleted, is_completed_at := Some t\<rparr> else s) xs) = Some s'
       \<and> closed_copy s s'" for xs
    by (induction xs) (auto simp: closed_copy_def split: if_splits)
  then show "find (\<lambda>s. is_id s = n) (sessions_t d) = Some s \<Longrightarrow>
     \<exists>s'. find (\<lambda>s. is_id s = n) (sessions_t (close_session m t d)) = Some s' \<and> closed_copy s s'"
    by (simp add: close_session_def)
qed

text \<open>A call that only opens or closes sessions, or changes relations.\<close>

lemma session_grows_frame:
  assumes "\<And>s. find (\<lambda>s. is_id s = n) (sessions_t d) = Some s \<Longrightarrow>
      \<exists>s'. find (\<lambda>s. is_id s = n) (sessions_t d') = Some s' \<and> closed_copy s s'"
    and "batches_t d' = batches_t d" "candidates_t d' = candidates_t d" "seen_t d' = seen_t d"
      "origins_t d' = origins_t d"
  shows "session_grows n d d'"
  using assms
  by (simp add: session_grows_def session_batches_def session_candidates_def seen_rows_def)

lemma accepted_grows:
  assumes s: "get_init_session (is_id session) d = Inr session" "is_status session = InitOpen"
    and run: "accept_batch ic ie b session d = Inr (result, d')"
  shows "session_grows n d d'"
proof -
  obtain rd row cs ss os fs a where d': "d' = (beside rd d)\<lparr>batches_t := batches_t d @ [row],
        candidates_t := candidates_t d @ cs, seen_t := seen_t d @ ss, origins_t := origins_t d @ os,
        findings_t := findings_t d @ fs, init_audit_t := init_audit_t d @ [a]\<rparr>"
      "bt_session row = is_id session" and
    mine: "\<forall>c\<in>set cs. ca_session c = is_id session" "\<forall>x\<in>set ss. fst x = is_id session"
    using accept_batch_effect [OF run] batch_row_of_simps by metis
  have mine': "filter (\<lambda>c. ca_session c = n) cs = (if n = is_id session then cs else [])"
    "filter (\<lambda>x. fst x = n) ss = (if n = is_id session then ss else [])"
    using mine by (auto intro: filter_True filter_False)
  have opened: "session_open (is_id session) d"
    using s unfolding get_init_session_Inr session_open_def
    by (metis init_session.select_convs(6) init_session.surjective init_session.update_convs(7))
  show ?thesis
    unfolding session_grows_def
  proof (intro conjI allI impI)
    fix x assume "find (\<lambda>s. is_id s = n) (sessions_t d) = Some x"
    then show "\<exists>s'. find (\<lambda>s. is_id s = n) (sessions_t d') = Some s' \<and> closed_copy x s'"
      by (simp add: d' frame_simps closed_copy_def)
  next
    show "\<exists>bs cs. session_batches n d' = session_batches n d @ bs
        \<and> session_candidates n d' = session_candidates n d @ cs
        \<and> (bs = [] \<longrightarrow> cs = [] \<and> seen_rows n d' = seen_rows n d)
        \<and> (\<not> session_open n d \<and> find (\<lambda>s. is_id s = n) (sessions_t d) \<noteq> None \<longrightarrow> bs = [])"
      using d'(2) mine' opened
      by (intro exI [of _ "if n = is_id session then [row] else []"]
          exI [of _ "if n = is_id session then cs else []"])
        (simp add: d'(1) session_batches_def session_candidates_def seen_rows_def)
  next
    show "\<exists>os. origins_t d' = origins_t d @ os" by (simp add: d'(1))
  qed
qed

lemma call_grows:
  assumes "init_inv ic d"
  shows "session_grows n d (init_after ic ie call d)"
proof (cases ic ie call d rule: init_after_cases)
  case unchanged
  then show ?thesis by (simp add: session_grows_refl)
next
  case (begun s a)
  then show ?thesis
    by (intro session_grows_frame) (simp_all add: begun_tables_def find_append closed_copy_def)
next
  case (submitted b session result)
  from submitted(2,4) have "get_init_session (is_id session) d = Inr session" by simp
  then show ?thesis by (rule accepted_grows [OF _ submitted(3,6)])
next
  case (completed cn completion)
  have "store_inv (jc_relations ic) (relations_db d)" using assms by (simp add: init_inv_def)
  from complete_session_effect [OF completed(2) this] obtain m rd a where
    d': "init_after ic ie call d
      = (close_session m (cn_completed_at cn) (beside rd d))\<lparr>init_audit_t := init_audit_t d @ [a]\<rparr>"
    by blast
  show ?thesis
  proof (rule session_grows_frame)
    fix s assume "find (\<lambda>s. is_id s = n) (sessions_t d) = Some s"
    then have "find (\<lambda>s. is_id s = n) (sessions_t (beside rd d)) = Some s" by (simp add: frame_simps)
    from find_closed [OF this]
    show "\<exists>s'. find (\<lambda>s. is_id s = n) (sessions_t (init_after ic ie call d)) = Some s' \<and> closed_copy s s'"
      by (simp add: d')
  qed (simp_all add: d' frame_simps)
next
  case (relation c r rd)
  show ?thesis
    unfolding relation(2)
    by (rule session_grows_frame) (simp_all add: frame_simps closed_copy_def)
qed

lemma later_grows:
  "sessions_later ic d d' \<Longrightarrow> codec_stable (jc_relations ic) \<Longrightarrow> init_inv ic d \<Longrightarrow>
     session_grows n d d' \<and> init_inv ic d'"
proof (induction rule: sessions_later.induct)
  case now
  then show ?case by (simp add: session_grows_refl)
next
  case (call d1 call ie)
  from call.IH [OF call.prems] have "session_grows n d d1" "init_inv ic d1" by simp_all
  with session_grows_trans call_grows call_inv [OF call.prems(1) _ call.hyps(2)] show ?case by blast
qed

text \<open>The latest revision of a relation only grows, and a relation is never removed.\<close>

definition latest_grows :: "int \<Rightarrow> db \<Rightarrow> db \<Rightarrow> bool" where
  "latest_grows i d d' \<longleftrightarrow>
     (\<forall>l. lifecycle_of d i = Some l \<longrightarrow> (\<exists>l'. lifecycle_of d' i = Some l' \<and> lc_latest l \<le> lc_latest l'))"

lemma latest_grows_refl: "latest_grows i d d"
  by (simp add: latest_grows_def)

lemma latest_grows_trans: "latest_grows i a b \<Longrightarrow> latest_grows i b c \<Longrightarrow> latest_grows i a c"
  unfolding latest_grows_def by (meson order_trans)

lemma lifecycle_step_latest:
  "lifecycle_allows call s \<Longrightarrow> s = Some l \<Longrightarrow> \<exists>l'. lifecycle_step call s = Some l' \<and> lc_latest l \<le> lc_latest l'"
  by (cases call) (auto split: option.splits)

lemma perform_latest_grows:
  assumes "store_inv cd d" "perform (sqlite_repository cd eng) call d = (Inr r, d')"
  shows "latest_grows i d d'"
  using perform_refines [OF assms] lifecycle_step_latest [of call]
  by (cases "i = call_target call") (auto simp: latest_grows_def)

lemma only_proposed_latest:
  assumes "only_proposed d d'"
  shows "latest_grows i d d'"
  unfolding latest_grows_def
proof (intro allI impI)
  fix l assume "lifecycle_of d i = Some l"
  then obtain c where c: "find_current d i = Some c" "lc_latest l = cr_latest c"
    by (auto simp: lifecycle_of_def)
  with assms obtain c' where "find_current d' i = Some c'" "cr_latest c \<le> cr_latest c'"
    unfolding only_proposed_def row_kept_def by blast
  with c show "\<exists>l'. lifecycle_of d' i = Some l' \<and> lc_latest l \<le> lc_latest l'"
    by (simp add: lifecycle_of_def)
qed

lemma call_latest_grows:
  assumes "init_inv ic d"
  shows "latest_grows i (relations_db d) (relations_db (init_after ic ie call d))"
proof (cases ic ie call d rule: init_after_cases)
  case unchanged
  then show ?thesis by (simp add: latest_grows_refl)
next
  case (begun s a)
  then show ?thesis by (simp add: begun_tables_def latest_grows_refl)
next
  case (submitted b session result)
  obtain rd where "relations_db (init_after ic ie call d) = rd"
      "proposals_added (jc_relations ic) (relation_engine ie) (relations_db d) rd"
    using accept_batch_effect [OF submitted(6)] by (auto simp: frame_simps)
  then show ?thesis by (simp add: only_proposed_latest proposals_only_proposed)
next
  case (completed cn completion)
  have "store_inv (jc_relations ic) (relations_db d)" using assms by (simp add: init_inv_def)
  from complete_session_effect [OF completed(2) this] obtain m rd a where
    "init_after ic ie call d
      = (close_session m (cn_completed_at cn) (beside rd d))\<lparr>init_audit_t := init_audit_t d @ [a]\<rparr>"
    "proposals_added (jc_relations ic) (relation_engine (awaited_init ie)) (relations_db d) rd"
    by blast
  then show ?thesis by (simp add: only_proposed_latest proposals_only_proposed frame_simps)
next
  case (relation c r rd)
  have "store_inv (jc_relations ic) (relations_db d)" using assms by (simp add: init_inv_def)
  with perform_latest_grows [OF _ relation(3)] relation(2) show ?thesis by (simp add: frame_simps)
qed

lemma later_latest_grows:
  "sessions_later ic d d' \<Longrightarrow> codec_stable (jc_relations ic) \<Longrightarrow> init_inv ic d \<Longrightarrow>
     latest_grows i (relations_db d) (relations_db d') \<and> init_inv ic d'"
proof (induction rule: sessions_later.induct)
  case now
  then show ?case by (simp add: latest_grows_refl)
next
  case (call d1 call ie)
  from call.IH [OF call.prems]
  have "latest_grows i (relations_db d) (relations_db d1)" "init_inv ic d1" by simp_all
  with latest_grows_trans call_latest_grows call_inv [OF call.prems(1) _ call.hyps(2)]
  show ?case by blast
qed

end
