(* ===== verification/ReconcileContract.thy ===== *)
theory ReconcileContract
  imports ReconcileGrowth
begin

section \<open>The contract between the session service and its repository\<close>

text \<open>
  What \<^verbatim>\<open>reconcile.Service\<close> needs of a repository is the locale \<open>session_repository\<close>: its three
  writes keep an invariant, only move the state ahead in some preorder, and change nothing when
  they fail, unless the caller's context ended while the write was queued. Inside it the three
  commands inherit that, with who may run them. The SQLite repository provides it with \<open>init_inv\<close>
  and \<open>only_proposed\<close>.
\<close>

subsection \<open>Commands as data\<close>

datatype init_command =
    BeginInit begin_init_command | SubmitBatch submit_batch_command | CompleteInit complete_init_command

definition discard :: "('w, 'e, 'a) action \<Rightarrow> ('w, 'e, unit) action" where
  "discard m = act_bind m (\<lambda>_. act_pure (Inr ()))"

definition run_init :: "('s, 'g) init_service \<Rightarrow> init_command \<Rightarrow> ('s \<times> 'g, init_error, unit) action" where
  "run_init sv cmd =
     (case cmd of
        BeginInit x \<Rightarrow> discard (begin_init sv x)
      | SubmitBatch x \<Rightarrow> discard (submit_batch sv x)
      | CompleteInit x \<Rightarrow> discard (complete_init sv x))"

definition init_principal :: "init_command \<Rightarrow> principal" where
  "init_principal cmd =
     (case cmd of BeginInit x \<Rightarrow> bi_principal x | SubmitBatch x \<Rightarrow> sb_principal x | CompleteInit x \<Rightarrow> ci_principal x)"

subsection \<open>Preparation only reads\<close>

lemma quiet_result: "quiet m \<Longrightarrow> m w = (r, w') \<Longrightarrow> fst w' = fst w"
  unfolding quiet_def by blast

lemma quiet_relation_step [inv_intros]: "quiet m \<Longrightarrow> quiet (relation_step m)"
  by (fastforce simp: quiet_def relation_step_def split: prod.splits sum.splits)

lemma quiet_init_draw [inv_intros]: "quiet (init_draw sv)"
  by (auto simp: quiet_def init_draw_def on_ids_def split: prod.splits sum.splits)

lemma quiet_prepare_create: "quiet (prepare_create c cmd)"
  unfolding prepare_create_def case_prod_beta Let_def
  by (intro quiet_bind quiet_pure quiet_query quiet_draw)

lemma quiet_prepare_stale: "quiet (prepare_stale c cmd)"
  unfolding prepare_stale_def prepare_invalidation_def case_prod_beta Let_def
  by (intro quiet_bind quiet_pure quiet_query quiet_draw)

lemma quiet_prepare_proposals: "quiet (prepare_proposals sv p request_id n xs)"
  by (induction xs arbitrary: n)
    (simp_all add: quiet_pure quiet_bind quiet_relation_step quiet_prepare_create)

lemma quiet_prepare_unresolved: "quiet (prepare_unresolved sv session batch_id p x)"
  unfolding prepare_unresolved_def Let_def
  by (intro quiet_bind quiet_pure quiet_init_draw)

lemma quiet_prepare_findings: "quiet (prepare_findings sv session batch_id p xs)"
  by (induction xs) (simp_all add: quiet_pure quiet_bind quiet_prepare_unresolved)

lemma quiet_prepare_stale_candidates: "quiet (prepare_stale_candidates sv p reason request_id n rs)"
  by (induction rs arbitrary: n)
    (simp_all add: quiet_pure quiet_bind quiet_relation_step quiet_prepare_stale)

lemma quiet_prepare_completion: "quiet (prepare_completion sv cmd)"
  unfolding prepare_completion_def Let_def
  by (intro quiet_bind quiet_pure quiet_query quiet_init_draw)
    (simp add: quiet_bind quiet_pure quiet_query quiet_prepare_stale_candidates)

subsection \<open>One write at the end\<close>

text \<open>
  The action fails with the state as it was, or ends with a write that relates the states and
  the result by \<open>P\<close>.
\<close>

definition ends_with :: "('s \<Rightarrow> 'e + 'a \<Rightarrow> 's \<Rightarrow> bool) \<Rightarrow> ('s \<times> 'g, 'e, 'a) action \<Rightarrow> bool" where
  "ends_with P m \<longleftrightarrow>
     (\<forall>w r w'. m w = (r, w') \<longrightarrow> fst w' = fst w \<and> (\<exists>e. r = Inl e) \<or> P (fst w) r (fst w'))"

lemma ends_withD:
  "ends_with P m \<Longrightarrow> m (s, g) = (r, (s', g')) \<Longrightarrow> s' = s \<and> (\<exists>e. r = Inl e) \<or> P s r s'"
  unfolding ends_with_def by (metis fst_conv)

lemma ends_with_bind:
  assumes "quiet m" "\<And>x w w'. m w = (Inr x, w') \<Longrightarrow> ends_with P (f x)"
  shows "ends_with P (act_bind m f)"
  unfolding ends_with_def
proof (intro allI impI)
  fix w r w' assume run: "act_bind m f w = (r, w')"
  obtain r1 w1 where m: "m w = (r1, w1)" by (cases "m w")
  note same = quiet_result [OF assms(1) m]
  show "fst w' = fst w \<and> (\<exists>e. r = Inl e) \<or> P (fst w) r (fst w')"
  proof (cases r1)
    case (Inl e)
    with run m same show ?thesis by (auto simp: act_bind_def)
  next
    case (Inr x)
    with run m have "f x w1 = (r, w')" by (simp add: act_bind_def)
    with assms(2) [OF m [unfolded Inr]] same show ?thesis by (metis ends_with_def)
  qed
qed

lemma ends_with_pure:
  "(\<And>x. r = Inr x \<Longrightarrow> ends_with P (f x)) \<Longrightarrow> ends_with P (act_bind (act_pure r) f)"
  by (rule ends_with_bind) (auto intro: inv_intros simp: act_pure_def)

lemma ends_with_query: "(\<And>x. ends_with P (f x)) \<Longrightarrow> ends_with P (act_bind (query q) f)"
  by (rule ends_with_bind) (auto intro: inv_intros)

lemma ends_with_quiet: "quiet m \<Longrightarrow> (\<And>x. ends_with P (f x)) \<Longrightarrow> ends_with P (act_bind m f)"
  by (rule ends_with_bind)

lemma ends_with_repository:
  "(\<And>s r s'. m s = (r, s') \<Longrightarrow> P s r s') \<Longrightarrow> ends_with P (on_repository m)"
  by (auto simp: ends_with_def on_repository_def split: prod.splits)

lemmas ends_with_intros = ends_with_pure ends_with_query ends_with_quiet [OF quiet_init_draw]
  ends_with_quiet [OF quiet_prepare_proposals] ends_with_quiet [OF quiet_prepare_findings]

definition begin_write ::
  "'s init_repository \<Rightarrow> principal \<Rightarrow> 's \<Rightarrow> init_error + init_session \<Rightarrow> 's \<Rightarrow> bool" where
  "begin_write repo p s r s' \<longleftrightarrow>
     can_initialize p \<and> (\<exists>x. ir_begin repo x s = (r, s') \<and> is_status x = InitOpen \<and> is_completed_at x = None)"

definition submit_write ::
  "'s init_repository \<Rightarrow> principal \<Rightarrow> 's \<Rightarrow> init_error + batch_result \<Rightarrow> 's \<Rightarrow> bool" where
  "submit_write repo p s r s' \<longleftrightarrow> can_initialize p \<and> (\<exists>b. ir_submit repo b s = (r, s'))"

definition complete_write ::
  "'s init_repository \<Rightarrow> principal \<Rightarrow> 's \<Rightarrow> init_error + init_completion \<Rightarrow> 's \<Rightarrow> bool" where
  "complete_write repo p s r s' \<longleftrightarrow> can_initialize p \<and> (\<exists>cn. ir_complete repo cn s = (r, s'))"

lemma begin_init_ends: "ends_with (begin_write (iv_repository sv) (bi_principal cmd)) (begin_init sv cmd)"
  unfolding begin_init_def Let_def
proof (intro ends_with_intros ends_with_repository, goal_cases)
  case 1
  then show ?case by (auto simp: begin_write_def fail_if_eq_Inr)
qed

lemma submit_batch_ends: "ends_with (submit_write (iv_repository sv) (sb_principal cmd)) (submit_batch sv cmd)"
  unfolding submit_batch_def Let_def
proof (intro ends_with_intros ends_with_repository, goal_cases)
  case 1
  then show ?case by (auto simp: submit_write_def fail_if_eq_Inr same_initializer_def)
qed

lemma prepare_completion_principal:
  "prepare_completion sv cmd w = (Inr cn, w') \<Longrightarrow> can_initialize (ci_principal cmd)"
  by (auto simp: prepare_completion_def Let_def act_bind_Inr act_pure_def fail_if_eq_Inr same_initializer_def)

lemma complete_init_ends:
  "ends_with (complete_write (iv_repository sv) (ci_principal cmd)) (complete_init sv cmd)"
  unfolding complete_init_def
  by (rule ends_with_bind [OF quiet_prepare_completion], rule ends_with_repository)
    (auto simp: complete_write_def dest: prepare_completion_principal)

lemma discard_result:
  "discard m w = (r, w') \<longleftrightarrow> (\<exists>r1. m w = (r1, w') \<and> r = map_sum id (\<lambda>_. ()) r1)"
  by (auto simp: discard_def act_bind_def act_pure_def split: prod.splits sum.splits)

subsection \<open>The contract\<close>

locale session_repository =
  fixes repo :: "'s init_repository"
    and keeps :: "'s \<Rightarrow> bool"
    and ahead :: "'s \<Rightarrow> 's \<Rightarrow> bool"
  assumes ahead_refl: "ahead s s"
    and begin_law: "ir_begin repo x s = (r, s') \<Longrightarrow> is_status x = InitOpen \<Longrightarrow> is_completed_at x = None \<Longrightarrow>
      keeps s \<Longrightarrow> keeps s' \<and> ahead s s' \<and> (\<forall>e. r = Inl e \<longrightarrow> s' = s \<or> e = InitContextEnded)"
    and submit_law: "ir_submit repo b s = (q, s') \<Longrightarrow> keeps s \<Longrightarrow>
      keeps s' \<and> ahead s s' \<and> (\<forall>e. q = Inl e \<longrightarrow> s' = s \<or> e = InitContextEnded)"
    and complete_law: "ir_complete repo cn s = (t, s') \<Longrightarrow> keeps s \<Longrightarrow>
      keeps s' \<and> ahead s s' \<and> (\<forall>e. t = Inl e \<longrightarrow> s' = s \<or> e = InitContextEnded)"
begin

lemma run_init_law:
  assumes "iv_repository sv = repo" "run_init sv cmd (s, g) = (r, (s', g'))" "keeps s"
  shows "keeps s' \<and> ahead s s' \<and> (\<forall>e. r = Inl e \<longrightarrow> s' = s \<or> e = InitContextEnded)
    \<and> (s' \<noteq> s \<longrightarrow> can_initialize (init_principal cmd))"
proof (cases cmd)
  case (BeginInit x)
  with assms(2) obtain r1 where r1: "begin_init sv x (s, g) = (r1, (s', g'))" "r = map_sum id (\<lambda>_. ()) r1"
    by (auto simp: run_init_def discard_result)
  from ends_withD [OF begin_init_ends r1(1)] assms(1)
  consider "s' = s" | y where "can_initialize (bi_principal x)" "ir_begin repo y s = (r1, s')" "is_status y = InitOpen" "is_completed_at y = None"
    unfolding begin_write_def by blast
  then show ?thesis
  proof cases
    case 1
    with assms(3) ahead_refl show ?thesis by simp
  next
    case 2
    with begin_law [OF 2(2) 2(3,4) assms(3)] r1(2) BeginInit show ?thesis
      by (cases r1) (auto simp: init_principal_def)
  qed
next
  case (SubmitBatch x)
  with assms(2) obtain r1 where r1: "submit_batch sv x (s, g) = (r1, (s', g'))" "r = map_sum id (\<lambda>_. ()) r1"
    by (auto simp: run_init_def discard_result)
  from ends_withD [OF submit_batch_ends r1(1)] assms(1)
  consider "s' = s" | b where "can_initialize (sb_principal x)" "ir_submit repo b s = (r1, s')"
    unfolding submit_write_def by blast
  then show ?thesis
  proof cases
    case 1
    with assms(3) ahead_refl show ?thesis by simp
  next
    case 2
    with submit_law [OF 2(2) assms(3)] r1(2) SubmitBatch show ?thesis
      by (cases r1) (auto simp: init_principal_def)
  qed
next
  case (CompleteInit x)
  with assms(2) obtain r1 where r1: "complete_init sv x (s, g) = (r1, (s', g'))" "r = map_sum id (\<lambda>_. ()) r1"
    by (auto simp: run_init_def discard_result)
  from ends_withD [OF complete_init_ends r1(1)] assms(1)
  consider "s' = s" | cn where "can_initialize (ci_principal x)" "ir_complete repo cn s = (r1, s')"
    unfolding complete_write_def by blast
  then show ?thesis
  proof cases
    case 1
    with assms(3) ahead_refl show ?thesis by simp
  next
    case 2
    with complete_law [OF 2(2) assms(3)] r1(2) CompleteInit show ?thesis
      by (cases r1) (auto simp: init_principal_def)
  qed
qed

end

subsection \<open>The SQLite repository\<close>

lemma call_only_proposed:
  assumes "init_inv ic d" "\<And>c. call \<noteq> CallRelation c"
  shows "only_proposed (relations_db d) (relations_db (init_after ic ie call d))"
proof (cases ic ie call d rule: init_after_cases)
  case unchanged
  then show ?thesis by (simp add: only_proposed_refl)
next
  case (begun s a)
  then show ?thesis by (simp add: begun_tables_def only_proposed_refl)
next
  case (submitted b session result)
  obtain rd where "relations_db (init_after ic ie call d) = rd"
      "proposals_added (jc_relations ic) (relation_engine ie) (relations_db d) rd"
    using accept_batch_effect [OF submitted(6)] by (auto simp: frame_simps)
  then show ?thesis by (simp add: proposals_only_proposed)
next
  case (completed cn completion)
  have "store_inv (jc_relations ic) (relations_db d)" using assms by (simp add: init_inv_def)
  from complete_session_effect [OF completed(2) this] obtain m rd a where
    "init_after ic ie call d
      = (close_session m (cn_completed_at cn) (beside rd d))\<lparr>init_audit_t := init_audit_t d @ [a]\<rparr>"
    "proposals_added (jc_relations ic) (relation_engine (awaited_init ie)) (relations_db d) rd"
    by blast
  then show ?thesis by (simp add: proposals_only_proposed frame_simps)
next
  case (relation c r rd)
  with assms(2) show ?thesis by blast
qed

text \<open>The three writes are calls of the protocol; none needs the codec to be stable.\<close>

lemma write_inv:
  assumes "init_inv ic d" "call_opens call" "\<And>c. call \<noteq> CallRelation c"
  shows "init_inv ic (init_after ic ie call d)"
proof (cases ic ie call d rule: init_after_cases)
  case unchanged
  with assms show ?thesis by simp
next
  case (begun s a)
  with assms(2) begun_inv [OF assms(1) begun(3-6), of a] show ?thesis by (simp add: call_opens_def)
next
  case (submitted b session result)
  from submitted(2,4) have "get_init_session (is_id session) d = Inr session" by simp
  then show ?thesis by (rule accepted_inv [OF assms(1) _ submitted(5,6)])
next
  case (completed cn completion)
  with completed_inv [OF assms(1)] show ?thesis by blast
next
  case (relation c r rd)
  with assms(3) show ?thesis by blast
qed

interpretation sqlite_sessions: session_repository "sqlite_init_repository ic ie" "init_inv ic"
  "\<lambda>d d'. only_proposed (relations_db d) (relations_db d')"
  for ic ie
proof (unfold_locales, goal_cases)
  case (1 d)
  show ?case by (rule only_proposed_refl)
next
  case (2 x d r d')
  then have run: "begin_session ie x d = (r, d')" by (simp add: sqlite_init_repository_def)
  then have d': "d' = init_after ic ie (CallBegin x) d" by (simp add: init_after_def)
  have "r = Inl e \<Longrightarrow> d' = d \<or> e = InitContextEnded" for e
    using run by (auto simp: begin_session_def dest: init_write_Inl)
  with 2 show ?case
    using write_inv [of ic d "CallBegin x" ie] call_only_proposed [of ic d "CallBegin x" ie]
    by (auto simp: d' call_opens_def)
next
  case (3 b d r d')
  then have run: "submit_stored_batch ic ie b d = (r, d')" by (simp add: sqlite_init_repository_def)
  then have d': "d' = init_after ic ie (CallSubmit b) d" by (simp add: init_after_def)
  have "r = Inl e \<Longrightarrow> d' = d \<or> e = InitContextEnded" for e
    using run by (auto simp: submit_stored_batch_def dest: init_write_Inl)
  with 3 show ?case
    using write_inv [of ic d "CallSubmit b" ie] call_only_proposed [of ic d "CallSubmit b" ie]
    by (auto simp: d' call_opens_def)
next
  case (4 cn d r d')
  then have run: "complete_session ic ie cn d = (r, d')" by (simp add: sqlite_init_repository_def)
  then have d': "d' = init_after ic ie (CallComplete cn) d" by (simp add: init_after_def)
  have "r = Inl e \<Longrightarrow> d' = d \<or> e = InitContextEnded" for e
    using run by (auto simp: complete_session_def dest: init_write_Inl)
  with 4 show ?case
    using write_inv [of ic d "CallComplete cn" ie] call_only_proposed [of ic d "CallComplete cn" ie]
    by (auto simp: d' call_opens_def)
qed

end
