(* ===== verification/ReconcileProperties.thy ===== *)
theory ReconcileProperties
  imports ReconcileContract RelationProperties
begin

section \<open>Properties of relation initialization\<close>

text \<open>
  What an initialization session guarantees: it only proposes, a batch can be sent again, the
  batches of a session are numbered and end with it, and a completion proposes as stale exactly
  what the session did not see. The last one says how a completion can fail for ever.
\<close>

subsection \<open>Initialization only proposes\<close>

text \<open>
  C12. A command of the session service never changes the published graph: the effective edges
  stay as they are, and every relation keeps its status, its active version and a proposal that
  is pending. It changes anything at all only for an agent or an administrator, and the tables
  stay in order. All this holds of a command that fails, too, and such a command changes nothing,
  unless its error is that the caller's context ended while its write was queued: then the write
  may have been carried out.
\<close>

theorem initialization_only_proposes:
  assumes "codec_stable (jc_relations ic)" "sessions_reachable ic d"
    and "iv_repository sv = sqlite_init_repository ic ie"
    and "run_init sv cmd (d, g) = (r, (d', g'))"
  shows "effective_t (relations_db d') = effective_t (relations_db d)
    \<and> (\<forall>i c. find_current (relations_db d) i = Some c \<longrightarrow>
         (\<exists>c'. find_current (relations_db d') i = Some c' \<and> cr_status c' = cr_status c
            \<and> cr_active c' = cr_active c \<and> (cr_proposed c \<noteq> None \<longrightarrow> c' = c)))
    \<and> (d' \<noteq> d \<longrightarrow> pr_role (init_principal cmd) = RoleAgent \<or> pr_role (init_principal cmd) = RoleAdmin)
    \<and> (\<forall>e. r = Inl e \<longrightarrow> d' = d \<or> e = InitContextEnded) \<and> init_inv ic d'"
proof -
  have "init_inv ic d" by (rule reachable_inv [OF assms(2,1)])
  note laws = sqlite_sessions.run_init_law [OF assms(3,4) this]
  then have kept: "only_proposed (relations_db d) (relations_db d')" by simp
  have "\<exists>c'. find_current (relations_db d') i = Some c' \<and> cr_status c' = cr_status c
        \<and> cr_active c' = cr_active c \<and> (cr_proposed c \<noteq> None \<longrightarrow> c' = c)"
    if "find_current (relations_db d) i = Some c" for i c
    using kept that unfolding only_proposed_def row_kept_def by blast
  moreover have "effective_t (relations_db d') = effective_t (relations_db d)"
    using kept by (simp add: only_proposed_def)
  ultimately show ?thesis using laws by (simp add: can_initialize_def)
qed

subsection \<open>A batch sent again\<close>

lemma accepted_batch_stored:
  assumes codec: "\<And>x t. jc_marshal_result ic x = Some t \<Longrightarrow> jc_unmarshal_result ic t = Some x"
    and run: "submit_stored_batch ic ie b d = (Inr result, d')"
  shows "\<exists>row. find (\<lambda>x. bt_key x = bc_key b) (session_batches (is_id (bc_session b)) d') = Some row
    \<and> bt_digest row = bc_digest b \<and> jc_unmarshal_result ic (bt_result row) = Some result
    \<and> find (\<lambda>s. is_id s = is_id (bc_session b)) (sessions_t d') \<noteq> None"
  using run
proof (cases rule: submit_effect)
  case (replayed row)
  have "find (\<lambda>s. is_id s = is_id (bc_session b)) (sessions_t d) \<noteq> None"
    using run by (auto simp: submit_stored_batch_def get_init_session_def result_simps split: option.splits)
  with replayed show ?thesis by blast
next
  case (accepted session)
  obtain out where d': "batches_t d' = batches_t d @ [batch_row_of b session out]"
      "sessions_t d' = sessions_t d" "jc_marshal_result ic result = Some out"
    using accept_batch_effect [OF accepted(6)] by (auto simp: frame_simps)
  have "session_batches (is_id (bc_session b)) d'
      = session_batches (is_id (bc_session b)) d @ [batch_row_of b session out]"
    using accepted(3) by (simp add: session_batches_def d'(1))
  moreover have "find (\<lambda>s. is_id s = is_id (bc_session b)) (sessions_t d') \<noteq> None"
    using accepted(1) unfolding get_init_session_Inr by (auto simp: d'(2))
  ultimately show ?thesis
    using accepted(4) codec [OF d'(3)] by (simp add: find_append)
qed

text \<open>
  C39. A batch may be sent again: whatever was called since it was accepted, on a store that
  serves its writes the same key with the same content returns the result of the first time and changes nothing, another content
  under the key is refused, and so is everything once the session is closed.
\<close>

theorem batch_replayed:
  assumes "\<And>x t. jc_marshal_result ic x = Some t \<Longrightarrow> jc_unmarshal_result ic t = Some x"
    and "codec_stable (jc_relations ic)" "sessions_reachable ic d"
    and "submit_stored_batch ic ie b d = (Inr result, d1)" "sessions_later ic d1 d2"
    and "is_id (bc_session b') = is_id (bc_session b)" "bc_key b' = bc_key b"
    and "ie' QueueInit" "ie' StartInit" "ie' CommitInit" "ie' AnswerInit"
  shows "submit_stored_batch ic ie' b' d2 =
    (if \<not> session_open (is_id (bc_session b)) d2 then Inl ErrInitNotOpen
     else if bc_digest b' \<noteq> bc_digest b then Inl ErrInitIdempotencyConflict
     else Inr result, d2)"
proof -
  let ?n = "is_id (bc_session b)"
  have "d1 = init_after ic ie (CallSubmit b) d" by (simp add: init_after_def assms(4))
  then have inv: "init_inv ic d1"
    using call_inv [OF assms(2) reachable_inv [OF assms(3,2)], of "CallSubmit b" ie]
    by (simp add: call_opens_def)
  have grows: "session_grows ?n d1 d2" using later_grows [OF assms(5,2) inv] by blast
  obtain row s1 where row: "find (\<lambda>x. bt_key x = bc_key b) (session_batches ?n d1) = Some row"
      "bt_digest row = bc_digest b" "jc_unmarshal_result ic (bt_result row) = Some result"
      "find (\<lambda>s. is_id s = ?n) (sessions_t d1) = Some s1"
    using accepted_batch_stored [OF assms(1,4)] by blast
  from grows obtain bs where "session_batches ?n d2 = session_batches ?n d1 @ bs"
    by (auto simp: session_grows_def)
  with row(1) have found: "find (\<lambda>x. bt_key x = bc_key b) (session_batches ?n d2) = Some row"
    by (simp add: find_append)
  obtain s2 where s2: "find (\<lambda>s. is_id s = ?n) (sessions_t d2) = Some s2"
    using grows row(4) unfolding session_grows_def by blast
  then have id: "is_id s2 = ?n" by (auto dest: find_some_in)
  have opened: "session_open ?n d2 \<longleftrightarrow> is_status s2 = InitOpen"
    by (simp add: session_open_def s2)
  show ?thesis
    unfolding submit_stored_batch_def init_write_def execute_init_def get_init_session_def opened
    using assms(6-11) row(2,3) found s2 id
    by (cases "is_status s2 = InitOpen") simp_all
qed

subsection \<open>The life of a session\<close>

text \<open>
  C13. The batches of a session are numbered from one without a gap and have different keys.
  Whatever is called later, the session keeps its identity and its batches; only a completion
  changes it, and a completed session accepts no batch any more.
\<close>

theorem session_batches_numbered:
  assumes "codec_stable (jc_relations ic)" "sessions_reachable ic d" "s \<in> set (sessions_t d)"
    and "sessions_later ic d d'"
  shows "map bt_no (session_batches (is_id s) d) = [1..int (length (session_batches (is_id s) d))]
    \<and> distinct (map bt_key (session_batches (is_id s) d))
    \<and> (\<exists>s'\<in>set (sessions_t d'). s' = s
         \<or> is_status s = InitOpen \<and> (\<exists>t. s' = s\<lparr>is_status := InitCompleted, is_completed_at := Some t\<rparr>))
    \<and> (\<exists>bs. session_batches (is_id s) d' = session_batches (is_id s) d @ bs
         \<and> (is_status s = InitCompleted \<longrightarrow> bs = []))"
proof -
  have inv: "init_inv ic d" by (rule reachable_inv [OF assms(2,1)])
  then have numbers: "numbered (is_id s) d" by (simp add: init_inv_def)
  have grows: "session_grows (is_id s) d d'" using later_grows [OF assms(4,1) inv] by blast
  have found: "find (\<lambda>x. is_id x = is_id s) (sessions_t d) = Some s"
    using inv assms(3) by (auto simp: init_inv_def intro: find_key)
  with grows obtain s' where "find (\<lambda>x. is_id x = is_id s) (sessions_t d') = Some s'" "closed_copy s s'"
    unfolding session_grows_def by blast
  then have "\<exists>s'\<in>set (sessions_t d'). s' = s
      \<or> is_status s = InitOpen \<and> (\<exists>t. s' = s\<lparr>is_status := InitCompleted, is_completed_at := Some t\<rparr>)"
    using find_some_in closed_copy_def by metis
  moreover have "\<exists>bs. session_batches (is_id s) d' = session_batches (is_id s) d @ bs
      \<and> (is_status s = InitCompleted \<longrightarrow> bs = [])"
    using grows found by (auto simp: session_grows_def session_open_def)
  ultimately show ?thesis using numbers by (simp add: numbered_def)
qed

subsection \<open>A candidate that has become outdated\<close>

lemma load_candidates_all:
  "load_candidates ic m k rows candidates bytes = Inr ps \<Longrightarrow>
     set candidates \<subseteq> set ps \<and> (\<forall>row\<in>set rows. \<exists>p\<in>set ps. jc_unmarshal_record ic (ca_json row) = Some p)"
proof (induction rows arbitrary: candidates bytes)
  case (Cons row rows)
  then obtain p where p: "jc_unmarshal_record ic (ca_json row) = Some p"
    and rest: "load_candidates ic m k rows (candidates @ [p]) (bytes + int (length (ca_json row))) = Inr ps"
    by (auto simp: Let_def split: if_splits option.splits)
  from Cons.IH [OF rest] p show ?case by auto
qed simp

lemma stored_candidates_loaded:
  assumes "load_init_reproposal_candidates ic n m k d = Inr ps" "c \<in> set (candidates_t d)" "ca_session c = n"
  shows "\<exists>p\<in>set ps. jc_unmarshal_record ic (ca_json c) = Some p"
proof -
  have "c \<in> set (sort_key ca_batch (sort_key ca_relation (session_candidates n d)))"
    using assms(2,3) by (simp add: session_candidates_def)
  then show ?thesis
    using load_candidates_all [OF assms(1) [unfolded load_init_reproposal_candidates_def]] by blast
qed

definition outdated :: "init_codec \<Rightarrow> int \<Rightarrow> init_db \<Rightarrow> bool" where
  "outdated ic n d \<longleftrightarrow>
     (\<exists>c\<in>set (candidates_t d). \<exists>p l. ca_session c = n \<and> jc_unmarshal_record ic (ca_json c) = Some p
        \<and> lifecycle_of (relations_db d) (rv_relation_id (p_revision p)) = Some l
        \<and> rv_revision_no (p_revision p) \<le> lc_latest l)"

lemma outdated_fails:
  assumes inv: "init_inv ic d" and old: "outdated ic (is_id (cn_session cn)) d"
  shows "\<exists>e. complete_session ic ie cn d = (Inl e, d)"
proof -
  have failed: False if "complete_session ic ie' cn d = (Inr completion, d')" for ie' completion d'
  proof -
    have "store_inv (jc_relations ic) (relations_db d)" using inv by (simp add: init_inv_def)
    from complete_session_effect [OF that this] obtain s rd deferred m k where
      s: "find (\<lambda>s. is_id s = is_id (cn_session cn)) (sessions_t d) = Some s" and
      loaded: "load_init_reproposal_candidates ic (is_id s) m k d = Inr deferred" and
      fits: "\<And>p. p \<in> set deferred \<Longrightarrow> lifecycle_of (relations_db d) (rv_relation_id (p_revision p)) \<noteq> None
        \<Longrightarrow> candidate_fits (relations_db d) p"
      by (metis UnCI set_append)
    obtain c p l where c: "c \<in> set (candidates_t d)" "ca_session c = is_id (cn_session cn)"
        "jc_unmarshal_record ic (ca_json c) = Some p"
        "lifecycle_of (relations_db d) (rv_relation_id (p_revision p)) = Some l"
        "rv_revision_no (p_revision p) \<le> lc_latest l"
      using old unfolding outdated_def by blast
    have "is_id s = is_id (cn_session cn)" using find_some_in [OF s] by simp
    with stored_candidates_loaded [OF loaded c(1)] c(2,3) have "p \<in> set deferred" by auto
    with fits [of p] c(4,5) show False by (simp add: candidate_fits_def)
  qed
  obtain e d' where run: "complete_session ic (awaited_init ie) cn d = (Inl e, d')"
    using failed by (metis obj_sumE old.prod.exhaust)
  then have "d' = d" by (auto simp: complete_session_def dest: init_write_Inl)
  with run writes_awaited(3) [of ic ie cn d] have "snd (complete_session ic ie cn d) = d" by simp
  with failed show ?thesis by (metis obj_sumE prod.collapse)
qed

lemma outdated_later:
  assumes "sessions_later ic d d'" "codec_stable (jc_relations ic)" "init_inv ic d" "outdated ic n d"
  shows "outdated ic n d' \<and> init_inv ic d'"
proof -
  obtain c p l where c: "c \<in> set (candidates_t d)" "ca_session c = n"
      "jc_unmarshal_record ic (ca_json c) = Some p"
      "lifecycle_of (relations_db d) (rv_relation_id (p_revision p)) = Some l"
      "rv_revision_no (p_revision p) \<le> lc_latest l"
    using assms(4) unfolding outdated_def by blast
  from later_latest_grows [OF assms(1-3)] c(4) obtain l' where
    l': "lifecycle_of (relations_db d') (rv_relation_id (p_revision p)) = Some l'" "lc_latest l \<le> lc_latest l'"
    unfolding latest_grows_def by blast
  have "session_grows n d d'" "init_inv ic d'" using later_grows [OF assms(1-3)] by simp_all
  then obtain cs where "session_candidates n d' = session_candidates n d @ cs"
    unfolding session_grows_def by blast
  with c(1,2) have "c \<in> set (session_candidates n d')" by (simp add: session_candidates_def)
  then have "c \<in> set (candidates_t d')" by (simp add: session_candidates_def)
  moreover have "rv_revision_no (p_revision p) \<le> lc_latest l'" using l'(2) c(5) by linarith
  ultimately show ?thesis
    using c(2,3) l'(1) \<open>init_inv ic d'\<close> unfolding outdated_def by blast
qed

text \<open>
  C40. A reproposal that a batch kept back makes its session impossible to complete once the
  relation has got another revision in between: every later completion fails and changes
  nothing, whatever else is called, and no call ever drops the candidate.
\<close>

theorem outdated_reproposal_blocks_completion:
  assumes "codec_stable (jc_relations ic)" "sessions_reachable ic d"
    and "c \<in> set (candidates_t d)" "jc_unmarshal_record ic (ca_json c) = Some p"
    and "lifecycle_of (relations_db d) (rv_relation_id (p_revision p)) = Some l"
    and "rv_revision_no (p_revision p) \<le> lc_latest l"
    and "sessions_later ic d d'" "is_id (cn_session cn) = ca_session c"
  shows "\<exists>e. complete_session ic ie cn d' = (Inl e, d')"
proof -
  have inv: "init_inv ic d" by (rule reachable_inv [OF assms(2,1)])
  have "outdated ic (ca_session c) d" using assms(3-6) unfolding outdated_def by blast
  then have "outdated ic (ca_session c) d'" "init_inv ic d'"
    using outdated_later [OF assms(7,1) inv] by simp_all
  with outdated_fails assms(8) show ?thesis by simp
qed

subsection \<open>Completion\<close>

text \<open>
  The published relations of the session's repository that it has not seen; an incremental
  session looks only at those its scope names.
\<close>

definition completion_scope :: "init_session \<Rightarrow> int set" where
  "completion_scope session =
     (if is_mode session = ModeIncremental
      then (case incremental_relation_ids (is_scope session) of
              Inr (i # ids) \<Rightarrow> set (scope_rows (is_scope session)) | _ \<Rightarrow> {})
      else UNIV)"

definition unseen_published :: "init_session \<Rightarrow> init_db \<Rightarrow> int set" where
  "unseen_published session d =
     {i \<in> completion_scope session.
        (\<exists>row\<in>set (origins_t d). og_relation row = i \<and> og_repository row = is_repository session)
        \<and> \<not> seen_in (is_id session) d i
        \<and> (\<exists>l. lifecycle_of (relations_db d) i = Some l \<and> lc_proposed l = None
              \<and> (lc_status l = StatusApproved \<or> lc_status l = StatusSuppressed))}"

lemma lifecycle_not_proposed:
  assumes "store_inv cd d" "find_current d i = Some c" "lifecycle_of d i = Some l"
  shows "lc_proposed l = None \<longleftrightarrow> cr_proposed c = None"
  using assms proposed_kind [OF assms(1,2)] by (auto simp: lifecycle_of_def split: option.splits)

lemma store_inv_relation:
  assumes "store_inv cd d" "find_current d i = Some c"
  shows "\<exists>row. find_relation d i = Some row"
proof -
  have "i \<in> set (map cr_relation (current_t d))"
    using find_current_in [OF assms(2)] find_current_relation [OF assms(2)] by auto
  then have "i \<in> set (relation_ids d)"
    using assms(1) unfolding store_inv_def by metis
  then have "find_relation d i \<noteq> None"
    by (simp add: find_relation_def find_none_key relation_ids_def)
  then show ?thesis by blast
qed

lemma store_inv_active:
  assumes "store_inv cd d" "find_current d i = Some c"
    and "cr_status c = StatusApproved \<or> cr_status c = StatusSuppressed"
  shows "\<exists>a v. cr_active c = Some a \<and> find (\<lambda>v. vr_id v = a) (versions_t d) = Some v"
proof -
  have "pair_check d c" using store_inv_row [OF assms(1,2)] by (simp add: row_ok_def)
  with assms(3) obtain a where a: "cr_active c = Some a" "version_exists d (\<lambda>v. vr_id v = a \<and> vr_relation_id v = cr_relation c)"
    by (cases "cr_active c") (auto simp: pair_check_def)
  then obtain v where "v \<in> set (versions_t d)" "vr_id v = a"
    by (auto simp: version_exists_def list_ex_iff)
  with store_inv_version_unique [OF assms(1)] a(1) show ?thesis by auto
qed

lemma omitted_row_ids:
  "fst ` set (omitted_row session d row) =
     (if og_repository row = is_repository session \<and> \<not> seen_in (is_id session) d (og_relation row)
         \<and> (\<exists>r c a v. find_relation (relations_db d) (og_relation row) = Some r
              \<and> find_current (relations_db d) (og_relation row) = Some c \<and> cr_proposed c = None
              \<and> (cr_status c = StatusApproved \<or> cr_status c = StatusSuppressed)
              \<and> cr_active c = Some a \<and> find (\<lambda>v. vr_id v = a) (versions_t (relations_db d)) = Some v)
      then {og_relation row} else {})"
proof (cases "find_relation (relations_db d) (og_relation row)")
  case (Some r)
  note relation = Some
  show ?thesis
  proof (cases "find_current (relations_db d) (og_relation row)")
    case (Some c)
    note current = Some
    show ?thesis
    proof (cases "cr_active c")
      case (Some a)
      with relation current show ?thesis
        by (cases "find (\<lambda>v. vr_id v = a) (versions_t (relations_db d))") (auto simp: omitted_row_def seen_in_def)
    qed (use relation current in \<open>simp add: omitted_row_def\<close>)
  qed (use relation in \<open>simp add: omitted_row_def\<close>)
qed (simp add: omitted_row_def)

lemma omitted_rows_ids:
  assumes "store_inv cd (relations_db d)"
  shows "fst ` set (omitted_rows session d) =
    {i. (\<exists>row\<in>set (origins_t d). og_relation row = i \<and> og_repository row = is_repository session)
        \<and> \<not> seen_in (is_id session) d i
        \<and> (\<exists>l. lifecycle_of (relations_db d) i = Some l \<and> lc_proposed l = None
              \<and> (lc_status l = StatusApproved \<or> lc_status l = StatusSuppressed))}"
proof -
  have row: "(\<exists>r c a v. find_relation (relations_db d) i = Some r
              \<and> find_current (relations_db d) i = Some c \<and> cr_proposed c = None
              \<and> (cr_status c = StatusApproved \<or> cr_status c = StatusSuppressed)
              \<and> cr_active c = Some a \<and> find (\<lambda>v. vr_id v = a) (versions_t (relations_db d)) = Some v)
     \<longleftrightarrow> (\<exists>l. lifecycle_of (relations_db d) i = Some l \<and> lc_proposed l = None
              \<and> (lc_status l = StatusApproved \<or> lc_status l = StatusSuppressed))" for i
  proof (cases "find_current (relations_db d) i")
    case None
    then show ?thesis by (simp add: lifecycle_of_def)
  next
    case (Some c)
    then obtain l where l: "lifecycle_of (relations_db d) i = Some l" "lc_status l = cr_status c"
      by (auto simp: lifecycle_of_def)
    show ?thesis
      using Some l lifecycle_not_proposed [OF assms Some l(1)] store_inv_relation [OF assms Some]
        store_inv_active [OF assms Some]
      by auto
  qed
  have "fst ` set (omitted_rows session d) = (\<Union>row\<in>set (origins_t d). fst ` set (omitted_row session d row))"
    by (auto simp: omitted_rows_def)
  also have "\<dots> = {i. (\<exists>row\<in>set (origins_t d). og_relation row = i \<and> og_repository row = is_repository session)
        \<and> \<not> seen_in (is_id session) d i
        \<and> (\<exists>l. lifecycle_of (relations_db d) i = Some l \<and> lc_proposed l = None
              \<and> (lc_status l = StatusApproved \<or> lc_status l = StatusSuppressed))}"
    unfolding omitted_row_ids row by (auto split: if_splits)
  finally show ?thesis .
qed

lemma take_omitted_ids:
  "take_omitted budget rows ids bytes = Inr (ids', bytes') \<Longrightarrow>
     ids' = ids @ map fst rows \<and> (rows = [] \<or> int (length ids') \<le> cb_candidates budget)"
proof (induction rows arbitrary: ids bytes)
  case (Cons x rows)
  obtain i n where x: "x = (i, n)" by fastforce
  with Cons.prems have step: "int (length ids) < cb_candidates budget"
    "take_omitted budget rows (ids @ [i]) (bytes + n) = Inr (ids', bytes')"
    by (auto split: if_splits)
  from Cons.IH [OF step(2)] step(1) x show ?case by (cases rows) auto
qed simp

lemma take_omitted_all:
  assumes "take_omitted budget (take (nat (cb_candidates budget) + 1) rows) [] 0 = Inr (ids, bytes)"
  shows "ids = map fst rows"
proof -
  let ?n = "nat (cb_candidates budget)"
  note t = take_omitted_ids [OF assms]
  have "length rows \<le> ?n"
  proof (rule ccontr)
    assume "\<not> length rows \<le> ?n"
    then have "length ids = ?n + 1" "take (?n + 1) rows \<noteq> []" using t by (auto simp: min_def)
    with t show False by linarith
  qed
  with t show ?thesis by simp
qed

lemma load_relation_id: "load_relation cd d i = Inr r \<Longrightarrow> r_id r = i"
  using load_relation_Inr by metis

lemma read_relations_ids:
  "map_result (read_relation ic d) ids = Inr rs \<Longrightarrow> map r_id rs = ids"
proof (induction ids arbitrary: rs)
  case (Cons i ids)
  then obtain r rs' where "read_relation ic d i = Inr r" "map_result (read_relation ic d) ids = Inr rs'" "rs = r # rs'"
    by (auto simp: result_simps)
  moreover then have "r_id r = i"
    by (auto simp: read_relation_def dest: load_relation_id split: sum.splits)
  ultimately show ?case using Cons.IH by simp
qed simp

lemma omitted_relations:
  assumes "store_inv cd (relations_db d)" "list_omitted_relations ic session budget d = Inr plan"
  shows "r_id ` set (op_relations plan) = unseen_published session d"
proof -
  have rows: "unseen_published session d = fst ` set (omitted_rows session d) \<inter> completion_scope session"
    unfolding unseen_published_def omitted_rows_ids [OF assms(1)] by blast
  have read: "r_id ` set (op_relations plan) = fst ` set rs"
    if "take_omitted budget (take (nat (cb_candidates budget) + 1) rs) [] 0 = Inr (ids, bytes)"
      "map_result (read_relation ic d) ids = Inr (op_relations plan)" for rs ids bytes
    using take_omitted_all [OF that(1)] read_relations_ids [OF that(2)]
    by (metis list.set_map)
  show ?thesis
  proof (cases "is_mode session = ModeIncremental")
    case False
    from assms(2) False obtain ids bytes where
      "take_omitted budget (take (nat (cb_candidates budget) + 1) (omitted_rows session d)) [] 0 = Inr (ids, bytes)"
      "map_result (read_relation ic d) ids = Inr (op_relations plan)"
      by (auto simp: list_omitted_relations_def result_simps)
    from read [OF this] rows False show ?thesis by (simp add: completion_scope_def)
  next
    case True
    from assms(2) True obtain scope_ids where ids: "incremental_relation_ids (is_scope session) = Inr scope_ids"
      by (auto simp: list_omitted_relations_def result_simps map_sum_def split: sum.splits)
    show ?thesis
    proof (cases scope_ids)
      case Nil
      with assms(2) True ids rows show ?thesis
        by (auto simp: list_omitted_relations_def completion_scope_def result_simps)
    next
      case (Cons i more)
      let ?rs = "filter (\<lambda>r. fst r \<in> set (scope_rows (is_scope session))) (omitted_rows session d)"
      from assms(2) True ids Cons obtain taken bytes where
        "take_omitted budget (take (nat (cb_candidates budget) + 1) ?rs) [] 0 = Inr (taken, bytes)"
        "map_result (read_relation ic d) taken = Inr (op_relations plan)"
        by (auto simp: list_omitted_relations_def result_simps)
      from read [OF this] have "r_id ` set (op_relations plan) = fst ` set ?rs" .
      with rows True ids Cons show ?thesis by (auto simp: completion_scope_def)
    qed
  qed
qed

lemma load_active_relation:
  assumes inv: "store_inv cd0 d" and loaded: "load_relation cd d i = Inr r" and active: "r_active r = Some rv"
  shows "rv_relation_id rv = i"
proof -
  obtain c where c: "find_current d i = Some c" "cr_relation c = i"
      "load_optional_revision cd d (cr_active c) = Inr (r_active r)"
    using load_relation_Inr [OF loaded] by metis
  with active obtain a where a: "cr_active c = Some a" "load_relation_revision cd d a = Inr rv"
    by (auto simp: load_optional_Inr split: option.splits)
  obtain v where v: "v \<in> set (versions_t d)" "vr_id v = a" "rv_relation_id rv = vr_relation_id v"
    using load_relation_revision_id [OF a(2)] by blast
  have "pair_check d c" using store_inv_row [OF inv c(1)] by (simp add: row_ok_def)
  then obtain x where x: "x \<in> set (versions_t d)" "vr_id x = a" "vr_relation_id x = i"
    using a(1) c(2) by (auto simp: pair_check_def version_exists_def list_ex_iff)
  from store_inv_version_unique [OF inv v(1)] store_inv_version_unique [OF inv x(1)] v(2) x(2)
  have "v = x" by simp
  with v(3) x(3) show ?thesis by simp
qed

lemma prepare_stale_Inr:
  assumes "prepare_stale c cmd (s, g) = (Inr p, w')"
  shows "\<exists>current active. repo_get (c_repository c) (pt_relation_id cmd) s = Inr current
    \<and> r_active current = Some active \<and> rv_relation_id (p_revision p) = rv_relation_id active
    \<and> rv_kind (p_revision p) = ProposalStale"
  using assms
  by (auto simp: prepare_stale_def prepare_invalidation_def Let_def act_bind_Inr act_pure_def query_def
      clone_revision_def split: option.splits if_splits prod.splits)

lemma prepare_stale_candidates_Inr:
  assumes "c_repository (iv_commands sv) = relations_beside_sessions cd eng" "store_inv cd (relations_db d)"
  shows "prepare_stale_candidates sv p reason request_id n rs (d, g) = (Inr ps, w) \<Longrightarrow>
    map (\<lambda>p. rv_relation_id (p_revision p)) ps = map r_id rs
    \<and> (\<forall>p\<in>set ps. rv_kind (p_revision p) = ProposalStale)"
proof (induction rs arbitrary: n g ps)
  case Nil
  then show ?case by (simp add: act_pure_def)
next
  case (Cons r rs)
  from Cons.prems obtain q w1 qs where
    1: "relation_step (prepare_stale (iv_commands sv)
       \<lparr>pt_relation_id = r_id r, pt_expected = r_latest r, pt_principal = p, pt_reason = reason,
        pt_request_id = item_request_id request_id n\<rparr>) (d, g) = (Inr q, w1)" and
    2: "prepare_stale_candidates sv p reason request_id (Suc n) rs w1 = (Inr qs, w)" and ps: "ps = q # qs"
    by (auto simp: act_bind_Inr act_pure_def)
  have "fst w1 = d"
    using quiet_result [OF quiet_relation_step [OF quiet_prepare_stale] 1] by simp
  then obtain g1 where w1: "w1 = (d, g1)" by (cases w1) simp
  have run: "prepare_stale (iv_commands sv)
       \<lparr>pt_relation_id = r_id r, pt_expected = r_latest r, pt_principal = p, pt_reason = reason,
        pt_request_id = item_request_id request_id n\<rparr> (d, g) = (Inr q, w1)"
    using 1 by (auto simp: relation_step_def split: prod.splits sum.splits)
  obtain current active where "load_relation cd (relations_db d) (r_id r) = Inr current"
      "r_active current = Some active" "rv_relation_id (p_revision q) = rv_relation_id active"
      "rv_kind (p_revision q) = ProposalStale"
    using prepare_stale_Inr [OF run] assms(1)
    by (auto simp: relations_beside_sessions_def sqlite_repository_def Let_def)
  with load_active_relation [OF assms(2)] Cons.IH [of "Suc n" g1 qs] 2 w1 ps show ?case by simp
qed

lemma get_init_session_fields:
  assumes "get_init_session n d = Inr s"
  shows "\<exists>s0. find (\<lambda>s. is_id s = n) (sessions_t d) = Some s0 \<and> is_id s = n \<and> is_mode s = is_mode s0"
proof -
  obtain s0 where s0: "find (\<lambda>s. is_id s = n) (sessions_t d) = Some s0"
      "s = s0\<lparr>is_principal := (is_principal s0)\<lparr>pr_role := RoleAgent\<rparr>\<rparr>"
    using assms unfolding get_init_session_Inr by blast
  with find_some_in [OF s0(1)] show ?thesis by simp
qed

text \<open>What the record of a completion was prepared from.\<close>

lemma prepare_completion_Inr:
  assumes repo: "iv_repository sv = sqlite_init_repository ic ie"
    and relations: "c_repository (iv_commands sv) = relations_beside_sessions (jc_relations ic) eng"
    and inv: "init_inv ic d" and run: "prepare_completion sv cmd (d, g) = (Inr cn, w)"
  shows "get_init_session (ci_session cmd) d = Inr (cn_session cn)
    \<and> verify_init_batch_count (is_id (cn_session cn)) (cn_expected cn) d = Inr ()
    \<and> (\<lambda>p. rv_relation_id (p_revision p)) ` set (cn_candidates cn) = unseen_published (cn_session cn) d
    \<and> (\<forall>p\<in>set (cn_candidates cn). rv_kind (p_revision p) = ProposalStale)"
proof -
  have store: "store_inv (jc_relations ic) (relations_db d)" using inv by (simp add: init_inv_def)
  from run obtain session check candidates w1 w2 where
    s: "get_init_session (ci_session cmd) d = Inr session" and
    check: "check_completion session (ci_expected cmd) d = Inr check" and
    candidates: "(if is_mode session = ModeFull \<or> is_mode session = ModeIncremental then
          act_bind (query (ir_omitted (iv_repository sv) session
            \<lparr>cb_candidates = maximum_completion_candidates - cc_count check,
             cb_bytes = maximum_completion_candidate_raw_bytes - cc_bytes check\<rparr>)) (\<lambda>plan.
          let omitted = op_relations plan; n = cc_count check + int (length omitted) in
          act_bind (act_pure (fail_if (completion_budget_exceeded n (cc_bytes check + op_bytes plan))
            ErrCompletionBudgetExceeded)) (\<lambda>_.
          act_bind (act_pure (omitted_candidate_raw_bytes (c_codec (iv_commands sv)) omitted 0)) (\<lambda>bytes.
          act_bind (act_pure (fail_if (completion_budget_exceeded n (cc_bytes check + bytes))
            ErrCompletionBudgetExceeded)) (\<lambda>_.
          prepare_stale_candidates sv (ci_principal cmd) (trim_space (ci_reason cmd))
            (trim_space (ci_request_id cmd)) 0 omitted))))
        else act_pure (Inr [])) (d, g) = (Inr candidates, w1)" and
    cn: "cn_session cn = session" "cn_expected cn = ci_expected cmd" "cn_candidates cn = candidates"
    unfolding prepare_completion_def Let_def repo
    by (auto simp: act_bind_Inr act_pure_def query_def sqlite_init_repository_def)
  obtain s0 where s0: "find (\<lambda>s. is_id s = ci_session cmd) (sessions_t d) = Some s0"
      "is_mode session = is_mode s0" "is_id session = ci_session cmd"
    using get_init_session_fields [OF s] by auto
  have "s0 \<in> set (sessions_t d)" using find_some_in [OF s0(1)] by simp
  then have "session_ok s0" using inv by (simp add: init_inv_def)
  then have mode: "is_mode session = ModeFull \<or> is_mode session = ModeIncremental"
    by (simp add: session_ok_def s0(2))
  from candidates mode obtain budget plan where
    plan: "list_omitted_relations ic session budget d = Inr plan" and
    prepared: "prepare_stale_candidates sv (ci_principal cmd) (trim_space (ci_reason cmd))
            (trim_space (ci_request_id cmd)) 0 (op_relations plan) (d, g) = (Inr candidates, w1)"
    unfolding repo
    by (simp add: Let_def act_bind_Inr act_pure_def query_def sqlite_init_repository_def) blast
  note ps = prepare_stale_candidates_Inr [OF relations store prepared]
  have "(\<lambda>p. rv_relation_id (p_revision p)) ` set candidates = r_id ` set (op_relations plan)"
    using ps by (metis list.set_map)
  with omitted_relations [OF store plan] ps cn s check show ?thesis
    using s0(3) get_init_session_fields by (fastforce simp: check_completion_def Let_def result_simps)
qed

text \<open>
  C11. A completion prepared at one moment and written at a later one, whatever was called in
  between, proposes as stale exactly the published relations of its repository that the session
  had not seen, within the scope of an incremental session. They are still unseen when it is
  written, each of them is then pending as stale and is listed in the result, the published
  graph is as before, and the session is closed.
\<close>

theorem completion_proposes_unseen:
  assumes "codec_stable (jc_relations ic)" "sessions_reachable ic d0"
    and "iv_repository sv = sqlite_init_repository ic ie0"
    and "c_repository (iv_commands sv) = relations_beside_sessions (jc_relations ic) eng"
    and "prepare_completion sv cmd (d0, g) = (Inr cn, w)"
    and "sessions_later ic d0 d1" "complete_session ic ie cn d1 = (Inr completion, d2)"
  shows "(\<lambda>p. rv_relation_id (p_revision p)) ` set (cn_candidates cn) = unseen_published (cn_session cn) d0
    \<and> (\<forall>i\<in>unseen_published (cn_session cn) d0.
         \<not> seen_in (ci_session cmd) d1 i \<and> i \<in> set (ic_relations completion)
         \<and> (\<exists>l. lifecycle_of (relations_db d2) i = Some l \<and> lc_proposed l = Some ProposalStale))
    \<and> effective_t (relations_db d2) = effective_t (relations_db d1) \<and> \<not> session_open (ci_session cmd) d2"
proof -
  let ?n = "ci_session cmd"
  have inv0: "init_inv ic d0" by (rule reachable_inv [OF assms(2,1)])
  note prepared = prepare_completion_Inr [OF assms(3,4) inv0 assms(5)]
  then have n: "is_id (cn_session cn) = ?n"
    using get_init_session_fields by blast
  from later_grows [OF assms(6,1) inv0] have grows: "session_grows ?n d0 d1" and inv1: "init_inv ic d1"
    by simp_all
  have store: "store_inv (jc_relations ic) (relations_db d1)" using inv1 by (simp add: init_inv_def)
  from complete_session_effect [OF assms(7) store] obtain s rd a deferred where
    e: "find (\<lambda>s. is_id s = is_id (cn_session cn)) (sessions_t d1) = Some s" "is_status s = InitOpen"
      "verify_init_batch_count (is_id s) (cn_expected cn) d1 = Inr ()"
      "proposals_added (jc_relations ic) (relation_engine ie) (relations_db d1) rd"
      "\<And>p. p \<in> set (deferred @ cn_candidates cn) \<Longrightarrow> candidate_pending rd p"
      "d2 = (close_session (is_id s) (cn_completed_at cn) (beside rd d1))\<lparr>init_audit_t := init_audit_t d1 @ [a]\<rparr>"
      "ic_relations completion = map (\<lambda>p. rv_relation_id (p_revision p)) (deferred @ cn_candidates cn)"
    by blast
  have sid: "is_id s = ?n" using find_some_in [OF e(1)] n by simp
  have "length (session_batches ?n d1) = length (session_batches ?n d0)"
    using e(3) prepared n sid by (simp add: verify_init_batch_count_def fail_if_eq_Inr)
  with grows have "seen_rows ?n d1 = seen_rows ?n d0"
    unfolding session_grows_def by (metis append_self_conv length_append length_0_conv add_cancel_right_right)
  then have seen: "seen_in ?n d1 i = seen_in ?n d0 i" for i by (simp add: seen_in_rows)
  have rd: "relations_db d2 = rd" by (simp add: e(6) frame_simps)
  have candidates: "\<exists>p\<in>set (cn_candidates cn). rv_relation_id (p_revision p) = i \<and> rv_kind (p_revision p) = ProposalStale"
    if "i \<in> unseen_published (cn_session cn) d0" for i
  proof -
    have "i \<in> (\<lambda>p. rv_relation_id (p_revision p)) ` set (cn_candidates cn)" using that prepared by simp
    then obtain p where "p \<in> set (cn_candidates cn)" "i = rv_relation_id (p_revision p)" by (rule imageE)
    with prepared show ?thesis by auto
  qed
  have each: "\<not> seen_in ?n d1 i \<and> i \<in> set (ic_relations completion)
      \<and> (\<exists>l. lifecycle_of (relations_db d2) i = Some l \<and> lc_proposed l = Some ProposalStale)"
    if unseen: "i \<in> unseen_published (cn_session cn) d0" for i
  proof -
    obtain p where p: "p \<in> set (cn_candidates cn)" "rv_relation_id (p_revision p) = i"
        "rv_kind (p_revision p) = ProposalStale"
      using candidates [OF unseen] by blast
    with e(5) [of p] have "candidate_pending rd p" by simp
    with p have "\<exists>l. lifecycle_of rd i = Some l \<and> lc_proposed l = Some ProposalStale"
      unfolding candidate_pending_def by auto
    moreover have "i \<in> set (ic_relations completion)" using p(1,2) by (force simp: e(7))
    moreover have "\<not> seen_in ?n d1 i" using unseen n seen by (simp add: unseen_published_def)
    ultimately show ?thesis by (simp add: rd)
  qed
  have "\<not> session_open ?n d2"
  proof
    assume "session_open ?n d2"
    then obtain x where x: "find (\<lambda>s. is_id s = ?n) (sessions_t d2) = Some x" "is_status x = InitOpen"
      by (auto simp: session_open_def)
    then show False
      using find_some_in [OF x(1)] sid by (auto simp: e(6) close_session_def)
  qed
  moreover have "effective_t (relations_db d2) = effective_t (relations_db d1)"
    using proposals_only_proposed [OF e(4)] by (simp add: only_proposed_def rd)
  ultimately show ?thesis using prepared each by blast
qed

end
