(* ===== verification/ReconcileWitnesses.thy ===== *)
theory ReconcileWitnesses
  imports ReconcileProperties
begin

section \<open>Two sessions run on concrete inputs\<close>

text \<open>
  A repository with two columns. In the first run a session proposes a relation, which is
  approved; a second session does not see it and completes. In the second run a relation was
  created and rejected, a session proposes it again, and it is revised before the completion.
\<close>

definition sample_prepared :: "int \<Rightarrow> string \<Rightarrow> proposal_record" where
  "sample_prepared first request_id =
     (let rv = \<lparr>rv_id = first + 1, rv_relation_id = first, rv_revision_no = 1, rv_kind = ProposalContent,
           rv_source = 1, rv_target = 2, rv_guard = None, rv_selector = None,
           rv_transform = sample_value, rv_confidence = Finite 0, rv_evidence = [sample_evidence], rv_actor = ''a'',
           rv_origin = OriginAgent, rv_reason = ''b'', rv_request_id = request_id, rv_expected = None,
           rv_created_at = 0\<rparr> in
      \<lparr>p_relation_id = first, p_version_id = first + 1, p_event_id = first + 2, p_audit_id = first + 3,
       p_type = TypeConditionalValueCopy, p_fingerprint = ''f'', p_revision = rv,
       p_references = references_for_revision rv\<rparr>)"

definition sample_reproposal :: proposal_record where
  "sample_reproposal =
     (let p = sample_prepared 20 ''n'' in
      p\<lparr>p_relation_id := 1,
        p_revision := (p_revision p)\<lparr>rv_relation_id := 1, rv_revision_no := 2, rv_expected := Some 1\<rparr>\<rparr>)"

definition sample_result :: "int \<Rightarrow> (int \<times> item_status) list \<Rightarrow> batch_result" where
  "sample_result session_id items =
     \<lparr>br_batch = session_id + 1, br_session = session_id, br_no = 1, br_items = items, br_unresolved = [],
      br_accepted_at = 0\<rparr>"

definition sample_results :: "(string \<times> batch_result) list" where
  "sample_results =
     [(''r'', sample_result 50 [(1, ItemCreated)]), (''s'', sample_result 60 []),
      (''t'', sample_result 50 [(1, ItemReproposed)])]"

definition sample_init_codec :: init_codec where
  "sample_init_codec =
     \<lparr>jc_relations = sample_codec,
      jc_marshal_record = (\<lambda>p. if p = sample_reproposal then Some ''p'' else None),
      jc_unmarshal_record = (\<lambda>s. if s = ''p'' then Some sample_reproposal else None),
      jc_marshal_result = map_of (map prod.swap sample_results),
      jc_unmarshal_result = map_of sample_results\<rparr>"

definition accepting :: init_engine where "accepting = (\<lambda>_. True)"

definition sample_session :: "int \<Rightarrow> string \<Rightarrow> init_session" where
  "sample_session n request_id =
     \<lparr>is_id = n, is_repository = 1, is_mode = ModeFull, is_source_commit = ''c'', is_scope = ''{}'',
      is_status = InitOpen, is_principal = sample_principal RoleAgent, is_request_id = request_id,
      is_created_at = 0, is_completed_at = None\<rparr>"

definition sample_batch :: "init_session \<Rightarrow> proposal_record list \<Rightarrow> batch_record" where
  "sample_batch session ps =
     \<lparr>bc_batch = is_id session + 1, bc_session = session, bc_no = 1, bc_key = ''k'', bc_request_id = ''b'',
      bc_digest = ''d'', bc_proposals = ps, bc_unresolved = [], bc_accepted_at = 0\<rparr>"

definition sample_sessions :: init_db where "sample_sessions = no_sessions (empty_db [1, 2] []) [1]"

definition after_calls :: "init_call list \<Rightarrow> init_db \<Rightarrow> init_db" where
  "after_calls cs d = fold (init_after sample_init_codec accepting) cs d"

definition first_batch :: "init_call list" where
  "first_batch = [CallBegin (sample_session 50 ''s''), CallSubmit (sample_batch (sample_session 50 ''s'') [sample_prepared 1 ''q''])]"

definition omitting_calls :: "init_call list" where
  "omitting_calls = first_batch @
     [CallRelation (CallReview (sample_review DecisionApprove)), CallBegin (sample_session 60 ''t''),
      CallSubmit (sample_batch (sample_session 60 ''t'') [])]"

definition outdating_calls :: "init_call list" where
  "outdating_calls =
     [CallRelation (CallCreate (sample_prepared 1 ''q'')), CallRelation (CallReview (sample_review DecisionReject)),
      CallBegin (sample_session 50 ''s''), CallSubmit (sample_batch (sample_session 50 ''s'') [sample_prepared 20 ''n'']),
      CallRelation (CallRevise sample_reproposal)]"

definition sample_service :: "(init_db, int) init_service" where
  "sample_service =
     \<lparr>iv_repository = sqlite_init_repository sample_init_codec accepting,
      iv_commands = \<lparr>c_repository = relations_beside_sessions sample_codec (\<lambda>_. True),
        c_ids = (\<lambda>g. (Inr g, g + 1)), c_now = 0, c_codec = sample_codec, c_digest = (\<lambda>_. Some ''f'')\<rparr>,
      iv_ids = (\<lambda>g. (Inr g, g + 1)), iv_now = 0, iv_batch_digest = (\<lambda>_ _ _. Some ''d''),
      iv_fingerprint = (\<lambda>_ _ _ _. Some ''u'')\<rparr>"

definition sample_completion :: complete_init_command where
  "sample_completion =
     \<lparr>ci_session = 60, ci_expected = 1, ci_principal = sample_principal RoleAgent, ci_reason = ''b'',
      ci_request_id = ''q''\<rparr>"

lemma after_calls_later:
  "list_all call_opens cs \<Longrightarrow> sessions_later sample_init_codec d (after_calls cs d)"
proof (induction cs rule: rev_induct)
  case Nil
  then show ?case by (simp add: after_calls_def sessions_later.now)
next
  case (snoc call cs)
  then show ?case by (auto simp: after_calls_def intro: sessions_later.call)
qed

lemma sample_init_codec_stable: "codec_stable (jc_relations sample_init_codec)"
  by (simp add: sample_init_codec_def sample_codec_stable)

lemma after_calls_reachable:
  "list_all call_opens cs \<Longrightarrow> sessions_reachable sample_init_codec (after_calls cs sample_sessions)"
  unfolding sessions_reachable_def sample_sessions_def
  using after_calls_later store_inv_empty by blast

lemma sample_calls_open: "list_all call_opens first_batch" "list_all call_opens omitting_calls"
    "list_all call_opens outdating_calls"
  by (simp_all add: first_batch_def omitting_calls_def outdating_calls_def call_opens_def sample_session_def)


lemma sample_results_inverse:
  "jc_marshal_result sample_init_codec x = Some t \<Longrightarrow> jc_unmarshal_result sample_init_codec t = Some x"
  by (auto simp: sample_init_codec_def sample_results_def sample_result_def split: if_splits)

definition sample_first_batch :: batch_record where
  "sample_first_batch = sample_batch (sample_session 50 ''s'') [sample_prepared 1 ''q'']"

lemma sample_batch_accepted:
  "\<exists>d. submit_stored_batch sample_init_codec accepting sample_first_batch
     (after_calls [CallBegin (sample_session 50 ''s'')] sample_sessions)
       = (Inr (sample_result 50 [(1, ItemCreated)]), d) \<and> session_open 50 d"
proof -
  have "fst (submit_stored_batch sample_init_codec accepting sample_first_batch
     (after_calls [CallBegin (sample_session 50 ''s'')] sample_sessions)) = Inr (sample_result 50 [(1, ItemCreated)])"
    "map (\<lambda>s. (is_id s, is_status s)) (sessions_t (snd (submit_stored_batch sample_init_codec accepting sample_first_batch
     (after_calls [CallBegin (sample_session 50 ''s'')] sample_sessions)))) = [(50, InitOpen)]"
    by code_simp+
  moreover have "map (\<lambda>s. (is_id s, is_status s)) (sessions_t d) = [(50, InitOpen)] \<Longrightarrow> session_open 50 d" for d
    by (auto simp: session_open_def map_eq_Cons_conv)
  moreover obtain x d where "submit_stored_batch sample_init_codec accepting sample_first_batch
     (after_calls [CallBegin (sample_session 50 ''s'')] sample_sessions) = (x, d)"
    by (metis prod.collapse)
  ultimately show ?thesis by simp
qed

lemma sample_completed:
  "\<exists>cn w completion d2.
     prepare_completion sample_service sample_completion (after_calls omitting_calls sample_sessions, 100) = (Inr cn, w)
     \<and> complete_session sample_init_codec accepting cn (after_calls omitting_calls sample_sessions) = (Inr completion, d2)
     \<and> length (cn_candidates cn) = 1"
proof -
  let ?d = "after_calls omitting_calls sample_sessions"
  have "(case prepare_completion sample_service sample_completion (?d, 100) of
      (Inl e, w) \<Rightarrow> False
    | (Inr cn, w) \<Rightarrow> result_ok (fst (complete_session sample_init_codec accepting cn ?d))
        \<and> length (cn_candidates cn) = 1)"
    by code_simp
  moreover obtain r w where prepared: "prepare_completion sample_service sample_completion (?d, 100) = (r, w)"
    by (metis prod.collapse)
  ultimately obtain cn where cn: "r = Inr cn" "length (cn_candidates cn) = 1"
    and ok: "result_ok (fst (complete_session sample_init_codec accepting cn ?d))"
    by (cases r) simp_all
  obtain completion where "fst (complete_session sample_init_codec accepting cn ?d) = Inr completion"
    using result_okE [OF ok] by blast
  then show ?thesis using prepared cn by (metis prod.collapse)
qed

subsection \<open>Witnesses\<close>

lemma initialization_only_proposes_witness:
  "\<exists>r d' g'. run_init sample_service (CompleteInit sample_completion) (after_calls omitting_calls sample_sessions, 100)
       = (r, (d', g'))
     \<and> effective_t (relations_db d') = effective_t (relations_db (after_calls omitting_calls sample_sessions))"
proof -
  let ?d = "after_calls omitting_calls sample_sessions"
  obtain r d' g' where run: "run_init sample_service (CompleteInit sample_completion) (?d, 100) = (r, (d', g'))"
    by (metis prod.collapse)
  have "iv_repository sample_service = sqlite_init_repository sample_init_codec accepting"
    by (simp add: sample_service_def)
  from initialization_only_proposes [OF sample_init_codec_stable after_calls_reachable [OF sample_calls_open(2)] this run]
    run show ?thesis by blast
qed

lemma batch_replayed_witness:
  "\<exists>d. submit_stored_batch sample_init_codec accepting sample_first_batch d
       = (Inr (sample_result 50 [(1, ItemCreated)]), d)"
proof -
  have begun: "list_all call_opens [CallBegin (sample_session 50 ''s'')]"
    by (simp add: call_opens_def sample_session_def)
  obtain d where d: "submit_stored_batch sample_init_codec accepting sample_first_batch
     (after_calls [CallBegin (sample_session 50 ''s'')] sample_sessions)
       = (Inr (sample_result 50 [(1, ItemCreated)]), d)" "session_open 50 d"
    using sample_batch_accepted by blast
  have "accepting QueueInit" "accepting StartInit" "accepting CommitInit" "accepting AnswerInit"
    "is_id (bc_session sample_first_batch) = 50"
    by (simp_all add: accepting_def sample_first_batch_def sample_batch_def sample_session_def)
  with batch_replayed [OF sample_results_inverse sample_init_codec_stable after_calls_reachable [OF begun]
      d(1) sessions_later.now refl refl, of accepting] d(2)
  show ?thesis by auto
qed

lemma session_batches_numbered_witness:
  "map bt_no (session_batches 50 (after_calls first_batch sample_sessions))
     = [1..int (length (session_batches 50 (after_calls first_batch sample_sessions)))]"
proof -
  have "sample_session 50 ''s'' \<in> set (sessions_t (after_calls first_batch sample_sessions))" by code_simp
  from session_batches_numbered [OF sample_init_codec_stable after_calls_reachable [OF sample_calls_open(1)] this
      sessions_later.now]
  show ?thesis by (simp add: sample_session_def)
qed

lemma completion_proposes_unseen_witness:
  "\<exists>d2 i l. \<not> session_open 60 d2 \<and> lifecycle_of (relations_db d2) i = Some l \<and> lc_proposed l = Some ProposalStale"
proof -
  let ?d = "after_calls omitting_calls sample_sessions"
  obtain cn w completion d2 where
    run: "prepare_completion sample_service sample_completion (?d, 100) = (Inr cn, w)"
      "complete_session sample_init_codec accepting cn ?d = (Inr completion, d2)" "length (cn_candidates cn) = 1"
    using sample_completed by blast
  have "iv_repository sample_service = sqlite_init_repository sample_init_codec accepting"
    "c_repository (iv_commands sample_service) = relations_beside_sessions (jc_relations sample_init_codec) (\<lambda>_. True)"
    by (simp_all add: sample_service_def sample_init_codec_def)
  note all = completion_proposes_unseen [OF sample_init_codec_stable after_calls_reachable [OF sample_calls_open(2)]
      this run(1) sessions_later.now run(2)]
  have "unseen_published (cn_session cn) ?d \<noteq> {}" using all run(3) by (cases "cn_candidates cn") auto
  moreover have "ci_session sample_completion = 60" by (simp add: sample_completion_def)
  ultimately show ?thesis using all by (metis ex_in_conv)
qed

definition sample_outdated :: candidate_row where
  "sample_outdated = \<lparr>ca_session = 50, ca_batch = 51, ca_relation = 1, ca_json = ''p'', ca_created_at = 0\<rparr>"

definition sample_record :: completion_record where
  "sample_record =
     \<lparr>cn_session = sample_session 50 ''s'', cn_expected = 1, cn_candidates = [], cn_audit = 90,
      cn_principal = sample_principal RoleAgent, cn_reason = ''b'', cn_request_id = ''q'', cn_completed_at = 0\<rparr>"

lemma outdated_reproposal_blocks_completion_witness:
  "\<exists>e. complete_session sample_init_codec accepting sample_record (after_calls outdating_calls sample_sessions)
     = (Inl e, after_calls outdating_calls sample_sessions)"
proof -
  let ?d = "after_calls outdating_calls sample_sessions"
  have "sample_outdated \<in> set (candidates_t ?d)"
    "map_option lc_latest (lifecycle_of (relations_db ?d) 1) = Some 2" by code_simp+
  then obtain l where "sample_outdated \<in> set (candidates_t ?d)"
      "lifecycle_of (relations_db ?d) (rv_relation_id (p_revision sample_reproposal)) = Some l" "lc_latest l = 2"
    by (auto simp: sample_reproposal_def Let_def)
  moreover have "jc_unmarshal_record sample_init_codec (ca_json sample_outdated) = Some sample_reproposal"
    "rv_revision_no (p_revision sample_reproposal) = 2" "is_id (cn_session sample_record) = ca_session sample_outdated"
    by (simp_all add: sample_init_codec_def sample_outdated_def sample_reproposal_def sample_record_def
      sample_session_def Let_def)
  ultimately show ?thesis
    using outdated_reproposal_blocks_completion [OF sample_init_codec_stable
      after_calls_reachable [OF sample_calls_open(3)] _ _ _ _ sessions_later.now,
      of sample_outdated sample_reproposal l sample_record accepting]
    by simp
qed

end
