(* ===== verification/Catalog.thy ===== *)
theory Catalog
  imports Jobs RelationRepository
begin

section \<open>The schema catalog\<close>

text \<open>
  \<^verbatim>\<open>internal/catalog/catalog.go\<close>: the registered data sources, whose connection strings are
  sealed before they are stored, and the schema snapshots that scans publish. The repository,
  the id generator, the sealer and the check of a connection string are fields of
  \<open>catalog_service\<close>.
\<close>

subsection \<open>Data\<close>

datatype catalog_error =
    ErrInvalidDataSource | ErrDataSourceNotFound | ErrDataSourceNameTaken | ErrDataSourceInUse
  | ErrUnusableDsn | ErrInvalidSnapshot | ErrNodeNotFound | ErrCatalogForbidden
  | ErrSealerUnavailable | SealFailure | CatalogIdNotDrawn | CatalogRelationError relation_error
  | CatalogStoreFailure | CatalogContextEnded

datatype node_kind = NodeDatabase | NodeSchema | NodeTable | NodeColumn | NodeOther int

datatype node_status = NodeActive | NodeStale

definition maximum_snapshot_nodes :: int where "maximum_snapshot_nodes = 100000"
definition maximum_snapshot_foreign_keys :: int where "maximum_snapshot_foreign_keys = 80000"
definition maximum_catalog_tables :: int where "maximum_catalog_tables = 100"
definition maximum_table_list_limit :: int where "maximum_table_list_limit = 5000"
definition maximum_indexes_per_table :: int where "maximum_indexes_per_table = 128"
definition maximum_index_columns :: int where "maximum_index_columns = 64"
definition maximum_comment_length :: nat where "maximum_comment_length = 4000"
definition maximum_dsn_length :: int where "maximum_dsn_length = 2000"

text \<open>\<^verbatim>\<open>MinimumListLimit\<close>, \<^verbatim>\<open>DefaultListLimit\<close> and \<^verbatim>\<open>MaximumListLimit\<close>.\<close>

definition clamp_list_limit :: "int \<Rightarrow> int" where
  "clamp_list_limit n = (if n < 1 then 50 else if n > 200 then 200 else n)"

record data_source =
  ds_id :: int
  ds_name :: string
  ds_kind :: int
  ds_environment :: string
  ds_key_id :: string
  ds_ciphertext :: string
  ds_created_at :: int
  ds_updated_at :: int

record create_data_source_command =
  cd_name :: string
  cd_kind :: int
  cd_environment :: string
  cd_dsn :: string

record admin_create_data_source =
  ac_name :: string
  ac_kind :: int
  ac_environment :: string
  ac_dsn :: string
  ac_principal :: principal
  ac_reason :: string
  ac_request_id :: string

record admin_update_data_source =
  au_data_source :: int
  au_name :: string
  au_environment :: string
  au_dsn :: string
  au_principal :: principal
  au_reason :: string
  au_request_id :: string

record table_index =
  ix_name :: string
  ix_unique :: bool
  ix_primary :: bool
  ix_columns :: "string list"

record node_input =
  ni_key :: string
  ni_parent :: string
  ni_kind :: node_kind
  ni_name :: string
  ni_qualified :: string
  ni_type :: string
  ni_nullable :: bool
  ni_ordinal :: int
  ni_indexes :: "table_index list"
  ni_comment :: string

record declared_key =
  dk_schema :: string
  dk_name :: string
  dk_source :: string
  dk_target :: string
  dk_ordinal :: int

record publish_snapshot_command =
  pb_data_source :: int
  pb_nodes :: "node_input list"
  pb_keys :: "declared_key list"
  pb_scope :: "string list"

record snapshot_publication =
  pu_run :: int
  pu_data_source :: int
  pu_nodes :: "node_input list"
  pu_keys :: "declared_key list"
  pu_scope :: "string list"
  pu_started_at :: int
  pu_prestarted :: bool

record schema_scan_run =
  sx_id :: int
  sx_data_source :: int
  sx_started_at :: int

record scan_failure =
  fl_run :: schema_scan_run
  fl_error_code :: string
  fl_error_message :: string
  fl_completed_at :: int

record table_summary =
  ts_id :: int
  ts_name :: string
  ts_qualified :: string

record catalog_node =
  cg_id :: int
  cg_version :: int
  cg_data_source :: int
  cg_scan_run :: int
  cg_parent :: int
  cg_kind :: node_kind
  cg_status :: node_status
  cg_key :: string
  cg_name :: string
  cg_qualified :: string
  cg_type :: string
  cg_nullable :: bool
  cg_ordinal :: int
  cg_created_at :: int

text \<open>
  The repository acts on a world \<open>'w\<close> of the tables and its id generator. \<open>ct_tables\<close> is the
  optional \<^verbatim>\<open>TableLister\<close>; the reads with full-text search and of one table's details are left
  out.
\<close>

record 'w catalog_repository =
  ct_create :: "data_source \<Rightarrow> ('w, catalog_error, unit) action"
  ct_create_audited :: "data_source \<Rightarrow> audit_event \<Rightarrow> ('w, catalog_error, unit) action"
  ct_get :: "int \<Rightarrow> 'w \<Rightarrow> catalog_error + data_source"
  ct_list :: "int \<Rightarrow> 'w \<Rightarrow> catalog_error + data_source list"
  ct_update :: "data_source \<Rightarrow> bool \<Rightarrow> audit_event \<Rightarrow> ('w, catalog_error, unit) action"
  ct_delete :: "int \<Rightarrow> ('w, catalog_error, unit) action"
  ct_begin_scan :: "schema_scan_run \<Rightarrow> ('w, catalog_error, unit) action"
  ct_fail_scan :: "scan_failure \<Rightarrow> ('w, catalog_error, unit) action"
  ct_publish :: "snapshot_publication \<Rightarrow> ('w, catalog_error, published_snapshot) action"
  ct_find_node :: "int \<Rightarrow> string \<Rightarrow> 'w \<Rightarrow> catalog_error + catalog_node"
  ct_get_node :: "int \<Rightarrow> 'w \<Rightarrow> catalog_error + catalog_node"
  ct_tables :: "(int \<Rightarrow> string \<Rightarrow> int \<Rightarrow> 'w \<Rightarrow> catalog_error + table_summary list) option"

text \<open>
  \<open>kv_seal\<close> is the \<^verbatim>\<open>DSNSealer\<close>, which returns the key and the sealed bytes or fails, and
  \<open>kv_validate\<close> the \<^verbatim>\<open>DSNValidator\<close>; both are optional.
\<close>

record 'w catalog_service =
  kv_repository :: "'w catalog_repository"
  kv_ids :: "('w, catalog_error, int) action"
  kv_now :: int
  kv_seal :: "(string \<Rightarrow> (string \<times> string) option) option"
  kv_validate :: "(string \<Rightarrow> bool) option"

text \<open>The year 1, at which \<^verbatim>\<open>time.Time.IsZero\<close> holds, in nanoseconds from 1970.\<close>

definition zero_time :: int where "zero_time = - 62135596800 * 10 ^ 9"

text \<open>A query that only reads the world.\<close>

definition asks :: "('w \<Rightarrow> 'e + 'a) \<Rightarrow> ('w, 'e, 'a) action" where
  "asks f w = (f w, w)"

lemma asks_Inr [result_simps]: "asks f w = (Inr x, w') \<longleftrightarrow> f w = Inr x \<and> w' = w"
  by (auto simp: asks_def)

subsection \<open>Data sources\<close>

text \<open>\<^verbatim>\<open>^[A-Z][A-Z0-9_]*$\<close>, or nothing.\<close>

definition upper_case :: "char \<Rightarrow> bool" where
  "upper_case c \<longleftrightarrow> 65 \<le> byte c \<and> byte c \<le> 90"

definition valid_environment_name :: "string \<Rightarrow> bool" where
  "valid_environment_name name \<longleftrightarrow>
     name = [] \<or> upper_case (hd name)
       \<and> list_all (\<lambda>c. upper_case c \<or> 48 \<le> byte c \<and> byte c \<le> 57 \<or> c = CHR ''_'') (tl name)"

definition audit_reason :: "string \<Rightarrow> string \<Rightarrow> string" where
  "audit_reason reason fallback = (if reason = [] then fallback else reason)"

definition stored_label :: "string \<Rightarrow> string" where
  "stored_label ciphertext = (if length ciphertext > 0 then ''true'' else ''false'')"

definition seal_dsn :: "'w catalog_service \<Rightarrow> string \<Rightarrow> catalog_error + string \<times> string" where
  "seal_dsn sv dsn =
     (let trimmed = trim_space dsn in
      if trimmed = [] then Inr ([], [])
      else
        sbind (fail_if (int (length trimmed) > maximum_dsn_length) ErrInvalidDataSource) (\<lambda>_.
        sbind (case kv_validate sv of None \<Rightarrow> Inr () | Some usable \<Rightarrow> fail_if (\<not> usable trimmed) ErrUnusableDsn) (\<lambda>_.
        case kv_seal sv of
          None \<Rightarrow> Inl ErrSealerUnavailable
        | Some seal \<Rightarrow> (case seal trimmed of None \<Rightarrow> Inl SealFailure | Some sealed \<Rightarrow> Inr sealed))))"

text \<open>\<^verbatim>\<open>json.Marshal\<close> of a map of strings writes its keys in order.\<close>

definition text_map :: "(string \<times> string) list \<Rightarrow> string" where
  "text_map ms = json_text (JObject (map (\<lambda>(k, v). (k, JString v)) ms))"

definition source_event ::
  "int \<Rightarrow> string \<Rightarrow> origin \<Rightarrow> string \<Rightarrow> int \<Rightarrow> string \<Rightarrow> string \<Rightarrow> string \<Rightarrow> int \<Rightarrow> audit_event" where
  "source_event event_id actor orig action subject reason request_id details occurred_at =
     \<lparr>ae_id = event_id, ae_actor = actor, ae_origin = orig, ae_action = action,
      ae_subject_type = ''DATA_SOURCE'', ae_subject = subject, ae_reason = reason,
      ae_request_id = request_id, ae_expected = None, ae_details = details, ae_occurred_at = occurred_at\<rparr>"

definition create_data_source ::
  "'w catalog_service \<Rightarrow> create_data_source_command \<Rightarrow> (data_source \<Rightarrow> int \<Rightarrow> int \<Rightarrow> audit_event) option
    \<Rightarrow> ('w, catalog_error, data_source) action" where
  "create_data_source sv cmd audit_builder =
     (let name = trim_space (cd_name cmd); environment = trim_space (cd_environment cmd) in
      act_bind (act_pure (fail_if (cd_kind cmd \<noteq> data_source_mysql) ErrInvalidDataSource)) (\<lambda>_.
      act_bind (act_pure (fail_if (name = [] \<or> length name > 200 \<or> \<not> valid_environment_name environment)
        ErrInvalidDataSource)) (\<lambda>_.
      act_bind (kv_ids sv) (\<lambda>source_id.
      act_bind (act_pure (seal_dsn sv (cd_dsn cmd))) (\<lambda>(key_id, ciphertext).
      let source = \<lparr>ds_id = source_id, ds_name = name, ds_kind = cd_kind cmd, ds_environment = environment,
            ds_key_id = key_id, ds_ciphertext = ciphertext, ds_created_at = kv_now sv,
            ds_updated_at = kv_now sv\<rparr> in
      case audit_builder of
        Some build \<Rightarrow>
          act_bind (kv_ids sv) (\<lambda>audit_id.
          act_bind (ct_create_audited (kv_repository sv) source (build source audit_id (kv_now sv))) (\<lambda>_.
          act_pure (Inr source)))
      | None \<Rightarrow>
          act_bind (ct_create (kv_repository sv) source) (\<lambda>_. act_pure (Inr source)))))))"

definition create_data_source_as_admin ::
  "'w catalog_service \<Rightarrow> admin_create_data_source \<Rightarrow> ('w, catalog_error, data_source) action" where
  "create_data_source_as_admin sv cmd =
     act_bind (act_pure (fail_if (pr_role (ac_principal cmd) \<noteq> RoleAdmin) ErrCatalogForbidden)) (\<lambda>_.
     let actor = trim_space (pr_actor (ac_principal cmd)); reason = trim_space (ac_reason cmd);
         request_id = trim_space (ac_request_id cmd); orig = pr_origin (ac_principal cmd) in
     act_bind (act_pure (fail_if (actor = [] \<or> length actor > 200 \<or> length reason > 2000
       \<or> request_id = [] \<or> length request_id > 200 \<or> orig \<noteq> OriginAgent \<and> orig \<noteq> OriginWeb)
       ErrInvalidDataSource)) (\<lambda>_.
     create_data_source sv
       \<lparr>cd_name = ac_name cmd, cd_kind = ac_kind cmd, cd_environment = ac_environment cmd, cd_dsn = ac_dsn cmd\<rparr>
       (Some (\<lambda>source event_id occurred_at.
          source_event event_id actor orig ''DATA_SOURCE_CREATED'' (ds_id source)
            (audit_reason reason ''Registered from the console'') request_id
            (text_map [(''dsnEnvironment'', ds_environment source),
               (''dsnStored'', stored_label (ds_ciphertext source)), (''kind'', ''MYSQL'')])
            occurred_at))))"

definition update_data_source_as_admin ::
  "'w catalog_service \<Rightarrow> admin_update_data_source \<Rightarrow> ('w, catalog_error, data_source) action" where
  "update_data_source_as_admin sv cmd =
     act_bind (act_pure (fail_if (pr_role (au_principal cmd) \<noteq> RoleAdmin) ErrCatalogForbidden)) (\<lambda>_.
     let name = trim_space (au_name cmd); environment = trim_space (au_environment cmd);
         actor = trim_space (pr_actor (au_principal cmd)); reason = trim_space (au_reason cmd);
         request_id = trim_space (au_request_id cmd) in
     act_bind (act_pure (fail_if (au_data_source cmd \<le> 0 \<or> name = [] \<or> length name > 200
       \<or> \<not> valid_environment_name environment \<or> actor = [] \<or> length actor > 200 \<or> length reason > 2000
       \<or> request_id = [] \<or> length request_id > 200) ErrInvalidDataSource)) (\<lambda>_.
     act_bind (asks (ct_get (kv_repository sv) (au_data_source cmd))) (\<lambda>existing.
     act_bind (act_pure (seal_dsn sv (au_dsn cmd))) (\<lambda>(key_id, ciphertext).
     let replace_secret = (trim_space (au_dsn cmd) \<noteq> []) in
     act_bind (kv_ids sv) (\<lambda>event_id.
     let renamed = existing\<lparr>ds_name := name, ds_environment := environment, ds_updated_at := kv_now sv\<rparr>;
         updated = (if replace_secret then renamed\<lparr>ds_key_id := key_id, ds_ciphertext := ciphertext\<rparr>
                    else renamed);
         event = source_event event_id actor (pr_origin (au_principal cmd)) ''DATA_SOURCE_UPDATED''
           (ds_id updated) (audit_reason reason ''Updated from the console'') request_id
           (text_map [(''dsnEnvironment'', environment), (''dsnReplaced'', stored_label ciphertext),
              (''name'', name)]) (kv_now sv) in
     act_bind (ct_update (kv_repository sv) updated replace_secret event) (\<lambda>_.
     act_pure (Inr updated)))))))"

definition delete_data_source :: "'w catalog_service \<Rightarrow> int \<Rightarrow> ('w, catalog_error, unit) action" where
  "delete_data_source sv source_id =
     act_bind (act_pure (fail_if (source_id \<le> 0) ErrInvalidDataSource)) (\<lambda>_.
     ct_delete (kv_repository sv) source_id)"

definition get_data_source :: "'w catalog_service \<Rightarrow> int \<Rightarrow> 'w \<Rightarrow> catalog_error + data_source" where
  "get_data_source sv source_id w =
     sbind (fail_if (source_id \<le> 0) ErrInvalidDataSource) (\<lambda>_. ct_get (kv_repository sv) source_id w)"

definition list_data_sources :: "'w catalog_service \<Rightarrow> int \<Rightarrow> 'w \<Rightarrow> catalog_error + data_source list" where
  "list_data_sources sv n = ct_list (kv_repository sv) (clamp_list_limit n)"

definition list_tables ::
  "'w catalog_service \<Rightarrow> int \<Rightarrow> string \<Rightarrow> int \<Rightarrow> 'w \<Rightarrow> catalog_error + table_summary list" where
  "list_tables sv source_id pattern n w =
     sbind (fail_if (source_id \<le> 0) ErrInvalidDataSource) (\<lambda>_.
     sbind (fail_if (length pattern > 200) ErrInvalidDataSource) (\<lambda>_.
     case ct_tables (kv_repository sv) of
       None \<Rightarrow> Inl ErrInvalidDataSource
     | Some lister \<Rightarrow>
         lister source_id pattern
           (if n < 1 \<or> n > maximum_table_list_limit then maximum_table_list_limit else n) w))"

subsection \<open>Metadata of a node\<close>

definition index_json :: "table_index \<Rightarrow> json" where
  "index_json ix =
     JObject [(''name'', JString (ix_name ix)), (''unique'', JBool (ix_unique ix)),
       (''primary'', JBool (ix_primary ix)), (''columns'', JArray (map JString (ix_columns ix)))]"

definition known_name :: "string \<Rightarrow> bool" where
  "known_name s \<longleftrightarrow> \<not> (trim_space s = [] \<or> length s > 500)"

definition index_ok :: "table_index \<Rightarrow> bool" where
  "index_ok ix \<longleftrightarrow>
     known_name (ix_name ix) \<and> ix_columns ix \<noteq> [] \<and> int (length (ix_columns ix)) \<le> maximum_index_columns
     \<and> list_all known_name (ix_columns ix)"

text \<open>Both fields are \<^verbatim>\<open>omitempty\<close>.\<close>

definition encode_node_metadata :: "table_index list \<Rightarrow> string \<Rightarrow> catalog_error + string" where
  "encode_node_metadata indexes note =
     (let note = take maximum_comment_length (trim_space note) in
      if indexes = [] \<and> note = [] then Inr ''{}''
      else
        sbind (fail_if (int (length indexes) > maximum_indexes_per_table) ErrInvalidSnapshot) (\<lambda>_.
        sbind (fail_if (\<not> list_all index_ok indexes) ErrInvalidSnapshot) (\<lambda>_.
        Inr (json_text (JObject
          ((if indexes = [] then [] else [(''indexes'', JArray (map index_json indexes))])
           @ (if note = [] then [] else [(''comment'', JString note)])))))))"

subsection \<open>Snapshots\<close>

fun normalize_scope :: "string list \<Rightarrow> string list \<Rightarrow> catalog_error + string list" where
  "normalize_scope [] normalized = Inr normalized"
| "normalize_scope (table # tables) normalized =
     (let table = trim_space table in
      if \<not> valid_table_name table then Inl ErrInvalidSnapshot
      else if table \<in> set normalized then Inl ErrInvalidSnapshot
      else normalize_scope tables (normalized @ [table]))"

definition normalize_scope_tables :: "string list \<Rightarrow> catalog_error + string list" where
  "normalize_scope_tables tables =
     sbind (fail_if (int (length tables) > maximum_catalog_tables) ErrInvalidSnapshot) (\<lambda>_.
     sbind (normalize_scope tables []) (\<lambda>normalized. Inr (sort normalized)))"

definition known_kind :: "node_kind \<Rightarrow> bool" where
  "known_kind k \<longleftrightarrow> (case k of NodeOther _ \<Rightarrow> False | _ \<Rightarrow> True)"

definition node_texts_ok :: "node_input \<Rightarrow> bool" where
  "node_texts_ok n \<longleftrightarrow>
     known_kind (ni_kind n)
     \<and> \<not> (trim_space (ni_key n) = [] \<or> length (ni_key n) > 1000)
     \<and> \<not> (trim_space (ni_name n) = [] \<or> length (ni_name n) > 500)
     \<and> \<not> (trim_space (ni_qualified n) = [] \<or> length (ni_qualified n) > 1000)"

text \<open>The first loop: every node in turn, with the keys and the names of those before it.\<close>

fun validate_nodes :: "node_input list \<Rightarrow> string list \<Rightarrow> string list \<Rightarrow> catalog_error + string list" where
  "validate_nodes [] stable_keys names = Inr stable_keys"
| "validate_nodes (n # ns) stable_keys names =
     (if \<not> node_texts_ok n \<or> ni_key n \<in> set stable_keys \<or> ni_qualified n \<in> set names
      then Inl ErrInvalidSnapshot
      else validate_nodes ns (ni_key n # stable_keys) (ni_qualified n # names))"

definition parent_ok :: "string list \<Rightarrow> node_input \<Rightarrow> bool" where
  "parent_ok stable_keys n \<longleftrightarrow>
     (if ni_parent n = [] then ni_kind n = NodeDatabase else ni_parent n \<in> set stable_keys)"

text \<open>
  The key of a foreign key joins its trimmed texts with zero bytes, so that two keys are the
  same when the parts are: no two lists of parts with the same number of them that hold no zero
  byte join to the same text; where a part holds one, the joined text decides.
\<close>

definition foreign_key_key :: "declared_key \<Rightarrow> string" where
  "foreign_key_key k =
     trim_space (dk_schema k) @ [CHR 0x00] @ trim_space (dk_name k) @ [CHR 0x00] @ int_text (dk_ordinal k)
       @ [CHR 0x00] @ trim_space (dk_source k) @ [CHR 0x00] @ trim_space (dk_target k)"

definition foreign_key_ok :: "string list \<Rightarrow> declared_key \<Rightarrow> bool" where
  "foreign_key_ok column_names k \<longleftrightarrow>
     (let schema = trim_space (dk_schema k); name = trim_space (dk_name k);
          source = trim_space (dk_source k); target = trim_space (dk_target k) in
      \<not> (schema = [] \<or> length schema > 500 \<or> name = [] \<or> length name > 500
         \<or> source = [] \<or> length source > 1000 \<or> target = [] \<or> length target > 1000
         \<or> source = target \<or> dk_ordinal k \<le> 0
         \<or> source \<notin> set column_names \<or> target \<notin> set column_names))"

fun validate_foreign_keys :: "string list \<Rightarrow> declared_key list \<Rightarrow> string list \<Rightarrow> catalog_error + unit" where
  "validate_foreign_keys column_names [] seen = Inr ()"
| "validate_foreign_keys column_names (k # ks) seen =
     (if \<not> foreign_key_ok column_names k \<or> foreign_key_key k \<in> set seen then Inl ErrInvalidSnapshot
      else validate_foreign_keys column_names ks (foreign_key_key k # seen))"

definition validate_snapshot :: "publish_snapshot_command \<Rightarrow> catalog_error + unit" where
  "validate_snapshot cmd =
     sbind (fail_if (pb_data_source cmd \<le> 0 \<or> pb_nodes cmd = []
       \<or> int (length (pb_nodes cmd)) > maximum_snapshot_nodes
       \<or> int (length (pb_keys cmd)) > maximum_snapshot_foreign_keys) ErrInvalidSnapshot) (\<lambda>_.
     sbind (validate_nodes (pb_nodes cmd) [] []) (\<lambda>stable_keys.
     sbind (fail_if (\<not> list_all (parent_ok stable_keys) (pb_nodes cmd)) ErrInvalidSnapshot) (\<lambda>_.
     let column_names = map ni_qualified (filter (\<lambda>n. ni_kind n = NodeColumn) (pb_nodes cmd)) in
     validate_foreign_keys column_names (pb_keys cmd) [])))"

definition publish_snapshot ::
  "'w catalog_service \<Rightarrow> publish_snapshot_command \<Rightarrow> ('w, catalog_error, published_snapshot) action" where
  "publish_snapshot sv cmd =
     act_bind (act_pure (normalize_scope_tables (pb_scope cmd))) (\<lambda>scope.
     act_bind (act_pure (validate_snapshot (cmd\<lparr>pb_scope := scope\<rparr>))) (\<lambda>_.
     act_bind (kv_ids sv) (\<lambda>run_id.
     ct_publish (kv_repository sv)
       \<lparr>pu_run = run_id, pu_data_source = pb_data_source cmd, pu_nodes = pb_nodes cmd, pu_keys = pb_keys cmd,
        pu_scope = scope, pu_started_at = kv_now sv, pu_prestarted = False\<rparr>)))"

definition begin_schema_scan :: "'w catalog_service \<Rightarrow> int \<Rightarrow> ('w, catalog_error, schema_scan_run) action" where
  "begin_schema_scan sv source_id =
     act_bind (act_pure (fail_if (source_id \<le> 0) ErrInvalidSnapshot)) (\<lambda>_.
     act_bind (kv_ids sv) (\<lambda>run_id.
     let run = \<lparr>sx_id = run_id, sx_data_source = source_id, sx_started_at = kv_now sv\<rparr> in
     act_bind (ct_begin_scan (kv_repository sv) run) (\<lambda>_. act_pure (Inr run))))"

definition fail_schema_scan ::
  "'w catalog_service \<Rightarrow> schema_scan_run \<Rightarrow> string \<Rightarrow> ('w, catalog_error, unit) action" where
  "fail_schema_scan sv run error_code =
     (let error_code = trim_space error_code in
      act_bind (act_pure (fail_if (sx_id run \<le> 0 \<or> sx_data_source run \<le> 0 \<or> sx_started_at run = zero_time
        \<or> error_code = [] \<or> length error_code > 100) ErrInvalidSnapshot)) (\<lambda>_.
      ct_fail_scan (kv_repository sv)
        \<lparr>fl_run = run, fl_error_code = error_code, fl_error_message = ''schema scan did not complete'',
         fl_completed_at = kv_now sv\<rparr>))"

definition publish_started_snapshot ::
  "'w catalog_service \<Rightarrow> schema_scan_run \<Rightarrow> publish_snapshot_command
    \<Rightarrow> ('w, catalog_error, published_snapshot) action" where
  "publish_started_snapshot sv run cmd =
     act_bind (act_pure (normalize_scope_tables (pb_scope cmd))) (\<lambda>scope.
     act_bind (act_pure (fail_if (sx_id run \<le> 0 \<or> sx_data_source run \<noteq> pb_data_source cmd
       \<or> sx_started_at run = zero_time) ErrInvalidSnapshot)) (\<lambda>_.
     act_bind (act_pure (validate_snapshot (cmd\<lparr>pb_scope := scope\<rparr>))) (\<lambda>_.
     ct_publish (kv_repository sv)
       \<lparr>pu_run = sx_id run, pu_data_source = pb_data_source cmd, pu_nodes = pb_nodes cmd, pu_keys = pb_keys cmd,
        pu_scope = scope, pu_started_at = sx_started_at run, pu_prestarted = True\<rparr>)))"

definition find_current_node ::
  "'w catalog_service \<Rightarrow> int \<Rightarrow> string \<Rightarrow> 'w \<Rightarrow> catalog_error + catalog_node" where
  "find_current_node sv source_id name w =
     (let name = trim_space name in
      sbind (fail_if (source_id \<le> 0 \<or> name = [] \<or> length name > 1000) ErrInvalidSnapshot) (\<lambda>_.
      ct_find_node (kv_repository sv) source_id name w))"

definition get_current_node :: "'w catalog_service \<Rightarrow> int \<Rightarrow> 'w \<Rightarrow> catalog_error + catalog_node" where
  "get_current_node sv node_id w =
     sbind (fail_if (node_id \<le> 0) ErrInvalidSnapshot) (\<lambda>_. ct_get_node (kv_repository sv) node_id w)"

end
