(* ===== verification/CatalogRepository.thy ===== *)
theory CatalogRepository
  imports Catalog JobRepository "HOL-Library.AList"
begin

section \<open>The catalog in SQLite\<close>

text \<open>
  \<^verbatim>\<open>internal/platform/sqlite/catalog_repository.go\<close>. The relation tables are those of
  \<open>RelationStore\<close>, a row of \<^verbatim>\<open>schema_scan_runs\<close> is that of \<open>JobRepository\<close>, and a row of
  \<^verbatim>\<open>data_sources\<close> is the data source read back from it (a NULL key or ciphertext is the empty
  text). The keys and the numeric checks are conditions of the statements; what else SQLite may
  refuse one for is \<open>ck_engine\<close>. An operation runs on the tables and the state of the id
  generator, and an error puts back the tables but not the ids that were drawn.
\<close>

subsection \<open>Tables\<close>

record node_row =
  no_id :: int
  no_data_source :: int
  no_key :: string
  no_kind :: node_kind
  no_created_at :: int

record node_version_row =
  nv_id :: int
  nv_node :: int
  nv_scan_run :: int
  nv_parent :: "int option"
  nv_status :: node_status
  nv_name :: string
  nv_qualified :: string
  nv_type :: string
  nv_nullable :: bool
  nv_ordinal :: int
  nv_metadata :: string
  nv_created_at :: int

record node_current_row =
  nc_node :: int
  nc_version :: int
  nc_published_at :: int

record node_search_row =
  ns_node :: int
  ns_name :: string
  ns_qualified :: string
  ns_type :: string

record declared_row =
  dr_data_source :: int
  dr_key :: string
  dr_relation :: int
  dr_source :: int
  dr_target :: int
  dr_schema :: string
  dr_name :: string
  dr_ordinal :: int
  dr_last_seen :: int
  dr_present :: bool
  dr_created_at :: int
  dr_updated_at :: int

record scan_key_row =
  sk_scan_run :: int
  sk_data_source :: int
  sk_key :: string
  sk_relation :: int
  sk_source :: int
  sk_target :: int
  sk_schema :: string
  sk_name :: string
  sk_ordinal :: int
  sk_recorded_at :: int

text \<open>\<open>binding_members_t\<close> holds (revision, data source).\<close>

record catalog_db =
  cat_relations :: db
  sources_t :: "data_source list"
  nodes_t :: "node_row list"
  node_versions_t :: "node_version_row list"
  node_current_t :: "node_current_row list"
  node_search_t :: "node_search_row list"
  source_scans_t :: "scan_run list"
  declared_keys_t :: "declared_row list"
  scan_keys_t :: "scan_key_row list"
  binding_members_t :: "(int \<times> int) list"
  source_audit_t :: "audit_event list"

datatype catalog_statement =
    CatalogRelationStatement statement | InsertSource data_source | UpdateSource data_source
  | DeleteScanRows int | DeleteSource int | InsertSourceAudit audit_event
  | InsertScanRun scan_run | UpdateScanRun int | InsertNode node_row
  | InsertNodeVersion node_version_row | PublishNode node_current_row | DeleteSearch int
  | InsertSearch node_search_row | InsertDeclared declared_row | UpdateDeclared int string
  | InsertScanKey scan_key_row
  | QueueCatalog | StartCatalog | CommitCatalog | AnswerCatalog

text \<open>
  \<open>ck_next\<close> and \<open>ck_ensure\<close> are the id generator (reserving is optional), \<open>ck_hash\<close> is SHA-256
  in hexadecimal.
\<close>

record 'g catalog_store =
  ck_codec :: codec
  ck_engine :: "catalog_statement \<Rightarrow> bool"
  ck_next :: "('g, catalog_error, int) action"
  ck_ensure :: "(int \<Rightarrow> ('g, catalog_error, unit) action) option"
  ck_hash :: "string \<Rightarrow> string"

definition catalog_exec ::
  "'g catalog_store \<Rightarrow> catalog_statement \<Rightarrow> (catalog_db \<Rightarrow> bool) \<Rightarrow> (catalog_db \<Rightarrow> catalog_db) \<Rightarrow> catalog_db
    \<Rightarrow> catalog_error + catalog_db" where
  "catalog_exec ck st allowed change d =
     (if ck_engine ck st \<and> allowed d then Inr (change d) else Inl CatalogStoreFailure)"

lemma catalog_exec_Inr [result_simps]:
  "catalog_exec ck st allowed change d = Inr d' \<longleftrightarrow> ck_engine ck st \<and> allowed d \<and> d' = change d"
  by (auto simp: catalog_exec_def)

text \<open>
  \<^verbatim>\<open>executeWrite\<close> and \<^verbatim>\<open>Store.write\<close>, as in \<open>RelationStore\<close>: the caller of a queued write whose
  context ends before the answer (\<open>AnswerCatalog\<close> is refused) gets an error for an operation that
  is carried out.
\<close>

definition execute_catalog ::
  "'g catalog_store \<Rightarrow> (catalog_db \<times> 'g, catalog_error, 'a) action \<Rightarrow> (catalog_db \<times> 'g, catalog_error, 'a) action" where
  "execute_catalog ck operation w =
     (if \<not> ck_engine ck StartCatalog then (Inl CatalogStoreFailure, w)
      else case operation w of
             (Inl e, w') \<Rightarrow> (Inl e, (fst w, snd w'))
           | (Inr x, w') \<Rightarrow>
               if ck_engine ck CommitCatalog then (Inr x, w') else (Inl CatalogStoreFailure, (fst w, snd w')))"

definition catalog_write ::
  "'g catalog_store \<Rightarrow> (catalog_db \<times> 'g, catalog_error, 'a) action \<Rightarrow> (catalog_db \<times> 'g, catalog_error, 'a) action" where
  "catalog_write ck operation w =
     (if \<not> ck_engine ck QueueCatalog then (Inl CatalogStoreFailure, w)
      else case execute_catalog ck operation w of
             (answer, w') \<Rightarrow> (if ck_engine ck AnswerCatalog then answer else Inl CatalogContextEnded, w'))"

definition write_tables ::
  "(catalog_db \<Rightarrow> catalog_error + catalog_db) \<Rightarrow> (catalog_db \<times> 'g, catalog_error, unit) action" where
  "write_tables f w = (case f (fst w) of Inl e \<Rightarrow> (Inl e, w) | Inr d \<Rightarrow> (Inr (), (d, snd w)))"

definition catalog_id :: "'g catalog_store \<Rightarrow> (catalog_db \<times> 'g, catalog_error, int) action" where
  "catalog_id ck = on_ids (ck_next ck)"

text \<open>A loop that builds a result and stops at the first error.\<close>

fun act_fold :: "('x \<Rightarrow> 's \<Rightarrow> ('w, 'e, 's) action) \<Rightarrow> 'x list \<Rightarrow> 's \<Rightarrow> ('w, 'e, 's) action" where
  "act_fold f [] s = act_pure (Inr s)"
| "act_fold f (x # xs) s = act_bind (f x s) (act_fold f xs)"

subsection \<open>Data sources\<close>

definition has_source :: "catalog_db \<Rightarrow> int \<Rightarrow> bool" where
  "has_source d source_id \<longleftrightarrow> source_id \<in> ds_id ` set (sources_t d)"

text \<open>
  A trigger checks the kind, and the primary key is checked before the unique name; only the latter
  has an error of its own.
\<close>

definition insert_data_source :: "'g catalog_store \<Rightarrow> data_source \<Rightarrow> catalog_db \<Rightarrow> catalog_error + catalog_db" where
  "insert_data_source ck source d =
     (if \<not> (ck_engine ck (InsertSource source) \<and> ds_id source > 0 \<and> ds_kind source = data_source_mysql
          \<and> \<not> has_source d (ds_id source))
      then Inl CatalogStoreFailure
      else if ds_name source \<in> ds_name ` set (sources_t d) then Inl ErrDataSourceNameTaken
      else Inr (d\<lparr>sources_t := sources_t d @ [source]\<rparr>))"

definition insert_source_audit :: "'g catalog_store \<Rightarrow> audit_event \<Rightarrow> catalog_db \<Rightarrow> catalog_error + catalog_db" where
  "insert_source_audit ck event d =
     (case insert_audit_event (\<lambda>e. ck_engine ck (InsertSourceAudit e) \<and> ae_id e \<notin> ar_id ` set (audit_t (cat_relations d)))
        event (source_audit_t d) of
        None \<Rightarrow> Inl CatalogStoreFailure
      | Some events \<Rightarrow> Inr (d\<lparr>source_audit_t := events\<rparr>))"

definition create_stored_source ::
  "'g catalog_store \<Rightarrow> data_source \<Rightarrow> (catalog_db \<times> 'g, catalog_error, unit) action" where
  "create_stored_source ck source = catalog_write ck (write_tables (insert_data_source ck source))"

definition create_stored_source_with_audit ::
  "'g catalog_store \<Rightarrow> data_source \<Rightarrow> audit_event \<Rightarrow> (catalog_db \<times> 'g, catalog_error, unit) action" where
  "create_stored_source_with_audit ck source event =
     catalog_write ck
       (act_bind (write_tables (insert_data_source ck source)) (\<lambda>_.
        write_tables (insert_source_audit ck event)))"

definition list_all_data_sources :: "int \<Rightarrow> catalog_db \<Rightarrow> catalog_error + data_source list" where
  "list_all_data_sources n d = Inr (take_limit n (sort_key ds_name (sort_key ds_id (sources_t d))))"

definition update_source_row :: "'g catalog_store \<Rightarrow> data_source \<Rightarrow> bool \<Rightarrow> catalog_db \<Rightarrow> catalog_error + catalog_db" where
  "update_source_row ck source replace_secret d =
     (if \<not> ck_engine ck (UpdateSource source) then Inl CatalogStoreFailure
      else if \<not> has_source d (ds_id source) then Inl ErrDataSourceNotFound
      else if list_ex (\<lambda>s. ds_id s \<noteq> ds_id source \<and> ds_name s = ds_name source) (sources_t d)
      then Inl ErrDataSourceNameTaken
      else Inr (d\<lparr>sources_t := map (\<lambda>s.
        if ds_id s = ds_id source
        then (if replace_secret
              then s\<lparr>ds_key_id := ds_key_id source, ds_ciphertext := ds_ciphertext source\<rparr> else s)
               \<lparr>ds_name := ds_name source, ds_environment := ds_environment source,
                ds_updated_at := ds_updated_at source\<rparr>
        else s) (sources_t d)\<rparr>))"

definition update_data_source_with_audit ::
  "'g catalog_store \<Rightarrow> data_source \<Rightarrow> bool \<Rightarrow> audit_event \<Rightarrow> (catalog_db \<times> 'g, catalog_error, unit) action" where
  "update_data_source_with_audit ck source replace_secret event =
     catalog_write ck
       (act_bind (write_tables (update_source_row ck source replace_secret)) (\<lambda>_.
        write_tables (insert_source_audit ck event)))"

text \<open>
  The three counts that keep a source, then the rows that go with it. A trigger refuses to delete
  rows of \<^verbatim>\<open>schema_scan_foreign_keys\<close>, so that this succeeds only where there are none.
\<close>

definition source_in_use :: "catalog_db \<Rightarrow> int \<Rightarrow> bool" where
  "source_in_use d source_id \<longleftrightarrow>
     source_id \<in> no_data_source ` set (nodes_t d)
     \<or> Some source_id \<in> er_data_source ` set (evidence_t (cat_relations d))
     \<or> source_id \<in> snd ` set (binding_members_t d)"

definition delete_source_rows :: "'g catalog_store \<Rightarrow> int \<Rightarrow> catalog_db \<Rightarrow> catalog_error + catalog_db" where
  "delete_source_rows ck source_id d =
     sbind (fail_if (source_in_use d source_id) ErrDataSourceInUse) (\<lambda>_.
     sbind (catalog_exec ck (DeleteScanRows source_id)
       (\<lambda>d. source_id \<notin> sk_data_source ` set (scan_keys_t d))
       (\<lambda>d. d\<lparr>declared_keys_t := filter (\<lambda>r. dr_data_source r \<noteq> source_id) (declared_keys_t d),
             source_scans_t := filter (\<lambda>r. sn_data_source r \<noteq> source_id) (source_scans_t d)\<rparr>) d) (\<lambda>d.
     sbind (catalog_exec ck (DeleteSource source_id) (\<lambda>_. True) (\<lambda>d. d) d) (\<lambda>d.
     sbind (fail_if (\<not> has_source d source_id) ErrDataSourceNotFound) (\<lambda>_.
     Inr (d\<lparr>sources_t := filter (\<lambda>s. ds_id s \<noteq> source_id) (sources_t d)\<rparr>)))))"

definition delete_stored_source ::
  "'g catalog_store \<Rightarrow> int \<Rightarrow> (catalog_db \<times> 'g, catalog_error, unit) action" where
  "delete_stored_source ck source_id = catalog_write ck (write_tables (delete_source_rows ck source_id))"

definition get_stored_source :: "int \<Rightarrow> catalog_db \<Rightarrow> catalog_error + data_source" where
  "get_stored_source source_id d =
     (case find (\<lambda>s. ds_id s = source_id) (sources_t d) of
        None \<Rightarrow> Inl ErrDataSourceNotFound | Some s \<Rightarrow> Inr s)"

subsection \<open>Scan runs\<close>

definition verify_data_source :: "int \<Rightarrow> catalog_db \<Rightarrow> catalog_error + unit" where
  "verify_data_source source_id d = fail_if (\<not> has_source d source_id) ErrInvalidSnapshot"

definition running_scan :: "int \<Rightarrow> int \<Rightarrow> int \<Rightarrow> scan_run" where
  "running_scan run_id source_id started_at =
     \<lparr>sn_id = run_id, sn_data_source = source_id, sn_status = ScanRunRunning, sn_nodes = 0, sn_stale = 0,
      sn_error_code = None, sn_error_message = None, sn_started_at = started_at, sn_completed_at = None\<rparr>"

definition insert_scan_run ::
  "'g catalog_store \<Rightarrow> int \<Rightarrow> int \<Rightarrow> int \<Rightarrow> catalog_db \<Rightarrow> catalog_error + catalog_db" where
  "insert_scan_run ck run_id source_id started_at =
     (let run = running_scan run_id source_id started_at in
      catalog_exec ck (InsertScanRun run)
        (\<lambda>d. run_id > 0 \<and> run_id \<notin> sn_id ` set (source_scans_t d))
        (\<lambda>d. d\<lparr>source_scans_t := source_scans_t d @ [run]\<rparr>))"

definition begin_stored_scan ::
  "'g catalog_store \<Rightarrow> schema_scan_run \<Rightarrow> (catalog_db \<times> 'g, catalog_error, unit) action" where
  "begin_stored_scan ck run =
     catalog_write ck
       (act_bind (query (verify_data_source (sx_data_source run))) (\<lambda>_.
        write_tables (insert_scan_run ck (sx_id run) (sx_data_source run) (sx_started_at run))))"

definition scan_is_running :: "int \<Rightarrow> int \<Rightarrow> scan_run \<Rightarrow> bool" where
  "scan_is_running run_id source_id r \<longleftrightarrow>
     sn_id r = run_id \<and> sn_data_source r = source_id \<and> sn_status r = ScanRunRunning"

definition fail_scan_row :: "'g catalog_store \<Rightarrow> scan_failure \<Rightarrow> catalog_db \<Rightarrow> catalog_error + catalog_db" where
  "fail_scan_row ck failure d =
     (let failed = scan_is_running (sx_id (fl_run failure)) (sx_data_source (fl_run failure)) in
      sbind (catalog_exec ck (UpdateScanRun (sx_id (fl_run failure))) (\<lambda>_. True)
        (\<lambda>d. d\<lparr>source_scans_t := map (\<lambda>r. if failed r
             then r\<lparr>sn_status := ScanRunFailed, sn_error_code := Some (fl_error_code failure),
                    sn_error_message := Some (fl_error_message failure),
                    sn_completed_at := Some (fl_completed_at failure)\<rparr> else r) (source_scans_t d)\<rparr>) d) (\<lambda>d'.
      sbind (fail_if (length (filter failed (source_scans_t d)) \<noteq> 1) ErrInvalidSnapshot) (\<lambda>_. Inr d')))"

definition fail_stored_scan ::
  "'g catalog_store \<Rightarrow> scan_failure \<Rightarrow> (catalog_db \<times> 'g, catalog_error, unit) action" where
  "fail_stored_scan ck failure = catalog_write ck (write_tables (fail_scan_row ck failure))"

definition verify_running_schema_scan :: "snapshot_publication \<Rightarrow> catalog_db \<Rightarrow> catalog_error + unit" where
  "verify_running_schema_scan p d =
     fail_if (\<not> list_ex (scan_is_running (pu_run p) (pu_data_source p)) (source_scans_t d)) ErrInvalidSnapshot"

definition complete_scan_run ::
  "'g catalog_store \<Rightarrow> snapshot_publication \<Rightarrow> int \<Rightarrow> catalog_db \<Rightarrow> catalog_error + catalog_db" where
  "complete_scan_run ck p stale =
     catalog_exec ck (UpdateScanRun (pu_run p)) (\<lambda>_. True)
       (\<lambda>d. d\<lparr>source_scans_t := map (\<lambda>r. if sn_id r = pu_run p
           then r\<lparr>sn_status := ScanRunSucceeded, sn_nodes := int (length (pu_nodes p)), sn_stale := stale,
                  sn_completed_at := Some (pu_started_at p)\<rparr> else r) (source_scans_t d)\<rparr>)"

subsection \<open>Nodes\<close>

definition insert_node :: "'g catalog_store \<Rightarrow> node_row \<Rightarrow> catalog_db \<Rightarrow> catalog_error + catalog_db" where
  "insert_node ck row =
     catalog_exec ck (InsertNode row)
       (\<lambda>d. no_id row > 0 \<and> known_kind (no_kind row) \<and> no_id row \<notin> no_id ` set (nodes_t d)
          \<and> (no_data_source row, no_key row) \<notin> (\<lambda>r. (no_data_source r, no_key r)) ` set (nodes_t d))
       (\<lambda>d. d\<lparr>nodes_t := nodes_t d @ [row]\<rparr>)"

definition insert_node_version ::
  "'g catalog_store \<Rightarrow> node_version_row \<Rightarrow> catalog_db \<Rightarrow> catalog_error + catalog_db" where
  "insert_node_version ck row =
     catalog_exec ck (InsertNodeVersion row)
       (\<lambda>d. nv_id row > 0 \<and> nv_ordinal row \<ge> 0 \<and> nv_id row \<notin> nv_id ` set (node_versions_t d))
       (\<lambda>d. d\<lparr>node_versions_t := node_versions_t d @ [row]\<rparr>)"

text \<open>The map from stable keys to ids: the rows of the source, then one entry per node that is new.\<close>

definition node_keys :: "catalog_db \<Rightarrow> int \<Rightarrow> (string \<times> int) list" where
  "node_keys d source_id =
     map (\<lambda>r. (no_key r, no_id r)) (filter (\<lambda>r. no_data_source r = source_id) (nodes_t d))"

definition resolve_node ::
  "'g catalog_store \<Rightarrow> snapshot_publication \<Rightarrow> node_input \<Rightarrow> (string \<times> int) list
    \<Rightarrow> (catalog_db \<times> 'g, catalog_error, (string \<times> int) list) action" where
  "resolve_node ck p n ids =
     (if ni_key n \<in> fst ` set ids then act_pure (Inr ids)
      else
        act_bind (catalog_id ck) (\<lambda>node_id.
        act_bind (write_tables (insert_node ck
          \<lparr>no_id = node_id, no_data_source = pu_data_source p, no_key = ni_key n, no_kind = ni_kind n,
           no_created_at = pu_started_at p\<rparr>)) (\<lambda>_.
        act_pure (Inr (ids @ [(ni_key n, node_id)])))))"

definition resolve_node_ids ::
  "'g catalog_store \<Rightarrow> snapshot_publication \<Rightarrow> (catalog_db \<times> 'g, catalog_error, (string \<times> int) list) action" where
  "resolve_node_ids ck p =
     act_bind (query (\<lambda>d. Inr (node_keys d (pu_data_source p)))) (act_fold (resolve_node ck p) (pu_nodes p))"

text \<open>A Go map gives 0 for a key it does not hold.\<close>

definition node_id_of :: "(string \<times> int) list \<Rightarrow> string \<Rightarrow> int" where
  "node_id_of ids key = (case map_of ids key of None \<Rightarrow> 0 | Some i \<Rightarrow> i)"

definition nullable_node_id :: "(string \<times> int) list \<Rightarrow> string \<Rightarrow> int option" where
  "nullable_node_id ids key = (if key = [] then None else Some (node_id_of ids key))"

text \<open>
  The first loop of \<^verbatim>\<open>publishSnapshot\<close>: a version of each node of the snapshot. \<^verbatim>\<open>versionIDs\<close> and
  \<^verbatim>\<open>searchRecords\<close> are kept as one list of new current versions, with the search record of those
  that are active.
\<close>

definition publish_node_version ::
  "'g catalog_store \<Rightarrow> snapshot_publication \<Rightarrow> (string \<times> int) list \<Rightarrow> node_input
    \<Rightarrow> (int \<times> int \<times> node_search_row option) list
    \<Rightarrow> (catalog_db \<times> 'g, catalog_error, (int \<times> int \<times> node_search_row option) list) action" where
  "publish_node_version ck p ids n versions =
     act_bind (catalog_id ck) (\<lambda>version_id.
     act_bind (act_pure (encode_node_metadata (ni_indexes n) (ni_comment n))) (\<lambda>metadata.
     let node_id = node_id_of ids (ni_key n) in
     act_bind (write_tables (insert_node_version ck
       \<lparr>nv_id = version_id, nv_node = node_id, nv_scan_run = pu_run p,
        nv_parent = nullable_node_id ids (ni_parent n), nv_status = NodeActive, nv_name = ni_name n,
        nv_qualified = ni_qualified n, nv_type = ni_type n, nv_nullable = ni_nullable n,
        nv_ordinal = ni_ordinal n, nv_metadata = metadata, nv_created_at = pu_started_at p\<rparr>)) (\<lambda>_.
     act_pure (Inr (AList.update node_id (version_id, Some
       \<lparr>ns_node = node_id, ns_name = ni_name n, ns_qualified = ni_qualified n, ns_type = ni_type n\<rparr>)
       versions)))))"

definition find_node_version :: "catalog_db \<Rightarrow> int \<Rightarrow> node_version_row option" where
  "find_node_version d version_id = find (\<lambda>v. nv_id v = version_id) (node_versions_t d)"

text \<open>The current version of a node, by the join over \<^verbatim>\<open>node_current\<close>.\<close>

definition current_version :: "catalog_db \<Rightarrow> int \<Rightarrow> node_version_row option" where
  "current_version d node_id =
     (case find (\<lambda>c. nc_node c = node_id) (node_current_t d) of
        None \<Rightarrow> None | Some c \<Rightarrow> find_node_version d (nc_version c))"

definition node_within_table_scope :: "node_kind \<Rightarrow> string \<Rightarrow> string list \<Rightarrow> bool" where
  "node_within_table_scope kind qualified scope \<longleftrightarrow>
     scope = []
     \<or> list_ex (\<lambda>table. kind = NodeTable \<and> qualified = table
          \<or> kind = NodeColumn \<and> starts_with (table @ ''.'') qualified) scope"

definition missing_node :: "catalog_db \<Rightarrow> string list \<Rightarrow> string list \<Rightarrow> node_row \<Rightarrow> node_version_row option" where
  "missing_node d present scope r =
     (case current_version d (no_id r) of
        None \<Rightarrow> None
      | Some v \<Rightarrow>
          if nv_status v = NodeActive \<and> no_key r \<notin> set present
            \<and> node_within_table_scope (no_kind r) (nv_qualified v) scope
          then Some v else None)"

definition load_missing_current_nodes ::
  "int \<Rightarrow> string list \<Rightarrow> string list \<Rightarrow> catalog_db \<Rightarrow> (int \<times> node_version_row) list" where
  "load_missing_current_nodes source_id present scope d =
     concat (map (\<lambda>r. case missing_node d present scope r of None \<Rightarrow> [] | Some v \<Rightarrow> [(no_id r, v)])
       (filter (\<lambda>r. no_data_source r = source_id) (nodes_t d)))"

definition stale_node_metadata :: "string \<Rightarrow> string" where
  "stale_node_metadata stored = (if stored = [] then ''{}'' else stored)"

definition stale_version :: "snapshot_publication \<Rightarrow> int \<Rightarrow> int \<Rightarrow> node_version_row \<Rightarrow> node_version_row" where
  "stale_version p version_id node_id v =
     v\<lparr>nv_id := version_id, nv_node := node_id, nv_scan_run := pu_run p, nv_status := NodeStale,
       nv_metadata := stale_node_metadata (nv_metadata v), nv_created_at := pu_started_at p\<rparr>"

definition publish_stale_version ::
  "'g catalog_store \<Rightarrow> snapshot_publication \<Rightarrow> int \<times> node_version_row
    \<Rightarrow> (int \<times> int \<times> node_search_row option) list
    \<Rightarrow> (catalog_db \<times> 'g, catalog_error, (int \<times> int \<times> node_search_row option) list) action" where
  "publish_stale_version ck p missing versions =
     act_bind (catalog_id ck) (\<lambda>version_id.
     act_bind (write_tables (insert_node_version ck
       (stale_version p version_id (fst missing) (snd missing)))) (\<lambda>_.
     act_pure (Inr (AList.update (fst missing) (version_id, None) versions))))"

text \<open>
  The range over \<^verbatim>\<open>versionIDs\<close> has no fixed order; here it is the order in which the versions were
  made. \<^verbatim>\<open>version_id\<close> is unique in \<^verbatim>\<open>node_current\<close>.
\<close>

definition publish_current_node ::
  "'g catalog_store \<Rightarrow> int \<Rightarrow> int \<times> int \<times> node_search_row option \<Rightarrow> catalog_db \<Rightarrow> catalog_error + catalog_db" where
  "publish_current_node ck published_at entry d =
     (case entry of (node_id, version_id, record) \<Rightarrow>
        let row = \<lparr>nc_node = node_id, nc_version = version_id, nc_published_at = published_at\<rparr> in
        sbind (catalog_exec ck (PublishNode row)
          (\<lambda>d. \<not> list_ex (\<lambda>c. nc_node c \<noteq> node_id \<and> nc_version c = version_id) (node_current_t d))
          (\<lambda>d. d\<lparr>node_current_t :=
             (if node_id \<in> nc_node ` set (node_current_t d)
              then map (\<lambda>c. if nc_node c = node_id then row else c) (node_current_t d)
              else node_current_t d @ [row])\<rparr>) d) (\<lambda>d.
        sbind (catalog_exec ck (DeleteSearch node_id) (\<lambda>_. True)
          (\<lambda>d. d\<lparr>node_search_t := filter (\<lambda>s. ns_node s \<noteq> node_id) (node_search_t d)\<rparr>) d) (\<lambda>d.
        case record of
          None \<Rightarrow> Inr d
        | Some r \<Rightarrow>
            catalog_exec ck (InsertSearch r) (\<lambda>_. True)
              (\<lambda>d. d\<lparr>node_search_t := node_search_t d @ [r]\<rparr>) d)))"

text \<open>The rows that the reads of current nodes join.\<close>

definition node_of_rows :: "node_row \<Rightarrow> node_version_row \<Rightarrow> catalog_node" where
  "node_of_rows r v =
     \<lparr>cg_id = no_id r, cg_version = nv_id v, cg_data_source = no_data_source r, cg_scan_run = nv_scan_run v,
      cg_parent = (case nv_parent v of None \<Rightarrow> 0 | Some i \<Rightarrow> i), cg_kind = no_kind r, cg_status = nv_status v,
      cg_key = no_key r, cg_name = nv_name v, cg_qualified = nv_qualified v, cg_type = nv_type v,
      cg_nullable = nv_nullable v, cg_ordinal = nv_ordinal v, cg_created_at = nv_created_at v\<rparr>"

definition current_nodes :: "catalog_db \<Rightarrow> catalog_node list" where
  "current_nodes d =
     concat (map (\<lambda>r. case current_version d (no_id r) of None \<Rightarrow> [] | Some v \<Rightarrow> [node_of_rows r v]) (nodes_t d))"

definition find_stored_node :: "int \<Rightarrow> string \<Rightarrow> catalog_db \<Rightarrow> catalog_error + catalog_node" where
  "find_stored_node source_id name d =
     (case sort_key cg_id (filter (\<lambda>n. cg_data_source n = source_id \<and> cg_qualified n = name) (current_nodes d)) of
        [] \<Rightarrow> Inl ErrNodeNotFound | n # _ \<Rightarrow> Inr n)"

definition get_stored_node :: "int \<Rightarrow> catalog_db \<Rightarrow> catalog_error + catalog_node" where
  "get_stored_node node_id d =
     (case find (\<lambda>n. cg_id n = node_id) (current_nodes d) of None \<Rightarrow> Inl ErrNodeNotFound | Some n \<Rightarrow> Inr n)"

end
