(* ===== verification/DeclaredKeys.thy ===== *)
theory DeclaredKeys
  imports CatalogRepository
begin

section \<open>Declared foreign keys\<close>

text \<open>
  \<^verbatim>\<open>internal/platform/sqlite/declared_fk_repository.go\<close>: the foreign keys of a snapshot are
  approved relations of their own type, which the publication creates, takes back and restores
  without a review, and the publication itself (\<^verbatim>\<open>publishSnapshot\<close>). The views of the relation
  tables that these operations read, the active columns and the presence of declared keys, are
  computed from the catalog's tables.
\<close>

definition declared_foreign_key_actor :: string where
  "declared_foreign_key_actor = ''dbgraph-schema-scanner''"

definition active_columns :: "catalog_db \<Rightarrow> int list" where
  "active_columns d =
     map cg_id (filter (\<lambda>n. cg_kind n = NodeColumn \<and> cg_status n = NodeActive) (current_nodes d))"

definition relation_view :: "catalog_db \<Rightarrow> db" where
  "relation_view d =
     (cat_relations d)\<lparr>declared_t := map (\<lambda>r. (dr_relation r, dr_present r)) (declared_keys_t d),
       column_nodes := active_columns d\<rparr>"

definition catalog_relations :: "(db \<Rightarrow> relation_error + db) \<Rightarrow> catalog_db \<Rightarrow> catalog_error + catalog_db" where
  "catalog_relations f d =
     (case f (relation_view d) of
        Inl e \<Rightarrow> Inl (CatalogRelationError e) | Inr rd \<Rightarrow> Inr (d\<lparr>cat_relations := rd\<rparr>))"

lemma catalog_relations_Inr [result_simps]:
  "catalog_relations f d = Inr d' \<longleftrightarrow> (\<exists>rd. f (relation_view d) = Inr rd \<and> d' = d\<lparr>cat_relations := rd\<rparr>)"
  by (auto simp: catalog_relations_def split: sum.splits)

definition relation_statements :: "'g catalog_store \<Rightarrow> engine" where
  "relation_statements ck = (\<lambda>st. ck_engine ck (CatalogRelationStatement st))"

subsection \<open>Keys\<close>

definition hash_text :: "'g catalog_store \<Rightarrow> string list \<Rightarrow> string" where
  "hash_text ck parts = ck_hash ck (concat (map (\<lambda>part. part @ [CHR 0x00]) parts))"

definition declared_foreign_key_stable_key :: "'g catalog_store \<Rightarrow> int \<Rightarrow> declared_key \<Rightarrow> string" where
  "declared_foreign_key_stable_key ck source_id k =
     hash_text ck [int_text source_id, dk_schema k, dk_name k, int_text (dk_ordinal k), dk_source k, dk_target k]"

definition declared_foreign_key_request_id :: "int \<Rightarrow> string \<Rightarrow> string \<Rightarrow> string" where
  "declared_foreign_key_request_id run_id key action =
     ''scan:'' @ int_text run_id @ '':'' @ action @ '':'' @ take 16 key"

definition kind_number :: "proposal_kind \<Rightarrow> int" where
  "kind_number k = (case k of ProposalContent \<Rightarrow> 1 | ProposalTombstone \<Rightarrow> 2 | ProposalStale \<Rightarrow> 3)"

definition declared_foreign_key_content_fingerprint :: "'g catalog_store \<Rightarrow> revision \<Rightarrow> string" where
  "declared_foreign_key_content_fingerprint ck rv =
     hash_text ck [''2'', int_text (rv_source rv), int_text (rv_target rv), int_text (kind_number (rv_kind rv))]"

definition declared_foreign_key_revision ::
  "int \<Rightarrow> int \<Rightarrow> int \<Rightarrow> snapshot_publication \<Rightarrow> string \<Rightarrow> int \<Rightarrow> int \<Rightarrow> declared_key \<Rightarrow> revision" where
  "declared_foreign_key_revision version_id relation_id revision_no p key source target k =
     \<lparr>rv_id = version_id, rv_relation_id = relation_id, rv_revision_no = revision_no,
      rv_kind = ProposalContent, rv_source = source, rv_target = target, rv_guard = None,
      rv_selector = None, rv_transform = Value ValueColumnCopy source [] None [] None,
      rv_confidence = Finite 1,
      rv_evidence = [\<lparr>ev_kind = EvidenceDatabaseConstraint, ev_repository = [], ev_commit = [],
        ev_file = [], ev_symbol = [], ev_start_line = 0, ev_end_line = 0,
        ev_data_source_id = pu_data_source p, ev_constraint_schema = dk_schema k,
        ev_constraint_name = dk_name k, ev_scan_run_id = pu_run p\<rparr>],
      rv_actor = declared_foreign_key_actor, rv_origin = OriginSystem,
      rv_reason = ''Declared foreign key observed in schema snapshot.'',
      rv_request_id = declared_foreign_key_request_id (pu_run p) key ''content'',
      rv_expected = None, rv_created_at = pu_started_at p\<rparr>"

text \<open>The record has no ids for an event and an audit record of its own.\<close>

definition declared_foreign_key_record ::
  "'g catalog_store \<Rightarrow> int \<Rightarrow> int \<Rightarrow> revision \<Rightarrow> proposal_record" where
  "declared_foreign_key_record ck relation_id version_id rv =
     \<lparr>p_relation_id = relation_id, p_version_id = version_id, p_event_id = 0, p_audit_id = 0,
      p_type = TypeDeclaredForeignKey, p_fingerprint = declared_foreign_key_content_fingerprint ck rv,
      p_revision = rv, p_references = [Reference (rv_source rv) ReferenceTransform]\<rparr>"

definition next_four_ids :: "'g catalog_store \<Rightarrow> (catalog_db \<times> 'g, catalog_error, int \<times> int \<times> int \<times> int) action" where
  "next_four_ids ck =
     act_bind (catalog_id ck) (\<lambda>a. act_bind (catalog_id ck) (\<lambda>b. act_bind (catalog_id ck) (\<lambda>c.
     act_bind (catalog_id ck) (\<lambda>e. act_pure (Inr (a, b, c, e))))))"

subsection \<open>Creating, restoring and removing\<close>

definition declared_event ::
  "engine \<Rightarrow> int \<Rightarrow> int \<Rightarrow> int \<Rightarrow> event_type \<Rightarrow> string \<Rightarrow> string \<Rightarrow> int option \<Rightarrow> int \<Rightarrow> db \<Rightarrow> relation_error + db" where
  "declared_event eng event_id relation_id version_id t reason request_id expected published_at =
     insert_relation_event eng event_id relation_id version_id t declared_foreign_key_actor OriginSystem
       reason request_id expected published_at"

definition declared_audit ::
  "engine \<Rightarrow> int \<Rightarrow> int \<Rightarrow> string \<Rightarrow> string \<Rightarrow> string \<Rightarrow> int option \<Rightarrow> int \<Rightarrow> int \<Rightarrow> db \<Rightarrow> relation_error + db" where
  "declared_audit eng audit_id relation_id action reason request_id expected revision_no published_at =
     insert_relation_audit eng audit_id relation_id action declared_foreign_key_actor OriginSystem
       reason request_id expected revision_no published_at"

text \<open>The statements of \<^verbatim>\<open>insertDeclaredForeignKey\<close>, with the ids it drew.\<close>

definition insert_declared_statements ::
  "codec \<Rightarrow> engine \<Rightarrow> proposal_record \<Rightarrow> string \<Rightarrow> string \<Rightarrow> int \<Rightarrow> int \<Rightarrow> db \<Rightarrow> relation_error + db" where
  "insert_declared_statements cd eng pr key request_id event_id audit_id d =
     (let rv = p_revision pr; published_at = rv_created_at rv; relation_id = p_relation_id pr;
          reason = ''Declared foreign key observed in schema snapshot.'' in
      sbind (verify_relation_nodes d rv (p_references pr)) (\<lambda>_.
      sbind (insert_relation_row eng
        \<lparr>rr_id = relation_id, rr_type = TypeDeclaredForeignKey, rr_fingerprint = key,
         rr_created_at = published_at\<rparr> d) (\<lambda>d.
      sbind (insert_relation_version cd eng pr d) (\<lambda>d.
      sbind (declared_event eng event_id relation_id (p_version_id pr) EventApproved reason request_id None
        published_at d) (\<lambda>d.
      sbind (insert_current_row eng
        \<lparr>cr_relation = relation_id, cr_latest = 1, cr_active = Some (p_version_id pr), cr_proposed = None,
         cr_status = StatusApproved, cr_updated_at = published_at\<rparr> d) (\<lambda>d.
      sbind (insert_effective_edge cd eng relation_id TypeDeclaredForeignKey rv published_at d) (\<lambda>d.
      declared_audit eng audit_id relation_id ''DECLARED_FOREIGN_KEY_PUBLISHED'' reason request_id None 1
        published_at d)))))))"

definition insert_declared_foreign_key ::
  "'g catalog_store \<Rightarrow> snapshot_publication \<Rightarrow> string \<Rightarrow> int \<Rightarrow> int \<Rightarrow> declared_key
    \<Rightarrow> (catalog_db \<times> 'g, catalog_error, int) action" where
  "insert_declared_foreign_key ck p key source target k =
     act_bind (next_four_ids ck) (\<lambda>(relation_id, version_id, event_id, audit_id).
     let rv = declared_foreign_key_revision version_id relation_id 1 p key source target k in
     act_bind (write_tables (catalog_relations (insert_declared_statements (ck_codec ck)
       (relation_statements ck) (declared_foreign_key_record ck relation_id version_id rv) key
       (declared_foreign_key_request_id (pu_run p) key ''create'') event_id audit_id))) (\<lambda>_.
     act_pure (Inr relation_id)))"

definition read_declared :: "'g catalog_store \<Rightarrow> int \<Rightarrow> catalog_db \<Rightarrow> catalog_error + relation" where
  "read_declared ck relation_id d =
     (case load_relation (ck_codec ck) (cat_relations d) relation_id of
        Inl e \<Rightarrow> Inl (CatalogRelationError e) | Inr r \<Rightarrow> Inr r)"

text \<open>The two events of a revision that replaces the active one, and the new current row.\<close>

definition supersede_declared ::
  "engine \<Rightarrow> relation \<Rightarrow> int \<Rightarrow> int \<Rightarrow> revision \<Rightarrow> event_type \<Rightarrow> relation_status \<Rightarrow> string \<Rightarrow> string \<Rightarrow> int \<Rightarrow> db
    \<Rightarrow> relation_error + db" where
  "supersede_declared eng current first_event second_event rv t status reason request_id published_at d =
     (let active = (case r_active current of None \<Rightarrow> 0 | Some a \<Rightarrow> rv_id a); expected = Some (r_latest current) in
      sbind (declared_event eng first_event (r_id current) (rv_id rv) t reason request_id expected published_at d) (\<lambda>d.
      sbind (declared_event eng second_event (r_id current) active EventSuperseded reason request_id expected
        published_at d) (\<lambda>d.
      update_current eng (r_id current)
        (\<lambda>c. c\<lparr>cr_latest := rv_revision_no rv, cr_active := Some (rv_id rv), cr_proposed := None,
              cr_status := status, cr_updated_at := published_at\<rparr>) d)))"

definition reactivate_statements ::
  "codec \<Rightarrow> engine \<Rightarrow> relation \<Rightarrow> proposal_record \<Rightarrow> string \<Rightarrow> int \<Rightarrow> int \<Rightarrow> int \<Rightarrow> db \<Rightarrow> relation_error + db" where
  "reactivate_statements cd eng current pr request_id approved_event superseded_event audit_id d =
     (let rv = p_revision pr; published_at = rv_created_at rv;
          reason = ''Declared foreign key reappeared in schema snapshot.'' in
      sbind (insert_relation_version cd eng pr d) (\<lambda>d.
      sbind (supersede_declared eng current approved_event superseded_event rv EventApproved StatusApproved
        reason request_id published_at d) (\<lambda>d.
      sbind (insert_effective_edge cd eng (r_id current) TypeDeclaredForeignKey rv published_at d) (\<lambda>d.
      declared_audit eng audit_id (r_id current) ''DECLARED_FOREIGN_KEY_RESTORED'' reason request_id
        (Some (r_latest current)) (rv_revision_no rv) published_at d))))"

definition reactivate_declared_foreign_key ::
  "'g catalog_store \<Rightarrow> snapshot_publication \<Rightarrow> int \<Rightarrow> string \<Rightarrow> int \<Rightarrow> int \<Rightarrow> declared_key
    \<Rightarrow> (catalog_db \<times> 'g, catalog_error, unit) action" where
  "reactivate_declared_foreign_key ck p relation_id key source target k =
     act_bind (query (read_declared ck relation_id)) (\<lambda>current.
     if r_status current = StatusSuppressed then act_pure (Inr ())
     else if r_status current \<noteq> StatusTombstoned \<or> r_active current = None \<or> r_proposed current \<noteq> None
     then act_pure (Inl (CatalogRelationError ErrInvalidTransition))
     else
       act_bind (next_four_ids ck) (\<lambda>(version_id, approved_event, superseded_event, audit_id).
       let rv = (declared_foreign_key_revision version_id relation_id (r_latest current + 1) p key source target k)
             \<lparr>rv_expected := Some (r_latest current)\<rparr> in
       write_tables (catalog_relations (reactivate_statements (ck_codec ck) (relation_statements ck) current
         (declared_foreign_key_record ck relation_id version_id rv)
         (declared_foreign_key_request_id (pu_run p) key ''restore'')
         approved_event superseded_event audit_id))))"

definition removed_revision :: "revision \<Rightarrow> int \<Rightarrow> int \<Rightarrow> snapshot_publication \<Rightarrow> string \<Rightarrow> revision" where
  "removed_revision active version_id expected p key =
     active\<lparr>rv_id := version_id, rv_revision_no := rv_revision_no active + 1, rv_kind := ProposalTombstone,
       rv_actor := declared_foreign_key_actor, rv_origin := OriginSystem,
       rv_reason := ''Declared foreign key was absent from the latest schema snapshot.'',
       rv_request_id := declared_foreign_key_request_id (pu_run p) key ''remove'',
       rv_expected := Some expected, rv_created_at := pu_started_at p\<rparr>"

definition remove_statements ::
  "codec \<Rightarrow> engine \<Rightarrow> relation \<Rightarrow> proposal_record \<Rightarrow> int \<Rightarrow> int \<Rightarrow> int \<Rightarrow> db \<Rightarrow> relation_error + db" where
  "remove_statements cd eng current pr tombstone_event superseded_event audit_id d =
     (let rv = p_revision pr; published_at = rv_created_at rv in
      sbind (insert_relation_version cd eng pr d) (\<lambda>d.
      sbind (supersede_declared eng current tombstone_event superseded_event rv EventTombstoned StatusTombstoned
        (rv_reason rv) (rv_request_id rv) published_at d) (\<lambda>d.
      sbind (delete_effective eng (r_id current) d) (\<lambda>d.
      declared_audit eng audit_id (r_id current) ''DECLARED_FOREIGN_KEY_TOMBSTONED'' (rv_reason rv)
        (rv_request_id rv) (Some (r_latest current)) (rv_revision_no rv) published_at d))))"

definition remove_declared_foreign_key ::
  "'g catalog_store \<Rightarrow> snapshot_publication \<Rightarrow> int \<Rightarrow> string \<Rightarrow> (catalog_db \<times> 'g, catalog_error, unit) action" where
  "remove_declared_foreign_key ck p relation_id key =
     act_bind (query (read_declared ck relation_id)) (\<lambda>current.
     if r_status current = StatusSuppressed \<or> r_status current = StatusTombstoned then act_pure (Inr ())
     else
       case r_active current of
         None \<Rightarrow> act_pure (Inl (CatalogRelationError ErrInvalidTransition))
       | Some active \<Rightarrow>
           if r_status current \<noteq> StatusApproved \<or> r_proposed current \<noteq> None
           then act_pure (Inl (CatalogRelationError ErrInvalidTransition))
           else
             act_bind (next_four_ids ck) (\<lambda>(version_id, tombstone_event, superseded_event, audit_id).
             write_tables (catalog_relations (remove_statements (ck_codec ck) (relation_statements ck) current
               (declared_foreign_key_record ck relation_id version_id
                 (removed_revision active version_id (r_latest current) p key))
               tombstone_event superseded_event audit_id))))"

subsection \<open>The keys of a snapshot\<close>

record declared_mapping =
  dm_key :: string
  dm_relation :: int
  dm_source_name :: string
  dm_present :: bool

text \<open>The join over the current version of the source column; the rows have distinct keys.\<close>

definition declared_mapping_of :: "catalog_db \<Rightarrow> declared_row \<Rightarrow> declared_mapping list" where
  "declared_mapping_of d r =
     (case current_version d (dr_source r) of
        None \<Rightarrow> []
      | Some v \<Rightarrow> [\<lparr>dm_key = dr_key r, dm_relation = dr_relation r, dm_source_name = nv_qualified v,
          dm_present = dr_present r\<rparr>])"

definition load_declared_foreign_key_mappings :: "int \<Rightarrow> catalog_db \<Rightarrow> declared_mapping list" where
  "load_declared_foreign_key_mappings source_id d =
     concat (map (declared_mapping_of d) (filter (\<lambda>r. dr_data_source r = source_id) (declared_keys_t d)))"

definition insert_declared_row :: "'g catalog_store \<Rightarrow> declared_row \<Rightarrow> catalog_db \<Rightarrow> catalog_error + catalog_db" where
  "insert_declared_row ck row =
     catalog_exec ck (InsertDeclared row)
       (\<lambda>d. dr_ordinal row > 0 \<and> dr_relation row \<notin> dr_relation ` set (declared_keys_t d)
          \<and> (dr_data_source row, dr_key row) \<notin> (\<lambda>r. (dr_data_source r, dr_key r)) ` set (declared_keys_t d))
       (\<lambda>d. d\<lparr>declared_keys_t := declared_keys_t d @ [row]\<rparr>)"

definition update_declared_row ::
  "'g catalog_store \<Rightarrow> int \<Rightarrow> string \<Rightarrow> (declared_row \<Rightarrow> declared_row) \<Rightarrow> catalog_db \<Rightarrow> catalog_error + catalog_db" where
  "update_declared_row ck source_id key change =
     catalog_exec ck (UpdateDeclared source_id key) (\<lambda>_. True)
       (\<lambda>d. d\<lparr>declared_keys_t := map (\<lambda>r. if dr_data_source r = source_id \<and> dr_key r = key then change r else r)
          (declared_keys_t d)\<rparr>)"

definition insert_scan_key :: "'g catalog_store \<Rightarrow> scan_key_row \<Rightarrow> catalog_db \<Rightarrow> catalog_error + catalog_db" where
  "insert_scan_key ck row =
     catalog_exec ck (InsertScanKey row)
       (\<lambda>d. sk_ordinal row > 0
          \<and> (sk_scan_run row, sk_key row) \<notin> (\<lambda>r. (sk_scan_run r, sk_key r)) ` set (scan_keys_t d))
       (\<lambda>d. d\<lparr>scan_keys_t := scan_keys_t d @ [row]\<rparr>)"

text \<open>\<^verbatim>\<open>qualifiedNodeIDs\<close>: a later node of the same name would replace an earlier one.\<close>

definition qualified_node_ids :: "snapshot_publication \<Rightarrow> (string \<times> int) list \<Rightarrow> (string \<times> int) list" where
  "qualified_node_ids p ids = rev (map (\<lambda>n. (ni_qualified n, node_id_of ids (ni_key n))) (pu_nodes p))"

text \<open>One turn of the loop over the keys of the snapshot; it yields the relation of the key.\<close>

definition ensure_declared_key ::
  "'g catalog_store \<Rightarrow> snapshot_publication \<Rightarrow> declared_mapping list \<Rightarrow> string \<Rightarrow> int \<Rightarrow> int \<Rightarrow> declared_key
    \<Rightarrow> (catalog_db \<times> 'g, catalog_error, int) action" where
  "ensure_declared_key ck p mappings key source target k =
     (case find (\<lambda>m. dm_key m = key) mappings of
        None \<Rightarrow>
          act_bind (insert_declared_foreign_key ck p key source target k) (\<lambda>relation_id.
          act_bind (write_tables (insert_declared_row ck
            \<lparr>dr_data_source = pu_data_source p, dr_key = key, dr_relation = relation_id, dr_source = source,
             dr_target = target, dr_schema = dk_schema k, dr_name = dk_name k, dr_ordinal = dk_ordinal k,
             dr_last_seen = pu_run p, dr_present = True, dr_created_at = pu_started_at p,
             dr_updated_at = pu_started_at p\<rparr>)) (\<lambda>_. act_pure (Inr relation_id)))
      | Some m \<Rightarrow>
          act_bind (if dm_present m then act_pure (Inr ())
                    else reactivate_declared_foreign_key ck p (dm_relation m) key source target k) (\<lambda>_.
          act_bind (write_tables (update_declared_row ck (pu_data_source p) key
            (\<lambda>r. r\<lparr>dr_last_seen := pu_run p, dr_present := True, dr_updated_at := pu_started_at p\<rparr>))) (\<lambda>_.
          act_pure (Inr (dm_relation m)))))"

definition reconcile_declared_key ::
  "'g catalog_store \<Rightarrow> snapshot_publication \<Rightarrow> (string \<times> int) list \<Rightarrow> declared_mapping list \<Rightarrow> declared_key
    \<Rightarrow> unit \<Rightarrow> (catalog_db \<times> 'g, catalog_error, unit) action" where
  "reconcile_declared_key ck p names mappings k u =
     (let key = declared_foreign_key_stable_key ck (pu_data_source p) k;
          source = node_id_of names (dk_source k); target = node_id_of names (dk_target k) in
      act_bind (ensure_declared_key ck p mappings key source target k) (\<lambda>relation_id.
      write_tables (insert_scan_key ck
        \<lparr>sk_scan_run = pu_run p, sk_data_source = pu_data_source p, sk_key = key, sk_relation = relation_id,
         sk_source = source, sk_target = target, sk_schema = dk_schema k, sk_name = dk_name k,
         sk_ordinal = dk_ordinal k, sk_recorded_at = pu_started_at p\<rparr>)))"

text \<open>The range over the mappings has no fixed order.\<close>

definition absent_key :: "snapshot_publication \<Rightarrow> string list \<Rightarrow> declared_mapping \<Rightarrow> bool" where
  "absent_key p seen m \<longleftrightarrow>
     dm_present m \<and> dm_key m \<notin> set seen \<and> node_within_table_scope NodeColumn (dm_source_name m) (pu_scope p)"

definition mark_absent_key ::
  "'g catalog_store \<Rightarrow> snapshot_publication \<Rightarrow> declared_mapping \<Rightarrow> unit
    \<Rightarrow> (catalog_db \<times> 'g, catalog_error, unit) action" where
  "mark_absent_key ck p m u =
     act_bind (remove_declared_foreign_key ck p (dm_relation m) (dm_key m)) (\<lambda>_.
     write_tables (update_declared_row ck (pu_data_source p) (dm_key m)
       (\<lambda>r. r\<lparr>dr_present := False, dr_updated_at := pu_started_at p\<rparr>)))"

definition reconcile_declared_foreign_keys ::
  "'g catalog_store \<Rightarrow> snapshot_publication \<Rightarrow> (string \<times> int) list \<Rightarrow> (catalog_db \<times> 'g, catalog_error, unit) action" where
  "reconcile_declared_foreign_keys ck p ids =
     act_bind (query (\<lambda>d. Inr (load_declared_foreign_key_mappings (pu_data_source p) d))) (\<lambda>mappings.
     let names = qualified_node_ids p ids;
         seen = map (declared_foreign_key_stable_key ck (pu_data_source p)) (pu_keys p) in
     act_bind (act_fold (reconcile_declared_key ck p names mappings) (pu_keys p) ()) (\<lambda>_.
     act_fold (mark_absent_key ck p) (filter (absent_key p seen) mappings) ()))"

subsection \<open>Publication\<close>

definition start_publication ::
  "'g catalog_store \<Rightarrow> snapshot_publication \<Rightarrow> (catalog_db \<times> 'g, catalog_error, unit) action" where
  "start_publication ck p =
     (if pu_prestarted p then query (verify_running_schema_scan p)
      else write_tables (insert_scan_run ck (pu_run p) (pu_data_source p) (pu_started_at p)))"

definition publish_nodes ::
  "'g catalog_store \<Rightarrow> snapshot_publication
    \<Rightarrow> (catalog_db \<times> 'g, catalog_error, (string \<times> int) list \<times> int) action" where
  "publish_nodes ck p =
     act_bind (resolve_node_ids ck p) (\<lambda>ids.
     act_bind (act_fold (publish_node_version ck p ids) (pu_nodes p) []) (\<lambda>versions.
     act_bind (query (\<lambda>d. Inr (load_missing_current_nodes (pu_data_source p) (map ni_key (pu_nodes p))
       (pu_scope p) d))) (\<lambda>missing.
     act_bind (act_fold (publish_stale_version ck p) missing versions) (\<lambda>versions.
     act_bind (write_tables (fold_result (publish_current_node ck (pu_started_at p)) versions)) (\<lambda>_.
     act_pure (Inr (ids, int (length missing))))))))"

definition publish_stored_operation ::
  "'g catalog_store \<Rightarrow> snapshot_publication \<Rightarrow> (catalog_db \<times> 'g, catalog_error, published_snapshot) action" where
  "publish_stored_operation ck p =
     act_bind (query (verify_data_source (pu_data_source p))) (\<lambda>_.
     act_bind (start_publication ck p) (\<lambda>_.
     act_bind (publish_nodes ck p) (\<lambda>(ids, stale).
     act_bind (reconcile_declared_foreign_keys ck p ids) (\<lambda>_.
     act_bind (write_tables (complete_scan_run ck p stale)) (\<lambda>_.
     act_pure (Inr \<lparr>ps_scan_run = pu_run p, ps_nodes = int (length (pu_nodes p)), ps_stale = stale,
       ps_published_at = pu_started_at p\<rparr>))))))"

definition publish_stored_snapshot ::
  "'g catalog_store \<Rightarrow> snapshot_publication \<Rightarrow> (catalog_db \<times> 'g, catalog_error, published_snapshot) action" where
  "publish_stored_snapshot ck p =
     act_bind (case ck_ensure ck of
         None \<Rightarrow> act_pure (Inr ())
       | Some ensure \<Rightarrow> on_ids (ensure (2 * int (length (pu_nodes p)) + maximum_snapshot_nodes
           + 4 * int (length (pu_keys p)) + 4 * maximum_snapshot_foreign_keys))) (\<lambda>_.
     catalog_write ck (publish_stored_operation ck p))"

end
