(* ===== verification/CatalogEffects.thy ===== *)
theory CatalogEffects
  imports DeclaredKeys RelationInvariant
begin

section \<open>What a publication writes to the nodes\<close>

text \<open>
  The effects of the loops of \<^verbatim>\<open>publishSnapshot\<close> on the tables of nodes, each as one update: the
  rows that are added to \<^verbatim>\<open>nodes\<close> and \<^verbatim>\<open>node_versions\<close>, and what \<^verbatim>\<open>node_current\<close> and
  \<^verbatim>\<open>node_search\<close> hold of each node afterwards.
\<close>

subsection \<open>Actions\<close>

lemma write_tables_Inr [result_simps]:
  "write_tables f w = (Inr u, w') \<longleftrightarrow> (\<exists>d. f (fst w) = Inr d \<and> w' = (d, snd w))"
  by (auto simp: write_tables_def split: sum.splits)

lemma query_Inr [result_simps]: "query f w = (Inr x, w') \<longleftrightarrow> f (fst w) = Inr x \<and> w' = w"
  by (auto simp: query_def)

lemma on_ids_tables: "on_ids m w = (r, w') \<Longrightarrow> fst w' = fst w"
  by (auto simp: on_ids_def split: prod.splits)

lemma catalog_id_tables: "catalog_id ck w = (r, w') \<Longrightarrow> fst w' = fst w"
  by (simp add: catalog_id_def on_ids_tables)

lemma act_fold_invariant:
  assumes "act_fold f xs s w = (Inr t, w')" "P (fst w)"
    and "\<And>x s w t w'. x \<in> set xs \<Longrightarrow> f x s w = (Inr t, w') \<Longrightarrow> P (fst w) \<Longrightarrow> P (fst w')"
  shows "P (fst w')"
  using assms
proof (induction xs arbitrary: s w)
  case (Cons x xs)
  then obtain u v where "f x s w = (Inr u, v)" "act_fold f xs u v = (Inr t, w')"
    by (auto simp: act_bind_Inr)
  then have "P (fst v)"
    by (intro Cons.prems(3) [of x s w u v] Cons.prems(2)) simp_all
  then show ?case
    by (rule Cons.IH [OF \<open>act_fold f xs u v = (Inr t, w')\<close>]) (rule Cons.prems(3), simp_all)
qed (simp add: act_pure_Inr)

lemma catalog_write_Inr [result_simps]:
  "catalog_write ck operation w = (Inr x, w') \<longleftrightarrow>
     operation w = (Inr x, w') \<and> ck_engine ck QueueCatalog \<and> ck_engine ck StartCatalog
     \<and> ck_engine ck CommitCatalog \<and> ck_engine ck AnswerCatalog"
  by (auto simp: catalog_write_def execute_catalog_def split: prod.splits sum.splits if_splits)

text \<open>A write that did not succeed left the tables, unless its caller left.\<close>

lemma catalog_write_outcome:
  assumes "catalog_write ck operation w = (r, w')"
  obtains (unchanged) e where "fst w' = fst w" "r = Inl e"
  | (written) x where "operation w = (Inr x, w')" "r = Inr x \<or> r = Inl CatalogContextEnded"
  using assms by (auto simp: catalog_write_def execute_catalog_def split: prod.splits sum.splits if_splits)

lemma fst_set_update: "fst ` set (AList.update k v xs) = insert k (fst ` set xs)"
  by (induction xs) auto

lemma update_fresh: "k \<notin> fst ` set xs \<Longrightarrow> AList.update k v xs = xs @ [(k, v)]"
  by (induction xs) auto

subsection \<open>Nodes\<close>

definition nodes_ok :: "catalog_db \<Rightarrow> bool" where
  "nodes_ok d \<longleftrightarrow>
     distinct (map no_id (nodes_t d)) \<and> distinct (map (\<lambda>r. (no_data_source r, no_key r)) (nodes_t d))"

text \<open>What \<open>resolve_node_ids\<close> leaves: the rows that are new, and the ids of all keys.\<close>

definition resolves :: "snapshot_publication \<Rightarrow> node_input list \<Rightarrow> catalog_db \<Rightarrow> node_row list \<Rightarrow> bool" where
  "resolves p ns d new \<longleftrightarrow>
     (\<forall>r\<in>set new. no_data_source r = pu_data_source p \<and> no_created_at r = pu_started_at p
        \<and> no_key r \<notin> fst ` set (node_keys d (pu_data_source p))
        \<and> (\<exists>n\<in>set ns. ni_key n = no_key r \<and> ni_kind n = no_kind r))"

lemma node_keys_append:
  "node_keys (d\<lparr>nodes_t := nodes_t d @ new\<rparr>) i
     = node_keys d i @ map (\<lambda>r. (no_key r, no_id r)) (filter (\<lambda>r. no_data_source r = i) new)"
  by (simp add: node_keys_def)

lemma insert_node_Inr:
  assumes "insert_node ck row d = Inr d'" "nodes_ok d"
  shows "d' = d\<lparr>nodes_t := nodes_t d @ [row]\<rparr> \<and> nodes_ok d'"
  using assms by (auto simp: insert_node_def result_simps nodes_ok_def image_iff)

lemma resolve_nodes_effect:
  assumes "act_fold (resolve_node ck p) ns ids w = (Inr ids', w')" "nodes_ok (fst w)"
    and "ids = node_keys (fst w) (pu_data_source p)"
  shows "\<exists>new. fst w' = (fst w)\<lparr>nodes_t := nodes_t (fst w) @ new\<rparr> \<and> nodes_ok (fst w')
    \<and> ids' = node_keys (fst w') (pu_data_source p) \<and> resolves p ns (fst w) new
    \<and> ni_key ` set ns \<subseteq> fst ` set ids'"
  using assms
proof (induction ns arbitrary: ids w)
  case Nil
  then show ?case by (intro exI [of _ "[]"]) (simp add: act_pure_Inr resolves_def)
next
  case (Cons n ns)
  then obtain u v where step: "resolve_node ck p n ids w = (Inr u, v)"
      "act_fold (resolve_node ck p) ns u v = (Inr ids', w')"
    by (auto simp: act_bind_Inr)
  have 1: "\<exists>new. fst v = (fst w)\<lparr>nodes_t := nodes_t (fst w) @ new\<rparr> \<and> nodes_ok (fst v)
    \<and> u = node_keys (fst v) (pu_data_source p) \<and> resolves p [n] (fst w) new \<and> ni_key n \<in> fst ` set u"
  proof (cases "ni_key n \<in> fst ` set ids")
    case True
    with step(1) Cons.prems show ?thesis
      by (intro exI [of _ "[]"]) (simp add: resolve_node_def act_pure_Inr resolves_def)
  next
    case False
    then obtain i x y where i: "catalog_id ck w = (Inr i, x)"
      "insert_node ck \<lparr>no_id = i, no_data_source = pu_data_source p, no_key = ni_key n,
         no_kind = ni_kind n, no_created_at = pu_started_at p\<rparr> (fst x) = Inr y"
      "u = ids @ [(ni_key n, i)]" "v = (y, snd x)"
      using step(1) by (auto simp: resolve_node_def result_simps)
    let ?row = "\<lparr>no_id = i, no_data_source = pu_data_source p, no_key = ni_key n,
         no_kind = ni_kind n, no_created_at = pu_started_at p\<rparr>"
    have x: "fst x = fst w" by (rule catalog_id_tables [OF i(1)])
    have y: "y = (fst w)\<lparr>nodes_t := nodes_t (fst w) @ [?row]\<rparr>" "nodes_ok y"
      using insert_node_Inr [OF i(2)] Cons.prems(2) unfolding x by blast+
    have "ids @ [(ni_key n, i)]
        = node_keys ((fst w)\<lparr>nodes_t := nodes_t (fst w) @ [?row]\<rparr>) (pu_data_source p)"
      by (simp add: Cons.prems(3) node_keys_append)
    moreover have "resolves p [n] (fst w) [?row]"
      using False Cons.prems(3) by (simp add: resolves_def)
    ultimately show ?thesis
      using i(3,4) y by (intro exI [of _ "[?row]"]) (simp add: node_keys_append)
  qed
  then obtain new where new: "fst v = (fst w)\<lparr>nodes_t := nodes_t (fst w) @ new\<rparr>" "nodes_ok (fst v)"
    "u = node_keys (fst v) (pu_data_source p)" "resolves p [n] (fst w) new" "ni_key n \<in> fst ` set u"
    by blast
  obtain more where more: "fst w' = (fst v)\<lparr>nodes_t := nodes_t (fst v) @ more\<rparr>" "nodes_ok (fst w')"
    "ids' = node_keys (fst w') (pu_data_source p)" "resolves p ns (fst v) more"
    "ni_key ` set ns \<subseteq> fst ` set ids'"
    using Cons.IH [OF step(2) new(2,3)] by blast
  have grow: "set (node_keys (fst w) i) \<subseteq> set (node_keys (fst v) i)"
    "set (node_keys (fst v) i) \<subseteq> set (node_keys (fst w') i)" for i
    by (simp_all add: new(1) more(1) node_keys_def) blast+
  have "resolves p (n # ns) (fst w) (new @ more)"
    using new(4) more(4) grow(1) [of "pu_data_source p"] by (fastforce simp: resolves_def)
  moreover have "ni_key n \<in> fst ` set ids'"
    using new(3,5) more(3) grow(2) [of "pu_data_source p"] by blast
  ultimately show ?case
    using new(1) more by (intro exI [of _ "new @ more"]) simp
qed

subsection \<open>Versions\<close>

text \<open>What a new version leaves for the current tables.\<close>

definition search_of :: "node_version_row \<Rightarrow> node_search_row" where
  "search_of v = \<lparr>ns_node = nv_node v, ns_name = nv_name v, ns_qualified = nv_qualified v, ns_type = nv_type v\<rparr>"

definition entry_of :: "node_version_row \<Rightarrow> int \<times> int \<times> node_search_row option" where
  "entry_of v = (nv_node v, nv_id v, if nv_status v = NodeActive then Some (search_of v) else None)"

definition snapshot_version ::
  "snapshot_publication \<Rightarrow> (string \<times> int) list \<Rightarrow> node_input \<Rightarrow> int \<Rightarrow> string \<Rightarrow> node_version_row" where
  "snapshot_version p ids n version_id metadata =
     \<lparr>nv_id = version_id, nv_node = node_id_of ids (ni_key n), nv_scan_run = pu_run p,
      nv_parent = nullable_node_id ids (ni_parent n), nv_status = NodeActive, nv_name = ni_name n,
      nv_qualified = ni_qualified n, nv_type = ni_type n, nv_nullable = ni_nullable n,
      nv_ordinal = ni_ordinal n, nv_metadata = metadata, nv_created_at = pu_started_at p\<rparr>"

definition active_version ::
  "snapshot_publication \<Rightarrow> (string \<times> int) list \<Rightarrow> node_input \<Rightarrow> node_version_row \<Rightarrow> bool" where
  "active_version p ids n v \<longleftrightarrow>
     v = snapshot_version p ids n (nv_id v) (nv_metadata v)
     \<and> encode_node_metadata (ni_indexes n) (ni_comment n) = Inr (nv_metadata v)"

lemma insert_node_version_Inr:
  "insert_node_version ck row d = Inr d' \<longleftrightarrow>
     ck_engine ck (InsertNodeVersion row) \<and> nv_id row > 0 \<and> nv_ordinal row \<ge> 0
     \<and> nv_id row \<notin> nv_id ` set (node_versions_t d)
     \<and> d' = d\<lparr>node_versions_t := node_versions_t d @ [row]\<rparr>"
  by (auto simp: insert_node_version_def result_simps)

text \<open>Both loops over versions add rows and list their entries; one rule serves them.\<close>

lemma version_loop:
  assumes "act_fold f xs es w = (Inr es', w')"
    and "\<And>x es w es' w'. x \<in> set xs \<Longrightarrow> f x es w = (Inr es', w') \<Longrightarrow>
      \<exists>v. R x v \<and> nv_id v \<notin> nv_id ` set (node_versions_t (fst w))
        \<and> fst w' = (fst w)\<lparr>node_versions_t := node_versions_t (fst w) @ [v]\<rparr>
        \<and> nv_node v = key x \<and> es' = AList.update (key x) (snd (entry_of v)) es"
    and "distinct (map fst es @ map key xs)" "distinct (map nv_id (node_versions_t (fst w)))"
  shows "\<exists>vs. list_all2 R xs vs \<and> map nv_node vs = map key xs \<and> es' = es @ map entry_of vs
    \<and> fst w' = (fst w)\<lparr>node_versions_t := node_versions_t (fst w) @ vs\<rparr>
    \<and> distinct (map nv_id (node_versions_t (fst w')))"
  using assms
proof (induction xs arbitrary: es w)
  case Nil
  then show ?case by (auto simp: act_pure_Inr)
next
  case (Cons x xs)
  then obtain u y where step: "f x es w = (Inr u, y)" "act_fold f xs u y = (Inr es', w')"
    by (auto simp: act_bind_Inr)
  obtain v where v: "R x v" "nv_id v \<notin> nv_id ` set (node_versions_t (fst w))"
      "fst y = (fst w)\<lparr>node_versions_t := node_versions_t (fst w) @ [v]\<rparr>" "nv_node v = key x"
      "u = AList.update (key x) (snd (entry_of v)) es"
    using Cons.prems(2) [OF list.set_intros(1) step(1)] by blast
  have "key x \<notin> fst ` set es" using Cons.prems(3) by auto
  then have u: "u = es @ [entry_of v]"
    using v(4,5) by (simp add: update_fresh entry_of_def)
  have "distinct (map fst u @ map key xs)" "distinct (map nv_id (node_versions_t (fst y)))"
    using Cons.prems(3,4) u v by (auto simp: entry_of_def)
  then obtain vs where vs: "list_all2 R xs vs" "map nv_node vs = map key xs" "es' = u @ map entry_of vs"
      "fst w' = (fst y)\<lparr>node_versions_t := node_versions_t (fst y) @ vs\<rparr>"
      "distinct (map nv_id (node_versions_t (fst w')))"
    using Cons.IH [OF step(2)] Cons.prems(2) by force
  with v u show ?case by (intro exI [of _ "v # vs"]) simp
qed

lemma active_versions_effect:
  assumes "act_fold (publish_node_version ck p ids) ns [] w = (Inr es, w')"
    and "distinct (map (\<lambda>n. node_id_of ids (ni_key n)) ns)" "distinct (map nv_id (node_versions_t (fst w)))"
  shows "\<exists>vs. list_all2 (active_version p ids) ns vs
    \<and> map nv_node vs = map (\<lambda>n. node_id_of ids (ni_key n)) ns \<and> es = map entry_of vs
    \<and> fst w' = (fst w)\<lparr>node_versions_t := node_versions_t (fst w) @ vs\<rparr>
    \<and> distinct (map nv_id (node_versions_t (fst w')))"
proof -
  have "\<exists>v. active_version p ids n v \<and> nv_id v \<notin> nv_id ` set (node_versions_t (fst w))
        \<and> fst w' = (fst w)\<lparr>node_versions_t := node_versions_t (fst w) @ [v]\<rparr>
        \<and> nv_node v = node_id_of ids (ni_key n)
        \<and> es' = AList.update (node_id_of ids (ni_key n)) (snd (entry_of v)) es"
    if "publish_node_version ck p ids n es w = (Inr es', w')" for n es and w :: "catalog_db \<times> 'a" and es' w'
  proof -
    from that obtain i x metadata where i: "catalog_id ck w = (Inr i, x)"
        "encode_node_metadata (ni_indexes n) (ni_comment n) = Inr metadata" and
      step: "insert_node_version ck (snapshot_version p ids n i metadata) (fst x) = Inr (fst w')"
        "es' = AList.update (node_id_of ids (ni_key n)) (i, Some (search_of (snapshot_version p ids n i metadata))) es"
      by (auto simp: publish_node_version_def result_simps Let_def search_of_def snapshot_version_def)
    have x: "fst x = fst w" by (rule catalog_id_tables [OF i(1)])
    show ?thesis
      using i step x
      by (intro exI [of _ "snapshot_version p ids n i metadata"])
        (simp add: insert_node_version_Inr active_version_def entry_of_def snapshot_version_def)
  qed
  then show ?thesis
    using version_loop [OF assms(1), where R = "active_version p ids" and key = "\<lambda>n. node_id_of ids (ni_key n)"]
      assms(2,3) by simp
qed

lemma stale_versions_effect:
  assumes "act_fold (publish_stale_version ck p) missing es w = (Inr es', w')"
    and "distinct (map fst es @ map fst missing)" "distinct (map nv_id (node_versions_t (fst w)))"
  shows "\<exists>vs. list_all2 (\<lambda>m v. v = stale_version p (nv_id v) (fst m) (snd m)) missing vs
    \<and> map nv_node vs = map fst missing \<and> es' = es @ map entry_of vs
    \<and> fst w' = (fst w)\<lparr>node_versions_t := node_versions_t (fst w) @ vs\<rparr>
    \<and> distinct (map nv_id (node_versions_t (fst w')))"
proof -
  have "\<exists>v. v = stale_version p (nv_id v) (fst m) (snd m) \<and> nv_id v \<notin> nv_id ` set (node_versions_t (fst w))
        \<and> fst w' = (fst w)\<lparr>node_versions_t := node_versions_t (fst w) @ [v]\<rparr>
        \<and> nv_node v = fst m \<and> es' = AList.update (fst m) (snd (entry_of v)) es"
    if "publish_stale_version ck p m es w = (Inr es', w')" for m es and w :: "catalog_db \<times> 'a" and es' w'
  proof -
    from that obtain i x where i: "catalog_id ck w = (Inr i, x)" and
      step: "insert_node_version ck (stale_version p i (fst m) (snd m)) (fst x) = Inr (fst w')"
        "es' = AList.update (fst m) (i, None) es"
      by (auto simp: publish_stale_version_def result_simps)
    have x: "fst x = fst w" by (rule catalog_id_tables [OF i(1)])
    show ?thesis
      using i step x
      by (intro exI [of _ "stale_version p i (fst m) (snd m)"])
        (simp add: insert_node_version_Inr entry_of_def stale_version_def)
  qed
  then show ?thesis
    using version_loop [OF assms(1), where key = fst and
        R = "\<lambda>m v. v = stale_version p (nv_id v) (fst m) (snd m)"] assms(2,3) by simp
qed

subsection \<open>Current versions\<close>

text \<open>What \<^verbatim>\<open>node_current\<close> and \<^verbatim>\<open>node_search\<close> hold of a node after the entries were published.\<close>

definition current_of :: "catalog_db \<Rightarrow> int \<Rightarrow> node_current_row option" where
  "current_of d i = find (\<lambda>c. nc_node c = i) (node_current_t d)"

definition searches_of :: "catalog_db \<Rightarrow> int \<Rightarrow> node_search_row list" where
  "searches_of d i = filter (\<lambda>s. ns_node s = i) (node_search_t d)"

definition active_search :: "node_version_row \<Rightarrow> node_search_row list" where
  "active_search v = (if nv_status v = NodeActive then [search_of v] else [])"

definition same_but_current :: "catalog_db \<Rightarrow> catalog_db \<Rightarrow> bool" where
  "same_but_current d d' \<longleftrightarrow>
     (\<exists>cs ss. d' = d\<lparr>node_current_t := cs, node_search_t := ss\<rparr>)"

lemma same_but_current_trans:
  "same_but_current d e \<Longrightarrow> same_but_current e d' \<Longrightarrow> same_but_current d d'"
  unfolding same_but_current_def by (elim exE, simp) blast

lemma same_but_current_refl: "same_but_current d d"
  unfolding same_but_current_def
  by (rule exI [of _ "node_current_t d"], rule exI [of _ "node_search_t d"]) simp

lemma publish_current_effect:
  assumes "publish_current_node ck t (entry_of v) d = Inr d'" "distinct (map nc_node (node_current_t d))"
  shows "same_but_current d d'" and "distinct (map nc_node (node_current_t d'))"
    and "current_of d' i = (if i = nv_node v
         then Some \<lparr>nc_node = i, nc_version = nv_id v, nc_published_at = t\<rparr> else current_of d i)"
    and "searches_of d' i = (if i = nv_node v then active_search v else searches_of d i)"
    and "nc_node ` set (node_current_t d') = insert (nv_node v) (nc_node ` set (node_current_t d))"
proof -
  let ?row = "\<lparr>nc_node = nv_node v, nc_version = nv_id v, nc_published_at = t\<rparr>"
  let ?cs = "if nv_node v \<in> nc_node ` set (node_current_t d)
     then map (\<lambda>c. if nc_node c = nv_node v then ?row else c) (node_current_t d)
     else node_current_t d @ [?row]"
  let ?ss = "filter (\<lambda>s. ns_node s \<noteq> nv_node v) (node_search_t d) @ active_search v"
  have d': "d' = d\<lparr>node_current_t := ?cs, node_search_t := ?ss\<rparr>"
    using assms(1)
    by (simp add: publish_current_node_def entry_of_def Let_def result_simps active_search_def split: if_splits)
  have keys: "map nc_node ?cs = (if nv_node v \<in> nc_node ` set (node_current_t d)
      then map nc_node (node_current_t d) else map nc_node (node_current_t d) @ [nv_node v])"
    by (auto simp: o_def)
  have find: "find (\<lambda>c. nc_node c = i) ?cs
      = (if i = nv_node v then Some ?row else find (\<lambda>c. nc_node c = i) (node_current_t d))" for i
  proof (cases "nv_node v \<in> nc_node ` set (node_current_t d)")
    case True
    have "find (\<lambda>c. nc_node c = i) (map (\<lambda>c. if nc_node c = nv_node v then ?row else c) cs)
        = (if i = nv_node v then map_option (\<lambda>_. ?row) (find (\<lambda>c. nc_node c = i) cs)
           else find (\<lambda>c. nc_node c = i) cs)" for cs
      by (induction cs) auto
    moreover have "find (\<lambda>c. nc_node c = nv_node v) (node_current_t d) \<noteq> None"
      using True by (auto simp: find_None_iff)
    ultimately show ?thesis using True by auto
  next
    case False
    then have "find (\<lambda>c. nc_node c = nv_node v) (node_current_t d) = None"
      by (simp add: find_none_key)
    with False show ?thesis
      by (cases "i = nv_node v") (simp_all add: find_append split: option.splits)
  qed
  have "filter (\<lambda>s. ns_node s = i) ?ss = (if i = nv_node v then active_search v else searches_of d i)" for i
    by (auto simp: searches_of_def active_search_def search_of_def filter_empty_conv intro: filter_cong)
  note filter = this
  have set: "distinct (map nc_node ?cs)"
    "nc_node ` set ?cs = insert (nv_node v) (nc_node ` set (node_current_t d))"
    using assms(2) keys keys [THEN arg_cong [where f = set]] by (simp_all only: set_map [symmetric] split: if_splits) auto
  have t: "node_current_t d' = ?cs" "node_search_t d' = ?ss" unfolding d' by simp_all
  show "same_but_current d d'" unfolding same_but_current_def using d' by blast
  show "distinct (map nc_node (node_current_t d'))"
    "nc_node ` set (node_current_t d') = insert (nv_node v) (nc_node ` set (node_current_t d))"
    unfolding t by (rule set)+
  show "current_of d' i = (if i = nv_node v
         then Some \<lparr>nc_node = i, nc_version = nv_id v, nc_published_at = t\<rparr> else current_of d i)"
    unfolding current_of_def t find by simp
  show "searches_of d' i = (if i = nv_node v then active_search v else searches_of d i)"
    unfolding searches_of_def [of d'] t by (rule filter)
qed

lemma publish_currents_effect:
  assumes "fold_result (publish_current_node ck t) (map entry_of vs) d = Inr d'"
    and "distinct (map nc_node (node_current_t d))" "distinct (map nv_node vs)"
  shows "same_but_current d d' \<and> distinct (map nc_node (node_current_t d'))
    \<and> (\<forall>v\<in>set vs. current_of d' (nv_node v)
         = Some \<lparr>nc_node = nv_node v, nc_version = nv_id v, nc_published_at = t\<rparr>)
    \<and> (\<forall>v\<in>set vs. searches_of d' (nv_node v) = active_search v)
    \<and> (\<forall>i. i \<notin> nv_node ` set vs \<longrightarrow> current_of d' i = current_of d i \<and> searches_of d' i = searches_of d i)
    \<and> nc_node ` set (node_current_t d') = nc_node ` set (node_current_t d) \<union> nv_node ` set vs"
  using assms
proof (induction vs arbitrary: d)
  case Nil
  then show ?case by (simp add: same_but_current_refl)
next
  case (Cons v vs)
  then obtain e where e: "publish_current_node ck t (entry_of v) d = Inr e"
      "fold_result (publish_current_node ck t) (map entry_of vs) e = Inr d'"
    by (auto simp: sbind_eq_Inr)
  note 1 = publish_current_effect [OF e(1) Cons.prems(2)]
  have "distinct (map nv_node vs)" using Cons.prems(3) by simp
  note 2 = Cons.IH [OF e(2) 1(2) this]
  have v: "nv_node v \<notin> nv_node ` set vs" using Cons.prems(3) by simp
  have "current_of d' (nv_node v) = current_of e (nv_node v)" "searches_of d' (nv_node v) = searches_of e (nv_node v)"
    using 2 v by blast+
  with 2 1(3-5) show ?case
    by (auto intro: same_but_current_trans [OF 1(1)])
qed

end
