(* ===== verification/CatalogInvariant.thy ===== *)
theory CatalogInvariant
  imports CatalogEffects
begin

section \<open>The invariant of the catalog and what a publication does to it\<close>

text \<open>
  Every node has one current version, which is a version of that node, parents are nodes, and the
  search index holds exactly the active current versions. The catalog that a source shows, from
  stable keys to entries, is \<open>catalog_view\<close>; a publication changes it as \<open>publish_view\<close> says.
\<close>

definition node_ids :: "catalog_db \<Rightarrow> int set" where
  "node_ids d = no_id ` set (nodes_t d)"

definition catalog_inv :: "catalog_db \<Rightarrow> bool" where
  "catalog_inv d \<longleftrightarrow>
     nodes_ok d \<and> distinct (map nv_id (node_versions_t d)) \<and> distinct (map nc_node (node_current_t d))
     \<and> nc_node ` set (node_current_t d) = node_ids d
     \<and> (\<forall>c\<in>set (node_current_t d). \<exists>v\<in>set (node_versions_t d). nv_id v = nc_version c \<and> nv_node v = nc_node c)
     \<and> (\<forall>v\<in>set (node_versions_t d). nv_node v \<in> node_ids d
          \<and> (case nv_parent v of None \<Rightarrow> True | Some i \<Rightarrow> i \<in> node_ids d))
     \<and> (\<forall>i. searches_of d i = (case current_version d i of None \<Rightarrow> [] | Some v \<Rightarrow> active_search v))"

text \<open>What the checks of the catalog leave of a snapshot that the nodes need.\<close>

definition publication_ok :: "snapshot_publication \<Rightarrow> bool" where
  "publication_ok p \<longleftrightarrow>
     distinct (map ni_key (pu_nodes p))
     \<and> (\<forall>n\<in>set (pu_nodes p). ni_parent n = [] \<or> ni_parent n \<in> ni_key ` set (pu_nodes p))"

subsection \<open>The catalog of a source\<close>

record catalog_entry =
  ce_kind :: node_kind
  ce_status :: node_status
  ce_parent :: string
  ce_name :: string
  ce_qualified :: string
  ce_type :: string
  ce_nullable :: bool
  ce_ordinal :: int
  ce_metadata :: string

definition key_of_node :: "catalog_db \<Rightarrow> int \<Rightarrow> string" where
  "key_of_node d i = (case find (\<lambda>r. no_id r = i) (nodes_t d) of None \<Rightarrow> [] | Some r \<Rightarrow> no_key r)"

definition entry_at :: "catalog_db \<Rightarrow> node_kind \<Rightarrow> node_version_row \<Rightarrow> catalog_entry" where
  "entry_at d kind v =
     \<lparr>ce_kind = kind, ce_status = nv_status v,
      ce_parent = (case nv_parent v of None \<Rightarrow> [] | Some i \<Rightarrow> key_of_node d i),
      ce_name = nv_name v, ce_qualified = nv_qualified v, ce_type = nv_type v, ce_nullable = nv_nullable v,
      ce_ordinal = nv_ordinal v, ce_metadata = nv_metadata v\<rparr>"

definition node_row_of :: "catalog_db \<Rightarrow> int \<Rightarrow> string \<Rightarrow> node_row option" where
  "node_row_of d source_id key = find (\<lambda>r. no_data_source r = source_id \<and> no_key r = key) (nodes_t d)"

definition catalog_view :: "catalog_db \<Rightarrow> int \<Rightarrow> string \<Rightarrow> catalog_entry option" where
  "catalog_view d source_id key =
     (case node_row_of d source_id key of
        None \<Rightarrow> None
      | Some r \<Rightarrow> map_option (entry_at d (no_kind r)) (current_version d (no_id r)))"

definition snapshot_entry :: "node_kind \<Rightarrow> node_input \<Rightarrow> catalog_entry" where
  "snapshot_entry kind n =
     \<lparr>ce_kind = kind, ce_status = NodeActive, ce_parent = ni_parent n, ce_name = ni_name n,
      ce_qualified = ni_qualified n, ce_type = ni_type n, ce_nullable = ni_nullable n, ce_ordinal = ni_ordinal n,
      ce_metadata = (case encode_node_metadata (ni_indexes n) (ni_comment n) of Inl _ \<Rightarrow> [] | Inr m \<Rightarrow> m)\<rparr>"

definition gone_entry :: "string list \<Rightarrow> catalog_entry \<Rightarrow> catalog_entry" where
  "gone_entry scope e =
     (if ce_status e = NodeActive \<and> node_within_table_scope (ce_kind e) (ce_qualified e) scope
      then e\<lparr>ce_status := NodeStale, ce_metadata := stale_node_metadata (ce_metadata e)\<rparr> else e)"

definition publish_view ::
  "node_input list \<Rightarrow> string list \<Rightarrow> (string \<Rightarrow> catalog_entry option) \<Rightarrow> string \<Rightarrow> catalog_entry option" where
  "publish_view nodes scope view key =
     (case find (\<lambda>n. ni_key n = key) nodes of
        Some n \<Rightarrow> Some (snapshot_entry (case view key of None \<Rightarrow> ni_kind n | Some e \<Rightarrow> ce_kind e) n)
      | None \<Rightarrow> map_option (gone_entry scope) (view key))"

subsection \<open>What the invariant gives\<close>

lemma current_version_of:
  "current_version d i = (case current_of d i of None \<Rightarrow> None | Some c \<Rightarrow> find_node_version d (nc_version c))"
  by (simp add: current_version_def current_of_def)

lemma inv_current_version:
  assumes "catalog_inv d" "i \<in> node_ids d"
  obtains v where "current_version d i = Some v" "v \<in> set (node_versions_t d)" "nv_node v = i"
proof -
  from assms have "i \<in> nc_node ` set (node_current_t d)" by (simp add: catalog_inv_def)
  then obtain c where c: "c \<in> set (node_current_t d)" "nc_node c = i" by auto
  with assms obtain v where v: "v \<in> set (node_versions_t d)" "nv_id v = nc_version c" "nv_node v = i"
    unfolding catalog_inv_def by blast
  have "current_of d i = Some c"
    using assms(1) c find_key [of nc_node "node_current_t d" c] by (simp add: current_of_def catalog_inv_def)
  moreover have "find_node_version d (nc_version c) = Some v"
    using assms(1) v find_key [of nv_id "node_versions_t d" v] by (simp add: find_node_version_def catalog_inv_def)
  ultimately show thesis using that v by (simp add: current_version_of)
qed

lemma inv_no_current:
  assumes "catalog_inv d" "i \<notin> node_ids d"
  shows "current_of d i = None"
  using assms by (auto simp: current_of_def find_none_key catalog_inv_def)

lemma node_row_of_row:
  assumes "nodes_ok d" "r \<in> set (nodes_t d)"
  shows "node_row_of d (no_data_source r) (no_key r) = Some r"
proof -
  have "find (\<lambda>y. (no_data_source y, no_key y) = (no_data_source r, no_key r)) (nodes_t d) = Some r"
    by (rule find_key) (use assms in \<open>simp_all add: nodes_ok_def\<close>)
  then show ?thesis by (simp add: node_row_of_def)
qed

lemma node_row_of_Some:
  "node_row_of d source_id key = Some r \<Longrightarrow> r \<in> set (nodes_t d) \<and> no_data_source r = source_id \<and> no_key r = key"
  by (auto simp: node_row_of_def dest: find_some_in)

lemma node_row_unique:
  "nodes_ok d \<Longrightarrow> r \<in> set (nodes_t d) \<Longrightarrow> s \<in> set (nodes_t d) \<Longrightarrow> no_id r = no_id s \<Longrightarrow> r = s"
  by (auto simp: nodes_ok_def distinct_map dest: inj_onD)

lemma key_of_node_row:
  assumes "nodes_ok d" "r \<in> set (nodes_t d)"
  shows "key_of_node d (no_id r) = no_key r"
  using assms find_key [of no_id "nodes_t d" r] by (simp add: key_of_node_def nodes_ok_def)

lemma node_id_of_row:
  assumes "nodes_ok d" "r \<in> set (nodes_t d)" "no_data_source r = source_id"
  shows "node_id_of (node_keys d source_id) (no_key r) = no_id r"
proof -
  have "distinct (map fst (node_keys d source_id))"
    using assms(1)
    by (auto simp: nodes_ok_def node_keys_def distinct_map o_def intro!: inj_onI dest: inj_onD)
  moreover have "(no_key r, no_id r) \<in> set (node_keys d source_id)"
    using assms(2,3) by (auto simp: node_keys_def)
  ultimately have "map_of (node_keys d source_id) (no_key r) = Some (no_id r)"
    by (rule map_of_is_SomeI)
  then show ?thesis by (simp add: node_id_of_def)
qed

lemma node_keys_row:
  assumes "key \<in> fst ` set (node_keys d source_id)"
  obtains r where "r \<in> set (nodes_t d)" "no_data_source r = source_id" "no_key r = key"
  using assms by (auto simp: node_keys_def)

subsection \<open>The nodes that are missing\<close>

lemma missing_members:
  "(i, v) \<in> set (load_missing_current_nodes source_id present scope d) \<longleftrightarrow>
     (\<exists>r\<in>set (nodes_t d). no_data_source r = source_id \<and> no_id r = i \<and> missing_node d present scope r = Some v)"
  by (auto simp: load_missing_current_nodes_def split: option.splits)

lemma missing_node_Some:
  "missing_node d present scope r = Some v \<longleftrightarrow>
     current_version d (no_id r) = Some v \<and> nv_status v = NodeActive \<and> no_key r \<notin> set present
     \<and> node_within_table_scope (no_kind r) (nv_qualified v) scope"
  by (auto simp: missing_node_def split: option.splits)

lemma missing_distinct:
  assumes "distinct (map no_id (nodes_t d))"
  shows "distinct (map fst (load_missing_current_nodes source_id present scope d))"
proof -
  have "distinct (map no_id rs) \<Longrightarrow>
    distinct (map fst (concat (map (\<lambda>r. case missing_node d present scope r of None \<Rightarrow> [] | Some v \<Rightarrow> [(no_id r, v)]) rs)))"
    for rs
    by (induction rs) (auto split: option.splits)
  then show ?thesis
    using assms by (simp add: load_missing_current_nodes_def distinct_map_filter)
qed

lemma load_missing_append:
  assumes "catalog_inv d" "nodes_ok (d\<lparr>nodes_t := nodes_t d @ new\<rparr>)"
  shows "load_missing_current_nodes source_id present scope
      (d\<lparr>nodes_t := nodes_t d @ new, node_versions_t := node_versions_t d @ vs\<rparr>)
    = load_missing_current_nodes source_id present scope d"
proof -
  let ?d = "d\<lparr>nodes_t := nodes_t d @ new, node_versions_t := node_versions_t d @ vs\<rparr>"
  have same: "current_of ?d i = current_of d i" for i by (simp add: current_of_def)
  have "current_version ?d (no_id r) = current_version d (no_id r)" if "r \<in> set (nodes_t d)" for r
  proof -
    from that have "no_id r \<in> node_ids d" by (simp add: node_ids_def)
    then obtain v where "current_version d (no_id r) = Some v" using inv_current_version assms(1) by blast
    then show ?thesis
      by (auto simp: current_version_of same find_node_version_def find_append split: option.splits)
  qed
  then have old: "missing_node ?d present scope r = missing_node d present scope r" if "r \<in> set (nodes_t d)" for r
    using that by (simp add: missing_node_def)
  have none: "missing_node ?d present scope r = None" if "r \<in> set new" for r
  proof -
    have "no_id r \<notin> node_ids d"
      using that assms(2) by (auto simp: nodes_ok_def node_ids_def)
    then show ?thesis
      using inv_no_current [OF assms(1)] by (simp add: missing_node_def current_version_of same)
  qed
  have 1: "concat (map (\<lambda>r. case missing_node ?d present scope r of None \<Rightarrow> [] | Some v \<Rightarrow> [(no_id r, v)])
      (filter (\<lambda>r. no_data_source r = source_id) new)) = []"
    using none by simp
  have 2: "map (\<lambda>r. case missing_node ?d present scope r of None \<Rightarrow> [] | Some v \<Rightarrow> [(no_id r, v)])
        (filter (\<lambda>r. no_data_source r = source_id) (nodes_t d))
    = map (\<lambda>r. case missing_node d present scope r of None \<Rightarrow> [] | Some v \<Rightarrow> [(no_id r, v)])
        (filter (\<lambda>r. no_data_source r = source_id) (nodes_t d))"
    using old by simp
  have "nodes_t ?d = nodes_t d @ new" by simp
  then show ?thesis
    unfolding load_missing_current_nodes_def by (simp only: filter_append map_append concat_append 1 2 append_Nil2)
qed

subsection \<open>The node half of a publication\<close>

text \<open>The new rows \<open>new\<close> and versions \<open>vs\<close>, and how the current tables show them.\<close>

definition publication_writes ::
  "snapshot_publication \<Rightarrow> catalog_db \<Rightarrow> node_row list \<Rightarrow> node_version_row list \<Rightarrow> catalog_db \<Rightarrow> bool" where
  "publication_writes p d new vs d' \<longleftrightarrow>
     nodes_t d' = nodes_t d @ new \<and> nodes_ok d' \<and> resolves p (pu_nodes p) d new
     \<and> ni_key ` set (pu_nodes p) \<subseteq> fst ` set (node_keys d' (pu_data_source p))
     \<and> node_versions_t d' = node_versions_t d @ vs \<and> distinct (map nv_id (node_versions_t d'))
     \<and> distinct (map nv_node vs)
     \<and> (\<forall>n\<in>set (pu_nodes p). \<exists>v\<in>set vs. active_version p (node_keys d' (pu_data_source p)) n v)
     \<and> (\<forall>m\<in>set (load_missing_current_nodes (pu_data_source p) (map ni_key (pu_nodes p)) (pu_scope p) d).
          \<exists>v\<in>set vs. v = stale_version p (nv_id v) (fst m) (snd m))
     \<and> (\<forall>v\<in>set vs. (\<exists>n\<in>set (pu_nodes p). active_version p (node_keys d' (pu_data_source p)) n v)
          \<or> (\<exists>m\<in>set (load_missing_current_nodes (pu_data_source p) (map ni_key (pu_nodes p)) (pu_scope p) d).
               v = stale_version p (nv_id v) (fst m) (snd m)))
     \<and> distinct (map nc_node (node_current_t d'))
     \<and> nc_node ` set (node_current_t d') = nc_node ` set (node_current_t d) \<union> nv_node ` set vs
     \<and> (\<forall>v\<in>set vs. current_of d' (nv_node v)
          = Some \<lparr>nc_node = nv_node v, nc_version = nv_id v, nc_published_at = pu_started_at p\<rparr>
          \<and> searches_of d' (nv_node v) = active_search v)
     \<and> (\<forall>i. i \<notin> nv_node ` set vs \<longrightarrow> current_of d' i = current_of d i \<and> searches_of d' i = searches_of d i)"

lemma publication_writesD:
  assumes "publication_writes p d new vs d'"
  shows "nodes_t d' = nodes_t d @ new" "nodes_ok d'" "resolves p (pu_nodes p) d new"
    "ni_key ` set (pu_nodes p) \<subseteq> fst ` set (node_keys d' (pu_data_source p))"
    "node_versions_t d' = node_versions_t d @ vs" "distinct (map nv_id (node_versions_t d'))"
    "distinct (map nc_node (node_current_t d'))"
    "nc_node ` set (node_current_t d') = nc_node ` set (node_current_t d) \<union> nv_node ` set vs"
    "\<And>v. v \<in> set vs \<Longrightarrow> current_of d' (nv_node v)
          = Some \<lparr>nc_node = nv_node v, nc_version = nv_id v, nc_published_at = pu_started_at p\<rparr>"
    "\<And>v. v \<in> set vs \<Longrightarrow> searches_of d' (nv_node v) = active_search v"
    "\<And>i. i \<notin> nv_node ` set vs \<Longrightarrow> current_of d' i = current_of d i"
    "\<And>i. i \<notin> nv_node ` set vs \<Longrightarrow> searches_of d' i = searches_of d i"
  using assms unfolding publication_writes_def
  by - ((elim conjE, assumption)+, (elim conjE, drule (1) bspec, elim conjE, assumption)+,
    (elim conjE, drule spec, drule (1) mp, elim conjE, assumption)+)

lemma publication_writesE:
  assumes "publication_writes p d new vs d'"
  shows "\<And>n. n \<in> set (pu_nodes p) \<Longrightarrow> \<exists>v\<in>set vs. active_version p (node_keys d' (pu_data_source p)) n v"
    "\<And>m. m \<in> set (load_missing_current_nodes (pu_data_source p) (map ni_key (pu_nodes p)) (pu_scope p) d) \<Longrightarrow>
       \<exists>v\<in>set vs. v = stale_version p (nv_id v) (fst m) (snd m)"
    "\<And>v. v \<in> set vs \<Longrightarrow> (\<exists>n\<in>set (pu_nodes p). active_version p (node_keys d' (pu_data_source p)) n v)
       \<or> (\<exists>m\<in>set (load_missing_current_nodes (pu_data_source p) (map ni_key (pu_nodes p)) (pu_scope p) d).
            v = stale_version p (nv_id v) (fst m) (snd m))"
  using assms unfolding publication_writes_def by - (elim conjE, drule (1) bspec, assumption)+

definition only_nodes_differ :: "catalog_db \<Rightarrow> catalog_db \<Rightarrow> bool" where
  "only_nodes_differ d d' \<longleftrightarrow>
     (\<exists>ns vs cs ss. d' = d\<lparr>nodes_t := ns, node_versions_t := vs, node_current_t := cs, node_search_t := ss\<rparr>)"

lemma snapshot_ids_distinct:
  assumes "nodes_ok d" "distinct (map ni_key ns)" "ni_key ` set ns \<subseteq> fst ` set (node_keys d source_id)"
  shows "distinct (map (\<lambda>n. node_id_of (node_keys d source_id) (ni_key n)) ns)"
proof -
  have "inj_on (node_id_of (node_keys d source_id)) (fst ` set (node_keys d source_id))"
    by (rule inj_onI) (metis assms(1) node_keys_row node_id_of_row node_row_unique)
  then have "inj_on (node_id_of (node_keys d source_id)) (set (map ni_key ns))"
    by (rule inj_on_subset) (use assms(3) in simp)
  then have "distinct (map (node_id_of (node_keys d source_id)) (map ni_key ns))"
    using assms(2) by (simp only: distinct_map)
  then show ?thesis by (simp add: o_def)
qed

lemma publish_nodes_effect:
  assumes step: "publish_nodes ck p w = (Inr (ids, n), w')" and inv: "catalog_inv (fst w)"
    and ok: "publication_ok p"
  shows "\<exists>new vs. publication_writes p (fst w) new vs (fst w')" and "only_nodes_differ (fst w) (fst w')"
    and "ids = node_keys (fst w') (pu_data_source p)"
    and "n = int (length (load_missing_current_nodes (pu_data_source p) (map ni_key (pu_nodes p)) (pu_scope p) (fst w)))"
proof -
  let ?src = "pu_data_source p" and ?ns = "pu_nodes p" and ?present = "map ni_key (pu_nodes p)"
  from step obtain a b c es es' missing d where
    1: "act_fold (resolve_node ck p) ?ns (node_keys (fst w) ?src) w = (Inr ids, a)" and
    2: "act_fold (publish_node_version ck p ids) ?ns [] a = (Inr es, b)" and
    m: "missing = load_missing_current_nodes ?src ?present (pu_scope p) (fst b)" "n = int (length missing)" and
    3: "act_fold (publish_stale_version ck p) missing es b = (Inr es', c)" and
    4: "fold_result (publish_current_node ck (pu_started_at p)) es' (fst c) = Inr d" "w' = (d, snd c)"
    by (auto simp: publish_nodes_def resolve_node_ids_def result_simps)
  have nodes_ok: "nodes_ok (fst w)" using inv by (simp add: catalog_inv_def)
  obtain new where new: "fst a = (fst w)\<lparr>nodes_t := nodes_t (fst w) @ new\<rparr>" "nodes_ok (fst a)"
      "ids = node_keys (fst a) ?src" "resolves p ?ns (fst w) new" "ni_key ` set ?ns \<subseteq> fst ` set ids"
    using resolve_nodes_effect [OF 1 nodes_ok refl] by blast
  have ids: "distinct (map (\<lambda>x. node_id_of ids (ni_key x)) ?ns)"
    unfolding new(3) by (rule snapshot_ids_distinct [OF new(2)]) (use new(3,5) ok in \<open>simp_all add: publication_ok_def\<close>)
  have "distinct (map nv_id (node_versions_t (fst a)))" using inv new(1) by (simp add: catalog_inv_def)
  then obtain vs where vs: "list_all2 (active_version p ids) ?ns vs"
      "map nv_node vs = map (\<lambda>n. node_id_of ids (ni_key n)) ?ns" "es = map entry_of vs"
      "fst b = (fst a)\<lparr>node_versions_t := node_versions_t (fst a) @ vs\<rparr>"
      "distinct (map nv_id (node_versions_t (fst b)))"
    using active_versions_effect [OF 2 ids] by blast
  have b: "fst b = (fst w)\<lparr>nodes_t := nodes_t (fst w) @ new, node_versions_t := node_versions_t (fst w) @ vs\<rparr>"
    using vs(4) new(1) by simp
  have missing: "missing = load_missing_current_nodes ?src ?present (pu_scope p) (fst w)"
    unfolding m(1) b by (rule load_missing_append [OF inv]) (use new(1,2) in simp)
  have apart: "i \<noteq> node_id_of ids (ni_key x)" if gone: "(i, v) \<in> set missing" and x: "x \<in> set ?ns" for i v x
  proof
    assume eq: "i = node_id_of ids (ni_key x)"
    from gone obtain r where r: "r \<in> set (nodes_t (fst w))" "no_id r = i" "no_key r \<notin> set ?present"
      unfolding missing missing_members missing_node_Some by blast
    obtain s where s: "s \<in> set (nodes_t (fst a))" "no_data_source s = ?src" "no_key s = ni_key x"
      using node_keys_row [of "ni_key x" "fst a" ?src] new(3,5) x by blast
    have "no_id s = i" using node_id_of_row [OF new(2) s(1,2)] s(3) new(3) eq by simp
    then have "s = r" using node_row_unique [OF new(2) s(1)] r new(1) by simp
    with r(3) s(3) x show False by simp
  qed
  have disjoint: "distinct (map fst es @ map fst missing)"
  proof -
    have "map fst es = map (\<lambda>x. node_id_of ids (ni_key x)) ?ns"
      using vs(2,3) by (simp add: entry_of_def comp_def)
    moreover have "distinct (map fst missing)"
      unfolding missing by (rule missing_distinct) (use nodes_ok in \<open>simp add: nodes_ok_def\<close>)
    ultimately show ?thesis using ids apart by fastforce
  qed
  obtain us where us: "list_all2 (\<lambda>m v. v = stale_version p (nv_id v) (fst m) (snd m)) missing us"
      "map nv_node us = map fst missing" "es' = es @ map entry_of us"
      "fst c = (fst b)\<lparr>node_versions_t := node_versions_t (fst b) @ us\<rparr>"
      "distinct (map nv_id (node_versions_t (fst c)))"
    using stale_versions_effect [OF 3 disjoint vs(5)] by blast
  have es: "es' = map entry_of (vs @ us)" using us(3) vs(3) by simp
  have nodes: "distinct (map nv_node (vs @ us))"
  proof -
    have "map fst es @ map fst missing = map nv_node (vs @ us)"
      using us(2) vs(3) by (simp add: entry_of_def comp_def)
    with disjoint show ?thesis by simp
  qed
  have currents: "distinct (map nc_node (node_current_t (fst c)))"
    using inv us(4) b by (simp add: catalog_inv_def)
  note 5 = publish_currents_effect [OF 4(1) [unfolded es] currents nodes]
  then obtain cs ss where d: "d = (fst c)\<lparr>node_current_t := cs, node_search_t := ss\<rparr>"
    by (auto simp: same_but_current_def)
  have c: "fst c = (fst w)\<lparr>nodes_t := nodes_t (fst w) @ new, node_versions_t := node_versions_t (fst w) @ vs @ us\<rparr>"
    using us(4) b by simp
  show "only_nodes_differ (fst w) (fst w')"
    using 4(2) d c unfolding only_nodes_differ_def by auto
  have keys: "ids = node_keys (fst w') ?src"
    using new(1,3) 4(2) d c by (simp add: node_keys_def)
  then show "ids = node_keys (fst w') ?src" .
  show "n = int (length (load_missing_current_nodes ?src ?present (pu_scope p) (fst w)))"
    using m(2) missing by simp
  have w': "nodes_t (fst w') = nodes_t (fst w) @ new" "node_versions_t (fst w') = node_versions_t (fst w) @ vs @ us"
    "fst w' = d"
    using 4(2) d c by simp_all
  have same: "current_of (fst c) i = current_of (fst w) i" "searches_of (fst c) i = searches_of (fst w) i" for i
    by (simp_all add: c current_of_def searches_of_def)
  have made: "\<forall>x\<in>set ?ns. \<exists>v\<in>set (vs @ us). active_version p ids x v"
    "\<forall>m\<in>set missing. \<exists>v\<in>set (vs @ us). v = stale_version p (nv_id v) (fst m) (snd m)"
    "\<forall>v\<in>set (vs @ us). (\<exists>x\<in>set ?ns. active_version p ids x v)
       \<or> (\<exists>m\<in>set missing. v = stale_version p (nv_id v) (fst m) (snd m))"
    using list_all2_left [OF vs(1)] list_all2_left [OF us(1)] list_all2_right [OF vs(1)] list_all2_right [OF us(1)]
    by (simp_all only: set_append) blast+
  have "nodes_ok (fst w')" using new(1,2) w'(1) by (simp add: nodes_ok_def)
  moreover have "distinct (map nv_id (node_versions_t (fst w')))" using us(5) w'(2) c by simp
  ultimately have "publication_writes p (fst w) new (vs @ us) (fst w')"
    unfolding publication_writes_def keys [symmetric] missing [symmetric]
    using w'(1,2) new(4,5) nodes made 5 by (simp add: w'(3) c same [unfolded c])
  then show "\<exists>new vs. publication_writes p (fst w) new vs (fst w')" by blast
qed

subsection \<open>Current versions after a publication\<close>

lemma publishes_current:
  assumes pub: "publication_writes p d new vs d'" and v: "v \<in> set vs"
  shows "current_version d' (nv_node v) = Some v"
proof -
  have "find (\<lambda>x. nv_id x = nv_id v) (node_versions_t d') = Some v"
    by (rule find_key [OF publication_writesD(6) [OF pub]]) (simp add: publication_writesD(5) [OF pub] v)
  moreover have "current_of d' (nv_node v)
      = Some \<lparr>nc_node = nv_node v, nc_version = nv_id v, nc_published_at = pu_started_at p\<rparr>"
    by (rule publication_writesD(9) [OF pub v])
  ultimately show ?thesis by (simp add: current_version_of find_node_version_def)
qed

lemma publishes_unchanged:
  assumes inv: "catalog_inv d" and pub: "publication_writes p d new vs d'" and i: "i \<notin> nv_node ` set vs"
  shows "current_version d' i = current_version d i" and "searches_of d' i = searches_of d i"
proof -
  have same: "current_of d' i = current_of d i" "searches_of d' i = searches_of d i"
    "node_versions_t d' = node_versions_t d @ vs"
    by (rule publication_writesD(11) [OF pub i], rule publication_writesD(12) [OF pub i], rule publication_writesD(5) [OF pub])
  show "searches_of d' i = searches_of d i" by (rule same)
  show "current_version d' i = current_version d i"
  proof (cases "i \<in> node_ids d")
    case True
    then obtain v where "current_version d i = Some v" using inv_current_version inv by blast
    then show ?thesis
      by (auto simp: current_version_of same find_node_version_def find_append split: option.splits)
  next
    case False
    then show ?thesis using inv_no_current [OF inv] same by (simp add: current_version_of)
  qed
qed

lemma publishes_nodes: "publication_writes p d new vs d' \<Longrightarrow> node_ids d' = node_ids d \<union> no_id ` set new"
  by (auto simp: publication_writesD(1) node_ids_def)

text \<open>The node that a version of a publication belongs to.\<close>

lemma active_version_row:
  assumes pub: "publication_writes p d new vs d'" and v: "active_version p (node_keys d' (pu_data_source p)) n v"
    and n: "ni_key n \<in> ni_key ` set (pu_nodes p)"
  obtains r where "r \<in> set (nodes_t d')" "no_data_source r = pu_data_source p" "no_key r = ni_key n"
    "nv_node v = no_id r"
proof -
  have ok: "nodes_ok d'" "ni_key n \<in> fst ` set (node_keys d' (pu_data_source p))"
    using publication_writesD(2,4) [OF pub] n by auto
  obtain r where r: "r \<in> set (nodes_t d')" "no_data_source r = pu_data_source p" "no_key r = ni_key n"
    using node_keys_row [OF ok(2)] by blast
  have "nv_node v = node_id_of (node_keys d' (pu_data_source p)) (ni_key n)"
    using v by (auto simp: active_version_def snapshot_version_def) (metis node_version_row.select_convs(2))
  then have "nv_node v = no_id r" using node_id_of_row [OF ok(1) r(1,2)] r(3) by simp
  with r show thesis by (rule that)
qed

lemma publishes_inv:
  assumes inv: "catalog_inv d" and pub: "publication_writes p d new vs d'" and ok: "publication_ok p"
  shows "catalog_inv d'"
proof -
  let ?ids = "node_keys d' (pu_data_source p)"
  let ?missing = "load_missing_current_nodes (pu_data_source p) (map ni_key (pu_nodes p)) (pu_scope p) d"
  have nodes: "node_ids d' = node_ids d \<union> no_id ` set new" by (rule publishes_nodes [OF pub])
  have parts: "nodes_ok d'" "distinct (map nv_id (node_versions_t d'))" "distinct (map nc_node (node_current_t d'))"
    "nc_node ` set (node_current_t d') = nc_node ` set (node_current_t d) \<union> nv_node ` set vs"
    "nodes_t d' = nodes_t d @ new" "node_versions_t d' = node_versions_t d @ vs"
    by (rule publication_writesD [OF pub])+
  have source: "(\<exists>n\<in>set (pu_nodes p). active_version p ?ids n v)
      \<or> (\<exists>m\<in>set ?missing. v = stale_version p (nv_id v) (fst m) (snd m))" if "v \<in> set vs" for v
    by (rule publication_writesE(3) [OF pub that])
  have version: "nv_node v \<in> node_ids d' \<and> (case nv_parent v of None \<Rightarrow> True | Some i \<Rightarrow> i \<in> node_ids d')"
    if "v \<in> set vs" for v
    using source [OF that]
  proof (elim disjE bexE)
    fix n assume n: "n \<in> set (pu_nodes p)" "active_version p ?ids n v"
    have "ni_key n \<in> ni_key ` set (pu_nodes p)" using n(1) by simp
    then obtain r where r: "r \<in> set (nodes_t d')" "nv_node v = no_id r"
      by (rule active_version_row [OF pub n(2)])
    have "nv_parent v = nullable_node_id ?ids (ni_parent n)"
      using n(2) by (auto simp: active_version_def snapshot_version_def) (metis node_version_row.select_convs(4))
    moreover have "node_id_of ?ids (ni_parent n) \<in> node_ids d'" if parent: "ni_parent n \<noteq> []"
    proof -
      have "ni_parent n \<in> fst ` set ?ids"
        using ok n(1) parent publication_writesD(4) [OF pub] by (auto simp: publication_ok_def)
      then obtain s where "s \<in> set (nodes_t d')" "no_data_source s = pu_data_source p" "no_key s = ni_parent n"
        by (rule node_keys_row)
      then show ?thesis using node_id_of_row [OF parts(1)] by (metis node_ids_def imageI)
    qed
    ultimately show ?thesis using r by (auto simp: node_ids_def nullable_node_id_def)
  next
    fix m assume m: "m \<in> set ?missing" and v: "v = stale_version p (nv_id v) (fst m) (snd m)"
    obtain i u where [simp]: "m = (i, u)" by (cases m)
    from m obtain r where r: "r \<in> set (nodes_t d)" "no_id r = i" "current_version d i = Some u"
      by (auto simp: missing_members missing_node_Some)
    then have i: "i \<in> node_ids d" by (auto simp: node_ids_def)
    obtain w where w: "current_version d i = Some w" "w \<in> set (node_versions_t d)"
      using inv_current_version [OF inv i] by blast
    have "u \<in> set (node_versions_t d)" using w r(3) by simp
    then have "case nv_parent u of None \<Rightarrow> True | Some j \<Rightarrow> j \<in> node_ids d"
      using inv by (auto simp: catalog_inv_def)
    moreover have "nv_node v = i" "nv_parent v = nv_parent u"
      by (subst v, simp add: stale_version_def)+
    ultimately show ?thesis using i nodes by (auto split: option.splits)
  qed
  have new_in: "no_id ` set new \<subseteq> nv_node ` set vs"
  proof
    fix i assume "i \<in> no_id ` set new"
    then obtain r where r: "r \<in> set new" "no_id r = i" by auto
    then obtain n where n: "n \<in> set (pu_nodes p)" "ni_key n = no_key r" "no_data_source r = pu_data_source p"
      using publication_writesD(3) [OF pub] by (auto simp: resolves_def)
    obtain v where v: "v \<in> set vs" "active_version p ?ids n v"
      using publication_writesE(1) [OF pub n(1)] by blast
    have "ni_key n \<in> ni_key ` set (pu_nodes p)" using n(1) by simp
    then obtain s where s: "s \<in> set (nodes_t d')" "no_data_source s = pu_data_source p" "no_key s = ni_key n"
        "nv_node v = no_id s"
      by (rule active_version_row [OF pub v(2)])
    have "r = s"
      using node_row_of_row [OF parts(1) s(1)] node_row_of_row [OF parts(1), of r] r(1) s(2,3) n parts(5) by simp
    with v(1) s(4) r(2) show "i \<in> nv_node ` set vs" by auto
  qed
  have ids: "nc_node ` set (node_current_t d') = node_ids d'"
  proof -
    have union: "B \<subseteq> A \<union> C \<Longrightarrow> C \<subseteq> B \<Longrightarrow> A \<union> B = A \<union> C" for A B C :: "int set" by blast
    have "nv_node ` set vs \<subseteq> node_ids d \<union> no_id ` set new" unfolding nodes [symmetric] using version by blast
    moreover have "nc_node ` set (node_current_t d) = node_ids d" using inv by (simp add: catalog_inv_def)
    ultimately show ?thesis unfolding parts(4) nodes by (simp only: union [OF _ new_in])
  qed
  have current: "\<exists>v\<in>set (node_versions_t d'). nv_id v = nc_version c \<and> nv_node v = nc_node c"
    if c: "c \<in> set (node_current_t d')" for c
  proof -
    have "current_of d' (nc_node c) = Some c"
      using find_key [of nc_node "node_current_t d'" c] parts(3) c by (simp add: current_of_def)
    moreover have "current_of d' i = Some c \<Longrightarrow> i = nc_node c" for i
      by (auto simp: current_of_def dest: find_some_in)
    ultimately show ?thesis
    proof (cases "nc_node c \<in> nv_node ` set vs")
      case True
      then obtain v where v: "v \<in> set vs" "nv_node v = nc_node c" by auto
      then have "current_of d' (nc_node c)
          = Some \<lparr>nc_node = nc_node c, nc_version = nv_id v, nc_published_at = pu_started_at p\<rparr>"
        using publication_writesD(9) [OF pub v(1)] by simp
      with \<open>current_of d' (nc_node c) = Some c\<close> have "nc_version c = nv_id v"
        by (metis option.inject node_current_row.select_convs(2))
      with v parts(6) show ?thesis by auto
    next
      case False
      then have "current_of d (nc_node c) = Some c"
        using \<open>current_of d' (nc_node c) = Some c\<close> publication_writesD(11) [OF pub] by simp
      then have "c \<in> set (node_current_t d)" by (auto simp: current_of_def dest: find_some_in)
      with inv parts(6) show ?thesis unfolding catalog_inv_def by fastforce
    qed
  qed
  have search: "searches_of d' i = (case current_version d' i of None \<Rightarrow> [] | Some v \<Rightarrow> active_search v)" for i
  proof (cases "i \<in> nv_node ` set vs")
    case True
    then show ?thesis using publishes_current [OF pub] publication_writesD(10) [OF pub] by auto
  next
    case False
    then show ?thesis using publishes_unchanged [OF inv pub False] inv by (simp add: catalog_inv_def)
  qed
  have old: "nv_node v \<in> node_ids d' \<and> (case nv_parent v of None \<Rightarrow> True | Some i \<Rightarrow> i \<in> node_ids d')"
    if "v \<in> set (node_versions_t d)" for v
    using inv that nodes by (auto simp: catalog_inv_def split: option.splits)
  show ?thesis
    unfolding catalog_inv_def parts(6)
  proof (intro conjI ballI allI)
    show "\<exists>v\<in>set (node_versions_t d @ vs). nv_id v = nc_version c \<and> nv_node v = nc_node c"
      if "c \<in> set (node_current_t d')" for c
      using current [OF that] unfolding parts(6) .
    fix v assume "v \<in> set (node_versions_t d @ vs)"
    then have "nv_node v \<in> node_ids d' \<and> (case nv_parent v of None \<Rightarrow> True | Some i \<Rightarrow> i \<in> node_ids d')"
      unfolding set_append by (elim UnE) (erule old, erule version)
    then show "nv_node v \<in> node_ids d'" "case nv_parent v of None \<Rightarrow> True | Some i \<Rightarrow> i \<in> node_ids d'"
      by simp_all
  qed (rule parts(1) parts(2) [unfolded parts(6)] parts(3) ids search)+
qed

subsection \<open>The view after a publication\<close>

lemma catalog_view_row:
  assumes "nodes_ok d" "r \<in> set (nodes_t d)"
  shows "catalog_view d (no_data_source r) (no_key r)
    = map_option (entry_at d (no_kind r)) (current_version d (no_id r))"
  by (simp add: catalog_view_def node_row_of_row [OF assms])

lemma catalog_view_none:
  "catalog_view d source_id key = None" if "\<forall>r\<in>set (nodes_t d). \<not> (no_data_source r = source_id \<and> no_key r = key)"
proof -
  have "find (\<lambda>r. no_data_source r = source_id \<and> no_key r = key) (nodes_t d) = None"
    using that by (auto simp: find_None_iff)
  then show ?thesis by (simp add: catalog_view_def node_row_of_def)
qed

lemma key_of_node_publishes:
  assumes "publication_writes p d new vs d'" "i \<in> node_ids d"
  shows "key_of_node d' i = key_of_node d i"
proof -
  have "find (\<lambda>r. no_id r = i) (nodes_t d) \<noteq> None"
    using assms(2) by (auto simp: node_ids_def find_none_key)
  then show ?thesis
    by (auto simp: key_of_node_def publication_writesD(1) [OF assms(1)] find_append split: option.splits)
qed

lemma entry_at_publishes:
  assumes inv: "catalog_inv d" and pub: "publication_writes p d new vs d'" and v: "v \<in> set (node_versions_t d)"
  shows "entry_at d' kind v = entry_at d kind v"
proof -
  have "case nv_parent v of None \<Rightarrow> True | Some i \<Rightarrow> i \<in> node_ids d"
    using inv v by (simp add: catalog_inv_def)
  then show ?thesis
    using key_of_node_publishes [OF pub] by (auto simp: entry_at_def split: option.splits)
qed

text \<open>A node that the publication gives no version shows what it showed.\<close>

lemma view_unchanged:
  assumes inv: "catalog_inv d" and pub: "publication_writes p d new vs d'" and r: "r \<in> set (nodes_t d)"
    and i: "no_id r \<notin> nv_node ` set vs"
  shows "catalog_view d' (no_data_source r) (no_key r) = catalog_view d (no_data_source r) (no_key r)"
proof -
  have ok: "nodes_ok d" using inv by (simp add: catalog_inv_def)
  have "no_id r \<in> node_ids d" using r by (simp add: node_ids_def)
  then obtain v where v: "current_version d (no_id r) = Some v" "v \<in> set (node_versions_t d)"
    using inv_current_version [OF inv] by blast
  have "r \<in> set (nodes_t d')" using r publication_writesD(1) [OF pub] by simp
  from catalog_view_row [OF publication_writesD(2) [OF pub] this] catalog_view_row [OF ok r] v
    publishes_unchanged(1) [OF inv pub i] entry_at_publishes [OF inv pub v(2)]
  show ?thesis by simp
qed

text \<open>Only nodes of the source get versions.\<close>

lemma publishes_source:
  assumes pub: "publication_writes p d new vs d'" and r: "r \<in> set (nodes_t d')" "no_id r \<in> nv_node ` set vs"
  shows "no_data_source r = pu_data_source p"
proof -
  from r(2) obtain v where v: "v \<in> set vs" "nv_node v = no_id r" by auto
  from publication_writesE(3) [OF pub v(1)] show ?thesis
  proof (elim disjE bexE)
    fix n assume n: "n \<in> set (pu_nodes p)" "active_version p (node_keys d' (pu_data_source p)) n v"
    then have "ni_key n \<in> ni_key ` set (pu_nodes p)" by simp
    then obtain s where s: "s \<in> set (nodes_t d')" "no_data_source s = pu_data_source p" "nv_node v = no_id s"
      by (rule active_version_row [OF pub n(2)])
    with v(2) r(1) have "s = r" using node_row_unique [OF publication_writesD(2) [OF pub]] by simp
    with s(2) show ?thesis by simp
  next
    fix m assume m: "m \<in> set (load_missing_current_nodes (pu_data_source p) (map ni_key (pu_nodes p)) (pu_scope p) d)"
      and eq: "v = stale_version p (nv_id v) (fst m) (snd m)"
    from m obtain s where s: "s \<in> set (nodes_t d)" "no_data_source s = pu_data_source p" "no_id s = fst m"
      using missing_members [of "fst m" "snd m"] by auto
    have "nv_node v = fst m" by (subst eq) (simp add: stale_version_def)
    with s(3) v(2) have "no_id s = no_id r" by simp
    moreover have "s \<in> set (nodes_t d')" using s(1) publication_writesD(1) [OF pub] by simp
    ultimately have "s = r" using r(1) node_row_unique [OF publication_writesD(2) [OF pub]] by simp
    with s(2) show ?thesis by simp
  qed
qed

lemma view_of_snapshot:
  assumes inv: "catalog_inv d" and pub: "publication_writes p d new vs d'" and n: "n \<in> set (pu_nodes p)"
    and ok: "publication_ok p"
  shows "catalog_view d' (pu_data_source p) (ni_key n) = Some (snapshot_entry
    (case catalog_view d (pu_data_source p) (ni_key n) of None \<Rightarrow> ni_kind n | Some e \<Rightarrow> ce_kind e) n)"
proof -
  let ?ids = "node_keys d' (pu_data_source p)"
  have ok': "nodes_ok d'" by (rule publication_writesD(2) [OF pub])
  obtain v where v: "v \<in> set vs" "active_version p ?ids n v" using publication_writesE(1) [OF pub n] by blast
  have "ni_key n \<in> ni_key ` set (pu_nodes p)" using n by simp
  then obtain r where r: "r \<in> set (nodes_t d')" "no_data_source r = pu_data_source p" "no_key r = ni_key n"
      "nv_node v = no_id r"
    by (rule active_version_row [OF pub v(2)])
  have "current_version d' (no_id r) = Some v" using publishes_current [OF pub v(1)] r(4) by simp
  with catalog_view_row [OF ok' r(1)] r(2,3)
  have view: "catalog_view d' (pu_data_source p) (ni_key n) = Some (entry_at d' (no_kind r) v)" by simp
  have kind: "no_kind r = (case catalog_view d (pu_data_source p) (ni_key n) of None \<Rightarrow> ni_kind n | Some e \<Rightarrow> ce_kind e)"
  proof (cases "r \<in> set (nodes_t d)")
    case True
    then have "no_id r \<in> node_ids d" by (simp add: node_ids_def)
    then obtain u where "current_version d (no_id r) = Some u" using inv_current_version [OF inv] by blast
    with catalog_view_row [of d r] True inv r(2,3) show ?thesis by (simp add: catalog_inv_def entry_at_def)
  next
    case False
    with r(1) publication_writesD(1) [OF pub] have new: "r \<in> set new" by simp
    then obtain m where m: "m \<in> set (pu_nodes p)" "ni_key m = ni_key n" "ni_kind m = no_kind r"
        "ni_key n \<notin> fst ` set (node_keys d (pu_data_source p))"
      using publication_writesD(3) [OF pub] r(3) by (auto simp: resolves_def)
    have "m = n" using ok m(1,2) n by (auto simp: publication_ok_def distinct_map dest: inj_onD)
    moreover have "catalog_view d (pu_data_source p) (ni_key n) = None"
      by (rule catalog_view_none) (use m(4) in \<open>auto simp: node_keys_def image_iff\<close>)
    ultimately show ?thesis using m(3) by simp
  qed
  obtain metadata where metadata: "encode_node_metadata (ni_indexes n) (ni_comment n) = Inr metadata"
      "v = snapshot_version p ?ids n (nv_id v) metadata"
    using v(2) by (auto simp: active_version_def)
  have "(case nullable_node_id ?ids (ni_parent n) of None \<Rightarrow> [] | Some i \<Rightarrow> key_of_node d' i) = ni_parent n"
  proof (cases "ni_parent n = []")
    case False
    then have "ni_parent n \<in> fst ` set ?ids"
      using ok n publication_writesD(4) [OF pub] by (auto simp: publication_ok_def)
    then obtain s where s: "s \<in> set (nodes_t d')" "no_data_source s = pu_data_source p" "no_key s = ni_parent n"
      by (rule node_keys_row)
    then show ?thesis
      using False node_id_of_row [OF ok' s(1,2)] key_of_node_row [OF ok' s(1)] by (simp add: nullable_node_id_def)
  qed (simp add: nullable_node_id_def)
  then have "entry_at d' (no_kind r) v = snapshot_entry (no_kind r) n"
    by (subst metadata(2)) (simp add: entry_at_def snapshot_entry_def snapshot_version_def metadata(1))
  with view kind show ?thesis by simp
qed

lemma view_of_others:
  assumes inv: "catalog_inv d" and pub: "publication_writes p d new vs d'" and key: "key \<notin> ni_key ` set (pu_nodes p)"
    and ok: "publication_ok p"
  shows "catalog_view d' (pu_data_source p) key = map_option (gone_entry (pu_scope p)) (catalog_view d (pu_data_source p) key)"
proof (cases "\<exists>r\<in>set (nodes_t d). no_data_source r = pu_data_source p \<and> no_key r = key")
  case False
  then have "\<forall>r\<in>set (nodes_t d'). \<not> (no_data_source r = pu_data_source p \<and> no_key r = key)"
    using publication_writesD(1,3) [OF pub] key by (auto simp: resolves_def image_iff) metis
  with False show ?thesis by (simp add: catalog_view_none)
next
  case True
  then obtain r where r: "r \<in> set (nodes_t d)" "no_data_source r = pu_data_source p" "no_key r = key" by blast
  have ok_d: "nodes_ok d" and ok': "nodes_ok d'" and r': "r \<in> set (nodes_t d')"
    using inv publication_writesD(1,2) [OF pub] r(1) by (simp_all add: catalog_inv_def)
  have "no_id r \<in> node_ids d" using r(1) by (simp add: node_ids_def)
  then obtain v where v: "current_version d (no_id r) = Some v" "v \<in> set (node_versions_t d)"
    using inv_current_version [OF inv] by blast
  have old: "catalog_view d (pu_data_source p) key = Some (entry_at d (no_kind r) v)"
    using catalog_view_row [OF ok_d r(1)] r(2,3) v(1) by simp
  let ?missing = "missing_node d (map ni_key (pu_nodes p)) (pu_scope p) r"
  let ?gone = "nv_status v = NodeActive \<and> node_within_table_scope (no_kind r) (nv_qualified v) (pu_scope p)"
  have gone: "?missing = Some v \<longleftrightarrow> ?gone" using key r(3) v(1) by (auto simp: missing_node_Some)
  show ?thesis
  proof (cases ?gone)
    case True
    with gone have "(no_id r, v) \<in> set (load_missing_current_nodes (pu_data_source p)
        (map ni_key (pu_nodes p)) (pu_scope p) d)"
      using r(1,2) by (auto simp: missing_members)
    then obtain u where u: "u \<in> set vs" "u = stale_version p (nv_id u) (no_id r) v"
      using publication_writesE(2) [OF pub] by fastforce
    have "nv_node u = no_id r" by (subst u(2)) (simp add: stale_version_def)
    then have "current_version d' (no_id r) = Some u" using publishes_current [OF pub u(1)] by simp
    then have "catalog_view d' (pu_data_source p) key = Some (entry_at d' (no_kind r) u)"
      using catalog_view_row [OF ok' r'] r(2,3) by simp
    moreover have "entry_at d' (no_kind r) u = (entry_at d' (no_kind r) v)
        \<lparr>ce_status := NodeStale, ce_metadata := stale_node_metadata (nv_metadata v)\<rparr>"
      by (subst u(2)) (simp add: entry_at_def stale_version_def)
    ultimately show ?thesis
      using old True entry_at_publishes [OF inv pub v(2)] by (simp add: gone_entry_def) (simp add: entry_at_def)
  next
    case False
    have "no_id r \<notin> nv_node ` set vs"
    proof
      assume "no_id r \<in> nv_node ` set vs"
      then obtain u where u: "u \<in> set vs" "nv_node u = no_id r" by auto
      from publication_writesE(3) [OF pub u(1)] show False
      proof (elim disjE bexE)
        fix n assume n: "n \<in> set (pu_nodes p)" "active_version p (node_keys d' (pu_data_source p)) n u"
        then have "ni_key n \<in> ni_key ` set (pu_nodes p)" by simp
        then obtain s where s: "s \<in> set (nodes_t d')" "no_key s = ni_key n" "nv_node u = no_id s"
          by (rule active_version_row [OF pub n(2)])
        have "no_id s = no_id r" by (rule trans [OF s(3) [symmetric] u(2)])
        then have "s = r" by (rule node_row_unique [OF ok' s(1) r'])
        with s(2) r(3) have "ni_key n = key" by simp
        with n(1) key show False by blast
      next
        fix m assume m: "m \<in> set (load_missing_current_nodes (pu_data_source p) (map ni_key (pu_nodes p)) (pu_scope p) d)"
          and eq: "u = stale_version p (nv_id u) (fst m) (snd m)"
        from m obtain s where s: "s \<in> set (nodes_t d)" "no_id s = fst m"
            "missing_node d (map ni_key (pu_nodes p)) (pu_scope p) s = Some (snd m)"
          using missing_members [of "fst m" "snd m"] by auto
        have "nv_node u = fst m" by (subst eq) (simp add: stale_version_def)
        then have "s = r" using node_row_unique [OF ok_d s(1) r(1)] s(2) u(2) by simp
        with s(3) False gone v(1) show False by (auto simp: missing_node_Some)
      qed
    qed
    from view_unchanged [OF inv pub r(1) this] r(2,3)
    have "catalog_view d' (pu_data_source p) key = catalog_view d (pu_data_source p) key" by simp
    moreover have "ce_status (entry_at d (no_kind r) v) = nv_status v" "ce_kind (entry_at d (no_kind r) v) = no_kind r"
      "ce_qualified (entry_at d (no_kind r) v) = nv_qualified v"
      by (simp_all add: entry_at_def)
    then have "gone_entry (pu_scope p) (entry_at d (no_kind r) v) = entry_at d (no_kind r) v"
      using False by (simp only: gone_entry_def if_False)
    ultimately show ?thesis using old by simp
  qed
qed

theorem publishes_view:
  assumes inv: "catalog_inv d" and pub: "publication_writes p d new vs d'" and ok: "publication_ok p"
  shows "catalog_view d' (pu_data_source p) = publish_view (pu_nodes p) (pu_scope p) (catalog_view d (pu_data_source p))"
    and "source_id \<noteq> pu_data_source p \<Longrightarrow> catalog_view d' source_id = catalog_view d source_id"
proof -
  show "catalog_view d' (pu_data_source p) = publish_view (pu_nodes p) (pu_scope p) (catalog_view d (pu_data_source p))"
  proof
    fix key
    show "catalog_view d' (pu_data_source p) key = publish_view (pu_nodes p) (pu_scope p) (catalog_view d (pu_data_source p)) key"
    proof (cases "find (\<lambda>n. ni_key n = key) (pu_nodes p)")
      case None
      then have "key \<notin> ni_key ` set (pu_nodes p)" by (auto simp: find_None_iff)
      from view_of_others [OF inv pub this ok] None show ?thesis by (simp add: publish_view_def)
    next
      case (Some n)
      then have n: "n \<in> set (pu_nodes p)" "ni_key n = key" by (auto dest: find_some_in)
      from view_of_snapshot [OF inv pub n(1) ok] n(2) Some show ?thesis by (simp add: publish_view_def)
    qed
  qed
  assume other: "source_id \<noteq> pu_data_source p"
  show "catalog_view d' source_id = catalog_view d source_id"
  proof
    fix key
    show "catalog_view d' source_id key = catalog_view d source_id key"
    proof (cases "\<exists>r\<in>set (nodes_t d). no_data_source r = source_id \<and> no_key r = key")
      case True
      then obtain r where r: "r \<in> set (nodes_t d)" "no_data_source r = source_id" "no_key r = key" by blast
      then have "r \<in> set (nodes_t d')" using publication_writesD(1) [OF pub] by simp
      with publishes_source [OF pub this] other r(2) view_unchanged [OF inv pub r(1)] r(3) show ?thesis by auto
    next
      case False
      then have "\<forall>r\<in>set (nodes_t d'). \<not> (no_data_source r = source_id \<and> no_key r = key)"
        using publication_writesD(1,3) [OF pub] other by (auto simp: resolves_def)
      with False show ?thesis by (simp add: catalog_view_none)
    qed
  qed
qed

subsection \<open>The rest of a publication leaves the nodes alone\<close>

definition node_tables ::
  "catalog_db \<Rightarrow> node_row list \<times> node_version_row list \<times> node_current_row list \<times> node_search_row list" where
  "node_tables d = (nodes_t d, node_versions_t d, node_current_t d, node_search_t d)"

lemma node_tables_cong:
  assumes "node_tables d = node_tables d'"
  shows "catalog_inv d = catalog_inv d'" and "catalog_view d = catalog_view d'"
proof -
  have tables: "nodes_t d = nodes_t d'" "node_versions_t d = node_versions_t d'"
    "node_current_t d = node_current_t d'" "node_search_t d = node_search_t d'"
    using assms by (simp_all add: node_tables_def)
  have "find_node_version d i = find_node_version d' i" for i
    by (simp add: find_node_version_def tables)
  then have current: "current_version d i = current_version d' i" for i
    by (simp add: current_version_def tables split: option.split)
  have same: "node_ids d = node_ids d'" "nodes_ok d = nodes_ok d'" "searches_of d i = searches_of d' i" for i
    by (simp_all add: node_ids_def nodes_ok_def searches_of_def tables)
  show "catalog_inv d = catalog_inv d'"
    unfolding catalog_inv_def current tables same ..
  have "key_of_node d = key_of_node d'" by (intro ext) (simp add: key_of_node_def tables)
  then have "entry_at d = entry_at d'" by (intro ext) (simp only: entry_at_def)
  then show "catalog_view d = catalog_view d'"
    by (intro ext) (simp only: catalog_view_def node_row_of_def current tables)
qed

named_theorems node_frames \<open>steps of a publication that keep the nodes\<close>

lemma write_tables_nodes:
  assumes "write_tables f w = (Inr u, w')" "\<And>d d'. f d = Inr d' \<Longrightarrow> node_tables d' = node_tables d"
  shows "node_tables (fst w') = node_tables (fst w)"
  using assms by (auto simp: write_tables_Inr)

lemma catalog_relations_nodes [node_frames]: "catalog_relations f d = Inr d' \<Longrightarrow> node_tables d' = node_tables d"
  by (auto simp: catalog_relations_Inr node_tables_def)

lemma declared_rows_nodes [node_frames]:
  "insert_declared_row ck row d = Inr d' \<Longrightarrow> node_tables d' = node_tables d"
  "update_declared_row ck i key change d = Inr d' \<Longrightarrow> node_tables d' = node_tables d"
  "insert_scan_key ck k d = Inr d' \<Longrightarrow> node_tables d' = node_tables d"
  "insert_scan_run ck i j t d = Inr d' \<Longrightarrow> node_tables d' = node_tables d"
  "complete_scan_run ck p n d = Inr d' \<Longrightarrow> node_tables d' = node_tables d"
  by (auto simp: insert_declared_row_def update_declared_row_def insert_scan_key_def insert_scan_run_def
      complete_scan_run_def Let_def catalog_exec_Inr node_tables_def)

lemma next_four_ids_tables: "next_four_ids ck w = (Inr x, w') \<Longrightarrow> fst w' = fst w"
  by (auto simp: next_four_ids_def act_bind_Inr act_pure_Inr dest!: catalog_id_tables)

lemma declared_keys_nodes [node_frames]:
  "insert_declared_foreign_key ck p key s t k w = (Inr i, w') \<Longrightarrow> node_tables (fst w') = node_tables (fst w)"
  "reactivate_declared_foreign_key ck p i key s t k w = (Inr u, w') \<Longrightarrow> node_tables (fst w') = node_tables (fst w)"
  "remove_declared_foreign_key ck p i key w = (Inr u, w') \<Longrightarrow> node_tables (fst w') = node_tables (fst w)"
  by (auto simp: insert_declared_foreign_key_def reactivate_declared_foreign_key_def remove_declared_foreign_key_def
      act_bind_Inr act_pure_Inr query_Inr Let_def write_tables_Inr catalog_relations_Inr node_tables_def
      split: if_splits option.splits dest!: next_four_ids_tables)

lemma reconcile_key_nodes [node_frames]:
  "reconcile_declared_key ck p names ms k u w = (Inr u', w') \<Longrightarrow> node_tables (fst w') = node_tables (fst w)"
  "mark_absent_key ck p m u w = (Inr u', w') \<Longrightarrow> node_tables (fst w') = node_tables (fst w)"
  by (auto simp: reconcile_declared_key_def ensure_declared_key_def mark_absent_key_def act_bind_Inr act_pure_Inr
      Let_def write_tables_Inr split: if_splits option.splits dest!: node_frames)

lemma reconcile_declared_nodes [node_frames]:
  assumes "reconcile_declared_foreign_keys ck p ids w = (Inr u, w')"
  shows "node_tables (fst w') = node_tables (fst w)"
proof -
  let ?P = "\<lambda>d. node_tables d = node_tables (fst w)"
  from assms obtain ms names seen v where
    1: "act_fold (reconcile_declared_key ck p names ms) (pu_keys p) () w = (Inr (), v)" and
    2: "act_fold (mark_absent_key ck p) (filter (absent_key p seen) ms) () v = (Inr (), w')"
    by (auto simp: reconcile_declared_foreign_keys_def act_bind_Inr query_Inr Let_def)
  have "?P (fst v)"
    by (rule act_fold_invariant [OF 1, where P = ?P]) (simp_all add: node_frames)
  then show ?thesis
    by (rule act_fold_invariant [OF 2, where P = ?P]) (simp add: node_frames)
qed

end
