(* ===== verification/DeclaredEffects.thy ===== *)
theory DeclaredEffects
  imports CatalogInvariant
begin

section \<open>Declared keys keep the relation tables in order\<close>

text \<open>
  The three operations on the relation of a declared key, as single updates of the relation
  tables, and their preservation of the invariant of those tables.
\<close>

text \<open>The principal that the scanner writes as.\<close>

definition scanner :: principal where
  "scanner = \<lparr>pr_actor = declared_foreign_key_actor, pr_role = RoleViewer, pr_origin = OriginSystem\<rparr>"

lemma declared_event_Inr:
  "declared_event eng i rel v t reason req ex now d = Inr d' \<Longrightarrow>
     d' = d\<lparr>events_t := events_t d @ [event_row_of i rel v t scanner reason req ex now]\<rparr>"
  using insert_relation_event_Inr [of eng i rel v t scanner reason req ex now d d']
  by (simp add: declared_event_def scanner_def)

lemma declared_audit_Inr:
  "declared_audit eng i rel action reason req ex n now d = Inr d' \<Longrightarrow>
     d' = d\<lparr>audit_t := audit_t d @ [audit_row_of i rel action scanner reason req ex n now]\<rparr>
     \<and> i \<notin> set (map ar_id (audit_t d))"
  using insert_relation_audit_Inr [of eng i rel action scanner reason req ex n now d d']
  by (simp add: declared_audit_def scanner_def)

lemma own_edge_shows:
  assumes "row_encodes cd p row" "edge_publishes cd i t (p_revision p) now e"
    and "rv_id (p_revision p) = p_version_id p"
  shows "edge_shows (with_version p row d) (p_version_id p) e"
  using assms
  by (auto simp: row_encodes_def edge_publishes_def edge_shows_def frame_simps)

text \<open>A new version together with its current row and the edges.\<close>

lemma inv_replace:
  assumes inv: "store_inv cd d" and enc: "row_encodes cd p row" and fresh: "fresh_version d p"
    and t: "d' = with_edges i es (updated_tables i f evs au (with_version p row d))"
    and rel: "rv_relation_id (p_revision p) = i" "rv_revision_no (p_revision p) = cr_latest c + 1"
    and c: "find_current d i = Some c" "ar_id au \<notin> set (map ar_id (audit_t d))"
    and f: "\<And>x. cr_relation (f x) = cr_relation x" "cr_latest (f c) = cr_latest c + 1"
    and pc: "pair_check (with_version p row d) (f c)"
    and es: "if cr_status (f c) = StatusApproved
      then \<exists>e v. es = [e] \<and> ee_relation e = i \<and> cr_active (f c) = Some v \<and> edge_shows (with_version p row d) v e
      else es = []"
  shows "store_inv cd d'"
proof -
  let ?e = "with_version p row d"
  note keys = row_encodes_keys [OF enc]
  have own: "\<forall>e\<in>set es. ee_relation e = i" using es by (auto split: if_splits)
  have i: "cr_relation c = i" by (rule find_current_relation [OF c(1)])
  have i_in: "i \<in> set (relation_ids d)"
    using find_current_in [OF c(1)] i inv unfolding store_inv_def by (metis image_eqI set_map)
  have tables: "relations_t d' = relations_t d" "versions_t d' = versions_t ?e" "stale_t d' = stale_t ?e"
    "endpoints_t d' = endpoints_t ?e"
    by (simp_all add: t frame_simps)
  have versions: "versions_ok cd d'"
    using store_inv_versions_ok [OF inv] enc fresh rel(1) i_in
    by (intro versions_ok_with_version [of cd d p row d' "[]"]) (simp_all add: t relation_ids_def frame_simps)
  have edges: "edges_of d' j = (if j = i then es else edges_of ?e j)" for j
    using own by (simp add: t edges_of_with_edges edges_of_updated)
  have old_edges: "edges_of ?e j = edges_of d j" for j by (simp add: edges_of_def frame_simps)
  have shows_same: "edge_shows d' v e = edge_shows ?e v e" for v e by (simp add: edge_shows_def tables)
  have check: "pair_check d' x = pair_check ?e x" for x by (rule pair_check_cong) (simp_all add: tables)
  have "revisions_of d' i = insert (cr_latest c + 1) (revisions_of d i)"
    using keys rel by (force simp: revisions_of_def tables frame_simps)
  then have "revisions_of d' i = {1..cr_latest c + 1}"
    using store_inv_row [OF inv c(1)] i by (auto simp: row_ok_def)
  then have this_row: "row_ok d' (f c)"
    using store_inv_row [OF inv c(1)] i f pc es
    by (auto simp: row_ok_def check edges shows_same split: if_splits)
  show ?thesis
  proof (rule inv_update [OF inv f(1), where i = i and au = au])
    show "row_ok d' x" if "x \<in> set (current_t d)" "cr_relation x \<noteq> i" for x
    proof -
      have "row_ok ?e x"
        by (rule row_ok_with_version [OF _ fresh]) (use that inv keys rel in \<open>simp_all add: store_inv_def\<close>)
      moreover have "row_ok d' x = row_ok ?e x"
        by (rule row_ok_cong) (use that in \<open>simp_all add: tables edges\<close>)
      ultimately show ?thesis by simp
    qed
    show "\<forall>e\<in>set (effective_t d'). ee_relation e \<in> set (relation_ids d)"
      using inv own i_in by (auto simp: t frame_simps store_inv_def)
  qed (use t c this_row versions in \<open>simp_all add: frame_simps\<close>)
qed

subsection \<open>A new key\<close>

definition declared_current :: "int \<Rightarrow> int \<Rightarrow> int \<Rightarrow> current_row" where
  "declared_current relation_id version_id t =
     \<lparr>cr_relation = relation_id, cr_latest = 1, cr_active = Some version_id, cr_proposed = None,
      cr_status = StatusApproved, cr_updated_at = t\<rparr>"

lemma insert_declared_effect:
  assumes "insert_declared_statements cd eng p key req event_id audit_id d = Inr d'"
  shows "\<exists>row e evs au. d' = (with_version p row d)
      \<lparr>relations_t := relations_t d @ [\<lparr>rr_id = p_relation_id p, rr_type = TypeDeclaredForeignKey,
         rr_fingerprint = key, rr_created_at = rv_created_at (p_revision p)\<rparr>],
       events_t := events_t d @ evs,
       current_t := current_t d @ [declared_current (p_relation_id p) (p_version_id p) (rv_created_at (p_revision p))],
       effective_t := effective_t d @ [e], audit_t := audit_t d @ [au]\<rparr>
    \<and> row_encodes cd p row \<and> fresh_version d p
    \<and> edge_publishes cd (p_relation_id p) TypeDeclaredForeignKey (p_revision p) (rv_created_at (p_revision p)) e
    \<and> ar_id au \<notin> set (map ar_id (audit_t d))
    \<and> p_relation_id p \<notin> set (relation_ids d) \<and> key \<notin> set (map rr_fingerprint (relations_t d))
    \<and> pair_check (with_version p row d)
        (declared_current (p_relation_id p) (p_version_id p) (rv_created_at (p_revision p)))
    \<and> verify_relation_nodes d (p_revision p) (p_references p) = Inr ()"
proof -
  let ?rv = "p_revision p" and ?i = "p_relation_id p"
  let ?now = "rv_created_at ?rv" and ?reason = "''Declared foreign key observed in schema snapshot.''"
  let ?rel = "\<lparr>rr_id = ?i, rr_type = TypeDeclaredForeignKey, rr_fingerprint = key, rr_created_at = ?now\<rparr>"
  let ?c = "declared_current ?i (p_version_id p) ?now"
  from assms obtain d1 d2 d3 d4 d5 where
    0: "verify_relation_nodes d ?rv (p_references p) = Inr ()" and
    1: "insert_relation_row eng ?rel d = Inr d1" and
    2: "insert_relation_version cd eng p d1 = Inr d2" and
    3: "declared_event eng event_id ?i (p_version_id p) EventApproved ?reason req None ?now d2 = Inr d3" and
    4: "insert_current_row eng ?c d3 = Inr d4" and
    5: "insert_effective_edge cd eng ?i TypeDeclaredForeignKey ?rv ?now d4 = Inr d5" and
    6: "declared_audit eng audit_id ?i ''DECLARED_FOREIGN_KEY_PUBLISHED'' ?reason req None 1 ?now d5 = Inr d'"
    unfolding insert_declared_statements_def Let_def declared_current_def by (auto simp: sbind_eq_Inr)
  have d1: "d1 = d\<lparr>relations_t := relations_t d @ [?rel]\<rparr>" "?i \<notin> set (relation_ids d)"
    "key \<notin> set (map rr_fingerprint (relations_t d))"
    using 1 by (auto simp: insert_relation_row_def exec_Inr relation_ids_def)
  obtain row where d2: "d2 = with_version p row d1" "row_encodes cd p row" "fresh_version d1 p"
    using insert_relation_version_effect [OF 2] by blast
  note d3 = declared_event_Inr [OF 3]
  have d4: "d4 = d3\<lparr>current_t := current_t d3 @ [?c]\<rparr>" "pair_check d3 ?c"
    using 4 by (auto simp: insert_current_row_def exec_Inr)
  obtain e where d5: "d5 = d4\<lparr>effective_t := effective_t d4 @ [e]\<rparr>"
      "edge_publishes cd ?i TypeDeclaredForeignKey ?rv ?now e"
    using insert_effective_edge_Inr [OF 5] by blast
  note d6 = declared_audit_Inr [OF 6]
  show ?thesis
    using 0 d1 d2 d3 d4 d5 d6
    by (intro exI [of _ row] exI [of _ e]
        exI [of _ "[event_row_of event_id ?i (p_version_id p) EventApproved scanner ?reason req None ?now]"]
        exI [of _ "audit_row_of audit_id ?i ''DECLARED_FOREIGN_KEY_PUBLISHED'' scanner ?reason req None 1 ?now"])
      (simp add: with_version_relations frame_simps)
qed

lemma inv_insert_declared:
  assumes inv: "store_inv cd d" and op: "insert_declared_statements cd eng p key req event_id audit_id d = Inr d'"
    and own: "rv_relation_id (p_revision p) = p_relation_id p" "rv_revision_no (p_revision p) = 1"
      "rv_id (p_revision p) = p_version_id p"
  shows "store_inv cd d'"
proof -
  let ?i = "p_relation_id p" let ?c = "declared_current ?i (p_version_id p) (rv_created_at (p_revision p))"
  obtain row e evs au where
    t: "d' = (with_version p row d)
      \<lparr>relations_t := relations_t d @ [\<lparr>rr_id = ?i, rr_type = TypeDeclaredForeignKey,
         rr_fingerprint = key, rr_created_at = rv_created_at (p_revision p)\<rparr>],
       events_t := events_t d @ evs, current_t := current_t d @ [?c],
       effective_t := effective_t d @ [e], audit_t := audit_t d @ [au]\<rparr>" and
    e: "row_encodes cd p row" "fresh_version d p"
      "edge_publishes cd ?i TypeDeclaredForeignKey (p_revision p) (rv_created_at (p_revision p)) e"
      "ar_id au \<notin> set (map ar_id (audit_t d))" "?i \<notin> set (relation_ids d)"
      "key \<notin> set (map rr_fingerprint (relations_t d))" "pair_check (with_version p row d) ?c"
    using insert_declared_effect [OF op] by (elim exE conjE) (rule that, assumption+)
  note keys = row_encodes_keys [OF e(1)]
  have tables: "versions_t d' = versions_t (with_version p row d)" "stale_t d' = stale_t (with_version p row d)"
    "endpoints_t d' = endpoints_t (with_version p row d)" "effective_t d' = effective_t d @ [e]"
    "current_t d' = current_t d @ [?c]" "audit_t d' = audit_t d @ [au]"
    "relations_t d' = relations_t d @ [\<lparr>rr_id = ?i, rr_type = TypeDeclaredForeignKey,
         rr_fingerprint = key, rr_created_at = rv_created_at (p_revision p)\<rparr>]"
    by (simp_all add: t)
  have ids: "relation_ids d' = relation_ids d @ [?i]" by (simp add: relation_ids_def tables)
  have none: "vr_relation_id v \<noteq> ?i" if "v \<in> set (versions_t d)" for v
    using inv that e(5) by (auto simp: store_inv_def)
  have versions: "versions_ok cd d'"
    using store_inv_versions_ok [OF inv] e(1,2) tables(1,2,7) ids own
    by (intro versions_ok_with_version [of cd d p row d'
          "[\<lparr>rr_id = ?i, rr_type = TypeDeclaredForeignKey, rr_fingerprint = key,
             rr_created_at = rv_created_at (p_revision p)\<rparr>]"]) (simp_all add: frame_simps)
  have edge: "ee_relation e = ?i" using e(3) by (simp add: edge_publishes_def)
  have no_edges: "edges_of d ?i = []" using inv e(5) by (auto simp: store_inv_def edges_of_def filter_empty_conv)
  have edges: "edges_of d' j = (if j = ?i then [e] else edges_of (with_version p row d) j)" for j
    using edge no_edges by (auto simp: edges_of_def tables frame_simps)
  have old: "row_ok d' x" if x: "x \<in> set (current_t d)" for x
  proof -
    have "cr_relation x \<in> set (relation_ids d)"
      using x inv unfolding store_inv_def by (metis image_eqI set_map)
    with e(5) have other: "cr_relation x \<noteq> ?i" by auto
    have "row_ok (with_version p row d) x"
      by (rule row_ok_with_version [OF _ e(2)]) (use inv x keys own other in \<open>simp_all add: store_inv_def\<close>)
    moreover have "row_ok d' x = row_ok (with_version p row d) x"
      by (rule row_ok_cong) (simp_all add: tables edges other)
    ultimately show ?thesis by simp
  qed
  have "revisions_of d' ?i = {1}"
    using none keys own by (auto simp: revisions_of_def tables frame_simps)
  moreover have "pair_check d' ?c = pair_check (with_version p row d) ?c"
    by (rule pair_check_cong) (simp_all add: tables)
  moreover have "edge_shows d' (p_version_id p) e"
    using own_edge_shows [OF e(1,3) own(3)] by (simp add: edge_shows_def tables)
  ultimately have new: "row_ok d' ?c"
    using e(7) edges by (auto simp: row_ok_def declared_current_def)
  show ?thesis
    using inv old new versions ids e(4-6) edge
    unfolding store_inv_def versions_ok_def by (auto simp: tables declared_current_def)
qed

subsection \<open>A key that returns or goes\<close>

definition superseded_row :: "revision \<Rightarrow> relation_status \<Rightarrow> int \<Rightarrow> current_row \<Rightarrow> current_row" where
  "superseded_row rv status t c =
     c\<lparr>cr_latest := rv_revision_no rv, cr_active := Some (rv_id rv), cr_proposed := None,
       cr_status := status, cr_updated_at := t\<rparr>"

lemma supersede_effect:
  assumes "supersede_declared eng current a b rv t status reason req now d = Inr d'"
    and c: "find_current d (r_id current) = Some c"
  shows "\<exists>evs. d' = d\<lparr>events_t := events_t d @ evs,
      current_t := map (\<lambda>x. if cr_relation x = r_id current then superseded_row rv status now x else x) (current_t d)\<rparr>
    \<and> pair_check d (superseded_row rv status now c)"
proof -
  from assms(1) obtain d1 d2 v where
    1: "declared_event eng a (r_id current) (rv_id rv) t reason req (Some (r_latest current)) now d = Inr d1" and
    2: "declared_event eng b (r_id current) v EventSuperseded reason req (Some (r_latest current)) now d1 = Inr d2" and
    3: "update_current eng (r_id current) (superseded_row rv status now) d2 = Inr d'"
    unfolding supersede_declared_def superseded_row_def Let_def by (auto simp: sbind_eq_Inr)
  note d1 = declared_event_Inr [OF 1] and d2 = declared_event_Inr [OF 2]
  have "find_current d2 (r_id current) = Some c" using c d1 d2 by (simp add: frame_simps)
  note d' = update_current_Inr [OF 3 this]
  show ?thesis
    using d1 d2 d'(1,2)
    by (intro exI [of _ "[event_row_of a (r_id current) (rv_id rv) t scanner reason req (Some (r_latest current)) now,
        event_row_of b (r_id current) v EventSuperseded scanner reason req (Some (r_latest current)) now]"])
      (simp add: frame_simps)
qed

lemma reactivate_effect:
  assumes "reactivate_statements cd eng current p req a b audit_id d = Inr d'"
    and c: "find_current d (r_id current) = Some c"
  shows "\<exists>row e evs au.
      d' = (updated_tables (r_id current) (superseded_row (p_revision p) StatusApproved (rv_created_at (p_revision p)))
        evs au (with_version p row d))\<lparr>effective_t := effective_t d @ [e]\<rparr>
    \<and> row_encodes cd p row \<and> fresh_version d p
    \<and> edge_publishes cd (r_id current) TypeDeclaredForeignKey (p_revision p) (rv_created_at (p_revision p)) e
    \<and> r_id current \<notin> set (map ee_relation (effective_t d))
    \<and> ar_id au \<notin> set (map ar_id (audit_t d))
    \<and> pair_check (with_version p row d) (superseded_row (p_revision p) StatusApproved (rv_created_at (p_revision p)) c)"
proof -
  let ?rv = "p_revision p" let ?now = "rv_created_at ?rv"
  let ?reason = "''Declared foreign key reappeared in schema snapshot.''"
  from assms(1) obtain d1 d2 d3 where
    1: "insert_relation_version cd eng p d = Inr d1" and
    2: "supersede_declared eng current a b ?rv EventApproved StatusApproved ?reason req ?now d1 = Inr d2" and
    3: "insert_effective_edge cd eng (r_id current) TypeDeclaredForeignKey ?rv ?now d2 = Inr d3" and
    4: "declared_audit eng audit_id (r_id current) ''DECLARED_FOREIGN_KEY_RESTORED'' ?reason req
      (Some (r_latest current)) (rv_revision_no ?rv) ?now d3 = Inr d'"
    unfolding reactivate_statements_def Let_def by (auto simp: sbind_eq_Inr)
  obtain row where d1: "d1 = with_version p row d" "row_encodes cd p row" "fresh_version d p"
    using insert_relation_version_effect [OF 1] by blast
  have "find_current d1 (r_id current) = Some c" using c by (simp add: d1 frame_simps)
  then obtain evs where d2: "d2 = d1\<lparr>events_t := events_t d1 @ evs, current_t := map (\<lambda>x. if cr_relation x = r_id current
        then superseded_row ?rv StatusApproved ?now x else x) (current_t d1)\<rparr>"
      "pair_check d1 (superseded_row ?rv StatusApproved ?now c)"
    using supersede_effect [OF 2] by blast
  obtain e where d3: "d3 = d2\<lparr>effective_t := effective_t d2 @ [e]\<rparr>"
      "edge_publishes cd (r_id current) TypeDeclaredForeignKey ?rv ?now e"
      "r_id current \<notin> set (map ee_relation (effective_t d2))"
    using insert_effective_edge_Inr [OF 3] by blast
  note d4 = declared_audit_Inr [OF 4]
  show ?thesis
    using d1 d2 d3 d4
    by (intro exI [of _ row] exI [of _ e] exI [of _ evs]
        exI [of _ "audit_row_of audit_id (r_id current) ''DECLARED_FOREIGN_KEY_RESTORED'' scanner ?reason req
          (Some (r_latest current)) (rv_revision_no ?rv) ?now"])
      (simp add: updated_tables_def frame_simps)
qed

lemma remove_effect:
  assumes "remove_statements cd eng current p a b audit_id d = Inr d'"
    and c: "find_current d (r_id current) = Some c"
  shows "\<exists>row evs au.
      d' = with_edges (r_id current) []
        (updated_tables (r_id current) (superseded_row (p_revision p) StatusTombstoned (rv_created_at (p_revision p)))
          evs au (with_version p row d))
    \<and> row_encodes cd p row \<and> fresh_version d p
    \<and> ar_id au \<notin> set (map ar_id (audit_t d))
    \<and> pair_check (with_version p row d) (superseded_row (p_revision p) StatusTombstoned (rv_created_at (p_revision p)) c)"
proof -
  let ?rv = "p_revision p" let ?now = "rv_created_at ?rv"
  from assms(1) obtain d1 d2 d3 where
    1: "insert_relation_version cd eng p d = Inr d1" and
    2: "supersede_declared eng current a b ?rv EventTombstoned StatusTombstoned (rv_reason ?rv) (rv_request_id ?rv)
      ?now d1 = Inr d2" and
    3: "delete_effective eng (r_id current) d2 = Inr d3" and
    4: "declared_audit eng audit_id (r_id current) ''DECLARED_FOREIGN_KEY_TOMBSTONED'' (rv_reason ?rv)
      (rv_request_id ?rv) (Some (r_latest current)) (rv_revision_no ?rv) ?now d3 = Inr d'"
    unfolding remove_statements_def Let_def by (auto simp: sbind_eq_Inr)
  obtain row where d1: "d1 = with_version p row d" "row_encodes cd p row" "fresh_version d p"
    using insert_relation_version_effect [OF 1] by blast
  have "find_current d1 (r_id current) = Some c" using c by (simp add: d1 frame_simps)
  then obtain evs where d2: "d2 = d1\<lparr>events_t := events_t d1 @ evs, current_t := map (\<lambda>x. if cr_relation x = r_id current
        then superseded_row ?rv StatusTombstoned ?now x else x) (current_t d1)\<rparr>"
      "pair_check d1 (superseded_row ?rv StatusTombstoned ?now c)"
    using supersede_effect [OF 2] by blast
  note d3 = delete_effective_Inr [OF 3] and d4 = declared_audit_Inr [OF 4]
  show ?thesis
    using d1 d2 d3 d4
    by (intro exI [of _ row] exI [of _ evs]
        exI [of _ "audit_row_of audit_id (r_id current) ''DECLARED_FOREIGN_KEY_TOMBSTONED'' scanner (rv_reason ?rv)
          (rv_request_id ?rv) (Some (r_latest current)) (rv_revision_no ?rv) ?now"])
      (simp add: updated_tables_def with_edges_def frame_simps)
qed

lemma inv_reactivate:
  assumes inv: "store_inv cd d" and op: "reactivate_statements cd eng current p req a b audit_id d = Inr d'"
    and c: "find_current d (r_id current) = Some c"
    and own: "rv_relation_id (p_revision p) = r_id current" "rv_revision_no (p_revision p) = cr_latest c + 1"
      "rv_id (p_revision p) = p_version_id p"
  shows "store_inv cd d'"
proof -
  let ?i = "r_id current" and ?f = "superseded_row (p_revision p) StatusApproved (rv_created_at (p_revision p))"
  obtain row e evs au where
    t: "d' = (updated_tables ?i ?f evs au (with_version p row d))\<lparr>effective_t := effective_t d @ [e]\<rparr>" and
    e: "row_encodes cd p row" "fresh_version d p"
      "edge_publishes cd ?i TypeDeclaredForeignKey (p_revision p) (rv_created_at (p_revision p)) e"
      "?i \<notin> set (map ee_relation (effective_t d))" "ar_id au \<notin> set (map ar_id (audit_t d))"
      "pair_check (with_version p row d) (?f c)"
    using reactivate_effect [OF op c] by (elim exE conjE) (rule that, assumption+)
  have "filter (\<lambda>e. ee_relation e \<noteq> ?i) (effective_t d) = effective_t d"
    using e(4) by (simp add: filter_id_conv image_iff) metis
  then have t': "d' = with_edges ?i [e] (updated_tables ?i ?f evs au (with_version p row d))"
    by (simp add: t with_edges_def frame_simps)
  have "edge_shows (with_version p row d) (p_version_id p) e" by (rule own_edge_shows [OF e(1,3) own(3)])
  then show ?thesis
    using e(3,6) own
    by (intro inv_replace [OF inv e(1,2) t' own(1,2) c e(5)]) (simp_all add: superseded_row_def edge_publishes_def)
qed

lemma inv_remove:
  assumes inv: "store_inv cd d" and op: "remove_statements cd eng current p a b audit_id d = Inr d'"
    and c: "find_current d (r_id current) = Some c"
    and own: "rv_relation_id (p_revision p) = r_id current" "rv_revision_no (p_revision p) = cr_latest c + 1"
  shows "store_inv cd d'"
proof -
  let ?i = "r_id current" and ?f = "superseded_row (p_revision p) StatusTombstoned (rv_created_at (p_revision p))"
  obtain row evs au where
    t: "d' = with_edges ?i [] (updated_tables ?i ?f evs au (with_version p row d))" and
    e: "row_encodes cd p row" "fresh_version d p" "ar_id au \<notin> set (map ar_id (audit_t d))"
      "pair_check (with_version p row d) (?f c)"
    using remove_effect [OF op c] by (elim exE conjE) (rule that, assumption+)
  show ?thesis
    using e(4) own by (intro inv_replace [OF inv e(1,2) t own c e(3)]) (simp_all add: superseded_row_def)
qed

subsection \<open>The state of the relation of a key\<close>

text \<open>The type of a relation, its proposal and its status.\<close>

definition declared_state :: "db \<Rightarrow> int \<Rightarrow> relation_type option \<times> (int option \<times> relation_status) option" where
  "declared_state d i =
     (map_option rr_type (find_relation d i), map_option (\<lambda>c. (cr_proposed c, cr_status c)) (find_current d i))"

lemma declared_state_update:
  assumes "relations_t d' = relations_t d"
    and "current_t d' = map (\<lambda>x. if cr_relation x = i then f x else x) (current_t d)"
    and "\<And>x. cr_relation (f x) = cr_relation x" "find_current d i = Some c"
  shows "declared_state d' = (declared_state d)(i := (fst (declared_state d i), Some (cr_proposed (f c), cr_status (f c))))"
proof
  fix j
  have "find_current d' j = (if i = j then map_option f (find_current d j) else find_current d j)"
    using find_map_update [of cr_relation f j i "current_t d"] assms(2,3) by (simp add: find_current_def)
  then show "declared_state d' j
    = ((declared_state d)(i := (fst (declared_state d i), Some (cr_proposed (f c), cr_status (f c))))) j"
    using assms(1,4) by (auto simp: declared_state_def find_relation_def)
qed

lemma reactivate_state:
  assumes "reactivate_statements cd eng current p req a b audit_id d = Inr d'"
    and c: "find_current d (r_id current) = Some c"
  shows "declared_state d' = (declared_state d)(r_id current := (fst (declared_state d (r_id current)), Some (None, StatusApproved)))"
proof -
  obtain row e evs au where t: "d' = (updated_tables (r_id current)
      (superseded_row (p_revision p) StatusApproved (rv_created_at (p_revision p))) evs au (with_version p row d))
      \<lparr>effective_t := effective_t d @ [e]\<rparr>"
    using reactivate_effect [OF assms] by (elim exE conjE) (rule that)
  show ?thesis
    using declared_state_update [of d' d "r_id current" "superseded_row (p_revision p) StatusApproved (rv_created_at (p_revision p))" c] c
    by (simp add: t frame_simps superseded_row_def)
qed

lemma remove_state:
  assumes "remove_statements cd eng current p a b audit_id d = Inr d'"
    and c: "find_current d (r_id current) = Some c"
  shows "declared_state d' = (declared_state d)(r_id current := (fst (declared_state d (r_id current)), Some (None, StatusTombstoned)))"
proof -
  obtain row evs au where t: "d' = with_edges (r_id current) [] (updated_tables (r_id current)
      (superseded_row (p_revision p) StatusTombstoned (rv_created_at (p_revision p))) evs au (with_version p row d))"
    using remove_effect [OF assms] by (elim exE conjE) (rule that)
  show ?thesis
    using declared_state_update [of d' d "r_id current" "superseded_row (p_revision p) StatusTombstoned (rv_created_at (p_revision p))" c] c
    by (simp add: t frame_simps superseded_row_def)
qed

lemma insert_declared_state:
  assumes "insert_declared_statements cd eng p key req event_id audit_id d = Inr d'" "store_inv cd d"
  shows "declared_state d (p_relation_id p) = (None, None)"
    and "declared_state d' = (declared_state d)(p_relation_id p := (Some TypeDeclaredForeignKey, Some (None, StatusApproved)))"
proof -
  let ?i = "p_relation_id p" let ?t = "rv_created_at (p_revision p)"
  let ?rel = "\<lparr>rr_id = ?i, rr_type = TypeDeclaredForeignKey, rr_fingerprint = key, rr_created_at = ?t\<rparr>"
  obtain row e evs au where
    t: "d' = (with_version p row d)\<lparr>relations_t := relations_t d @ [?rel], events_t := events_t d @ evs,
       current_t := current_t d @ [declared_current ?i (p_version_id p) ?t],
       effective_t := effective_t d @ [e], audit_t := audit_t d @ [au]\<rparr>" and
    fresh: "?i \<notin> set (relation_ids d)"
    using insert_declared_effect [OF assms(1)] by (elim exE conjE) (rule that)
  have "?i \<notin> set (map cr_relation (current_t d))" "?i \<notin> set (map rr_id (relations_t d))"
    using assms(2) fresh by (simp_all add: store_inv_def relation_ids_def)
  then have none: "find_current d ?i = None" "find_relation d ?i = None"
    by (simp_all only: find_current_def find_relation_def find_none_key not_False_eq_True)
  then show "declared_state d ?i = (None, None)" by (simp add: declared_state_def)
  have tables: "relations_t d' = relations_t d @ [?rel]"
    "current_t d' = current_t d @ [declared_current ?i (p_version_id p) ?t]"
    by (simp_all add: t)
  have current: "find_current d' j = (if j = ?i then Some (declared_current ?i (p_version_id p) ?t) else find_current d j)"
    and relation: "find_relation d' j = (if j = ?i then Some ?rel else find_relation d j)" for j
    using none
    by (auto simp: find_current_def find_relation_def tables find_append declared_current_def split: option.splits)
  show "declared_state d' = (declared_state d)(?i := (Some TypeDeclaredForeignKey, Some (None, StatusApproved)))"
    by (intro ext) (simp add: declared_state_def current relation declared_current_def)
qed

subsection \<open>Through the catalog\<close>

lemma relation_view_simps [simp]:
  "find_current (relation_view d) = find_current (cat_relations d)"
  "find_relation (relation_view d) = find_relation (cat_relations d)"
  "declared_state (relation_view d) = declared_state (cat_relations d)"
  "column_nodes (relation_view d) = active_columns d"
  by (intro ext, simp add: relation_view_def find_current_def find_relation_def declared_state_def)+
    (simp add: relation_view_def)

lemma store_inv_view [simp]: "store_inv cd (relation_view d) = store_inv cd (cat_relations d)"
  by (simp add: relation_view_def store_inv_def relation_ids_def row_ok_def pair_check_def version_exists_def
      revisions_of_def edges_of_def edge_shows_def cong: option.case_cong relation_status.case_cong)

lemma active_column_node: "i \<in> set (active_columns d) \<Longrightarrow> i \<in> node_ids d"
  by (auto simp: active_columns_def current_nodes_def node_of_rows_def node_ids_def split: option.splits)

lemma insert_declared_step:
  assumes step: "insert_declared_foreign_key ck p key s t k w = (Inr i, w')"
    and inv: "store_inv (ck_codec ck) (cat_relations (fst w))"
  shows "\<exists>rd. fst w' = (fst w)\<lparr>cat_relations := rd\<rparr> \<and> store_inv (ck_codec ck) rd
    \<and> declared_state (cat_relations (fst w)) i = (None, None)
    \<and> declared_state rd = (declared_state (cat_relations (fst w)))(i := (Some TypeDeclaredForeignKey, Some (None, StatusApproved)))
    \<and> s \<in> node_ids (fst w)"
proof -
  from step obtain version event audit u rd where
    ids: "next_four_ids ck w = (Inr (i, version, event, audit), u)" and
    rd: "insert_declared_statements (ck_codec ck) (relation_statements ck)
      (declared_foreign_key_record ck i version (declared_foreign_key_revision version i 1 p key s t k)) key
      (declared_foreign_key_request_id (pu_run p) key ''create'') event audit (relation_view (fst u)) = Inr rd"
      "fst w' = (fst u)\<lparr>cat_relations := rd\<rparr>"
    by (auto simp: insert_declared_foreign_key_def Let_def result_simps)
  let ?pr = "declared_foreign_key_record ck i version (declared_foreign_key_revision version i 1 p key s t k)"
  have u: "fst u = fst w" by (rule next_four_ids_tables [OF ids])
  have pr: "p_relation_id ?pr = i" "rv_relation_id (p_revision ?pr) = i" "rv_revision_no (p_revision ?pr) = 1"
    "rv_id (p_revision ?pr) = p_version_id ?pr"
    by (simp_all add: declared_foreign_key_record_def declared_foreign_key_revision_def)
  have view: "store_inv (ck_codec ck) (relation_view (fst u))" using inv u by simp
  have "verify_relation_nodes (relation_view (fst u)) (p_revision ?pr) (p_references ?pr) = Inr ()"
    using insert_declared_effect [OF rd(1)] by (elim exE conjE)
  then have "s \<in> set (active_columns (fst u))"
    by (auto simp: verify_relation_nodes_def fail_if_eq_Inr declared_foreign_key_record_def
        declared_foreign_key_revision_def Let_def length_filter_less split: if_splits)
  then have "s \<in> node_ids (fst w)" using active_column_node u by simp
  then show ?thesis
    using inv_insert_declared [OF view rd(1)] insert_declared_state [OF rd(1) view] pr rd(2) u by auto
qed

lemma read_declared_Inr:
  assumes "read_declared ck i d = Inr current"
  obtains c where "find_current (cat_relations d) i = Some c" "r_id current = i" "r_latest current = cr_latest c"
    "r_status current = cr_status c"
    "load_optional_revision (ck_codec ck) (cat_relations d) (cr_active c) = Inr (r_active current)"
    "load_optional_revision (ck_codec ck) (cat_relations d) (cr_proposed c) = Inr (r_proposed current)"
proof -
  have "load_relation (ck_codec ck) (cat_relations d) i = Inr current"
    using assms by (simp add: read_declared_def split: sum.splits)
  then show thesis by (rule load_relation_Inr) (rule that)
qed

lemma load_optional_None: "load_optional_revision cd d v = Inr None \<longleftrightarrow> v = None"
  by (auto simp: load_optional_Inr split: option.splits)

lemma reactivate_step:
  assumes step: "reactivate_declared_foreign_key ck p i key s t k w = (Inr u, w')"
    and inv: "store_inv (ck_codec ck) (cat_relations (fst w))"
  shows "\<exists>rd. fst w' = (fst w)\<lparr>cat_relations := rd\<rparr> \<and> store_inv (ck_codec ck) rd
    \<and> (\<forall>st. snd (declared_state (cat_relations (fst w)) i) = Some (None, st) \<longrightarrow>
         st \<in> {StatusSuppressed, StatusTombstoned}
         \<and> declared_state rd = (declared_state (cat_relations (fst w)))(i := (fst (declared_state (cat_relations (fst w)) i),
             Some (None, if st = StatusSuppressed then st else StatusApproved))))"
proof -
  let ?d = "fst w"
  obtain current where current: "read_declared ck i ?d = Inr current"
    using step by (auto simp: reactivate_declared_foreign_key_def result_simps)
  obtain c where c: "find_current (cat_relations ?d) i = Some c" "r_id current = i" "r_latest current = cr_latest c"
      "r_status current = cr_status c"
    by (rule read_declared_Inr [OF current])
  show ?thesis
  proof (cases "r_status current = StatusSuppressed")
    case True
    with step current have "w' = w" by (simp add: reactivate_declared_foreign_key_def act_bind_def query_def act_pure_def)
    with inv c True show ?thesis
      by (intro exI [of _ "cat_relations ?d"]) (auto simp: declared_state_def)
  next
    case False
    with step current obtain version a b audit v rd where
      guard: "r_status current = StatusTombstoned" and
      ids: "next_four_ids ck w = (Inr (version, a, b, audit), v)" and
      rd: "reactivate_statements (ck_codec ck) (relation_statements ck) current
         (declared_foreign_key_record ck i version
           ((declared_foreign_key_revision version i (r_latest current + 1) p key s t k)\<lparr>rv_expected := Some (r_latest current)\<rparr>))
         (declared_foreign_key_request_id (pu_run p) key ''restore'') a b audit (relation_view (fst v)) = Inr rd"
        "fst w' = (fst v)\<lparr>cat_relations := rd\<rparr>"
      by (auto simp: reactivate_declared_foreign_key_def Let_def result_simps split: if_splits)
    let ?pr = "declared_foreign_key_record ck i version
           ((declared_foreign_key_revision version i (r_latest current + 1) p key s t k)\<lparr>rv_expected := Some (r_latest current)\<rparr>)"
    have v: "fst v = ?d" by (rule next_four_ids_tables [OF ids])
    have view: "store_inv (ck_codec ck) (relation_view (fst v))"
      and find: "find_current (relation_view (fst v)) (r_id current) = Some c" using inv v c by simp_all
    have pr: "rv_relation_id (p_revision ?pr) = r_id current" "rv_revision_no (p_revision ?pr) = cr_latest c + 1"
      "rv_id (p_revision ?pr) = p_version_id ?pr"
      using c by (simp_all add: declared_foreign_key_record_def declared_foreign_key_revision_def)
    show ?thesis
      using inv_reactivate [OF view rd(1) find pr] reactivate_state [OF rd(1) find] rd(2) v c guard
      by (intro exI [of _ rd]) (auto simp: declared_state_def)
  qed
qed

lemma active_revision:
  assumes inv: "store_inv cd d" and c: "find_current d i = Some c" and a: "cr_active c = Some a"
    and load: "load_relation_revision cd d a = Inr active"
  shows "rv_relation_id active = i" and "rv_revision_no active \<le> cr_latest c" and "1 \<le> rv_revision_no active"
proof -
  have i: "cr_relation c = i" by (rule find_current_relation [OF c])
  have ok: "row_ok d c" by (rule store_inv_row [OF inv c])
  then obtain v where v: "v \<in> set (versions_t d)" "vr_id v = a" "vr_relation_id v = i"
    using a i by (auto simp: row_ok_def pair_check_def version_exists_def list_ex_iff)
  obtain x where x: "x \<in> set (versions_t d)" "vr_id x = a" "rv_relation_id active = vr_relation_id x"
      "rv_revision_no active = vr_revision_no x"
    using load_relation_revision_id [OF load] by auto
  have "x = v"
    using store_inv_version_unique [OF inv v(1)] store_inv_version_unique [OF inv x(1)] v(2) x(2) by simp
  with x v show "rv_relation_id active = i" by simp
  have "rv_revision_no active \<in> revisions_of d i" using x \<open>x = v\<close> v by (auto simp: revisions_of_def)
  then show "rv_revision_no active \<le> cr_latest c" "1 \<le> rv_revision_no active"
    using ok i by (auto simp: row_ok_def)
qed

lemma remove_step:
  assumes step: "remove_declared_foreign_key ck p i key w = (Inr u, w')"
    and inv: "store_inv (ck_codec ck) (cat_relations (fst w))"
  shows "\<exists>rd. fst w' = (fst w)\<lparr>cat_relations := rd\<rparr> \<and> store_inv (ck_codec ck) rd
    \<and> (\<forall>st. snd (declared_state (cat_relations (fst w)) i) = Some (None, st) \<longrightarrow>
         st \<in> {StatusSuppressed, StatusTombstoned, StatusApproved}
         \<and> declared_state rd = (declared_state (cat_relations (fst w)))(i := (fst (declared_state (cat_relations (fst w)) i),
             Some (None, if st = StatusSuppressed then st else StatusTombstoned))))"
proof -
  let ?d = "fst w"
  obtain current where current: "read_declared ck i ?d = Inr current"
    using step by (auto simp: remove_declared_foreign_key_def result_simps)
  obtain c where c: "find_current (cat_relations ?d) i = Some c" "r_id current = i" "r_latest current = cr_latest c"
      "r_status current = cr_status c"
      "load_optional_revision (ck_codec ck) (cat_relations ?d) (cr_active c) = Inr (r_active current)"
    by (rule read_declared_Inr [OF current])
  show ?thesis
  proof (cases "r_status current = StatusSuppressed \<or> r_status current = StatusTombstoned")
    case True
    with step current have "w' = w" by (auto simp: remove_declared_foreign_key_def act_bind_def query_def act_pure_def)
    with inv c True show ?thesis
      by (intro exI [of _ "cat_relations ?d"]) (auto simp: declared_state_def)
  next
    case False
    with step current obtain active version a b audit v rd where
      guard: "r_status current = StatusApproved" "r_active current = Some active" and
      ids: "next_four_ids ck w = (Inr (version, a, b, audit), v)" and
      rd: "remove_statements (ck_codec ck) (relation_statements ck) current
         (declared_foreign_key_record ck i version (removed_revision active version (r_latest current) p key))
         a b audit (relation_view (fst v)) = Inr rd"
        "fst w' = (fst v)\<lparr>cat_relations := rd\<rparr>"
      by (auto simp: remove_declared_foreign_key_def Let_def result_simps split: if_splits option.splits)
    let ?pr = "declared_foreign_key_record ck i version (removed_revision active version (r_latest current) p key)"
    have v: "fst v = ?d" by (rule next_four_ids_tables [OF ids])
    have view: "store_inv (ck_codec ck) (relation_view (fst v))"
      and find: "find_current (relation_view (fst v)) (r_id current) = Some c" using inv v c by simp_all
    obtain x where x: "cr_active c = Some x" "load_relation_revision (ck_codec ck) (cat_relations ?d) x = Inr active"
      using c(5) guard(2) by (auto simp: load_optional_Inr split: option.splits)
    note active = active_revision [OF inv c(1) x]
    have pr: "rv_relation_id (p_revision ?pr) = r_id current" "rv_revision_no (p_revision ?pr) = rv_revision_no active + 1"
      using c active(1) by (simp_all add: declared_foreign_key_record_def removed_revision_def)
    have "fresh_version (relation_view (fst v)) ?pr"
      using remove_effect [OF rd(1) find] by (elim exE conjE)
    then have "(i, rv_revision_no active + 1) \<notin> (\<lambda>y. (vr_relation_id y, vr_revision_no y)) ` set (versions_t (cat_relations ?d))"
      using pr c(2) by (simp add: fresh_version_def v relation_view_def)
    then have "rv_revision_no active + 1 \<notin> revisions_of (cat_relations ?d) i" by (force simp: revisions_of_def)
    then have "rv_revision_no active = cr_latest c"
      using store_inv_row [OF inv c(1)] find_current_relation [OF c(1)] active(2,3) by (auto simp: row_ok_def)
    with pr have "rv_revision_no (p_revision ?pr) = cr_latest c + 1" by simp
    then show ?thesis
      using inv_remove [OF view rd(1) find pr(1)] remove_state [OF rd(1) find] rd(2) v c guard
      by (intro exI [of _ rd]) (auto simp: declared_state_def)
  qed
qed

end
