(* ===== verification/DeclaredLoop.thy ===== *)
theory DeclaredLoop
  imports DeclaredEffects
begin

section \<open>The keys of a source after a publication\<close>

text \<open>
  A row of \<^verbatim>\<open>declared_foreign_key_relations\<close> and the relation it stands for agree: a key that is
  present is approved or suppressed, one that is not is a tombstone or suppressed, and nothing is
  proposed for either. The two loops of \<^verbatim>\<open>reconcileDeclaredForeignKeys\<close> keep this and leave the
  keys as the snapshot has them.
\<close>

definition declared_ok :: "db \<Rightarrow> bool \<Rightarrow> int \<Rightarrow> bool" where
  "declared_ok rd present i \<longleftrightarrow>
     fst (declared_state rd i) = Some TypeDeclaredForeignKey
     \<and> (\<exists>st. snd (declared_state rd i) = Some (None, st)
          \<and> st \<in> (if present then {StatusApproved, StatusSuppressed} else {StatusTombstoned, StatusSuppressed}))"

definition keys_ok :: "catalog_db \<Rightarrow> bool" where
  "keys_ok d \<longleftrightarrow>
     distinct (map (\<lambda>r. (dr_data_source r, dr_key r)) (declared_keys_t d))
     \<and> distinct (map dr_relation (declared_keys_t d))
     \<and> (\<forall>r\<in>set (declared_keys_t d). dr_source r \<in> node_ids d
          \<and> declared_ok (cat_relations d) (dr_present r) (dr_relation r))"

definition key_row :: "catalog_db \<Rightarrow> int \<Rightarrow> string \<Rightarrow> declared_row option" where
  "key_row d source_id key = find (\<lambda>r. dr_data_source r = source_id \<and> dr_key r = key) (declared_keys_t d)"

lemma key_row_Some:
  "key_row d source_id key = Some r \<Longrightarrow>
     r \<in> set (declared_keys_t d) \<and> dr_data_source r = source_id \<and> dr_key r = key"
  by (auto simp: key_row_def dest: find_some_in)

lemma key_row_row:
  assumes "keys_ok d" "r \<in> set (declared_keys_t d)"
  shows "key_row d (dr_data_source r) (dr_key r) = Some r"
proof -
  have "find (\<lambda>y. (dr_data_source y, dr_key y) = (dr_data_source r, dr_key r)) (declared_keys_t d) = Some r"
    by (rule find_key) (use assms in \<open>simp_all add: keys_ok_def\<close>)
  then show ?thesis by (simp add: key_row_def)
qed

lemma keys_ok_relation:
  "keys_ok d \<Longrightarrow> r \<in> set (declared_keys_t d) \<Longrightarrow> s \<in> set (declared_keys_t d) \<Longrightarrow>
     dr_relation r = dr_relation s \<Longrightarrow> r = s"
  by (auto simp: keys_ok_def distinct_map dest: inj_onD)

definition change_key :: "int \<Rightarrow> string \<Rightarrow> (declared_row \<Rightarrow> declared_row) \<Rightarrow> declared_row list \<Rightarrow> declared_row list" where
  "change_key source_id key f rows = map (\<lambda>r. if dr_data_source r = source_id \<and> dr_key r = key then f r else r) rows"

text \<open>A change of one row and of the state of its relation.\<close>

lemma keys_ok_change:
  assumes ok: "keys_ok d" and row: "key_row d source_id key = Some r"
    and f: "\<And>x. dr_data_source (f x) = dr_data_source x" "\<And>x. dr_key (f x) = dr_key x"
      "\<And>x. dr_relation (f x) = dr_relation x" "\<And>x. dr_source (f x) = dr_source x"
    and d': "declared_keys_t d' = change_key source_id key f (declared_keys_t d)" "node_ids d' = node_ids d"
    and own: "declared_ok (cat_relations d') (dr_present (f r)) (dr_relation r)"
    and others: "\<And>j. j \<noteq> dr_relation r \<Longrightarrow> declared_state (cat_relations d') j = declared_state (cat_relations d) j"
  shows "keys_ok d'"
    and "key_row d' i k = (if i = source_id \<and> k = key then Some (f r) else key_row d i k)"
proof -
  note r = key_row_Some [OF row]
  have maps: "map (\<lambda>x. (dr_data_source x, dr_key x)) (declared_keys_t d') = map (\<lambda>x. (dr_data_source x, dr_key x)) (declared_keys_t d)"
    "map dr_relation (declared_keys_t d') = map dr_relation (declared_keys_t d)"
    using f by (simp_all add: d'(1) change_key_def)
  have "dr_source x \<in> node_ids d' \<and> declared_ok (cat_relations d') (dr_present x) (dr_relation x)"
    if x: "x \<in> set (declared_keys_t d')" for x
  proof -
    from x obtain y where y: "y \<in> set (declared_keys_t d)"
        "x = (if dr_data_source y = source_id \<and> dr_key y = key then f y else y)"
      by (auto simp: d'(1) change_key_def)
    show ?thesis
    proof (cases "dr_data_source y = source_id \<and> dr_key y = key")
      case True
      with key_row_row [OF ok y(1)] row have "y = r" by simp
      with y True own ok f d'(2) show ?thesis by (auto simp: keys_ok_def)
    next
      case False
      with r y(1) keys_ok_relation [OF ok y(1)] have "dr_relation y \<noteq> dr_relation r" by blast
      with others y False ok d'(2) show ?thesis by (auto simp: keys_ok_def declared_ok_def)
    qed
  qed
  then show "keys_ok d'" using ok unfolding keys_ok_def maps by blast
  have "find (\<lambda>x. dr_data_source x = i \<and> dr_key x = k) (change_key source_id key f rows)
      = (if i = source_id \<and> k = key then map_option f (find (\<lambda>x. dr_data_source x = i \<and> dr_key x = k) rows)
         else find (\<lambda>x. dr_data_source x = i \<and> dr_key x = k) rows)" for rows
    by (induction rows) (auto simp: change_key_def f)
  then show "key_row d' i k = (if i = source_id \<and> k = key then Some (f r) else key_row d i k)"
    using row by (simp add: key_row_def d'(1))
qed

text \<open>A row for a key that had none.\<close>

lemma keys_ok_insert:
  assumes ok: "keys_ok d" and d': "declared_keys_t d' = declared_keys_t d @ [r]" "node_ids d' = node_ids d"
    and new: "dr_relation r \<notin> dr_relation ` set (declared_keys_t d)"
      "(dr_data_source r, dr_key r) \<notin> (\<lambda>x. (dr_data_source x, dr_key x)) ` set (declared_keys_t d)"
      "dr_source r \<in> node_ids d"
    and own: "declared_ok (cat_relations d') (dr_present r) (dr_relation r)"
    and others: "\<And>j. j \<noteq> dr_relation r \<Longrightarrow> declared_state (cat_relations d') j = declared_state (cat_relations d) j"
  shows "keys_ok d'"
    and "key_row d' i k = (if i = dr_data_source r \<and> k = dr_key r then Some r else key_row d i k)"
proof -
  have "declared_ok (cat_relations d') (dr_present x) (dr_relation x)" if "x \<in> set (declared_keys_t d)" for x
  proof -
    from that new(1) have "dr_relation x \<noteq> dr_relation r" by (metis imageI)
    with others ok that show ?thesis by (auto simp: keys_ok_def declared_ok_def)
  qed
  then show "keys_ok d'" using ok new own by (auto simp: keys_ok_def d')
  show "key_row d' i k = (if i = dr_data_source r \<and> k = dr_key r then Some r else key_row d i k)"
  proof -
    have "key_row d (dr_data_source r) (dr_key r) = None"
    proof (rule ccontr)
      assume "key_row d (dr_data_source r) (dr_key r) \<noteq> None"
      then obtain x where "key_row d (dr_data_source r) (dr_key r) = Some x" by auto
      from key_row_Some [OF this] new(2) show False by (metis (mono_tags, lifting) imageI)
    qed
    then show ?thesis
      by (cases "i = dr_data_source r \<and> k = dr_key r") (auto simp: key_row_def d' find_append split: option.splits)
  qed
qed

subsection \<open>Mappings\<close>

lemma mapping_of_row:
  assumes ok: "keys_ok d" and inv: "catalog_inv d" and r: "r \<in> set (declared_keys_t d)"
  obtains v where "declared_mapping_of d r = [\<lparr>dm_key = dr_key r, dm_relation = dr_relation r,
      dm_source_name = nv_qualified v, dm_present = dr_present r\<rparr>]" "current_version d (dr_source r) = Some v"
proof -
  have "dr_source r \<in> node_ids d" using ok r by (simp add: keys_ok_def)
  then obtain v where "current_version d (dr_source r) = Some v" using inv_current_version [OF inv] by blast
  then show thesis by (intro that [of v]) (simp_all add: declared_mapping_of_def)
qed

lemma mappings_of_rows:
  assumes ok: "keys_ok d" and inv: "catalog_inv d"
  shows "m \<in> set (load_declared_foreign_key_mappings source_id d) \<longleftrightarrow>
    (\<exists>r v. key_row d source_id (dm_key m) = Some r \<and> current_version d (dr_source r) = Some v
       \<and> dm_relation m = dr_relation r \<and> dm_source_name m = nv_qualified v \<and> dm_present m = dr_present r)"
proof
  assume "m \<in> set (load_declared_foreign_key_mappings source_id d)"
  then obtain r where r: "r \<in> set (declared_keys_t d)" "dr_data_source r = source_id" "m \<in> set (declared_mapping_of d r)"
    by (auto simp: load_declared_foreign_key_mappings_def)
  then obtain v where "current_version d (dr_source r) = Some v" "m = \<lparr>dm_key = dr_key r, dm_relation = dr_relation r,
      dm_source_name = nv_qualified v, dm_present = dr_present r\<rparr>"
    by (cases "current_version d (dr_source r)") (auto simp: declared_mapping_of_def)
  then show "\<exists>r v. key_row d source_id (dm_key m) = Some r \<and> current_version d (dr_source r) = Some v
       \<and> dm_relation m = dr_relation r \<and> dm_source_name m = nv_qualified v \<and> dm_present m = dr_present r"
    using key_row_row [OF ok r(1)] r(2) by auto
next
  assume "\<exists>r v. key_row d source_id (dm_key m) = Some r \<and> current_version d (dr_source r) = Some v
       \<and> dm_relation m = dr_relation r \<and> dm_source_name m = nv_qualified v \<and> dm_present m = dr_present r"
  then obtain r v where r: "key_row d source_id (dm_key m) = Some r" "current_version d (dr_source r) = Some v"
       "dm_relation m = dr_relation r" "dm_source_name m = nv_qualified v" "dm_present m = dr_present r"
    by blast
  then have "m \<in> set (declared_mapping_of d r)"
    using key_row_Some [OF r(1)] by (cases m) (simp add: declared_mapping_of_def)
  then show "m \<in> set (load_declared_foreign_key_mappings source_id d)"
    using key_row_Some [OF r(1)] by (auto simp: load_declared_foreign_key_mappings_def)
qed

lemma mapping_found:
  assumes ok: "keys_ok d" and inv: "catalog_inv d"
  shows "find (\<lambda>m. dm_key m = key) (load_declared_foreign_key_mappings source_id d) = None \<longleftrightarrow>
      key_row d source_id key = None"
proof -
  have "(\<exists>m\<in>set (load_declared_foreign_key_mappings source_id d). dm_key m = key) \<longleftrightarrow> key_row d source_id key \<noteq> None"
  proof
    assume "key_row d source_id key \<noteq> None"
    then obtain r where r: "key_row d source_id key = Some r" by auto
    then have "r \<in> set (declared_keys_t d)" "dr_key r = key" using key_row_Some by blast+
    moreover obtain v where "current_version d (dr_source r) = Some v" by (rule mapping_of_row [OF ok inv \<open>r \<in> _\<close>])
    ultimately show "\<exists>m\<in>set (load_declared_foreign_key_mappings source_id d). dm_key m = key"
      using r by (intro bexI [of _ "\<lparr>dm_key = key, dm_relation = dr_relation r, dm_source_name = nv_qualified v,
          dm_present = dr_present r\<rparr>"]) (simp_all add: mappings_of_rows [OF ok inv])
  qed (auto simp: mappings_of_rows [OF ok inv])
  then show ?thesis by (auto simp: find_None_iff)
qed

subsection \<open>The keys of the snapshot\<close>

text \<open>
  \<open>d0\<close> is where the mappings were loaded: the keys that were not met yet are as they were there,
  the others are present and recorded for the run.
\<close>

definition seen_upto ::
  "'g catalog_store \<Rightarrow> snapshot_publication \<Rightarrow> catalog_db \<Rightarrow> string set \<Rightarrow> catalog_db \<Rightarrow> bool" where
  "seen_upto ck p d0 met d \<longleftrightarrow>
     store_inv (ck_codec ck) (cat_relations d) \<and> keys_ok d \<and> node_tables d = node_tables d0
     \<and> (\<forall>i key. \<not> (i = pu_data_source p \<and> key \<in> met) \<longrightarrow> key_row d i key = key_row d0 i key)
     \<and> (\<forall>key\<in>met. (pu_run p, key) \<in> (\<lambda>r. (sk_scan_run r, sk_key r)) ` set (scan_keys_t d)
          \<and> (\<exists>r. key_row d (pu_data_source p) key = Some r \<and> dr_present r \<and> dr_last_seen r = pu_run p))"

lemma node_ids_tables: "node_tables d = node_tables d' \<Longrightarrow> node_ids d = node_ids d'"
  by (simp add: node_tables_def node_ids_def)

lemma ensure_step:
  assumes step: "ensure_declared_key ck p (load_declared_foreign_key_mappings (pu_data_source p) d0) key s t k w = (Inr i, w')"
    and ok0: "keys_ok d0" "catalog_inv d0"
    and inv: "store_inv (ck_codec ck) (cat_relations (fst w))" "keys_ok (fst w)" "node_tables (fst w) = node_tables d0"
    and row: "key_row (fst w) (pu_data_source p) key = key_row d0 (pu_data_source p) key"
  shows "store_inv (ck_codec ck) (cat_relations (fst w')) \<and> keys_ok (fst w') \<and> node_tables (fst w') = node_tables d0
    \<and> scan_keys_t (fst w') = scan_keys_t (fst w)
    \<and> (\<exists>r. dr_present r \<and> dr_last_seen r = pu_run p
         \<and> (\<forall>i k. key_row (fst w') i k = (if i = pu_data_source p \<and> k = key then Some r else key_row (fst w) i k)))"
proof -
  let ?src = "pu_data_source p" and ?ms = "load_declared_foreign_key_mappings (pu_data_source p) d0" and ?d = "fst w"
  show ?thesis
  proof (cases "find (\<lambda>m. dm_key m = key) ?ms")
    case None
    let ?row = "\<lparr>dr_data_source = ?src, dr_key = key, dr_relation = i, dr_source = s, dr_target = t,
        dr_schema = dk_schema k, dr_name = dk_name k, dr_ordinal = dk_ordinal k, dr_last_seen = pu_run p,
        dr_present = True, dr_created_at = pu_started_at p, dr_updated_at = pu_started_at p\<rparr>"
    from step None obtain v where 1: "insert_declared_foreign_key ck p key s t k w = (Inr i, v)" and
      2: "insert_declared_row ck ?row (fst v) = Inr (fst w')"
      by (auto simp: ensure_declared_key_def result_simps)
    obtain rd where rd: "fst v = ?d\<lparr>cat_relations := rd\<rparr>" "store_inv (ck_codec ck) rd"
        "declared_state rd = (declared_state (cat_relations ?d))(i := (Some TypeDeclaredForeignKey, Some (None, StatusApproved)))"
        "s \<in> node_ids ?d"
      using insert_declared_step [OF 1 inv(1)] by blast
    have d': "fst w' = (?d\<lparr>cat_relations := rd\<rparr>)\<lparr>declared_keys_t := declared_keys_t ?d @ [?row]\<rparr>"
      and new: "i \<notin> dr_relation ` set (declared_keys_t ?d)"
        "(?src, key) \<notin> (\<lambda>x. (dr_data_source x, dr_key x)) ` set (declared_keys_t ?d)"
      using 2 by (simp_all add: insert_declared_row_def catalog_exec_Inr rd(1))
    have same: "node_ids (fst w') = node_ids ?d" "declared_keys_t (fst w') = declared_keys_t ?d @ [?row]"
      "cat_relations (fst w') = rd" "scan_keys_t (fst w') = scan_keys_t ?d" "node_tables (fst w') = node_tables ?d"
      unfolding d' by (simp_all add: node_ids_def node_tables_def)
    have own: "declared_ok (cat_relations (fst w')) (dr_present ?row) (dr_relation ?row)"
      using rd(3) by (simp add: same(3) declared_ok_def)
    have others: "declared_state (cat_relations (fst w')) j = declared_state (cat_relations ?d) j"
      if "j \<noteq> dr_relation ?row" for j
      using that rd(3) by (simp add: same(3))
    have "keys_ok (fst w')"
      by (rule keys_ok_insert(1) [OF inv(2) same(2,1) _ _ _ own others]) (use new rd(4) in simp_all)
    moreover have "key_row (fst w') i' k' = (if i' = dr_data_source ?row \<and> k' = dr_key ?row then Some ?row else key_row ?d i' k')"
      for i' k'
      by (rule keys_ok_insert(2) [OF inv(2) same(2,1) _ _ _ own others]) (use new rd(4) in simp_all)
    ultimately show ?thesis using rd(2) same inv(3) by (intro conjI exI [of _ ?row]) simp_all
  next
    case (Some m)
    then have m: "m \<in> set ?ms" "dm_key m = key" by (auto dest: find_some_in)
    then obtain r where r: "key_row d0 ?src key = Some r" "dm_relation m = dr_relation r" "dm_present m = dr_present r"
      using mappings_of_rows [OF ok0] by blast
    note row' = row [unfolded r(1)]
    have declared: "declared_ok (cat_relations ?d) (dr_present r) (dr_relation r)"
      using inv(2) key_row_Some [OF row'] by (simp add: keys_ok_def)
    let ?f = "\<lambda>x. x\<lparr>dr_last_seen := pu_run p, dr_present := True, dr_updated_at := pu_started_at p\<rparr>"
    from step Some obtain v where
      1: "(if dm_present m then act_pure (Inr ()) else reactivate_declared_foreign_key ck p (dm_relation m) key s t k) w = (Inr (), v)" and
      2: "update_declared_row ck ?src key ?f (fst v) = Inr (fst w')"
      by (auto simp: ensure_declared_key_def result_simps)
    have "\<exists>rd. fst v = ?d\<lparr>cat_relations := rd\<rparr> \<and> store_inv (ck_codec ck) rd \<and> declared_ok rd True (dr_relation r)
      \<and> (\<forall>j. j \<noteq> dr_relation r \<longrightarrow> declared_state rd j = declared_state (cat_relations ?d) j)"
    proof (cases "dm_present m")
      case True
      with 1 inv(1) declared r(3) show ?thesis
        by (intro exI [of _ "cat_relations ?d"]) (simp add: act_pure_Inr)
    next
      case False
      with 1 have "reactivate_declared_foreign_key ck p (dr_relation r) key s t k w = (Inr (), v)" using r(2) by simp
      from reactivate_step [OF this inv(1)] obtain rd where rd: "fst v = ?d\<lparr>cat_relations := rd\<rparr>" "store_inv (ck_codec ck) rd"
          "\<forall>st. snd (declared_state (cat_relations ?d) (dr_relation r)) = Some (None, st) \<longrightarrow>
             st \<in> {StatusSuppressed, StatusTombstoned}
             \<and> declared_state rd = (declared_state (cat_relations ?d))(dr_relation r := (fst (declared_state (cat_relations ?d) (dr_relation r)),
                 Some (None, if st = StatusSuppressed then st else StatusApproved)))"
        by blast
      with declared show ?thesis by (intro exI [of _ rd]) (auto simp: declared_ok_def)
    qed
    then obtain rd where rd: "fst v = ?d\<lparr>cat_relations := rd\<rparr>" "store_inv (ck_codec ck) rd" "declared_ok rd True (dr_relation r)"
      "\<forall>j. j \<noteq> dr_relation r \<longrightarrow> declared_state rd j = declared_state (cat_relations ?d) j" by blast
    have d': "fst w' = (?d\<lparr>cat_relations := rd\<rparr>)\<lparr>declared_keys_t := change_key ?src key ?f (declared_keys_t ?d)\<rparr>"
      using 2 by (simp add: update_declared_row_def catalog_exec_Inr rd(1) change_key_def)
    have same: "node_ids (fst w') = node_ids ?d" "declared_keys_t (fst w') = change_key ?src key ?f (declared_keys_t ?d)"
      "cat_relations (fst w') = rd" "scan_keys_t (fst w') = scan_keys_t ?d" "node_tables (fst w') = node_tables ?d"
      unfolding d' by (simp_all add: node_ids_def node_tables_def)
    have "keys_ok (fst w')"
      by (rule keys_ok_change(1) [OF inv(2) row' _ _ _ _ same(2,1)]) (use rd(3,4) same(3) in simp_all)
    moreover have "key_row (fst w') i' k' = (if i' = ?src \<and> k' = key then Some (?f r) else key_row ?d i' k')" for i' k'
      by (rule keys_ok_change(2) [OF inv(2) row' _ _ _ _ same(2,1)]) (use rd(3,4) same(3) in simp_all)
    ultimately show ?thesis using rd(2) same inv(3) by (intro conjI exI [of _ "?f r"]) simp_all
  qed
qed

lemma ensure_scan_keys:
  assumes "ensure_declared_key ck p ms key s t k w = (Inr i, w')"
  shows "scan_keys_t (fst w') = scan_keys_t (fst w)"
  using assms
  by (auto simp: ensure_declared_key_def insert_declared_foreign_key_def reactivate_declared_foreign_key_def
      insert_declared_row_def update_declared_row_def catalog_exec_Inr catalog_relations_Inr act_bind_Inr
      act_pure_Inr query_Inr write_tables_Inr Let_def split: if_splits option.splits dest!: next_four_ids_tables)

lemma reconcile_key_step:
  assumes step: "reconcile_declared_key ck p names (load_declared_foreign_key_mappings (pu_data_source p) d0) k u w = (Inr u', w')"
    and ok0: "keys_ok d0" "catalog_inv d0" and upto: "seen_upto ck p d0 met (fst w)"
  shows "seen_upto ck p d0 (insert (declared_foreign_key_stable_key ck (pu_data_source p) k) met) (fst w')"
proof -
  let ?src = "pu_data_source p" let ?key = "declared_foreign_key_stable_key ck ?src k"
  from step obtain i v row where
    1: "ensure_declared_key ck p (load_declared_foreign_key_mappings ?src d0) ?key (node_id_of names (dk_source k))
      (node_id_of names (dk_target k)) k w = (Inr i, v)" and
    2: "insert_scan_key ck row (fst v) = Inr (fst w')" "sk_scan_run row = pu_run p" "sk_key row = ?key"
    by (auto simp: reconcile_declared_key_def Let_def result_simps)
  have inv: "store_inv (ck_codec ck) (cat_relations (fst w))" "keys_ok (fst w)" "node_tables (fst w) = node_tables d0"
    using upto by (simp_all add: seen_upto_def)
  have scan: "fst w' = (fst v)\<lparr>scan_keys_t := scan_keys_t (fst v) @ [row]\<rparr>"
    "(pu_run p, ?key) \<notin> (\<lambda>r. (sk_scan_run r, sk_key r)) ` set (scan_keys_t (fst v))"
    using 2 by (simp_all add: insert_scan_key_def catalog_exec_Inr)
  have "?key \<notin> met"
    using scan(2) ensure_scan_keys [OF 1] upto by (auto simp: seen_upto_def)
  with upto have "key_row (fst w) ?src ?key = key_row d0 ?src ?key" by (simp add: seen_upto_def)
  from ensure_step [OF 1 ok0 inv this] obtain r where
    r: "store_inv (ck_codec ck) (cat_relations (fst v))" "keys_ok (fst v)" "node_tables (fst v) = node_tables d0"
      "scan_keys_t (fst v) = scan_keys_t (fst w)" "dr_present r" "dr_last_seen r = pu_run p"
      "\<forall>i k. key_row (fst v) i k = (if i = ?src \<and> k = ?key then Some r else key_row (fst w) i k)"
    by blast
  have same: "keys_ok (fst w') = keys_ok (fst v)" "key_row (fst w') = key_row (fst v)"
    "node_tables (fst w') = node_tables (fst v)" "cat_relations (fst w') = cat_relations (fst v)"
    unfolding scan(1)
    by (simp_all add: keys_ok_def node_ids_def node_tables_def fun_eq_iff key_row_def)
  have scans: "scan_keys_t (fst w') = scan_keys_t (fst w) @ [row]" by (simp add: scan(1) r(4))
  show ?thesis
    unfolding seen_upto_def same scans
  proof (intro conjI allI impI ballI)
    fix i k' assume "\<not> (i = ?src \<and> k' \<in> insert ?key met)"
    with r(7) upto show "key_row (fst v) i k' = key_row d0 i k'" by (auto simp: seen_upto_def)
  next
    fix k' assume "k' \<in> insert ?key met"
    with upto 2(2,3) show "(pu_run p, k') \<in> (\<lambda>r. (sk_scan_run r, sk_key r)) ` set (scan_keys_t (fst w) @ [row])"
      by (auto simp: seen_upto_def)
    from \<open>k' \<in> insert ?key met\<close> r(5-7) upto
    show "\<exists>r. key_row (fst v) ?src k' = Some r \<and> dr_present r \<and> dr_last_seen r = pu_run p"
      by (cases "k' = ?key") (auto simp: seen_upto_def)
  qed (rule r)+
qed

lemma reconcile_keys_loop:
  assumes "act_fold (reconcile_declared_key ck p names (load_declared_foreign_key_mappings (pu_data_source p) d0)) ks u w = (Inr u', w')"
    and "keys_ok d0" "catalog_inv d0" "seen_upto ck p d0 met (fst w)"
  shows "seen_upto ck p d0 (met \<union> declared_foreign_key_stable_key ck (pu_data_source p) ` set ks) (fst w')"
  using assms
proof (induction ks arbitrary: met w)
  case (Cons k ks)
  then obtain v where "reconcile_declared_key ck p names (load_declared_foreign_key_mappings (pu_data_source p) d0) k u w = (Inr (), v)"
      and rest: "act_fold (reconcile_declared_key ck p names (load_declared_foreign_key_mappings (pu_data_source p) d0)) ks u v = (Inr u', w')"
    by (auto simp: act_bind_Inr)
  from Cons.IH [OF rest Cons.prems(2,3) reconcile_key_step [OF this(1) Cons.prems(2-4)]] show ?case by simp
qed (simp add: act_pure_Inr)

subsection \<open>The keys that are gone\<close>

text \<open>\<open>d1\<close> is where the first loop ended.\<close>

definition gone_upto ::
  "'g catalog_store \<Rightarrow> snapshot_publication \<Rightarrow> catalog_db \<Rightarrow> string set \<Rightarrow> catalog_db \<Rightarrow> bool" where
  "gone_upto ck p d1 gone d \<longleftrightarrow>
     store_inv (ck_codec ck) (cat_relations d) \<and> keys_ok d \<and> node_tables d = node_tables d1
     \<and> (\<forall>i key. \<not> (i = pu_data_source p \<and> key \<in> gone) \<longrightarrow> key_row d i key = key_row d1 i key)
     \<and> (\<forall>key\<in>gone. \<exists>r r1. key_row d (pu_data_source p) key = Some r \<and> \<not> dr_present r
          \<and> key_row d1 (pu_data_source p) key = Some r1 \<and> dr_relation r = dr_relation r1)"

lemma mark_absent_step:
  assumes step: "mark_absent_key ck p m u w = (Inr u', w')" and upto: "gone_upto ck p d1 gone (fst w)"
    and row: "key_row d1 (pu_data_source p) (dm_key m) = Some r1" "dr_relation r1 = dm_relation m"
  shows "gone_upto ck p d1 (insert (dm_key m) gone) (fst w')"
proof -
  let ?src = "pu_data_source p" and ?key = "dm_key m" and ?d = "fst w"
  let ?f = "\<lambda>x. x\<lparr>dr_present := False, dr_updated_at := pu_started_at p\<rparr>"
  from step obtain v where
    1: "remove_declared_foreign_key ck p (dm_relation m) ?key w = (Inr (), v)" and
    2: "update_declared_row ck ?src ?key ?f (fst v) = Inr (fst w')"
    by (auto simp: mark_absent_key_def result_simps)
  have inv: "store_inv (ck_codec ck) (cat_relations ?d)" "keys_ok ?d" "node_tables ?d = node_tables d1"
    using upto by (simp_all add: gone_upto_def)
  obtain r where r: "key_row ?d ?src ?key = Some r" "dr_relation r = dm_relation m"
    using upto row by (cases "?key \<in> gone") (auto simp: gone_upto_def)
  have declared: "declared_ok (cat_relations ?d) (dr_present r) (dr_relation r)"
    using inv(2) key_row_Some [OF r(1)] by (simp add: keys_ok_def)
  from remove_step [OF 1 inv(1)] obtain rd where rd: "fst v = ?d\<lparr>cat_relations := rd\<rparr>" "store_inv (ck_codec ck) rd"
      "\<forall>st. snd (declared_state (cat_relations ?d) (dm_relation m)) = Some (None, st) \<longrightarrow>
         st \<in> {StatusSuppressed, StatusTombstoned, StatusApproved}
         \<and> declared_state rd = (declared_state (cat_relations ?d))(dm_relation m := (fst (declared_state (cat_relations ?d) (dm_relation m)),
             Some (None, if st = StatusSuppressed then st else StatusTombstoned)))"
    by blast
  have state: "declared_ok rd False (dr_relation r)"
    "\<And>j. j \<noteq> dr_relation r \<Longrightarrow> declared_state rd j = declared_state (cat_relations ?d) j"
    using declared rd(3) r(2) by (auto simp: declared_ok_def)
  have d': "fst w' = (?d\<lparr>cat_relations := rd\<rparr>)\<lparr>declared_keys_t := change_key ?src ?key ?f (declared_keys_t ?d)\<rparr>"
    using 2 by (simp add: update_declared_row_def catalog_exec_Inr rd(1) change_key_def)
  have same: "node_ids (fst w') = node_ids ?d" "declared_keys_t (fst w') = change_key ?src ?key ?f (declared_keys_t ?d)"
    "cat_relations (fst w') = rd" "node_tables (fst w') = node_tables ?d"
    unfolding d' by (simp_all add: node_ids_def node_tables_def)
  have "keys_ok (fst w')"
    by (rule keys_ok_change(1) [OF inv(2) r(1) _ _ _ _ same(2,1)]) (use state same(3) in simp_all)
  moreover have rows: "key_row (fst w') i k = (if i = ?src \<and> k = ?key then Some (?f r) else key_row ?d i k)" for i k
    by (rule keys_ok_change(2) [OF inv(2) r(1) _ _ _ _ same(2,1)]) (use state same(3) in simp_all)
  ultimately show ?thesis
    using upto rd(2) row r(2) inv(3) unfolding gone_upto_def same by auto
qed

lemma mark_absent_loop:
  assumes "act_fold (mark_absent_key ck p) ms u w = (Inr u', w')" "gone_upto ck p d1 gone (fst w)"
    and "\<forall>m\<in>set ms. \<exists>r1. key_row d1 (pu_data_source p) (dm_key m) = Some r1 \<and> dr_relation r1 = dm_relation m"
  shows "gone_upto ck p d1 (gone \<union> dm_key ` set ms) (fst w')"
  using assms
proof (induction ms arbitrary: gone w)
  case (Cons m ms)
  then obtain v where v: "mark_absent_key ck p m u w = (Inr (), v)" "act_fold (mark_absent_key ck p) ms u v = (Inr u', w')"
    by (auto simp: act_bind_Inr)
  obtain r1 where "key_row d1 (pu_data_source p) (dm_key m) = Some r1" "dr_relation r1 = dm_relation m"
    using Cons.prems(3) by auto
  from Cons.IH [OF v(2) mark_absent_step [OF v(1) Cons.prems(2) this]] Cons.prems(3) show ?case by simp
qed (simp add: act_pure_Inr)

subsection \<open>Both loops\<close>

definition snapshot_keys :: "'g catalog_store \<Rightarrow> snapshot_publication \<Rightarrow> string set" where
  "snapshot_keys ck p = declared_foreign_key_stable_key ck (pu_data_source p) ` set (pu_keys p)"

text \<open>A key whose source column is in a scope.\<close>

definition key_in_scope :: "string list \<Rightarrow> catalog_db \<Rightarrow> declared_row \<Rightarrow> bool" where
  "key_in_scope scope d r \<longleftrightarrow>
     (case current_version d (dr_source r) of
        None \<Rightarrow> False | Some v \<Rightarrow> node_within_table_scope NodeColumn (nv_qualified v) scope)"

lemma reconcile_declared_effect:
  assumes step: "reconcile_declared_foreign_keys ck p ids w = (Inr u, w')"
    and ok: "keys_ok (fst w)" "catalog_inv (fst w)" "store_inv (ck_codec ck) (cat_relations (fst w))"
  shows "store_inv (ck_codec ck) (cat_relations (fst w'))" and "keys_ok (fst w')"
    and "\<forall>key\<in>snapshot_keys ck p. \<exists>r. key_row (fst w') (pu_data_source p) key = Some r
      \<and> dr_present r \<and> dr_last_seen r = pu_run p"
    and "\<forall>key r. key \<notin> snapshot_keys ck p \<longrightarrow> key_row (fst w) (pu_data_source p) key = Some r \<longrightarrow>
      dr_present r \<and> key_in_scope (pu_scope p) (fst w) r \<longrightarrow>
      (\<exists>r'. key_row (fst w') (pu_data_source p) key = Some r' \<and> \<not> dr_present r')"
    and "\<forall>i key. \<not> (i = pu_data_source p \<and> key \<in> snapshot_keys ck p) \<longrightarrow>
      (\<forall>r. key_row (fst w) i key = Some r \<longrightarrow> \<not> (i = pu_data_source p \<and> dr_present r \<and> key_in_scope (pu_scope p) (fst w) r)) \<longrightarrow>
      key_row (fst w') i key = key_row (fst w) i key"
proof -
  let ?src = "pu_data_source p" and ?d = "fst w" and ?S = "snapshot_keys ck p"
  let ?ms = "load_declared_foreign_key_mappings (pu_data_source p) (fst w)"
  let ?absent = "absent_key p (map (declared_foreign_key_stable_key ck ?src) (pu_keys p))"
  let ?G = "dm_key ` set (filter ?absent ?ms)"
  from step obtain v where
    1: "act_fold (reconcile_declared_key ck p (qualified_node_ids p ids) ?ms) (pu_keys p) () w = (Inr (), v)" and
    2: "act_fold (mark_absent_key ck p) (filter ?absent ?ms) () v = (Inr (), w')"
    by (auto simp: reconcile_declared_foreign_keys_def Let_def act_bind_Inr query_Inr)
  have "seen_upto ck p ?d {} ?d" using ok by (simp add: seen_upto_def)
  from reconcile_keys_loop [OF 1 ok(1,2) this]
  have seen: "seen_upto ck p ?d ?S (fst v)" by (simp add: snapshot_keys_def)
  have absent: "?absent m \<longleftrightarrow> dm_present m \<and> dm_key m \<notin> ?S \<and> node_within_table_scope NodeColumn (dm_source_name m) (pu_scope p)" for m
    by (simp add: absent_key_def snapshot_keys_def)
  have "gone_upto ck p (fst v) {} (fst v)" using seen by (simp add: seen_upto_def gone_upto_def)
  note start = this
  have rows: "\<forall>m\<in>set (filter ?absent ?ms). \<exists>r1. key_row (fst v) ?src (dm_key m) = Some r1 \<and> dr_relation r1 = dm_relation m"
    using seen mappings_of_rows [OF ok(1,2)] by (fastforce simp: absent seen_upto_def)
  have gone: "gone_upto ck p (fst v) ?G (fst w')" using mark_absent_loop [OF 2 start rows] by (simp only: Un_empty_left)
  have G: "key \<in> ?G \<longleftrightarrow> key \<notin> ?S \<and> (\<exists>r. key_row ?d ?src key = Some r \<and> dr_present r \<and> key_in_scope (pu_scope p) ?d r)" for key
  proof
    assume "key \<in> ?G"
    then obtain m where "m \<in> set ?ms" "?absent m" "key = dm_key m" by auto
    with mappings_of_rows [OF ok(1,2)] show "key \<notin> ?S \<and> (\<exists>r. key_row ?d ?src key = Some r \<and> dr_present r \<and> key_in_scope (pu_scope p) ?d r)"
      by (fastforce simp: absent key_in_scope_def)
  next
    assume "key \<notin> ?S \<and> (\<exists>r. key_row ?d ?src key = Some r \<and> dr_present r \<and> key_in_scope (pu_scope p) ?d r)"
    then obtain r x where r: "key \<notin> ?S" "key_row ?d ?src key = Some r" "dr_present r" "current_version ?d (dr_source r) = Some x"
        "node_within_table_scope NodeColumn (nv_qualified x) (pu_scope p)"
      by (auto simp: key_in_scope_def split: option.splits)
    let ?m = "\<lparr>dm_key = key, dm_relation = dr_relation r, dm_source_name = nv_qualified x, dm_present = dr_present r\<rparr>"
    have "?m \<in> set ?ms" using r by (simp add: mappings_of_rows [OF ok(1,2)])
    with r show "key \<in> ?G" by (intro image_eqI [of _ _ ?m]) (simp_all add: absent)
  qed
  show "store_inv (ck_codec ck) (cat_relations (fst w'))" "keys_ok (fst w')"
    using gone by (simp_all add: gone_upto_def)
  have after: "key_row (fst w') i key = key_row (fst v) i key" if "\<not> (i = ?src \<and> key \<in> ?G)" for i key
    using gone that by (simp add: gone_upto_def)
  show "\<forall>key\<in>?S. \<exists>r. key_row (fst w') ?src key = Some r \<and> dr_present r \<and> dr_last_seen r = pu_run p"
  proof
    fix key assume key: "key \<in> ?S"
    then have "key \<notin> ?G" unfolding G by simp
    with after [of ?src key] seen key show "\<exists>r. key_row (fst w') ?src key = Some r \<and> dr_present r \<and> dr_last_seen r = pu_run p"
      by (auto simp: seen_upto_def)
  qed
  show "\<forall>key r. key \<notin> ?S \<longrightarrow> key_row ?d ?src key = Some r \<longrightarrow> dr_present r \<and> key_in_scope (pu_scope p) ?d r \<longrightarrow>
      (\<exists>r'. key_row (fst w') ?src key = Some r' \<and> \<not> dr_present r')"
  proof (intro allI impI)
    fix key r assume "key \<notin> ?S" "key_row ?d ?src key = Some r" "dr_present r \<and> key_in_scope (pu_scope p) ?d r"
    then have "key \<in> ?G" unfolding G by blast
    with gone show "\<exists>r'. key_row (fst w') ?src key = Some r' \<and> \<not> dr_present r'" unfolding gone_upto_def by blast
  qed
  show "\<forall>i key. \<not> (i = ?src \<and> key \<in> ?S) \<longrightarrow>
      (\<forall>r. key_row ?d i key = Some r \<longrightarrow> \<not> (i = ?src \<and> dr_present r \<and> key_in_scope (pu_scope p) ?d r)) \<longrightarrow>
      key_row (fst w') i key = key_row ?d i key"
  proof (intro allI impI)
    fix i key assume other: "\<not> (i = ?src \<and> key \<in> ?S)"
      and keep: "\<forall>r. key_row ?d i key = Some r \<longrightarrow> \<not> (i = ?src \<and> dr_present r \<and> key_in_scope (pu_scope p) ?d r)"
    have "\<not> (i = ?src \<and> key \<in> ?G)" unfolding G using keep by blast
    with after [of i key] seen other show "key_row (fst w') i key = key_row ?d i key" by (simp add: seen_upto_def)
  qed
qed

end
