(* ===== verification/CatalogChecks.thy ===== *)
theory CatalogChecks
  imports Catalog
begin

section \<open>What reaches the catalog's repository\<close>

text \<open>
  The checks of the catalog service: the publications that it hands to the repository are
  well-formed, and a connection string reaches the repository only sealed.
\<close>

subsection \<open>Snapshots\<close>

definition well_formed_scope :: "string list \<Rightarrow> bool" where
  "well_formed_scope scope \<longleftrightarrow>
     sorted scope \<and> distinct scope \<and> list_all valid_table_name scope \<and> int (length scope) \<le> maximum_catalog_tables"

definition column_names :: "node_input list \<Rightarrow> string list" where
  "column_names nodes = map ni_qualified (filter (\<lambda>n. ni_kind n = NodeColumn) nodes)"

definition well_formed_publication :: "snapshot_publication \<Rightarrow> bool" where
  "well_formed_publication p \<longleftrightarrow>
     pu_data_source p > 0 \<and> pu_nodes p \<noteq> [] \<and> int (length (pu_nodes p)) \<le> maximum_snapshot_nodes
     \<and> int (length (pu_keys p)) \<le> maximum_snapshot_foreign_keys
     \<and> list_all node_texts_ok (pu_nodes p)
     \<and> distinct (map ni_key (pu_nodes p)) \<and> distinct (map ni_qualified (pu_nodes p))
     \<and> list_all (parent_ok (map ni_key (pu_nodes p))) (pu_nodes p)
     \<and> list_all (foreign_key_ok (column_names (pu_nodes p))) (pu_keys p)
     \<and> distinct (map foreign_key_key (pu_keys p)) \<and> well_formed_scope (pu_scope p)"

lemma normalize_catalog_scope_Inr:
  "normalize_scope tables acc = Inr normalized \<Longrightarrow> distinct acc \<Longrightarrow> list_all valid_table_name acc \<Longrightarrow>
     distinct normalized \<and> list_all valid_table_name normalized \<and> length normalized = length acc + length tables"
  by (induction tables arbitrary: acc) (auto simp: Let_def split: if_splits)

lemma normalize_scope_tables_Inr:
  "normalize_scope_tables tables = Inr scope \<Longrightarrow> well_formed_scope scope"
  by (auto simp: normalize_scope_tables_def well_formed_scope_def result_simps list_all_iff
      dest!: normalize_catalog_scope_Inr)

lemma validate_nodes_Inr:
  "validate_nodes ns keys names = Inr keys' \<Longrightarrow>
     list_all node_texts_ok ns \<and> distinct (map ni_key ns) \<and> distinct (map ni_qualified ns)
     \<and> ni_key ` set ns \<inter> set keys = {} \<and> ni_qualified ` set ns \<inter> set names = {}
     \<and> set keys' = set keys \<union> ni_key ` set ns"
  by (induction ns arbitrary: keys names) (force split: if_splits)+

lemma validate_foreign_keys_Inr:
  "validate_foreign_keys columns ks seen = Inr u \<Longrightarrow>
     list_all (foreign_key_ok columns) ks \<and> distinct (map foreign_key_key ks)
     \<and> foreign_key_key ` set ks \<inter> set seen = {}"
  by (induction ks arbitrary: seen) (force split: if_splits)+

lemma parent_ok_cong: "set keys = set keys' \<Longrightarrow> parent_ok keys = parent_ok keys'"
  by (auto simp: parent_ok_def fun_eq_iff)

lemma validate_snapshot_Inr:
  assumes "validate_snapshot cmd = Inr u"
  shows "pb_data_source cmd > 0" "pb_nodes cmd \<noteq> []" "int (length (pb_nodes cmd)) \<le> maximum_snapshot_nodes"
    "int (length (pb_keys cmd)) \<le> maximum_snapshot_foreign_keys" "list_all node_texts_ok (pb_nodes cmd)"
    "distinct (map ni_key (pb_nodes cmd))" "distinct (map ni_qualified (pb_nodes cmd))"
    "list_all (parent_ok (map ni_key (pb_nodes cmd))) (pb_nodes cmd)"
    "list_all (foreign_key_ok (column_names (pb_nodes cmd))) (pb_keys cmd)"
    "distinct (map foreign_key_key (pb_keys cmd))"
proof -
  from assms obtain keys where
    1: "\<not> (pb_data_source cmd \<le> 0 \<or> pb_nodes cmd = [] \<or> int (length (pb_nodes cmd)) > maximum_snapshot_nodes
       \<or> int (length (pb_keys cmd)) > maximum_snapshot_foreign_keys)" and
    2: "validate_nodes (pb_nodes cmd) [] [] = Inr keys" and
    3: "list_all (parent_ok keys) (pb_nodes cmd)" and
    4: "validate_foreign_keys (column_names (pb_nodes cmd)) (pb_keys cmd) [] = Inr ()"
    by (auto simp: validate_snapshot_def result_simps column_names_def)
  note nodes = validate_nodes_Inr [OF 2] and fks = validate_foreign_keys_Inr [OF 4]
  show "pb_data_source cmd > 0" "pb_nodes cmd \<noteq> []" "int (length (pb_nodes cmd)) \<le> maximum_snapshot_nodes"
    "int (length (pb_keys cmd)) \<le> maximum_snapshot_foreign_keys"
    using 1 by simp_all
  show "list_all node_texts_ok (pb_nodes cmd)" "distinct (map ni_key (pb_nodes cmd))"
    "distinct (map ni_qualified (pb_nodes cmd))" using nodes by simp_all
  have "parent_ok keys = parent_ok (map ni_key (pb_nodes cmd))"
    by (rule parent_ok_cong) (use nodes in simp)
  with 3 show "list_all (parent_ok (map ni_key (pb_nodes cmd))) (pb_nodes cmd)" by simp
  show "list_all (foreign_key_ok (column_names (pb_nodes cmd))) (pb_keys cmd)"
    "distinct (map foreign_key_key (pb_keys cmd))" using fks by simp_all
qed

text \<open>
  What a publication that the service hands to its repository looks like: between 1 and 100000 nodes
  with texts in their bounds, stable keys and qualified names that are each used once, parents among
  the nodes (only a database has none), at most 80000 foreign keys between different columns of the
  snapshot, none given twice, and at most 100 valid table names as its scope, in order. A command
  that does not give such a publication is answered with an error before the repository is called.
\<close>

theorem snapshots_are_well_formed:
  "(\<exists>e w'. publish_snapshot sv cmd w = (Inl e, w') \<and> (w' = w \<or> w' = snd (kv_ids sv w)))
   \<or> (\<exists>p. well_formed_publication p \<and> pu_data_source p = pb_data_source cmd \<and> pu_nodes p = pb_nodes cmd
        \<and> pu_keys p = pb_keys cmd
        \<and> publish_snapshot sv cmd w = ct_publish (kv_repository sv) p (snd (kv_ids sv w)))"
proof (cases "normalize_scope_tables (pb_scope cmd)")
  case (Inl e)
  then show ?thesis by (simp add: publish_snapshot_def act_bind_def act_pure_def)
next
  case scope: (Inr scope)
  show ?thesis
  proof (cases "validate_snapshot (cmd\<lparr>pb_scope := scope\<rparr>)")
    case (Inl e)
    with scope show ?thesis by (simp add: publish_snapshot_def act_bind_def act_pure_def)
  next
    case (Inr u)
    obtain r w' where ids: "kv_ids sv w = (r, w')" by (cases "kv_ids sv w")
    show ?thesis
    proof (cases r)
      case (Inl e)
      with scope Inr ids show ?thesis by (simp add: publish_snapshot_def act_bind_def act_pure_def)
    next
      case run: (Inr run_id)
      let ?p = "\<lparr>pu_run = run_id, pu_data_source = pb_data_source cmd, pu_nodes = pb_nodes cmd,
        pu_keys = pb_keys cmd, pu_scope = scope, pu_started_at = kv_now sv, pu_prestarted = False\<rparr>"
      have "well_formed_publication ?p"
        using validate_snapshot_Inr [OF Inr] normalize_scope_tables_Inr [OF scope]
        by (simp add: well_formed_publication_def)
      moreover have "publish_snapshot sv cmd w = ct_publish (kv_repository sv) ?p w'"
        using scope Inr ids run by (simp add: publish_snapshot_def act_bind_def act_pure_def)
      ultimately show ?thesis using ids by (intro disjI2 exI [of _ ?p]) simp
    qed
  qed
qed

subsection \<open>Connection strings\<close>

text \<open>What may be stored of a connection string: nothing, or what the sealer made of it.\<close>

definition sealed_form :: "'w catalog_service \<Rightarrow> string \<Rightarrow> string \<times> string \<Rightarrow> bool" where
  "sealed_form sv dsn sealed \<longleftrightarrow>
     (if trim_space dsn = [] then sealed = ([], [])
      else \<exists>seal. kv_seal sv = Some seal \<and> seal (trim_space dsn) = Some sealed)"

lemma seal_dsn_Inr: "seal_dsn sv dsn = Inr sealed \<Longrightarrow> sealed_form sv dsn sealed"
  by (auto simp: seal_dsn_def sealed_form_def Let_def result_simps split: if_splits option.splits)

lemma seal_dsn_sealer: "seal_dsn sv dsn = Inr sealed \<Longrightarrow> trim_space dsn \<noteq> [] \<Longrightarrow> kv_seal sv \<noteq> None"
  by (auto simp: seal_dsn_def Let_def result_simps split: option.splits)

text \<open>The source and the event that registering a source leaves to the repository.\<close>

definition registered_source ::
  "'w catalog_service \<Rightarrow> admin_create_data_source \<Rightarrow> int \<Rightarrow> string \<times> string \<Rightarrow> data_source" where
  "registered_source sv cmd source_id sealed =
     \<lparr>ds_id = source_id, ds_name = trim_space (ac_name cmd), ds_kind = data_source_mysql,
      ds_environment = trim_space (ac_environment cmd), ds_key_id = fst sealed, ds_ciphertext = snd sealed,
      ds_created_at = kv_now sv, ds_updated_at = kv_now sv\<rparr>"

definition registration_event ::
  "'w catalog_service \<Rightarrow> admin_create_data_source \<Rightarrow> int \<Rightarrow> int \<Rightarrow> bool \<Rightarrow> audit_event" where
  "registration_event sv cmd source_id audit_id stored =
     source_event audit_id (trim_space (pr_actor (ac_principal cmd))) (pr_origin (ac_principal cmd))
       ''DATA_SOURCE_CREATED'' source_id
       (audit_reason (trim_space (ac_reason cmd)) ''Registered from the console'') (trim_space (ac_request_id cmd))
       (text_map [(''dsnEnvironment'', trim_space (ac_environment cmd)),
          (''dsnStored'', if stored then ''true'' else ''false''), (''kind'', ''MYSQL'')]) (kv_now sv)"

text \<open>C23.
  Registering a source ends in one of two ways: with an error that comes before any call of the
  repository, or with a call that stores the source and its audit event together. What the call holds
  of the connection string is nothing, when none was given, or what the sealer made of it, and the
  event only says whether one was stored. Only an administrator gets that far.
\<close>

theorem connection_string_reaches_only_sealed:
  "(\<exists>e. fst (create_data_source_as_admin sv cmd w) = Inl e
      \<and> snd (create_data_source_as_admin sv cmd w) \<in> {w, snd (kv_ids sv w), snd (kv_ids sv (snd (kv_ids sv w)))})
   \<or> (\<exists>source_id audit_id sealed.
        sealed_form sv (ac_dsn cmd) sealed \<and> pr_role (ac_principal cmd) = RoleAdmin
        \<and> create_data_source_as_admin sv cmd w
          = act_bind (ct_create_audited (kv_repository sv) (registered_source sv cmd source_id sealed)
               (registration_event sv cmd source_id audit_id (snd sealed \<noteq> [])))
              (\<lambda>_. act_pure (Inr (registered_source sv cmd source_id sealed)))
              (snd (kv_ids sv (snd (kv_ids sv w)))))"
proof -
  let ?r = "create_data_source_as_admin sv cmd w"
  obtain r1 w1 where 1: "kv_ids sv w = (r1, w1)" by (cases "kv_ids sv w")
  obtain r2 w2 where 2: "kv_ids sv w1 = (r2, w2)" by (cases "kv_ids sv w1")
  note defs = create_data_source_as_admin_def create_data_source_def Let_def act_bind_def act_pure_def fail_if_def
  show ?thesis
  proof (cases "\<exists>e. fst ?r = Inl e \<and> snd ?r \<in> {w, w1, w2}")
    case True
    then show ?thesis by (simp add: 1 2)
  next
    case False
    let ?actor = "trim_space (pr_actor (ac_principal cmd))"
    have admin: "pr_role (ac_principal cmd) = RoleAdmin"
      using False by (rule contrapos_np) (simp add: defs)
    have guard: "\<not> (?actor = [] \<or> length ?actor > 200
       \<or> length (trim_space (ac_reason cmd)) > 2000 \<or> trim_space (ac_request_id cmd) = []
       \<or> length (trim_space (ac_request_id cmd)) > 200
       \<or> pr_origin (ac_principal cmd) \<noteq> OriginAgent \<and> pr_origin (ac_principal cmd) \<noteq> OriginWeb)" (is "\<not> ?bad")
    proof
      assume ?bad
      then have "?r = (Inl ErrInvalidDataSource, w)" by (simp add: defs admin)
      with False show False by simp
    qed
    have kind: "ac_kind cmd = data_source_mysql"
      using False by (rule contrapos_np) (simp add: defs admin guard)
    have name: "\<not> (trim_space (ac_name cmd) = [] \<or> length (trim_space (ac_name cmd)) > 200
        \<or> \<not> valid_environment_name (trim_space (ac_environment cmd)))" (is "\<not> ?noname")
    proof
      assume ?noname
      then have "?r = (Inl ErrInvalidDataSource, w)" by (simp add: defs admin guard kind)
      with False show False by simp
    qed
    obtain source_id where id1: "r1 = Inr source_id"
    proof (cases r1)
      case (Inl e)
      then have "?r = (Inl e, w1)" by (simp add: defs admin guard kind name 1)
      with False have False by simp
      then show thesis ..
    qed
    obtain sealed where sealed: "seal_dsn sv (ac_dsn cmd) = Inr sealed"
    proof (cases "seal_dsn sv (ac_dsn cmd)")
      case (Inl e)
      then have "?r = (Inl e, w1)" by (simp add: defs admin guard kind name 1 id1)
      with False have False by simp
      then show thesis ..
    qed
    obtain key ciphertext where parts: "sealed = (key, ciphertext)" by (cases sealed)
    obtain audit_id where id2: "r2 = Inr audit_id"
    proof (cases r2)
      case (Inl e)
      then have "?r = (Inl e, w2)" by (simp add: defs admin guard kind name 1 2 id1 sealed parts)
      with False have False by simp
      then show thesis ..
    qed
    have "?r = act_bind (ct_create_audited (kv_repository sv) (registered_source sv cmd source_id sealed)
               (registration_event sv cmd source_id audit_id (snd sealed \<noteq> [])))
              (\<lambda>_. act_pure (Inr (registered_source sv cmd source_id sealed))) w2"
      by (simp add: defs admin guard kind name 1 2 id1 id2 sealed parts registered_source_def registration_event_def
          stored_label_def)
    with seal_dsn_Inr [OF sealed] admin show ?thesis
      by (intro disjI2 exI [of _ source_id] exI [of _ audit_id] exI [of _ sealed] conjI) (simp_all add: 1 2)
  qed
qed

end
