(* ===== verification/CatalogRuns.thy ===== *)
theory CatalogRuns
  imports DeclaredLoop RelationLifecycle CatalogChecks
begin

section \<open>The catalog service on its tables\<close>

text \<open>
  The service of \<open>Catalog\<close> on the repository of \<open>CatalogRepository\<close> and \<open>DeclaredKeys\<close>, and a run
  of any calls: what one call does to the catalog of its source, to the declared keys and to the
  invariants of the tables.
\<close>

definition sqlite_catalog :: "'g catalog_store \<Rightarrow> (catalog_db \<times> 'g) catalog_repository" where
  "sqlite_catalog ck =
     \<lparr>ct_create = create_stored_source ck, ct_create_audited = create_stored_source_with_audit ck,
      ct_get = (\<lambda>i w. get_stored_source i (fst w)), ct_list = (\<lambda>n w. list_all_data_sources n (fst w)),
      ct_update = update_data_source_with_audit ck, ct_delete = delete_stored_source ck,
      ct_begin_scan = begin_stored_scan ck, ct_fail_scan = fail_stored_scan ck,
      ct_publish = publish_stored_snapshot ck,
      ct_find_node = (\<lambda>i name w. find_stored_node i name (fst w)),
      ct_get_node = (\<lambda>i w. get_stored_node i (fst w)), ct_tables = None\<rparr>"

definition catalog_on_tables ::
  "'g catalog_store \<Rightarrow> int \<Rightarrow> (string \<Rightarrow> (string \<times> string) option) option \<Rightarrow> (string \<Rightarrow> bool) option
    \<Rightarrow> (catalog_db \<times> 'g) catalog_service" where
  "catalog_on_tables ck now seal usable =
     \<lparr>kv_repository = sqlite_catalog ck, kv_ids = catalog_id ck, kv_now = now, kv_seal = seal,
      kv_validate = usable\<rparr>"

datatype catalog_call =
    CallCreateSource admin_create_data_source | CallUpdateSource admin_update_data_source
  | CallDeleteSource int | CallBeginScan int | CallFailScan schema_scan_run string
  | CallPublish publish_snapshot_command | CallPublishStarted schema_scan_run publish_snapshot_command
  | CallChangeRelation bool state_record

text \<open>
  A reviewer's suppression or restoration on the same tables. Of the calls of the relation
  repository these are the ones that a declared relation can meet: the commands refuse to revise
  or invalidate it (\<open>propose_revision\<close>, \<open>prepare_invalidation\<close>), so that there is nothing to review.
\<close>

definition change_relation_state ::
  "'g catalog_store \<Rightarrow> bool \<Rightarrow> state_record \<Rightarrow> (catalog_db \<times> 'g, catalog_error, relation) action" where
  "change_relation_state ck suppressing t w =
     (case perform (sqlite_repository (ck_codec ck) (relation_statements ck))
             (if suppressing then CallSuppress t else CallRestore t) (relation_view (fst w)) of
        (r, rd) \<Rightarrow> (map_sum CatalogRelationError id r, ((fst w)\<lparr>cat_relations := rd\<rparr>, snd w)))"

text \<open>A call at a time of its own; its answer is left out.\<close>

definition serve_catalog_call ::
  "'g catalog_store \<Rightarrow> (string \<Rightarrow> (string \<times> string) option) option \<Rightarrow> (string \<Rightarrow> bool) option
    \<Rightarrow> int \<times> catalog_call \<Rightarrow> catalog_db \<times> 'g \<Rightarrow> catalog_db \<times> 'g" where
  "serve_catalog_call ck seal usable timed w =
     (let sv = catalog_on_tables ck (fst timed) seal usable in
      case snd timed of
        CallCreateSource cmd \<Rightarrow> snd (create_data_source_as_admin sv cmd w)
      | CallUpdateSource cmd \<Rightarrow> snd (update_data_source_as_admin sv cmd w)
      | CallDeleteSource i \<Rightarrow> snd (delete_data_source sv i w)
      | CallBeginScan i \<Rightarrow> snd (begin_schema_scan sv i w)
      | CallFailScan run code \<Rightarrow> snd (fail_schema_scan sv run code w)
      | CallPublish cmd \<Rightarrow> snd (publish_snapshot sv cmd w)
      | CallPublishStarted run cmd \<Rightarrow> snd (publish_started_snapshot sv run cmd w)
      | CallChangeRelation suppressing t \<Rightarrow> snd (change_relation_state ck suppressing t w))"

definition serve_catalog ::
  "'g catalog_store \<Rightarrow> (string \<Rightarrow> (string \<times> string) option) option \<Rightarrow> (string \<Rightarrow> bool) option
    \<Rightarrow> (int \<times> catalog_call) list \<Rightarrow> catalog_db \<times> 'g \<Rightarrow> catalog_db \<times> 'g" where
  "serve_catalog ck seal usable calls w = fold (serve_catalog_call ck seal usable) calls w"

definition empty_catalog :: catalog_db where
  "empty_catalog =
     \<lparr>cat_relations = empty_db [] [], sources_t = [], nodes_t = [], node_versions_t = [], node_current_t = [],
      node_search_t = [], source_scans_t = [], declared_keys_t = [], scan_keys_t = [], binding_members_t = [],
      source_audit_t = []\<rparr>"

subsection \<open>The invariant of all tables\<close>

definition catalog_ok :: "'g catalog_store \<Rightarrow> catalog_db \<Rightarrow> bool" where
  "catalog_ok ck d \<longleftrightarrow> catalog_inv d \<and> keys_ok d \<and> store_inv (ck_codec ck) (cat_relations d)"

lemma catalog_ok_empty: "catalog_ok ck empty_catalog"
  by (simp add: catalog_ok_def empty_catalog_def catalog_inv_def nodes_ok_def node_ids_def searches_of_def
      current_version_def keys_ok_def store_inv_empty)

text \<open>Tables that a call about sources and scans leaves: the nodes, the relations, and the keys but for rows taken out.\<close>

definition set_apart :: "catalog_db \<Rightarrow> catalog_db \<Rightarrow> bool" where
  "set_apart d d' \<longleftrightarrow>
     node_tables d' = node_tables d \<and> cat_relations d' = cat_relations d
     \<and> (\<exists>P. declared_keys_t d' = filter P (declared_keys_t d))"

lemma set_apart_same: "d' = d \<Longrightarrow> set_apart d d'"
  by (auto simp: set_apart_def intro!: exI [of _ "\<lambda>_. True"])

lemma set_apart_trans: "set_apart d e \<Longrightarrow> set_apart e d' \<Longrightarrow> set_apart d d'"
  by (auto simp: set_apart_def)

lemma set_apart_ok:
  assumes "catalog_ok ck d" "set_apart d d'"
  shows "catalog_ok ck d'"
proof -
  obtain P where P: "node_tables d' = node_tables d" "cat_relations d' = cat_relations d"
      "declared_keys_t d' = filter P (declared_keys_t d)"
    using assms(2) by (auto simp: set_apart_def)
  have "keys_ok d'"
    using assms(1) P(2,3) node_ids_tables [OF P(1)]
    by (simp add: catalog_ok_def keys_ok_def distinct_map_filter)
  then show ?thesis
    using assms(1) P node_tables_cong(1) [OF P(1)] by (simp add: catalog_ok_def)
qed

lemma source_writes_set_apart:
  "insert_data_source ck source d = Inr d' \<Longrightarrow> set_apart d d'"
  "insert_source_audit ck event d = Inr d' \<Longrightarrow> set_apart d d'"
  "update_source_row ck source replace_secret d = Inr d' \<Longrightarrow> set_apart d d'"
  "delete_source_rows ck i d = Inr d' \<Longrightarrow> set_apart d d'"
  "insert_scan_run ck i j t d = Inr d' \<Longrightarrow> set_apart d d'"
  "fail_scan_row ck failure d = Inr d' \<Longrightarrow> set_apart d d'"
  by (auto simp: insert_data_source_def insert_source_audit_def update_source_row_def delete_source_rows_def
      insert_scan_run_def fail_scan_row_def Let_def result_simps set_apart_def node_tables_def
      intro: exI [of _ "\<lambda>_. True"] split: if_splits option.splits)

lemma complete_scan_set_apart: "complete_scan_run ck p n d = Inr d' \<Longrightarrow> set_apart d d'"
  by (auto simp: complete_scan_run_def result_simps set_apart_def node_tables_def intro: exI [of _ "\<lambda>_. True"])

lemma node_tables_current: "node_tables d = node_tables d' \<Longrightarrow> current_version d i = current_version d' i"
  by (simp add: node_tables_def current_version_def find_node_version_def split: option.split)

subsection \<open>Actions that keep the invariant\<close>

definition keeping :: "('w \<Rightarrow> bool) \<Rightarrow> ('w, 'e, 'a) action \<Rightarrow> bool" where
  "keeping P m \<longleftrightarrow> (\<forall>w. P w \<longrightarrow> P (snd (m w)))"

named_theorems steady_intros \<open>actions that keep an invariant\<close>

lemma keepingD: "keeping P m \<Longrightarrow> P w \<Longrightarrow> P (snd (m w))"
  by (simp add: keeping_def)

lemma keeping_pure [steady_intros]: "keeping P (act_pure r)"
  by (simp add: keeping_def act_pure_def)

lemma keeping_query [steady_intros]: "keeping P (query f)"
  by (simp add: keeping_def query_def)

lemma keeping_asks [steady_intros]: "keeping P (asks h)"
  by (simp add: keeping_def asks_def)

lemma keeping_bind [steady_intros]:
  assumes "keeping P m" "\<And>x. keeping P (f x)"
  shows "keeping P (act_bind m f)"
  using assms by (auto simp: keeping_def act_bind_def split: prod.splits sum.splits)

lemma keeping_guard [steady_intros]:
  "(\<And>x. r = Inr x \<Longrightarrow> keeping P (f x)) \<Longrightarrow> keeping P (act_bind (act_pure r) f)"
  by (cases r) (auto simp: keeping_def act_bind_def act_pure_def)

lemma keeping_if [steady_intros]:
  "(b \<Longrightarrow> keeping P m) \<Longrightarrow> (\<not> b \<Longrightarrow> keeping P n) \<Longrightarrow> keeping P (if b then m else n)"
  by simp

abbreviation steady :: "'g catalog_store \<Rightarrow> (catalog_db \<times> 'g, 'e, 'a) action \<Rightarrow> bool" where
  "steady ck \<equiv> keeping (\<lambda>w. catalog_ok ck (fst w))"

lemma steady_ids [steady_intros]: "steady ck (catalog_id ck')" "steady ck (on_ids m)"
  by (simp_all add: keeping_def catalog_id_def on_ids_def split: prod.splits)

lemma steady_tables [steady_intros]:
  "(\<And>d d'. f d = Inr d' \<Longrightarrow> set_apart d d') \<Longrightarrow> steady ck (write_tables f)"
  by (auto simp: keeping_def write_tables_def split: sum.splits intro: set_apart_ok)

lemma steady_write:
  assumes "\<And>w x w'. operation w = (Inr x, w') \<Longrightarrow> catalog_ok ck (fst w) \<Longrightarrow> catalog_ok ck (fst w')"
  shows "steady ck (catalog_write ck operation)"
  unfolding keeping_def
proof (intro allI impI)
  fix w :: "catalog_db \<times> 'a" assume ok: "catalog_ok ck (fst w)"
  obtain r w' where run: "catalog_write ck operation w = (r, w')" by (cases "catalog_write ck operation w")
  then show "catalog_ok ck (fst (snd (catalog_write ck operation w)))"
    by (cases rule: catalog_write_outcome) (use run ok assms [of w _ w'] in auto)
qed

lemma steady_write_of [steady_intros]: "steady ck operation \<Longrightarrow> steady ck (catalog_write ck operation)"
  by (rule steady_write) (metis keepingD snd_conv)

lemma steady_stored [steady_intros]:
  "steady ck (create_stored_source_with_audit ck source event)"
  "steady ck (update_data_source_with_audit ck source replace_secret event)"
  "steady ck (delete_stored_source ck i)" "steady ck (begin_stored_scan ck run)"
  "steady ck (fail_stored_scan ck failure)"
  by (auto simp: create_stored_source_with_audit_def update_data_source_with_audit_def delete_stored_source_def
      begin_stored_scan_def fail_stored_scan_def intro!: steady_intros intro: source_writes_set_apart)

subsection \<open>Suppressing and restoring a declared relation\<close>

lemma changed_state:
  assumes run: "perform (sqlite_repository cd eng) (if suppressing then CallSuppress t else CallRestore t) d = (Inr r, d')"
  obtains st0 where "declared_state d' = (declared_state d)(t_relation_id t :=
      (fst (declared_state d (t_relation_id t)), Some (None, if suppressing then StatusSuppressed else StatusApproved)))"
    "snd (declared_state d (t_relation_id t)) = Some (None, st0)"
    "st0 = (if suppressing then StatusApproved else StatusSuppressed)"
    "\<not> suppressing \<Longrightarrow> fst (declared_state d (t_relation_id t)) = Some TypeDeclaredForeignKey \<Longrightarrow>
       declared_foreign_key_is_present d (t_relation_id t)"
proof -
  have "change_state_operation cd eng suppressing t d = Inr (r, d')"
    using run by (cases suppressing) (simp_all add: perform_sqlite transaction_Inr)
  from change_effect [OF this] obtain current c i es where
    e: "load_relation cd d (t_relation_id t) = Inr current" "find_current d (t_relation_id t) = Some c"
      "cr_proposed c = None" "cr_status c = (if suppressing then StatusApproved else StatusSuppressed)"
      "\<not> suppressing \<and> r_type current = TypeDeclaredForeignKey \<longrightarrow> declared_foreign_key_is_present d (t_relation_id t)"
      "d' = changed_tables suppressing t i es d"
    by blast
  obtain rr where rr: "find_relation d (t_relation_id t) = Some rr" "r_type current = rr_type rr"
    by (rule load_relation_Inr [OF e(1)])
  have tables: "relations_t d' = relations_t d"
    "current_t d' = map (\<lambda>x. if cr_relation x = t_relation_id t then changed_row suppressing t x else x) (current_t d)"
    by (simp_all add: e(6) changed_tables_def frame_simps)
  have row: "cr_relation (changed_row suppressing t x) = cr_relation x" "cr_proposed (changed_row suppressing t x) = cr_proposed x"
    "cr_status (changed_row suppressing t x) = (if suppressing then StatusSuppressed else StatusApproved)" for x
    by (simp_all add: changed_row_def)
  show thesis
  proof (rule that)
    show "declared_state d' = (declared_state d)(t_relation_id t :=
      (fst (declared_state d (t_relation_id t)), Some (None, if suppressing then StatusSuppressed else StatusApproved)))"
      using declared_state_update [OF tables row(1) e(2)] e(3) by (simp add: row)
  qed (use e rr in \<open>simp_all add: declared_state_def\<close>)
qed

lemma relations_replaced:
  assumes "catalog_ok ck d" "store_inv (ck_codec ck) rd"
    and "\<And>r. r \<in> set (declared_keys_t d) \<Longrightarrow> declared_ok rd (dr_present r) (dr_relation r)"
  shows "catalog_ok ck (d\<lparr>cat_relations := rd\<rparr>)"
proof -
  let ?d = "d\<lparr>cat_relations := rd\<rparr>"
  have same: "node_tables ?d = node_tables d" by (simp add: node_tables_def)
  have "catalog_inv ?d" using node_tables_cong(1) [OF same] assms(1) by (simp only: catalog_ok_def)
  moreover have "node_ids ?d = node_ids d" by (rule node_ids_tables [OF same])
  moreover have "declared_keys_t ?d = declared_keys_t d" "cat_relations ?d = rd" by simp_all
  ultimately show ?thesis using assms unfolding catalog_ok_def keys_ok_def by simp
qed

lemma steady_change:
  assumes "codec_stable (ck_codec ck)"
  shows "steady ck (change_relation_state ck suppressing t)"
  unfolding keeping_def
proof (intro allI impI)
  fix w :: "catalog_db \<times> 'a" assume ok: "catalog_ok ck (fst w)"
  let ?d = "fst w" and ?call = "if suppressing then CallSuppress t else CallRestore t"
  obtain res rd where run: "perform (sqlite_repository (ck_codec ck) (relation_statements ck)) ?call (relation_view ?d) = (res, rd)"
    by fastforce
  have state: "fst (snd (change_relation_state ck suppressing t w)) = ?d\<lparr>cat_relations := rd\<rparr>"
    by (simp add: change_relation_state_def run)
  have inv: "store_inv (ck_codec ck) (relation_view ?d)" using ok by (simp add: catalog_ok_def)
  have keys: "declared_ok (cat_relations ?d) (dr_present r) (dr_relation r)" if "r \<in> set (declared_keys_t ?d)" for r
    using ok that by (simp add: catalog_ok_def keys_ok_def)
  from run have "store_inv (ck_codec ck) rd
    \<and> (\<forall>r\<in>set (declared_keys_t ?d). declared_ok rd (dr_present r) (dr_relation r))"
  proof (cases rule: perform_outcome)
    case 1
    with inv keys show ?thesis by (simp add: declared_ok_def)
  next
    case (2 r)
    from changed_state [OF 2] obtain st0 where
      st: "declared_state rd = (declared_state (cat_relations ?d))(t_relation_id t :=
        (fst (declared_state (cat_relations ?d) (t_relation_id t)), Some (None, if suppressing then StatusSuppressed else StatusApproved)))"
        "snd (declared_state (cat_relations ?d) (t_relation_id t)) = Some (None, st0)"
        "st0 = (if suppressing then StatusApproved else StatusSuppressed)"
        "\<not> suppressing \<Longrightarrow> fst (declared_state (cat_relations ?d) (t_relation_id t)) = Some TypeDeclaredForeignKey \<Longrightarrow>
          declared_foreign_key_is_present (relation_view ?d) (t_relation_id t)"
      by (metis relation_view_simps(3))
    have "declared_ok rd (dr_present x) (dr_relation x)" if x: "x \<in> set (declared_keys_t ?d)" for x
    proof (cases "dr_relation x = t_relation_id t")
      case False
      with keys [OF x] show ?thesis by (simp add: declared_ok_def st(1))
    next
      case True
      have "dr_present x" if "\<not> suppressing"
      proof -
        have "declared_foreign_key_is_present (relation_view ?d) (dr_relation x)"
          using st(4) that keys [OF x] True by (simp add: declared_ok_def)
        moreover have "map_of (declared_t (relation_view ?d)) (dr_relation x) = Some (dr_present x)"
          using ok x by (intro map_of_is_SomeI) (auto simp: relation_view_def catalog_ok_def keys_ok_def comp_def)
        ultimately show ?thesis by (simp add: declared_foreign_key_is_present_def)
      qed
      then show ?thesis using keys [OF x] True st(2,3)
        by (cases suppressing) (auto simp: declared_ok_def st(1) split: if_splits)
    qed
    with perform_invariant [OF assms inv 2] show ?thesis by blast
  qed
  with relations_replaced [OF ok, of rd] state show "catalog_ok ck (fst (snd (change_relation_state ck suppressing t w)))"
    by simp
qed

subsection \<open>A publication\<close>

lemma start_set_apart: "start_publication ck p w = (Inr u, w') \<Longrightarrow> set_apart (fst w) (fst w')"
  by (auto simp: start_publication_def result_simps set_apart_same split: if_splits dest: source_writes_set_apart(5))

lemma only_nodes_keys:
  assumes "only_nodes_differ d d'" "node_ids d \<subseteq> node_ids d'" "keys_ok d"
  shows "keys_ok d'" and "cat_relations d' = cat_relations d" and "key_row d' = key_row d"
  using assms by (auto simp: only_nodes_differ_def keys_ok_def key_row_def fun_eq_iff)

text \<open>A publication that succeeded, from its parts.\<close>

lemma publish_effect_parts:
  assumes step: "publish_stored_operation ck p w = (Inr res, w')" and ok: "catalog_ok ck (fst w)"
    and pok: "publication_ok p"
  obtains d2 where "catalog_inv d2" "keys_ok d2" "store_inv (ck_codec ck) (cat_relations d2)"
    "catalog_ok ck (fst w')"
    "catalog_view (fst w') (pu_data_source p) = publish_view (pu_nodes p) (pu_scope p) (catalog_view (fst w) (pu_data_source p))"
    "\<And>i. i \<noteq> pu_data_source p \<Longrightarrow> catalog_view (fst w') i = catalog_view (fst w) i"
    "node_tables d2 = node_tables (fst w')"
    "\<forall>key\<in>snapshot_keys ck p. \<exists>r. key_row (fst w') (pu_data_source p) key = Some r
      \<and> dr_present r \<and> dr_last_seen r = pu_run p"
    "\<And>key r. key \<notin> snapshot_keys ck p \<Longrightarrow> key_row (fst w) (pu_data_source p) key = Some r \<Longrightarrow>
      dr_present r \<Longrightarrow> key_in_scope (pu_scope p) (fst w') r \<Longrightarrow>
      \<exists>r'. key_row (fst w') (pu_data_source p) key = Some r' \<and> \<not> dr_present r'"
    "\<And>i key. \<not> (i = pu_data_source p \<and> key \<in> snapshot_keys ck p) \<Longrightarrow>
      (\<And>r. key_row (fst w) i key = Some r \<Longrightarrow> \<not> (i = pu_data_source p \<and> dr_present r \<and> key_in_scope (pu_scope p) (fst w') r)) \<Longrightarrow>
      key_row (fst w') i key = key_row (fst w) i key"
    "ps_nodes res = int (length (pu_nodes p))"
proof -
  from step obtain v1 ids stale v2 v3 where
    1: "start_publication ck p w = (Inr (), v1)" and
    2: "publish_nodes ck p v1 = (Inr (ids, stale), v2)" and
    3: "reconcile_declared_foreign_keys ck p ids v2 = (Inr (), v3)" and
    4: "complete_scan_run ck p stale (fst v3) = Inr (fst w')" and
    res: "ps_nodes res = int (length (pu_nodes p))"
    by (auto simp: publish_stored_operation_def result_simps)
  note start = start_set_apart [OF 1]
  have ok1: "catalog_ok ck (fst v1)" by (rule set_apart_ok [OF ok start])
  then have inv1: "catalog_inv (fst v1)" by (simp add: catalog_ok_def)
  obtain new vs where pub: "publication_writes p (fst v1) new vs (fst v2)" using publish_nodes_effect(1) [OF 2 inv1 pok] by blast
  have inv2: "catalog_inv (fst v2)" by (rule publishes_inv [OF inv1 pub pok])
  have "node_ids (fst v1) \<subseteq> node_ids (fst v2)" using publishes_nodes [OF pub] by simp
  note keys2 = only_nodes_keys [OF publish_nodes_effect(2) [OF 2 inv1 pok] this]
  have ok2: "keys_ok (fst v2)" "store_inv (ck_codec ck) (cat_relations (fst v2))"
    using keys2 ok1 by (simp_all add: catalog_ok_def)
  note rec = reconcile_declared_effect [OF 3 ok2(1) inv2 ok2(2)]
  have nodes3: "node_tables (fst v3) = node_tables (fst v2)" by (rule reconcile_declared_nodes [OF 3])
  have ok3: "catalog_ok ck (fst v3)"
    using rec(1,2) inv2 node_tables_cong(1) [OF nodes3] by (simp add: catalog_ok_def)
  note last = complete_scan_set_apart [OF 4]
  have ok': "catalog_ok ck (fst w')" by (rule set_apart_ok [OF ok3 last])
  have nodes': "node_tables (fst w') = node_tables (fst v2)" using last nodes3 by (simp add: set_apart_def)
  have start_nodes: "node_tables (fst v1) = node_tables (fst w)" using start by (simp add: set_apart_def)
  have rows_start: "declared_keys_t (fst v1) = declared_keys_t (fst w)"
    using 1 by (auto simp: start_publication_def insert_scan_run_def Let_def result_simps split: if_splits)
  have rows_last: "declared_keys_t (fst w') = declared_keys_t (fst v3)"
    using 4 by (auto simp: complete_scan_run_def result_simps)
  have before: "key_row (fst v2) = key_row (fst w)"
    using keys2(3) ok1 rows_start by (simp add: catalog_ok_def key_row_def fun_eq_iff)
  have after: "key_row (fst w') = key_row (fst v3)" by (simp add: key_row_def rows_last fun_eq_iff)
  have scope: "key_in_scope (pu_scope p) (fst v2) r = key_in_scope (pu_scope p) (fst w') r" for r
    using node_tables_current [OF nodes'] by (simp add: key_in_scope_def)
  show thesis
  proof (rule that [of "fst v2"])
    show "catalog_view (fst w') (pu_data_source p)
        = publish_view (pu_nodes p) (pu_scope p) (catalog_view (fst w) (pu_data_source p))"
      using publishes_view(1) [OF inv1 pub pok] node_tables_cong(2) [OF nodes'] node_tables_cong(2) [OF start_nodes] by simp
    show "catalog_view (fst w') i = catalog_view (fst w) i" if "i \<noteq> pu_data_source p" for i
      using publishes_view(2) [OF inv1 pub pok that] node_tables_cong(2) [OF nodes'] node_tables_cong(2) [OF start_nodes] by simp
    show "\<exists>r'. key_row (fst w') (pu_data_source p) key = Some r' \<and> \<not> dr_present r'"
      if "key \<notin> snapshot_keys ck p" "key_row (fst w) (pu_data_source p) key = Some r" "dr_present r"
        "key_in_scope (pu_scope p) (fst w') r" for key r
      using rec(4) that unfolding before after scope by blast
    show "key_row (fst w') i key = key_row (fst w) i key"
      if "\<not> (i = pu_data_source p \<and> key \<in> snapshot_keys ck p)"
        "\<And>r. key_row (fst w) i key = Some r \<Longrightarrow> \<not> (i = pu_data_source p \<and> dr_present r \<and> key_in_scope (pu_scope p) (fst w') r)" for i key
      using rec(5) that unfolding before after scope by blast
    show "\<forall>key\<in>snapshot_keys ck p. \<exists>r. key_row (fst w') (pu_data_source p) key = Some r
      \<and> dr_present r \<and> dr_last_seen r = pu_run p"
      using rec(3) unfolding after .
  qed (use inv2 ok2 ok' nodes' res in simp_all)
qed

lemma steady_publish: "publication_ok p \<Longrightarrow> steady ck (publish_stored_snapshot ck p)"
  unfolding publish_stored_snapshot_def
  by (intro steady_intros keeping_bind steady_write)
    (auto intro: steady_intros elim: publish_effect_parts split: option.splits)

end
