(* ===== verification/CatalogProperties.thy ===== *)
theory CatalogProperties
  imports CatalogRuns
begin

section \<open>Properties of the catalog\<close>

text \<open>
  The runs of the catalog: the invariant of all its tables, the catalog of a source as a map that a
  publication updates, and what becomes of the declared foreign keys.
\<close>

subsection \<open>Every call keeps the invariant\<close>

lemma validated_publication_ok:
  assumes "validate_snapshot cmd = Inr u" "pu_nodes p = pb_nodes cmd"
  shows "publication_ok p"
  using validate_snapshot_Inr(6,8) [OF assms(1)] assms(2)
  by (auto simp: publication_ok_def list_all_iff parent_ok_def split: if_splits)

text \<open>
  What the service relies on: \<open>catalog_contract\<close> is a repository whose operations keep a condition
  of the state, a publication when it comes checked. Inside it the service keeps the condition.
\<close>

locale catalog_contract =
  fixes repo :: "'w catalog_repository" and keeps :: "'w \<Rightarrow> bool"
  assumes create_law: "keeping keeps (ct_create_audited repo source event)"
    and update_law: "keeping keeps (ct_update repo source replace_secret event)"
    and delete_law: "keeping keeps (ct_delete repo i)"
    and begin_law: "keeping keeps (ct_begin_scan repo scan)"
    and fail_law: "keeping keeps (ct_fail_scan repo failure)"
    and publish_law: "publication_ok p \<Longrightarrow> keeping keeps (ct_publish repo p)"
begin

lemmas laws = create_law update_law delete_law begin_law fail_law

lemma source_calls_keep:
  assumes "kv_repository sv = repo" "keeping keeps (kv_ids sv)"
  shows "keeping keeps (create_data_source_as_admin sv new_source)"
    and "keeping keeps (update_data_source_as_admin sv change)"
    and "keeping keeps (delete_data_source sv i)"
    and "keeping keeps (begin_schema_scan sv i)"
    and "keeping keeps (fail_schema_scan sv scan code)"
  unfolding create_data_source_as_admin_def create_data_source_def update_data_source_as_admin_def
    delete_data_source_def begin_schema_scan_def fail_schema_scan_def Let_def option.case assms(1)
  by (auto intro!: steady_intros laws assms(2) simp: split_beta)

lemma publications_keep:
  assumes "kv_repository sv = repo" "keeping keeps (kv_ids sv)"
  shows "keeping keeps (publish_snapshot sv cmd)" and "keeping keeps (publish_started_snapshot sv scan cmd)"
  unfolding publish_snapshot_def publish_started_snapshot_def assms(1)
  by (auto intro!: keeping_guard keeping_bind publish_law assms(2) intro: validated_publication_ok)

end

lemma on_tables_fields:
  "kv_repository (catalog_on_tables ck now seal usable) = sqlite_catalog ck"
  "kv_ids (catalog_on_tables ck now seal usable) = catalog_id ck"
  "ct_create_audited (sqlite_catalog ck) = create_stored_source_with_audit ck"
  "ct_update (sqlite_catalog ck) = update_data_source_with_audit ck"
  "ct_delete (sqlite_catalog ck) = delete_stored_source ck"
  "ct_begin_scan (sqlite_catalog ck) = begin_stored_scan ck"
  "ct_fail_scan (sqlite_catalog ck) = fail_stored_scan ck"
  "ct_publish (sqlite_catalog ck) = publish_stored_snapshot ck"
  by (simp_all add: catalog_on_tables_def sqlite_catalog_def)

interpretation sqlite_tables: catalog_contract "sqlite_catalog ck" "\<lambda>w. catalog_ok ck (fst w)" for ck
  by unfold_locales (simp_all add: on_tables_fields steady_stored steady_publish)

lemma serve_call_ok:
  assumes "codec_stable (ck_codec ck)" "catalog_ok ck (fst w)"
  shows "catalog_ok ck (fst (serve_catalog_call ck seal usable timed w))"
proof -
  let ?sv = "catalog_on_tables ck (fst timed) seal usable"
  have sv: "kv_repository ?sv = sqlite_catalog ck" "steady ck (kv_ids ?sv)"
    by (simp_all add: on_tables_fields steady_ids)
  note kept = sqlite_tables.source_calls_keep [OF sv] sqlite_tables.publications_keep [OF sv] steady_change [OF assms(1)]
  show ?thesis
    unfolding serve_catalog_call_def Let_def
    by (cases "snd timed") (simp_all add: keepingD [OF kept(1) assms(2)] keepingD [OF kept(2) assms(2)]
        keepingD [OF kept(3) assms(2)] keepingD [OF kept(4) assms(2)] keepingD [OF kept(5) assms(2)]
        keepingD [OF kept(6) assms(2)] keepingD [OF kept(7) assms(2)] keepingD [OF kept(8) assms(2)])
qed

lemma serve_ok:
  "codec_stable (ck_codec ck) \<Longrightarrow> catalog_ok ck (fst w) \<Longrightarrow> catalog_ok ck (fst (serve_catalog ck seal usable calls w))"
  unfolding serve_catalog_def by (induction calls arbitrary: w) (simp_all add: serve_call_ok)

lemma reachable_catalog_ok:
  "codec_stable (ck_codec ck) \<Longrightarrow> catalog_ok ck (fst (serve_catalog ck seal usable calls (empty_catalog, g)))"
  by (rule serve_ok) (simp_all add: catalog_ok_empty)

text \<open>C14.
  Whatever calls the catalog serves, with reviewers who suppress and restore relations in between, on
  whatever engine and generator of ids: every node of the catalog has one current version whose parent is a node, the search rows are those of the active
  nodes, every row of a declared foreign key stands for a relation of its own that is approved or
  suppressed while the key is present and a tombstone or suppressed once it is gone, and the tables
  of the relations are in order.
\<close>

theorem catalog_run_invariant:
  assumes "codec_stable (ck_codec ck)"
  shows "catalog_ok ck (fst (serve_catalog ck seal usable calls (empty_catalog, g)))"
  using assms by (rule reachable_catalog_ok)

subsection \<open>A publication\<close>

lemma publish_stored_outcome:
  assumes "publish_stored_snapshot ck p w = (r, w')"
  obtains (unchanged) e where "fst w' = fst w" "r = Inl e"
  | (published) res v where "fst v = fst w" "publish_stored_operation ck p v = (Inr res, w')"
      "r = Inr res \<or> r = Inl CatalogContextEnded"
proof -
  have "(fst w' = fst w \<and> (\<exists>e. r = Inl e))
    \<or> (\<exists>v. fst v = fst w \<and> catalog_write ck (publish_stored_operation ck p) v = (r, w'))"
    using assms
    by (cases w) (auto simp: publish_stored_snapshot_def act_bind_def act_pure_def on_ids_def
        split: option.splits prod.splits sum.splits)
  then consider e where "fst w' = fst w" "r = Inl e"
    | v where "fst v = fst w" "catalog_write ck (publish_stored_operation ck p) v = (r, w')" by blast
  then show thesis
  proof cases
    case 1
    then show thesis by (rule unchanged)
  next
    case (2 v)
    from 2(2) show thesis
      by (cases rule: catalog_write_outcome) (use 2(1) unchanged published in auto)
  qed
qed

lemma published_parts:
  assumes "publish_snapshot (catalog_on_tables ck now seal usable) cmd w = (r, w')
    \<or> publish_started_snapshot (catalog_on_tables ck now seal usable) run cmd w = (r, w')"
  obtains (unchanged) e where "fst w' = fst w" "r = Inl e"
  | (published) p res v where "normalize_scope_tables (pb_scope cmd) = Inr (pu_scope p)"
      "pu_data_source p = pb_data_source cmd" "pu_nodes p = pb_nodes cmd" "pu_keys p = pb_keys cmd"
      "publication_ok p" "fst v = fst w" "publish_stored_operation ck p v = (Inr res, w')"
      "r = Inr res \<or> r = Inl CatalogContextEnded"
proof -
  have "(fst w' = fst w \<and> (\<exists>e. r = Inl e))
    \<or> (\<exists>p u v. normalize_scope_tables (pb_scope cmd) = Inr (pu_scope p)
        \<and> validate_snapshot (cmd\<lparr>pb_scope := pu_scope p\<rparr>) = Inr u \<and> pu_data_source p = pb_data_source cmd
        \<and> pu_nodes p = pb_nodes cmd \<and> pu_keys p = pb_keys cmd
        \<and> fst v = fst w \<and> publish_stored_snapshot ck p v = (r, w'))"
  proof (cases "normalize_scope_tables (pb_scope cmd)")
    case (Inl e)
    with assms show ?thesis
      by (auto simp: publish_snapshot_def publish_started_snapshot_def act_bind_def act_pure_def)
  next
    case scope: (Inr scope)
    show ?thesis
    proof (cases "validate_snapshot (cmd\<lparr>pb_scope := scope\<rparr>)")
      case (Inl e)
      with assms scope show ?thesis
        by (auto simp: publish_snapshot_def publish_started_snapshot_def act_bind_def act_pure_def split: sum.splits)
    next
      case valid: (Inr u)
      from assms show ?thesis
      proof
        assume "publish_snapshot (catalog_on_tables ck now seal usable) cmd w = (r, w')"
        with scope valid show ?thesis
          by (auto simp: publish_snapshot_def on_tables_fields act_bind_def act_pure_def catalog_id_def on_ids_def
              split: prod.splits sum.splits)
      next
        assume run: "publish_started_snapshot (catalog_on_tables ck now seal usable) run cmd w = (r, w')"
        let ?p = "\<lparr>pu_run = sx_id run, pu_data_source = pb_data_source cmd, pu_nodes = pb_nodes cmd,
          pu_keys = pb_keys cmd, pu_scope = scope, pu_started_at = sx_started_at run, pu_prestarted = True\<rparr>"
        from run scope valid consider "w' = w" "\<exists>e. r = Inl e" | "publish_stored_snapshot ck ?p w = (r, w')"
          by (fastforce simp: publish_started_snapshot_def on_tables_fields act_bind_def act_pure_def split: sum.splits)
        then show ?thesis
          by cases (use scope valid in \<open>auto intro!: exI [of _ ?p] exI [of _ "snd w"]\<close>)
      qed
    qed
  qed
  then show thesis
  proof (elim disjE exE conjE)
    fix e assume "fst w' = fst w" "r = Inl e"
    then show thesis by (rule unchanged)
  next
    fix p u v
    assume p: "normalize_scope_tables (pb_scope cmd) = Inr (pu_scope p)"
      "validate_snapshot (cmd\<lparr>pb_scope := pu_scope p\<rparr>) = Inr u" "pu_data_source p = pb_data_source cmd"
      "pu_nodes p = pb_nodes cmd" "pu_keys p = pb_keys cmd" "fst v = fst w"
      and run: "publish_stored_snapshot ck p v = (r, w')"
    have ok: "publication_ok p" by (rule validated_publication_ok [OF p(2)]) (simp add: p(4))
    from run show thesis
    proof (cases rule: publish_stored_outcome)
      case (unchanged e)
      with p(6) that(1) show thesis by simp
    next
      case (published res v')
      with p ok that(2) [of p v' res] show thesis by simp
    qed
  qed
qed

definition publishes_with ::
  "'g catalog_store \<Rightarrow> int \<Rightarrow> (string \<Rightarrow> (string \<times> string) option) option \<Rightarrow> (string \<Rightarrow> bool) option
    \<Rightarrow> schema_scan_run option \<Rightarrow> publish_snapshot_command \<Rightarrow> (catalog_db \<times> 'g, catalog_error, published_snapshot) action" where
  "publishes_with ck now seal usable run cmd =
     (case run of
        None \<Rightarrow> publish_snapshot (catalog_on_tables ck now seal usable) cmd
      | Some run \<Rightarrow> publish_started_snapshot (catalog_on_tables ck now seal usable) run cmd)"

lemma publishes_with_cases:
  assumes "publishes_with ck now seal usable run cmd w = (r, w')"
  obtains (unchanged) e where "fst w' = fst w" "r = Inl e"
  | (published) p res v where "normalize_scope_tables (pb_scope cmd) = Inr (pu_scope p)"
      "pu_data_source p = pb_data_source cmd" "pu_nodes p = pb_nodes cmd" "pu_keys p = pb_keys cmd"
      "publication_ok p" "fst v = fst w" "publish_stored_operation ck p v = (Inr res, w')"
      "r = Inr res \<or> r = Inl CatalogContextEnded"
proof -
  have "publish_snapshot (catalog_on_tables ck now seal usable) cmd w = (r, w')
    \<or> publish_started_snapshot (catalog_on_tables ck now seal usable) (the run) cmd w = (r, w')"
    using assms by (cases run) (simp_all add: publishes_with_def)
  then show thesis by (cases rule: published_parts) (rule unchanged published; assumption)+
qed

text \<open>C15.
  In every state of such a run, publishing a snapshot, with or without a scan that was started
  before, is an update of the catalog
  of its source as a map from stable keys to entries, and it is all or nothing. Either the tables
  are as they were and the answer is an error, or the map is the old one with the nodes of the
  snapshot written over it and the active entries that the snapshot does not have, as far as its
  scope of tables goes, marked stale; then the catalogs of other sources are as before, and the
  answer is the number of nodes, unless the caller's context ended while the write was queued.
\<close>

theorem publication_refines_catalog:
  assumes "codec_stable (ck_codec ck)" "w = serve_catalog ck seal usable calls (empty_catalog, g)"
    and "publishes_with ck now seal usable run cmd w = (r, w')"
  shows "fst w' = fst w \<and> (\<exists>e. r = Inl e)
    \<or> (\<exists>scope res. normalize_scope_tables (pb_scope cmd) = Inr scope
        \<and> (\<forall>i. catalog_view (fst w') i
             = (if i = pb_data_source cmd
                then publish_view (pb_nodes cmd) scope (catalog_view (fst w) i) else catalog_view (fst w) i))
        \<and> ps_nodes res = int (length (pb_nodes cmd)) \<and> (r = Inr res \<or> r = Inl CatalogContextEnded))"
proof -
  have ok: "catalog_ok ck (fst w)" unfolding assms(2) by (rule reachable_catalog_ok [OF assms(1)])
  from assms(3) show ?thesis
  proof (cases rule: publishes_with_cases)
    case (unchanged e)
    then show ?thesis by simp
  next
    case (published p res v)
    have "catalog_ok ck (fst v)" using ok published(6) by simp
    from publish_effect_parts [OF published(7) this published(5)]
    have view: "catalog_view (fst w') (pu_data_source p)
        = publish_view (pu_nodes p) (pu_scope p) (catalog_view (fst v) (pu_data_source p))"
      and others: "\<And>i. i \<noteq> pu_data_source p \<Longrightarrow> catalog_view (fst w') i = catalog_view (fst v) i"
      and count: "ps_nodes res = int (length (pu_nodes p))"
      by - (blast, blast, blast)
    then show ?thesis using published
      by (intro disjI2 exI [of _ "pu_scope p"] exI [of _ res]) auto
  qed
qed

subsection \<open>Declared foreign keys\<close>

text \<open>
  A key that the database has is an approved relation with one effective edge, or one that a
  reviewer has suppressed; a key that it has not any more has no edge.
\<close>

definition shown_key :: "catalog_db \<Rightarrow> int \<Rightarrow> string \<Rightarrow> bool" where
  "shown_key d source_id key \<longleftrightarrow>
     (\<exists>r c. key_row d source_id key = Some r \<and> dr_present r
        \<and> find_current (cat_relations d) (dr_relation r) = Some c \<and> cr_proposed c = None
        \<and> (cr_status c = StatusApproved \<and> length (edges_of (cat_relations d) (dr_relation r)) = 1
           \<or> cr_status c = StatusSuppressed \<and> edges_of (cat_relations d) (dr_relation r) = []))"

definition hidden_key :: "catalog_db \<Rightarrow> int \<Rightarrow> string \<Rightarrow> bool" where
  "hidden_key d source_id key \<longleftrightarrow>
     (\<exists>r. key_row d source_id key = Some r \<and> \<not> dr_present r
        \<and> edges_of (cat_relations d) (dr_relation r) = [])"

lemma declared_row_edges:
  assumes ok: "catalog_ok ck d" and row: "key_row d source_id key = Some r"
  shows "if dr_present r then shown_key d source_id key else hidden_key d source_id key"
proof -
  have store: "store_inv (ck_codec ck) (cat_relations d)" using ok by (simp add: catalog_ok_def)
  have "declared_ok (cat_relations d) (dr_present r) (dr_relation r)"
    using ok key_row_Some [OF row] by (simp add: catalog_ok_def keys_ok_def)
  then obtain c where c: "find_current (cat_relations d) (dr_relation r) = Some c" "cr_proposed c = None"
      "cr_status c \<in> (if dr_present r then {StatusApproved, StatusSuppressed} else {StatusTombstoned, StatusSuppressed})"
    by (auto simp: declared_ok_def declared_state_def)
  have "cr_relation c = dr_relation r" by (rule find_current_relation [OF c(1)])
  then have "if cr_status c = StatusApproved
      then length (edges_of (cat_relations d) (dr_relation r)) = 1
      else edges_of (cat_relations d) (dr_relation r) = []"
    using store_inv_row [OF store c(1)] by (auto simp: row_ok_def split: if_splits)
  then show ?thesis using row c by (auto simp: shown_key_def hidden_key_def split: if_splits)
qed

text \<open>C16.
  A publication decides what the graph shows of the declared foreign keys of its source. When it
  has succeeded, every key of the snapshot is shown: it is present and its relation is approved with
  one effective edge, unless a reviewer has suppressed it. A key that the snapshot does not have is
  hidden, with no edge, when its source column, by the name it now has, is in the scope of the
  snapshot, and is as it was otherwise, like the keys of all other sources.
\<close>

theorem publication_decides_declared_keys:
  assumes "codec_stable (ck_codec ck)" "w = serve_catalog ck seal usable calls (empty_catalog, g)"
    and "publishes_with ck now seal usable run cmd w = (Inr res, w')"
    and "normalize_scope_tables (pb_scope cmd) = Inr scope"
  shows "(\<forall>k\<in>set (pb_keys cmd). shown_key (fst w') (pb_data_source cmd)
       (declared_foreign_key_stable_key ck (pb_data_source cmd) k))
    \<and> (\<forall>i key r. key_row (fst w) i key = Some r \<longrightarrow>
         \<not> (i = pb_data_source cmd \<and> key \<in> declared_foreign_key_stable_key ck i ` set (pb_keys cmd)) \<longrightarrow>
         (if i = pb_data_source cmd \<and> key_in_scope scope (fst w') r then hidden_key (fst w') i key
          else key_row (fst w') i key = Some r))"
proof -
  let ?src = "pb_data_source cmd"
  have ok: "catalog_ok ck (fst w)" unfolding assms(2) by (rule reachable_catalog_ok [OF assms(1)])
  from assms(3) show ?thesis
  proof (cases rule: publishes_with_cases)
    case (unchanged e)
    then show ?thesis by simp
  next
    case (published p res' v)
    have p: "pu_scope p = scope" "pu_data_source p = ?src" "pu_keys p = pb_keys cmd" "fst v = fst w"
      using published assms(4) by simp_all
    have "catalog_ok ck (fst v)" using ok p(4) by simp
    from publish_effect_parts [OF published(7) this published(5)]
    have after: "catalog_ok ck (fst w')"
      and seen: "\<forall>key\<in>snapshot_keys ck p. \<exists>r. key_row (fst w') (pu_data_source p) key = Some r
        \<and> dr_present r \<and> dr_last_seen r = pu_run p"
      and gone: "\<And>key r. key \<notin> snapshot_keys ck p \<Longrightarrow> key_row (fst v) (pu_data_source p) key = Some r \<Longrightarrow>
        dr_present r \<Longrightarrow> key_in_scope (pu_scope p) (fst w') r \<Longrightarrow>
        \<exists>r'. key_row (fst w') (pu_data_source p) key = Some r' \<and> \<not> dr_present r'"
      and kept: "\<And>i key. \<not> (i = pu_data_source p \<and> key \<in> snapshot_keys ck p) \<Longrightarrow>
        (\<And>r. key_row (fst v) i key = Some r \<Longrightarrow>
           \<not> (i = pu_data_source p \<and> dr_present r \<and> key_in_scope (pu_scope p) (fst w') r)) \<Longrightarrow>
        key_row (fst w') i key = key_row (fst v) i key"
      by - (blast, blast, blast, blast)
    have keys: "snapshot_keys ck p = declared_foreign_key_stable_key ck ?src ` set (pb_keys cmd)"
      by (simp add: snapshot_keys_def p)
    have "shown_key (fst w') ?src (declared_foreign_key_stable_key ck ?src k)" if "k \<in> set (pb_keys cmd)" for k
    proof -
      have "declared_foreign_key_stable_key ck ?src k \<in> snapshot_keys ck p" using that keys by simp
      with seen obtain r where "key_row (fst w') ?src (declared_foreign_key_stable_key ck ?src k) = Some r" "dr_present r"
        unfolding p(2) by blast
      with declared_row_edges [OF after this(1)] show ?thesis by simp
    qed
    moreover have "if i = ?src \<and> key_in_scope scope (fst w') r then hidden_key (fst w') i key
        else key_row (fst w') i key = Some r"
      if row: "key_row (fst w) i key = Some r"
        and new: "\<not> (i = ?src \<and> key \<in> declared_foreign_key_stable_key ck i ` set (pb_keys cmd))" for i key r
    proof -
      have out: "\<not> (i = ?src \<and> key \<in> snapshot_keys ck p)" using new keys by auto
      show ?thesis
      proof (cases "i = ?src \<and> key_in_scope scope (fst w') r")
        case False
        then have "key_row (fst w') i key = key_row (fst v) i key"
          using kept [of i key] out row unfolding p by auto
        with False row p(4) show ?thesis by auto
      next
        case True
        show ?thesis
        proof (cases "dr_present r")
          case present: True
          then obtain r' where "key_row (fst w') ?src key = Some r'" "\<not> dr_present r'"
            using gone [of key r] out True row unfolding p by blast
          with declared_row_edges [OF after this(1)] True show ?thesis by simp
        next
          case absent: False
          have "key_row (fst w') i key = key_row (fst v) i key"
            using kept [of i key] out row absent unfolding p by auto
          with row p(4) have "key_row (fst w') i key = Some r" by simp
          with declared_row_edges [OF after this] absent True show ?thesis by simp
        qed
      qed
    qed
    ultimately show ?thesis by blast
  qed
qed

end
