(* ===== verification/CatalogWitnesses.thy ===== *)
theory CatalogWitnesses
  imports CatalogProperties RelationProperties
begin

section \<open>A sample catalog\<close>

text \<open>
  A source is registered and a scan publishes a database with one table of two columns, of which
  one refers to the other; the next scan finds the foreign key gone.
\<close>

definition catalog_codec :: codec where
  "catalog_codec =
     \<lparr>marshal_boolean = (\<lambda>_. None), unmarshal_boolean = (\<lambda>_. None), marshal_value = (\<lambda>_. Some ''{}''),
      unmarshal_value = (\<lambda>s. if s = ''{}'' then Some sample_value else None)\<rparr>"

lemma catalog_codec_stable: "codec_stable catalog_codec"
  by (auto simp: codec_stable_def catalog_codec_def split: if_splits)

definition sample_store :: "int catalog_store" where
  "sample_store =
     \<lparr>ck_codec = catalog_codec, ck_engine = (\<lambda>_. True), ck_next = (\<lambda>g. (Inr g, g + 1)), ck_ensure = None,
      ck_hash = (\<lambda>s. s)\<rparr>"

definition sample_node :: "node_kind \<Rightarrow> string \<Rightarrow> string \<Rightarrow> node_input" where
  "sample_node kind key parent =
     \<lparr>ni_key = key, ni_parent = parent, ni_kind = kind, ni_name = key, ni_qualified = key, ni_type = [],
      ni_nullable = False, ni_ordinal = 0, ni_indexes = [], ni_comment = []\<rparr>"

definition sample_key :: declared_key where
  "sample_key = \<lparr>dk_schema = ''d'', dk_name = ''f'', dk_source = ''a'', dk_target = ''b'', dk_ordinal = 1\<rparr>"

definition sample_snapshot :: "declared_key list \<Rightarrow> publish_snapshot_command" where
  "sample_snapshot keys =
     \<lparr>pb_data_source = 1,
      pb_nodes = [sample_node NodeDatabase ''d'' [], sample_node NodeColumn ''a'' ''d'',
        sample_node NodeColumn ''b'' ''d''],
      pb_keys = keys, pb_scope = []\<rparr>"

definition sample_source :: admin_create_data_source where
  "sample_source =
     \<lparr>ac_name = ''s'', ac_kind = data_source_mysql, ac_environment = [], ac_dsn = [],
      ac_principal = \<lparr>pr_actor = ''a'', pr_role = RoleAdmin, pr_origin = OriginWeb\<rparr>,
      ac_reason = [], ac_request_id = ''q''\<rparr>"

definition sample_served :: "catalog_call list \<Rightarrow> catalog_db \<times> int" where
  "sample_served cs = serve_catalog sample_store None None (map (Pair 5) cs) (empty_catalog, 1)"

definition sample_published ::
  "declared_key list \<Rightarrow> catalog_db \<times> int \<Rightarrow> (catalog_error + published_snapshot) \<times> (catalog_db \<times> int)" where
  "sample_published keys = publishes_with sample_store 5 None None None (sample_snapshot keys)"

definition sample_registered :: "catalog_db \<times> int" where
  "sample_registered = sample_served [CallCreateSource sample_source]"

definition sample_scanned :: "catalog_db \<times> int" where
  "sample_scanned = sample_served [CallCreateSource sample_source, CallPublish (sample_snapshot [sample_key])]"

text \<open>The key, its relation and whether it is in the scope, in each state.\<close>

definition sample_keys :: "catalog_db \<Rightarrow> catalog_db \<Rightarrow> (int \<times> string \<times> bool \<times> bool) list" where
  "sample_keys d d' =
     map (\<lambda>r. (dr_data_source r, dr_key r, dr_present r, key_in_scope [] d' r)) (declared_keys_t d)"

lemma sample_first_scan:
  "result_ok (fst (sample_published [sample_key] sample_registered))" by code_simp

lemma sample_second_scan:
  "result_ok (fst (sample_published [] sample_scanned))" by code_simp

lemma sample_scanned_keys:
  "sample_keys (fst sample_scanned) (fst (snd (sample_published [] sample_scanned)))
     = [(1, declared_foreign_key_stable_key sample_store 1 sample_key, True, True)]"
  by code_simp

lemma sample_scope: "normalize_scope_tables (pb_scope (sample_snapshot keys)) = Inr []"
  by (simp add: normalize_scope_tables_def sample_snapshot_def maximum_catalog_tables_def)

lemma sample_store_stable: "codec_stable (ck_codec sample_store)"
  by (simp add: sample_store_def catalog_codec_stable)

lemma sample_snapshot_fields:
  "pb_data_source (sample_snapshot keys) = 1" "pb_keys (sample_snapshot keys) = keys"
  by (simp_all add: sample_snapshot_def)

lemma catalog_run_invariant_witness:
  "catalog_ok sample_store (fst sample_scanned)
   \<and> (\<exists>r. key_row (fst sample_scanned) 1 (declared_foreign_key_stable_key sample_store 1 sample_key) = Some r)"
proof
  show ok: "catalog_ok sample_store (fst sample_scanned)"
    unfolding sample_scanned_def sample_served_def by (rule catalog_run_invariant [OF sample_store_stable])
  obtain r where "r \<in> set (declared_keys_t (fst sample_scanned))" "dr_data_source r = 1"
      "dr_key r = declared_foreign_key_stable_key sample_store 1 sample_key"
    using sample_scanned_keys by (auto simp: sample_keys_def)
  with key_row_row [of "fst sample_scanned" r] ok
  show "\<exists>r. key_row (fst sample_scanned) 1 (declared_foreign_key_stable_key sample_store 1 sample_key) = Some r"
    by (auto simp: catalog_ok_def)
qed

lemma publication_refines_catalog_witness:
  "\<exists>d e. fst (snd (sample_published [sample_key] sample_registered)) = d
     \<and> catalog_view d 1 ''a'' = Some e \<and> ce_status e = NodeActive \<and> ce_parent e = ''d''"
proof -
  let ?run = "sample_published [sample_key] sample_registered"
  obtain res where "fst ?run = Inr res" using result_okE [OF sample_first_scan] by blast
  then have run: "publishes_with sample_store 5 None None None (sample_snapshot [sample_key]) sample_registered = (Inr res, snd ?run)"
    unfolding sample_published_def by (metis prod.collapse)
  have "sample_registered = serve_catalog sample_store None None (map (Pair 5) [CallCreateSource sample_source]) (empty_catalog, 1)"
    by (simp add: sample_registered_def sample_served_def)
  from publication_refines_catalog [OF sample_store_stable this run] sample_scope
  have "catalog_view (fst (snd ?run)) 1
      = publish_view (pb_nodes (sample_snapshot [sample_key])) [] (catalog_view (fst sample_registered) 1)"
    by (auto simp: sample_snapshot_fields)
  then show ?thesis
    by (simp add: publish_view_def sample_snapshot_def sample_node_def snapshot_entry_def)
qed

lemma publication_decides_declared_keys_witness:
  "shown_key (fst (snd (sample_published [sample_key] sample_registered))) 1 (declared_foreign_key_stable_key sample_store 1 sample_key)
   \<and> hidden_key (fst (snd (sample_published [] sample_scanned))) 1 (declared_foreign_key_stable_key sample_store 1 sample_key)"
proof
  let ?key = "declared_foreign_key_stable_key sample_store 1 sample_key"
  let ?first = "sample_published [sample_key] sample_registered" and ?second = "sample_published [] sample_scanned"
  obtain res res' where "fst ?first = Inr res" "fst ?second = Inr res'"
    using result_okE [OF sample_first_scan] result_okE [OF sample_second_scan] by blast
  then have runs:
    "publishes_with sample_store 5 None None None (sample_snapshot [sample_key]) sample_registered = (Inr res, snd ?first)"
    "publishes_with sample_store 5 None None None (sample_snapshot []) sample_scanned = (Inr res', snd ?second)"
    unfolding sample_published_def by (metis prod.collapse)+
  have served:
    "sample_registered = serve_catalog sample_store None None (map (Pair 5) [CallCreateSource sample_source]) (empty_catalog, 1)"
    "sample_scanned = serve_catalog sample_store None None
       (map (Pair 5) [CallCreateSource sample_source, CallPublish (sample_snapshot [sample_key])]) (empty_catalog, 1)"
    by (simp_all only: sample_registered_def sample_scanned_def sample_served_def)
  note decided = publication_decides_declared_keys [OF sample_store_stable served(1) runs(1) sample_scope]
    publication_decides_declared_keys [OF sample_store_stable served(2) runs(2) sample_scope]
  show "shown_key (fst (snd ?first)) 1 ?key" using decided(1) by (simp add: sample_snapshot_fields)
  obtain r where r: "r \<in> set (declared_keys_t (fst sample_scanned))" "dr_data_source r = 1" "dr_key r = ?key"
      "key_in_scope [] (fst (snd ?second)) r"
    using sample_scanned_keys by (auto simp: sample_keys_def)
  have "keys_ok (fst sample_scanned)"
    using reachable_catalog_ok [OF sample_store_stable] unfolding served(2) catalog_ok_def by blast
  from key_row_row [OF this r(1)] r(2,3) have "key_row (fst sample_scanned) 1 ?key = Some r" by simp
  then show "hidden_key (fst (snd ?second)) 1 ?key"
    using conjunct2 [OF decided(2), rule_format, of 1 ?key r] r(4) by (simp add: sample_snapshot_fields)
qed

end
