(* ===== verification/Spec2Isabelle.thy ===== *)
theory Spec2Isabelle
  imports ConditionSemantics Ids RelationProperties GraphProperties JobProperties WriteQueueProperties ReconcileWitnesses
    CatalogWitnesses
begin

text \<open>
  A verification library for dbgraph.
\<close>

end
